(* ===== verification/Prelude.thy ===== *)
theory Prelude
  imports Main "HOL-Library.Word" "HOL-Library.Multiset"
begin

unbundle bit_operations_syntax

section \<open>Shared vocabulary and generic lemmas\<close>

text \<open>
  The C integer types of the driver, the serial-number order that the driver uses for
  sequence counters that wrap, and the generic list and word facts that several
  components share.  The collections \<open>word_nat\<close> (arithmetic on words read as natural
  numbers) and \<open>conserve\<close> (multiset bookkeeping of buffers) are filled by the components.
\<close>

type_synonym u8 = "8 word"
type_synonym u16 = "16 word"
type_synonym u32 = "32 word"
type_synonym u64 = "64 word"
type_synonym bytes = "8 word list"

named_theorems word_nat \<open>increments, decrements and comparisons of words as naturals\<close>
named_theorems conserve \<open>every buffer is accounted for exactly once\<close>

subsection \<open>Words\<close>

lemma unat_inc [word_nat]:
  fixes x y :: "'a::len word"
  assumes "x < y"
  shows "unat (x + 1) = Suc (unat x)"
proof -
  have "unat x < unat y"
    using assms by (simp add: word_less_nat_alt)
  moreover have "unat y < 2 ^ LENGTH('a)"
    by (rule unsigned_less)
  ultimately have "unat x + 1 < 2 ^ LENGTH('a)"
    by linarith
  then have "unat x + unat (1 :: 'a word) < 2 ^ LENGTH('a)"
    by simp
  then show ?thesis
    by (simp add: unat_add_lem [THEN iffD1])
qed

lemma unat_dec [word_nat]:
  fixes x :: "'a::len word"
  assumes "x \<noteq> 0"
  shows "unat (x - 1) = unat x - 1"
  using assms by (rule unat_minus_one)

lemma unat_less_iff [word_nat]: "(x < y) = (unat x < unat y)"
  for x y :: "'a::len word"
  by (rule word_less_nat_alt)

lemma unat_le_iff [word_nat]: "(x \<le> y) = (unat x \<le> unat y)"
  for x y :: "'a::len word"
  by (rule word_le_nat_alt)

lemma unat_ucast_up:
  fixes x :: "'a::len word"
  assumes "LENGTH('a) \<le> LENGTH('b::len)"
  shows "unat (ucast x :: 'b word) = unat x"
proof -
  have "unat x < 2 ^ LENGTH('a)" by (rule unsigned_less)
  also have "(2 :: nat) ^ LENGTH('a) \<le> 2 ^ LENGTH('b)" using assms by simp
  finally show ?thesis by (simp add: unsigned_ucast_eq take_bit_nat_eq_self)
qed

lemma unat_ucast_widen [simp]:
  "unat (ucast (a :: u8) :: u16) = unat a" "unat (ucast (a :: u8) :: u32) = unat a"
  "unat (ucast (b :: u16) :: u32) = unat b" "unat (ucast (b :: u16) :: u64) = unat b"
  "unat (ucast (a :: u8) :: u64) = unat a" "unat (ucast (c :: u32) :: u64) = unat c"
  by (simp_all add: unat_ucast_up)

subsection \<open>Reading integers from memory\<close>

text \<open>
  Memory is a total function from offsets to bytes: C reads whatever lies there, also
  past the end of a packet.  The host is little-endian, \<open>le16\<close> and \<open>le32\<close> are plain
  loads and \<open>be16\<close> and \<open>be32\<close> are the loads followed by \<open>ntohs\<close> and \<open>ntohl\<close>.
\<close>

type_synonym mem = "nat \<Rightarrow> u8"

definition le16 :: "mem \<Rightarrow> nat \<Rightarrow> u16" where
  "le16 buf i = ucast (buf i) + 256 * ucast (buf (i + 1))"

definition be16 :: "mem \<Rightarrow> nat \<Rightarrow> u16" where
  "be16 buf i = 256 * ucast (buf i) + ucast (buf (i + 1))"

definition le32 :: "mem \<Rightarrow> nat \<Rightarrow> u32" where
  "le32 buf i = ucast (le16 buf i) + 65536 * ucast (le16 buf (i + 2))"

definition be32 :: "mem \<Rightarrow> nat \<Rightarrow> u32" where
  "be32 buf i = 65536 * ucast (be16 buf i) + ucast (be16 buf (i + 2))"

lemma unat_u8_less [simp]: "unat (x :: u8) < 256"
  using unsigned_less [of x] by simp

lemma unat_u16_less [simp]: "unat (x :: u16) < 65536"
  using unsigned_less [of x] by simp

lemma unat_ucast_8_16: "unat (ucast (x :: u8) :: u16) = unat x"
proof -
  have "unat x < 2 ^ 16"
    by (rule less_le_trans [OF unat_u8_less]) simp
  then show ?thesis
    by (simp add: unsigned_ucast_eq take_bit_nat_eq_self)
qed

lemma unat_be16: "unat (be16 buf i) = 256 * unat (buf i) + unat (buf (i + 1))"
proof -
  have b: "unat (buf i) < 256" "unat (buf (i + 1)) < 256"
    by (rule unat_u8_less)+
  have "unat (be16 buf i) = (256 * unat (buf i) + unat (buf (i + 1))) mod 65536"
    by (simp add: be16_def unat_word_ariths unat_ucast_8_16 mod_add_left_eq)
  also have "\<dots> = 256 * unat (buf i) + unat (buf (i + 1))"
    using b by (intro mod_less) linarith
  finally show ?thesis .
qed

lemma unat_be16_of_nat:
  assumes "buf i = of_nat (n div 256)" and "buf (i + 1) = of_nat (n mod 256)" and "n < 65536"
  shows "unat (be16 buf i) = n"
  using assms by (simp add: unat_be16 unat_of_nat)

lemma unat_le16: "unat (le16 buf i) = unat (buf i) + 256 * unat (buf (i + 1))"
proof -
  have b: "unat (buf i) < 256" "unat (buf (i + 1)) < 256"
    by (rule unat_u8_less)+
  have "unat (le16 buf i) = (unat (buf i) + 256 * unat (buf (i + 1))) mod 65536"
    by (simp add: le16_def unat_word_ariths unat_ucast_8_16 mod_add_right_eq)
  also have "\<dots> = unat (buf i) + 256 * unat (buf (i + 1))"
    using b by (intro mod_less) linarith
  finally show ?thesis .
qed

lemma le16_halves:
  assumes "buf i = ucast w" and "buf (Suc i) = ucast (drop_bit 8 w)"
  shows "le16 buf i = (w :: u16)"
proof -
  have "unat w < 65536" using unsigned_less [of w] by simp
  then have "unat w div 256 < 256" by (simp add: less_mult_imp_div_less)
  then have "unat (le16 buf i) = unat w"
    using assms by (simp add: unat_le16 unsigned_ucast_eq take_bit_eq_mod drop_bit_eq_div unat_div_distrib)
  then show ?thesis by (rule unsigned_word_eqI)
qed

lemma unat_low_nibble: "unat (x AND 0x0F) = unat x mod 16" for x :: u8
proof -
  have "x AND 0x0F = take_bit 4 x" by (simp add: take_bit_eq_mask mask_eq_exp_minus_1)
  then show ?thesis by (simp add: take_bit_eq_mod unat_mod_distrib)
qed

lemma unat_mask12: "unat (x AND 0xFFF) = unat x mod 4096" for x :: u16
proof -
  have "x AND 0xFFF = take_bit 12 x" by (simp add: take_bit_eq_mask mask_eq_exp_minus_1)
  then show ?thesis by (simp add: take_bit_eq_mod unat_mod_distrib)
qed

text \<open>A list of bytes lies in memory at offset \<open>p\<close>.\<close>

definition mem_at :: "mem \<Rightarrow> nat \<Rightarrow> bytes \<Rightarrow> bool" where
  "mem_at buf p xs \<longleftrightarrow> (\<forall>i<length xs. buf (p + i) = xs ! i)"

lemma mem_at_Nil [simp]: "mem_at buf p []"
  by (simp add: mem_at_def)

lemma mem_at_Cons [simp]: "mem_at buf p (x # xs) \<longleftrightarrow> buf p = x \<and> mem_at buf (Suc p) xs"
  by (auto simp: mem_at_def nth_Cons All_less_Suc2 split: nat.splits)

lemma mem_at_append [simp]:
  "mem_at buf p (xs @ ys) \<longleftrightarrow> mem_at buf p xs \<and> mem_at buf (p + length xs) ys"
  by (induction xs arbitrary: p) simp_all

lemma mem_at_shift: "mem_at (\<lambda>i. buf (n + i)) p xs \<longleftrightarrow> mem_at buf (n + p) xs"
  by (simp add: mem_at_def add.assoc)

subsection \<open>First index of a list\<close>

text \<open>
  The table scans of the driver are loops \<open>for (i = 0; ret < 0 && i < N; i++)\<close> that
  stop at the first matching slot; \<open>None\<close> is their result \<open>-1\<close>.
\<close>

fun first_index :: "('a \<Rightarrow> bool) \<Rightarrow> 'a list \<Rightarrow> nat option" where
  "first_index P [] = None"
| "first_index P (x # xs) = (if P x then Some 0 else map_option Suc (first_index P xs))"

lemma first_index_Some:
  "first_index P xs = Some i \<longleftrightarrow> i < length xs \<and> P (xs ! i) \<and> (\<forall>j<i. \<not> P (xs ! j))"
proof (induction xs arbitrary: i)
  case Nil
  then show ?case by simp
next
  case (Cons x xs)
  show ?case
    by (cases i) (auto simp: Cons.IH nth_Cons split: nat.splits)
qed

lemma first_index_None: "first_index P xs = None \<longleftrightarrow> (\<forall>x\<in>set xs. \<not> P x)"
  by (induction xs) auto

lemma first_index_less [dest]: "first_index P xs = Some i \<Longrightarrow> i < length xs"
  by (simp add: first_index_Some)

lemma first_index_holds: "first_index P xs = Some i \<Longrightarrow> P (xs ! i)"
  by (simp add: first_index_Some)

subsection \<open>Counting list elements\<close>

definition count_if :: "('a \<Rightarrow> bool) \<Rightarrow> 'a list \<Rightarrow> nat" where
  "count_if P xs = length (filter P xs)"

lemma count_if_simps [simp]:
  "count_if P [] = 0"
  "count_if P (x # xs) = (if P x then Suc (count_if P xs) else count_if P xs)"
  by (simp_all add: count_if_def)

lemma count_if_le_length: "count_if P xs \<le> length xs"
  by (simp add: count_if_def)

lemma count_if_update:
  "i < length xs \<Longrightarrow>
   count_if P (xs[i := y]) + (if P (xs ! i) then 1 else 0)
     = count_if P xs + (if P y then 1 else 0)"
proof (induction xs arbitrary: i)
  case Nil
  then show ?case by simp
next
  case (Cons x xs)
  then show ?case by (cases i) auto
qed

lemma count_if_update_same:
  "i < length xs \<Longrightarrow> P y = P (xs ! i) \<Longrightarrow> count_if P (xs[i := y]) = count_if P xs"
  using count_if_update [of i xs P y] by (auto split: if_splits)

lemma count_if_full: "count_if P xs = length xs \<longleftrightarrow> (\<forall>x\<in>set xs. P x)"
proof (induction xs)
  case Nil
  then show ?case by simp
next
  case (Cons x xs)
  then show ?case
    using count_if_le_length [of P xs] by (auto simp: Suc_le_eq)
qed

lemma count_if_replicate [simp]: "count_if P (replicate n x) = (if P x then n else 0)"
  by (simp add: count_if_def)

subsection \<open>Buffers as multisets\<close>

fun opt_mset :: "'a option \<Rightarrow> 'a multiset" where
  "opt_mset None = {#}"
| "opt_mset (Some x) = {#x#}"

lemma sum_list_update_add:
  fixes xs :: "'a::comm_monoid_add list"
  shows "i < length xs \<Longrightarrow> sum_list (xs[i := y]) + xs ! i = sum_list xs + y"
proof (induction xs arbitrary: i)
  case Nil
  then show ?case by simp
next
  case (Cons x xs)
  show ?case
  proof (cases i)
    case 0
    then show ?thesis by (simp add: ac_simps)
  next
    case (Suc j)
    then show ?thesis
      using Cons.IH [of j] Cons.prems by (simp add: add.assoc)
  qed
qed

subsection \<open>Lists of lists\<close>

text \<open>The frames of an array of queues, when one of the queues is replaced.\<close>

lemma length_concat_update:
  "i < length xss \<Longrightarrow> length (concat (xss[i := ys])) + length (xss ! i) = length (concat xss) + length ys"
proof (induction xss arbitrary: i)
  case Nil
  then show ?case by simp
next
  case (Cons xs xss)
  then show ?case by (cases i) auto
qed

lemma mset_concat_update:
  "i < length xss \<Longrightarrow>
   mset (concat (xss[i := ys])) + mset (xss ! i) = mset (concat xss) + mset ys"
proof (induction xss arbitrary: i)
  case Nil
  then show ?case by simp
next
  case (Cons xs xss)
  show ?case
  proof (cases i)
    case (Suc j)
    then show ?thesis
      using Cons.IH [of j] Cons.prems by (simp add: add.assoc)
  qed (simp add: ac_simps)
qed

lemma length_nth_concat: "i < length xss \<Longrightarrow> length (xss ! i) \<le> length (concat xss)"
  using length_concat_update [of i xss "[]"] by simp

lemma mset_last_butlast: "xs \<noteq> [] \<Longrightarrow> add_mset (last xs) (mset (butlast xs)) = mset xs"
  by (cases xs rule: rev_cases) simp_all

end
