(* ===== verification/TcpAck.thy ===== *)
theory TcpAck
  imports Prelude
begin

unbundle bit_operations_syntax

section \<open>The TCP ACK filter\<close>

text \<open>
  \<open>aicwf_tcp_ack.c\<close> and \<open>aicwf_tcp_ack.h\<close>: the table of up to 32 TCP flows whose pure
  acknowledgements are thinned out on transmit.  An outgoing ACK of a known flow is
  either given back to the caller for transmission, held back (one per flow, released by
  a 5 ms timer) or dropped because a later ACK covers it.
  \<open>jiffies\<close> and \<open>msecs_to_jiffies\<close> belong to the kernel: the first is an argument \<open>now\<close>
  of each operation, the second a parameter \<open>m2j\<close>.  A \<open>struct msg_buf *\<close> is a number.
  A spin lock or seqlock section is one atomic step.
\<close>

subsection \<open>State\<close>

record tcp_ack_msg =
  source :: u16
  dest :: u16
  saddr :: u32
  daddr :: u32
  seq :: u32
  win :: u16

record tcp_ack_info =
  ack_info_num :: int
  busy :: bool
  drop_cnt :: int
  psh_flag :: bool
  psh_seq :: u32
  win_scale :: u16
  info_last_time :: u64
  info_timeout :: u64
  timer :: "u64 option"
  msgbuf :: "nat option"
  in_send_msg :: "nat option"
  ack_msg :: tcp_ack_msg

record tcp_ack_manage =
  enable :: bool
  max_num :: int
  free_index :: int
  last_time :: u64
  timeout :: u64
  max_drop_cnt :: int
  ack_info :: "tcp_ack_info list"
  ack_winsize :: u32

definition TCP_ACK_NUM :: nat where "TCP_ACK_NUM = 32"
definition TCP_ACK_DROP_CNT :: int where "TCP_ACK_DROP_CNT = 10"
definition ACK_OLD_TIME :: nat where "ACK_OLD_TIME = 4000"
definition MAX_TCP_ACK :: nat where "MAX_TCP_ACK = 200"
definition MIN_WIN :: u32 where "MIN_WIN = 256"
definition SIZE_KB :: u32 where "SIZE_KB = 1024"

definition U32_BEFORE :: "u32 \<Rightarrow> u32 \<Rightarrow> bool" where
  "U32_BEFORE a b \<longleftrightarrow> sint (a - b) \<le> 0"

definition time_after :: "u64 \<Rightarrow> u64 \<Rightarrow> bool" where
  "time_after a b \<longleftrightarrow> sint (b - a) < 0"

definition zero_msg :: tcp_ack_msg where
  "zero_msg = \<lparr>source = 0, dest = 0, saddr = 0, daddr = 0, seq = 0, win = 0\<rparr>"

definition upd_info :: "nat \<Rightarrow> (tcp_ack_info \<Rightarrow> tcp_ack_info) \<Rightarrow> tcp_ack_manage \<Rightarrow> tcp_ack_manage" where
  "upd_info i f m = m\<lparr>ack_info := (ack_info m)[i := f (ack_info m ! i)]\<rparr>"

subsection \<open>Start and stop\<close>

definition init_info :: "(nat \<Rightarrow> u64) \<Rightarrow> u64 \<Rightarrow> nat \<Rightarrow> tcp_ack_info" where
  "init_info m2j now i =
     \<lparr>ack_info_num = int i, busy = False, drop_cnt = 0, psh_flag = False, psh_seq = 0,
      win_scale = 0, info_last_time = now, info_timeout = m2j ACK_OLD_TIME, timer = None,
      msgbuf = None, in_send_msg = None, ack_msg = zero_msg\<rparr>"

definition tcp_ack_init :: "(nat \<Rightarrow> u64) \<Rightarrow> u64 \<Rightarrow> tcp_ack_manage" where
  "tcp_ack_init m2j now =
     \<lparr>enable = True, max_num = 0, free_index = 0, last_time = now,
      timeout = m2j ACK_OLD_TIME, max_drop_cnt = TCP_ACK_DROP_CNT,
      ack_info = map (init_info m2j now) [0..<TCP_ACK_NUM], ack_winsize = MIN_WIN\<rparr>"

text \<open>The result pairs the new table with the messages freed by \<open>intf_tcp_drop_msg\<close>.\<close>

definition tcp_ack_deinit :: "tcp_ack_manage \<Rightarrow> tcp_ack_manage \<times> nat list" where
  "tcp_ack_deinit m =
     (m\<lparr>enable := False,
        ack_info := map (\<lambda>a. a\<lparr>timer := None, msgbuf := None\<rparr>) (ack_info m)\<rparr>,
      List.map_filter msgbuf (ack_info m))"

subsection \<open>Classifying a packet\<close>

definition ETH_P_IP :: u16 where "ETH_P_IP = 0x0800"
definition IPPROTO_TCP :: u8 where "IPPROTO_TCP = 6"
definition TCPOPT_EOL :: u8 where "TCPOPT_EOL = 0"
definition TCPOPT_NOP :: u8 where "TCPOPT_NOP = 1"
definition TCPOPT_WINDOW :: u8 where "TCPOPT_WINDOW = 3"
definition TCPOPT_TIMESTAMP :: u8 where "TCPOPT_TIMESTAMP = 8"

text \<open>
  Offsets in a packet: the Ethernet header has 14 bytes, the IP header starts after it and
  the TCP header \<open>4 * ihl\<close> bytes later.
\<close>

definition ip_hdr_len :: "mem \<Rightarrow> nat" where
  "ip_hdr_len buf = 4 * unat (buf 14 AND 15)"

definition tcp_off :: "mem \<Rightarrow> nat" where
  "tcp_off buf = 14 + ip_hdr_len buf"

definition is_ipv4_tcp :: "mem \<Rightarrow> bool" where
  "is_ipv4_tcp buf \<longleftrightarrow>
     be16 buf 12 = ETH_P_IP \<and> drop_bit 4 (buf 14) = 4 \<and> buf (14 + 9) = IPPROTO_TCP"

definition tcp_check_quick_ack :: "mem \<Rightarrow> tcp_ack_msg \<Rightarrow> tcp_ack_msg option" where
  "tcp_check_quick_ack buf msg =
     (let t = tcp_off buf in
      if \<not> is_ipv4_tcp buf then None
      else if buf (t + 13) AND 0x10 = 0 then None
      else if buf (t + 13) AND 0x8 \<noteq> 0 then
        Some (msg\<lparr>saddr := le32 buf (14 + 16), daddr := le32 buf (14 + 12),
                  source := le16 buf (t + 2), dest := le16 buf t, seq := be32 buf (t + 4)\<rparr>)
      else None)"

text \<open>
  The option scan of \<open>is_drop_tcp_ack\<close>.  A \<open>break\<close> in its \<open>switch\<close> only leaves the
  \<open>switch\<close>: after an end-of-options byte or a bad option length the loop goes on with the
  same \<open>len\<close>, so it need not end.
\<close>

partial_function (option) opt_loop :: "mem \<Rightarrow> nat \<Rightarrow> int \<Rightarrow> int \<Rightarrow> u16 \<Rightarrow> (int \<times> u16) option" where
  "opt_loop buf ptr len drp ws =
     (if 0 < len \<and> drp \<noteq> 0 then
        (let opcode = buf ptr; opsize = int (unat (buf (ptr + 1))) in
         if opcode = TCPOPT_EOL then opt_loop buf (ptr + 1) len drp ws
         else if opcode = TCPOPT_NOP then opt_loop buf (ptr + 1) (len - 1) drp ws
         else if opsize < 2 then opt_loop buf (ptr + 2) len drp ws
         else if len < opsize then opt_loop buf (ptr + 2) len drp ws
         else
           opt_loop buf (ptr + nat opsize) (len - opsize)
             (if opcode = TCPOPT_TIMESTAMP \<or> opcode = TCPOPT_WINDOW then drp else 2)
             (if opcode = TCPOPT_WINDOW \<and> buf (ptr + 2) < 15
              then push_bit (unat (buf (ptr + 2))) 1 else ws))
      else Some (drp, ws))"

text \<open>
  \<open>is_drop_tcp_ack\<close> returns the pair of its result and \<open>*win_scale\<close>; \<open>None\<close> is a scan
  that never returns.  \<open>t\<close> is the offset of the TCP header, of 20 bytes without options.
\<close>

definition is_drop_tcp_ack :: "mem \<Rightarrow> nat \<Rightarrow> int \<Rightarrow> u16 \<Rightarrow> (int \<times> u16) option" where
  "is_drop_tcp_ack buf t tcp_tot_len ws =
     (let len = int (unat (drop_bit 4 (buf (t + 12)))) * 4 in
      if len < tcp_tot_len then Some (0, ws)
      else opt_loop buf (t + 20) (len - 20) 1 ws)"

definition tcp_check_ack :: "mem \<Rightarrow> tcp_ack_msg \<Rightarrow> u16 \<Rightarrow> (int \<times> tcp_ack_msg \<times> u16) option" where
  "tcp_check_ack buf msg ws =
     (let t = tcp_off buf in
      if \<not> is_ipv4_tcp buf then Some (0, msg, ws)
      else if buf (t + 13) AND 0x10 = 0 then Some (0, msg, ws)
      else
        (case is_drop_tcp_ack buf t (int (unat (be16 buf (14 + 2))) - int (ip_hdr_len buf)) ws of
           None \<Rightarrow> None
         | Some (ret, ws') \<Rightarrow>
             Some (ret,
               (if 0 < ret then
                  msg\<lparr>saddr := le32 buf (14 + 12), daddr := le32 buf (14 + 16),
                      source := le16 buf t, dest := le16 buf (t + 2),
                      seq := be32 buf (t + 8), win := be16 buf (t + 14)\<rparr>
                else msg), ws')))"

subsection \<open>The flow table\<close>

definition same_flow :: "tcp_ack_msg \<Rightarrow> tcp_ack_msg \<Rightarrow> bool" where
  "same_flow a b \<longleftrightarrow> dest a = dest b \<and> source a = source b \<and> saddr a = saddr b \<and> daddr a = daddr b"

definition tcp_ack_match :: "tcp_ack_manage \<Rightarrow> tcp_ack_msg \<Rightarrow> nat option" where
  "tcp_ack_match m msg = first_index (\<lambda>a. busy a \<and> same_flow (ack_msg a) msg) (ack_info m)"

definition update_slot :: "u64 \<Rightarrow> nat \<Rightarrow> tcp_ack_manage \<Rightarrow> tcp_ack_manage" where
  "update_slot now i m =
     (let a = ack_info m ! i in
      if busy a \<and> time_after now (info_last_time a + info_timeout a)
      then upd_info i (busy_update (\<lambda>_. False)) (m\<lparr>free_index := int i, max_num := max_num m - 1\<rparr>)
      else m)"

text \<open>The loop runs from the last slot down to slot 0.\<close>

fun update_slots :: "u64 \<Rightarrow> nat \<Rightarrow> tcp_ack_manage \<Rightarrow> tcp_ack_manage" where
  "update_slots now 0 m = m"
| "update_slots now (Suc i) m = update_slots now i (update_slot now i m)"

definition tcp_ack_update :: "u64 \<Rightarrow> tcp_ack_manage \<Rightarrow> tcp_ack_manage" where
  "tcp_ack_update now m =
     (if time_after now (last_time m + timeout m)
      then update_slots now TCP_ACK_NUM (m\<lparr>last_time := now\<rparr>)
      else m)"

definition tcp_ack_alloc_index :: "tcp_ack_manage \<Rightarrow> nat option \<times> tcp_ack_manage" where
  "tcp_ack_alloc_index m =
     (if max_num m = int TCP_ACK_NUM then (None, m)
      else if 0 \<le> free_index m then
        (Some (nat (free_index m)), m\<lparr>free_index := -1, max_num := max_num m + 1\<rparr>)
      else
        (case first_index (\<lambda>a. \<not> busy a) (ack_info m) of
           None \<Rightarrow> (None, m)
         | Some i \<Rightarrow> (Some i, m\<lparr>free_index := -1, max_num := max_num m + 1\<rparr>)))"

subsection \<open>Filtering an outgoing ACK\<close>

text \<open>
  Both handlers return the C result (0: the caller transmits the new message, 1: the filter
  has taken it), the new flow record and the message they drop, if any.
  \<open>tcp_ack_handle\<close> is the older variant; \<open>filter_send_tcp_ack\<close> calls
  \<open>tcp_ack_handle_new\<close>.
\<close>

definition tcp_ack_handle ::
  "(nat \<Rightarrow> u64) \<Rightarrow> u64 \<Rightarrow> int \<Rightarrow> nat \<Rightarrow> tcp_ack_info \<Rightarrow> tcp_ack_msg \<Rightarrow> int \<Rightarrow>
   int \<times> tcp_ack_info \<times> nat option" where
  "tcp_ack_handle m2j now maxd new a0 msg type =
     (let a = a0\<lparr>info_last_time := now\<rparr> in
      if type = 2 then
        (if U32_BEFORE (seq (ack_msg a)) (seq msg) then
           (let a1 = a\<lparr>ack_msg := (ack_msg a)\<lparr>seq := seq msg\<rparr>\<rparr>;
                a2 = (if psh_flag a1 \<and> \<not> U32_BEFORE (seq msg) (psh_seq a1)
                      then a1\<lparr>psh_flag := False\<rparr> else a1);
                a3 = (if msgbuf a2 \<noteq> None then a2\<lparr>msgbuf := None, timer := None\<rparr> else a2)
            in (0, a3\<lparr>in_send_msg := None, drop_cnt := maxd\<rparr>, msgbuf a2))
         else (1, a, Some new))
      else if U32_BEFORE (seq (ack_msg a)) (seq msg) then
        (let a1 = a\<lparr>msgbuf := None\<rparr>;
             quick_ack = (psh_flag a1 \<and> \<not> U32_BEFORE (seq msg) (psh_seq a1));
             a2 = (if quick_ack then a1\<lparr>psh_flag := False\<rparr> else a1\<lparr>drop_cnt := drop_cnt a1 + 1\<rparr>);
             a3 = a2\<lparr>ack_msg := (ack_msg a2)\<lparr>seq := seq msg\<rparr>\<rparr>
         in if quick_ack \<or> (in_send_msg a3 = None \<and> maxd \<le> drop_cnt a3)
            then (0, a3\<lparr>drop_cnt := 0, in_send_msg := Some new, timer := None\<rparr>, msgbuf a)
            else (1, a3\<lparr>msgbuf := Some new,
                        timer := (if timer a3 = None then Some (now + m2j 5) else timer a3)\<rparr>,
                  msgbuf a))
      else (1, a, Some new))"

definition tcp_ack_handle_new ::
  "(nat \<Rightarrow> u64) \<Rightarrow> u64 \<Rightarrow> int \<Rightarrow> nat \<Rightarrow> tcp_ack_info \<Rightarrow> tcp_ack_msg \<Rightarrow> int \<Rightarrow>
   int \<times> tcp_ack_info \<times> nat option" where
  "tcp_ack_handle_new m2j now maxd new a0 msg type =
     (let a = a0\<lparr>info_last_time := now\<rparr> in
      if U32_BEFORE (seq (ack_msg a)) (seq msg) then
        (let a1 = a\<lparr>msgbuf := None\<rparr>;
             quick_ack = (psh_flag a1 \<and> \<not> U32_BEFORE (seq msg) (psh_seq a1));
             a2 = (if quick_ack then a1\<lparr>psh_flag := False\<rparr> else a1\<lparr>drop_cnt := drop_cnt a1 + 1\<rparr>);
             a3 = a2\<lparr>ack_msg := (ack_msg a2)\<lparr>seq := seq msg\<rparr>\<rparr>
         in if quick_ack \<or> (in_send_msg a3 = None \<and> maxd \<le> drop_cnt a3)
            then (0, a3\<lparr>drop_cnt := 0, in_send_msg := Some new, timer := None\<rparr>, msgbuf a)
            else (1, a3\<lparr>msgbuf := Some new,
                        timer := (if timer a3 = None then Some (now + m2j 5) else timer a3)\<rparr>,
                  msgbuf a))
      else (1, a, Some new))"

definition filter_rx_tcp_ack :: "mem \<Rightarrow> nat \<Rightarrow> tcp_ack_manage \<Rightarrow> tcp_ack_manage" where
  "filter_rx_tcp_ack buf plen m =
     (if \<not> enable m then m
      else if MAX_TCP_ACK < plen then m
      else
        (case tcp_check_quick_ack buf zero_msg of
           None \<Rightarrow> m
         | Some msg \<Rightarrow>
             (case tcp_ack_match m msg of
                None \<Rightarrow> m
              | Some i \<Rightarrow> upd_info i (\<lambda>a. a\<lparr>psh_flag := True, psh_seq := seq msg\<rparr>) m)))"

definition start_flow :: "u64 \<Rightarrow> int \<Rightarrow> u16 \<Rightarrow> tcp_ack_msg \<Rightarrow> tcp_ack_info \<Rightarrow> tcp_ack_info" where
  "start_flow now maxd ws msg a =
     a\<lparr>busy := True, psh_flag := False, info_last_time := now, drop_cnt := maxd,
       win_scale := (if ws \<noteq> 0 then ws else 1),
       ack_msg := (ack_msg a)\<lparr>dest := dest msg, source := source msg, saddr := saddr msg,
                              daddr := daddr msg, seq := seq msg\<rparr>\<rparr>"

text \<open>
  \<open>filter_send_tcp_ack\<close>, with its two branches (the flow is in the table, or a slot has to
  be found for it) under names of their own.  \<open>None\<close>: the option scan of
  \<open>tcp_check_ack\<close> does not return.
\<close>

definition filter_known_flow ::
  "(nat \<Rightarrow> u64) \<Rightarrow> u64 \<Rightarrow> nat \<Rightarrow> int \<Rightarrow> tcp_ack_msg \<Rightarrow> u16 \<Rightarrow> nat \<Rightarrow> tcp_ack_manage \<Rightarrow>
   int \<times> tcp_ack_manage \<times> nat option" where
  "filter_known_flow m2j now new drp msg ws i m =
     (let m1 = (if ws \<noteq> 0 \<and> win_scale (ack_info m ! i) \<noteq> ws
                then upd_info i (win_scale_update (\<lambda>_. ws)) m else m)
      in if 0 < drp \<and> enable m1 then
           (let w = ucast (win_scale (ack_info m1 ! i)) * ucast (win msg);
                type = (if ws \<noteq> 0 \<and> w < ack_winsize m1 * SIZE_KB then 2 else drp);
                (ret, a, d) = tcp_ack_handle_new m2j now (max_drop_cnt m1) new
                                (ack_info m1 ! i) msg type
            in (ret, upd_info i (\<lambda>_. a) m1, d))
         else (0, m1, None))"

definition filter_new_flow ::
  "u64 \<Rightarrow> tcp_ack_msg \<Rightarrow> u16 \<Rightarrow> tcp_ack_manage \<Rightarrow> int \<times> tcp_ack_manage \<times> nat option" where
  "filter_new_flow now msg ws m =
     (case tcp_ack_alloc_index m of
        (None, m1) \<Rightarrow> (0, m1, None)
      | (Some i, m1) \<Rightarrow> (0, upd_info i (start_flow now (max_drop_cnt m1) ws msg) m1, None))"

definition filter_send_tcp_ack ::
  "(nat \<Rightarrow> u64) \<Rightarrow> u64 \<Rightarrow> nat \<Rightarrow> mem \<Rightarrow> tcp_ack_manage \<Rightarrow>
   (int \<times> tcp_ack_manage \<times> nat option) option" where
  "filter_send_tcp_ack m2j now new buf m0 =
     (let m = tcp_ack_update now m0 in
      case tcp_check_ack buf zero_msg 0 of
        None \<Rightarrow> None
      | Some (drp, msg, ws) \<Rightarrow>
          Some (if drp = 0 \<and> ws = 0 then (0, m, None)
                else (case tcp_ack_match m msg of
                        Some i \<Rightarrow> filter_known_flow m2j now new drp msg ws i m
                      | None \<Rightarrow> filter_new_flow now msg ws m)))"

definition move_tcpack_msg :: "nat \<Rightarrow> tcp_ack_manage \<Rightarrow> tcp_ack_manage" where
  "move_tcpack_msg mb m =
     (if \<not> enable m then m
      else m\<lparr>ack_info := map (\<lambda>a. if busy a \<and> in_send_msg a = Some mb
                                   then a\<lparr>in_send_msg := None\<rparr> else a) (ack_info m)\<rparr>)"

text \<open>
  The timer callback of slot \<open>i\<close>: the kernel has deactivated the timer when it calls it.
  The second component is the message given to \<open>intf_tx\<close>, which starts with
  \<open>move_tcpack_msg\<close> on it; \<open>intf_tx_ack\<close> is that part of \<open>intf_tx\<close>.
\<close>

definition tcp_ack_timeout :: "nat \<Rightarrow> tcp_ack_manage \<Rightarrow> tcp_ack_manage \<times> nat option" where
  "tcp_ack_timeout i m0 =
     (let m = upd_info i (timer_update (\<lambda>_. None)) m0; a = ack_info m ! i in
      if busy a \<and> msgbuf a \<noteq> None \<and> in_send_msg a = None
      then (upd_info i (\<lambda>a. a\<lparr>msgbuf := None, drop_cnt := 0, in_send_msg := msgbuf a\<rparr>) m, msgbuf a)
      else (m, None))"

definition intf_tx_ack :: "nat \<Rightarrow> tcp_ack_manage \<Rightarrow> tcp_ack_manage" where
  "intf_tx_ack mb m = move_tcpack_msg mb m"

text \<open>
  The ACK section of \<open>rwnx_start_xmit\<close>: only frames whose length, cut to 16 bits by
  \<open>cpu_to_le16\<close>, is at most \<open>MAX_TCP_ACK\<close> are filtered; a message that is not taken is forgotten by \<open>move_tcpack_msg\<close> before the
  frame goes on.  The first component says whether the frame is transmitted now.
\<close>

definition xmit_ack_filter ::
  "(nat \<Rightarrow> u64) \<Rightarrow> u64 \<Rightarrow> nat \<Rightarrow> mem \<Rightarrow> nat \<Rightarrow> tcp_ack_manage \<Rightarrow>
   (bool \<times> tcp_ack_manage \<times> nat option) option" where
  "xmit_ack_filter m2j now new buf len m =
     (if len mod 2 ^ 16 \<le> MAX_TCP_ACK then
        (case filter_send_tcp_ack m2j now new buf m of
           None \<Rightarrow> None
         | Some (ret, m', d) \<Rightarrow>
             if ret \<noteq> 0 then Some (False, m', d) else Some (True, move_tcpack_msg new m', d))
      else Some (True, m, None))"

subsection \<open>The table invariant\<close>

text \<open>
  The counter and the free-slot cache describe the busy flags, no two busy slots track
  the same flow, no message is marked as being sent between two operations, and a
  stopped filter holds nothing.
\<close>

definition one_slot_per_flow :: "tcp_ack_info list \<Rightarrow> bool" where
  "one_slot_per_flow as \<longleftrightarrow>
     (\<forall>i<length as. \<forall>j<length as.
        busy (as ! i) \<and> busy (as ! j) \<and> same_flow (ack_msg (as ! i)) (ack_msg (as ! j)) \<longrightarrow> i = j)"

definition ack_wf :: "tcp_ack_manage \<Rightarrow> bool" where
  "ack_wf m \<longleftrightarrow>
     length (ack_info m) = TCP_ACK_NUM \<and>
     max_num m = int (count_if busy (ack_info m)) \<and>
     - 1 \<le> free_index m \<and> free_index m < int TCP_ACK_NUM \<and>
     (0 \<le> free_index m \<longrightarrow> \<not> busy (ack_info m ! nat (free_index m))) \<and>
     one_slot_per_flow (ack_info m)"

definition ack_quiet :: "tcp_ack_manage \<Rightarrow> bool" where
  "ack_quiet m \<longleftrightarrow>
     (\<forall>a\<in>set (ack_info m). in_send_msg a = None) \<and>
     (\<not> enable m \<longrightarrow> (\<forall>a\<in>set (ack_info m). msgbuf a = None))"

lemma same_flow_refl [simp]: "same_flow a a"
  by (simp add: same_flow_def)

lemma same_flow_sym: "same_flow a b \<longleftrightarrow> same_flow b a"
  by (auto simp: same_flow_def)

lemma same_flow_trans: "same_flow a b \<Longrightarrow> same_flow b c \<Longrightarrow> same_flow a c"
  by (simp add: same_flow_def)

lemma same_flow_seq [simp]:
  "same_flow (a\<lparr>seq := s\<rparr>) b = same_flow a b"
  "same_flow b (a\<lparr>seq := s\<rparr>) = same_flow b a"
  by (simp_all add: same_flow_def)

lemma upd_info_simps [simp]:
  "ack_info (upd_info i f m) = (ack_info m)[i := f (ack_info m ! i)]"
  "max_num (upd_info i f m) = max_num m"
  "free_index (upd_info i f m) = free_index m"
  "enable (upd_info i f m) = enable m"
  "max_drop_cnt (upd_info i f m) = max_drop_cnt m"
  "ack_winsize (upd_info i f m) = ack_winsize m"
  by (simp_all add: upd_info_def)

text \<open>An update that keeps the busy flag and the flow of its slot keeps the invariant.\<close>

lemma one_slot_per_flow_update:
  assumes "one_slot_per_flow as"
    and "busy b = busy (as ! i)" and "\<And>c. same_flow (ack_msg b) c = same_flow (ack_msg (as ! i)) c"
  shows "one_slot_per_flow (as[i := b])"
proof -
  have busy_same: "busy (as[i := b] ! k) = busy (as ! k)" if "k < length as" for k
    using that assms(2) by (cases "k = i") simp_all
  have flow_same: "same_flow (ack_msg (as[i := b] ! k)) c = same_flow (ack_msg (as ! k)) c"
    if "k < length as" for k c
    using that assms(3) by (cases "k = i") simp_all
  have "same_flow (ack_msg (as[i := b] ! j)) (ack_msg (as[i := b] ! k))
        = same_flow (ack_msg (as ! j)) (ack_msg (as ! k))"
    if "j < length as" "k < length as" for j k
    using flow_same that same_flow_sym by metis
  then show ?thesis
    using assms(1) busy_same unfolding one_slot_per_flow_def by auto
qed

lemma one_slot_per_flow_release:
  assumes "one_slot_per_flow as" and "\<not> busy b"
  shows "one_slot_per_flow (as[i := b])"
proof -
  have "busy (as ! k) \<and> as[i := b] ! k = as ! k"
    if "k < length as" "busy (as[i := b] ! k)" for k
    using that assms(2) by (cases "k = i") simp_all
  then show ?thesis
    using assms(1) unfolding one_slot_per_flow_def by auto
qed

lemma one_slot_per_flow_start:
  assumes "one_slot_per_flow as"
    and "\<And>k. k < length as \<Longrightarrow> busy (as ! k) \<Longrightarrow> \<not> same_flow (ack_msg (as ! k)) (ack_msg b)"
  shows "one_slot_per_flow (as[i := b])"
  unfolding one_slot_per_flow_def
proof (intro allI impI)
  fix j k
  assume "j < length (as[i := b])" "k < length (as[i := b])"
    and both: "busy (as[i := b] ! j) \<and> busy (as[i := b] ! k) \<and>
      same_flow (ack_msg (as[i := b] ! j)) (ack_msg (as[i := b] ! k))"
  then have j: "j < length as" and k: "k < length as" by simp_all
  show "j = k"
  proof (cases "j = i \<or> k = i")
    case True
    with both j k assms(2) same_flow_sym show ?thesis
      by (cases "j = i"; cases "k = i") auto
  next
    case False
    with both j k assms(1) show ?thesis
      unfolding one_slot_per_flow_def by auto
  qed
qed

lemma ack_wf_update:
  assumes "ack_wf m" and "i < TCP_ACK_NUM"
    and "busy (f (ack_info m ! i)) = busy (ack_info m ! i)"
    and "\<And>c. same_flow (ack_msg (f (ack_info m ! i))) c = same_flow (ack_msg (ack_info m ! i)) c"
  shows "ack_wf (upd_info i f m)"
  using assms
  by (auto simp: ack_wf_def count_if_update_same nth_list_update
      intro: one_slot_per_flow_update)

lemma ack_wf_max_num:
  assumes "ack_wf m"
  shows "0 \<le> max_num m" and "max_num m \<le> int TCP_ACK_NUM"
  using assms count_if_le_length [of busy "ack_info m"] by (auto simp: ack_wf_def)

lemma nth_init: "i < TCP_ACK_NUM \<Longrightarrow> ack_info (tcp_ack_init m2j now) ! i = init_info m2j now i"
  by (simp add: tcp_ack_init_def)

lemma count_if_zero: "(\<forall>x\<in>set xs. \<not> P x) \<Longrightarrow> count_if P xs = 0"
  by (induction xs) auto

lemma ack_wf_init: "ack_wf (tcp_ack_init m2j now)"
  by (auto simp: ack_wf_def tcp_ack_init_def one_slot_per_flow_def init_info_def TCP_ACK_NUM_def
      count_if_zero)

lemma ack_quiet_init: "ack_quiet (tcp_ack_init m2j now)"
  by (auto simp: ack_quiet_def tcp_ack_init_def init_info_def)

lemma ack_wf_map:
  assumes "ack_wf m" and "\<And>a. busy (f a) = busy a" and "\<And>a. ack_msg (f a) = ack_msg a"
  shows "ack_wf (m\<lparr>ack_info := map f (ack_info m)\<rparr>)"
  using assms
  by (auto simp: ack_wf_def count_if_def filter_map o_def one_slot_per_flow_def)

lemma ack_wf_enable: "ack_wf (m\<lparr>enable := b\<rparr>) = ack_wf m"
  by (simp add: ack_wf_def)

lemma ack_wf_deinit: "ack_wf m \<Longrightarrow> ack_wf (fst (tcp_ack_deinit m))"
  using ack_wf_map [of "m\<lparr>enable := False\<rparr>" "\<lambda>a. a\<lparr>timer := None, msgbuf := None\<rparr>"]
  by (simp add: tcp_ack_deinit_def ack_wf_enable)

lemma ack_quiet_deinit: "ack_quiet m \<Longrightarrow> ack_quiet (fst (tcp_ack_deinit m))"
  by (auto simp: ack_quiet_def tcp_ack_deinit_def)

lemma tcp_ack_matchD:
  assumes "tcp_ack_match m msg = Some i"
  shows "i < length (ack_info m)" and "busy (ack_info m ! i)"
    and "same_flow (ack_msg (ack_info m ! i)) msg"
  using assms by (auto simp: tcp_ack_match_def first_index_Some)

lemma tcp_ack_match_None:
  "tcp_ack_match m msg = None \<longleftrightarrow>
   (\<forall>i<length (ack_info m). busy (ack_info m ! i) \<longrightarrow> \<not> same_flow (ack_msg (ack_info m ! i)) msg)"
  by (auto simp: tcp_ack_match_def first_index_None all_set_conv_all_nth)

lemma update_slot_wf:
  assumes "ack_wf m" and "i < TCP_ACK_NUM"
  shows "ack_wf (update_slot now i m)"
proof (cases "busy (ack_info m ! i) \<and>
    time_after now (info_last_time (ack_info m ! i) + info_timeout (ack_info m ! i))")
  case True
  let ?as = "(ack_info m)[i := (ack_info m ! i)\<lparr>busy := False\<rparr>]"
  have len: "length (ack_info m) = TCP_ACK_NUM"
    using assms by (simp add: ack_wf_def)
  have "count_if busy ?as + 1 = count_if busy (ack_info m)"
    using count_if_update [of i "ack_info m" busy "(ack_info m ! i)\<lparr>busy := False\<rparr>"] True assms len
    by simp
  moreover have "one_slot_per_flow ?as"
    using assms(1) by (simp add: ack_wf_def one_slot_per_flow_release)
  ultimately show ?thesis
    using True assms by (auto simp: update_slot_def ack_wf_def Let_def)
next
  case False
  then show ?thesis
    using assms by (auto simp: update_slot_def)
qed

lemma update_slots_wf: "ack_wf m \<Longrightarrow> n \<le> TCP_ACK_NUM \<Longrightarrow> ack_wf (update_slots now n m)"
  by (induction n arbitrary: m) (simp_all add: update_slot_wf)

lemma tcp_ack_update_wf: "ack_wf m \<Longrightarrow> ack_wf (tcp_ack_update now m)"
  using update_slots_wf [of "m\<lparr>last_time := now\<rparr>" TCP_ACK_NUM now]
  by (auto simp: tcp_ack_update_def ack_wf_def)

text \<open>Slot allocation: it fails exactly when every slot is busy.\<close>

lemma tcp_ack_alloc_index_None:
  assumes "ack_wf m"
  shows "fst (tcp_ack_alloc_index m) = None \<longleftrightarrow> (\<forall>a\<in>set (ack_info m). busy a)"
proof -
  have full: "max_num m = int TCP_ACK_NUM \<longleftrightarrow> (\<forall>a\<in>set (ack_info m). busy a)"
    using assms count_if_full [of busy "ack_info m"] by (auto simp: ack_wf_def)
  show ?thesis
  proof (cases "0 \<le> free_index m")
    case True
    then have "ack_info m ! nat (free_index m) \<in> set (ack_info m)"
      and "\<not> busy (ack_info m ! nat (free_index m))"
      using assms by (auto simp: ack_wf_def nat_less_iff)
    then show ?thesis
      using full True by (auto simp: tcp_ack_alloc_index_def)
  next
    case False
    then show ?thesis
      using full by (auto simp: tcp_ack_alloc_index_def first_index_None split: option.split)
  qed
qed

lemma tcp_ack_alloc_index_Some:
  assumes "ack_wf m" and "tcp_ack_alloc_index m = (Some i, m')"
  shows "i < TCP_ACK_NUM" and "\<not> busy (ack_info m ! i)"
    and "m' = m\<lparr>free_index := -1, max_num := max_num m + 1\<rparr>"
  using assms
  by (auto simp: tcp_ack_alloc_index_def ack_wf_def nat_less_iff first_index_Some
      split: if_splits option.splits)

lemma start_flow_simps [simp]:
  "busy (start_flow now maxd ws msg a)"
  "msgbuf (start_flow now maxd ws msg a) = msgbuf a"
  "in_send_msg (start_flow now maxd ws msg a) = in_send_msg a"
  "same_flow c (ack_msg (start_flow now maxd ws msg a)) = same_flow c msg"
  by (simp_all add: start_flow_def same_flow_def)

lemma ack_wf_start_flow:
  assumes wf: "ack_wf m" and new: "tcp_ack_match m msg = None"
    and alloc: "tcp_ack_alloc_index m = (Some i, m')"
  shows "ack_wf (upd_info i (start_flow now maxd ws msg) m')"
proof -
  note i = tcp_ack_alloc_index_Some [OF wf alloc]
  let ?b = "start_flow now maxd ws msg (ack_info m ! i)"
  have len: "length (ack_info m) = TCP_ACK_NUM"
    using wf by (simp add: ack_wf_def)
  have "count_if busy ((ack_info m)[i := ?b]) = count_if busy (ack_info m) + 1"
    using count_if_update [of i "ack_info m" busy ?b] i(1,2) len by simp
  moreover have "one_slot_per_flow ((ack_info m)[i := ?b])"
    using wf new by (auto simp: ack_wf_def tcp_ack_match_None intro!: one_slot_per_flow_start)
  ultimately show ?thesis
    using wf i by (simp add: ack_wf_def TCP_ACK_NUM_def)
qed

text \<open>What the handler leaves alone, and what it may do to the two message pointers.\<close>

lemma handle_new_frame:
  assumes "tcp_ack_handle_new m2j now maxd new a msg type = (ret, a', d)"
  shows "busy a' = busy a" and "same_flow (ack_msg a') c = same_flow (ack_msg a) c"
    and "ret = 0 \<or> ret = 1"
  using assms by (auto simp: tcp_ack_handle_new_def Let_def same_flow_def split: if_splits)

lemma handle_new_outcome:
  assumes "tcp_ack_handle_new m2j now maxd new a msg type = (ret, a', d)"
  shows "ret = 0 \<and> in_send_msg a' = Some new \<and> msgbuf a' = None \<and> timer a' = None \<and> d = msgbuf a \<or>
         ret = 1 \<and> in_send_msg a' = in_send_msg a \<and> msgbuf a' = Some new \<and> timer a' \<noteq> None \<and> d = msgbuf a \<or>
         ret = 1 \<and> in_send_msg a' = in_send_msg a \<and> msgbuf a' = msgbuf a \<and> timer a' = timer a \<and> d = Some new"
  using assms by (auto simp: tcp_ack_handle_new_def Let_def split: if_splits)

lemma upd_win_scale_same:
  assumes "i < length (ack_info m)" and "win_scale (ack_info m ! i) = w"
  shows "upd_info i (win_scale_update (\<lambda>_. w)) m = m"
proof -
  have "(ack_info m ! i)\<lparr>win_scale := w\<rparr> = ack_info m ! i"
    using assms(2) by simp
  then show ?thesis
    by (simp add: upd_info_def)
qed

text \<open>The possible outcomes of \<open>filter_known_flow\<close>, for the proofs below.\<close>

lemma filter_known_flow_cases:
  assumes "filter_known_flow m2j now new drp msg ws i m = (ret, m', d)"
    and "i < length (ack_info m)"
  obtains
    (scaled) ws' where "ret = 0" "d = None" "m' = upd_info i (win_scale_update (\<lambda>_. ws')) m"
  | (handled) ws' type a where "enable m"
      "tcp_ack_handle_new m2j now (max_drop_cnt m) new
         ((ack_info m ! i)\<lparr>win_scale := ws'\<rparr>) msg type = (ret, a, d)"
      "m' = upd_info i (\<lambda>_. a) m"
proof -
  define ws' where "ws' = (if ws \<noteq> 0 then ws else win_scale (ack_info m ! i))"
  have m1: "(if ws \<noteq> 0 \<and> win_scale (ack_info m ! i) \<noteq> ws
         then upd_info i (win_scale_update (\<lambda>_. ws)) m else m)
        = upd_info i (win_scale_update (\<lambda>_. ws')) m"
    using upd_win_scale_same [OF assms(2) refl] by (auto simp: ws'_def)
  define a1 where "a1 = (ack_info m ! i)\<lparr>win_scale := ws'\<rparr>"
  have nth: "ack_info (upd_info i (win_scale_update (\<lambda>_. ws')) m) ! i = a1"
    using assms(2) by (simp add: a1_def)
  have upd2: "upd_info i (\<lambda>_. a) (upd_info i (win_scale_update (\<lambda>_. ws')) m) = upd_info i (\<lambda>_. a) m" for a
    by (simp add: upd_info_def)
  show ?thesis
    using assms(1) scaled [of ws'] handled [of ws', folded a1_def]
    unfolding filter_known_flow_def m1 Let_def nth
    by (simp add: upd2 split: if_splits prod.splits)
qed

text \<open>Every operation keeps the invariant.\<close>

lemma filter_known_flow_wf:
  assumes "filter_known_flow m2j now new drp msg ws i m = (ret, m', d)"
    and "ack_wf m" and "i < TCP_ACK_NUM"
  shows "ack_wf m'"
proof -
  have "i < length (ack_info m)"
    using assms(2,3) by (simp add: ack_wf_def)
  with assms(1) show ?thesis
  proof (cases rule: filter_known_flow_cases)
    case (scaled ws')
    then show ?thesis
      using assms(2,3) by (simp add: ack_wf_update)
  next
    case (handled ws' type a)
    then show ?thesis
      using assms(2,3) handle_new_frame [OF handled(2)] by (simp add: ack_wf_update)
  qed
qed

lemma filter_new_flow_wf:
  assumes "filter_new_flow now msg ws m = (ret, m', d)"
    and "ack_wf m" and "tcp_ack_match m msg = None"
  shows "ack_wf m'"
proof -
  obtain o1 m1 where al: "tcp_ack_alloc_index m = (o1, m1)"
    by (cases "tcp_ack_alloc_index m")
  show ?thesis
  proof (cases o1)
    case None
    then have "m1 = m"
      using al by (auto simp: tcp_ack_alloc_index_def split: if_splits option.splits)
    then show ?thesis
      using assms al None by (simp add: filter_new_flow_def)
  next
    case (Some i)
    then show ?thesis
      using assms al by (auto simp: filter_new_flow_def ack_wf_start_flow)
  qed
qed

lemma filter_send_wf:
  assumes "filter_send_tcp_ack m2j now new buf m = Some (ret, m', d)" and "ack_wf m"
  shows "ack_wf m'"
proof -
  define mu where "mu = tcp_ack_update now m"
  have mu: "ack_wf mu"
    using assms(2) by (simp add: mu_def tcp_ack_update_wf)
  then have len: "length (ack_info mu) = TCP_ACK_NUM"
    by (simp add: ack_wf_def)
  show ?thesis
    using assms(1) mu len filter_known_flow_wf filter_new_flow_wf tcp_ack_matchD(1)
    unfolding filter_send_tcp_ack_def mu_def [symmetric] Let_def
    by (auto split: option.splits prod.splits if_splits) (metis)+
qed

lemma move_tcpack_wf: "ack_wf m \<Longrightarrow> ack_wf (move_tcpack_msg mb m)"
  unfolding move_tcpack_msg_def by (auto intro!: ack_wf_map split: if_splits)

lemma xmit_ack_filter_wf:
  "xmit_ack_filter m2j now new buf len m = Some (sent, m', d) \<Longrightarrow> ack_wf m \<Longrightarrow> ack_wf m'"
  using filter_send_wf [of m2j now new buf m]
  by (auto simp: xmit_ack_filter_def move_tcpack_wf split: if_splits option.splits)

lemma filter_rx_wf: "ack_wf m \<Longrightarrow> ack_wf (filter_rx_tcp_ack buf plen m)"
proof -
  assume wf: "ack_wf m"
  have "ack_wf (upd_info i (\<lambda>a. a\<lparr>psh_flag := True, psh_seq := s\<rparr>) m)"
    if "tcp_ack_match m msg = Some i" for i s msg
    using wf tcp_ack_matchD(1) [OF that] by (intro ack_wf_update) (simp_all add: ack_wf_def)
  then show ?thesis
    using wf by (simp add: filter_rx_tcp_ack_def split: option.split)
qed

lemma tcp_ack_timeout_wf: "ack_wf m \<Longrightarrow> i < TCP_ACK_NUM \<Longrightarrow> ack_wf (fst (tcp_ack_timeout i m))"
  by (auto simp: tcp_ack_timeout_def Let_def intro!: ack_wf_update)

subsection \<open>Accounting for messages\<close>

definition held :: "tcp_ack_manage \<Rightarrow> nat multiset" where
  "held m = sum_list (map (\<lambda>a. opt_mset (msgbuf a)) (ack_info m))"

lemma held_upd:
  assumes "i < length (ack_info m)"
  shows "held (upd_info i f m) + opt_mset (msgbuf (ack_info m ! i))
         = held m + opt_mset (msgbuf (f (ack_info m ! i)))"
  using sum_list_update_add [of i "map (\<lambda>a. opt_mset (msgbuf a)) (ack_info m)"] assms
  by (simp add: held_def map_update)

lemma held_upd_same:
  assumes "i < length (ack_info m)" and "msgbuf (f (ack_info m ! i)) = msgbuf (ack_info m ! i)"
  shows "held (upd_info i f m) = held m"
  using held_upd [OF assms(1), of f] assms(2) by simp

lemma held_fields [simp]:
  "held (m\<lparr>free_index := x\<rparr>) = held m"
  "held (m\<lparr>max_num := y\<rparr>) = held m"
  "held (m\<lparr>last_time := z\<rparr>) = held m"
  by (simp_all add: held_def)

lemma held_update_slot: "i < length (ack_info m) \<Longrightarrow> held (update_slot now i m) = held m"
  by (auto simp: update_slot_def Let_def held_upd_same)

lemma length_update_slot [simp]: "length (ack_info (update_slot now i m)) = length (ack_info m)"
  by (simp add: update_slot_def Let_def)

lemma held_update_slots: "n \<le> length (ack_info m) \<Longrightarrow> held (update_slots now n m) = held m"
  by (induction n arbitrary: m) (simp_all add: held_update_slot)

lemma held_tcp_ack_update: "ack_wf m \<Longrightarrow> held (tcp_ack_update now m) = held m"
  by (simp add: tcp_ack_update_def held_update_slots ack_wf_def)

lemma held_move [simp]: "held (move_tcpack_msg mb m) = held m"
  by (simp add: move_tcpack_msg_def held_def o_def if_distrib [of msgbuf] cong: if_cong)

lemma held_alloc [simp]: "held (snd (tcp_ack_alloc_index m)) = held m"
  by (simp add: tcp_ack_alloc_index_def split: option.split)

lemma filter_known_flow_held:
  assumes "filter_known_flow m2j now new drp msg ws i m = (ret, m', d)"
    and "i < length (ack_info m)"
  shows "held m' + opt_mset d = held m + (if ret = 0 then {#} else {#new#})"
  using assms
proof (cases rule: filter_known_flow_cases)
  case (scaled ws')
  then show ?thesis
    using assms(2) by (simp add: held_upd_same)
next
  case (handled ws' type a)
  show ?thesis
    using handle_new_outcome [OF handled(2)] held_upd [OF assms(2), of "\<lambda>_. a"] handled(3)
    by (auto simp: ac_simps)
qed

lemma filter_new_flow_held:
  assumes "filter_new_flow now msg ws m = (ret, m', d)" and "ack_wf m"
  shows "held m' = held m \<and> d = None \<and> ret = 0"
proof -
  obtain o1 m1 where al: "tcp_ack_alloc_index m = (o1, m1)"
    by (cases "tcp_ack_alloc_index m")
  show ?thesis
  proof (cases o1)
    case None
    then show ?thesis
      using assms al held_alloc [of m] by (simp add: filter_new_flow_def)
  next
    case (Some i)
    have "i < length (ack_info m1)"
      using tcp_ack_alloc_index_Some [OF assms(2)] al Some assms(2) by (simp add: ack_wf_def)
    then show ?thesis
      using assms al Some held_alloc [of m] by (auto simp: filter_new_flow_def held_upd_same)
  qed
qed

lemma filter_send_held:
  assumes "filter_send_tcp_ack m2j now new buf m = Some (ret, m', d)" and "ack_wf m"
  shows "held m' + opt_mset d = held m + (if ret = 0 then {#} else {#new#})"
proof -
  define mu where "mu = tcp_ack_update now m"
  have mu: "ack_wf mu" "held mu = held m"
    using assms(2) by (simp_all add: mu_def tcp_ack_update_wf held_tcp_ack_update)
  show ?thesis
    using assms(1) mu filter_known_flow_held filter_new_flow_held [OF _ mu(1)] tcp_ack_matchD(1)
    unfolding filter_send_tcp_ack_def mu_def [symmetric] Let_def
    by (auto split: option.splits prod.splits if_splits; fastforce)
qed

subsection \<open>Between two operations no message is in flight\<close>

lemma ack_quiet_upd:
  assumes "ack_quiet m" and "i < length (ack_info m)"
    and "in_send_msg (f (ack_info m ! i)) = None"
    and "\<not> enable m \<Longrightarrow> msgbuf (f (ack_info m ! i)) = None"
  shows "ack_quiet (upd_info i f m)"
  using assms set_update_subset_insert [of "ack_info m" i "f (ack_info m ! i)"]
  by (auto simp: ack_quiet_def)

lemma ack_quiet_nth:
  assumes "ack_quiet m" and "i < length (ack_info m)"
  shows "in_send_msg (ack_info m ! i) = None"
    and "\<not> enable m \<Longrightarrow> msgbuf (ack_info m ! i) = None"
  using assms by (auto simp: ack_quiet_def)

lemma ack_quiet_fields [simp]:
  "ack_quiet (m\<lparr>free_index := x\<rparr>) = ack_quiet m"
  "ack_quiet (m\<lparr>max_num := y\<rparr>) = ack_quiet m"
  "ack_quiet (m\<lparr>last_time := z\<rparr>) = ack_quiet m"
  by (simp_all add: ack_quiet_def)

lemma update_slot_quiet:
  "ack_quiet m \<Longrightarrow> i < length (ack_info m) \<Longrightarrow> ack_quiet (update_slot now i m)"
  by (auto simp: update_slot_def Let_def ack_quiet_nth intro!: ack_quiet_upd)

lemma update_slots_quiet:
  "ack_quiet m \<Longrightarrow> n \<le> length (ack_info m) \<Longrightarrow> ack_quiet (update_slots now n m)"
  by (induction n arbitrary: m) (simp_all add: update_slot_quiet)

lemma tcp_ack_update_quiet: "ack_wf m \<Longrightarrow> ack_quiet m \<Longrightarrow> ack_quiet (tcp_ack_update now m)"
  by (auto simp: tcp_ack_update_def ack_wf_def intro!: update_slots_quiet)

text \<open>
  After a filter call the only message that may be marked as being sent is the new one,
  on a busy slot, and then the call has returned 0; \<open>move_tcpack_msg\<close> clears the mark.
\<close>

definition marked_only :: "nat \<Rightarrow> tcp_ack_manage \<Rightarrow> bool" where
  "marked_only new m \<longleftrightarrow>
     (\<forall>a\<in>set (ack_info m). in_send_msg a = None \<or> enable m \<and> busy a \<and> in_send_msg a = Some new) \<and>
     (\<not> enable m \<longrightarrow> (\<forall>a\<in>set (ack_info m). msgbuf a = None))"

lemma ack_quiet_marked: "ack_quiet m \<Longrightarrow> marked_only new m"
  by (auto simp: ack_quiet_def marked_only_def)

lemma move_marked: "marked_only new m \<Longrightarrow> ack_quiet (move_tcpack_msg new m)"
  by (auto simp: marked_only_def ack_quiet_def move_tcpack_msg_def)

lemma filter_known_flow_marked:
  assumes "filter_known_flow m2j now new drp msg ws i m = (ret, m', d)"
    and "i < length (ack_info m)" and "ack_quiet m" and "busy (ack_info m ! i)"
  shows "if ret = 0 then marked_only new m' else ack_quiet m'"
  using assms(1,2)
proof (cases rule: filter_known_flow_cases)
  case (scaled ws')
  then show ?thesis
    using assms(2,3) by (simp add: ack_quiet_marked ack_quiet_upd ack_quiet_nth)
next
  case (handled ws' type a)
  note out = handle_new_outcome [OF handled(2)] and fr = handle_new_frame [OF handled(2)]
  show ?thesis
  proof (cases "ret = 0")
    case True
    then have "in_send_msg a = Some new" "busy a"
      using out fr(1) assms(4) by auto
    then show ?thesis
      using True handled(1,3) assms(3) set_update_subset_insert [of "ack_info m" i a]
      by (auto simp: marked_only_def ack_quiet_def)
  next
    case False
    then have "in_send_msg a = None"
      using out ack_quiet_nth [OF assms(3,2)] by auto
    then show ?thesis
      using False handled(1,3) assms(2,3) by (auto intro!: ack_quiet_upd)
  qed
qed

lemma filter_new_flow_quiet:
  assumes "filter_new_flow now msg ws m = (ret, m', d)" and "ack_wf m" and "ack_quiet m"
  shows "ret = 0" and "ack_quiet m'"
proof -
  obtain o1 m1 where al: "tcp_ack_alloc_index m = (o1, m1)"
    by (cases "tcp_ack_alloc_index m")
  have m1: "ack_quiet m1" "length (ack_info m1) = length (ack_info m)"
    using al assms(3) by (auto simp: tcp_ack_alloc_index_def split: if_splits option.splits)
  have "ret = 0 \<and> ack_quiet m'"
  proof (cases o1)
    case None
    then show ?thesis
      using assms(1) al m1 by (simp add: filter_new_flow_def)
  next
    case (Some i)
    then have "i < length (ack_info m1)"
      using tcp_ack_alloc_index_Some [OF assms(2)] al assms(2) m1 by (simp add: ack_wf_def)
    then show ?thesis
      using assms(1) al Some m1 by (auto simp: filter_new_flow_def ack_quiet_nth intro!: ack_quiet_upd)
  qed
  then show "ret = 0" and "ack_quiet m'" by simp_all
qed

lemma filter_send_marked:
  assumes "filter_send_tcp_ack m2j now new buf m = Some (ret, m', d)" and "ack_wf m" and "ack_quiet m"
  shows "if ret = 0 then marked_only new m' else ack_quiet m'"
proof -
  define mu where "mu = tcp_ack_update now m"
  have mu: "ack_wf mu" "ack_quiet mu"
    using assms(2,3) by (simp_all add: mu_def tcp_ack_update_wf tcp_ack_update_quiet)
  obtain drp msg ws where chk: "tcp_check_ack buf zero_msg 0 = Some (drp, msg, ws)"
    using assms(1) by (auto simp: filter_send_tcp_ack_def Let_def split: option.splits)
  show ?thesis
  proof (cases "drp = 0 \<and> ws = 0")
    case True
    then show ?thesis
      using assms(1) chk mu by (simp add: filter_send_tcp_ack_def mu_def ack_quiet_marked)
  next
    case False
    show ?thesis
    proof (cases "tcp_ack_match mu msg")
      case None
      then have "filter_new_flow now msg ws mu = (ret, m', d)"
        using assms(1) chk False by (auto simp: filter_send_tcp_ack_def mu_def Let_def)
      from filter_new_flow_quiet [OF this mu] show ?thesis
        by (simp add: ack_quiet_marked)
    next
      case (Some i)
      then have "filter_known_flow m2j now new drp msg ws i mu = (ret, m', d)"
        using assms(1) chk False by (auto simp: filter_send_tcp_ack_def mu_def Let_def)
      then show ?thesis
        using tcp_ack_matchD(1) [OF Some] mu(2) tcp_ack_matchD(2) [OF Some]
        by (rule filter_known_flow_marked)
    qed
  qed
qed

lemma xmit_ack_filter_quiet:
  assumes "xmit_ack_filter m2j now new buf len m = Some (sent, m', d)" and "ack_wf m" and "ack_quiet m"
  shows "ack_quiet m'"
  using assms(1,3) filter_send_marked [OF _ assms(2,3), of m2j now new buf]
  by (auto simp: xmit_ack_filter_def move_marked split: if_splits option.splits)

lemma filter_rx_quiet:
  assumes "ack_quiet m"
  shows "ack_quiet (filter_rx_tcp_ack buf plen m)"
proof -
  have "ack_quiet (upd_info i (\<lambda>a. a\<lparr>psh_flag := True, psh_seq := s\<rparr>) m)"
    if "tcp_ack_match m msg = Some i" for i s msg
    using assms tcp_ack_matchD(1) [OF that] by (auto simp: ack_quiet_nth intro!: ack_quiet_upd)
  then show ?thesis
    using assms by (simp add: filter_rx_tcp_ack_def split: option.split)
qed

subsection \<open>The filter as a state machine\<close>

text \<open>
  A step is a received segment, a frame offered for transmission, a timer that fires (its
  message goes to \<open>intf_tx\<close>), or the end of the filter, in any order.
\<close>

definition fire_timer :: "nat \<Rightarrow> tcp_ack_manage \<Rightarrow> tcp_ack_manage \<times> nat option" where
  "fire_timer i m =
     (case tcp_ack_timeout i m of
        (m', None) \<Rightarrow> (m', None)
      | (m', Some mb) \<Rightarrow> (intf_tx_ack mb m', Some mb))"

inductive ack_step :: "(nat \<Rightarrow> u64) \<Rightarrow> tcp_ack_manage \<Rightarrow> tcp_ack_manage \<Rightarrow> bool" for m2j where
  rx: "ack_step m2j m (filter_rx_tcp_ack buf plen m)"
| tx: "xmit_ack_filter m2j now new buf len m = Some (sent, m', d) \<Longrightarrow> ack_step m2j m m'"
| fire: "i < TCP_ACK_NUM \<Longrightarrow> timer (ack_info m ! i) \<noteq> None \<Longrightarrow> ack_step m2j m (fst (fire_timer i m))"
| stop: "ack_step m2j m (fst (tcp_ack_deinit m))"

inductive ack_reachable :: "(nat \<Rightarrow> u64) \<Rightarrow> tcp_ack_manage \<Rightarrow> bool" for m2j where
  start: "ack_reachable m2j (tcp_ack_init m2j now)"
| step: "ack_reachable m2j m \<Longrightarrow> ack_step m2j m m' \<Longrightarrow> ack_reachable m2j m'"

lemma fire_timer_eq:
  assumes "i < length (ack_info m)" and "ack_quiet m"
  shows "fire_timer i m =
    (if busy (ack_info m ! i) \<and> msgbuf (ack_info m ! i) \<noteq> None
     then (move_tcpack_msg (the (msgbuf (ack_info m ! i)))
             (upd_info i (\<lambda>a. a\<lparr>timer := None, msgbuf := None, drop_cnt := 0,
                                in_send_msg := msgbuf a\<rparr>) m), msgbuf (ack_info m ! i))
     else (upd_info i (timer_update (\<lambda>_. None)) m, None))"
  using assms ack_quiet_nth(1) [OF assms(2,1)]
  by (auto simp: fire_timer_def tcp_ack_timeout_def Let_def intf_tx_ack_def upd_info_def)

lemma fire_timer_wf: "ack_wf m \<Longrightarrow> i < TCP_ACK_NUM \<Longrightarrow> ack_wf (fst (fire_timer i m))"
  using tcp_ack_timeout_wf [of m i]
  by (auto simp: fire_timer_def intf_tx_ack_def move_tcpack_wf split: prod.splits option.splits)

lemma fire_timer_quiet:
  assumes "ack_quiet m" and "i < length (ack_info m)"
  shows "ack_quiet (fst (fire_timer i m))"
proof (cases "busy (ack_info m ! i) \<and> msgbuf (ack_info m ! i) \<noteq> None")
  case True
  let ?b = "(ack_info m ! i)\<lparr>timer := None, msgbuf := None, drop_cnt := 0,
               in_send_msg := msgbuf (ack_info m ! i)\<rparr>"
  have "enable m"
    using True ack_quiet_nth(2) [OF assms] by (cases "enable m") auto
  then have "marked_only (the (msgbuf (ack_info m ! i)))
     (upd_info i (\<lambda>a. a\<lparr>timer := None, msgbuf := None, drop_cnt := 0, in_send_msg := msgbuf a\<rparr>) m)"
    using True assms set_update_subset_insert [of "ack_info m" i ?b]
    by (auto simp: marked_only_def ack_quiet_def)
  then show ?thesis
    using True assms by (simp add: fire_timer_eq move_marked)
next
  case False
  then show ?thesis
    using assms by (auto simp: fire_timer_eq ack_quiet_nth intro!: ack_quiet_upd)
qed

lemma ack_step_inv: "ack_step m2j m m' \<Longrightarrow> ack_wf m \<and> ack_quiet m \<Longrightarrow> ack_wf m' \<and> ack_quiet m'"
proof (induction rule: ack_step.induct)
  case (rx m buf plen)
  then show ?case by (simp add: filter_rx_wf filter_rx_quiet)
next
  case (tx now new buf len m sent m' d)
  then show ?case using xmit_ack_filter_wf xmit_ack_filter_quiet by blast
next
  case (fire i m)
  then show ?case using fire_timer_wf fire_timer_quiet by (simp add: ack_wf_def)
next
  case (stop m)
  then show ?case by (simp add: ack_wf_deinit ack_quiet_deinit)
qed

lemma ack_reachable_inv: "ack_reachable m2j m \<Longrightarrow> ack_wf m \<and> ack_quiet m"
proof (induction rule: ack_reachable.induct)
  case (start now)
  show ?case by (simp add: ack_wf_init ack_quiet_init)
next
  case (step m m')
  then show ?case by (blast dest: ack_step_inv)
qed

subsection \<open>Runs of acknowledgements of one flow\<close>

text \<open>
  One offered ACK: the handler, and for an ACK that is transmitted the \<open>move_tcpack_msg\<close>
  that follows it in \<open>rwnx_start_xmit\<close>.  The list collects the results.
\<close>

definition offer ::
  "(nat \<Rightarrow> u64) \<Rightarrow> u64 \<Rightarrow> int \<Rightarrow> tcp_ack_info \<Rightarrow> nat \<times> tcp_ack_msg \<Rightarrow> int \<times> tcp_ack_info" where
  "offer m2j now maxd a nm =
     (case tcp_ack_handle_new m2j now maxd (fst nm) a (snd nm) 1 of
        (ret, a', d) \<Rightarrow>
          (ret, if in_send_msg a' = Some (fst nm) then a'\<lparr>in_send_msg := None\<rparr> else a'))"

fun offers ::
  "(nat \<Rightarrow> u64) \<Rightarrow> u64 \<Rightarrow> int \<Rightarrow> tcp_ack_info \<Rightarrow> (nat \<times> tcp_ack_msg) list \<Rightarrow> int list" where
  "offers m2j now maxd a [] = []"
| "offers m2j now maxd a (nm # nms) =
     (case offer m2j now maxd a nm of (ret, a') \<Rightarrow> ret # offers m2j now maxd a' nms)"

fun in_order :: "u32 \<Rightarrow> (nat \<times> tcp_ack_msg) list \<Rightarrow> bool" where
  "in_order s [] = True"
| "in_order s (nm # nms) = (U32_BEFORE s (seq (snd nm)) \<and> in_order (seq (snd nm)) nms)"

lemma offer_held_back:
  assumes "in_send_msg a = None" and "\<not> psh_flag a" and "U32_BEFORE (seq (ack_msg a)) (seq (snd nm))"
    and "drop_cnt a + 1 < maxd"
  shows "\<exists>a'. offer m2j now maxd a nm = (1, a') \<and> in_send_msg a' = None \<and> \<not> psh_flag a' \<and>
              drop_cnt a' = drop_cnt a + 1 \<and> seq (ack_msg a') = seq (snd nm)"
  using assms by (auto simp: offer_def tcp_ack_handle_new_def Let_def)

lemma offer_sent:
  assumes "in_send_msg a = None" and "\<not> psh_flag a" and "U32_BEFORE (seq (ack_msg a)) (seq (snd nm))"
    and "maxd \<le> drop_cnt a + 1"
  shows "\<exists>a'. offer m2j now maxd a nm = (0, a')"
  using assms by (auto simp: offer_def tcp_ack_handle_new_def Let_def)

lemma offers_bound:
  assumes "in_send_msg a = None" and "\<not> psh_flag a" and "in_order (seq (ack_msg a)) nms"
    and "drop_cnt a + int (length nms) = maxd" and "nms \<noteq> []"
  shows "offers m2j now maxd a nms = replicate (length nms - 1) 1 @ [0]"
  using assms
proof (induction nms arbitrary: a)
  case Nil
  then show ?case by simp
next
  case (Cons nm nms)
  show ?case
  proof (cases "nms = []")
    case True
    then show ?thesis
      using Cons.prems offer_sent [of a nm maxd m2j now] by auto
  next
    case False
    then have "0 < length nms" by simp
    then have "drop_cnt a + 1 < maxd"
      using Cons.prems(4) by auto
    then obtain a' where "offer m2j now maxd a nm = (1, a')"
      and "in_send_msg a' = None" "\<not> psh_flag a'" "drop_cnt a' = drop_cnt a + 1"
        "seq (ack_msg a') = seq (snd nm)"
      using Cons.prems offer_held_back [of a nm maxd m2j now] by auto
    moreover from this have "offers m2j now maxd a' nms = replicate (length nms - 1) 1 @ [0]"
      using Cons.prems False by (intro Cons.IH) auto
    ultimately show ?thesis
      using False by (cases nms) simp_all
  qed
qed

subsection \<open>TCP options\<close>

text \<open>
  The options of a header as a list, their bytes, and what the scan should report: only
  no-ops, time stamps and window scales leave an ACK droppable, and the last usable window
  scale is reported.
\<close>

datatype tcp_opt = OptNop | OptTlv u8 bytes

fun opt_bytes :: "tcp_opt \<Rightarrow> bytes" where
  "opt_bytes OptNop = [TCPOPT_NOP]"
| "opt_bytes (OptTlv k d) = k # of_nat (2 + length d) # d"

fun opt_ok :: "tcp_opt \<Rightarrow> bool" where
  "opt_ok OptNop = True"
| "opt_ok (OptTlv k d) \<longleftrightarrow>
     k \<noteq> TCPOPT_EOL \<and> k \<noteq> TCPOPT_NOP \<and> 2 + length d < 256 \<and> (k = TCPOPT_WINDOW \<longrightarrow> d \<noteq> [])"

fun opt_report :: "int \<times> u16 \<Rightarrow> tcp_opt list \<Rightarrow> int \<times> u16" where
  "opt_report (drp, ws) [] = (drp, ws)"
| "opt_report (drp, ws) (OptNop # os) = opt_report (drp, ws) os"
| "opt_report (drp, ws) (OptTlv k d # os) =
     opt_report
       (if k = TCPOPT_TIMESTAMP \<or> k = TCPOPT_WINDOW then drp else 2,
        if k = TCPOPT_WINDOW \<and> hd d < 15 then push_bit (unat (hd d)) 1 else ws) os"

lemma opt_loop_end: "len \<le> 0 \<Longrightarrow> opt_loop buf p len drp ws = Some (drp, ws)"
  by (subst opt_loop.simps) simp

lemma opt_loop_nop:
  assumes "buf p = TCPOPT_NOP" and "0 < len" and "drp \<noteq> 0"
  shows "opt_loop buf p len drp ws = opt_loop buf (p + 1) (len - 1) drp ws"
  using assms by (subst opt_loop.simps) (simp add: TCPOPT_EOL_def TCPOPT_NOP_def Let_def)

lemma opt_loop_tlv:
  assumes "mem_at buf p (opt_bytes (OptTlv k d))" and "opt_ok (OptTlv k d)"
    and "int (2 + length d) \<le> len" and "drp \<noteq> 0"
  shows "opt_loop buf p len drp ws =
     opt_loop buf (p + (2 + length d)) (len - int (2 + length d))
       (if k = TCPOPT_TIMESTAMP \<or> k = TCPOPT_WINDOW then drp else 2)
       (if k = TCPOPT_WINDOW \<and> hd d < 15 then push_bit (unat (hd d)) 1 else ws)"
proof -
  have k: "buf p = k" and sz: "buf (Suc p) = of_nat (2 + length d)" and d: "mem_at buf (Suc (Suc p)) d"
    using assms(1) by simp_all
  have osz: "unat (buf (Suc p)) = 2 + length d"
    unfolding sz using assms(2) by (simp only: unat_of_nat opt_ok.simps) simp
  have v: "k = TCPOPT_WINDOW \<Longrightarrow> buf (Suc (Suc p)) = hd d"
    using d assms(2) by (cases d) simp_all
  have ne: "k \<noteq> TCPOPT_EOL" "k \<noteq> TCPOPT_NOP"
    using assms(2) by simp_all
  have pos: "0 < len \<and> drp \<noteq> 0"
    using assms(3,4) by simp
  have big: "\<not> int (2 + length d) < 2" "\<not> len < int (2 + length d)"
    using assms(3) by simp_all
  have win: "(k = TCPOPT_WINDOW \<and> buf (Suc (Suc p)) < 15) = (k = TCPOPT_WINDOW \<and> hd d < 15)"
    using v by auto
  have push: "(if k = TCPOPT_WINDOW \<and> hd d < 15 then push_bit (unat (buf (Suc (Suc p)))) 1 else ws)
      = (if k = TCPOPT_WINDOW \<and> hd d < 15 then push_bit (unat (hd d)) 1 else ws)"
    using v by auto
  have idx: "p + 1 = Suc p" "p + 2 = Suc (Suc p)" by simp_all
  show ?thesis
    unfolding opt_loop.simps [of buf p len drp ws] Let_def idx k osz
      if_P [OF pos] if_not_P [OF ne(1)] if_not_P [OF ne(2)] if_not_P [OF big(1)] if_not_P [OF big(2)]
      win push nat_int ..
qed

lemma opt_loop_options:
  assumes "mem_at buf p (concat (map opt_bytes os))" and "\<forall>opt\<in>set os. opt_ok opt" and "drp \<noteq> 0"
  shows "opt_loop buf p (int (length (concat (map opt_bytes os)))) drp ws = Some (opt_report (drp, ws) os)"
  using assms
proof (induction os arbitrary: p drp ws)
  case Nil
  then show ?case by (simp add: opt_loop_end)
next
  case (Cons opt os)
  show ?case
  proof (cases opt)
    case OptNop
    then show ?thesis
      using Cons.prems Cons.IH [of "Suc p" drp ws] by (simp add: opt_loop_nop)
  next
    case (OptTlv k d)
    let ?drp = "if k = TCPOPT_TIMESTAMP \<or> k = TCPOPT_WINDOW then drp else 2"
    let ?ws = "if k = TCPOPT_WINDOW \<and> hd d < 15 then push_bit (unat (hd d)) 1 else ws"
    let ?rest = "concat (map opt_bytes os)"
    have "opt_loop buf p (int (length (concat (map opt_bytes (opt # os))))) drp ws
          = opt_loop buf (p + (2 + length d)) (int (length ?rest)) ?drp ?ws"
      using Cons.prems OptTlv
      by (subst opt_loop_tlv [where k = k and d = d]) auto
    also have "\<dots> = Some (opt_report (?drp, ?ws) os)"
      using Cons.prems OptTlv by (intro Cons.IH) auto
    finally show ?thesis
      using OptTlv by simp
  qed
qed

text \<open>
  An end-of-options byte does not end the scan.  Over zero bytes, the padding that follows
  the end of options, it goes on for ever.
\<close>

lemma opt_loop_zeros_aux:
  assumes "opt_loop buf p len drp ws = Some r"
  shows "(\<forall>i\<ge>p. buf i = TCPOPT_EOL) \<longrightarrow> 0 < len \<longrightarrow> drp \<noteq> 0 \<longrightarrow> False"
proof (rule opt_loop.raw_induct [where P = "\<lambda>buf p len drp ws r.
    (\<forall>i\<ge>p. buf i = TCPOPT_EOL) \<longrightarrow> 0 < len \<longrightarrow> drp \<noteq> 0 \<longrightarrow> False", OF _ assms])
  fix f :: "mem \<Rightarrow> nat \<Rightarrow> int \<Rightarrow> int \<Rightarrow> u16 \<Rightarrow> (int \<times> u16) option"
    and buf p len drp ws r
  assume IH: "\<And>buf p len drp ws r. f buf p len drp ws = Some r \<Longrightarrow>
      (\<forall>i\<ge>p. buf i = TCPOPT_EOL) \<longrightarrow> 0 < len \<longrightarrow> drp \<noteq> 0 \<longrightarrow> False"
    and eq: "(if 0 < len \<and> drp \<noteq> 0 then
        (let opcode = buf p; opsize = int (unat (buf (p + 1))) in
         if opcode = TCPOPT_EOL then f buf (p + 1) len drp ws
         else if opcode = TCPOPT_NOP then f buf (p + 1) (len - 1) drp ws
         else if opsize < 2 then f buf (p + 2) len drp ws
         else if len < opsize then f buf (p + 2) len drp ws
         else
           f buf (p + nat opsize) (len - opsize)
             (if opcode = TCPOPT_TIMESTAMP \<or> opcode = TCPOPT_WINDOW then drp else 2)
             (if opcode = TCPOPT_WINDOW \<and> buf (p + 2) < 15
              then push_bit (unat (buf (p + 2))) 1 else ws))
      else Some (drp, ws)) = Some r"
  show "(\<forall>i\<ge>p. buf i = TCPOPT_EOL) \<longrightarrow> 0 < len \<longrightarrow> drp \<noteq> 0 \<longrightarrow> False"
  proof (intro impI)
    assume z: "\<forall>i\<ge>p. buf i = TCPOPT_EOL" and pos: "0 < len" "drp \<noteq> 0"
    then have "f buf (p + 1) len drp ws = Some r"
      using eq by (simp add: Let_def)
    from IH [OF this] show False
      using z pos by simp
  qed
qed

lemma opt_loop_skips_zeros:
  assumes "\<forall>i<n. buf (p + i) = TCPOPT_EOL" and "0 < len" and "drp \<noteq> 0"
  shows "opt_loop buf p len drp ws = opt_loop buf (p + n) len drp ws"
  using assms
proof (induction n)
  case 0
  then show ?case by simp
next
  case (Suc n)
  then have "opt_loop buf p len drp ws = opt_loop buf (p + n) len drp ws"
    by simp
  also have "\<dots> = opt_loop buf (p + Suc n) len drp ws"
    using Suc.prems by (subst opt_loop.simps) (simp add: Let_def)
  finally show ?case .
qed

text \<open>Where a message that the filter keeps is found.\<close>

lemma filter_send_kept:
  assumes "filter_send_tcp_ack m2j now new buf m = Some (ret, m', d)" and "ack_wf m"
    and "ret \<noteq> 0" and "d \<noteq> Some new"
  shows "\<exists>i<TCP_ACK_NUM. busy (ack_info m' ! i) \<and> msgbuf (ack_info m' ! i) = Some new \<and>
           timer (ack_info m' ! i) \<noteq> None"
proof -
  define mu where "mu = tcp_ack_update now m"
  have mu: "ack_wf mu"
    using assms(2) by (simp add: mu_def tcp_ack_update_wf)
  obtain drp msg ws where chk: "tcp_check_ack buf zero_msg 0 = Some (drp, msg, ws)"
    using assms(1) by (auto simp: filter_send_tcp_ack_def Let_def split: option.splits)
  have nz: "\<not> (drp = 0 \<and> ws = 0)"
    using assms(1,3) chk by (auto simp: filter_send_tcp_ack_def Let_def)
  obtain i where i: "tcp_ack_match mu msg = Some i"
    using assms chk nz filter_new_flow_held [of now msg ws mu ret m' d] mu
    by (cases "tcp_ack_match mu msg") (auto simp: filter_send_tcp_ack_def mu_def Let_def)
  note m = tcp_ack_matchD [OF i]
  have "filter_known_flow m2j now new drp msg ws i mu = (ret, m', d)"
    using assms(1) chk nz i by (auto simp: filter_send_tcp_ack_def mu_def Let_def)
  then show ?thesis
    using m(1)
  proof (cases rule: filter_known_flow_cases)
    case (scaled ws')
    then show ?thesis using assms(3) by simp
  next
    case (handled ws' type a)
    have "msgbuf a = Some new" "timer a \<noteq> None" "busy a"
      using handle_new_outcome [OF handled(2)] handle_new_frame(1) [OF handled(2)] assms(3,4) m(2)
      by auto
    then show ?thesis
      using m(1) mu handled(3) by (auto simp: ack_wf_def)
  qed
qed

subsection \<open>A worked example\<close>

text \<open>Pure ACKs of one flow (20-byte IP and TCP headers) and the table after two of them.\<close>

definition ack_packet :: "u8 \<Rightarrow> mem" where
  "ack_packet n = (\<lambda>_. 0)(12 := 8, 14 := 0x45, 17 := 40, 23 := 6, 34 := 31, 45 := n, 46 := 0x50, 47 := 0x10)"

fun run_acks :: "(nat \<Rightarrow> u64) \<Rightarrow> (u64 \<times> nat \<times> mem) list \<Rightarrow> tcp_ack_manage \<Rightarrow> tcp_ack_manage option" where
  "run_acks m2j [] m = Some m"
| "run_acks m2j ((now, new, buf) # xs) m =
     (case xmit_ack_filter m2j now new buf 54 m of
        None \<Rightarrow> None | Some (_, m', _) \<Rightarrow> run_acks m2j xs m')"

definition two_acks :: tcp_ack_manage where
  "two_acks = the (run_acks (\<lambda>_. 5) [(0, 1, ack_packet 1), (0, 2, ack_packet 2)] (tcp_ack_init (\<lambda>_. 5) 0))"

lemma run_acks_reachable:
  "run_acks m2j xs m = Some m' \<Longrightarrow> ack_reachable m2j m \<Longrightarrow> ack_reachable m2j m'"
proof (induction m2j xs m rule: run_acks.induct)
  case (1 m2j m)
  then show ?case by simp
next
  case (2 m2j now new buf xs m)
  then obtain sent mx d where x: "xmit_ack_filter m2j now new buf 54 m = Some (sent, mx, d)"
    by (auto split: option.splits)
  then have "ack_reachable m2j mx"
    using 2(3) by (blast intro: ack_reachable.step ack_step.tx)
  then show ?case
    using 2(1) 2(2) x by simp
qed

lemma check_ack_packet:
  "tcp_check_ack (ack_packet n) zero_msg 0 =
     Some (1, zero_msg\<lparr>source := 31, seq := ucast (ucast n :: u16)\<rparr>, 0)"
proof -
  have "is_drop_tcp_ack (ack_packet n) 34 20 0 = Some (1, 0)"
    by (simp add: is_drop_tcp_ack_def ack_packet_def opt_loop_end)
  then show ?thesis
    by (simp add: tcp_check_ack_def is_ipv4_tcp_def ack_packet_def tcp_off_def ip_hdr_len_def
        be16_def be32_def le16_def le32_def ETH_P_IP_def IPPROTO_TCP_def zero_msg_def Let_def)
qed

lemmas run_ack_simps = check_ack_packet filter_send_tcp_ack_def xmit_ack_filter_def
  tcp_ack_update_def MAX_TCP_ACK_def time_after_def tcp_ack_match_def filter_new_flow_def
  filter_known_flow_def tcp_ack_handle_new_def tcp_ack_alloc_index_def start_flow_def upd_info_def
  move_tcpack_msg_def Let_def U32_BEFORE_def same_flow_def tcp_ack_init_def init_info_def
  TCP_ACK_NUM_def TCP_ACK_DROP_CNT_def MIN_WIN_def upt_conv_Cons

lemma two_acks_run:
  "run_acks (\<lambda>_. 5) [(0, 1, ack_packet 1), (0, 2, ack_packet 2)] (tcp_ack_init (\<lambda>_. 5) 0)
     = Some two_acks"
proof -
  have "run_acks (\<lambda>_. 5) [(0, 1, ack_packet 1), (0, 2, ack_packet 2)] (tcp_ack_init (\<lambda>_. 5) 0) \<noteq> None"
    by (simp add: run_ack_simps)
  then show ?thesis
    by (auto simp: two_acks_def)
qed

lemma two_acks_reachable: "ack_reachable (\<lambda>_. 5) two_acks"
  by (rule run_acks_reachable [OF two_acks_run ack_reachable.start])

lemma third_ack_held:
  "\<exists>m'. xmit_ack_filter (\<lambda>_. 5) 0 3 (ack_packet 3) 54 two_acks = Some (False, m', None)"
  by (simp add: two_acks_def run_ack_simps)

lemma data_packet:
  "is_ipv4_tcp ((ack_packet 1)(17 := 100))"
  "ip_hdr_len ((ack_packet 1)(17 := 100)) = 20"
  "tcp_off ((ack_packet 1)(17 := 100)) = 34"
  "be16 ((ack_packet 1)(17 := 100)) 16 = 100"
  by (simp_all add: is_ipv4_tcp_def ack_packet_def tcp_off_def ip_hdr_len_def be16_def
       ETH_P_IP_def IPPROTO_TCP_def)

subsection \<open>Properties\<close>



text \<open>C33: The transmit path of the ACK filter accounts for every message: the new message is
  transmitted, held in the table or dropped, and every message held before is still held
  or dropped; nothing is lost and nothing is released twice.\<close>

theorem ack_messages_conserved:
  assumes "ack_reachable m2j m"
    and "xmit_ack_filter m2j now new buf len m = Some (sent, m', d)"
  shows "held m' + opt_mset d + (if sent then {#new#} else {#}) = held m + {#new#}"
proof -
  have wf: "ack_wf m"
    using ack_reachable_inv [OF assms(1)] by simp
  show ?thesis
    using assms(2) filter_send_held [OF _ wf, of m2j now new buf]
    by (auto simp: xmit_ack_filter_def ac_simps split: if_splits option.splits)
qed

theorem ack_messages_conserved_witness:
  "\<exists>m'. xmit_ack_filter (\<lambda>_. 5) 0 3 (ack_packet 3) 54 two_acks = Some (False, m', None) \<and>
        held m' = held two_acks + {#3#}"
  using third_ack_held ack_messages_conserved [OF two_acks_reachable, of 0 3 "ack_packet 3" 54 False]
  by fastforce

text \<open>C34: With no push pending and nothing in flight, of the in-order ACKs of a flow the filter
  holds back all but the one that brings the drop counter to its limit, which it
  transmits: at most \<open>max_drop_cnt - 1\<close> in a row are withheld.\<close>

theorem ack_sent_within_limit:
  assumes "in_send_msg a = None" and "\<not> psh_flag a" and "in_order (seq (ack_msg a)) nms"
    and "drop_cnt a + int (length nms) = maxd" and "nms \<noteq> []"
  shows "offers m2j now maxd a nms = replicate (length nms - 1) 1 @ [0]"
  by (rule offers_bound [OF assms])

theorem ack_sent_within_limit_witness:
  "offers (\<lambda>ms. of_nat ms) 0 3 (init_info (\<lambda>ms. of_nat ms) 0 0)
     [(7, zero_msg\<lparr>seq := 10\<rparr>), (8, zero_msg\<lparr>seq := 20\<rparr>), (9, zero_msg\<lparr>seq := 30\<rparr>)] = [1, 1, 0]"
  using ack_sent_within_limit [of "init_info (\<lambda>ms. of_nat ms) 0 0"
     "[(7, zero_msg\<lparr>seq := 10\<rparr>), (8, zero_msg\<lparr>seq := 20\<rparr>), (9, zero_msg\<lparr>seq := 30\<rparr>)]" 3
     "\<lambda>ms. of_nat ms" 0]
  by (simp add: init_info_def zero_msg_def U32_BEFORE_def)

text \<open>C35: A frame that the filter takes and does not drop is held by a slot whose timer runs;
  when that timer fires, exactly this message is transmitted and the slot is empty again.\<close>

theorem held_ack_released_by_timer:
  assumes "ack_reachable m2j m"
    and "xmit_ack_filter m2j now new buf len m = Some (False, m', d)" and "d \<noteq> Some new"
  shows "\<exists>i<TCP_ACK_NUM. msgbuf (ack_info m' ! i) = Some new \<and> timer (ack_info m' ! i) \<noteq> None \<and>
           snd (fire_timer i m') = Some new \<and> msgbuf (ack_info (fst (fire_timer i m')) ! i) = None"
proof -
  have wf: "ack_wf m" and quiet: "ack_quiet m"
    using ack_reachable_inv [OF assms(1)] by simp_all
  obtain ret where ret: "filter_send_tcp_ack m2j now new buf m = Some (ret, m', d)" "ret \<noteq> 0"
    using assms(2) by (auto simp: xmit_ack_filter_def split: if_splits option.splits)
  obtain i where i: "i < TCP_ACK_NUM" "busy (ack_info m' ! i)" "msgbuf (ack_info m' ! i) = Some new"
      "timer (ack_info m' ! i) \<noteq> None"
    using filter_send_kept [OF ret(1) wf ret(2) assms(3)] by blast
  have m': "ack_wf m'" "ack_quiet m'"
    using filter_send_wf [OF ret(1) wf] filter_send_marked [OF ret(1) wf quiet] ret(2) by simp_all
  then have len: "i < length (ack_info m')"
    using i(1) by (simp add: ack_wf_def)
  have "msgbuf (ack_info (fst (fire_timer i m')) ! i) = None"
    unfolding fire_timer_eq [OF len m'(2)] using i len
    by (simp add: move_tcpack_msg_def)
  then show ?thesis
    using i fire_timer_eq [OF len m'(2)] by auto
qed

theorem held_ack_released_by_timer_witness:
  "\<exists>m' i. xmit_ack_filter (\<lambda>_. 5) 0 3 (ack_packet 3) 54 two_acks = Some (False, m', None) \<and>
        i < TCP_ACK_NUM \<and> snd (fire_timer i m') = Some 3"
  using third_ack_held held_ack_released_by_timer [OF two_acks_reachable, of 0 3 "ack_packet 3" 54]
  by fastforce

text \<open>On a TCP header whose option area is a well-formed list of options and that carries no
  payload, the classification ends and reports 1 (droppable) or 2 (some other option), with
  the last window scale, exactly as the option list says.\<close>

lemma tcp_options_classified:
  assumes "int (unat (drop_bit 4 (buf (t + 12)))) * 4 = 20 + int (length (concat (map opt_bytes os)))"
    and "mem_at buf (t + 20) (concat (map opt_bytes os))" and "\<forall>opt\<in>set os. opt_ok opt"
    and "tcp_tot_len \<le> 20 + int (length (concat (map opt_bytes os)))"
  shows "is_drop_tcp_ack buf t tcp_tot_len ws = Some (opt_report (1, ws) os)"
  using assms opt_loop_options [OF assms(2,3), of 1 ws]
  by (simp add: is_drop_tcp_ack_def Let_def)

lemma tcp_options_classified_witness:
  "is_drop_tcp_ack ((\<lambda>_. 0)(46 := 0x60, 54 := 1, 55 := 3, 56 := 3, 57 := 7)) 34 24 0 = Some (1, 128)"
  using tcp_options_classified [of "(\<lambda>_. 0)(46 := 0x60, 54 := 1, 55 := 3, 56 := 3, 57 := 7)" 34
     "[OptNop, OptTlv 3 [7]]" 24 0]
  by (simp add: TCPOPT_NOP_def TCPOPT_EOL_def TCPOPT_WINDOW_def TCPOPT_TIMESTAMP_def)

text \<open>An end-of-options byte does not end the option scan: a run of such bytes is skipped
  without consuming header length, also past the end of the header, and over memory that
  holds only such bytes the scan never returns.\<close>

lemma option_scan_runs_past_end:
  assumes "0 < len" and "drp \<noteq> 0"
  shows "((\<forall>i<n. buf (p + i) = TCPOPT_EOL) \<longrightarrow>
           opt_loop buf p len drp ws = opt_loop buf (p + n) len drp ws) \<and>
         ((\<forall>i\<ge>p. buf i = TCPOPT_EOL) \<longrightarrow> opt_loop buf p len drp ws = None)"
proof (intro conjI impI)
  show "opt_loop buf p len drp ws = opt_loop buf (p + n) len drp ws"
    if "\<forall>i<n. buf (p + i) = TCPOPT_EOL"
    by (rule opt_loop_skips_zeros [OF that assms])
  show "opt_loop buf p len drp ws = None" if "\<forall>i\<ge>p. buf i = TCPOPT_EOL"
  proof (rule ccontr)
    assume "opt_loop buf p len drp ws \<noteq> None"
    then obtain r where "opt_loop buf p len drp ws = Some r"
      by blast
    then show False
      using opt_loop_zeros_aux that assms by blast
  qed
qed

lemma option_scan_runs_past_end_witness:
  "opt_loop (\<lambda>_. 0) 54 4 1 0 = None"
  using option_scan_runs_past_end [of 4 1 0 "\<lambda>_. 0" 54 0] by (simp add: TCPOPT_EOL_def)

text \<open>A TCP segment with payload is never delayed or dropped by the filter.\<close>

lemma data_segment_not_filtered:
  assumes "ack_reachable m2j m" and "is_ipv4_tcp buf"
    and "int (ip_hdr_len buf) + int (unat (drop_bit 4 (buf (tcp_off buf + 12)))) * 4
           < int (unat (be16 buf 16))"
  shows "\<exists>m'. xmit_ack_filter m2j now new buf len m = Some (True, m', None) \<and> held m' = held m"
proof -
  have wf: "ack_wf m"
    using ack_reachable_inv [OF assms(1)] by simp
  have "\<exists>msg. tcp_check_ack buf zero_msg 0 = Some (0, msg, 0)"
    using assms(2,3) by (auto simp: tcp_check_ack_def is_drop_tcp_ack_def Let_def)
  then have "filter_send_tcp_ack m2j now new buf m = Some (0, tcp_ack_update now m, None)"
    by (auto simp: filter_send_tcp_ack_def)
  then show ?thesis
    using wf by (simp add: xmit_ack_filter_def held_tcp_ack_update)
qed

lemma data_segment_not_filtered_witness:
  "\<exists>m'. xmit_ack_filter (\<lambda>_. 5) 0 3 ((ack_packet 1)(17 := 100)) 114 two_acks = Some (True, m', None) \<and>
        held m' = held two_acks"
  by (rule data_segment_not_filtered [OF two_acks_reachable data_packet(1)])
     (simp add: data_packet, simp add: ack_packet_def)

end
