(* ===== verification/FrameQueue.thy ===== *)
theory FrameQueue
  imports Prelude
begin

section \<open>The frame queues\<close>

text \<open>
  The queues of \<open>aicwf_txrxif.c\<close>: \<open>struct frame_queue\<close>, eight priority classes with a common
  bound on the number of frames, and \<open>struct rx_frame_queue\<close>, the plain bounded queue of
  receive buffers.  Frames and buffers are numbers, a null pointer is \<open>None\<close>, and the
  functions that free a frame return it.
\<close>

subsection \<open>Bounded first-in first-out queues\<close>

text \<open>
  What a user of a receive queue relies on.  The laws speak of the contents as a list; a
  run of the two operations in any order then delivers exactly what was accepted, in order.
\<close>

datatype 'a queue_op = Enq 'a | Deq

text \<open>Result: the accepted elements, the delivered elements and the final queue.\<close>

fun run_queue ::
  "('a \<Rightarrow> 'q \<Rightarrow> bool \<times> 'q) \<Rightarrow> ('q \<Rightarrow> 'a option \<times> 'q) \<Rightarrow> 'a queue_op list \<Rightarrow> 'q \<Rightarrow>
   'a list \<times> 'a list \<times> 'q" where
  "run_queue enq deq [] q = ([], [], q)"
| "run_queue enq deq (Enq x # ops) q =
     (case enq x q of (ok, q1) \<Rightarrow>
      case run_queue enq deq ops q1 of (acc, del, q2) \<Rightarrow> (if ok then x # acc else acc, del, q2))"
| "run_queue enq deq (Deq # ops) q =
     (case deq q of (r, q1) \<Rightarrow>
      case run_queue enq deq ops q1 of (acc, del, q2) \<Rightarrow>
        (acc, case r of None \<Rightarrow> del | Some x \<Rightarrow> x # del, q2))"

locale bounded_queue =
  fixes inv :: "'q \<Rightarrow> bool" and contents :: "'q \<Rightarrow> 'a list" and cap :: "'q \<Rightarrow> nat"
    and enq :: "'a \<Rightarrow> 'q \<Rightarrow> bool \<times> 'q" and deq :: "'q \<Rightarrow> 'a option \<times> 'q"
  assumes enq_inv: "inv q \<Longrightarrow> inv (snd (enq x q))"
    and enq_cap: "inv q \<Longrightarrow> cap (snd (enq x q)) = cap q"
    and enq_room: "inv q \<Longrightarrow> fst (enq x q) \<longleftrightarrow> length (contents q) < cap q"
    and enq_contents: "inv q \<Longrightarrow>
      contents (snd (enq x q)) = (if fst (enq x q) then contents q @ [x] else contents q)"
    and deq_inv: "inv q \<Longrightarrow> inv (snd (deq q))"
    and deq_cap: "inv q \<Longrightarrow> cap (snd (deq q)) = cap q"
    and deq_head: "inv q \<Longrightarrow> fst (deq q) = (case contents q of [] \<Rightarrow> None | x # _ \<Rightarrow> Some x)"
    and deq_contents: "inv q \<Longrightarrow> contents (snd (deq q)) = tl (contents q)"
begin

lemma run_invariant:
  assumes "inv q" and "run_queue enq deq ops q = (acc, del, q')"
  shows "inv q' \<and> cap q' = cap q"
  using assms
proof (induction ops arbitrary: q acc del q')
  case Nil
  then show ?case by simp
next
  case (Cons op ops)
  show ?case
  proof (cases op)
    case (Enq x)
    then show ?thesis
      using Cons.prems Cons.IH [OF enq_inv [OF Cons.prems(1)], of x] enq_cap [OF Cons.prems(1), of x]
      by (auto split: prod.splits if_splits)
  next
    case Deq
    then show ?thesis
      using Cons.prems Cons.IH [OF deq_inv [OF Cons.prems(1)]] deq_cap [OF Cons.prems(1)]
      by (auto split: prod.splits option.splits)
  qed
qed

lemma run_fifo:
  assumes "inv q" and "run_queue enq deq ops q = (acc, del, q')"
  shows "contents q @ acc = del @ contents q'"
  using assms
proof (induction ops arbitrary: q acc del q')
  case Nil
  then show ?case by simp
next
  case (Cons op ops)
  show ?case
  proof (cases op)
    case (Enq x)
    obtain ok q1 where e: "enq x q = (ok, q1)" by fastforce
    obtain acc1 del1 q2 where r: "run_queue enq deq ops q1 = (acc1, del1, q2)"
      by (cases "run_queue enq deq ops q1") auto
    have "contents q1 @ acc1 = del1 @ contents q2"
      using Cons.IH [OF _ r] enq_inv [OF Cons.prems(1), of x] e by simp
    then show ?thesis
      using Cons.prems Enq e r enq_contents [OF Cons.prems(1), of x] by (auto split: if_splits)
  next
    case Deq
    obtain x q1 where d: "deq q = (x, q1)" by fastforce
    obtain acc1 del1 q2 where r: "run_queue enq deq ops q1 = (acc1, del1, q2)"
      by (cases "run_queue enq deq ops q1") auto
    have "contents q1 @ acc1 = del1 @ contents q2"
      using Cons.IH [OF _ r] deq_inv [OF Cons.prems(1)] d by simp
    then show ?thesis
      using Cons.prems Deq d r deq_head [OF Cons.prems(1)] deq_contents [OF Cons.prems(1)]
      by (cases "contents q") auto
  qed
qed

lemma run_bound:
  assumes "inv q" and "length (contents q) \<le> cap q" and "run_queue enq deq ops q = (acc, del, q')"
  shows "length (contents q') \<le> cap q"
  using assms
proof (induction ops arbitrary: q acc del q')
  case Nil
  then show ?case by simp
next
  case (Cons op ops)
  show ?case
  proof (cases op)
    case (Enq x)
    have "length (contents (snd (enq x q))) \<le> cap (snd (enq x q))"
      using enq_contents [OF Cons.prems(1), of x] enq_room [OF Cons.prems(1), of x]
        enq_cap [OF Cons.prems(1), of x] Cons.prems(2) by auto
    then show ?thesis
      using Cons.prems(3) Enq Cons.IH [OF enq_inv [OF Cons.prems(1)], of x] enq_cap [OF Cons.prems(1), of x]
      by (auto split: prod.splits if_splits)
  next
    case Deq
    have "length (contents (snd (deq q))) \<le> cap (snd (deq q))"
      using deq_contents [OF Cons.prems(1)] deq_cap [OF Cons.prems(1)] Cons.prems(2) by simp
    then show ?thesis
      using Cons.prems(3) Deq Cons.IH [OF deq_inv [OF Cons.prems(1)]] deq_cap [OF Cons.prems(1)]
      by (auto split: prod.splits option.splits)
  qed
qed

end

subsection \<open>The receive-buffer queue\<close>

record rx_frame_queue =
  rxq_qmax :: u16
  rxq_qcnt :: u16
  rxq_list :: "nat list"

definition aicwf_rxframe_queue_init_2 :: "int \<Rightarrow> rx_frame_queue" where
  "aicwf_rxframe_queue_init_2 max_len = \<lparr>rxq_qmax = of_int max_len, rxq_qcnt = 0, rxq_list = []\<rparr>"

definition rxbuff_queue_penq :: "rx_frame_queue \<Rightarrow> nat \<Rightarrow> nat option \<times> rx_frame_queue" where
  "rxbuff_queue_penq pq p =
     (if rxq_qmax pq \<le> rxq_qcnt pq then (None, pq)
      else (Some p, pq\<lparr>rxq_list := rxq_list pq @ [p], rxq_qcnt := rxq_qcnt pq + 1\<rparr>))"

definition rxbuff_dequeue :: "rx_frame_queue \<Rightarrow> nat option \<times> rx_frame_queue" where
  "rxbuff_dequeue pq =
     (if rxq_qcnt pq = 0 then (None, pq)
      else if rxq_list pq = [] then (None, pq)
      else (Some (hd (rxq_list pq)),
            pq\<lparr>rxq_list := tl (rxq_list pq), rxq_qcnt := rxq_qcnt pq - 1\<rparr>))"

definition aicwf_rxbuff_enqueue :: "rx_frame_queue option \<Rightarrow> nat option \<Rightarrow> bool \<times> rx_frame_queue option" where
  "aicwf_rxbuff_enqueue rxq pkt =
     (case (rxq, pkt) of
        (Some q, Some p) \<Rightarrow>
          if rxq_qcnt q < rxq_qmax q then
            (case rxbuff_queue_penq q p of
               (Some _, q') \<Rightarrow> (True, Some q')
             | (None, q') \<Rightarrow> (False, Some q'))
          else (False, Some q)
      | _ \<Rightarrow> (False, rxq))"

text \<open>Each buffer goes back to the pool with \<open>aicwf_prealloc_rxbuff_free\<close>, in queue order.\<close>

fun rxbuff_queue_flush :: "rx_frame_queue \<Rightarrow> nat list \<Rightarrow> nat list \<times> rx_frame_queue" where
  "rxbuff_queue_flush pq [] = ([], pq)"
| "rxbuff_queue_flush pq (p # ps) =
     (case rxbuff_queue_flush (pq\<lparr>rxq_list := remove1 p (rxq_list pq), rxq_qcnt := rxq_qcnt pq - 1\<rparr>) ps of
        (freed, pq') \<Rightarrow> (p # freed, pq'))"

definition rxq_wf :: "rx_frame_queue \<Rightarrow> bool" where
  "rxq_wf q \<longleftrightarrow> unat (rxq_qcnt q) = length (rxq_list q) \<and> rxq_qcnt q \<le> rxq_qmax q"

lemma rxq_init_wf: "rxq_wf (aicwf_rxframe_queue_init_2 n)"
  by (simp add: rxq_wf_def aicwf_rxframe_queue_init_2_def)

definition rxq_put :: "nat \<Rightarrow> rx_frame_queue \<Rightarrow> bool \<times> rx_frame_queue" where
  "rxq_put p q = (case aicwf_rxbuff_enqueue (Some q) (Some p) of (ok, q') \<Rightarrow> (ok, the q'))"

lemma rxq_put_eq:
  "rxq_put p q =
     (if rxq_qcnt q < rxq_qmax q
      then (True, q\<lparr>rxq_list := rxq_list q @ [p], rxq_qcnt := rxq_qcnt q + 1\<rparr>) else (False, q))"
  by (auto simp: rxq_put_def aicwf_rxbuff_enqueue_def rxbuff_queue_penq_def)

interpretation rxq: bounded_queue rxq_wf rxq_list "\<lambda>q. unat (rxq_qmax q)" rxq_put rxbuff_dequeue
proof unfold_locales
  fix q :: rx_frame_queue and x :: nat
  assume wf: "rxq_wf q"
  have room: "rxq_qcnt q < rxq_qmax q \<longleftrightarrow> length (rxq_list q) < unat (rxq_qmax q)"
    using wf by (simp add: rxq_wf_def word_less_nat_alt)
  show "rxq_wf (snd (rxq_put x q))"
    using wf by (auto simp: rxq_put_eq rxq_wf_def inc_le unat_inc)
  show "unat (rxq_qmax (snd (rxq_put x q))) = unat (rxq_qmax q)"
    by (simp add: rxq_put_eq)
  show "fst (rxq_put x q) \<longleftrightarrow> length (rxq_list q) < unat (rxq_qmax q)"
    by (simp add: rxq_put_eq room)
  show "rxq_list (snd (rxq_put x q)) = (if fst (rxq_put x q) then rxq_list q @ [x] else rxq_list q)"
    by (simp add: rxq_put_eq)
next
  fix q :: rx_frame_queue
  assume wf: "rxq_wf q"
  have z: "rxq_qcnt q = 0 \<longleftrightarrow> rxq_list q = []"
    using wf by (auto simp: rxq_wf_def unat_eq_0)
  show "rxq_wf (snd (rxbuff_dequeue q))"
  proof (cases "rxq_qcnt q = 0")
    case False
    then have "unat (rxq_qcnt q - 1) = unat (rxq_qcnt q) - 1" by (rule unat_dec)
    then show ?thesis
      using wf False z by (auto simp: rxbuff_dequeue_def rxq_wf_def word_le_nat_alt intro: le_trans [OF diff_le_self])
  qed (use wf in \<open>simp add: rxbuff_dequeue_def\<close>)
  show "unat (rxq_qmax (snd (rxbuff_dequeue q))) = unat (rxq_qmax q)"
    by (simp add: rxbuff_dequeue_def)
  show "fst (rxbuff_dequeue q) = (case rxq_list q of [] \<Rightarrow> None | x # _ \<Rightarrow> Some x)"
    using z by (simp add: rxbuff_dequeue_def split: list.split)
  show "rxq_list (snd (rxbuff_dequeue q)) = tl (rxq_list q)"
    using z by (simp add: rxbuff_dequeue_def)
qed


subsection \<open>The priority queue of frames\<close>

record frame_queue =
  num_prio :: u16
  hi_prio :: u16
  qmax :: u16
  qcnt :: u16
  queuelist :: "nat list list"

definition aicwf_frame_queue_init :: "int \<Rightarrow> int \<Rightarrow> frame_queue" where
  "aicwf_frame_queue_init np max_len =
     \<lparr>num_prio = of_int np, hi_prio = 0, qmax = of_int max_len, qcnt = 0,
      queuelist = replicate 8 []\<rparr>"

text \<open>\<open>q.queuelist[prio]\<close> and its update.\<close>

definition prioq :: "frame_queue \<Rightarrow> nat \<Rightarrow> nat list" where
  "prioq q prio = queuelist q ! prio"

definition set_prioq :: "nat \<Rightarrow> nat list \<Rightarrow> frame_queue \<Rightarrow> frame_queue" where
  "set_prioq prio xs q = q\<lparr>queuelist := (queuelist q)[prio := xs]\<rparr>"

definition aicwf_frame_queue_penq :: "frame_queue \<Rightarrow> nat \<Rightarrow> nat \<Rightarrow> nat option \<times> frame_queue" where
  "aicwf_frame_queue_penq pq prio p =
     (if unat (qmax pq) \<le> length (prioq pq prio) then (None, pq)
      else
        (let pq1 = set_prioq prio (prioq pq prio @ [p]) pq;
             pq2 = pq1\<lparr>qcnt := qcnt pq1 + 1\<rparr>
         in (Some p, if unat (hi_prio pq2) < prio then pq2\<lparr>hi_prio := of_nat prio\<rparr> else pq2)))"

text \<open>The loops over the priorities: the freed frames are returned in the order of the calls.\<close>

fun flush_prios :: "nat \<Rightarrow> nat \<Rightarrow> frame_queue \<Rightarrow> nat list \<times> frame_queue" where
  "flush_prios prio 0 pq = ([], pq)"
| "flush_prios prio (Suc n) pq =
     (let xs = prioq pq prio;
          pq1 = (set_prioq prio [] pq)\<lparr>qcnt := qcnt pq - of_nat (length xs)\<rparr>
      in case flush_prios (Suc prio) n pq1 of (freed, pq') \<Rightarrow> (xs @ freed, pq'))"

definition aicwf_frame_queue_flush :: "frame_queue \<Rightarrow> nat list \<times> frame_queue" where
  "aicwf_frame_queue_flush pq = flush_prios 0 (unat (num_prio pq)) pq"

fun lowest_prio :: "nat \<Rightarrow> nat \<Rightarrow> frame_queue \<Rightarrow> nat" where
  "lowest_prio prio 0 pq = prio"
| "lowest_prio prio (Suc n) pq = (if prioq pq prio \<noteq> [] then prio else lowest_prio (Suc prio) n pq)"

text \<open>
  The frame, if the queue has one, and \<open>*prio_out\<close>, which an empty queue leaves as it was.
\<close>

definition aicwf_frame_queue_peek_tail :: "frame_queue \<Rightarrow> int \<Rightarrow> nat option \<times> int" where
  "aicwf_frame_queue_peek_tail pq prio_out =
     (if qcnt pq = 0 then (None, prio_out)
      else
        (let prio = lowest_prio 0 (unat (hi_prio pq)) pq; xs = prioq pq prio
         in (if xs = [] then None else Some (last xs), int prio)))"

definition aicwf_is_framequeue_empty :: "frame_queue \<Rightarrow> bool" where
  "aicwf_is_framequeue_empty pq \<longleftrightarrow>
     \<not> 0 < sum_list (map (\<lambda>prio. length (prioq pq prio)) [0..<Suc (unat (hi_prio pq))])"

text \<open>The loop that lowers \<open>hi_prio\<close> past empty queues.\<close>

fun lower_hi_prio :: "nat \<Rightarrow> frame_queue \<Rightarrow> nat" where
  "lower_hi_prio 0 pq = 0"
| "lower_hi_prio (Suc h) pq = (if prioq pq (Suc h) = [] then lower_hi_prio h pq else Suc h)"

definition aicwf_frame_dequeue :: "frame_queue \<Rightarrow> nat option \<times> frame_queue" where
  "aicwf_frame_dequeue pq0 =
     (if qcnt pq0 = 0 then (None, pq0)
      else
        (let prio = lower_hi_prio (unat (hi_prio pq0)) pq0;
             pq = pq0\<lparr>hi_prio := of_nat prio\<rparr>
         in case prioq pq prio of
              [] \<Rightarrow> (None, pq)
            | p # ps \<Rightarrow> (Some p, (set_prioq prio ps pq)\<lparr>qcnt := qcnt pq - 1\<rparr>)))"

definition aicwf_skb_dequeue_tail :: "frame_queue \<Rightarrow> nat \<Rightarrow> nat option \<times> frame_queue" where
  "aicwf_skb_dequeue_tail pq prio =
     (let xs = prioq pq prio in
      if xs = [] then (None, pq)
      else (Some (last xs), (set_prioq prio (butlast xs) pq)\<lparr>qcnt := qcnt pq - 1\<rparr>))"

text \<open>
  \<open>aicwf_frame_enq\<close> returns its result, the new queue and the frame it frees.  The
  evicting branch puts the new frame into the class \<open>prio_modified\<close> of the evicted one.
\<close>

definition aicwf_frame_enq :: "frame_queue \<Rightarrow> nat \<Rightarrow> nat \<Rightarrow> bool \<times> frame_queue \<times> nat option" where
  "aicwf_frame_enq q pkt prio =
     (if length (prioq q prio) < unat (qmax q) \<and> qcnt q < qmax q
      then (True, snd (aicwf_frame_queue_penq q prio pkt), None)
      else
        (let (p, prio_modified) =
               (if unat (qmax q) \<le> length (prioq q prio) then (None, int prio)
                else if qmax q \<le> qcnt q then aicwf_frame_queue_peek_tail q (-1)
                else (None, -1))
         in if length (prioq q prio) < unat (qmax q) \<and> int prio < prio_modified then (False, q, None)
            else if 0 \<le> prio_modified then
              (if prio_modified = int prio then (False, q, None)
               else
                 (let (p1, q1) = aicwf_skb_dequeue_tail q (nat prio_modified);
                      (p2, q2) = aicwf_frame_queue_penq q1 (nat prio_modified) pkt
                  in (p2 \<noteq> None, q2, p1)))
            else (p \<noteq> None, q, None)))"

definition aicwf_rxframe_enqueue :: "frame_queue \<Rightarrow> nat \<Rightarrow> bool \<times> frame_queue \<times> nat option" where
  "aicwf_rxframe_enqueue q pkt = aicwf_frame_enq q pkt 0"

subsection \<open>Invariant\<close>

text \<open>
  \<open>qcnt\<close> counts the frames of all classes, stays within \<open>qmax\<close>, and no class above
  \<open>hi_prio\<close> holds a frame.
\<close>

definition frames :: "frame_queue \<Rightarrow> nat list" where
  "frames q = concat (queuelist q)"

definition fq_wf :: "frame_queue \<Rightarrow> bool" where
  "fq_wf q \<longleftrightarrow>
     length (queuelist q) = 8 \<and> unat (qcnt q) = length (frames q) \<and> qcnt q \<le> qmax q \<and>
     unat (hi_prio q) < 8 \<and> (\<forall>i<8. unat (hi_prio q) < i \<longrightarrow> prioq q i = [])"

lemma prioq_simps [simp]:
  "prioq (q\<lparr>qcnt := c\<rparr>) i = prioq q i"
  "prioq (q\<lparr>hi_prio := h\<rparr>) i = prioq q i"
  by (simp_all add: prioq_def)

lemma set_prioq_simps [simp]:
  "qcnt (set_prioq i xs q) = qcnt q" "qmax (set_prioq i xs q) = qmax q"
  "hi_prio (set_prioq i xs q) = hi_prio q" "num_prio (set_prioq i xs q) = num_prio q"
  "length (queuelist (set_prioq i xs q)) = length (queuelist q)"
  by (simp_all add: set_prioq_def)

lemma prioq_set_prioq:
  "j < length (queuelist q) \<Longrightarrow> prioq (set_prioq i xs q) j = (if j = i then xs else prioq q j)"
  by (simp add: prioq_def set_prioq_def)

lemma frames_simps [simp]:
  "frames (q\<lparr>qcnt := c\<rparr>) = frames q"
  "frames (q\<lparr>hi_prio := h\<rparr>) = frames q"
  by (simp_all add: frames_def)

lemma frames_set_prioq:
  assumes "i < length (queuelist q)"
  shows "length (frames (set_prioq i xs q)) + length (prioq q i) = length (frames q) + length xs"
    and "mset (frames (set_prioq i xs q)) + mset (prioq q i) = mset (frames q) + mset xs"
  using assms by (simp_all add: frames_def set_prioq_def prioq_def length_concat_update mset_concat_update)

lemma fq_wfD:
  assumes "fq_wf q"
  shows "length (queuelist q) = 8" "unat (qcnt q) = length (frames q)" "qcnt q \<le> qmax q"
    "unat (hi_prio q) < 8" "i < 8 \<Longrightarrow> unat (hi_prio q) < i \<Longrightarrow> prioq q i = []"
  using assms by (simp_all add: fq_wf_def)

lemma fq_wf_empty_iff: "fq_wf q \<Longrightarrow> qcnt q = 0 \<longleftrightarrow> (\<forall>i<8. prioq q i = [])"
  using fq_wfD(1,2) [of q]
  by (simp add: frames_def prioq_def all_set_conv_all_nth flip: unat_eq_0)

lemma aicwf_frame_queue_init_wf: "fq_wf (aicwf_frame_queue_init np max_len)"
  by (simp add: fq_wf_def aicwf_frame_queue_init_def frames_def prioq_def)

lemma prioq_le_frames: "fq_wf q \<Longrightarrow> i < 8 \<Longrightarrow> length (prioq q i) \<le> length (frames q)"
  by (simp add: fq_wf_def frames_def prioq_def length_nth_concat)

text \<open>Appending a frame to a class, and taking one from it.\<close>

lemma penq_room:
  assumes "fq_wf q" and "prio < 8" and "qcnt q < qmax q" and "aicwf_frame_queue_penq q prio p = (r, q')"
  shows "r = Some p \<and> fq_wf q' \<and> qmax q' = qmax q \<and> mset (frames q') = mset (frames q) + {#p#} \<and>
    (\<forall>i<8. prioq q' i = (if i = prio then prioq q prio @ [p] else prioq q i))"
proof -
  note wf = fq_wfD [OF assms(1)]
  let ?q1 = "set_prioq prio (prioq q prio @ [p]) q"
  let ?h = "if unat (hi_prio q) < prio then of_nat prio else hi_prio q"
  have "length (prioq q prio) < unat (qmax q)"
    using prioq_le_frames [OF assms(1,2)] wf(2) assms(3) by (simp add: word_less_nat_alt)
  then have q': "q' = ?q1\<lparr>qcnt := qcnt q + 1, hi_prio := ?h\<rparr>" and r: "r = Some p"
    using assms(4) by (auto simp: aicwf_frame_queue_penq_def Let_def)
  have idx: "prio < length (queuelist q)"
    using wf(1) assms(2) by simp
  have h: "unat ?h = max (unat (hi_prio q)) prio"
    using assms(2) by (simp add: unat_of_nat)
  have len: "length (frames q') = Suc (length (frames q))"
    using frames_set_prioq(1) [OF idx, of "prioq q prio @ [p]"] unfolding q' by simp
  have fs: "mset (frames q') = mset (frames q) + {#p#}"
    using frames_set_prioq(2) [OF idx, of "prioq q prio @ [p]"] unfolding q' by simp
  have pq: "\<forall>i<8. prioq q' i = (if i = prio then prioq q prio @ [p] else prioq q i)"
    using wf(1) unfolding q' by (simp add: prioq_set_prioq)
  have "unat (qcnt q') = length (frames q')"
    using unat_inc [OF assms(3)] wf(2) len unfolding q' by simp
  moreover have "qcnt q' \<le> qmax q'"
    using assms(3) unfolding q' by (simp add: inc_le)
  moreover have "unat (hi_prio q') < 8 \<and> (\<forall>i<8. unat (hi_prio q') < i \<longrightarrow> prioq q' i = [])"
  proof -
    have "hi_prio q' = ?h" unfolding q' by simp
    then have "unat (hi_prio q') = max (unat (hi_prio q)) prio" using h by simp
    then show ?thesis using pq wf(4,5) assms(2) by auto
  qed
  ultimately have "fq_wf q'"
    using wf(1) unfolding fq_wf_def q' by simp
  then show ?thesis
    using r fs pq unfolding q' by simp
qed

lemma take_frame_wf:
  assumes "fq_wf q" and "prio < 8" and "mset (prioq q prio) = add_mset p (mset xs)"
    and "unat h < 8" and "\<forall>i<8. unat h < i \<longrightarrow> prioq q i = []"
    and "q' = (set_prioq prio xs q)\<lparr>qcnt := qcnt q - 1, hi_prio := h\<rparr>"
  shows "fq_wf q' \<and> qcnt q' < qmax q' \<and> qmax q' = qmax q \<and>
    mset (frames q) = add_mset p (mset (frames q')) \<and>
    (\<forall>i<8. prioq q' i = (if i = prio then xs else prioq q i))"
proof -
  note wf = fq_wfD [OF assms(1)]
  have idx: "prio < length (queuelist q)"
    using wf(1) assms(2) by simp
  have fs: "mset (frames q) = add_mset p (mset (frames q'))"
    using frames_set_prioq(2) [OF idx, of xs] assms(3) unfolding assms(6) by simp
  then have len: "length (frames q) = Suc (length (frames q'))"
    by (metis size_add_mset size_mset)
  then have nz: "qcnt q \<noteq> 0"
    using wf(2) by auto
  then have dec: "unat (qcnt q - 1) = unat (qcnt q) - 1"
    by (rule unat_dec)
  have ne: "prioq q prio \<noteq> []"
    using assms(3) by auto
  have pq: "\<forall>i<8. prioq q' i = (if i = prio then xs else prioq q i)"
    using wf(1) unfolding assms(6) by (simp add: prioq_set_prioq)
  have less: "qcnt q' < qmax q'"
    using dec unat_gt_0 [THEN iffD2, OF nz] wf(3) unfolding assms(6)
    by (simp add: word_less_nat_alt word_le_nat_alt)
  have "prio \<le> unat h"
    using assms(2,5) ne by (meson not_le)
  then have "\<forall>i<8. unat h < i \<longrightarrow> prioq q' i = []"
    using pq assms(5) by auto
  then have "fq_wf q'"
    using wf(1) dec wf(2) len assms(4) less unfolding fq_wf_def assms(6) by simp
  then show ?thesis
    using fs less pq unfolding assms(6) by simp
qed

subsection \<open>The two searches\<close>

lemma lowest_prio_found:
  "lowest_prio p n q \<le> p + n \<and> (\<forall>i. p \<le> i \<and> i < lowest_prio p n q \<longrightarrow> prioq q i = []) \<and>
   p \<le> lowest_prio p n q \<and> (lowest_prio p n q < p + n \<longrightarrow> prioq q (lowest_prio p n q) \<noteq> [])"
proof (induction n arbitrary: p)
  case 0
  show ?case by auto
next
  case (Suc n)
  show ?case
  proof (cases "prioq q p = []")
    case True
    then have eq: "lowest_prio p (Suc n) q = lowest_prio (Suc p) n q" by simp
    have "prioq q i = []" if "p \<le> i" "i < lowest_prio (Suc p) n q" for i
      using that Suc.IH [of "Suc p"] True by (cases "i = p") auto
    then show ?thesis
      using Suc.IH [of "Suc p"] unfolding eq by auto
  qed auto
qed

lemma lower_hi_prio_found:
  "lower_hi_prio h q \<le> h \<and> (\<forall>i. lower_hi_prio h q < i \<and> i \<le> h \<longrightarrow> prioq q i = []) \<and>
   (lower_hi_prio h q = 0 \<or> prioq q (lower_hi_prio h q) \<noteq> [])"
proof (induction h)
  case 0
  then show ?case by simp
next
  case (Suc h)
  show ?case
  proof (cases "prioq q (Suc h) = []")
    case True
    have "prioq q i = []" if "lower_hi_prio h q < i" "i \<le> Suc h" for i
      using that Suc.IH True by (cases "i = Suc h") auto
    then show ?thesis
      using Suc.IH True by auto
  qed auto
qed

text \<open>A class is the lowest, or the highest, one that holds a frame.\<close>

definition lowest_class :: "frame_queue \<Rightarrow> nat \<Rightarrow> bool" where
  "lowest_class q p \<longleftrightarrow> p < 8 \<and> prioq q p \<noteq> [] \<and> (\<forall>i<p. prioq q i = [])"

definition highest_class :: "frame_queue \<Rightarrow> nat \<Rightarrow> bool" where
  "highest_class q p \<longleftrightarrow> p < 8 \<and> prioq q p \<noteq> [] \<and> (\<forall>i<8. p < i \<longrightarrow> prioq q i = [])"

lemma lowest_prio_class:
  assumes "fq_wf q" and "qcnt q \<noteq> 0"
  shows "lowest_class q (lowest_prio 0 (unat (hi_prio q)) q)"
proof -
  let ?p = "lowest_prio 0 (unat (hi_prio q)) q"
  note wf = fq_wfD [OF assms(1)]
  note f = lowest_prio_found [of 0 "unat (hi_prio q)" q]
  have low: "\<forall>i<?p. prioq q i = []" using f by simp
  have p8: "?p < 8" using f wf(4) by linarith
  obtain i where i: "i < 8" "prioq q i \<noteq> []"
    using assms fq_wf_empty_iff by blast
  have "i \<le> unat (hi_prio q)"
    using i wf(5) by (meson not_le)
  moreover have "?p \<le> i"
    using i low by (meson not_le)
  ultimately have "prioq q ?p \<noteq> []"
    using f i by (cases "?p < unat (hi_prio q)") (auto dest: le_antisym)
  then show ?thesis
    using low p8 by (simp add: lowest_class_def)
qed

lemma lower_hi_prio_class:
  assumes "fq_wf q" and "qcnt q \<noteq> 0"
  shows "highest_class q (lower_hi_prio (unat (hi_prio q)) q)"
proof -
  let ?p = "lower_hi_prio (unat (hi_prio q)) q"
  note wf = fq_wfD [OF assms(1)]
  note f = lower_hi_prio_found [of "unat (hi_prio q)" q]
  have p8: "?p < 8" using f wf(4) by linarith
  have high: "\<forall>i<8. ?p < i \<longrightarrow> prioq q i = []"
    using f wf(5) by (metis not_le)
  obtain i where i: "i < 8" "prioq q i \<noteq> []"
    using assms fq_wf_empty_iff by blast
  then have "i \<le> ?p"
    using high by (meson not_le)
  then have "prioq q ?p \<noteq> []"
    using f i by (cases "?p = 0") auto
  then show ?thesis
    using high p8 by (simp add: highest_class_def)
qed

lemma lowest_class_unique: "lowest_class q p \<Longrightarrow> lowest_class q p' \<Longrightarrow> p = p'"
  unfolding lowest_class_def by (metis nat_neq_iff)

lemma aicwf_frame_queue_peek_tail_eq:
  assumes "fq_wf q" and "lowest_class q low"
  shows "aicwf_frame_queue_peek_tail q po = (Some (last (prioq q low)), int low)"
proof -
  have "qcnt q \<noteq> 0"
    using assms fq_wf_empty_iff by (auto simp: lowest_class_def)
  then show ?thesis
    using lowest_class_unique [OF assms(2) lowest_prio_class [OF assms(1)]] assms(2)
    by (simp add: aicwf_frame_queue_peek_tail_def Let_def lowest_class_def)
qed

lemma dequeue_outcome:
  assumes "fq_wf q" and "highest_class q hi" and "aicwf_frame_dequeue q = (r, q')"
  shows "r = Some (hd (prioq q hi)) \<and> fq_wf q' \<and> qmax q' = qmax q \<and>
    mset (frames q) = add_mset (hd (prioq q hi)) (mset (frames q')) \<and>
    (\<forall>i<8. prioq q' i = (if i = hi then tl (prioq q hi) else prioq q i))"
proof -
  have nz: "qcnt q \<noteq> 0"
    using assms fq_wf_empty_iff by (auto simp: highest_class_def)
  have hi: "lower_hi_prio (unat (hi_prio q)) q = hi"
    using lower_hi_prio_class [OF assms(1) nz] assms(2) unfolding highest_class_def
    by (metis nat_neq_iff)
  obtain p ps where pq: "prioq q hi = p # ps"
    using assms(2) by (auto simp: highest_class_def neq_Nil_conv)
  have res: "r = Some p" "q' = (set_prioq hi ps q)\<lparr>qcnt := qcnt q - 1, hi_prio := of_nat hi\<rparr>"
    using assms(3) nz pq by (auto simp: aicwf_frame_dequeue_def hi Let_def set_prioq_def)
  have "unat (of_nat hi :: u16) = hi"
    using assms(2) by (simp add: highest_class_def unat_of_nat)
  then have "fq_wf q' \<and> qcnt q' < qmax q' \<and> qmax q' = qmax q \<and>
    mset (frames q) = add_mset p (mset (frames q')) \<and>
    (\<forall>i<8. prioq q' i = (if i = hi then ps else prioq q i))"
    using assms(2) pq by (intro take_frame_wf [OF assms(1) _ _ _ _ res(2)]) (auto simp: highest_class_def)
  then show ?thesis
    using res(1) pq by simp
qed

lemma dequeue_tail_outcome:
  assumes "fq_wf q" and "prio < 8" and "prioq q prio \<noteq> []" and "aicwf_skb_dequeue_tail q prio = (r, q')"
  shows "r = Some (last (prioq q prio)) \<and> fq_wf q' \<and> qcnt q' < qmax q' \<and> qmax q' = qmax q \<and>
    mset (frames q) = add_mset (last (prioq q prio)) (mset (frames q')) \<and>
    (\<forall>i<8. prioq q' i = (if i = prio then butlast (prioq q prio) else prioq q i))"
proof -
  have res: "r = Some (last (prioq q prio))"
    "q' = (set_prioq prio (butlast (prioq q prio)) q)\<lparr>qcnt := qcnt q - 1, hi_prio := hi_prio q\<rparr>"
    using assms(3,4) by (auto simp: aicwf_skb_dequeue_tail_def Let_def)
  have "fq_wf q' \<and> qcnt q' < qmax q' \<and> qmax q' = qmax q \<and>
    mset (frames q) = add_mset (last (prioq q prio)) (mset (frames q')) \<and>
    (\<forall>i<8. prioq q' i = (if i = prio then butlast (prioq q prio) else prioq q i))"
    using assms fq_wfD [OF assms(1)] mset_last_butlast [OF assms(3)]
    by (intro take_frame_wf [OF assms(1,2) _ _ _ res(2)]) auto
  then show ?thesis
    using res(1) by blast
qed

text \<open>The three outcomes of an enqueue.\<close>

lemma enq_room:
  assumes "fq_wf q" and "prio < 8" and "qcnt q < qmax q"
  shows "aicwf_frame_enq q pkt prio = (True, snd (aicwf_frame_queue_penq q prio pkt), None)"
proof -
  have "length (prioq q prio) < unat (qmax q)"
    using prioq_le_frames [OF assms(1,2)] fq_wfD(2) [OF assms(1)] assms(3)
    by (simp add: word_less_nat_alt)
  then show ?thesis
    using assms(3) by (simp add: aicwf_frame_enq_def)
qed

lemma enq_rejected:
  assumes "fq_wf q" and "prio < 8" and "\<not> qcnt q < qmax q" and "\<forall>i<prio. prioq q i = []"
  shows "aicwf_frame_enq q pkt prio = (False, q, None)"
proof (cases "unat (qmax q) \<le> length (prioq q prio)")
  case True
  then show ?thesis
    by (simp add: aicwf_frame_enq_def)
next
  case False
  have "qcnt q \<noteq> 0"
    using assms(3) False by (metis not_le unat_0 word_le_nat_alt zero_le le_0_eq word_le_0_iff)
  then obtain low where low: "lowest_class q low"
    using lowest_prio_class [OF assms(1)] by blast
  then have "prio \<le> low"
    using assms(4) by (meson lowest_class_def not_le)
  then show ?thesis
    using aicwf_frame_queue_peek_tail_eq [OF assms(1) low] False assms(3)
    by (auto simp: aicwf_frame_enq_def not_less Let_def)
qed

lemma enq_evicts:
  assumes "fq_wf q" and "prio < 8" and "\<not> qcnt q < qmax q" and "lowest_class q low" and "low < prio"
  shows "aicwf_frame_enq q pkt prio =
     (case aicwf_skb_dequeue_tail q low of (p1, q1) \<Rightarrow>
      case aicwf_frame_queue_penq q1 low pkt of (p2, q2) \<Rightarrow> (p2 \<noteq> None, q2, p1))"
proof -
  have low: "low < 8" "prioq q low \<noteq> []"
    using assms(4) by (simp_all add: lowest_class_def)
  have "length (prioq q prio) < length (frames q)"
  proof -
    let ?xss = "(queuelist q)[low := []]"
    note wf = fq_wfD [OF assms(1)]
    have "length (concat ?xss) + length (prioq q low) = length (frames q)"
      using length_concat_update [of low "queuelist q" "[]"] low(1) wf(1)
      by (simp add: frames_def prioq_def)
    moreover have "length (prioq q prio) \<le> length (concat ?xss)"
      using length_nth_concat [of prio ?xss] assms(2,5) wf(1) by (simp add: prioq_def)
    ultimately show ?thesis
      using low(2) by (metis add_less_cancel_left le_neq_implies_less length_greater_0_conv less_add_same_cancel1 order_le_less_trans)
  qed
  then have "\<not> unat (qmax q) \<le> length (prioq q prio)"
    using fq_wfD(2,3) [OF assms(1)] by (simp add: word_le_nat_alt)
  then show ?thesis
    using aicwf_frame_queue_peek_tail_eq [OF assms(1,4)] assms(3,5)
    by (auto simp: aicwf_frame_enq_def not_less Let_def split: prod.split)
qed

lemma lowest_class_ex: "prio < 8 \<Longrightarrow> \<exists>i<prio. prioq q i \<noteq> [] \<Longrightarrow> \<exists>low<prio. lowest_class q low"
  using exists_least_iff [of "\<lambda>i. prioq q i \<noteq> []"] unfolding lowest_class_def
  by (metis (no_types, lifting) less_trans nat_neq_iff)

lemma enq_evicts_outcome:
  assumes "fq_wf q" and "prio < 8" and "\<not> qcnt q < qmax q" and "lowest_class q low" and "low < prio"
    and "aicwf_frame_enq q pkt prio = (ok, q', freed)"
  shows "ok \<and> freed = Some (last (prioq q low)) \<and> fq_wf q' \<and> qmax q' = qmax q \<and>
    add_mset (last (prioq q low)) (mset (frames q')) = add_mset pkt (mset (frames q)) \<and>
    (\<forall>i<8. prioq q' i = (if i = low then butlast (prioq q low) @ [pkt] else prioq q i))"
proof -
  have low: "low < 8" "prioq q low \<noteq> []"
    using assms(4) by (simp_all add: lowest_class_def)
  obtain p1 q1 where d: "aicwf_skb_dequeue_tail q low = (p1, q1)" by fastforce
  obtain p2 q2 where e: "aicwf_frame_queue_penq q1 low pkt = (p2, q2)" by fastforce
  note t = dequeue_tail_outcome [OF assms(1) low d]
  then have "fq_wf q1" "qcnt q1 < qmax q1" by blast+
  note r = penq_room [OF this(1) low(1) this(2) e]
  have "ok = (p2 \<noteq> None)" "q' = q2" "freed = p1"
    using assms(6) enq_evicts [OF assms(1-5)] d e by auto
  then show ?thesis
    using t r low(1) by auto
qed

lemma enq_room_outcome:
  assumes "fq_wf q" and "prio < 8" and "qcnt q < qmax q" and "aicwf_frame_enq q pkt prio = (ok, q', freed)"
  shows "ok \<and> freed = None \<and> fq_wf q' \<and> qmax q' = qmax q \<and>
    mset (frames q') = mset (frames q) + {#pkt#} \<and>
    (\<forall>i<8. prioq q' i = (if i = prio then prioq q prio @ [pkt] else prioq q i))"
proof -
  obtain r q1 where e: "aicwf_frame_queue_penq q prio pkt = (r, q1)" by fastforce
  have "ok" "freed = None" "q' = q1"
    using enq_room [OF assms(1-3), of pkt] e assms(4) by simp_all
  then show ?thesis
    using penq_room [OF assms(1-3) e] by blast
qed

lemma enq_wf:
  assumes "fq_wf q" and "prio < 8" and "aicwf_frame_enq q pkt prio = (ok, q', freed)"
  shows "fq_wf q' \<and> qmax q' = qmax q \<and>
    mset (frames q') + opt_mset freed = mset (frames q) + (if ok then {#pkt#} else {#})"
proof (cases "qcnt q < qmax q")
  case True
  then show ?thesis
    using enq_room_outcome [OF assms(1,2) True assms(3)] by simp
next
  case False
  show ?thesis
  proof (cases "\<forall>i<prio. prioq q i = []")
    case True
    then show ?thesis
      using enq_rejected [OF assms(1,2) False] assms by simp
  next
    case no: False
    then obtain low where "lowest_class q low" "low < prio"
      using lowest_class_ex [OF assms(2)] by blast
    then show ?thesis
      using enq_evicts_outcome [OF assms(1,2) False _ _ assms(3)] by auto
  qed
qed

lemma highest_class_ex: "fq_wf q \<Longrightarrow> qcnt q \<noteq> 0 \<Longrightarrow> \<exists>hi. highest_class q hi"
  using lower_hi_prio_class by blast

lemma dequeue_empty: "qcnt q = 0 \<Longrightarrow> aicwf_frame_dequeue q = (None, q)"
  by (simp add: aicwf_frame_dequeue_def)

lemma dequeue_wf:
  assumes "fq_wf q" and "aicwf_frame_dequeue q = (r, q')"
  shows "fq_wf q' \<and> qmax q' = qmax q \<and> mset (frames q) = opt_mset r + mset (frames q')"
proof (cases "qcnt q = 0")
  case True
  then show ?thesis using dequeue_empty assms by simp
next
  case False
  then obtain hi where "highest_class q hi"
    using highest_class_ex assms(1) by blast
  then show ?thesis
    using dequeue_outcome [OF assms(1) _ assms(2)] by auto
qed

subsection \<open>Runs of the priority queue\<close>

datatype fq_op = FEnq nat nat | FDeq

text \<open>Result: the accepted, the delivered and the evicted frames, and the final queue.\<close>

fun fq_run :: "fq_op list \<Rightarrow> frame_queue \<Rightarrow> nat multiset \<times> nat multiset \<times> nat multiset \<times> frame_queue" where
  "fq_run [] q = ({#}, {#}, {#}, q)"
| "fq_run (FEnq pkt prio # ops) q =
     (case aicwf_frame_enq q pkt prio of (ok, q1, freed) \<Rightarrow>
      case fq_run ops q1 of (acc, del, ev, q2) \<Rightarrow>
        (if ok then add_mset pkt acc else acc, del, opt_mset freed + ev, q2))"
| "fq_run (FDeq # ops) q =
     (case aicwf_frame_dequeue q of (r, q1) \<Rightarrow>
      case fq_run ops q1 of (acc, del, ev, q2) \<Rightarrow> (acc, opt_mset r + del, ev, q2))"

definition op_prio_ok :: "fq_op \<Rightarrow> bool" where
  "op_prio_ok op = (case op of FEnq _ prio \<Rightarrow> prio < 8 | FDeq \<Rightarrow> True)"

lemma fq_run_inv:
  assumes "fq_wf q" and "\<forall>op\<in>set ops. op_prio_ok op" and "fq_run ops q = (acc, del, ev, q')"
  shows "fq_wf q' \<and> qmax q' = qmax q \<and> mset (frames q) + acc = del + ev + mset (frames q')"
  using assms
proof (induction ops arbitrary: q acc del ev)
  case Nil
  then show ?case by simp
next
  case (Cons op ops)
  show ?case
  proof (cases op)
    case (FEnq pkt prio)
    obtain ok q1 freed where e: "aicwf_frame_enq q pkt prio = (ok, q1, freed)" by (rule prod_cases3)
    obtain acc1 del1 ev1 q2 where r: "fq_run ops q1 = (acc1, del1, ev1, q2)" by (rule prod_cases4)
    have w: "fq_wf q1" "qmax q1 = qmax q"
      "mset (frames q1) + opt_mset freed = mset (frames q) + (if ok then {#pkt#} else {#})"
      using enq_wf [OF Cons.prems(1) _ e] Cons.prems(2) FEnq by (simp_all add: op_prio_ok_def)
    have res: "acc = (if ok then add_mset pkt acc1 else acc1)" "del = del1" "ev = opt_mset freed + ev1" "q' = q2"
      using Cons.prems(3) FEnq e r by simp_all
    have IH: "fq_wf q'" "qmax q' = qmax q1" "mset (frames q1) + acc1 = del1 + ev1 + mset (frames q')"
      using Cons.IH [OF w(1)] r res Cons.prems(2) by simp_all
    have "mset (frames q) + acc = mset (frames q1) + opt_mset freed + acc1"
      using w(3) res(1) by (auto simp: ac_simps)
    also have "\<dots> = del + ev + mset (frames q')"
      using IH(3) res by (simp add: ac_simps)
    finally show ?thesis using IH w by simp
  next
    case FDeq
    obtain x q1 where d: "aicwf_frame_dequeue q = (x, q1)" by fastforce
    obtain acc1 del1 ev1 q2 where r: "fq_run ops q1 = (acc1, del1, ev1, q2)" by (rule prod_cases4)
    have w: "fq_wf q1" "qmax q1 = qmax q" "mset (frames q) = opt_mset x + mset (frames q1)"
      using dequeue_wf [OF Cons.prems(1) d] by simp_all
    have res: "acc = acc1" "del = opt_mset x + del1" "ev = ev1" "q' = q2"
      using Cons.prems(3) FDeq d r by simp_all
    have IH: "fq_wf q'" "qmax q' = qmax q1" "mset (frames q1) + acc1 = del1 + ev1 + mset (frames q')"
      using Cons.IH [OF w(1)] r res Cons.prems(2) by simp_all
    then show ?thesis using w res by (simp add: ac_simps)
  qed
qed

subsection \<open>Receive frames: a single class\<close>

definition single_class :: "frame_queue \<Rightarrow> bool" where
  "single_class q \<longleftrightarrow> fq_wf q \<and> (\<forall>i<8. 0 < i \<longrightarrow> prioq q i = [])"

definition rxframe_put :: "nat \<Rightarrow> frame_queue \<Rightarrow> bool \<times> frame_queue" where
  "rxframe_put p q = (case aicwf_rxframe_enqueue q p of (ok, q', _) \<Rightarrow> (ok, q'))"

lemma single_class_frames:
  assumes "single_class q"
  shows "length (frames q) = length (prioq q 0)"
proof -
  note wf = fq_wfD [of q]
  have "length (queuelist q) = 8" using assms wf by (simp add: single_class_def)
  then obtain a b c d e f g h where l: "queuelist q = [a, b, c, d, e, f, g, h]"
    by (auto simp: numeral_eq_Suc length_Suc_conv)
  have "prioq q i = []" if "i \<in> {1, 2, 3, 4, 5, 6, 7}" for i
    using that assms by (auto simp: single_class_def)
  from this [of 1] this [of 2] this [of 3] this [of 4] this [of 5] this [of 6] this [of 7]
  show ?thesis by (simp add: frames_def prioq_def l)
qed

interpretation rxframe: bounded_queue single_class "\<lambda>q. prioq q 0" "\<lambda>q. unat (qmax q)"
  rxframe_put aicwf_frame_dequeue
proof unfold_locales
  fix q :: frame_queue and x :: nat
  assume s: "single_class q"
  then have wf: "fq_wf q" by (simp add: single_class_def)
  have cnt: "unat (qcnt q) = length (prioq q 0)"
    using single_class_frames [OF s] fq_wfD(2) [OF wf] by simp
  have room: "qcnt q < qmax q \<longleftrightarrow> length (prioq q 0) < unat (qmax q)"
    using cnt by (simp add: word_less_nat_alt)
  obtain ok q' freed where e: "aicwf_frame_enq q x 0 = (ok, q', freed)" by (rule prod_cases3)
  have main: "single_class q' \<and> qmax q' = qmax q \<and> (ok \<longleftrightarrow> qcnt q < qmax q) \<and>
      prioq q' 0 = (if ok then prioq q 0 @ [x] else prioq q 0)"
  proof (cases "qcnt q < qmax q")
    case True
    then show ?thesis
      using enq_room_outcome [OF wf _ True e] s by (simp add: single_class_def)
  next
    case False
    then show ?thesis
      using enq_rejected [OF wf _ False, of 0 x] e s by simp
  qed
  show "single_class (snd (rxframe_put x q))"
    "unat (qmax (snd (rxframe_put x q))) = unat (qmax q)"
    "fst (rxframe_put x q) \<longleftrightarrow> length (prioq q 0) < unat (qmax q)"
    "prioq (snd (rxframe_put x q)) 0 = (if fst (rxframe_put x q) then prioq q 0 @ [x] else prioq q 0)"
    using main room e by (simp_all add: rxframe_put_def aicwf_rxframe_enqueue_def)
next
  fix q :: frame_queue
  assume s: "single_class q"
  then have wf: "fq_wf q" by (simp add: single_class_def)
  obtain r q' where d: "aicwf_frame_dequeue q = (r, q')" by fastforce
  have hi: "hi = 0" if "highest_class q hi" for hi
    using that s by (auto simp: highest_class_def single_class_def)
  have main: "single_class q' \<and> qmax q' = qmax q \<and> prioq q' 0 = tl (prioq q 0) \<and>
      r = (case prioq q 0 of [] \<Rightarrow> None | x # _ \<Rightarrow> Some x)"
  proof (cases "qcnt q = 0")
    case True
    then show ?thesis
      using dequeue_empty [OF True] d s fq_wf_empty_iff [OF wf] by simp
  next
    case False
    then obtain hi where h: "highest_class q hi"
      using highest_class_ex [OF wf] by blast
    with hi [OF h] have "highest_class q 0" by simp
    note o = dequeue_outcome [OF wf this d]
    have "prioq q 0 \<noteq> []"
      using \<open>highest_class q 0\<close> by (simp add: highest_class_def)
    then show ?thesis
      using o s by (auto simp: single_class_def neq_Nil_conv)
  qed
  show "single_class (snd (aicwf_frame_dequeue q))"
    "unat (qmax (snd (aicwf_frame_dequeue q))) = unat (qmax q)"
    "fst (aicwf_frame_dequeue q) = (case prioq q 0 of [] \<Rightarrow> None | x # _ \<Rightarrow> Some x)"
    "prioq (snd (aicwf_frame_dequeue q)) 0 = tl (prioq q 0)"
    using main d by simp_all
qed

subsection \<open>Flushing\<close>

lemma flush_prios_frees:
  assumes "p + n \<le> length (queuelist q)"
  shows "fst (flush_prios p n q) = concat (map (prioq q) [p..<p + n]) \<and>
    queuelist (snd (flush_prios p n q)) =
      map (\<lambda>i. if p \<le> i \<and> i < p + n then [] else prioq q i) [0..<length (queuelist q)] \<and>
    qcnt (snd (flush_prios p n q)) = qcnt q - of_nat (length (fst (flush_prios p n q)))"
  using assms
proof (induction n arbitrary: p q)
  case 0
  show ?case
    by (auto simp: prioq_def map_nth intro!: nth_equalityI)
next
  case (Suc n)
  define q1 where "q1 = (set_prioq p [] q)\<lparr>qcnt := qcnt q - of_nat (length (prioq q p))\<rparr>"
  have len: "length (queuelist q1) = length (queuelist q)"
    by (simp add: q1_def)
  have pq1: "prioq q1 j = (if j = p then [] else prioq q j)" if "j < length (queuelist q)" for j
    using that by (simp add: q1_def prioq_set_prioq)
  have IH: "fst (flush_prios (Suc p) n q1) = concat (map (prioq q1) [Suc p..<Suc p + n])"
    "queuelist (snd (flush_prios (Suc p) n q1)) =
      map (\<lambda>i. if Suc p \<le> i \<and> i < Suc p + n then [] else prioq q1 i) [0..<length (queuelist q)]"
    "qcnt (snd (flush_prios (Suc p) n q1)) = qcnt q1 - of_nat (length (fst (flush_prios (Suc p) n q1)))"
    using Suc.IH [of "Suc p" q1] Suc.prems len by simp_all
  have rec: "flush_prios p (Suc n) q =
      (prioq q p @ fst (flush_prios (Suc p) n q1), snd (flush_prios (Suc p) n q1))"
    by (simp add: q1_def Let_def split: prod.split)
  have same: "map (prioq q1) [Suc p..<Suc p + n] = map (prioq q) [Suc p..<Suc p + n]"
    using Suc.prems pq1 by (intro map_cong) auto
  have upt: "[p..<p + Suc n] = p # [Suc p..<Suc p + n]"
    by (simp only: upt_conv_Cons add_Suc_right add_Suc less_Suc_eq_le le_add1)
  have "fst (flush_prios p (Suc n) q) = concat (map (prioq q) [p..<p + Suc n])"
    by (simp only: rec fst_conv IH(1) same upt list.map concat.simps)
  moreover have "queuelist (snd (flush_prios p (Suc n) q)) =
      map (\<lambda>i. if p \<le> i \<and> i < p + Suc n then [] else prioq q i) [0..<length (queuelist q)]"
    unfolding rec snd_conv IH(2) using pq1 by (intro map_cong) auto
  moreover have "qcnt (snd (flush_prios p (Suc n) q)) =
      qcnt q - of_nat (length (fst (flush_prios p (Suc n) q)))"
    unfolding rec by (simp add: IH(3)) (simp add: q1_def algebra_simps)
  ultimately show ?case by blast
qed

lemma flush_all:
  assumes "fq_wf q" and "num_prio q = 8"
  shows "fst (aicwf_frame_queue_flush q) = frames q \<and> frames (snd (aicwf_frame_queue_flush q)) = [] \<and>
    qcnt (snd (aicwf_frame_queue_flush q)) = 0"
proof -
  note wf = fq_wfD [OF assms(1)]
  have n: "unat (num_prio q) = 8" using assms(2) by simp
  have l: "length (queuelist q) = 8" by (rule wf(1))
  note f = flush_prios_frees [of 0 8 q, unfolded l, simplified]
  have "map (prioq q) [0..<8] = queuelist q"
    unfolding prioq_def using l by (metis map_nth)
  then have freed: "fst (flush_prios 0 8 q) = frames q"
    using f by (simp add: frames_def)
  have "queuelist (snd (flush_prios 0 8 q)) = map (\<lambda>i. []) [0..<8]"
    using f by (auto intro!: map_cong)
  then have "frames (snd (flush_prios 0 8 q)) = []"
    by (simp add: frames_def)
  moreover have "qcnt (snd (flush_prios 0 8 q)) = 0"
  proof -
    have "(of_nat (length (frames q)) :: u16) = of_nat (unat (qcnt q))"
      by (simp only: wf(2))
    also have "\<dots> = qcnt q" by simp
    finally show ?thesis using f freed by simp
  qed
  ultimately show ?thesis
    using freed unfolding aicwf_frame_queue_flush_def n by simp
qed

subsection \<open>Properties\<close>

text \<open>Enqueueing into a full queue of which some lower class holds a frame evicts the newest
  frame of the lowest such class and puts the new frame at the end of that class, not of its
  own; with room it goes to the end of its own class; otherwise it is refused and the
  queue is unchanged.\<close>

lemma frame_enq_outcome:
  assumes "fq_wf q" and "prio < 8" and "aicwf_frame_enq q pkt prio = (ok, q', freed)"
  shows "if length (frames q) < unat (qmax q) then
      ok \<and> freed = None \<and> (\<forall>i<8. prioq q' i = (if i = prio then prioq q prio @ [pkt] else prioq q i))
    else if \<exists>i<prio. prioq q i \<noteq> [] then
      ok \<and> (\<exists>low<prio. lowest_class q low \<and> freed = Some (last (prioq q low)) \<and>
        (\<forall>i<8. prioq q' i = (if i = low then butlast (prioq q low) @ [pkt] else prioq q i)))
    else \<not> ok \<and> freed = None \<and> q' = q"
proof -
  have room: "length (frames q) < unat (qmax q) \<longleftrightarrow> qcnt q < qmax q"
    using fq_wfD(2) [OF assms(1)] by (simp add: word_less_nat_alt)
  consider "qcnt q < qmax q" | "\<not> qcnt q < qmax q" "\<exists>i<prio. prioq q i \<noteq> []"
    | "\<not> qcnt q < qmax q" "\<forall>i<prio. prioq q i = []" by blast
  then show ?thesis
  proof cases
    case 1
    then show ?thesis
      using enq_room_outcome [OF assms(1,2) 1 assms(3)] room by simp
  next
    case 2
    then obtain low where low: "low < prio" "lowest_class q low"
      using lowest_class_ex [OF assms(2)] by blast
    have "ok \<and> (\<exists>low<prio. lowest_class q low \<and> freed = Some (last (prioq q low)) \<and>
        (\<forall>i<8. prioq q' i = (if i = low then butlast (prioq q low) @ [pkt] else prioq q i)))"
      using enq_evicts_outcome [OF assms(1,2) 2(1) low(2,1) assms(3)] low by blast
    then show ?thesis using 2 room by simp
  next
    case 3
    then show ?thesis
      using enq_rejected [OF assms(1,2) 3, of pkt] assms(3) room by auto
  qed
qed

lemma frame_enq_outcome_witness:
  "aicwf_frame_enq \<lparr>num_prio = 8, hi_prio = 0, qmax = 1, qcnt = 1, queuelist = [[5], [], [], [], [], [], [], []]\<rparr> 9 7 =
     (True, \<lparr>num_prio = 8, hi_prio = 0, qmax = 1, qcnt = 1, queuelist = [[9], [], [], [], [], [], [], []]\<rparr>, Some 5) \<and>
   lowest_class \<lparr>num_prio = 8, hi_prio = 0, qmax = 1, qcnt = 1, queuelist = [[5], [], [], [], [], [], [], []]\<rparr> 0"
  (is "?e = (True, ?q', Some 5) \<and> lowest_class ?q 0")
proof -
  have wf: "fq_wf ?q"
    by (auto simp: fq_wf_def frames_def prioq_def nth_Cons split: nat.splits)
  have e: "?e = (True, ?q', Some 5)"
    by (simp add: aicwf_frame_enq_def prioq_def set_prioq_def aicwf_frame_queue_peek_tail_def
        aicwf_skb_dequeue_tail_def aicwf_frame_queue_penq_def Let_def)
  have full: "\<not> length (frames ?q) < unat (qmax ?q)" and low: "\<exists>i<7. prioq ?q i \<noteq> []"
    by (auto simp: frames_def prioq_def intro: exI [of _ 0])
  have "\<exists>low<7. lowest_class ?q low"
    using frame_enq_outcome [OF wf _ e] unfolding if_not_P [OF full] if_P [OF low] by auto
  then show ?thesis
    using e by (auto simp: lowest_class_def prioq_def nth_Cons split: nat.splits)
qed

text \<open>C36: Dequeueing delivers the oldest frame of the highest class that holds one and removes
  only this frame; it delivers nothing only when the queue is empty.\<close>

theorem frame_dequeue_highest_first:
  assumes "fq_wf q" and "aicwf_frame_dequeue q = (r, q')"
  shows "case r of
      None \<Rightarrow> frames q = [] \<and> q' = q
    | Some p \<Rightarrow> \<exists>hi<8. prioq q hi \<noteq> [] \<and> (\<forall>i<8. hi < i \<longrightarrow> prioq q i = []) \<and> p = hd (prioq q hi) \<and>
        (\<forall>i<8. prioq q' i = (if i = hi then tl (prioq q hi) else prioq q i))"
proof (cases "qcnt q = 0")
  case True
  then show ?thesis
    using dequeue_empty [OF True] assms fq_wfD(2) [OF assms(1)] by auto
next
  case False
  then obtain hi where h: "highest_class q hi"
    using highest_class_ex [OF assms(1)] by blast
  then show ?thesis
    using dequeue_outcome [OF assms(1) h assms(2)] by (auto simp: highest_class_def)
qed

theorem frame_dequeue_highest_first_witness:
  "fst (aicwf_frame_dequeue \<lparr>num_prio = 8, hi_prio = 2, qmax = 9, qcnt = 3, queuelist = [[5], [6, 7], [], [], [], [], [], []]\<rparr>) = Some 6"
  (is "fst (aicwf_frame_dequeue ?q) = _")
proof -
  have wf: "fq_wf ?q"
    by (auto simp: fq_wf_def frames_def prioq_def nth_Cons split: nat.splits)
  obtain r q' where d: "aicwf_frame_dequeue ?q = (r, q')" by fastforce
  obtain hi where hi: "hi < 8" "prioq ?q hi \<noteq> []" "\<forall>i<8. hi < i \<longrightarrow> prioq ?q i = []"
      "r = Some (hd (prioq ?q hi))"
    using frame_dequeue_highest_first [OF wf d] by (cases r) (auto simp: frames_def)
  have "hi \<noteq> 0"
  proof
    assume "hi = 0"
    then have "prioq ?q 1 = []" using hi(3) by simp
    then show False by (simp add: prioq_def)
  qed
  moreover have "hi = 0 \<or> hi = 1 \<or> hi = 2 \<or> hi = 3 \<or> hi = 4 \<or> hi = 5 \<or> hi = 6 \<or> hi = 7"
    using hi(1) by arith
  ultimately have "hi = 1"
    using hi(2) by (elim disjE) (simp_all add: prioq_def)
  then show ?thesis using d hi(4) by (simp add: prioq_def)
qed

text \<open>C37: Over any sequence of enqueues and dequeues every accepted frame is delivered, evicted
  or still queued, exactly once, and the number of frames never exceeds \<open>qmax\<close>.\<close>

theorem frame_queue_conserves:
  assumes "fq_wf q" and "\<forall>op\<in>set ops. op_prio_ok op" and "fq_run ops q = (acc, del, ev, q')"
  shows "mset (frames q) + acc = del + ev + mset (frames q') \<and> length (frames q') \<le> unat (qmax q)"
  using fq_run_inv [OF assms] fq_wfD(2,3) [of q'] by (auto simp: word_le_nat_alt)

theorem frame_queue_conserves_witness:
  "(case fq_run [FEnq 4 0, FEnq 5 3, FEnq 6 7, FDeq] (aicwf_frame_queue_init 8 2) of
      (acc, del, ev, q') \<Rightarrow> acc = del + ev + mset (frames q') \<and> length (frames q') \<le> 2)"
  using frame_queue_conserves [OF aicwf_frame_queue_init_wf [of 8 2], of "[FEnq 4 0, FEnq 5 3, FEnq 6 7, FDeq]"]
  by (auto simp: op_prio_ok_def aicwf_frame_queue_init_def frames_def split: prod.splits)

text \<open>Both receive queues, the frame queue used with its one class and the buffer queue, are
  bounded first-in first-out queues: over any sequence of operations the delivered
  elements are the accepted ones in order.\<close>

lemma receive_queues_fifo:
  "(single_class q \<and> run_queue rxframe_put aicwf_frame_dequeue ops q = (acc, del, q') \<longrightarrow>
      prioq q 0 @ acc = del @ prioq q' 0) \<and>
   (rxq_wf b \<and> run_queue rxq_put rxbuff_dequeue ops b = (acc, del, b') \<longrightarrow>
      rxq_list b @ acc = del @ rxq_list b')"
  using rxframe.run_fifo rxq.run_fifo by blast

lemma receive_queues_fifo_witness:
  "rxq_list (snd (snd (run_queue rxq_put rxbuff_dequeue [Enq 1, Enq 2, Deq] (aicwf_rxframe_queue_init_2 5)))) = [2]"
proof -
  let ?r = "run_queue rxq_put rxbuff_dequeue [Enq 1, Enq 2, Deq] (aicwf_rxframe_queue_init_2 5)"
  obtain acc del b' where r: "?r = (acc, del, b')" by (rule prod_cases3)
  have "acc = [1, 2]" "del = [1]"
    using r by (simp_all add: rxq_put_eq rxbuff_dequeue_def aicwf_rxframe_queue_init_2_def)
  moreover have "rxq_list (aicwf_rxframe_queue_init_2 5) @ acc = del @ rxq_list b'"
    using receive_queues_fifo rxq_init_wf [of 5] r by blast
  ultimately show ?thesis
    using r by (simp add: aicwf_rxframe_queue_init_2_def)
qed

end
