(* ===== verification/Serial.thy ===== *)
theory Serial
  imports Prelude
begin

unbundle bit_operations_syntax

section \<open>Serial-number arithmetic\<close>

text \<open>
  The driver compares counters that wrap: 12-bit MAC sequence numbers (\<open>SN_LESS\<close>), 32-bit
  TCP sequence numbers (\<open>U32_BEFORE\<close>) and jiffies (\<open>time_after\<close>).  All three comparisons say that
  the difference, read modulo \<open>2 * H\<close>, lies in the upper half.  On a window of less than
  \<open>H\<close> numbers after some base the comparison is the order of the offsets from the base.
\<close>

locale serial_order =
  fixes num :: "'a \<Rightarrow> int" and half :: int and lt :: "'a \<Rightarrow> 'a \<Rightarrow> bool"
  assumes half_pos: "0 < half"
    and lt_iff: "lt a b \<longleftrightarrow> half \<le> (num a - num b) mod (2 * half)"
begin

definition offset :: "'a \<Rightarrow> 'a \<Rightarrow> int" where
  "offset base x = (num x - num base) mod (2 * half)"

lemma offset_range: "0 \<le> offset base x \<and> offset base x < 2 * half"
  using half_pos by (simp add: offset_def)

lemma offset_self [simp]: "offset base base = 0"
  by (simp add: offset_def)

lemma lt_offset: "lt a b \<longleftrightarrow> half \<le> offset b a"
  by (simp add: lt_iff offset_def)

lemma lt_irrefl: "\<not> lt a a"
  using half_pos by (simp add: lt_offset)

lemma offset_diff: "offset a b = (offset base b - offset base a) mod (2 * half)"
  unfolding offset_def by (simp add: mod_diff_eq algebra_simps)

lemma offset_diff_cases:
  "offset a b = (if offset base a \<le> offset base b then offset base b - offset base a
                 else offset base b - offset base a + 2 * half)"
proof (cases "offset base a \<le> offset base b")
  case True
  then show ?thesis
    using offset_range [of base a] offset_range [of base b]
    by (simp add: offset_diff [of a b base] mod_pos_pos_trivial)
next
  case False
  have "offset a b = (offset base b - offset base a + 2 * half) mod (2 * half)"
    by (simp add: offset_diff [of a b base])
  also have "\<dots> = offset base b - offset base a + 2 * half"
    using False offset_range [of base a] offset_range [of base b]
    by (intro mod_pos_pos_trivial) auto
  finally show ?thesis
    using False by simp
qed

lemma lt_window:
  assumes "offset base a < half" and "offset base b < half"
  shows "lt a b \<longleftrightarrow> offset base a < offset base b"
  using assms offset_range [of base a] offset_range [of base b] half_pos
  by (auto simp: lt_offset offset_diff_cases [of b a base])

lemma lt_base: "lt base a \<longleftrightarrow> 0 < offset base a \<and> offset base a \<le> half"
  using offset_range [of base a] half_pos
  by (auto simp: lt_offset offset_diff_cases [of a base base])

lemma lt_trans_window:
  assumes "offset base a < half" and "offset base b < half" and "offset base c < half"
    and "lt a b" and "lt b c"
  shows "lt a c"
  using assms by (simp add: lt_window [of base])

lemma lt_total_window:
  assumes "offset base a < half" and "offset base b < half"
  shows "lt a b \<or> offset base a = offset base b \<or> lt b a"
  using assms by (auto simp: lt_window)

end

text \<open>A comparison of two words by the sign of their difference is a serial order.\<close>

lemma odd_div_upper_half: "0 \<le> k \<Longrightarrow> k < 2 * p \<Longrightarrow> odd (k div p) \<longleftrightarrow> p \<le> k" for k p :: int
  using div_pos_pos_trivial [of k p] div_pos_geq [of p k] by (cases "p \<le> k") auto

lemma odd_div_mod: "odd (k div 2048) \<longleftrightarrow> odd (k mod 4096 div 2048)" for k :: int
proof -
  have "k mod 4096 = 2048 * (k div 2048 mod 2) + k mod 2048"
    using mod_mult2_eq' [of k 2048 2] by simp
  then have "k mod 4096 div 2048 = k div 2048 mod 2"
    by simp
  then show ?thesis by presburger
qed

lemma sint_neg_iff: "sint w < 0 \<longleftrightarrow> 2 ^ (LENGTH('a) - Suc 0) \<le> uint w" for w :: "'a::len word"
proof -
  have "uint w < 2 * 2 ^ (LENGTH('a) - Suc 0)"
    using uint_bounded [of w] by (simp flip: power_Suc)
  then have "odd (uint w div 2 ^ (LENGTH('a) - Suc 0)) \<longleftrightarrow> 2 ^ (LENGTH('a) - Suc 0) \<le> uint w"
    by (intro odd_div_upper_half) simp_all
  moreover have "sint w < 0 \<longleftrightarrow> bit (uint w) (LENGTH('a) - Suc 0)"
    by (simp add: bit_last_iff [symmetric] bit_uint_iff)
  ultimately show ?thesis
    by (simp add: bit_int_def)
qed

lemma sint_diff_neg:
  "sint (a - b) < 0 \<longleftrightarrow>
     2 ^ (LENGTH('a) - Suc 0) \<le> (uint a - uint b) mod (2 * 2 ^ (LENGTH('a) - Suc 0))"
  for a b :: "'a::len word"
  by (simp add: sint_neg_iff uint_word_ariths flip: power_Suc)

text \<open>Bit 11 of a difference of 16-bit words depends on the words modulo 4096 only.\<close>

lemma bit11_diff:
  "(a - b) AND 0x800 \<noteq> 0 \<longleftrightarrow> 2048 \<le> (uint a - uint b) mod (2 * 2048)" for a b :: u16
proof -
  have mod: "uint (a - b) mod 4096 = (uint a - uint b) mod 4096"
    by (simp add: uint_word_ariths mod_mod_cancel)
  have "(a - b) AND 0x800 \<noteq> 0 \<longleftrightarrow> bit (a - b) 11"
  proof -
    have "(0x800 :: u16) = 2 ^ 11" by simp
    then have m: "bit (0x800 :: u16) n \<longleftrightarrow> n = 11" for n
      by (simp only: bit_exp_iff) (auto simp: possible_bit_def)
    have "(a - b) AND 0x800 \<noteq> 0 \<longleftrightarrow> (\<exists>n. bit ((a - b) AND 0x800) n)"
      using bit_imp_le_length [where ?'a = 16] by (auto simp: bit_eq_iff)
    then show ?thesis by (simp only: bit_and_iff m) blast
  qed
  also have "\<dots> \<longleftrightarrow> odd (uint (a - b) div 2 ^ 11)"
    using bit_uint_iff [of "a - b" 11] by (simp add: bit_int_def)
  also have "\<dots> \<longleftrightarrow> odd ((uint (a - b) mod 4096) div 2048)"
    using odd_div_mod [of "uint (a - b)"] by simp
  also have "\<dots> \<longleftrightarrow> 2048 \<le> uint (a - b) mod 4096"
    by (intro odd_div_upper_half) simp_all
  finally show ?thesis
    by (simp add: mod)
qed

end
