(* ===== verification/Amsdu.thy ===== *)
theory Amsdu
  imports Prelude
begin

section \<open>Splitting an A-MSDU\<close>

text \<open>
  \<open>rwnx_rxdata_process_amsdu\<close> of \<open>rwnx_rx.c\<close>, which cuts an aggregate into Ethernet frames.
  A \<open>struct sk_buff\<close> is a window of \<open>sk_len\<close> bytes on a memory; \<open>sk_id\<close> names it, and
  sub-frame \<open>i\<close> of an aggregate extends the name of the aggregate by \<open>i\<close>.  What lies behind the
  window stays readable, as in C.  Allocation succeeds.
\<close>

record sk_buff =
  sk_id :: "nat list"
  sk_data :: mem
  sk_len :: nat

text \<open>\<open>skb_pull\<close> of the kernel leaves the buffer alone when it is shorter than \<open>n\<close>.\<close>

definition skb_pull :: "nat \<Rightarrow> sk_buff \<Rightarrow> sk_buff" where
  "skb_pull n skb =
     (if sk_len skb < n then skb
      else skb\<lparr>sk_data := (\<lambda>i. sk_data skb (n + i)), sk_len := sk_len skb - n\<rparr>)"

definition roundup :: "nat \<Rightarrow> nat \<Rightarrow> nat" where
  "roundup x y = (x + (y - 1)) div y * y"

text \<open>The new buffer for a sub-frame: both addresses, then what follows the LLC/SNAP header.\<close>

definition sub_skb :: "sk_buff \<Rightarrow> nat \<Rightarrow> nat \<Rightarrow> sk_buff" where
  "sub_skb skb n sublen =
     \<lparr>sk_id = sk_id skb @ [n],
      sk_data = (\<lambda>i. if i < 12 then sk_data skb i else sk_data skb (i + 8)),
      sk_len = sublen - 6 + 12\<rparr>"

text \<open>
  \<open>memcpy\<close> is called with \<open>sublen - 6\<close>, which becomes a huge \<open>size_t\<close> when \<open>sublen < 6\<close>: the
  result is then the error \<open>Copy_overrun\<close>.  The loop need not end either (a failing
  \<open>skb_pull\<close> changes nothing); \<open>None\<close> is a loop that never ends.  Otherwise the result is
  the list of sub-frames.
\<close>

datatype amsdu_error = Copy_overrun

partial_function (option) amsdu_loop ::
  "bool \<Rightarrow> sk_buff \<Rightarrow> nat \<Rightarrow> sk_buff list \<Rightarrow> (amsdu_error + sk_buff list) option" where
  "amsdu_loop vif_active skb n acc =
     (if 16 < sk_len skb then
        (let sublen = unat (be16 (sk_data skb) 12) in
         if sk_len skb < sublen + 14 then Some (Inr acc)
         else if sublen < 6 then Some (Inl Copy_overrun)
         else if \<not> vif_active then Some (Inr acc)
         else
           (let len_alligned =
                  (if sublen + 14 < sk_len skb then roundup (sublen + 14) 4 else sublen + 14) mod 2 ^ 16
            in amsdu_loop vif_active (skb_pull len_alligned skb) (n + 1) (acc @ [sub_skb skb n sublen])))
      else Some (Inr acc))"

definition rwnx_rxdata_process_amsdu ::
  "bool \<Rightarrow> sk_buff \<Rightarrow> (amsdu_error + sk_buff list) option" where
  "rwnx_rxdata_process_amsdu vif_active skb = amsdu_loop vif_active skb 0 []"

subsection \<open>Aggregates as the standard has them\<close>

record subframe =
  sf_addrs :: bytes
  sf_llc :: bytes
  sf_body :: bytes

definition sf_ok :: "subframe \<Rightarrow> bool" where
  "sf_ok f \<longleftrightarrow> length (sf_addrs f) = 12 \<and> length (sf_llc f) = 6 \<and> length (sf_body f) < 60000"

definition sf_len :: "subframe \<Rightarrow> nat" where
  "sf_len f = 6 + length (sf_body f)"

definition sf_bytes :: "subframe \<Rightarrow> bytes" where
  "sf_bytes f = sf_addrs f @ [of_nat (sf_len f div 256), of_nat (sf_len f mod 256)] @ sf_llc f @ sf_body f"

definition pad_bytes :: "bytes \<Rightarrow> bytes" where
  "pad_bytes bs = bs @ replicate (roundup (length bs) 4 - length bs) 0"

text \<open>Every sub-frame but the last is padded to a multiple of four bytes.\<close>

fun amsdu_bytes :: "subframe list \<Rightarrow> bytes" where
  "amsdu_bytes [] = []"
| "amsdu_bytes [f] = sf_bytes f"
| "amsdu_bytes (f # fs) = pad_bytes (sf_bytes f) @ amsdu_bytes fs"

definition sf_ether :: "subframe \<Rightarrow> bytes" where
  "sf_ether f = sf_addrs f @ sf_body f"

definition skb_bytes :: "sk_buff \<Rightarrow> bytes" where
  "skb_bytes skb = map (sk_data skb) [0..<sk_len skb]"

lemma roundup_4:
  "x \<le> roundup x 4" "roundup x 4 < x + 4" "roundup x 4 mod 4 = 0"
  unfolding roundup_def by presburger+

text \<open>One round of the loop on a sub-frame that is followed by at least its padding, or by nothing.\<close>

lemma amsdu_loop_end: "sk_len skb \<le> 16 \<Longrightarrow> amsdu_loop vif skb n acc = Some (Inr acc)"
  by (subst amsdu_loop.simps) simp

lemma amsdu_loop_step:
  assumes "sf_ok f" and "mem_at (sk_data skb) 0 (sf_bytes f)"
    and "sk_len skb = 14 + sf_len f \<or> roundup (14 + sf_len f) 4 \<le> sk_len skb"
  shows "amsdu_loop True skb n acc =
     amsdu_loop True
       (skb_pull (if 14 + sf_len f < sk_len skb then roundup (14 + sf_len f) 4 else 14 + sf_len f) skb)
       (n + 1) (acc @ [sub_skb skb n (sf_len f)])"
proof -
  have addrs: "length (sf_addrs f) = 12"
    using assms(1) by (simp add: sf_ok_def)
  have len: "6 \<le> sf_len f" "sf_len f < 60006"
    using assms(1) by (simp_all add: sf_ok_def sf_len_def)
  have "unat (be16 (sk_data skb) 12) = sf_len f"
    using assms(2) len by (intro unat_be16_of_nat) (simp_all add: sf_bytes_def addrs)
  then show ?thesis
    using len roundup_4(1,2) [of "14 + sf_len f"] assms(3)
    by (subst amsdu_loop.simps) (auto simp: Let_def add.commute)
qed

lemma sub_skb_bytes:
  assumes "sf_ok f" and "mem_at (sk_data skb) 0 (sf_bytes f)"
  shows "skb_bytes (sub_skb skb n (sf_len f)) = sf_ether f"
proof -
  have l: "length (sf_addrs f) = 12" "length (sf_llc f) = 6"
    using assms(1) by (simp_all add: sf_ok_def)
  have m: "mem_at (sk_data skb) 0 (sf_addrs f)" "mem_at (sk_data skb) 20 (sf_body f)"
    using assms(2) by (simp_all add: sf_bytes_def l)
  have upt: "[0..<12 + length (sf_body f)] = [0..<12] @ [12..<12 + length (sf_body f)]"
    by (rule upt_add_eq_append) simp
  have "map (sk_data (sub_skb skb n (sf_len f))) [0..<12] = sf_addrs f"
    using m(1) by (intro nth_equalityI) (auto simp: l mem_at_def sub_skb_def)
  moreover have "map (sk_data (sub_skb skb n (sf_len f))) [12..<12 + length (sf_body f)] = sf_body f"
    using m(2) by (intro nth_equalityI) (auto simp: mem_at_def sub_skb_def ac_simps)
  moreover have "sk_len (sub_skb skb n (sf_len f)) = 12 + length (sf_body f)"
    by (simp add: sub_skb_def sf_len_def)
  ultimately show ?thesis
    by (simp only: skb_bytes_def sf_ether_def upt map_append)
qed

lemma length_sf_bytes: "sf_ok f \<Longrightarrow> length (sf_bytes f) = 14 + sf_len f"
  by (simp add: sf_bytes_def sf_ok_def sf_len_def)

lemma length_pad_bytes: "length (pad_bytes bs) = roundup (length bs) 4"
  using roundup_4(1) [of "length bs"] by (simp add: pad_bytes_def)

lemma skb_pull_simps:
  "n \<le> sk_len skb \<Longrightarrow> sk_len (skb_pull n skb) = sk_len skb - n"
  "n \<le> sk_len skb \<Longrightarrow> sk_data (skb_pull n skb) = (\<lambda>i. sk_data skb (n + i))"
  "n \<le> sk_len skb \<Longrightarrow> sk_id (skb_pull n skb) = sk_id skb"
  by (simp_all add: skb_pull_def)

lemma amsdu_loop_split:
  assumes "\<forall>f\<in>set fs. sf_ok f" and "mem_at (sk_data skb) 0 (amsdu_bytes fs)"
    and "sk_len skb = length (amsdu_bytes fs)"
  shows "\<exists>subs. amsdu_loop True skb n acc = Some (Inr (acc @ subs)) \<and> map skb_bytes subs = map sf_ether fs"
  using assms
proof (induction fs arbitrary: skb n acc rule: amsdu_bytes.induct)
  case 1
  then show ?case by (simp add: amsdu_loop_end)
next
  case (2 f)
  let ?skb = "skb_pull (14 + sf_len f) skb"
  have sf: "sf_ok f" "mem_at (sk_data skb) 0 (sf_bytes f)"
    using 2 by simp_all
  have len: "sk_len skb = 14 + sf_len f"
    using 2 length_sf_bytes [of f] by simp
  have "amsdu_loop True skb n acc = amsdu_loop True ?skb (n + 1) (acc @ [sub_skb skb n (sf_len f)])"
    by (subst amsdu_loop_step [OF sf]) (simp_all add: len)
  also have "\<dots> = Some (Inr (acc @ [sub_skb skb n (sf_len f)]))"
    by (rule amsdu_loop_end) (simp add: len skb_pull_simps)
  finally show ?case
    using sub_skb_bytes [of f skb n] 2 by auto
next
  case (3 f g fs)
  let ?r = "roundup (14 + sf_len f) 4"
  let ?skb = "skb_pull ?r skb"
  have ok: "sf_ok f" using 3(2) by simp
  have pad: "length (pad_bytes (sf_bytes f)) = ?r"
    by (simp add: length_pad_bytes length_sf_bytes [OF ok])
  have sf: "mem_at (sk_data skb) 0 (sf_bytes f)"
    using 3(3) by (simp add: pad_bytes_def)
  have rest: "mem_at (sk_data skb) ?r (amsdu_bytes (g # fs))"
    using 3(3) pad by simp
  have len: "sk_len skb = ?r + length (amsdu_bytes (g # fs))"
    using 3(4) pad by simp
  have ne: "0 < length (amsdu_bytes (g # fs))"
    by (cases fs) (simp_all add: sf_bytes_def pad_bytes_def)
  have "amsdu_loop True skb n acc = amsdu_loop True ?skb (n + 1) (acc @ [sub_skb skb n (sf_len f)])"
  proof -
    have "14 + sf_len f < sk_len skb" "?r \<le> sk_len skb"
      using len ne roundup_4(1) [of "14 + sf_len f"] by linarith+
    then show ?thesis
      by (subst amsdu_loop_step [OF ok sf]) simp_all
  qed
  moreover obtain subs where
    "amsdu_loop True ?skb (n + 1) (acc @ [sub_skb skb n (sf_len f)]) =
       Some (Inr ((acc @ [sub_skb skb n (sf_len f)]) @ subs))"
    "map skb_bytes subs = map sf_ether (g # fs)"
    using 3(1) [of ?skb "n + 1" "acc @ [sub_skb skb n (sf_len f)]"] 3(2) rest len
    by (auto simp: skb_pull_simps mem_at_shift)
  ultimately show ?case
    using sub_skb_bytes [OF ok sf, of n] by (auto intro!: exI [of _ "sub_skb skb n (sf_len f) # subs"])
qed

subsection \<open>Malformed aggregates\<close>

text \<open>
  Trailing bytes after the last sub-frame that do not fill its padding: \<open>skb_pull\<close> fails and
  the loop reads the same sub-frame again and again.
\<close>

definition short_tail :: "sk_buff \<Rightarrow> bool" where
  "short_tail skb \<longleftrightarrow>
     (let sublen = unat (be16 (sk_data skb) 12) in
      6 \<le> sublen \<and> sublen < 65000 \<and> sublen + 14 < sk_len skb \<and> sk_len skb < roundup (sublen + 14) 4)"

lemma short_tail_loops:
  assumes "amsdu_loop vif skb n acc = Some r"
  shows "\<not> (vif \<and> short_tail skb)"
proof (rule amsdu_loop.raw_induct [where P = "\<lambda>vif skb n acc r. \<not> (vif \<and> short_tail skb)", OF _ assms])
  fix f :: "bool \<Rightarrow> sk_buff \<Rightarrow> nat \<Rightarrow> sk_buff list \<Rightarrow> (amsdu_error + sk_buff list) option"
    and vif skb n acc r
  assume IH: "\<And>vif skb n acc r. f vif skb n acc = Some r \<Longrightarrow> \<not> (vif \<and> short_tail skb)"
    and eq: "(if 16 < sk_len skb then
        (let sublen = unat (be16 (sk_data skb) 12) in
         if sk_len skb < sublen + 14 then Some (Inr acc)
         else if sublen < 6 then Some (Inl Copy_overrun)
         else if \<not> vif then Some (Inr acc)
         else
           (let len_alligned =
                  (if sublen + 14 < sk_len skb then roundup (sublen + 14) 4 else sublen + 14) mod 2 ^ 16
            in f vif (skb_pull len_alligned skb) (n + 1) (acc @ [sub_skb skb n sublen])))
      else Some (Inr acc)) = Some r"
  show "\<not> (vif \<and> short_tail skb)"
  proof
    assume a: "vif \<and> short_tail skb"
    let ?s = "unat (be16 (sk_data skb) 12)"
    have s: "6 \<le> ?s" "?s < 65000" "?s + 14 < sk_len skb" "sk_len skb < roundup (?s + 14) 4"
      using a by (simp_all add: short_tail_def Let_def)
    have "roundup (?s + 14) 4 mod 2 ^ 16 = roundup (?s + 14) 4"
      using s(2) roundup_4(2) [of "?s + 14"] by (intro mod_less) simp
    then have "f vif (skb_pull (roundup (?s + 14) 4) skb) (n + 1) (acc @ [sub_skb skb n ?s]) = Some r"
      using eq s a by (simp add: Let_def)
    moreover have "skb_pull (roundup (?s + 14) 4) skb = skb"
      using s(4) by (simp add: skb_pull_def)
    ultimately show False
      using IH a by fastforce
  qed
qed

subsection \<open>Properties\<close>

text \<open>C6: An aggregate of well-formed sub-frames is split into exactly the Ethernet frames it was
  built from: both addresses followed by the body without the LLC/SNAP header.\<close>

theorem amsdu_split_roundtrip:
  assumes "\<forall>f\<in>set fs. sf_ok f" and "mem_at (sk_data skb) 0 (amsdu_bytes fs)"
    and "sk_len skb = length (amsdu_bytes fs)"
  shows "\<exists>subs. rwnx_rxdata_process_amsdu True skb = Some (Inr subs) \<and>
    map skb_bytes subs = map sf_ether fs"
  using amsdu_loop_split [OF assms, of 0 "[]"] by (simp add: rwnx_rxdata_process_amsdu_def)

definition demo_subframe :: subframe where
  "demo_subframe = \<lparr>sf_addrs = [1, 2, 3, 4, 5, 6, 7, 8, 9, 10, 11, 12], sf_llc = [170, 170, 3, 0, 0, 0],
     sf_body = [8, 0, 69]\<rparr>"

theorem amsdu_split_roundtrip_witness:
  "\<exists>subs. rwnx_rxdata_process_amsdu True
      \<lparr>sk_id = [], sk_data = (\<lambda>i. if i < 47 then amsdu_bytes [demo_subframe, demo_subframe] ! i else 0), sk_len = 47\<rparr>
      = Some (Inr subs) \<and> map skb_bytes subs = [sf_ether demo_subframe, sf_ether demo_subframe]"
proof -
  have l: "length (amsdu_bytes [demo_subframe, demo_subframe]) = 47"
    by (simp add: demo_subframe_def pad_bytes_def sf_bytes_def roundup_def)
  show ?thesis
    using amsdu_split_roundtrip [of "[demo_subframe, demo_subframe]"
        "\<lparr>sk_id = [], sk_data = (\<lambda>i. if i < 47 then amsdu_bytes [demo_subframe, demo_subframe] ! i else 0), sk_len = 47\<rparr>"]
      l by (simp add: mem_at_def sf_ok_def) (simp add: demo_subframe_def)
qed

text \<open>A sub-frame length below 6 makes the splitting copy a negative number of bytes, and
  a last sub-frame followed by fewer bytes than its padding makes it loop for ever.\<close>

lemma amsdu_malformed:
  "(16 < sk_len skb \<and> unat (be16 (sk_data skb) 12) < 6 \<and> vif \<longrightarrow>
      rwnx_rxdata_process_amsdu vif skb =
        (if sk_len skb < unat (be16 (sk_data skb) 12) + 14 then Some (Inr []) else Some (Inl Copy_overrun))) \<and>
   (vif \<and> short_tail skb \<longrightarrow> rwnx_rxdata_process_amsdu vif skb = None)"
proof (intro conjI impI)
  assume "16 < sk_len skb \<and> unat (be16 (sk_data skb) 12) < 6 \<and> vif"
  then show "rwnx_rxdata_process_amsdu vif skb =
      (if sk_len skb < unat (be16 (sk_data skb) 12) + 14 then Some (Inr []) else Some (Inl Copy_overrun))"
    unfolding rwnx_rxdata_process_amsdu_def by (subst amsdu_loop.simps) (simp add: Let_def)
next
  assume "vif \<and> short_tail skb"
  then show "rwnx_rxdata_process_amsdu vif skb = None"
    unfolding rwnx_rxdata_process_amsdu_def using short_tail_loops by (metis option.exhaust)
qed

lemma amsdu_malformed_witness:
  "rwnx_rxdata_process_amsdu True \<lparr>sk_id = [], sk_data = (\<lambda>_. 0), sk_len = 20\<rparr> = Some (Inl Copy_overrun) \<and>
   rwnx_rxdata_process_amsdu True \<lparr>sk_id = [], sk_data = (\<lambda>_. 0)(13 := 7), sk_len = 22\<rparr> = None"
  using amsdu_malformed [of "\<lparr>sk_id = [], sk_data = (\<lambda>_. 0), sk_len = 20\<rparr>" True]
    amsdu_malformed [of "\<lparr>sk_id = [], sk_data = (\<lambda>_. 0)(13 := 7), sk_len = 22\<rparr>" True]
  by (simp add: be16_def short_tail_def roundup_def)

end
