(* ===== verification/RxReorder.thy ===== *)
theory RxReorder
  imports Serial Amsdu TcpAck
begin

unbundle bit_operations_syntax

section \<open>Reordering received frames\<close>

text \<open>
  The receive reordering of \<open>rwnx_rx.c\<close> (\<open>reord_*\<close>): per station and traffic class a list of
  frames that wait for a missing one, in a window of 64 sequence numbers, with a timer that
  gives up on the missing frame.  Control blocks (\<open>struct recv_msdu\<close>) come from a pool of
  fixed size.  A critical section is one step; timers and work items are flags (pending or not).
\<close>

subsection \<open>Sequence numbers\<close>

definition SN_LESS :: "u16 \<Rightarrow> u16 \<Rightarrow> bool" where
  "SN_LESS a b \<longleftrightarrow> (a - b) AND 0x800 \<noteq> 0"

definition SN_EQUAL :: "u16 \<Rightarrow> u16 \<Rightarrow> bool" where
  "SN_EQUAL a b \<longleftrightarrow> a = b"

definition AICWF_REORDER_WINSIZE :: u8 where "AICWF_REORDER_WINSIZE = 64"

definition MAX_REORD_RXFRAME :: nat where "MAX_REORD_RXFRAME = 250"

interpretation sn: serial_order uint 2048 SN_LESS
  by unfold_locales (simp_all add: SN_LESS_def bit11_diff)

interpretation jiffies: serial_order uint "2 ^ 63" "\<lambda>a b. time_after b a"
proof unfold_locales
  fix a b :: u64
  show "time_after b a \<longleftrightarrow> 2 ^ 63 \<le> (uint a - uint b) mod (2 * 2 ^ 63)"
    using sint_diff_neg [of a b] by (simp add: time_after_def)
qed simp

interpretation tcp_seq: serial_order uint "2 ^ 31" "\<lambda>a b. U32_BEFORE a b \<and> a \<noteq> b"
proof unfold_locales
  fix a b :: u32
  have "sint (a - b) = 0 \<longleftrightarrow> a = b"
    by (metis right_minus_eq sint_0 signed_word_eqI signed_0)
  then have "U32_BEFORE a b \<and> a \<noteq> b \<longleftrightarrow> sint (a - b) < 0"
    by (auto simp: U32_BEFORE_def)
  then show "U32_BEFORE a b \<and> a \<noteq> b \<longleftrightarrow> 2 ^ 31 \<le> (uint a - uint b) mod (2 * 2 ^ 31)"
    using sint_diff_neg [of a b] by simp
qed simp

subsection \<open>State\<close>

record recv_msdu =
  fid :: nat
  pkt :: "sk_buff option"
  tid :: u8
  forward :: bool
  seq_num :: u16
  is_amsdu :: bool
  is_ap_reord :: bool
  ap_fwd :: "sk_buff list"
  ap_fwd_cnt :: u8
  ap_resend :: "sk_buff list"
  ap_resend_cnt :: u8

record reord_ctrl =
  enabled :: bool
  ind_sn :: u16
  wsize_b :: u8
  reord_list :: "recv_msdu list"
  reord_timer :: bool
  reord_timer_work :: bool

record reord_ctrl_info =
  mac_addr :: bytes
  preorder_ctrl :: "reord_ctrl list"

datatype iftype =
  IF_STATION | IF_P2P_CLIENT | IF_AP | IF_P2P_GO | IF_AP_VLAN | IF_MESH_POINT | IF_MONITOR | IF_OTHER

text \<open>The interface types whose frames are reordered.\<close>

definition reorders :: "iftype \<Rightarrow> bool" where
  "reorders t \<longleftrightarrow> t \<in> {IF_STATION, IF_P2P_CLIENT, IF_AP, IF_P2P_GO}"

text \<open>
  \<open>bus_up\<close> tells that \<open>bus_if->state\<close> is not \<open>BUS_DOWN_ST\<close>, \<open>usb_down\<close> that \<open>usbdev->state\<close> is
  \<open>USB_DOWN_ST\<close>, \<open>kmalloc_ok\<close> that memory can be allocated in interrupt context.
  \<open>netif\<close> is what the network stack has received, \<open>arp_seen\<close> the frames shown to
  \<open>arpoffload_proc\<close>, \<open>freed\<close> the buffers freed; all three only grow.
\<close>

record aicwf_rx_priv =
  wdev_iftype :: iftype
  vif_active :: bool
  bus_up :: bool
  usb_down :: bool
  kmalloc_ok :: bool
  rxframes_freequeue :: "recv_msdu list"
  stas_reord_list :: "reord_ctrl_info list"
  netif :: "sk_buff list"
  arp_seen :: "sk_buff list"
  freed :: "sk_buff list"
  ack_m :: tcp_ack_manage

subsection \<open>The pool of control blocks\<close>

text \<open>\<open>list_add\<close> links at the head.\<close>

definition reord_rxframe_free :: "recv_msdu \<Rightarrow> aicwf_rx_priv \<Rightarrow> aicwf_rx_priv" where
  "reord_rxframe_free f rx = rx\<lparr>rxframes_freequeue := f # rxframes_freequeue rx\<rparr>"

definition reord_rxframe_alloc :: "aicwf_rx_priv \<Rightarrow> recv_msdu option \<times> aicwf_rx_priv" where
  "reord_rxframe_alloc rx =
     (case rxframes_freequeue rx of
        [] \<Rightarrow> (None, rx)
      | f # fs \<Rightarrow> (Some f, rx\<lparr>rxframes_freequeue := fs\<rparr>))"

definition dev_kfree_skb :: "sk_buff \<Rightarrow> aicwf_rx_priv \<Rightarrow> aicwf_rx_priv" where
  "dev_kfree_skb skb rx = rx\<lparr>freed := freed rx @ [skb]\<rparr>"

definition blank_frame :: "nat \<Rightarrow> recv_msdu" where
  "blank_frame i =
     \<lparr>fid = i, pkt = None, tid = 0, forward = False, seq_num = 0, is_amsdu = False,
      is_ap_reord = False, ap_fwd = [], ap_fwd_cnt = 0, ap_resend = [], ap_resend_cnt = 0\<rparr>"

fun aicwf_rxframe_queue_init :: "nat \<Rightarrow> nat \<Rightarrow> recv_msdu list \<Rightarrow> recv_msdu list" where
  "aicwf_rxframe_queue_init i 0 q = q"
| "aicwf_rxframe_queue_init i (Suc n) q = aicwf_rxframe_queue_init (Suc i) n (blank_frame i # q)"

subsection \<open>Delivering a frame\<close>

text \<open>
  One turn of the delivery loop of \<open>reord_single_frame_ind\<close>: \<open>eth_type_trans\<close> pulls the
  Ethernet header, then \<open>arpoffload_proc\<close> (stations only), the TCP ACK filter and the
  network stack see what is left.
\<close>

definition ETH_HLEN :: nat where "ETH_HLEN = 14"

definition eth_type_trans :: "sk_buff \<Rightarrow> sk_buff" where
  "eth_type_trans skb =
     skb\<lparr>sk_data := (\<lambda>i. sk_data skb (ETH_HLEN + i)), sk_len := sk_len skb - ETH_HLEN\<rparr>"

definition netif_deliver :: "sk_buff \<Rightarrow> aicwf_rx_priv \<Rightarrow> aicwf_rx_priv" where
  "netif_deliver rx_skb rx =
     (let skb = eth_type_trans rx_skb in
      rx\<lparr>arp_seen := (if wdev_iftype rx = IF_STATION \<or> wdev_iftype rx = IF_P2P_CLIENT
                      then arp_seen rx @ [skb] else arp_seen rx),
         ack_m := filter_rx_tcp_ack (sk_data skb) (sk_len skb mod 2 ^ 16) (ack_m rx),
         netif := netif rx @ [skb]\<rparr>)"

text \<open>
  \<open>None\<close> is a delivery that does not return or overruns memory, which only the splitting
  of an A-MSDU can cause.  \<open>(-1, rx)\<close> is the return without a packet.
\<close>

definition deliver_list :: "recv_msdu \<Rightarrow> sk_buff \<Rightarrow> aicwf_rx_priv \<Rightarrow> (sk_buff list \<times> aicwf_rx_priv) option" where
  "deliver_list f skb rx =
     (if is_ap_reord f then Some (ap_fwd f, rx)
      else if is_amsdu f then
        (case rwnx_rxdata_process_amsdu (vif_active rx) skb of
           Some (Inr subs) \<Rightarrow> Some (subs, dev_kfree_skb skb rx)
         | _ \<Rightarrow> None)
      else Some ([skb], rx))"

definition reord_single_frame_ind :: "recv_msdu \<Rightarrow> aicwf_rx_priv \<Rightarrow> (int \<times> aicwf_rx_priv) option" where
  "reord_single_frame_ind f rx0 =
     (case pkt f of
        None \<Rightarrow> Some (-1, rx0)
      | Some skb \<Rightarrow>
          (let done = f\<lparr>pkt := None\<rparr>;
               rx = (if is_ap_reord f \<and> ap_resend_cnt f \<noteq> 0
                     then fold dev_kfree_skb (ap_resend f) rx0 else rx0)
           in if is_ap_reord f \<and> ap_resend_cnt f \<noteq> 0 \<and> ap_fwd_cnt f = 0
              then Some (0, reord_rxframe_free done rx)
              else if \<not> is_ap_reord f \<and> \<not> forward f
              then Some (0, reord_rxframe_free done (dev_kfree_skb skb rx))
              else
                (case deliver_list f skb rx of
                   None \<Rightarrow> None
                 | Some (skbs, rx1) \<Rightarrow> Some (0, reord_rxframe_free done (fold netif_deliver skbs rx1)))))"

subsection \<open>One reorder list\<close>

definition init_ctrl :: reord_ctrl where
  "init_ctrl = \<lparr>enabled = True, ind_sn = 0xFFFF, wsize_b = AICWF_REORDER_WINSIZE, reord_list = [],
     reord_timer = False, reord_timer_work = False\<rparr>"

definition reord_init_sta :: "aicwf_rx_priv \<Rightarrow> bytes \<Rightarrow> reord_ctrl_info option" where
  "reord_init_sta rx mac =
     (if \<not> bus_up rx \<or> \<not> kmalloc_ok rx then None
      else Some \<lparr>mac_addr = mac, preorder_ctrl = replicate 8 init_ctrl\<rparr>)"

text \<open>\<open>True\<close>: the frame is behind the window and is not reordered (C result -1).\<close>

definition reord_need_check :: "reord_ctrl \<Rightarrow> u16 \<Rightarrow> bool \<times> reord_ctrl" where
  "reord_need_check c0 sn =
     (let wsize = wsize_b c0;
          wend = (ind_sn c0 + ucast wsize - 1) AND 0xFFF;
          c = (if ind_sn c0 = 0xFFFF then c0\<lparr>ind_sn := sn\<rparr> else c0)
      in if SN_LESS sn (ind_sn c) then (True, c)
         else if SN_EQUAL sn (ind_sn c) then (False, c\<lparr>ind_sn := (ind_sn c + 1) AND 0xFFF\<rparr>)
         else if SN_LESS wend sn then
           (False,
            c\<lparr>ind_sn := (if int (unat wsize) - 1 \<le> int (unat sn) then sn - (ucast wsize - 1)
                         else 0xFFF - (ucast wsize - (sn + 1)) + 1)\<rparr>)
         else (False, c))"

text \<open>\<open>None\<close>: a frame with this number is already in the list (C result -1).\<close>

fun reord_insert :: "recv_msdu \<Rightarrow> recv_msdu list \<Rightarrow> recv_msdu list option" where
  "reord_insert f [] = Some [f]"
| "reord_insert f (g # gs) =
     (if SN_LESS (seq_num g) (seq_num f) then map_option ((#) g) (reord_insert f gs)
      else if SN_EQUAL (seq_num g) (seq_num f) then None
      else Some (f # g # gs))"

definition reord_rxframe_enqueue :: "recv_msdu \<Rightarrow> reord_ctrl \<Rightarrow> reord_ctrl option" where
  "reord_rxframe_enqueue f c =
     map_option (\<lambda>l. c\<lparr>reord_list := l\<rparr>) (reord_insert f (reord_list c))"

fun process_loop :: "u16 \<Rightarrow> recv_msdu list \<Rightarrow> bool \<times> u16" where
  "process_loop ind [] = (False, ind)"
| "process_loop ind (f # fs) =
     (if \<not> SN_LESS ind (seq_num f) then
        process_loop (if SN_EQUAL ind (seq_num f) then (ind + 1) AND 0xFFF else ind) fs
      else (True, ind))"

definition reord_rxframes_process :: "bool \<Rightarrow> reord_ctrl \<Rightarrow> bool \<times> reord_ctrl" where
  "reord_rxframes_process bforced c0 =
     (if bforced \<and> reord_list c0 = [] then (False, c0)
      else
        (let c = (if bforced then c0\<lparr>ind_sn := seq_num (hd (reord_list c0))\<rparr> else c0)
         in if reord_list c = [] then (False, c)
            else (case process_loop (ind_sn c) (reord_list c) of
                    (buffered, ind) \<Rightarrow> (buffered, c\<lparr>ind_sn := ind\<rparr>))))"

text \<open>The frames that are no longer ahead of \<open>ind_sn\<close> leave the list, from its head.\<close>

fun ind_loop :: "u16 \<Rightarrow> recv_msdu list \<Rightarrow> aicwf_rx_priv \<Rightarrow> (recv_msdu list \<times> aicwf_rx_priv) option" where
  "ind_loop ind [] rx = Some ([], rx)"
| "ind_loop ind (f # fs) rx =
     (if \<not> SN_LESS ind (seq_num f) then
        (case reord_single_frame_ind f rx of None \<Rightarrow> None | Some (_, rx1) \<Rightarrow> ind_loop ind fs rx1)
      else Some (f # fs, rx))"

definition reord_rxframes_ind :: "reord_ctrl \<Rightarrow> aicwf_rx_priv \<Rightarrow> (reord_ctrl \<times> aicwf_rx_priv) option" where
  "reord_rxframes_ind c rx =
     map_option (\<lambda>(l, rx1). (c\<lparr>reord_list := l\<rparr>, rx1)) (ind_loop (ind_sn c) (reord_list c) rx)"

subsection \<open>Stations\<close>

definition ETH_P_PAE :: u16 where "ETH_P_PAE = 0x888E"

definition h_dest :: "sk_buff \<Rightarrow> bytes" where "h_dest skb = map (sk_data skb) [0..<6]"
definition h_source :: "sk_buff \<Rightarrow> bytes" where "h_source skb = map (sk_data skb) [6..<12]"
definition h_proto :: "sk_buff \<Rightarrow> u16" where "h_proto skb = be16 (sk_data skb) 12"

definition peer_mac :: "iftype \<Rightarrow> sk_buff \<Rightarrow> bytes option" where
  "peer_mac t skb =
     (case t of
        IF_STATION \<Rightarrow> Some (h_dest skb) | IF_P2P_CLIENT \<Rightarrow> Some (h_dest skb)
      | IF_AP \<Rightarrow> Some (h_source skb) | IF_P2P_GO \<Rightarrow> Some (h_source skb)
      | _ \<Rightarrow> None)"

definition find_sta :: "bytes \<Rightarrow> aicwf_rx_priv \<Rightarrow> nat option" where
  "find_sta mac rx = first_index (\<lambda>s. mac_addr s = mac) (stas_reord_list rx)"

definition get_ctrl :: "nat \<Rightarrow> nat \<Rightarrow> aicwf_rx_priv \<Rightarrow> reord_ctrl" where
  "get_ctrl i t rx = preorder_ctrl (stas_reord_list rx ! i) ! t"

definition set_ctrl :: "nat \<Rightarrow> nat \<Rightarrow> reord_ctrl \<Rightarrow> aicwf_rx_priv \<Rightarrow> aicwf_rx_priv" where
  "set_ctrl i t c rx =
     (let s = stas_reord_list rx ! i in
      rx\<lparr>stas_reord_list :=
           (stas_reord_list rx)[i := s\<lparr>preorder_ctrl := (preorder_ctrl s)[t := c]\<rparr>]\<rparr>)"

subsection \<open>A received frame\<close>

text \<open>The byte that marks an RTP packet, and what happens to a frame behind the window.\<close>

definition drop_frame :: "recv_msdu \<Rightarrow> aicwf_rx_priv \<Rightarrow> aicwf_rx_priv" where
  "drop_frame f rx =
     reord_rxframe_free (f\<lparr>pkt := None\<rparr>) (case pkt f of None \<Rightarrow> rx | Some skb \<Rightarrow> dev_kfree_skb skb rx)"

definition is_rtp :: "sk_buff \<Rightarrow> bool" where
  "is_rtp skb \<longleftrightarrow> sk_data skb 42 = 0x80"

definition late_frame :: "recv_msdu \<Rightarrow> reord_ctrl \<Rightarrow> sk_buff \<Rightarrow> aicwf_rx_priv \<Rightarrow> aicwf_rx_priv option" where
  "late_frame f c skb rx =
     (if is_rtp skb \<and> seq_num f \<noteq> ind_sn c then Some (drop_frame f rx)
      else map_option snd (reord_single_frame_ind f rx))"

text \<open>The part of \<open>reord_process_unit\<close> after the control block of the traffic class is found.\<close>

definition reord_unit :: "recv_msdu \<Rightarrow> sk_buff \<Rightarrow> reord_ctrl \<Rightarrow> aicwf_rx_priv \<Rightarrow> (reord_ctrl \<times> aicwf_rx_priv) option" where
  "reord_unit f skb c rx =
     (if \<not> enabled c then
        (case reord_single_frame_ind f rx of
           None \<Rightarrow> None
         | Some (_, rx1) \<Rightarrow> Some (c\<lparr>ind_sn := (seq_num f + 1) mod 4096\<rparr>, rx1))
      else
        (case reord_need_check c (seq_num f) of
           (True, c1) \<Rightarrow> map_option (Pair c1) (late_frame f c1 skb rx)
         | (False, c1) \<Rightarrow>
             (case reord_rxframe_enqueue f c1 of
                None \<Rightarrow> Some (c1, drop_frame f rx)
              | Some c2 \<Rightarrow>
                  (case reord_rxframes_process False c2 of
                     (buffered, c3) \<Rightarrow> reord_rxframes_ind (c3\<lparr>reord_timer := buffered\<rparr>) rx))))"

text \<open>
  \<open>None\<close> also stands for an access outside \<open>preorder_ctrl\<close>, which has eight entries.
\<close>

definition reord_process_unit ::
  "recv_msdu \<Rightarrow> aicwf_rx_priv \<Rightarrow> sk_buff \<Rightarrow> u16 \<Rightarrow> u8 \<Rightarrow> bool \<Rightarrow> bool \<Rightarrow> (int \<times> aicwf_rx_priv) option" where
  "reord_process_unit pframe rx skb sn t fwd amsdu =
     (let f = pframe\<lparr>seq_num := sn, tid := t, pkt := Some skb, forward := fwd, is_amsdu := amsdu\<rparr>;
          is_mcast = (sk_data skb 0 AND 1 \<noteq> 0)
      in if h_proto skb = ETH_P_PAE \<or> is_mcast then reord_single_frame_ind f rx
         else
           (case peer_mac (wdev_iftype rx) skb of
              None \<Rightarrow> Some (-1, dev_kfree_skb skb rx)
            | Some mac \<Rightarrow>
                if find_sta mac rx = None \<and> reord_init_sta rx mac = None
                then map_option (\<lambda>(_, rx1). (-1, rx1)) (reord_single_frame_ind f rx)
                else if 8 \<le> unat t then None
                else
                  (let (i, rx1) =
                         (case find_sta mac rx of
                            Some i \<Rightarrow>
                              (let c = get_ctrl i (unat t) rx in
                               (i, if enabled c then rx
                                   else set_ctrl i (unat t)
                                          (c\<lparr>enabled := True, ind_sn := 0xFFFF,
                                             wsize_b := AICWF_REORDER_WINSIZE\<rparr>) rx))
                          | None \<Rightarrow>
                              (length (stas_reord_list rx),
                               rx\<lparr>stas_reord_list := stas_reord_list rx @ [the (reord_init_sta rx mac)]\<rparr>))
                   in map_option (\<lambda>(c, rx2). (0, set_ctrl i (unat t) c rx2))
                        (reord_unit f skb (get_ctrl i (unat t) rx1) rx1))))"

subsection \<open>Flush, timeout and end\<close>

fun flush_loop :: "recv_msdu list \<Rightarrow> aicwf_rx_priv \<Rightarrow> aicwf_rx_priv option" where
  "flush_loop [] rx = Some rx"
| "flush_loop (f # fs) rx =
     (case reord_single_frame_ind f rx of None \<Rightarrow> None | Some (_, rx1) \<Rightarrow> flush_loop fs rx1)"

definition reord_flush_tid :: "aicwf_rx_priv \<Rightarrow> sk_buff \<Rightarrow> u8 \<Rightarrow> (int \<times> aicwf_rx_priv) option" where
  "reord_flush_tid rx skb t =
     (case peer_mac (wdev_iftype rx) skb of
        None \<Rightarrow> Some (-1, dev_kfree_skb skb rx)
      | Some mac \<Rightarrow>
          (case find_sta mac rx of
             None \<Rightarrow> Some (0, rx)
           | Some i \<Rightarrow>
               if 8 \<le> unat t then None
               else
                 (let c = get_ctrl i (unat t) rx in
                  if \<not> enabled c then Some (0, rx)
                  else
                    map_option
                      (\<lambda>rx1. (0, set_ctrl i (unat t)
                          (c\<lparr>reord_list := [], enabled := False, reord_timer := False,
                             reord_timer_work := False\<rparr>) rx1))
                      (flush_loop (reord_list c) rx))))"

definition reord_timeout_handler :: "nat \<Rightarrow> nat \<Rightarrow> aicwf_rx_priv \<Rightarrow> aicwf_rx_priv" where
  "reord_timeout_handler i t rx =
     (let c = get_ctrl i t rx in
      set_ctrl i t
        (c\<lparr>reord_timer := False, reord_timer_work := reord_timer_work c \<or> \<not> usb_down rx\<rparr>) rx)"

definition reord_timeout_worker :: "nat \<Rightarrow> nat \<Rightarrow> aicwf_rx_priv \<Rightarrow> aicwf_rx_priv option" where
  "reord_timeout_worker i t rx =
     (case reord_rxframes_process True ((get_ctrl i t rx)\<lparr>reord_timer_work := False\<rparr>) of
        (buffered, c1) \<Rightarrow>
          map_option (\<lambda>(c2, rx1). set_ctrl i t c2 rx1)
            (reord_rxframes_ind (if buffered then c1\<lparr>reord_timer := True\<rparr> else c1) rx))"

definition deinit_frames :: "recv_msdu list \<Rightarrow> aicwf_rx_priv \<Rightarrow> aicwf_rx_priv" where
  "deinit_frames fs rx = fold drop_frame fs rx"

definition reord_deinit_sta :: "nat \<Rightarrow> aicwf_rx_priv \<Rightarrow> aicwf_rx_priv" where
  "reord_deinit_sta i rx =
     (let s = stas_reord_list rx ! i;
          rx1 = fold (\<lambda>c. deinit_frames (reord_list c)) (preorder_ctrl s) rx
      in rx1\<lparr>stas_reord_list := take i (stas_reord_list rx1) @ drop (Suc i) (stas_reord_list rx1)\<rparr>)"

subsection \<open>Arithmetic of the window\<close>

lemma and_FFF: "uint (x AND 0xFFF) = uint x mod 4096" for x :: u16
proof -
  have "uint (x AND 0xFFF) = uint x AND mask 12"
    by (simp add: unsigned_and_eq mask_eq_exp_minus_1)
  then show ?thesis
    by (simp add: take_bit_eq_mask [symmetric] take_bit_eq_mod)
qed

lemma sn_inc: "uint ((x + 1) AND 0xFFF) = (uint x + 1) mod 4096" for x :: u16
  by (simp add: and_FFF uint_word_ariths mod_mod_cancel)

lemma sn_wend: "uint ((x + ucast (64 :: u8) - 1) AND 0xFFF) = (uint x + 63) mod 4096" for x :: u16
proof -
  have "x + ucast (64 :: u8) - 1 = x + 63" by simp
  then show ?thesis
    by (simp only: and_FFF) (simp add: uint_word_ariths mod_mod_cancel)
qed

lemma sn_window_start:
  fixes x :: u16
  assumes "x < 4096"
  shows "uint (if int (unat (64 :: u8)) - 1 \<le> int (unat x) then x - (ucast (64 :: u8) - 1)
               else 0xFFF - (ucast (64 :: u8) - (x + 1)) + 1) = (uint x - 63) mod 4096"
proof -
  have b: "0 \<le> uint x" "uint x < 4096"
    using assms by (simp_all add: word_less_def)
  show ?thesis
  proof (cases "63 \<le> uint x")
    case True
    then have "uint (x - 63) = uint x - 63"
      by (simp add: uint_sub_if')
    then show ?thesis using True b by (simp add: mod_pos_pos_trivial)
  next
    case False
    have e: "(if int (unat (64 :: u8)) - 1 \<le> int (unat x) then x - (ucast (64 :: u8) - 1)
               else 0xFFF - (ucast (64 :: u8) - (x + 1)) + 1) = x + 4033"
      using False by simp
    have "uint (x + 4033) = uint x + 4033"
      using b by (simp add: uint_word_ariths mod_pos_pos_trivial)
    also have "\<dots> = (uint x - 63 + 4096) mod 4096"
      using False b by (simp add: mod_pos_pos_trivial)
    also have "\<dots> = (uint x - 63) mod 4096"
      by (rule mod_add_self2)
    finally show ?thesis
      unfolding e .
  qed
qed

text \<open>Offsets of sequence numbers, and the scan of the list in terms of offsets.\<close>

abbreviation sn_off :: "u16 \<Rightarrow> u16 \<Rightarrow> int" where
  "sn_off base x \<equiv> (uint x - uint base) mod 4096"

lemma sn_less_window:
  "sn_off base a < 2048 \<Longrightarrow> sn_off base b < 2048 \<Longrightarrow> SN_LESS a b \<longleftrightarrow> sn_off base a < sn_off base b"
  using sn.lt_window [of base a b] by (simp add: sn.offset_def)

lemma sn_less_base: "SN_LESS a base \<longleftrightarrow> 2048 \<le> sn_off base a"
  using sn.lt_offset [of a base] by (simp add: sn.offset_def)

lemma sn_off_eq_iff:
  assumes "a < 4096" and "b < 4096"
  shows "sn_off base a = sn_off base b \<longleftrightarrow> a = b"
proof
  assume "sn_off base a = sn_off base b"
  then have "(uint a - uint base + uint base) mod 4096 = (uint b - uint base + uint base) mod 4096"
    by (metis mod_add_left_eq)
  moreover have "0 \<le> uint a" "uint a < 4096" "0 \<le> uint b" "uint b < 4096"
    using assms by (simp_all add: word_less_def)
  ultimately show "a = b"
    by (intro word_uint_eqI) simp
qed simp

lemma sn_off_rebase:
  assumes "sn_off base i \<le> sn_off base x"
  shows "sn_off i x = sn_off base x - sn_off base i"
  using sn.offset_diff_cases [of i x base] assms by (simp add: sn.offset_def)

lemma sn_off_mod: "uint i = k mod 4096 \<Longrightarrow> sn_off base i = (k - uint base) mod 4096"
  by (simp add: mod_diff_left_eq)

lemma sn_off_inc:
  assumes "sn_off base x < 4095"
  shows "sn_off base ((x + 1) AND 0xFFF) = sn_off base x + 1"
proof -
  have "sn_off base ((x + 1) AND 0xFFF) = (uint x + 1 - uint base) mod 4096"
    by (rule sn_off_mod) (simp add: sn_inc)
  also have "\<dots> = (sn_off base x + 1) mod 4096"
    by (simp add: mod_simps algebra_simps)
  also have "\<dots> = sn_off base x + 1"
    using assms by (intro mod_pos_pos_trivial) auto
  finally show ?thesis .
qed

fun gap_scan :: "int \<Rightarrow> int list \<Rightarrow> int" where
  "gap_scan e [] = e"
| "gap_scan e (x # xs) = (if x \<le> e then gap_scan (if x = e then e + 1 else e) xs else e)"

lemma gap_scan_ge: "e \<le> gap_scan e xs"
proof (induction xs arbitrary: e)
  case Nil
  then show ?case by simp
next
  case (Cons x xs)
  show ?case
    using Cons.IH [of "e + 1"] Cons.IH [of e] by simp
qed

lemma gap_scan_hole: "e \<le> h \<Longrightarrow> h \<notin> set xs \<Longrightarrow> gap_scan e xs \<le> h"
  by (induction xs arbitrary: e) auto

lemma gap_scan_members:
  "sorted_wrt (<) xs \<Longrightarrow> e \<le> x \<Longrightarrow> x < gap_scan e xs \<Longrightarrow> x \<in> set xs"
proof (induction xs arbitrary: e)
  case Nil
  then show ?case by simp
next
  case (Cons y ys)
  then show ?case
    using Cons.IH [of "e + 1"] Cons.IH [of e]
    by (cases "x = e") (auto split: if_splits)
qed

lemma gap_scan_not_in: "sorted_wrt (<) xs \<Longrightarrow> gap_scan e xs \<notin> set xs"
proof (induction xs arbitrary: e)
  case Nil
  then show ?case by simp
next
  case (Cons y ys)
  have "y < gap_scan (if y = e then e + 1 else e) ys" if "y \<le> e"
    using that gap_scan_ge [of "if y = e then e + 1 else e" ys] by (cases "y = e") simp_all
  moreover have "gap_scan (if y = e then e + 1 else e) ys \<notin> set ys"
    using Cons by simp
  moreover have "e \<notin> set (y # ys)" if "\<not> y \<le> e"
    using that Cons.prems by auto
  ultimately show ?case
    by (cases "y \<le> e") (auto split: if_splits)
qed

subsection \<open>The window invariant\<close>

text \<open>
  The waiting frames are ahead of \<open>ind_sn\<close> by 1 to 63 numbers, in increasing order; before
  the first frame (\<open>ind_sn\<close> is 0xFFFF) and after a flush nothing waits.
\<close>

definition pending_ok :: "u16 \<Rightarrow> recv_msdu list \<Rightarrow> bool" where
  "pending_ok ind fs \<longleftrightarrow>
     sorted_wrt (<) (map (\<lambda>f. sn_off ind (seq_num f)) fs) \<and>
     (\<forall>f\<in>set fs. seq_num f < 4096 \<and> 1 \<le> sn_off ind (seq_num f) \<and> sn_off ind (seq_num f) \<le> 63 \<and> pkt f \<noteq> None)"

definition ctrl_ok :: "reord_ctrl \<Rightarrow> bool" where
  "ctrl_ok c \<longleftrightarrow>
     wsize_b c = 64 \<and> (ind_sn c = 0xFFFF \<or> ind_sn c < 4096) \<and>
     (if enabled c \<and> ind_sn c \<noteq> 0xFFFF then pending_ok (ind_sn c) (reord_list c) else reord_list c = [])"

definition ctrl_live :: "reord_ctrl \<Rightarrow> bool" where
  "ctrl_live c \<longleftrightarrow> (reord_list c \<noteq> [] \<longrightarrow> reord_timer c \<or> reord_timer_work c)"

lemma init_ctrl_ok: "ctrl_ok init_ctrl" "ctrl_live init_ctrl"
  by (simp_all add: ctrl_ok_def ctrl_live_def init_ctrl_def AICWF_REORDER_WINSIZE_def)

definition win_base :: "reord_ctrl \<Rightarrow> u16 \<Rightarrow> u16" where
  "win_base c sn = (if ind_sn c = 0xFFFF then sn else ind_sn c)"

text \<open>The new start of the window as an offset from the old one.\<close>

definition win_shift :: "int \<Rightarrow> int" where
  "win_shift d = (if d = 0 then 1 else if 63 < d then d - 63 else 0)"

lemma win_base_less: "ctrl_ok c \<Longrightarrow> sn < 4096 \<Longrightarrow> win_base c sn < 4096"
  by (auto simp: win_base_def ctrl_ok_def)

lemma win_base_list:
  assumes "ctrl_ok c"
  shows "pending_ok (win_base c sn) (reord_list c)"
  using assms by (auto simp: win_base_def ctrl_ok_def pending_ok_def split: if_splits)

lemma need_check_late:
  assumes "ctrl_ok c" and "2048 \<le> sn_off (win_base c sn) sn"
  shows "reord_need_check c sn = (True, c)"
proof -
  have "ind_sn c \<noteq> 0xFFFF"
    using assms(2) by (auto simp: win_base_def)
  then show ?thesis
    using assms(2) by (simp add: win_base_def reord_need_check_def Let_def sn_less_base)
qed

lemma need_check_window:
  assumes "ctrl_ok c" and "sn < 4096" and "sn_off (win_base c sn) sn < 2048"
  shows "\<exists>ind. reord_need_check c sn = (False, c\<lparr>ind_sn := ind\<rparr>) \<and> ind < 4096 \<and>
    sn_off (win_base c sn) ind = win_shift (sn_off (win_base c sn) sn)"
proof -
  define b where "b = win_base c sn"
  define d where "d = sn_off b sn"
  have ws: "wsize_b c = 64" using assms(1) by (simp add: ctrl_ok_def)
  have b: "b < 4096" using win_base_less [OF assms(1,2)] by (simp add: b_def)
  have d: "0 \<le> d" "d < 2048" using assms(3) by (simp_all add: d_def b_def)
  have notlate: "\<not> SN_LESS sn b" using d by (simp add: sn_less_base d_def)
  have less4096: "uint i < 4096 \<Longrightarrow> i < 4096" for i :: u16 by (simp add: word_less_def)
  consider "d = 0" | "0 < d" "d \<le> 63" | "63 < d" using d by linarith
  then have "\<exists>ind. reord_need_check c sn = (False, c\<lparr>ind_sn := ind\<rparr>) \<and> ind < 4096 \<and>
    sn_off b ind = win_shift d"
  proof cases
    case 1
    then have eq: "sn = b"
      using sn_off_eq_iff [OF assms(2) b, of b] by (simp add: d_def)
    let ?ind = "(b + 1) AND 0xFFF"
    have "reord_need_check c sn = (False, c\<lparr>ind_sn := ?ind\<rparr>)"
    proof (cases "ind_sn c = 0xFFFF")
      case True
      then show ?thesis
        using sn.lt_irrefl [of sn] eq
        by (simp add: reord_need_check_def Let_def SN_EQUAL_def)
    next
      case False
      then have "ind_sn c = sn" using eq by (simp add: b_def win_base_def)
      then show ?thesis
        using sn.lt_irrefl [of sn] eq False
        by (simp add: reord_need_check_def Let_def SN_EQUAL_def)
    qed
    moreover have "?ind < 4096" by (rule less4096) (simp add: sn_inc)
    moreover have "sn_off b ?ind = win_shift d"
      using 1 by (simp add: sn_off_inc win_shift_def)
    ultimately show ?thesis by blast
  next
    case 2
    then have ne: "sn \<noteq> b" by (auto simp: d_def)
    then have ind: "ind_sn c \<noteq> 0xFFFF" "b = ind_sn c" by (auto simp: b_def win_base_def)
    have wend: "sn_off b ((b + ucast (64::u8) - 1) AND 0xFFF) = 63"
      by (simp only: sn_wend mod_diff_left_eq) simp
    have "\<not> SN_LESS ((b + ucast (64::u8) - 1) AND 0xFFF) sn"
      using 2 d wend by (subst sn_less_window [where base = b]) (simp_all add: d_def)
    then have "reord_need_check c sn = (False, c)"
      using notlate ne ind ws by (simp add: reord_need_check_def Let_def SN_EQUAL_def)
    then show ?thesis using 2 b ind by (intro exI [of _ b]) (simp add: win_shift_def)
  next
    case 3
    then have ne: "sn \<noteq> b" by (auto simp: d_def)
    then have ind: "ind_sn c \<noteq> 0xFFFF" "b = ind_sn c" by (auto simp: b_def win_base_def)
    have wend: "sn_off b ((b + ucast (64::u8) - 1) AND 0xFFF) = 63"
      by (simp only: sn_wend mod_diff_left_eq) simp
    have w: "SN_LESS ((b + ucast (64::u8) - 1) AND 0xFFF) sn"
      using 3 d wend by (subst sn_less_window [where base = b]) (simp_all add: d_def)
    let ?ind = "if int (unat (64 :: u8)) - 1 \<le> int (unat sn) then sn - (ucast (64 :: u8) - 1)
               else 0xFFF - (ucast (64 :: u8) - (sn + 1)) + 1"
    have "reord_need_check c sn = (False, c\<lparr>ind_sn := ?ind\<rparr>)"
      using notlate ne ind ws w unfolding reord_need_check_def Let_def SN_EQUAL_def
      by (simp only: ind(2) if_False if_True simp_thms not_False_eq_True)
    moreover have "?ind < 4096"
      by (rule less4096) (simp only: sn_window_start [OF assms(2)] pos_mod_bound)
    moreover have "sn_off b ?ind = win_shift d"
    proof -
      have "sn_off b ?ind = (uint sn - 63 - uint b) mod 4096"
        by (rule sn_off_mod [OF sn_window_start [OF assms(2)]])
      also have "\<dots> = (d - 63) mod 4096"
        by (simp add: d_def mod_simps algebra_simps)
      also have "\<dots> = d - 63" using 3 d by (intro mod_pos_pos_trivial) auto
      finally show ?thesis using 3 by (simp add: win_shift_def)
    qed
    ultimately show ?thesis by blast
  qed
  then show ?thesis by (simp add: b_def d_def)
qed

subsection \<open>The list operations on a window\<close>

abbreviation offs :: "u16 \<Rightarrow> recv_msdu list \<Rightarrow> int list" where
  "offs base fs \<equiv> map (\<lambda>f. sn_off base (seq_num f)) fs"

text \<open>All frames lie less than half the number space after the base, in strict order.\<close>

definition in_window :: "u16 \<Rightarrow> recv_msdu list \<Rightarrow> bool" where
  "in_window base fs \<longleftrightarrow>
     sorted_wrt (<) (offs base fs) \<and> (\<forall>f\<in>set fs. seq_num f < 4096 \<and> sn_off base (seq_num f) < 2048)"

lemma in_window_simps [simp]:
  "in_window base []"
  "in_window base (f # fs) \<longleftrightarrow>
     seq_num f < 4096 \<and> sn_off base (seq_num f) < 2048 \<and>
     (\<forall>g\<in>set fs. sn_off base (seq_num f) < sn_off base (seq_num g)) \<and> in_window base fs"
  by (auto simp: in_window_def)

lemma pending_in_window: "pending_ok base fs \<Longrightarrow> in_window base fs"
  by (auto simp: pending_ok_def in_window_def)

lemma reord_insert_duplicate:
  assumes "in_window base fs" and "seq_num f < 4096" and "sn_off base (seq_num f) < 2048"
    and "\<exists>g\<in>set fs. seq_num g = seq_num f"
  shows "reord_insert f fs = None"
  using assms
proof (induction fs)
  case Nil
  then show ?case by simp
next
  case (Cons g gs)
  show ?case
  proof (cases "seq_num g = seq_num f")
    case True
    then show ?thesis
      using sn.lt_irrefl [of "seq_num f"] by (simp add: SN_EQUAL_def)
  next
    case False
    then have dup: "\<exists>h\<in>set gs. seq_num h = seq_num f" using Cons.prems by auto
    then have "SN_LESS (seq_num g) (seq_num f)"
      using Cons.prems by (subst sn_less_window [where base = base]) auto
    then show ?thesis
      using Cons dup by simp
  qed
qed

lemma reord_insert_new:
  assumes "in_window base fs" and "seq_num f < 4096" and "sn_off base (seq_num f) < 2048"
    and "\<forall>g\<in>set fs. seq_num g \<noteq> seq_num f"
  shows "\<exists>l. reord_insert f fs = Some l \<and> mset l = add_mset f (mset fs) \<and> in_window base l"
  using assms
proof (induction fs)
  case Nil
  then show ?case by simp
next
  case (Cons g gs)
  have less: "SN_LESS (seq_num g) (seq_num f) \<longleftrightarrow> sn_off base (seq_num g) < sn_off base (seq_num f)"
    using Cons.prems by (intro sn_less_window) simp_all
  have ne: "sn_off base (seq_num g) \<noteq> sn_off base (seq_num f)"
    using Cons.prems by (simp add: sn_off_eq_iff)
  show ?case
  proof (cases "SN_LESS (seq_num g) (seq_num f)")
    case True
    obtain l where l: "reord_insert f gs = Some l" "mset l = add_mset f (mset gs)" "in_window base l"
      using Cons by auto
    have "set l = insert f (set gs)"
      using l(2) by (metis set_mset_add_mset_insert set_mset_mset)
    then show ?thesis
      using True l Cons.prems less by auto
  next
    case False
    then have "sn_off base (seq_num f) < sn_off base (seq_num g)" using less ne by simp
    then show ?thesis
      using False Cons.prems by (auto simp: SN_EQUAL_def intro: less_trans)
  qed
qed

lemma process_loop_scan:
  assumes "in_window base fs" and "ind < 4096" and "sn_off base ind \<le> h" and "h < 2048"
    and "h \<notin> set (offs base fs)"
  shows "\<exists>ind'. process_loop ind fs = (\<exists>f\<in>set fs. gap_scan (sn_off base ind) (offs base fs) < sn_off base (seq_num f), ind') \<and>
    ind' < 4096 \<and> sn_off base ind' = gap_scan (sn_off base ind) (offs base fs)"
  using assms
proof (induction fs arbitrary: ind)
  case Nil
  then show ?case by simp
next
  case (Cons f fs)
  let ?x = "sn_off base (seq_num f)" and ?e = "sn_off base ind"
  have less: "SN_LESS ind (seq_num f) \<longleftrightarrow> ?e < ?x"
    using Cons.prems by (intro sn_less_window) auto
  show ?case
  proof (cases "?e < ?x")
    case True
    then show ?thesis
      using less Cons.prems by auto
  next
    case False
    define ind1 where "ind1 = (if SN_EQUAL ind (seq_num f) then (ind + 1) AND 0xFFF else ind)"
    have eq: "SN_EQUAL ind (seq_num f) \<longleftrightarrow> ?x = ?e"
      using Cons.prems sn_off_eq_iff [of ind "seq_num f" base] by (auto simp: SN_EQUAL_def)
    have ind1: "sn_off base ind1 = (if ?x = ?e then ?e + 1 else ?e)"
      using Cons.prems eq by (auto simp: ind1_def sn_off_inc)
    have ind1_less: "ind1 < 4096"
      using Cons.prems(2) by (auto simp: ind1_def word_less_def sn_inc)
    have h: "sn_off base ind1 \<le> h"
      using Cons.prems(3,5) ind1 by (cases "?x = ?e") auto
    obtain ind' where IH:
      "process_loop ind1 fs = (\<exists>g\<in>set fs. gap_scan (sn_off base ind1) (offs base fs) < sn_off base (seq_num g), ind')"
      "ind' < 4096" "sn_off base ind' = gap_scan (sn_off base ind1) (offs base fs)"
      using Cons.IH [OF _ ind1_less h] Cons.prems by auto
    have gap: "gap_scan ?e (offs base (f # fs)) = gap_scan (sn_off base ind1) (offs base fs)"
      using False ind1 by simp
    have "\<not> gap_scan (sn_off base ind1) (offs base fs) < ?x"
      using gap_scan_ge [of "sn_off base ind1" "offs base fs"] False ind1 by (cases "?x = ?e") auto
    moreover have "process_loop ind (f # fs) = process_loop ind1 fs"
      using less False by (simp add: ind1_def)
    ultimately show ?thesis
      unfolding gap using IH by auto
  qed
qed

lemma ind_loop_split:
  "ind_loop ind fs rx =
     map_option (Pair (dropWhile (\<lambda>f. \<not> SN_LESS ind (seq_num f)) fs))
       (flush_loop (takeWhile (\<lambda>f. \<not> SN_LESS ind (seq_num f)) fs) rx)"
  by (induction fs arbitrary: rx) (auto split: option.split)

lemma sorted_window_split:
  assumes "in_window base fs" and "sn_off base ind < 2048"
  shows "takeWhile (\<lambda>f. \<not> SN_LESS ind (seq_num f)) fs = filter (\<lambda>f. sn_off base (seq_num f) \<le> sn_off base ind) fs \<and>
    dropWhile (\<lambda>f. \<not> SN_LESS ind (seq_num f)) fs = filter (\<lambda>f. sn_off base ind < sn_off base (seq_num f)) fs"
  using assms
proof (induction fs)
  case Nil
  then show ?case by simp
next
  case (Cons f fs)
  have less: "SN_LESS ind (seq_num f) \<longleftrightarrow> sn_off base ind < sn_off base (seq_num f)"
    using Cons.prems by (intro sn_less_window) auto
  have rest: "filter (\<lambda>f. sn_off base (seq_num f) \<le> sn_off base ind) fs = []"
    "filter (\<lambda>f. sn_off base ind < sn_off base (seq_num f)) fs = fs"
    if "sn_off base ind < sn_off base (seq_num f)"
    using Cons.prems that by (fastforce simp: filter_empty_conv filter_id_conv)+
  show ?case
    using Cons less rest by (cases "sn_off base ind < sn_off base (seq_num f)") auto
qed

subsection \<open>What one frame does to its list\<close>

lemma offs_filter_rebase:
  assumes "in_window base l" and "sn_off base ind = e"
  shows "offs ind (filter (\<lambda>f. e < sn_off base (seq_num f)) l) =
    map (\<lambda>x. x - e) (filter (\<lambda>x. e < x) (offs base l))"
  using sn_off_rebase [where base = base and i = ind] assms(2) by (induction l) auto

lemma pending_after:
  assumes "in_window base l" and "ind < 4096" and "sn_off base ind = e"
    and "\<forall>f\<in>set l. sn_off base (seq_num f) - e \<le> 63 \<and> pkt f \<noteq> None"
  shows "pending_ok ind (filter (\<lambda>f. e < sn_off base (seq_num f)) l)"
proof -
  have "sorted_wrt (<) (filter (\<lambda>x. e < x) (offs base l))"
    using assms(1) by (intro sorted_wrt_filter) (simp add: in_window_def)
  then have "sorted_wrt (<) (offs ind (filter (\<lambda>f. e < sn_off base (seq_num f)) l))"
    unfolding offs_filter_rebase [OF assms(1,3)] by (simp add: sorted_wrt_map)
  moreover have "seq_num f < 4096 \<and> 1 \<le> sn_off ind (seq_num f) \<and> sn_off ind (seq_num f) \<le> 63 \<and> pkt f \<noteq> None"
    if "f \<in> set l" "e < sn_off base (seq_num f)" for f
    using that assms sn_off_rebase [where base = base and i = ind and x = "seq_num f"] by (auto simp: in_window_def)
  ultimately show ?thesis
    by (auto simp: pending_ok_def)
qed

lemma window_hole:
  assumes "0 \<le> d" and "d < 2048" and "\<forall>x\<in>set xs. x = d \<or> x \<le> 63"
  shows "\<exists>h. win_shift d \<le> h \<and> h < 2048 \<and> h \<notin> set xs"
proof -
  consider "d \<le> 63" | "63 < d" "d < 2047" | "d = 2047" using assms(2) by linarith
  then show ?thesis
  proof cases
    case 1
    then have "64 \<notin> set xs" using assms(3) by fastforce
    then show ?thesis using 1 by (intro exI [of _ 64]) (simp add: win_shift_def)
  next
    case 2
    then have "d + 1 \<notin> set xs" using assms(3) by fastforce
    then show ?thesis using 2 by (intro exI [of _ "d + 1"]) (simp add: win_shift_def)
  next
    case 3
    then have "1984 \<notin> set xs" using assms(3) by fastforce
    then show ?thesis using 3 by (intro exI [of _ 1984]) (simp add: win_shift_def)
  qed
qed

definition released :: "u16 \<Rightarrow> int \<Rightarrow> recv_msdu list \<Rightarrow> recv_msdu list" where
  "released base e l = filter (\<lambda>f. sn_off base (seq_num f) \<le> e) l"

definition kept :: "u16 \<Rightarrow> int \<Rightarrow> recv_msdu list \<Rightarrow> recv_msdu list" where
  "kept base e l = filter (\<lambda>f. e < sn_off base (seq_num f)) l"

lemma process_and_ind:
  assumes "in_window base l" and "ind_sn c < 4096" and "sn_off base (ind_sn c) \<le> h" and "h < 2048"
    and "h \<notin> set (offs base l)" and "reord_list c = l"
  shows "\<exists>ind. ind < 4096 \<and> sn_off base ind = gap_scan (sn_off base (ind_sn c)) (offs base l) \<and>
    reord_rxframes_process False c = (kept base (sn_off base ind) l \<noteq> [], c\<lparr>ind_sn := ind\<rparr>) \<and>
    ind_loop ind l rx = map_option (Pair (kept base (sn_off base ind) l)) (flush_loop (released base (sn_off base ind) l) rx)"
proof -
  obtain ind where p:
    "process_loop (ind_sn c) l =
       (\<exists>f\<in>set l. gap_scan (sn_off base (ind_sn c)) (offs base l) < sn_off base (seq_num f), ind)"
    "ind < 4096" "sn_off base ind = gap_scan (sn_off base (ind_sn c)) (offs base l)"
    using process_loop_scan [OF assms(1-5)] by blast
  have "gap_scan (sn_off base (ind_sn c)) (offs base l) \<le> h"
    by (rule gap_scan_hole [OF assms(3,5)])
  then have lt: "sn_off base ind < 2048" using p(3) assms(4) by simp
  have buf: "(\<exists>f\<in>set l. gap_scan (sn_off base (ind_sn c)) (offs base l) < sn_off base (seq_num f)) =
      (kept base (sn_off base ind) l \<noteq> [])"
    unfolding kept_def p(3) filter_empty_conv by blast
  have "reord_rxframes_process False c = (kept base (sn_off base ind) l \<noteq> [], c\<lparr>ind_sn := ind\<rparr>)"
  proof (cases "l = []")
    case True
    then show ?thesis using p(1) buf assms(6) by (simp add: reord_rxframes_process_def kept_def)
  next
    case False
    then show ?thesis
      using p(1) assms(6) unfolding buf by (simp add: reord_rxframes_process_def)
  qed
  then show ?thesis
    using p ind_loop_split [of ind l rx] sorted_window_split [OF assms(1) lt]
    by (auto simp: kept_def released_def)
qed

lemma reord_unit_in_window:
  assumes "ctrl_ok c" and "enabled c" and "seq_num f < 4096" and "pkt f \<noteq> None"
    and base: "base = win_base c (seq_num f)" and d: "d = sn_off base (seq_num f)" "d < 2048"
    and new: "\<forall>g\<in>set (reord_list c). seq_num g \<noteq> seq_num f"
  shows "\<exists>l ind. mset l = add_mset f (mset (reord_list c)) \<and> in_window base l \<and> ind < 4096 \<and>
    sn_off base ind = gap_scan (win_shift d) (offs base l) \<and>
    (let c' = c\<lparr>ind_sn := ind, reord_timer := (kept base (sn_off base ind) l \<noteq> []),
                reord_list := kept base (sn_off base ind) l\<rparr>
     in ctrl_ok c' \<and>
        reord_unit f skb c rx = map_option (Pair c') (flush_loop (released base (sn_off base ind) l) rx))"
proof -
  have pend: "pending_ok base (reord_list c)"
    using win_base_list [OF assms(1)] base by simp
  have dge: "0 \<le> d" by (simp add: d)
  obtain i1 where n: "reord_need_check c (seq_num f) = (False, c\<lparr>ind_sn := i1\<rparr>)" "i1 < 4096"
      "sn_off base i1 = win_shift d"
    using need_check_window [OF assms(1,3)] d base by auto
  obtain l where l: "reord_insert f (reord_list c) = Some l" "mset l = add_mset f (mset (reord_list c))"
      "in_window base l"
    using reord_insert_new [OF pending_in_window [OF pend] assms(3)] d new by auto
  have set: "set l = insert f (set (reord_list c))"
    using l(2) by (metis set_mset_add_mset_insert set_mset_mset)
  have bound: "\<forall>x\<in>set (offs base l). x = d \<or> x \<le> 63"
    using pend set d by (auto simp: pending_ok_def)
  obtain h where h: "win_shift d \<le> h" "h < 2048" "h \<notin> set (offs base l)"
    using window_hole [OF dge d(2) bound] by blast
  let ?c2 = "c\<lparr>ind_sn := i1, reord_list := l\<rparr>"
  obtain ind where p: "ind < 4096" "sn_off base ind = gap_scan (win_shift d) (offs base l)"
    "reord_rxframes_process False ?c2 = (kept base (sn_off base ind) l \<noteq> [], ?c2\<lparr>ind_sn := ind\<rparr>)"
    "ind_loop ind l rx = map_option (Pair (kept base (sn_off base ind) l)) (flush_loop (released base (sn_off base ind) l) rx)"
    using process_and_ind [of base l ?c2 h rx] l(3) n(2,3) h by auto
  let ?c' = "c\<lparr>ind_sn := ind, reord_timer := (kept base (sn_off base ind) l \<noteq> []),
                reord_list := kept base (sn_off base ind) l\<rparr>"
  have run: "reord_unit f skb c rx = map_option (Pair ?c') (flush_loop (released base (sn_off base ind) l) rx)"
    using assms(2) n(1) l(1) p(3,4)
    by (simp add: reord_unit_def reord_rxframe_enqueue_def reord_rxframes_ind_def option.map_comp comp_def)
  have "win_shift d \<le> sn_off base ind"
    using gap_scan_ge p(2) by simp
  then have "\<forall>g\<in>set l. sn_off base (seq_num g) - sn_off base ind \<le> 63 \<and> pkt g \<noteq> None"
    using bound set pend assms(4) dge by (auto simp: win_shift_def pending_ok_def split: if_splits)
  then have "pending_ok ind (kept base (sn_off base ind) l)"
    unfolding kept_def by (intro pending_after [OF l(3) p(1)]) simp_all
  moreover have "ind \<noteq> 0xFFFF"
    using p(1) by auto
  ultimately have "ctrl_ok ?c'"
    using assms(1,2) p(1) by (simp add: ctrl_ok_def)
  then show ?thesis
    using l(2,3) p(1,2) run unfolding Let_def by (intro exI [of _ l] exI [of _ ind] conjI) simp_all
qed

lemma reord_unit_duplicate:
  assumes "ctrl_ok c" and "enabled c" and "seq_num f < 4096"
    and "\<exists>g\<in>set (reord_list c). seq_num g = seq_num f"
  shows "reord_unit f skb c rx = Some (c, drop_frame f rx)"
proof -
  let ?b = "win_base c (seq_num f)"
  have pend: "pending_ok ?b (reord_list c)"
    by (rule win_base_list [OF assms(1)])
  then have d: "1 \<le> sn_off ?b (seq_num f)" "sn_off ?b (seq_num f) \<le> 63"
    using assms(4) by (auto simp: pending_ok_def)
  then have b: "?b = ind_sn c" by (auto simp: win_base_def)
  obtain i1 where n: "reord_need_check c (seq_num f) = (False, c\<lparr>ind_sn := i1\<rparr>)" "i1 < 4096"
      "sn_off ?b i1 = win_shift (sn_off ?b (seq_num f))"
    using need_check_window [OF assms(1,3)] d by auto
  then have "sn_off ?b i1 = sn_off ?b ?b" using d by (simp add: win_shift_def)
  then have "i1 = ind_sn c"
    using sn_off_eq_iff [OF n(2) win_base_less [OF assms(1,3)], of ?b] b by simp
  moreover have "reord_insert f (reord_list c) = None"
    using d assms(3,4) by (intro reord_insert_duplicate [OF pending_in_window [OF pend]]) auto
  ultimately show ?thesis
    using n(1) assms(2) by (simp add: reord_unit_def reord_rxframe_enqueue_def)
qed

lemma reord_unit_late:
  assumes "ctrl_ok c" and "enabled c" and "2048 \<le> sn_off (win_base c (seq_num f)) (seq_num f)"
  shows "reord_unit f skb c rx = map_option (Pair c) (late_frame f c skb rx)"
  using need_check_late [OF assms(1,3)] assms(2) by (simp add: reord_unit_def)

subsection \<open>Delivery leaves the lists alone and returns the control block\<close>

definition same_env :: "aicwf_rx_priv \<Rightarrow> aicwf_rx_priv \<Rightarrow> bool" where
  "same_env rx rx' \<longleftrightarrow>
     stas_reord_list rx' = stas_reord_list rx \<and> wdev_iftype rx' = wdev_iftype rx \<and>
     vif_active rx' = vif_active rx \<and> bus_up rx' = bus_up rx"

lemma same_env_refl [simp]: "same_env rx rx"
  by (simp add: same_env_def)

lemma same_env_trans: "same_env a b \<Longrightarrow> same_env b c \<Longrightarrow> same_env a c"
  by (simp add: same_env_def)

lemma fold_kfree:
  "same_env rx (fold dev_kfree_skb skbs rx) \<and>
   rxframes_freequeue (fold dev_kfree_skb skbs rx) = rxframes_freequeue rx \<and>
   netif (fold dev_kfree_skb skbs rx) = netif rx \<and> freed (fold dev_kfree_skb skbs rx) = freed rx @ skbs"
proof (induction skbs arbitrary: rx)
  case (Cons s skbs)
  then show ?case
    using Cons.IH [of "dev_kfree_skb s rx"] by (simp add: same_env_def dev_kfree_skb_def)
qed simp

lemma fold_deliver:
  "same_env rx (fold netif_deliver skbs rx) \<and>
   rxframes_freequeue (fold netif_deliver skbs rx) = rxframes_freequeue rx \<and>
   netif (fold netif_deliver skbs rx) = netif rx @ map eth_type_trans skbs \<and>
   freed (fold netif_deliver skbs rx) = freed rx"
proof (induction skbs arbitrary: rx)
  case (Cons s skbs)
  then show ?case
    using Cons.IH [of "netif_deliver s rx"] by (simp add: same_env_def netif_deliver_def Let_def)
qed simp

lemma deliver_list_env:
  "deliver_list f skb rx = Some (skbs, rx') \<Longrightarrow>
   same_env rx rx' \<and> rxframes_freequeue rx' = rxframes_freequeue rx"
  by (auto simp: deliver_list_def same_env_def dev_kfree_skb_def split: if_splits option.splits sum.splits)

lemma single_frame_env:
  assumes "reord_single_frame_ind f rx = Some (r, rx')"
  shows "same_env rx rx' \<and>
    (pkt f \<noteq> None \<longrightarrow> rxframes_freequeue rx' = f\<lparr>pkt := None\<rparr> # rxframes_freequeue rx)"
proof (cases "pkt f")
  case None
  then show ?thesis using assms by (simp add: reord_single_frame_ind_def)
next
  case (Some skb)
  define rx1 where "rx1 = (if is_ap_reord f \<and> ap_resend_cnt f \<noteq> 0 then fold dev_kfree_skb (ap_resend f) rx else rx)"
  have rx1: "same_env rx rx1" "rxframes_freequeue rx1 = rxframes_freequeue rx"
    using fold_kfree [of rx "ap_resend f"] by (simp_all add: rx1_def)
  consider
      "rx' = reord_rxframe_free (f\<lparr>pkt := None\<rparr>) rx1"
    | "rx' = reord_rxframe_free (f\<lparr>pkt := None\<rparr>) (dev_kfree_skb skb rx1)"
    | skbs rx2 where "deliver_list f skb rx1 = Some (skbs, rx2)"
        "rx' = reord_rxframe_free (f\<lparr>pkt := None\<rparr>) (fold netif_deliver skbs rx2)"
    using assms Some unfolding reord_single_frame_ind_def rx1_def [symmetric]
    by (auto simp: Let_def rx1_def split: if_splits option.splits)
  then show ?thesis
  proof cases
    case 1
    then show ?thesis using rx1 by (simp add: reord_rxframe_free_def same_env_def)
  next
    case 2
    then show ?thesis using rx1 by (simp add: reord_rxframe_free_def same_env_def dev_kfree_skb_def)
  next
    case (3 skbs rx2)
    then show ?thesis
      using rx1 deliver_list_env [OF 3(1)] fold_deliver [of rx2 skbs]
      by (simp add: reord_rxframe_free_def same_env_def)
  qed
qed

definition pool_fids :: "aicwf_rx_priv \<Rightarrow> nat multiset" where
  "pool_fids rx = mset (map fid (rxframes_freequeue rx))"

definition list_fids :: "recv_msdu list \<Rightarrow> nat multiset" where
  "list_fids fs = mset (map fid fs)"

lemma single_frame_pool:
  assumes "reord_single_frame_ind f rx = Some (r, rx')" and "pkt f \<noteq> None"
  shows "same_env rx rx' \<and> pool_fids rx' = add_mset (fid f) (pool_fids rx)"
  using single_frame_env [OF assms(1)] assms(2) by (simp add: pool_fids_def)

lemma flush_loop_pool:
  assumes "flush_loop fs rx = Some rx'" and "\<forall>f\<in>set fs. pkt f \<noteq> None"
  shows "same_env rx rx' \<and> pool_fids rx' = pool_fids rx + list_fids fs"
  using assms
proof (induction fs arbitrary: rx)
  case Nil
  then show ?case by (simp add: list_fids_def)
next
  case (Cons f fs)
  obtain r rx1 where s: "reord_single_frame_ind f rx = Some (r, rx1)" "flush_loop fs rx1 = Some rx'"
    using Cons.prems(1) by (auto split: option.splits)
  then show ?case
    using single_frame_pool [OF s(1)] Cons.IH [OF s(2)] Cons.prems(2)
    by (auto simp: list_fids_def intro: same_env_trans)
qed

lemma drop_frame_pool:
  "same_env rx (drop_frame f rx) \<and> pool_fids (drop_frame f rx) = add_mset (fid f) (pool_fids rx)"
  by (simp add: drop_frame_def reord_rxframe_free_def dev_kfree_skb_def same_env_def pool_fids_def split: option.split)

lemma late_frame_pool:
  assumes "late_frame f c skb rx = Some rx'" and "pkt f \<noteq> None"
  shows "same_env rx rx' \<and> pool_fids rx' = add_mset (fid f) (pool_fids rx)"
  using assms drop_frame_pool [of rx f] single_frame_pool [of f rx]
  by (auto simp: late_frame_def split: if_splits)

lemma released_kept_mset: "mset (released b e l) + mset (kept b e l) = mset l"
  using multiset_partition [of "mset l" "\<lambda>f. sn_off b (seq_num f) \<le> e"]
  by (simp add: released_def kept_def not_le)

lemma reord_unit_inv:
  assumes "ctrl_ok c" and "enabled c" and "seq_num f < 4096" and "pkt f \<noteq> None"
    and "reord_unit f skb c rx = Some (c', rx')"
  shows "ctrl_ok c' \<and> same_env rx rx' \<and> (ctrl_live c \<longrightarrow> ctrl_live c') \<and>
    pool_fids rx' + list_fids (reord_list c') = add_mset (fid f) (pool_fids rx + list_fids (reord_list c))"
proof -
  define b where "b = win_base c (seq_num f)"
  define d where "d = sn_off b (seq_num f)"
  consider "2048 \<le> d" | "d < 2048" "\<exists>g\<in>set (reord_list c). seq_num g = seq_num f"
    | "d < 2048" "\<forall>g\<in>set (reord_list c). seq_num g \<noteq> seq_num f" by fastforce
  then show ?thesis
  proof cases
    case 1
    then have "reord_unit f skb c rx = map_option (Pair c) (late_frame f c skb rx)"
      using reord_unit_late [OF assms(1,2)] by (simp add: b_def d_def)
    then have "late_frame f c skb rx = Some rx'" "c' = c"
      using assms(5) by (cases "late_frame f c skb rx"; simp)+
    then show ?thesis
      using assms(1,4) late_frame_pool [of f c skb rx] by simp
  next
    case 2
    then show ?thesis
      using reord_unit_duplicate [OF assms(1-3)] assms(1,5) drop_frame_pool [of rx f] by auto
  next
    case 3
    obtain l ind where u: "mset l = add_mset f (mset (reord_list c))"
      "ctrl_ok (c\<lparr>ind_sn := ind, reord_timer := (kept b (sn_off b ind) l \<noteq> []),
                reord_list := kept b (sn_off b ind) l\<rparr>)"
      "reord_unit f skb c rx = map_option (Pair (c\<lparr>ind_sn := ind, reord_timer := (kept b (sn_off b ind) l \<noteq> []),
                reord_list := kept b (sn_off b ind) l\<rparr>)) (flush_loop (released b (sn_off b ind) l) rx)"
      using reord_unit_in_window [OF assms(1-4) b_def d_def 3(1,2)] unfolding Let_def by blast
    have res: "flush_loop (released b (sn_off b ind) l) rx = Some rx'"
      "c' = c\<lparr>ind_sn := ind, reord_timer := (kept b (sn_off b ind) l \<noteq> []), reord_list := kept b (sn_off b ind) l\<rparr>"
      using assms(5) u(3) by (cases "flush_loop (released b (sn_off b ind) l) rx"; simp)+
    have "\<forall>g\<in>set (reord_list c). pkt g \<noteq> None"
      using win_base_list [OF assms(1)] by (auto simp: pending_ok_def)
    moreover have "set l = insert f (set (reord_list c))"
      using u(1) by (metis set_mset_add_mset_insert set_mset_mset)
    ultimately have "\<forall>g\<in>set (released b (sn_off b ind) l). pkt g \<noteq> None"
      using assms(4) by (auto simp: released_def)
    from flush_loop_pool [OF res(1) this]
    have p: "same_env rx rx'" "pool_fids rx' = pool_fids rx + list_fids (released b (sn_off b ind) l)" by auto
    have "list_fids (released b (sn_off b ind) l) + list_fids (kept b (sn_off b ind) l) = image_mset fid (mset l)"
      unfolding list_fids_def mset_map released_kept_mset [of b "sn_off b ind" l, symmetric] by simp
    then have "pool_fids rx' + list_fids (reord_list c') = pool_fids rx + image_mset fid (mset l)"
      unfolding p(2) res(2) by (simp add: add.assoc)
    then show ?thesis
      using u(2) p(1) unfolding res(2) by (auto simp: ctrl_live_def u(1) list_fids_def)
  qed
qed

subsection \<open>All stations\<close>

definition all_ctrls :: "aicwf_rx_priv \<Rightarrow> reord_ctrl list" where
  "all_ctrls rx = concat (map preorder_ctrl (stas_reord_list rx))"

definition sta_frames :: "reord_ctrl_info \<Rightarrow> recv_msdu list" where
  "sta_frames s = concat (map reord_list (preorder_ctrl s))"

definition held_fids :: "aicwf_rx_priv \<Rightarrow> nat multiset" where
  "held_fids rx = list_fids (concat (map sta_frames (stas_reord_list rx)))"

definition sta_ok :: "bool \<Rightarrow> reord_ctrl_info \<Rightarrow> bool" where
  "sta_ok up s \<longleftrightarrow>
     length (preorder_ctrl s) = 8 \<and>
     (\<forall>c\<in>set (preorder_ctrl s). ctrl_ok c \<and> (up \<longrightarrow> ctrl_live c))"

definition rx_ok :: "bool \<Rightarrow> aicwf_rx_priv \<Rightarrow> bool" where
  "rx_ok up rx \<longleftrightarrow> (\<forall>s\<in>set (stas_reord_list rx). sta_ok up s)"

lemma rx_ok_ctrl:
  assumes "rx_ok up rx" and "i < length (stas_reord_list rx)" and "t < 8"
  shows "ctrl_ok (get_ctrl i t rx)" and "up \<Longrightarrow> ctrl_live (get_ctrl i t rx)"
proof -
  have s: "sta_ok up (stas_reord_list rx ! i)"
    using assms(1,2) by (simp add: rx_ok_def)
  then have "get_ctrl i t rx \<in> set (preorder_ctrl (stas_reord_list rx ! i))"
    using assms(3) by (simp add: sta_ok_def get_ctrl_def)
  then show "ctrl_ok (get_ctrl i t rx)" and "up \<Longrightarrow> ctrl_live (get_ctrl i t rx)"
    using s by (simp_all add: sta_ok_def)
qed

lemma set_ctrl_simps [simp]:
  "wdev_iftype (set_ctrl i t c rx) = wdev_iftype rx" "bus_up (set_ctrl i t c rx) = bus_up rx"
  "pool_fids (set_ctrl i t c rx) = pool_fids rx"
  "length (stas_reord_list (set_ctrl i t c rx)) = length (stas_reord_list rx)"
  by (simp_all add: set_ctrl_def Let_def pool_fids_def)

lemma get_set_ctrl:
  assumes "rx_ok up rx" and "i < length (stas_reord_list rx)" and "t < 8"
  shows "get_ctrl i t (set_ctrl i t c rx) = c"
  using assms by (simp add: get_ctrl_def set_ctrl_def Let_def rx_ok_def sta_ok_def)

lemma set_ctrl_ok:
  assumes "rx_ok up rx" and "i < length (stas_reord_list rx)"
    and "ctrl_ok c" and "up \<Longrightarrow> ctrl_live c"
  shows "rx_ok up (set_ctrl i t c rx)"
proof -
  let ?s = "stas_reord_list rx ! i"
  have s: "sta_ok up ?s" using assms(1,2) by (simp add: rx_ok_def)
  have "sta_ok up (?s\<lparr>preorder_ctrl := (preorder_ctrl ?s)[t := c]\<rparr>)"
    using s assms(3,4) by (auto simp: sta_ok_def dest!: set_update_subset_insert [THEN subsetD])
  then show ?thesis
    using assms(1) by (auto simp: rx_ok_def set_ctrl_def Let_def dest!: set_update_subset_insert [THEN subsetD])
qed

lemma list_fids_simps [simp]:
  "list_fids [] = {#}" "list_fids (f # fs) = add_mset (fid f) (list_fids fs)"
  "list_fids (fs @ gs) = list_fids fs + list_fids gs"
  by (simp_all add: list_fids_def)

lemma list_fids_concat_update:
  "i < length xss \<Longrightarrow>
   list_fids (concat (xss[i := ys])) + list_fids (xss ! i) = list_fids (concat xss) + list_fids ys"
  unfolding list_fids_def mset_map using mset_concat_update [of i xss ys]
  by (metis image_mset_union)

lemma msets_exchange:
  fixes a b c d x y :: "'a multiset"
  assumes "a + x = b + y" and "y + c = x + d"
  shows "a + c = b + d"
proof -
  have "a + c + x = b + (y + c)"
    using assms(1) by (metis add.assoc add.commute)
  then have "a + c + x = b + d + x"
    unfolding assms(2) by (simp add: ac_simps)
  then show ?thesis by simp
qed

lemma held_set_ctrl:
  assumes "rx_ok up rx" and "i < length (stas_reord_list rx)" and "t < 8"
  shows "held_fids (set_ctrl i t c rx) + list_fids (reord_list (get_ctrl i t rx)) =
    held_fids rx + list_fids (reord_list c)"
proof -
  let ?s = "stas_reord_list rx ! i"
  let ?s' = "?s\<lparr>preorder_ctrl := (preorder_ctrl ?s)[t := c]\<rparr>"
  have len: "t < length (preorder_ctrl ?s)"
    using assms by (simp add: rx_ok_def sta_ok_def)
  have a: "held_fids (set_ctrl i t c rx) + list_fids (sta_frames ?s) = held_fids rx + list_fids (sta_frames ?s')"
    using list_fids_concat_update [of i "map sta_frames (stas_reord_list rx)" "sta_frames ?s'"] assms(2)
    by (simp add: held_fids_def set_ctrl_def Let_def map_update)
  have b: "list_fids (sta_frames ?s') + list_fids (reord_list (preorder_ctrl ?s ! t)) =
      list_fids (sta_frames ?s) + list_fids (reord_list c)"
    using list_fids_concat_update [of t "map reord_list (preorder_ctrl ?s)" "reord_list c"] len
    by (simp add: sta_frames_def map_update)
  show ?thesis
    using msets_exchange [OF a b] by (simp add: get_ctrl_def)
qed

lemma same_env_ok: "same_env rx rx' \<Longrightarrow> rx_ok up rx' = rx_ok up rx"
  by (simp add: same_env_def rx_ok_def)

lemma same_env_held: "same_env rx rx' \<Longrightarrow> held_fids rx' = held_fids rx"
  by (simp add: same_env_def held_fids_def)

lemma same_env_ctrl: "same_env rx rx' \<Longrightarrow> get_ctrl i t rx' = get_ctrl i t rx"
  by (simp add: same_env_def get_ctrl_def)

subsection \<open>Every operation keeps the invariant and the control blocks\<close>

definition all_fids :: "aicwf_rx_priv \<Rightarrow> nat multiset" where
  "all_fids rx = pool_fids rx + held_fids rx"

lemma same_env_bus: "same_env rx rx' \<Longrightarrow> bus_up rx' = bus_up rx \<and> wdev_iftype rx' = wdev_iftype rx \<and>
    length (stas_reord_list rx') = length (stas_reord_list rx)"
  by (simp add: same_env_def)

text \<open>Storing the result of an operation on one list.\<close>

lemma store_ctrl:
  assumes "rx_ok up rx" and "i < length (stas_reord_list rx)" and "t < 8"
    and "same_env rx rx1" and "ctrl_ok c" and "up \<Longrightarrow> ctrl_live c"
    and "pool_fids rx1 + list_fids (reord_list c) = pool_fids rx + list_fids (reord_list (get_ctrl i t rx)) + x"
  shows "rx_ok up (set_ctrl i t c rx1) \<and> all_fids (set_ctrl i t c rx1) = all_fids rx + x \<and>
    bus_up (set_ctrl i t c rx1) = bus_up rx \<and> wdev_iftype (set_ctrl i t c rx1) = wdev_iftype rx"
proof -
  have ok1: "rx_ok up rx1" and len1: "i < length (stas_reord_list rx1)" and bus: "bus_up rx1 = bus_up rx"
    "wdev_iftype rx1 = wdev_iftype rx"
    using assms(1,2) same_env_ok [OF assms(4)] same_env_bus [OF assms(4)] by simp_all
  have h: "held_fids (set_ctrl i t c rx1) + list_fids (reord_list (get_ctrl i t rx)) =
      held_fids rx + list_fids (reord_list c)"
    using held_set_ctrl [OF ok1 len1 assms(3), of c] same_env_held [OF assms(4)] same_env_ctrl [OF assms(4)]
    by simp
  have "held_fids (set_ctrl i t c rx1) + pool_fids rx1 = held_fids rx + (pool_fids rx + x)"
    using assms(7) by (intro msets_exchange [OF h]) (simp add: ac_simps)
  then have "all_fids (set_ctrl i t c rx1) = all_fids rx + x"
    by (simp add: all_fids_def ac_simps)
  moreover have "rx_ok up (set_ctrl i t c rx1)"
    using assms(5,6) bus by (intro set_ctrl_ok [OF ok1 len1]) simp_all
  ultimately show ?thesis
    using bus by simp
qed

lemma add_sta_ok:
  assumes "rx_ok up rx" and "reord_init_sta rx mac = Some s"
  shows "rx_ok up (rx\<lparr>stas_reord_list := stas_reord_list rx @ [s]\<rparr>)"
    and "all_fids (rx\<lparr>stas_reord_list := stas_reord_list rx @ [s]\<rparr>) = all_fids rx"
    and "t < 8 \<Longrightarrow> preorder_ctrl s ! t = init_ctrl"
proof -
  have s: "s = \<lparr>mac_addr = mac, preorder_ctrl = replicate 8 init_ctrl\<rparr>"
    using assms(2) by (simp add: reord_init_sta_def split: if_splits)
  show "rx_ok up (rx\<lparr>stas_reord_list := stas_reord_list rx @ [s]\<rparr>)"
    using assms(1) init_ctrl_ok by (auto simp: rx_ok_def sta_ok_def s)
  have "concat (map reord_list (replicate 8 init_ctrl)) = []"
    by (simp add: init_ctrl_def)
  then show "all_fids (rx\<lparr>stas_reord_list := stas_reord_list rx @ [s]\<rparr>) = all_fids rx"
    by (simp add: all_fids_def pool_fids_def held_fids_def sta_frames_def s)
  show "t < 8 \<Longrightarrow> preorder_ctrl s ! t = init_ctrl"
    by (simp add: s)
qed

lemma reenable_ok:
  assumes "rx_ok up rx" and "i < length (stas_reord_list rx)" and "t < 8" and "\<not> enabled (get_ctrl i t rx)"
  defines "c \<equiv> (get_ctrl i t rx)\<lparr>enabled := True, ind_sn := 0xFFFF, wsize_b := AICWF_REORDER_WINSIZE\<rparr>"
  shows "rx_ok up (set_ctrl i t c rx) \<and> all_fids (set_ctrl i t c rx) = all_fids rx"
proof -
  have "ctrl_ok c" "reord_list c = []" "reord_list (get_ctrl i t rx) = []"
    using rx_ok_ctrl(1) [OF assms(1-3)] assms(4)
    by (simp_all add: c_def ctrl_ok_def AICWF_REORDER_WINSIZE_def)
  then show ?thesis
    using store_ctrl [OF assms(1-3) same_env_refl, of c "{#}"] by (simp add: ctrl_live_def)
qed

lemma process_unit_inv:
  assumes "rx_ok up rx" and "reorders (wdev_iftype rx)" and "sn < 4096"
    and run: "reord_process_unit pframe rx skb sn t fwd amsdu = Some (r, rx')"
  shows "rx_ok up rx' \<and> all_fids rx' = add_mset (fid pframe) (all_fids rx) \<and> bus_up rx' = bus_up rx"
proof -
  define f where "f = pframe\<lparr>seq_num := sn, tid := t, pkt := Some skb, forward := fwd, is_amsdu := amsdu\<rparr>"
  have f: "pkt f \<noteq> None" "fid f = fid pframe" "seq_num f = sn" by (simp_all add: f_def)
  have single: "rx_ok up rx2 \<and> all_fids rx2 = add_mset (fid pframe) (all_fids rx) \<and> bus_up rx2 = bus_up rx"
    if "reord_single_frame_ind f rx = Some (r2, rx2)" for r2 rx2
    using single_frame_pool [OF that f(1)] f(2) assms(1)
      same_env_ok [of rx rx2] same_env_held [of rx rx2] same_env_bus [of rx rx2]
    by (simp add: all_fids_def)
  show ?thesis
  proof (cases "h_proto skb = ETH_P_PAE \<or> sk_data skb 0 AND 1 \<noteq> 0")
    case True
    then show ?thesis
      using run single unfolding reord_process_unit_def Let_def f_def [symmetric] by simp
  next
    case False
    obtain mac where mac: "peer_mac (wdev_iftype rx) skb = Some mac"
      using assms(2) by (auto simp: peer_mac_def reorders_def)
    show ?thesis
    proof (cases "find_sta mac rx = None \<and> reord_init_sta rx mac = None")
      case True
      then show ?thesis
        using run single mac False unfolding reord_process_unit_def Let_def f_def [symmetric]
        by (auto split: option.splits)
    next
      case known: False
      define n where "n = unat t"
      define p where "p = (case find_sta mac rx of
           Some i \<Rightarrow> (i, if enabled (get_ctrl i n rx) then rx
                      else set_ctrl i n ((get_ctrl i n rx)\<lparr>enabled := True, ind_sn := 0xFFFF,
                             wsize_b := AICWF_REORDER_WINSIZE\<rparr>) rx)
         | None \<Rightarrow> (length (stas_reord_list rx),
                    rx\<lparr>stas_reord_list := stas_reord_list rx @ [the (reord_init_sta rx mac)]\<rparr>))"
      obtain i rx1 where p1: "p = (i, rx1)" by fastforce
      have n8: "n < 8" and unit: "map_option (\<lambda>(c, rx2). (0, set_ctrl i n c rx2))
          (reord_unit f skb (get_ctrl i n rx1) rx1) = Some (r, rx')"
        using run mac False known p1
        unfolding reord_process_unit_def Let_def f_def [symmetric] mac option.case n_def [symmetric] p_def [symmetric]
        by (auto split: if_splits)
      have ready: "rx_ok up rx1 \<and> all_fids rx1 = all_fids rx \<and> i < length (stas_reord_list rx1) \<and>
          enabled (get_ctrl i n rx1) \<and> bus_up rx1 = bus_up rx"
      proof (cases "find_sta mac rx")
        case None
        then obtain s where s: "reord_init_sta rx mac = Some s" using known by auto
        then show ?thesis
          using None p1 add_sta_ok [OF assms(1) s] n8
          by (auto simp: p_def get_ctrl_def init_ctrl_def nth_append)
      next
        case (Some j)
        then have j: "j < length (stas_reord_list rx)" by (simp add: find_sta_def first_index_less)
        show ?thesis
        proof (cases "enabled (get_ctrl j n rx)")
          case True
          then show ?thesis using Some p1 assms(1) j by (simp add: p_def)
        next
          case False
          then show ?thesis
            using Some p1 reenable_ok [OF assms(1) j n8 False] j get_set_ctrl [OF assms(1) j n8]
            by (auto simp: p_def)
        qed
      qed
      obtain c2 rx2 where u: "reord_unit f skb (get_ctrl i n rx1) rx1 = Some (c2, rx2)"
        and rx': "rx' = set_ctrl i n c2 rx2"
        using unit by auto
      have inv: "ctrl_ok c2 \<and> same_env rx1 rx2 \<and> (ctrl_live (get_ctrl i n rx1) \<longrightarrow> ctrl_live c2) \<and>
          pool_fids rx2 + list_fids (reord_list c2) =
            add_mset (fid f) (pool_fids rx1 + list_fids (reord_list (get_ctrl i n rx1)))"
        using ready rx_ok_ctrl(1) [of up rx1 i n] n8 f assms(3) by (intro reord_unit_inv [OF _ _ _ _ u]) auto
      have "rx_ok up (set_ctrl i n c2 rx2) \<and> all_fids (set_ctrl i n c2 rx2) = all_fids rx1 + {#fid f#} \<and>
          bus_up (set_ctrl i n c2 rx2) = bus_up rx1 \<and> wdev_iftype (set_ctrl i n c2 rx2) = wdev_iftype rx1"
        using ready rx_ok_ctrl [of up rx1 i n] n8 inv by (intro store_ctrl) auto
      then show ?thesis
        using ready f(2) unfolding rx' by simp
    qed
  qed
qed

subsection \<open>Giving up on a missing frame\<close>

lemma pending_pkt: "pending_ok base fs \<Longrightarrow> f \<in> set fs \<Longrightarrow> pkt f \<noteq> None"
  by (auto simp: pending_ok_def)

lemma reord_list_pkt: "ctrl_ok c \<Longrightarrow> f \<in> set (reord_list c) \<Longrightarrow> pkt f \<noteq> None"
  by (auto simp: ctrl_ok_def pending_ok_def split: if_splits)

lemma worker_on_list:
  assumes "ctrl_ok c" and "reord_list c \<noteq> []"
  defines "b \<equiv> ind_sn c"
  shows "\<exists>ind. ind < 4096 \<and>
    reord_rxframes_process True c = (kept b (sn_off b ind) (reord_list c) \<noteq> [], c\<lparr>ind_sn := ind\<rparr>) \<and>
    ind_loop ind (reord_list c) rx =
      map_option (Pair (kept b (sn_off b ind) (reord_list c))) (flush_loop (released b (sn_off b ind) (reord_list c)) rx) \<and>
    pending_ok ind (kept b (sn_off b ind) (reord_list c)) \<and>
    hd (reord_list c) \<in> set (released b (sn_off b ind) (reord_list c))"
proof -
  obtain f fs where l: "reord_list c = f # fs"
    using assms(2) by (cases "reord_list c") auto
  have pend: "pending_ok b (reord_list c)"
    using assms(1,2) by (auto simp: ctrl_ok_def b_def split: if_splits)
  let ?x = "sn_off b (seq_num f)"
  have x: "1 \<le> ?x" "?x \<le> 63" "seq_num f < 4096"
    using pend l by (auto simp: pending_ok_def)
  have "64 \<notin> set (offs b (reord_list c))"
    using pend by (fastforce simp: pending_ok_def)
  then obtain ind where p: "ind < 4096" "sn_off b ind = gap_scan ?x (offs b (reord_list c))"
    "reord_rxframes_process False (c\<lparr>ind_sn := seq_num f\<rparr>) =
       (kept b (sn_off b ind) (reord_list c) \<noteq> [], c\<lparr>ind_sn := seq_num f, ind_sn := ind\<rparr>)"
    "ind_loop ind (reord_list c) rx =
      map_option (Pair (kept b (sn_off b ind) (reord_list c))) (flush_loop (released b (sn_off b ind) (reord_list c)) rx)"
    using process_and_ind [of b "reord_list c" "c\<lparr>ind_sn := seq_num f\<rparr>" 64 rx] pending_in_window [OF pend] x by auto
  have forced: "reord_rxframes_process True c = reord_rxframes_process False (c\<lparr>ind_sn := seq_num f\<rparr>)"
    by (simp add: reord_rxframes_process_def l)
  have "?x + 1 \<le> sn_off b ind"
    unfolding p(2) l using gap_scan_ge [of "?x + 1" "offs b fs"] by simp
  then have "hd (reord_list c) \<in> set (released b (sn_off b ind) (reord_list c))"
    by (simp add: released_def l)
  moreover have "pending_ok ind (kept b (sn_off b ind) (reord_list c))"
    unfolding kept_def using pend \<open>?x + 1 \<le> sn_off b ind\<close>
    by (intro pending_after [OF pending_in_window [OF pend] p(1)]) (auto simp: pending_ok_def)
  ultimately show ?thesis
    using p forced by auto
qed

lemma worker_inv:
  assumes "rx_ok up rx" and "i < length (stas_reord_list rx)" and "t < 8"
    and "reord_timeout_worker i t rx = Some rx'"
  shows "rx_ok up rx' \<and> all_fids rx' = all_fids rx \<and> bus_up rx' = bus_up rx"
proof -
  define c where "c = (get_ctrl i t rx)\<lparr>reord_timer_work := False\<rparr>"
  have c: "ctrl_ok c" "reord_list c = reord_list (get_ctrl i t rx)"
    using rx_ok_ctrl(1) [OF assms(1-3)] by (simp_all add: c_def ctrl_ok_def)
  show ?thesis
  proof (cases "reord_list c = []")
    case True
    then have eq: "c\<lparr>reord_list := []\<rparr> = c" by (cases c) simp
    have "rx' = set_ctrl i t (c\<lparr>reord_list := []\<rparr>) rx"
      using assms(4) True unfolding reord_timeout_worker_def c_def [symmetric]
      by (simp add: reord_rxframes_process_def reord_rxframes_ind_def)
    then have "rx' = set_ctrl i t c rx"
      unfolding eq .
    then show ?thesis
      using store_ctrl [OF assms(1-3) same_env_refl c(1), of "{#}"] True c by (simp add: ctrl_live_def)
  next
    case False
    define b where "b = ind_sn c"
    let ?l = "reord_list c"
    obtain ind where w: "ind < 4096"
      "reord_rxframes_process True c = (kept b (sn_off b ind) ?l \<noteq> [], c\<lparr>ind_sn := ind\<rparr>)"
      "ind_loop ind ?l rx = map_option (Pair (kept b (sn_off b ind) ?l)) (flush_loop (released b (sn_off b ind) ?l) rx)"
      "pending_ok ind (kept b (sn_off b ind) ?l)"
      using worker_on_list [OF c(1) False, of rx] by (auto simp: b_def)
    define k where "k = kept b (sn_off b ind) ?l"
    define c' where "c' = (if k \<noteq> [] then c\<lparr>ind_sn := ind, reord_timer := True\<rparr> else c\<lparr>ind_sn := ind\<rparr>)\<lparr>reord_list := k\<rparr>"
    have en: "enabled c" using c(1) False by (auto simp: ctrl_ok_def split: if_splits)
    have c': "ctrl_ok c'" "ctrl_live c'" "reord_list c' = k"
      using c(1) en w(1,4) by (auto simp: c'_def ctrl_ok_def ctrl_live_def k_def)
    let ?c1 = "if k \<noteq> [] then c\<lparr>ind_sn := ind, reord_timer := True\<rparr> else c\<lparr>ind_sn := ind\<rparr>"
    have c1: "ind_sn ?c1 = ind" "reord_list ?c1 = ?l" by simp_all
    have "reord_timeout_worker i t rx = map_option (\<lambda>(c2, rx1). set_ctrl i t c2 rx1) (reord_rxframes_ind ?c1 rx)"
      unfolding reord_timeout_worker_def c_def [symmetric] w(2) k_def [symmetric] by simp
    moreover have "reord_rxframes_ind ?c1 rx = map_option (Pair c') (flush_loop (released b (sn_off b ind) ?l) rx)"
      unfolding reord_rxframes_ind_def c1 w(3) k_def [symmetric] c'_def
      by (simp only: option.map_comp comp_def prod.case)
    ultimately obtain rx1 where rx1: "flush_loop (released b (sn_off b ind) ?l) rx = Some rx1"
      "rx' = set_ctrl i t c' rx1"
      using assms(4) by (cases "flush_loop (released b (sn_off b ind) ?l) rx") auto
    have "\<forall>f\<in>set (released b (sn_off b ind) ?l). pkt f \<noteq> None"
      using reord_list_pkt [OF c(1)] by (auto simp: released_def)
    from flush_loop_pool [OF rx1(1) this]
    have p: "same_env rx rx1" "pool_fids rx1 = pool_fids rx + list_fids (released b (sn_off b ind) ?l)" by auto
    have "list_fids (released b (sn_off b ind) ?l) + list_fids k = list_fids ?l"
      unfolding list_fids_def mset_map k_def released_kept_mset [of b "sn_off b ind" ?l, symmetric] by simp
    then have "pool_fids rx1 + list_fids (reord_list c') = pool_fids rx + list_fids (reord_list (get_ctrl i t rx)) + {#}"
      unfolding p(2) c'(3) using c(2) by (simp add: add.assoc)
    from store_ctrl [OF assms(1-3) p(1) c'(1) c'(2) this] show ?thesis
      unfolding rx1(2) by simp
  qed
qed

lemma flush_inv:
  assumes "rx_ok up rx" and "reord_flush_tid rx skb t = Some (r, rx')"
  shows "rx_ok up rx' \<and> all_fids rx' = all_fids rx \<and> bus_up rx' = bus_up rx"
proof -
  have free: "rx_ok up (dev_kfree_skb skb rx) \<and> all_fids (dev_kfree_skb skb rx) = all_fids rx \<and>
      bus_up (dev_kfree_skb skb rx) = bus_up rx"
    using assms(1) by (simp add: dev_kfree_skb_def rx_ok_def all_fids_def pool_fids_def held_fids_def)
  show ?thesis
  proof (cases "\<exists>mac i. peer_mac (wdev_iftype rx) skb = Some mac \<and> find_sta mac rx = Some i \<and>
      unat t < 8 \<and> enabled (get_ctrl i (unat t) rx)")
    case False
    then show ?thesis
      using assms free by (auto simp: reord_flush_tid_def Let_def not_le split: option.splits if_splits)
  next
    case True
    then obtain mac i where m: "peer_mac (wdev_iftype rx) skb = Some mac" "find_sta mac rx = Some i"
      "unat t < 8" "enabled (get_ctrl i (unat t) rx)" by blast
    let ?c = "get_ctrl i (unat t) rx"
    have i: "i < length (stas_reord_list rx)" using m(2) by (simp add: find_sta_def first_index_less)
    have ok: "ctrl_ok ?c" by (rule rx_ok_ctrl(1) [OF assms(1) i m(3)])
    let ?c' = "?c\<lparr>reord_list := [], enabled := False, reord_timer := False, reord_timer_work := False\<rparr>"
    obtain rx1 where rx1: "flush_loop (reord_list ?c) rx = Some rx1" "rx' = set_ctrl i (unat t) ?c' rx1"
      using assms(2) m by (auto simp: reord_flush_tid_def Let_def)
    have p: "same_env rx rx1" "pool_fids rx1 = pool_fids rx + list_fids (reord_list ?c)"
      using flush_loop_pool [OF rx1(1)] reord_list_pkt [OF ok] by auto
    have "ctrl_ok ?c'" "ctrl_live ?c'" using ok by (simp_all add: ctrl_ok_def ctrl_live_def)
    from store_ctrl [OF assms(1) i m(3) p(1) this, of "{#}"] show ?thesis
      unfolding rx1(2) using p(2) by simp
  qed
qed

lemma handler_inv:
  assumes "rx_ok up rx" and "up \<Longrightarrow> \<not> usb_down rx" and "i < length (stas_reord_list rx)" and "t < 8"
  shows "rx_ok up (reord_timeout_handler i t rx) \<and> all_fids (reord_timeout_handler i t rx) = all_fids rx"
proof -
  let ?c = "(get_ctrl i t rx)\<lparr>reord_timer := False, reord_timer_work := reord_timer_work (get_ctrl i t rx) \<or> \<not> usb_down rx\<rparr>"
  have "ctrl_ok ?c" "up \<Longrightarrow> ctrl_live ?c"
    using rx_ok_ctrl(1) [OF assms(1,3,4)] assms(2) by (simp_all add: ctrl_ok_def ctrl_live_def)
  from store_ctrl [OF assms(1,3,4) same_env_refl this, of "{#}"] show ?thesis
    by (simp add: reord_timeout_handler_def Let_def)
qed

lemma deinit_frames_pool:
  "same_env rx (deinit_frames fs rx) \<and> pool_fids (deinit_frames fs rx) = pool_fids rx + list_fids fs"
  unfolding deinit_frames_def
proof (induction fs arbitrary: rx)
  case Nil
  then show ?case by simp
next
  case (Cons f fs)
  show ?case
    using Cons.IH [of "drop_frame f rx"] drop_frame_pool [of rx f]
    by (auto intro: same_env_trans)
qed

lemma deinit_ctrls_pool:
  "same_env rx (fold (\<lambda>c. deinit_frames (reord_list c)) cs rx) \<and>
   pool_fids (fold (\<lambda>c. deinit_frames (reord_list c)) cs rx) = pool_fids rx + list_fids (concat (map reord_list cs))"
proof (induction cs arbitrary: rx)
  case Nil
  then show ?case by simp
next
  case (Cons c cs)
  show ?case
    using Cons.IH [of "deinit_frames (reord_list c) rx"] deinit_frames_pool [of rx "reord_list c"]
    by (auto intro: same_env_trans simp: ac_simps)
qed

lemma deinit_inv:
  assumes "rx_ok up rx" and "i < length (stas_reord_list rx)"
  shows "rx_ok up (reord_deinit_sta i rx) \<and> all_fids (reord_deinit_sta i rx) = all_fids rx \<and>
    bus_up (reord_deinit_sta i rx) = bus_up rx"
proof -
  let ?s = "stas_reord_list rx ! i"
  define rx1 where "rx1 = fold (\<lambda>c. deinit_frames (reord_list c)) (preorder_ctrl ?s) rx"
  have p: "same_env rx rx1" "pool_fids rx1 = pool_fids rx + list_fids (sta_frames ?s)"
    using deinit_ctrls_pool [of rx "preorder_ctrl ?s"] by (simp_all add: rx1_def sta_frames_def)
  have stas: "stas_reord_list rx1 = stas_reord_list rx" using p(1) by (simp add: same_env_def)
  have split: "stas_reord_list rx = take i (stas_reord_list rx) @ ?s # drop (Suc i) (stas_reord_list rx)"
    using assms(2) by (rule id_take_nth_drop)
  have res: "reord_deinit_sta i rx = rx1\<lparr>stas_reord_list := take i (stas_reord_list rx) @ drop (Suc i) (stas_reord_list rx)\<rparr>"
    by (simp add: reord_deinit_sta_def Let_def rx1_def [symmetric] stas)
  have "held_fids rx = list_fids (sta_frames ?s) + held_fids (reord_deinit_sta i rx)"
  proof -
    have "held_fids rx = list_fids (concat (map sta_frames (take i (stas_reord_list rx) @ ?s # drop (Suc i) (stas_reord_list rx))))"
      unfolding held_fids_def using split by simp
    then show ?thesis
      unfolding held_fids_def res by (simp add: ac_simps)
  qed
  moreover have "pool_fids (reord_deinit_sta i rx) = pool_fids rx1"
    by (simp add: res pool_fids_def)
  moreover have "rx_ok up (reord_deinit_sta i rx)"
    using assms(1) same_env_bus [OF p(1)]
    by (auto simp: res rx_ok_def dest: in_set_takeD in_set_dropD)
  ultimately show ?thesis
    using p(2) same_env_bus [OF p(1)] by (simp add: all_fids_def res)
qed

subsection \<open>The receive path as a state machine\<close>

text \<open>
  The caller takes a control block from the pool, notes how the frame is to be handled and
  passes it on with a 12-bit sequence number; only the four interface types below get there.
\<close>

definition prepare :: "bool \<Rightarrow> sk_buff list \<Rightarrow> sk_buff list \<Rightarrow> recv_msdu \<Rightarrow> recv_msdu" where
  "prepare ap fwds resends f =
     f\<lparr>is_ap_reord := ap, ap_fwd := fwds, ap_fwd_cnt := of_nat (length fwds),
       ap_resend := resends, ap_resend_cnt := of_nat (length resends)\<rparr>"

text \<open>
  The bus can go down and come up at any time.  A timer that expires while it is down does nothing and is
  not started again; such an expiry is a step only when \<open>lossy\<close>.
\<close>

inductive rx_step :: "bool \<Rightarrow> aicwf_rx_priv \<Rightarrow> aicwf_rx_priv \<Rightarrow> bool" for lossy where
  unit: "reord_rxframe_alloc rx = (Some f, rx1) \<Longrightarrow> reorders (wdev_iftype rx) \<Longrightarrow> sn < 4096 \<Longrightarrow>
     reord_process_unit (prepare ap fwds resends f) rx1 skb sn t fwd amsdu = Some (r, rx2) \<Longrightarrow> rx_step lossy rx rx2"
| flush: "reord_flush_tid rx skb t = Some (r, rx1) \<Longrightarrow> rx_step lossy rx rx1"
| timer: "i < length (stas_reord_list rx) \<Longrightarrow> t < 8 \<Longrightarrow> reord_timer (get_ctrl i t rx) \<Longrightarrow> usb_down rx \<longrightarrow> lossy \<Longrightarrow>
     rx_step lossy rx (reord_timeout_handler i t rx)"
| work: "i < length (stas_reord_list rx) \<Longrightarrow> t < 8 \<Longrightarrow> reord_timer_work (get_ctrl i t rx) \<Longrightarrow>
     reord_timeout_worker i t rx = Some rx1 \<Longrightarrow> rx_step lossy rx rx1"
| deinit: "i < length (stas_reord_list rx) \<Longrightarrow> rx_step lossy rx (reord_deinit_sta i rx)"
| vif: "rx_step lossy rx (rx\<lparr>wdev_iftype := ty, vif_active := act\<rparr>)"
| bus: "rx_step lossy rx (rx\<lparr>bus_up := b, usb_down := u\<rparr>)"
| memory: "rx_step lossy rx (rx\<lparr>kmalloc_ok := k\<rparr>)"

definition rx_start :: "tcp_ack_manage \<Rightarrow> aicwf_rx_priv" where
  "rx_start am =
     \<lparr>wdev_iftype = IF_STATION, vif_active = True, bus_up = True, usb_down = False, kmalloc_ok = True,
      rxframes_freequeue = aicwf_rxframe_queue_init 0 MAX_REORD_RXFRAME [], stas_reord_list = [],
      netif = [], arp_seen = [], freed = [], ack_m = am\<rparr>"

inductive rx_reachable :: "bool \<Rightarrow> aicwf_rx_priv \<Rightarrow> bool" for lossy where
  start: "rx_reachable lossy (rx_start am)"
| step: "rx_reachable lossy rx \<Longrightarrow> rx_step lossy rx rx' \<Longrightarrow> rx_reachable lossy rx'"

lemma rxframe_queue_fids:
  "mset (map fid (aicwf_rxframe_queue_init i n q)) = mset [i..<i + n] + mset (map fid q)"
proof (induction n arbitrary: i q)
  case 0
  then show ?case by simp
next
  case (Suc n)
  have "[i..<i + Suc n] = i # [Suc i..<Suc i + n]"
    by (simp only: upt_conv_Cons add_Suc_right add_Suc less_Suc_eq_le le_add1)
  then show ?case
    using Suc [of "Suc i" "blank_frame i # q"] by (simp add: blank_frame_def)
qed

lemma alloc_fids:
  "rx_ok up rx \<Longrightarrow> reord_rxframe_alloc rx = (Some f, rx1) \<Longrightarrow>
   rx_ok up rx1 \<and> all_fids rx = add_mset (fid f) (all_fids rx1) \<and> wdev_iftype rx1 = wdev_iftype rx"
  by (auto simp: reord_rxframe_alloc_def rx_ok_def all_fids_def pool_fids_def held_fids_def split: list.splits)

lemma rx_step_inv: "rx_step lossy rx rx' \<Longrightarrow> rx_ok (\<not> lossy) rx \<Longrightarrow> rx_ok (\<not> lossy) rx' \<and> all_fids rx' = all_fids rx"
proof (induction rule: rx_step.induct)
  case (unit rx f rx1 sn ap fwds resends skb t fwd amsdu r rx2)
  note al = alloc_fids [OF unit(5,1)]
  show ?case
    using process_unit_inv [OF conjunct1 [OF al] _ unit(3,4)] al unit(2) by (simp add: prepare_def)
next
  case (flush rx skb t r rx1)
  then show ?case using flush_inv by blast
next
  case (timer i rx t)
  then show ?case using handler_inv by blast
next
  case (work i rx t rx1)
  then show ?case using worker_inv by blast
next
  case (deinit i rx)
  then show ?case using deinit_inv by blast
next
  case (vif rx ty act)
  then show ?case by (simp add: rx_ok_def all_fids_def pool_fids_def held_fids_def)
next
  case (bus rx b u)
  then show ?case by (simp add: rx_ok_def all_fids_def pool_fids_def held_fids_def)
next
  case (memory rx k)
  then show ?case by (simp add: rx_ok_def all_fids_def pool_fids_def held_fids_def)
qed

lemma rx_reachable_inv: "rx_reachable lossy rx \<Longrightarrow> rx_ok (\<not> lossy) rx \<and> all_fids rx = mset [0..<MAX_REORD_RXFRAME]"
proof (induction rule: rx_reachable.induct)
  case (start am)
  show ?case
    using rxframe_queue_fids [of 0 MAX_REORD_RXFRAME "[]"]
    by (simp add: rx_start_def rx_ok_def all_fids_def pool_fids_def held_fids_def)
next
  case (step rx rx')
  then show ?case using rx_step_inv by auto
qed

subsection \<open>Plain frames\<close>

text \<open>Station frames that are not aggregates and are forwarded: what the stack sees of them.\<close>

definition plain :: "recv_msdu \<Rightarrow> bool" where
  "plain f \<longleftrightarrow> \<not> is_ap_reord f \<and> forward f \<and> \<not> is_amsdu f \<and> pkt f \<noteq> None"

definition up_skb :: "recv_msdu \<Rightarrow> sk_buff" where
  "up_skb f = eth_type_trans (the (pkt f))"

lemma single_frame_plain:
  "plain f \<Longrightarrow> \<exists>rx'. reord_single_frame_ind f rx = Some (0, rx') \<and> netif rx' = netif rx @ [up_skb f]"
  by (auto simp: plain_def up_skb_def reord_single_frame_ind_def deliver_list_def reord_rxframe_free_def
      netif_deliver_def Let_def)

lemma flush_loop_plain:
  "\<forall>f\<in>set fs. plain f \<Longrightarrow> \<exists>rx'. flush_loop fs rx = Some rx' \<and> netif rx' = netif rx @ map up_skb fs"
proof (induction fs arbitrary: rx)
  case Nil
  then show ?case by simp
next
  case (Cons f fs)
  obtain rx1 where "reord_single_frame_ind f rx = Some (0, rx1)" "netif rx1 = netif rx @ [up_skb f]"
    using single_frame_plain [of f rx] Cons.prems by auto
  then show ?case
    using Cons.IH [of rx1] Cons.prems by auto
qed

lemma gap_members_released:
  assumes "in_window b l" and "sn_off b ind = gap_scan e (offs b l)" and "e \<le> x" and "x < sn_off b ind"
  shows "x \<in> set (offs b (released b (sn_off b ind) l))"
proof -
  have "x \<in> set (offs b l)"
    using gap_scan_members [of "offs b l" e x] assms by (simp add: in_window_def)
  then show ?thesis
    using assms(4) by (auto simp: released_def)
qed

lemma sorted_released_kept: "in_window b l \<Longrightarrow> released b e l @ kept b e l = l"
proof (induction l)
  case Nil
  then show ?case by (simp add: released_def kept_def)
next
  case (Cons f l)
  have "released b e l = []" if "e < sn_off b (seq_num f)"
    using that Cons.prems by (fastforce simp: released_def filter_empty_conv)
  then show ?case
    using Cons by (cases "e < sn_off b (seq_num f)") (auto simp: released_def kept_def)
qed

subsection \<open>Properties\<close>


text \<open>C3: The control blocks of the receive path are neither lost nor duplicated: in every reachable
  state the 250 blocks are the free ones together with those of the waiting frames.\<close>

theorem reorder_pool_conserved:
  assumes "rx_reachable lossy rx"
  shows "mset (map fid (rxframes_freequeue rx)) +
      mset (map fid (concat (map (\<lambda>s. concat (map reord_list (preorder_ctrl s))) (stas_reord_list rx)))) =
    mset [0..<MAX_REORD_RXFRAME]"
  using rx_reachable_inv [OF assms]
  by (simp add: all_fids_def pool_fids_def held_fids_def list_fids_def sta_frames_def [abs_def])

text \<open>C1: A new frame inside or ahead of the window joins the list in order; the window then
  starts at the first missing number, exactly the frames before it are delivered to the
  network stack, in increasing order, and the others wait with the timer running.\<close>

theorem reorder_delivers_in_order:
  assumes "ctrl_ok c" and "enabled c" and "seq_num f < 4096"
    and "plain f" and "\<forall>g\<in>set (reord_list c). plain g"
    and "base = win_base c (seq_num f)" and "sn_off base (seq_num f) < 2048"
    and "\<forall>g\<in>set (reord_list c). seq_num g \<noteq> seq_num f"
  shows "\<exists>ind rel rest rx'.
    reord_unit f skb c rx =
      Some (c\<lparr>ind_sn := ind, reord_timer := (rest \<noteq> []), reord_list := rest\<rparr>, rx') \<and>
    mset (rel @ rest) = add_mset f (mset (reord_list c)) \<and>
    sorted_wrt (<) (offs base (rel @ rest)) \<and>
    netif rx' = netif rx @ map up_skb rel \<and>
    (\<forall>g\<in>set rel. sn_off base (seq_num g) < sn_off base ind) \<and>
    (\<forall>g\<in>set rest. sn_off base ind < sn_off base (seq_num g)) \<and>
    win_shift (sn_off base (seq_num f)) \<le> sn_off base ind \<and>
    (\<forall>x. win_shift (sn_off base (seq_num f)) \<le> x \<and> x < sn_off base ind \<longrightarrow> x \<in> set (offs base rel))"
proof -
  have "pkt f \<noteq> None" using assms(4) by (simp add: plain_def)
  then obtain l ind where u: "mset l = add_mset f (mset (reord_list c))" "in_window base l"
    "sn_off base ind = gap_scan (win_shift (sn_off base (seq_num f))) (offs base l)"
    "reord_unit f skb c rx = map_option (Pair (c\<lparr>ind_sn := ind, reord_timer := (kept base (sn_off base ind) l \<noteq> []),
        reord_list := kept base (sn_off base ind) l\<rparr>)) (flush_loop (released base (sn_off base ind) l) rx)"
    using reord_unit_in_window [OF assms(1-3) _ assms(6) refl assms(7,8), of skb rx] unfolding Let_def by blast
  define rel where "rel = released base (sn_off base ind) l"
  define rest where "rest = kept base (sn_off base ind) l"
  have l: "rel @ rest = l" using sorted_released_kept [OF u(2)] by (simp add: rel_def rest_def)
  have "set l = insert f (set (reord_list c))"
    using u(1) by (metis set_mset_add_mset_insert set_mset_mset)
  then have "\<forall>g\<in>set rel. plain g"
    using assms(4,5) by (auto simp: rel_def released_def)
  then obtain rx' where rx': "flush_loop rel rx = Some rx'" "netif rx' = netif rx @ map up_skb rel"
    using flush_loop_plain by blast
  have "sn_off base ind \<notin> set (offs base l)"
    using u(2) unfolding u(3) in_window_def by (intro gap_scan_not_in) simp
  then have "\<forall>g\<in>set rel. sn_off base (seq_num g) < sn_off base ind"
    by (auto simp: rel_def released_def le_less image_iff)
  moreover have "\<forall>g\<in>set rest. sn_off base ind < sn_off base (seq_num g)"
    by (simp add: rest_def kept_def)
  moreover have "win_shift (sn_off base (seq_num f)) \<le> sn_off base ind"
    unfolding u(3) by (rule gap_scan_ge)
  moreover have "\<forall>x. win_shift (sn_off base (seq_num f)) \<le> x \<and> x < sn_off base ind \<longrightarrow> x \<in> set (offs base rel)"
    using gap_members_released [OF u(2,3)] by (simp add: rel_def)
  moreover have "reord_unit f skb c rx =
      Some (c\<lparr>ind_sn := ind, reord_timer := (rest \<noteq> []), reord_list := rest\<rparr>, rx')"
    using u(4) rx'(1) unfolding rel_def [symmetric] rest_def [symmetric] by simp
  moreover have "mset (rel @ rest) = add_mset f (mset (reord_list c))"
    unfolding l by (rule u(1))
  moreover have "sorted_wrt (<) (offs base (rel @ rest))"
    unfolding l using u(2) by (simp add: in_window_def)
  ultimately show ?thesis
    using rx'(2) by (intro exI [of _ ind] exI [of _ rel] exI [of _ rest] exI [of _ rx']) simp
qed

text \<open>C5: A frame whose number is behind the window leaves the list alone and is delivered at
  once, unless it looks like RTP, and a frame whose number is already waiting is freed with
  nothing else changed; both give their control block back.\<close>

theorem reorder_late_and_duplicate:
  assumes "ctrl_ok c" and "enabled c" and "seq_num f < 4096" and "plain f"
  shows "(2048 \<le> sn_off (win_base c (seq_num f)) (seq_num f) \<and> \<not> is_rtp skb \<longrightarrow>
      (\<exists>rx'. reord_unit f skb c rx = Some (c, rx') \<and> netif rx' = netif rx @ [up_skb f] \<and>
             pool_fids rx' = add_mset (fid f) (pool_fids rx))) \<and>
    ((\<exists>g\<in>set (reord_list c). seq_num g = seq_num f) \<longrightarrow>
      (\<exists>rx'. reord_unit f skb c rx = Some (c, rx') \<and> netif rx' = netif rx \<and>
             freed rx' = freed rx @ [the (pkt f)] \<and> pool_fids rx' = add_mset (fid f) (pool_fids rx)))"
proof (intro conjI impI)
  assume a: "2048 \<le> sn_off (win_base c (seq_num f)) (seq_num f) \<and> \<not> is_rtp skb"
  obtain rx' where r: "reord_single_frame_ind f rx = Some (0, rx')" "netif rx' = netif rx @ [up_skb f]"
    using single_frame_plain [OF assms(4)] by blast
  have "reord_unit f skb c rx = Some (c, rx')"
    using reord_unit_late [OF assms(1,2)] a r(1) by (simp add: late_frame_def)
  moreover have "pool_fids rx' = add_mset (fid f) (pool_fids rx)"
    using single_frame_pool [OF r(1)] assms(4) by (simp add: plain_def)
  ultimately show "\<exists>rx'. reord_unit f skb c rx = Some (c, rx') \<and> netif rx' = netif rx @ [up_skb f] \<and>
             pool_fids rx' = add_mset (fid f) (pool_fids rx)"
    using r(2) by blast
next
  assume "\<exists>g\<in>set (reord_list c). seq_num g = seq_num f"
  then have "reord_unit f skb c rx = Some (c, drop_frame f rx)"
    by (rule reord_unit_duplicate [OF assms(1-3)])
  then show "\<exists>rx'. reord_unit f skb c rx = Some (c, rx') \<and> netif rx' = netif rx \<and>
             freed rx' = freed rx @ [the (pkt f)] \<and> pool_fids rx' = add_mset (fid f) (pool_fids rx)"
    using assms(4) drop_frame_pool [of rx f]
    by (auto simp: plain_def drop_frame_def reord_rxframe_free_def dev_kfree_skb_def)
qed

text \<open>C4: The timeout gives up on the missing frame: each run of its work delivers at least the
  first waiting frame, the frames it delivers are a prefix of the list, and if some remain the
  timer runs again.\<close>

theorem reorder_timeout_progress:
  assumes "rx_ok up rx" and "i < length (stas_reord_list rx)" and "t < 8"
    and "reord_list (get_ctrl i t rx) \<noteq> []" and "\<forall>g\<in>set (reord_list (get_ctrl i t rx)). plain g"
  shows "\<exists>rel rest rx'. reord_timeout_worker i t rx = Some rx' \<and>
    reord_list (get_ctrl i t rx) = rel @ rest \<and> rel \<noteq> [] \<and>
    netif rx' = netif rx @ map up_skb rel \<and> reord_list (get_ctrl i t rx') = rest \<and>
    (rest \<noteq> [] \<longrightarrow> reord_timer (get_ctrl i t rx'))"
proof -
  define c where "c = (get_ctrl i t rx)\<lparr>reord_timer_work := False\<rparr>"
  have c: "ctrl_ok c" "reord_list c = reord_list (get_ctrl i t rx)" "reord_list c \<noteq> []"
    using rx_ok_ctrl(1) [OF assms(1-3)] assms(4) by (simp_all add: c_def ctrl_ok_def)
  let ?l = "reord_list c"
  define b where "b = ind_sn c"
  obtain ind where w: "reord_rxframes_process True c = (kept b (sn_off b ind) ?l \<noteq> [], c\<lparr>ind_sn := ind\<rparr>)"
      "ind_loop ind ?l rx = map_option (Pair (kept b (sn_off b ind) ?l)) (flush_loop (released b (sn_off b ind) ?l) rx)"
      "hd ?l \<in> set (released b (sn_off b ind) ?l)"
    using worker_on_list [OF c(1,3), of rx] by (auto simp: b_def)
  define rel where "rel = released b (sn_off b ind) ?l"
  define rest where "rest = kept b (sn_off b ind) ?l"
  have "in_window b ?l"
    using c(1,3) by (auto simp: ctrl_ok_def b_def pending_in_window split: if_splits)
  then have l: "rel @ rest = ?l" by (simp add: rel_def rest_def sorted_released_kept)
  then have "\<forall>g\<in>set rel. plain g"
    using assms(5) unfolding c(2) [symmetric] by (auto simp: rel_def released_def)
  then obtain rx1 where rx1: "flush_loop rel rx = Some rx1" "netif rx1 = netif rx @ map up_skb rel"
    using flush_loop_plain by blast
  have env: "same_env rx rx1"
    using flush_loop_pool [OF rx1(1)] \<open>\<forall>g\<in>set rel. plain g\<close> by (auto simp: plain_def)
  let ?c1 = "if rest \<noteq> [] then c\<lparr>ind_sn := ind, reord_timer := True\<rparr> else c\<lparr>ind_sn := ind\<rparr>"
  have c1: "ind_sn ?c1 = ind" "reord_list ?c1 = ?l" by simp_all
  have ind: "reord_rxframes_ind ?c1 rx = Some (?c1\<lparr>reord_list := rest\<rparr>, rx1)"
    unfolding reord_rxframes_ind_def c1 w(2) rel_def [symmetric] rest_def [symmetric] rx1(1) by simp
  have worker: "reord_timeout_worker i t rx = Some (set_ctrl i t (?c1\<lparr>reord_list := rest\<rparr>) rx1)"
    unfolding reord_timeout_worker_def c_def [symmetric] w(1) rest_def [symmetric] prod.case ind by simp
  have ok1: "rx_ok up rx1" "i < length (stas_reord_list rx1)"
    using assms(1,2) same_env_ok [OF env] same_env_bus [OF env] by simp_all
  have get: "get_ctrl i t (set_ctrl i t (?c1\<lparr>reord_list := rest\<rparr>) rx1) = ?c1\<lparr>reord_list := rest\<rparr>"
    by (rule get_set_ctrl [OF ok1 assms(3)])
  have net: "netif (set_ctrl i t (?c1\<lparr>reord_list := rest\<rparr>) rx1) = netif rx1"
    by (simp add: set_ctrl_def Let_def)
  have "rel \<noteq> []" using w(3) by (auto simp: rel_def)
  then show ?thesis
    using worker l c(2) rx1(2) get net by (intro exI [of _ rel] exI [of _ rest]) auto
qed

text \<open>On this path the TCP ACK filter is shown the packet behind its Ethernet header but parses
  an Ethernet header first: unless two bytes of the source IP address happen to read 0x0800
  it never recognises a TCP segment and its state stays as it was.\<close>

lemma ack_filter_sees_no_ethernet_header:
  assumes "be16 (sk_data skb) (ETH_HLEN + 12) \<noteq> ETH_P_IP"
  shows "ack_m (netif_deliver skb rx) = ack_m rx"
proof -
  have "be16 (sk_data (eth_type_trans skb)) 12 = be16 (sk_data skb) (ETH_HLEN + 12)"
    by (simp add: be16_def eth_type_trans_def ETH_HLEN_def)
  then have "\<not> is_ipv4_tcp (sk_data (eth_type_trans skb))"
    using assms by (simp add: is_ipv4_tcp_def)
  then show ?thesis
    by (simp add: netif_deliver_def Let_def filter_rx_tcp_ack_def tcp_check_quick_ack_def)
qed

subsection \<open>A worked example\<close>

definition demo_skb :: "nat \<Rightarrow> sk_buff" where
  "demo_skb n = \<lparr>sk_id = [n], sk_data = (\<lambda>_. 0), sk_len = 60\<rparr>"

definition demo_frame :: "u16 \<Rightarrow> recv_msdu" where
  "demo_frame sn = (blank_frame (unat sn))\<lparr>seq_num := sn, pkt := Some (demo_skb (unat sn)), forward := True\<rparr>"

definition demo_ctrl :: reord_ctrl where
  "demo_ctrl = \<lparr>enabled = True, ind_sn = 4095, wsize_b = 64, reord_list = [demo_frame 0, demo_frame 2],
     reord_timer = True, reord_timer_work = False\<rparr>"

definition demo_rx :: aicwf_rx_priv where
  "demo_rx = (rx_start (tcp_ack_init (\<lambda>_. 5) 0))
     \<lparr>stas_reord_list := [\<lparr>mac_addr = [], preorder_ctrl = replicate 8 demo_ctrl\<rparr>]\<rparr>"

lemma demo_ctrl_ok: "ctrl_ok demo_ctrl" "ctrl_live demo_ctrl" "enabled demo_ctrl"
  "\<forall>g\<in>set (reord_list demo_ctrl). plain g"
  by (simp_all add: ctrl_ok_def ctrl_live_def demo_ctrl_def pending_ok_def demo_frame_def blank_frame_def plain_def)

lemma demo_frame_simps [simp]:
  "seq_num (demo_frame sn) = sn" "plain (demo_frame sn)" "fid (demo_frame sn) = unat sn"
  "pkt (demo_frame sn) = Some (demo_skb (unat sn))"
  by (simp_all add: demo_frame_def blank_frame_def plain_def)

text \<open>Frame 4095 is the expected one; 0 and 2 are waiting.\<close>

theorem reorder_delivers_in_order_witness:
  "\<exists>ind rel rest rx'. reord_unit (demo_frame 4095) (demo_skb 9) demo_ctrl demo_rx =
      Some (demo_ctrl\<lparr>ind_sn := ind, reord_timer := (rest \<noteq> []), reord_list := rest\<rparr>, rx') \<and>
    mset (rel @ rest) = {#demo_frame 4095, demo_frame 0, demo_frame 2#} \<and> netif rx' = map up_skb rel"
proof -
  have b: "(4095 :: u16) = win_base demo_ctrl (seq_num (demo_frame 4095))"
    by (simp add: win_base_def demo_ctrl_def)
  have n: "\<forall>g\<in>set (reord_list demo_ctrl). seq_num g \<noteq> seq_num (demo_frame 4095)"
    by (simp add: demo_ctrl_def)
  have l: "reord_list demo_ctrl = [demo_frame 0, demo_frame 2]" and net: "netif demo_rx = []"
    by (simp_all add: demo_ctrl_def demo_rx_def rx_start_def)
  show ?thesis
    using reorder_delivers_in_order [OF demo_ctrl_ok(1,3) _ _ demo_ctrl_ok(4) b _ n, of "demo_skb 9" demo_rx]
    unfolding l net by simp blast
qed

theorem reorder_late_and_duplicate_witness:
  "\<exists>rx'. reord_unit (demo_frame 2) (demo_skb 9) demo_ctrl demo_rx = Some (demo_ctrl, rx') \<and>
    freed rx' = [demo_skb 2]"
proof -
  have "\<exists>g\<in>set (reord_list demo_ctrl). seq_num g = seq_num (demo_frame 2)"
    by (simp add: demo_ctrl_def)
  then show ?thesis
    using reorder_late_and_duplicate [OF demo_ctrl_ok(1,3), of "demo_frame 2" "demo_skb 9" demo_rx]
    by (auto simp: demo_rx_def rx_start_def)
qed

theorem reorder_timeout_progress_witness:
  "\<exists>rel rest rx'. reord_timeout_worker 0 3 demo_rx = Some rx' \<and> [demo_frame 0, demo_frame 2] = rel @ rest \<and>
    rel \<noteq> [] \<and> netif rx' = map up_skb rel"
proof -
  have ok: "rx_ok True demo_rx"
    using demo_ctrl_ok by (simp add: rx_ok_def sta_ok_def demo_rx_def)
  have c: "get_ctrl 0 3 demo_rx = demo_ctrl"
    by (simp add: get_ctrl_def demo_rx_def)
  show ?thesis
    using reorder_timeout_progress [OF ok, of 0 3] demo_ctrl_ok(4) unfolding c
    by (auto simp: demo_rx_def rx_start_def demo_ctrl_def)
qed

lemma ack_filter_sees_no_ethernet_header_witness:
  "ack_m (netif_deliver (demo_skb 1) demo_rx) = ack_m demo_rx"
  by (rule ack_filter_sees_no_ethernet_header) (simp add: demo_skb_def be16_def ETH_P_IP_def)

text \<open>Frames 5 and 7 of one station arrive: the second one waits.\<close>

definition demo_mac :: bytes where "demo_mac = h_dest (demo_skb 0)"

lemma demo_skb_simps:
  "h_proto (demo_skb n) = 0" "sk_data (demo_skb n) i = 0"
  "peer_mac IF_STATION (demo_skb 0) = Some demo_mac"
  by (simp_all add: h_proto_def demo_skb_def be16_def peer_mac_def demo_mac_def)

lemmas receive_simps = demo_skb_simps reord_process_unit_def prepare_def ETH_P_PAE_def
  find_sta_def reord_init_sta_def get_ctrl_def set_ctrl_def reord_unit_def
  init_ctrl_def AICWF_REORDER_WINSIZE_def reord_need_check_def SN_LESS_def SN_EQUAL_def
  reord_rxframe_enqueue_def reord_rxframes_process_def reord_rxframes_ind_def reord_single_frame_ind_def
  deliver_list_def reord_rxframe_free_def netif_deliver_def Let_def

lemma first_frame:
  assumes "stas_reord_list rx = []" and "wdev_iftype rx = IF_STATION" and "bus_up rx" and "kmalloc_ok rx"
  shows "\<exists>rx'. reord_process_unit (prepare False [] [] f) rx (demo_skb 0) 5 0 True False = Some (0, rx') \<and>
    stas_reord_list rx' = [\<lparr>mac_addr = demo_mac, preorder_ctrl = (replicate 8 init_ctrl)[0 := init_ctrl\<lparr>ind_sn := 6\<rparr>]\<rparr>] \<and>
    rxframes_freequeue rx' \<noteq> [] \<and> wdev_iftype rx' = IF_STATION"
  using assms by (simp add: receive_simps)

lemma second_frame:
  assumes "stas_reord_list rx = [\<lparr>mac_addr = demo_mac, preorder_ctrl = (replicate 8 init_ctrl)[0 := init_ctrl\<lparr>ind_sn := 6\<rparr>]\<rparr>]"
    and "wdev_iftype rx = IF_STATION"
  shows "\<exists>rx'. reord_process_unit (prepare False [] [] f) rx (demo_skb 0) 7 0 True False = Some (0, rx') \<and>
    reord_list (get_ctrl 0 0 rx') \<noteq> [] \<and> stas_reord_list rx' \<noteq> []"
  using assms by (simp add: receive_simps)

lemma waiting_reachable:
  "\<exists>rx s c. rx_reachable False rx \<and> s \<in> set (stas_reord_list rx) \<and> c \<in> set (preorder_ctrl s) \<and> reord_list c \<noteq> []"
proof -
  let ?am = "tcp_ack_init (\<lambda>_. 5) 0"
  have alloc: "\<exists>f rx1. reord_rxframe_alloc rx = (Some f, rx1) \<and> stas_reord_list rx1 = stas_reord_list rx \<and>
      wdev_iftype rx1 = wdev_iftype rx \<and> bus_up rx1 = bus_up rx \<and> kmalloc_ok rx1 = kmalloc_ok rx" if "rxframes_freequeue rx \<noteq> []" for rx
    using that by (cases "rxframes_freequeue rx") (auto simp: reord_rxframe_alloc_def)
  have "rxframes_freequeue (rx_start ?am) \<noteq> []"
  proof
    assume "rxframes_freequeue (rx_start ?am) = []"
    then have "mset [0..<MAX_REORD_RXFRAME] = {#}"
      using rxframe_queue_fids [of 0 MAX_REORD_RXFRAME "[]"] by (simp add: rx_start_def)
    then have "length [0..<MAX_REORD_RXFRAME] = 0"
      by (metis size_mset size_empty)
    then show False by (simp add: MAX_REORD_RXFRAME_def)
  qed
  then obtain f rx1 where a1: "reord_rxframe_alloc (rx_start ?am) = (Some f, rx1)"
      "stas_reord_list rx1 = []" "wdev_iftype rx1 = IF_STATION" "bus_up rx1" "kmalloc_ok rx1"
    using alloc [of "rx_start ?am"] by (auto simp: rx_start_def)
  obtain rx2 where r2: "reord_process_unit (prepare False [] [] f) rx1 (demo_skb 0) 5 0 True False = Some (0, rx2)"
      "stas_reord_list rx2 = [\<lparr>mac_addr = demo_mac, preorder_ctrl = (replicate 8 init_ctrl)[0 := init_ctrl\<lparr>ind_sn := 6\<rparr>]\<rparr>]"
      "rxframes_freequeue rx2 \<noteq> []" "wdev_iftype rx2 = IF_STATION"
    using first_frame [OF a1(2-5), of f] by blast
  have reach2: "rx_reachable False rx2"
    using a1(1) r2(1) by (intro rx_reachable.step [OF rx_reachable.start rx_step.unit]) (auto simp: rx_start_def reorders_def)
  obtain g rx3 where a3: "reord_rxframe_alloc rx2 = (Some g, rx3)"
      "stas_reord_list rx3 = stas_reord_list rx2" "wdev_iftype rx3 = IF_STATION"
    using alloc [OF r2(3)] r2(4) by auto
  obtain rx4 where r4: "reord_process_unit (prepare False [] [] g) rx3 (demo_skb 0) 7 0 True False = Some (0, rx4)"
      "reord_list (get_ctrl 0 0 rx4) \<noteq> []" "stas_reord_list rx4 \<noteq> []"
    using second_frame [of rx3 g] a3 r2(2) by auto
  have reach4: "rx_reachable False rx4"
    using a3(1) r4(1) r2(4) by (intro rx_reachable.step [OF reach2 rx_step.unit]) (auto simp: reorders_def)
  have "stas_reord_list rx4 \<noteq> []"
    using r4(3) by simp
  then have "stas_reord_list rx4 ! 0 \<in> set (stas_reord_list rx4)" by (intro nth_mem) simp
  moreover from this have "length (preorder_ctrl (stas_reord_list rx4 ! 0)) = 8"
    using rx_reachable_inv [OF reach4] by (simp add: rx_ok_def sta_ok_def)
  then have "get_ctrl 0 0 rx4 \<in> set (preorder_ctrl (stas_reord_list rx4 ! 0))"
    unfolding get_ctrl_def by (intro nth_mem) simp
  ultimately show ?thesis using reach4 r4(2) by blast
qed


theorem reorder_pool_conserved_witness:
  "mset (map fid (rxframes_freequeue (rx_start (tcp_ack_init (\<lambda>_. 5) 0)))) = mset [0..<MAX_REORD_RXFRAME]"
  using reorder_pool_conserved [OF rx_reachable.start [of False "tcp_ack_init (\<lambda>_. 5) 0"]] by (simp add: rx_start_def)

end
