(* ===== verification/CmdMgr.thy ===== *)
theory CmdMgr
  imports Prelude
begin

unbundle bit_operations_syntax

section \<open>The command manager\<close>

text \<open>
  \<open>rwnx_cmds.c\<close>: the queue of commands to the firmware, the worker that pushes deferred
  commands, the confirmations that come back, and the array of command blocks of
  \<open>rwnx_msg_tx.c\<close>.  A command is the index of its block.  Each section under the queue lock is
  one step; between the sections of one call other calls may run, so a blocked call is an
  entry of \<open>callers\<close> (block filled, lock not yet taken), of \<open>checks\<close> (deferred, the size of
  the queue not yet looked at) or of \<open>waiters\<close> (sent, waiting for its completion).
\<close>

subsection \<open>Flags\<close>

definition RWNX_CMD_FLAG_NONBLOCK :: u16 where "RWNX_CMD_FLAG_NONBLOCK = 0x01"
definition RWNX_CMD_FLAG_REQ_CFM :: u16 where "RWNX_CMD_FLAG_REQ_CFM = 0x02"
definition RWNX_CMD_FLAG_WAIT_PUSH :: u16 where "RWNX_CMD_FLAG_WAIT_PUSH = 0x04"
definition RWNX_CMD_FLAG_WAIT_ACK :: u16 where "RWNX_CMD_FLAG_WAIT_ACK = 0x08"
definition RWNX_CMD_FLAG_WAIT_CFM :: u16 where "RWNX_CMD_FLAG_WAIT_CFM = 0x10"
definition RWNX_CMD_FLAG_DONE :: u16 where "RWNX_CMD_FLAG_DONE = 0x20"

definition RWNX_CMD_WAIT_COMPLETE :: "u16 \<Rightarrow> bool" where
  "RWNX_CMD_WAIT_COMPLETE f \<longleftrightarrow> f AND (RWNX_CMD_FLAG_WAIT_ACK OR RWNX_CMD_FLAG_WAIT_CFM) = 0"

definition has_flag :: "u16 \<Rightarrow> u16 \<Rightarrow> bool" where
  "has_flag f b \<longleftrightarrow> f AND b \<noteq> 0"

text \<open>The two messages that are always deferred: the 98th of the MM task, the 13th of the ME task.\<close>

definition LMAC_FIRST_MSG :: "u16 \<Rightarrow> u16" where "LMAC_FIRST_MSG task = push_bit 10 task"
definition TASK_MM :: u16 where "TASK_MM = 0"
definition TASK_ME :: u16 where "TASK_ME = 5"
definition MM_SET_ARPOFFLOAD_REQ :: u16 where "MM_SET_ARPOFFLOAD_REQ = LMAC_FIRST_MSG TASK_MM + 97"
definition ME_TRAFFIC_IND_REQ :: u16 where "ME_TRAFFIC_IND_REQ = LMAC_FIRST_MSG TASK_ME + 12"

definition deferred_id :: "u16 \<Rightarrow> bool" where
  "deferred_id i \<longleftrightarrow> i = ME_TRAFFIC_IND_REQ \<or> i = MM_SET_ARPOFFLOAD_REQ"

definition RWNX_CMD_MAX_QUEUED :: u32 where "RWNX_CMD_MAX_QUEUED = 16"
definition RWNX_CMD_ARRAY_SIZE :: nat where "RWNX_CMD_ARRAY_SIZE = 40"
definition CMD_BUF_MAX :: nat where "CMD_BUF_MAX = 1536"

definition EPIPE :: int where "EPIPE = 32"
definition ENOMEM :: int where "ENOMEM = 12"
definition EINTR :: int where "EINTR = 4"
definition ETIMEDOUT :: int where "ETIMEDOUT = 110"

subsection \<open>State\<close>

record lmac_msg =
  msg_id :: u16
  msg_dest :: u16
  msg_src :: u16
  msg_param :: bytes

text \<open>
  \<open>e2a_msg\<close> is \<open>None\<close> when no answer is wanted, otherwise the answer so far.  \<open>result\<close> is an
  \<open>u32\<close> that only ever holds 0 or a negated error number, read here as the number meant.
\<close>

record rwnx_cmd =
  cmd_id :: u16
  reqid :: u16
  a2e_msg :: lmac_msg
  e2a_msg :: "bytes option"
  tkn :: u32
  flags :: u16
  completed :: bool
  cmd_result :: int
  used :: bool

datatype mgr_state = STATE_DEINIT | STATE_INITED | STATE_CRASHED

record rwnx_cmd_mgr =
  mgr_st :: mgr_state
  next_tkn :: u32
  queue_sz :: u32
  max_queue_sz :: u32
  cmds :: "nat list"
  cmd_array :: "rwnx_cmd list"
  cmdWork :: bool
  worker :: "nat option"
  wakelock :: bool
  usb_up :: bool
  sent :: "lmac_msg list"
  callers :: "nat list"
  checks :: nat
  waiters :: "nat list"

definition cmd_at :: "nat \<Rightarrow> rwnx_cmd_mgr \<Rightarrow> rwnx_cmd" where
  "cmd_at i m = cmd_array m ! i"

definition upd_cmd :: "nat \<Rightarrow> (rwnx_cmd \<Rightarrow> rwnx_cmd) \<Rightarrow> rwnx_cmd_mgr \<Rightarrow> rwnx_cmd_mgr" where
  "upd_cmd i f m = m\<lparr>cmd_array := (cmd_array m)[i := f (cmd_array m ! i)]\<rparr>"

definition set_flag :: "u16 \<Rightarrow> rwnx_cmd \<Rightarrow> rwnx_cmd" where
  "set_flag b c = c\<lparr>flags := flags c OR b\<rparr>"

definition clear_flag :: "u16 \<Rightarrow> rwnx_cmd \<Rightarrow> rwnx_cmd" where
  "clear_flag b c = c\<lparr>flags := flags c AND NOT b\<rparr>"

subsection \<open>The array of command blocks\<close>

definition rwnx_cmd_malloc :: "rwnx_cmd_mgr \<Rightarrow> nat option \<times> rwnx_cmd_mgr" where
  "rwnx_cmd_malloc m =
     (case first_index (\<lambda>c. \<not> used c) (cmd_array m) of
        None \<Rightarrow> (None, m)
      | Some i \<Rightarrow> (Some i, upd_cmd i (used_update (\<lambda>_. True)) m))"

definition rwnx_cmd_free :: "nat \<Rightarrow> rwnx_cmd_mgr \<Rightarrow> rwnx_cmd_mgr" where
  "rwnx_cmd_free i m = upd_cmd i (used_update (\<lambda>_. False)) m"

text \<open>
  What \<open>rwnx_send_msg\<close> writes into the block.  \<open>flags\<close> is assigned only for a non-blocking
  command, which no caller asks for; otherwise a flag is added to whatever the block had.
\<close>

definition fill_cmd :: "lmac_msg \<Rightarrow> u16 \<Rightarrow> bytes option \<Rightarrow> bool \<Rightarrow> rwnx_cmd \<Rightarrow> rwnx_cmd" where
  "fill_cmd msg rid cfm reqcfm c =
     (let c1 = c\<lparr>cmd_result := - EINTR, cmd_id := msg_id msg, reqid := rid, a2e_msg := msg, e2a_msg := cfm\<rparr>;
          c2 = (if reqcfm then set_flag RWNX_CMD_FLAG_REQ_CFM c1 else c1)
      in if reqcfm then clear_flag RWNX_CMD_FLAG_WAIT_ACK c2 else c2)"

subsection \<open>Sending\<close>

text \<open>
  The message as it goes over the bus: four header bytes, a dummy word, the message.  \<open>None\<close>: the
  parameters do not fit into the command buffer and are copied behind its end.
\<close>

definition aicwf_set_cmd_tx :: "lmac_msg \<Rightarrow> nat \<Rightarrow> bytes option" where
  "aicwf_set_cmd_tx msg len =
     (if CMD_BUF_MAX < 16 + length (msg_param msg) then None
      else Some ([of_nat (len + 4), of_nat ((len + 4) div 256) AND 0x0F, 0x11, 0, 0, 0, 0, 0] @
     [ucast (msg_id msg), ucast (drop_bit 8 (msg_id msg)),
      ucast (msg_dest msg), ucast (drop_bit 8 (msg_dest msg)),
      ucast (msg_src msg), ucast (drop_bit 8 (msg_src msg)),
      of_nat (length (msg_param msg)), of_nat (length (msg_param msg) div 256)] @
     msg_param msg))"

text \<open>With the bus down the message is not sent; it is freed in any case.\<close>

definition push_cmd :: "nat \<Rightarrow> rwnx_cmd_mgr \<Rightarrow> rwnx_cmd_mgr" where
  "push_cmd i m = (if usb_up m then m\<lparr>sent := sent m @ [a2e_msg (cmd_at i m)]\<rparr> else m)"

definition cmd_complete :: "nat \<Rightarrow> rwnx_cmd_mgr \<Rightarrow> rwnx_cmd_mgr" where
  "cmd_complete i m =
     (let m1 = upd_cmd i (set_flag RWNX_CMD_FLAG_DONE) m;
          f = flags (cmd_at i m1);
          m2 = (if has_flag f RWNX_CMD_FLAG_NONBLOCK then rwnx_cmd_free i m1
                else if RWNX_CMD_WAIT_COMPLETE f
                then upd_cmd i (\<lambda>c. c\<lparr>cmd_result := 0, completed := True\<rparr>) m1
                else m1)
      in if queue_sz m2 = 0 then m2\<lparr>wakelock := False\<rparr> else m2)"

text \<open>The common end of both queue functions: a token, the tail of the list, the wake lock.\<close>

definition enqueue_cmd :: "nat \<Rightarrow> rwnx_cmd_mgr \<Rightarrow> rwnx_cmd_mgr" where
  "enqueue_cmd i m =
     (let m1 = upd_cmd i (\<lambda>c.
            (let c1 = (if has_flag (flags c) RWNX_CMD_FLAG_REQ_CFM
                       then set_flag RWNX_CMD_FLAG_WAIT_CFM c else c);
                 c2 = c1\<lparr>tkn := next_tkn m, cmd_result := - EINTR\<rparr>
             in if has_flag (flags c2) RWNX_CMD_FLAG_NONBLOCK then c2 else c2\<lparr>completed := False\<rparr>)) m
      in m1\<lparr>next_tkn := next_tkn m + 1, cmds := cmds m @ [i],
            wakelock := (if queue_sz m = 0 then True else wakelock m), queue_sz := queue_sz m + 1\<rparr>)"

definition cmd_mgr_queue_force_defer :: "nat \<Rightarrow> rwnx_cmd_mgr \<Rightarrow> int \<times> rwnx_cmd_mgr" where
  "cmd_mgr_queue_force_defer i m =
     (if mgr_st m = STATE_CRASHED then (- EPIPE, upd_cmd i (cmd_result_update (\<lambda>_. - EPIPE)) m)
      else if cmds m \<noteq> [] \<and> queue_sz m = max_queue_sz m
      then (- ENOMEM, upd_cmd i (cmd_result_update (\<lambda>_. - ENOMEM)) m)
      else (0, (enqueue_cmd i (upd_cmd i (set_flag RWNX_CMD_FLAG_WAIT_PUSH) m))\<lparr>cmdWork := True\<rparr>))"

text \<open>
  The first part of \<open>cmd_mgr_queue\<close>, up to the point where the call returns or waits.
  A call that wants an answer keeps polling while the list is not empty (\<open>Q_retry\<close>).
\<close>

datatype queue_result = Q_retry | Q_error int | Q_deferred | Q_sent

definition wait_flags :: u16 where
  "wait_flags = RWNX_CMD_FLAG_WAIT_ACK OR RWNX_CMD_FLAG_WAIT_PUSH OR RWNX_CMD_FLAG_WAIT_CFM"

definition cmd_mgr_queue :: "nat \<Rightarrow> rwnx_cmd_mgr \<Rightarrow> queue_result \<times> rwnx_cmd_mgr" where
  "cmd_mgr_queue i m =
     (if e2a_msg (cmd_at i m) \<noteq> None \<and> mgr_st m \<noteq> STATE_CRASHED \<and> cmds m \<noteq> [] then (Q_retry, m)
      else if mgr_st m = STATE_CRASHED
      then (Q_error (- EPIPE), upd_cmd i (cmd_result_update (\<lambda>_. - EPIPE)) m)
      else if cmds m \<noteq> [] \<and> queue_sz m = max_queue_sz m
      then (Q_error (- ENOMEM), upd_cmd i (cmd_result_update (\<lambda>_. - ENOMEM)) m)
      else
        (let defer1 = (cmds m \<noteq> [] \<and> has_flag (flags (cmd_at (last (cmds m)) m)) wait_flags);
             m1 = (if defer1 then upd_cmd i (set_flag RWNX_CMD_FLAG_WAIT_PUSH) m else m);
             m2 = enqueue_cmd i m1;
             defer2 = deferred_id (msg_id (a2e_msg (cmd_at i m)));
             m3 = (if defer2 then upd_cmd i (set_flag RWNX_CMD_FLAG_WAIT_PUSH) m2 else m2)
         in if defer1 \<or> defer2 then (Q_deferred, m3)
            else (Q_sent, push_cmd i m3)))"

text \<open>After a deferred call has released the lock it looks at the size of the queue.\<close>

definition deferred_check :: "rwnx_cmd_mgr \<Rightarrow> rwnx_cmd_mgr" where
  "deferred_check m = (if queue_sz m \<le> 1 then m\<lparr>cmdWork := True\<rparr> else m)"

text \<open>The end of a waiting call: its completion (or a fatal signal), or the timeout.\<close>

definition remove_cmd :: "nat \<Rightarrow> rwnx_cmd_mgr \<Rightarrow> rwnx_cmd_mgr" where
  "remove_cmd i m =
     (let sz = queue_sz m - 1
      in rwnx_cmd_free i (m\<lparr>cmds := remove1 i (cmds m), queue_sz := sz,
                            wakelock := (if sz = 0 then False else wakelock m)\<rparr>))"

definition queue_completed :: "nat \<Rightarrow> rwnx_cmd_mgr \<Rightarrow> int \<times> rwnx_cmd_mgr" where
  "queue_completed i m =
     (let m1 = remove_cmd i m
      in (0, if cmds m1 \<noteq> [] \<and> usb_up m1 then m1\<lparr>cmdWork := True\<rparr> else m1))"

definition crash_cmd :: "nat \<Rightarrow> rwnx_cmd_mgr \<Rightarrow> rwnx_cmd_mgr" where
  "crash_cmd i m =
     (let m1 = m\<lparr>mgr_st := STATE_CRASHED\<rparr>
      in if has_flag (flags (cmd_at i m1)) RWNX_CMD_FLAG_DONE then m1
         else cmd_complete i (upd_cmd i (cmd_result_update (\<lambda>_. - ETIMEDOUT)) m1))"

definition queue_timed_out :: "nat \<Rightarrow> rwnx_cmd_mgr \<Rightarrow> int \<times> rwnx_cmd_mgr" where
  "queue_timed_out i m = (- ETIMEDOUT, crash_cmd i m)"

subsection \<open>Confirmations\<close>

definition cmd_mgr_llind :: "nat \<Rightarrow> rwnx_cmd_mgr \<Rightarrow> rwnx_cmd_mgr" where
  "cmd_mgr_llind i m =
     (case first_index (\<lambda>j. tkn (cmd_at j m) = tkn (cmd_at i m)) (cmds m) of
        None \<Rightarrow> m
      | Some _ \<Rightarrow>
          (let m1 = upd_cmd i (clear_flag RWNX_CMD_FLAG_WAIT_ACK) m
           in if RWNX_CMD_WAIT_COMPLETE (flags (cmd_at i m1)) then cmd_complete i m1 else m1))"

record e2a_ind =
  ind_id :: u16
  ind_param :: bytes

definition RWNX_CMD_E2AMSG_LEN_MAX :: nat where "RWNX_CMD_E2AMSG_LEN_MAX = 256 * 4"

text \<open>
  The callback is the handler of the message id in \<open>rwnx_msg_rx.c\<close>; for a command it says
  whether the message answers it (0).  The result also tells whether a command took the message.
\<close>

definition cmd_mgr_msgind ::
  "(rwnx_cmd \<Rightarrow> e2a_ind \<Rightarrow> bool) \<Rightarrow> e2a_ind \<Rightarrow> rwnx_cmd_mgr \<Rightarrow> bool \<times> rwnx_cmd_mgr" where
  "cmd_mgr_msgind answers msg m =
     (case find (\<lambda>i. reqid (cmd_at i m) = ind_id msg \<and>
                     has_flag (flags (cmd_at i m)) RWNX_CMD_FLAG_WAIT_CFM \<and> answers (cmd_at i m) msg) (cmds m) of
        None \<Rightarrow> (False, m)
      | Some i \<Rightarrow>
          (let param = take RWNX_CMD_E2AMSG_LEN_MAX (ind_param msg);
               m1 = upd_cmd i (clear_flag RWNX_CMD_FLAG_WAIT_CFM) m;
               m2 = upd_cmd i (\<lambda>c. if e2a_msg c \<noteq> None \<and> param \<noteq> [] then c\<lparr>e2a_msg := Some param\<rparr> else c) m1
           in (True, if RWNX_CMD_WAIT_COMPLETE (flags (cmd_at i m2)) then cmd_complete i m2 else m2)))"

subsection \<open>The worker\<close>

text \<open>One turn of its loop, up to the wait: \<open>worker\<close> is the command it waits for.\<close>

definition task_process_next :: "rwnx_cmd_mgr \<Rightarrow> rwnx_cmd_mgr" where
  "task_process_next m =
     (case cmds m of
        [] \<Rightarrow> m\<lparr>worker := None\<rparr>
      | i # _ \<Rightarrow>
          if has_flag (flags (cmd_at i m)) RWNX_CMD_FLAG_WAIT_PUSH
          then (push_cmd i (upd_cmd i (clear_flag RWNX_CMD_FLAG_WAIT_PUSH) m))\<lparr>worker := Some i\<rparr>
          else m\<lparr>worker := None\<rparr>)"

definition task_process_completed :: "nat \<Rightarrow> rwnx_cmd_mgr \<Rightarrow> rwnx_cmd_mgr" where
  "task_process_completed i m = task_process_next (remove_cmd i m)"

definition task_process_timed_out :: "nat \<Rightarrow> rwnx_cmd_mgr \<Rightarrow> rwnx_cmd_mgr" where
  "task_process_timed_out i m = task_process_next (crash_cmd i m)"

subsection \<open>Start and end\<close>

definition cmd_mgr_drain :: "rwnx_cmd_mgr \<Rightarrow> rwnx_cmd_mgr" where
  "cmd_mgr_drain m =
     fold (\<lambda>i m. if has_flag (flags (cmd_at i m)) RWNX_CMD_FLAG_NONBLOCK then m
                 else upd_cmd i (completed_update (\<lambda>_. True)) m) (cmds m) (m\<lparr>cmds := []\<rparr>)"

definition blank_cmd :: rwnx_cmd where
  "blank_cmd =
     \<lparr>cmd_id = 0, reqid = 0, a2e_msg = \<lparr>msg_id = 0, msg_dest = 0, msg_src = 0, msg_param = []\<rparr>,
      e2a_msg = None, tkn = 0, flags = 0, completed = False, cmd_result = 0, used = False\<rparr>"

definition rwnx_init_cmd_array :: "rwnx_cmd list" where
  "rwnx_init_cmd_array = replicate RWNX_CMD_ARRAY_SIZE blank_cmd"

definition rwnx_cmd_mgr_init :: rwnx_cmd_mgr where
  "rwnx_cmd_mgr_init =
     \<lparr>mgr_st = STATE_INITED, next_tkn = 0, queue_sz = 0, max_queue_sz = RWNX_CMD_MAX_QUEUED, cmds = [],
      cmd_array = rwnx_init_cmd_array, cmdWork = False, worker = None, wakelock = False, usb_up = True,
      sent = [], callers = [], checks = 0, waiters = []\<rparr>"

text \<open>
  \<open>rwnx_send_msg\<close> up to the call of the queue function: with the bus down it returns 0 at once,
  a message that is not to be confirmed is sent at once, otherwise the block joins the
  callers.  \<open>None\<close>: the array is exhausted and the null pointer is written to.
\<close>

definition rwnx_send_msg ::
  "lmac_msg \<Rightarrow> bool \<Rightarrow> u16 \<Rightarrow> bytes option \<Rightarrow> rwnx_cmd_mgr \<Rightarrow> (nat option \<times> rwnx_cmd_mgr) option" where
  "rwnx_send_msg msg reqcfm rid cfm m =
     (if \<not> usb_up m then Some (None, m)
      else
        (case rwnx_cmd_malloc m of
           (None, _) \<Rightarrow> None
         | (Some i, m1) \<Rightarrow>
             (let m2 = upd_cmd i (fill_cmd msg rid cfm reqcfm) m1
              in if reqcfm then Some (Some i, m2\<lparr>callers := i # callers m2\<rparr>)
                 else Some (None, rwnx_cmd_free i (push_cmd i m2)))))"

subsection \<open>The command manager as a state machine\<close>

text \<open>
  The outcome of the queue function for a caller, with the end of \<open>rwnx_send_msg\<close>: on an
  error the block is freed.
\<close>

definition caller_queues :: "nat \<Rightarrow> rwnx_cmd_mgr \<Rightarrow> rwnx_cmd_mgr" where
  "caller_queues i m =
     (case cmd_mgr_queue i m of
        (Q_retry, m1) \<Rightarrow> m1
      | (Q_error _, m1) \<Rightarrow> (rwnx_cmd_free i m1)\<lparr>callers := remove1 i (callers m1)\<rparr>
      | (Q_deferred, m1) \<Rightarrow> m1\<lparr>callers := remove1 i (callers m1), checks := checks m1 + 1\<rparr>
      | (Q_sent, m1) \<Rightarrow> m1\<lparr>callers := remove1 i (callers m1), waiters := i # waiters m1\<rparr>)"

definition caller_defers :: "nat \<Rightarrow> rwnx_cmd_mgr \<Rightarrow> rwnx_cmd_mgr" where
  "caller_defers i m =
     (case cmd_mgr_queue_force_defer i m of
        (r, m1) \<Rightarrow> (if r = 0 then m1 else rwnx_cmd_free i m1)\<lparr>callers := remove1 i (callers m1)\<rparr>)"

inductive mgr_step :: "rwnx_cmd_mgr \<Rightarrow> rwnx_cmd_mgr \<Rightarrow> bool" where
  send: "rwnx_send_msg msg reqcfm rid cfm m = Some (r, m1) \<Longrightarrow> mgr_step m m1"
| queue: "i \<in> set (callers m) \<Longrightarrow> mgr_step m (caller_queues i m)"
| force: "i \<in> set (callers m) \<Longrightarrow> mgr_step m (caller_defers i m)"
| check: "0 < checks m \<Longrightarrow> mgr_step m ((deferred_check m)\<lparr>checks := checks m - 1\<rparr>)"
| completion: "i \<in> set (waiters m) \<Longrightarrow>
     mgr_step m ((snd (queue_completed i m))\<lparr>waiters := remove1 i (waiters m)\<rparr>)"
| timeout: "i \<in> set (waiters m) \<Longrightarrow>
     mgr_step m ((rwnx_cmd_free i (snd (queue_timed_out i m)))\<lparr>waiters := remove1 i (waiters m)\<rparr>)"
| work: "cmdWork m \<Longrightarrow> worker m = None \<Longrightarrow> mgr_step m (task_process_next (m\<lparr>cmdWork := False\<rparr>))"
| worker_completion: "worker m = Some i \<Longrightarrow> mgr_step m (task_process_completed i m)"
| worker_timeout: "worker m = Some i \<Longrightarrow> mgr_step m (task_process_timed_out i m)"
| confirm: "mgr_step m (snd (cmd_mgr_msgind answers msg m))"
| bus: "mgr_step m (m\<lparr>usb_up := b\<rparr>)"

inductive mgr_reachable :: "rwnx_cmd_mgr \<Rightarrow> bool" where
  start: "mgr_reachable rwnx_cmd_mgr_init"
| step: "mgr_reachable m \<Longrightarrow> mgr_step m m' \<Longrightarrow> mgr_reachable m'"

subsection \<open>Flags as bits\<close>

lemma bit_power: "bit (2 ^ k :: u16) n \<longleftrightarrow> n = k \<and> k < 16"
  by (simp only: bit_exp_iff possible_bit_def) auto

lemma flag_bits:
  "bit RWNX_CMD_FLAG_NONBLOCK n \<longleftrightarrow> n = 0" "bit RWNX_CMD_FLAG_REQ_CFM n \<longleftrightarrow> n = 1"
  "bit RWNX_CMD_FLAG_WAIT_PUSH n \<longleftrightarrow> n = 2" "bit RWNX_CMD_FLAG_WAIT_ACK n \<longleftrightarrow> n = 3"
  "bit RWNX_CMD_FLAG_WAIT_CFM n \<longleftrightarrow> n = 4" "bit RWNX_CMD_FLAG_DONE n \<longleftrightarrow> n = 5"
  using bit_power [of 0 n] bit_power [of 1 n] bit_power [of 2 n] bit_power [of 3 n] bit_power [of 4 n]
    bit_power [of 5 n]
  by (simp_all add: RWNX_CMD_FLAG_NONBLOCK_def RWNX_CMD_FLAG_REQ_CFM_def RWNX_CMD_FLAG_WAIT_PUSH_def
      RWNX_CMD_FLAG_WAIT_ACK_def RWNX_CMD_FLAG_WAIT_CFM_def RWNX_CMD_FLAG_DONE_def)

lemma has_flag_iff: "has_flag f b \<longleftrightarrow> (\<exists>n. bit f n \<and> bit b n)"
  unfolding has_flag_def using bit_imp_le_length [where ?'a = 16]
  by (auto simp: bit_eq_iff bit_and_iff)

lemma has_flag_bits [simp]:
  "has_flag f RWNX_CMD_FLAG_NONBLOCK \<longleftrightarrow> bit f 0" "has_flag f RWNX_CMD_FLAG_REQ_CFM \<longleftrightarrow> bit f 1"
  "has_flag f RWNX_CMD_FLAG_WAIT_PUSH \<longleftrightarrow> bit f 2" "has_flag f RWNX_CMD_FLAG_WAIT_ACK \<longleftrightarrow> bit f 3"
  "has_flag f RWNX_CMD_FLAG_WAIT_CFM \<longleftrightarrow> bit f 4" "has_flag f RWNX_CMD_FLAG_DONE \<longleftrightarrow> bit f 5"
  "has_flag f wait_flags \<longleftrightarrow> bit f 3 \<or> bit f 2 \<or> bit f 4"
  "RWNX_CMD_WAIT_COMPLETE f \<longleftrightarrow> \<not> bit f 3 \<and> \<not> bit f 4"
proof -
  have "RWNX_CMD_WAIT_COMPLETE f \<longleftrightarrow> \<not> has_flag f (RWNX_CMD_FLAG_WAIT_ACK OR RWNX_CMD_FLAG_WAIT_CFM)"
    by (simp add: RWNX_CMD_WAIT_COMPLETE_def has_flag_def)
  then show "RWNX_CMD_WAIT_COMPLETE f \<longleftrightarrow> \<not> bit f 3 \<and> \<not> bit f 4"
    by (auto simp: has_flag_iff flag_bits bit_or_iff)
qed (auto simp: has_flag_iff flag_bits wait_flags_def bit_or_iff)

lemma set_flag_bits [simp]:
  "bit (flags (set_flag b c)) n \<longleftrightarrow> bit (flags c) n \<or> bit b n"
  by (simp add: set_flag_def bit_or_iff)

lemma clear_flag_bits [simp]:
  "bit (flags (clear_flag b c)) n \<longleftrightarrow> bit (flags c) n \<and> \<not> bit b n"
  using bit_imp_le_length [of "flags c" n] by (auto simp: clear_flag_def bit_and_iff bit_not_iff)


subsection \<open>The queue invariant\<close>

text \<open>
  While the manager has not crashed the list is made of commands that are through (class 0),
  then at most one that is with the firmware (class 1), then commands not yet pushed (class 2).
\<close>

definition cmd_class :: "rwnx_cmd \<Rightarrow> nat" where
  "cmd_class c = (if bit (flags c) 2 then 2 else if bit (flags c) 4 then 1 else 0)"

definition classes_ok :: "nat list \<Rightarrow> bool" where
  "classes_ok ks \<longleftrightarrow> sorted_wrt (\<lambda>a b. a < b \<or> a = b \<and> a \<noteq> 1) ks"

definition list_classes :: "rwnx_cmd_mgr \<Rightarrow> nat list" where
  "list_classes m = map (\<lambda>i. cmd_class (cmd_at i m)) (cmds m)"

definition queue_ok :: "rwnx_cmd_mgr \<Rightarrow> bool" where
  "queue_ok m \<longleftrightarrow>
     length (cmd_array m) = 40 \<and> distinct (cmds m) \<and> (\<forall>i\<in>set (cmds m). i < 40 \<and> used (cmd_at i m)) \<and>
     unat (queue_sz m) = length (cmds m) \<and> length (cmds m) \<le> 16 \<and> max_queue_sz m = 16 \<and>
     (\<forall>i<40. \<not> bit (flags (cmd_at i m)) 0 \<and> \<not> bit (flags (cmd_at i m)) 3 \<and>
              (bit (flags (cmd_at i m)) 2 \<longrightarrow> i \<in> set (cmds m))) \<and>
     classes_ok (list_classes m) \<and>
     distinct (callers m) \<and> (\<forall>i\<in>set (callers m). i < 40 \<and> used (cmd_at i m) \<and> i \<notin> set (cmds m)) \<and>
     distinct (waiters m) \<and> (\<forall>i\<in>set (waiters m). i \<in> set (cmds m) \<and> \<not> bit (flags (cmd_at i m)) 2) \<and>
     (\<forall>i. worker m = Some i \<longrightarrow>
        i \<in> set (cmds m) \<and> \<not> bit (flags (cmd_at i m)) 2 \<and> i \<notin> set (waiters m))"

definition mgr_ok :: "rwnx_cmd_mgr \<Rightarrow> bool" where
  "mgr_ok m \<longleftrightarrow> (mgr_st m \<noteq> STATE_CRASHED \<longrightarrow> queue_ok m)"

lemma classes_ok_simps [simp]:
  "classes_ok []" "classes_ok (k # ks) \<longleftrightarrow> (\<forall>j\<in>set ks. k < j \<or> k = j \<and> k \<noteq> 1) \<and> classes_ok ks"
  by (auto simp: classes_ok_def)

lemma classes_ok_append:
  "classes_ok (ks @ [k]) \<longleftrightarrow> classes_ok ks \<and> (\<forall>j\<in>set ks. j < k \<or> j = k \<and> j \<noteq> 1)"
  by (auto simp: classes_ok_def sorted_wrt_append)

lemma classes_ok_remove:
  "classes_ok (map f xs) \<Longrightarrow> classes_ok (map f (remove1 x xs))"
proof (induction xs)
  case Nil
  then show ?case by simp
next
  case (Cons y xs)
  then show ?case
    using set_remove1_subset [of x xs] by auto
qed

lemma classes_ok_last:
  "classes_ok ks \<Longrightarrow> ks \<noteq> [] \<Longrightarrow> k \<in> set ks \<Longrightarrow> k \<le> last ks"
proof (induction ks)
  case (Cons j ks)
  show ?case
  proof (cases "ks = []")
    case True
    then show ?thesis using Cons.prems by simp
  next
    case False
    have "j < last ks \<or> j = last ks"
      using Cons.prems(1) last_in_set [OF False] by auto
    then have "j \<le> last ks" by auto
    then show ?thesis
      using Cons False by auto
  qed
qed simp

text \<open>Confirming a command lowers its class to 0 unless it has not been pushed.\<close>

lemma classes_ok_confirm:
  assumes "classes_ok (map f xs)" and "distinct xs" and "i \<in> set xs"
    and "\<And>j. j \<noteq> i \<Longrightarrow> g j = f j" and "f i \<noteq> 0" and "g i = (if f i = 2 then 2 else 0)" and "\<forall>j\<in>set xs. f j \<le> 2"
  shows "classes_ok (map g xs)"
  using assms(1-3,7)
proof (induction xs)
  case Nil
  then show ?case by simp
next
  case (Cons x xs)
  show ?case
  proof (cases "x = i")
    case True
    then have same: "g j = f j" if "j \<in> set xs" for j
      using that Cons.prems(2) by (intro assms(4)) auto
    then have map: "map g xs = map f xs" and "\<forall>j\<in>set xs. g j = f j" by auto
    then show ?thesis
      unfolding list.map map using Cons.prems(1,4) True assms(5,6) by (auto split: if_splits)
  next
    case False
    have "f x < g j \<or> f x = g j \<and> f x \<noteq> 1" if "j \<in> set xs" for j
    proof (cases "j = i")
      case True
      then have "f i = 1 \<or> f i = 2"
        using that Cons.prems(4) assms(5) by (auto simp: le_Suc_eq numeral_2_eq_2)
      then show ?thesis
        using True that Cons.prems(1) assms(6) by (auto dest: bspec [of _ _ i])
    qed (use that Cons.prems(1) assms(4) in auto)
    then show ?thesis
      using Cons False assms(4) by auto
  qed
qed

subsection \<open>The invariant is kept\<close>

lemma cmd_at_upd:
  "i < length (cmd_array m) \<Longrightarrow> cmd_at j (upd_cmd i f m) = (if j = i then f (cmd_at i m) else cmd_at j m)"
  by (simp add: cmd_at_def upd_cmd_def)

lemma upd_cmd_simps [simp]:
  "cmds (upd_cmd i f m) = cmds m" "queue_sz (upd_cmd i f m) = queue_sz m"
  "max_queue_sz (upd_cmd i f m) = max_queue_sz m" "mgr_st (upd_cmd i f m) = mgr_st m"
  "worker (upd_cmd i f m) = worker m" "callers (upd_cmd i f m) = callers m"
  "waiters (upd_cmd i f m) = waiters m" "checks (upd_cmd i f m) = checks m"
  "cmdWork (upd_cmd i f m) = cmdWork m" "usb_up (upd_cmd i f m) = usb_up m"
  "next_tkn (upd_cmd i f m) = next_tkn m" "sent (upd_cmd i f m) = sent m"
  "length (cmd_array (upd_cmd i f m)) = length (cmd_array m)"
  by (simp_all add: upd_cmd_def)

lemma cmd_at_fields [simp]:
  "cmd_at j (m\<lparr>cmds := a\<rparr>) = cmd_at j m" "cmd_at j (m\<lparr>queue_sz := b\<rparr>) = cmd_at j m"
  "cmd_at j (m\<lparr>cmdWork := c\<rparr>) = cmd_at j m" "cmd_at j (m\<lparr>worker := d\<rparr>) = cmd_at j m"
  "cmd_at j (m\<lparr>wakelock := e\<rparr>) = cmd_at j m" "cmd_at j (m\<lparr>usb_up := e\<rparr>) = cmd_at j m"
  "cmd_at j (m\<lparr>sent := g\<rparr>) = cmd_at j m" "cmd_at j (m\<lparr>callers := a\<rparr>) = cmd_at j m"
  "cmd_at j (m\<lparr>checks := h\<rparr>) = cmd_at j m" "cmd_at j (m\<lparr>waiters := a\<rparr>) = cmd_at j m"
  "cmd_at j (m\<lparr>next_tkn := b\<rparr>) = cmd_at j m" "cmd_at j (m\<lparr>mgr_st := k\<rparr>) = cmd_at j m"
  by (simp_all add: cmd_at_def)

lemma push_cmd_simps [simp]:
  "cmds (push_cmd i m) = cmds m" "queue_sz (push_cmd i m) = queue_sz m"
  "max_queue_sz (push_cmd i m) = max_queue_sz m" "mgr_st (push_cmd i m) = mgr_st m"
  "worker (push_cmd i m) = worker m" "callers (push_cmd i m) = callers m"
  "waiters (push_cmd i m) = waiters m" "cmd_array (push_cmd i m) = cmd_array m"
  "cmd_at j (push_cmd i m) = cmd_at j m" "checks (push_cmd i m) = checks m"
  by (simp_all add: push_cmd_def cmd_at_def)

lemma cmd_class_le: "cmd_class c \<le> 2"
  by (simp add: cmd_class_def)

lemma queue_okD:
  assumes "queue_ok m"
  shows "length (cmd_array m) = 40" "distinct (cmds m)" "\<forall>i\<in>set (cmds m). i < 40 \<and> used (cmd_at i m)"
    "unat (queue_sz m) = length (cmds m)" "length (cmds m) \<le> 16" "max_queue_sz m = 16"
    "\<forall>i<40. \<not> bit (flags (cmd_at i m)) 0 \<and> \<not> bit (flags (cmd_at i m)) 3 \<and>
       (bit (flags (cmd_at i m)) 2 \<longrightarrow> i \<in> set (cmds m))"
    "classes_ok (list_classes m)"
    "distinct (callers m)" "\<forall>i\<in>set (callers m). i < 40 \<and> used (cmd_at i m) \<and> i \<notin> set (cmds m)"
    "distinct (waiters m)" "\<forall>i\<in>set (waiters m). i \<in> set (cmds m) \<and> \<not> bit (flags (cmd_at i m)) 2"
    "\<forall>i. worker m = Some i \<longrightarrow> i \<in> set (cmds m) \<and> \<not> bit (flags (cmd_at i m)) 2 \<and> i \<notin> set (waiters m)"
  using assms unfolding queue_ok_def by blast+

lemma queue_okI:
  assumes "length (cmd_array m) = 40" "distinct (cmds m)"
    "unat (queue_sz m) = length (cmds m)" "length (cmds m) \<le> 16" "max_queue_sz m = 16"
    "distinct (callers m)" "distinct (waiters m)" "classes_ok (list_classes m)"
    "\<And>i. i \<in> set (cmds m) \<Longrightarrow> i < 40 \<and> used (cmd_at i m)"
    "\<And>i. i < 40 \<Longrightarrow> \<not> bit (flags (cmd_at i m)) 0 \<and> \<not> bit (flags (cmd_at i m)) 3"
    "\<And>i. i < 40 \<Longrightarrow> bit (flags (cmd_at i m)) 2 \<Longrightarrow> i \<in> set (cmds m)"
    "\<And>i. i \<in> set (callers m) \<Longrightarrow> i < 40 \<and> used (cmd_at i m) \<and> i \<notin> set (cmds m)"
    "\<And>i. i \<in> set (waiters m) \<Longrightarrow> i \<in> set (cmds m) \<and> \<not> bit (flags (cmd_at i m)) 2"
    "\<And>i. worker m = Some i \<Longrightarrow>
        i \<in> set (cmds m) \<and> \<not> bit (flags (cmd_at i m)) 2 \<and> i \<notin> set (waiters m)"
  shows "queue_ok m"
  unfolding queue_ok_def using assms by blast

text \<open>A caller's command joins the list.\<close>

lemma append_ok:
  assumes ok: "queue_ok m" and i: "i \<in> set (callers m)" and room: "length (cmds m) < 16"
    and m': "cmds m' = cmds m @ [i]" "length (cmd_array m') = 40" "\<forall>j. j \<noteq> i \<longrightarrow> cmd_at j m' = cmd_at j m"
      "unat (queue_sz m') = length (cmds m) + 1" "max_queue_sz m' = 16" "worker m' = worker m"
      "callers m' = remove1 i (callers m)"
    and c: "used (cmd_at i m')" "\<not> bit (flags (cmd_at i m')) 0" "\<not> bit (flags (cmd_at i m')) 3"
    and cls: "bit (flags (cmd_at i m')) 2 \<or> (\<forall>k\<in>set (list_classes m). k = 0)"
    and w: "waiters m' = waiters m \<or> waiters m' = i # waiters m \<and> \<not> bit (flags (cmd_at i m')) 2"
  shows "queue_ok m'"
proof -
  note q = queue_okD [OF ok]
  have i40: "i < 40" "i \<notin> set (cmds m)" using q(10) i by auto
  have same: "cmd_at j m' = cmd_at j m" if "j \<in> set (cmds m) \<union> set (remove1 i (callers m))" for j
  proof -
    have "j \<noteq> i" using that i40(2) q(9) by auto
    then show ?thesis using m'(3) by blast
  qed
  have lc: "list_classes m' = list_classes m @ [cmd_class (cmd_at i m')]"
    using same by (auto simp: list_classes_def m'(1))
  have le: "\<forall>k\<in>set (list_classes m). k \<le> 2"
    using cmd_class_le by (auto simp: list_classes_def)
  have set': "set (cmds m') = insert i (set (cmds m))" by (simp add: m'(1))
  show ?thesis
  proof (rule queue_okI)
    show "classes_ok (list_classes m')"
      unfolding lc classes_ok_append using q(8) cls le by (auto simp: cmd_class_def le_less)
    show "\<not> bit (flags (cmd_at j m')) 0 \<and> \<not> bit (flags (cmd_at j m')) 3" if "j < 40" for j
      using q(7) m'(3) c that by (cases "j = i") auto
    show "j \<in> set (cmds m')" if "j < 40" "bit (flags (cmd_at j m')) 2" for j
      using q(7) m'(3) that by (cases "j = i") (auto simp: set')
    show "j < 40 \<and> used (cmd_at j m')" if "j \<in> set (cmds m')" for j
      using q(3) same i40 c(1) that by (cases "j = i") (auto simp: set')
    show "j < 40 \<and> used (cmd_at j m') \<and> j \<notin> set (cmds m')" if "j \<in> set (callers m')" for j
    proof -
      have "j \<in> set (callers m)" "j \<noteq> i" using that q(9) by (auto simp: m'(7))
      then show ?thesis using q(10) m'(3) by (auto simp: set')
    qed
    show "distinct (waiters m')" using q(11,12) i40 w by auto
    show "j \<in> set (cmds m') \<and> \<not> bit (flags (cmd_at j m')) 2" if "j \<in> set (waiters m')" for j
    proof (cases "j = i")
      case True
      then show ?thesis using that w q(12) i40 by (auto simp: set')
    next
      case False
      then have "j \<in> set (waiters m)" using that w by auto
      then show ?thesis using q(12) m'(3) False by (auto simp: set')
    qed
    show "j \<in> set (cmds m') \<and> \<not> bit (flags (cmd_at j m')) 2 \<and> j \<notin> set (waiters m')"
      if "worker m' = Some j" for j
    proof -
      have j: "j \<in> set (cmds m)" "\<not> bit (flags (cmd_at j m)) 2" "j \<notin> set (waiters m)"
        using q(13) that by (auto simp: m'(6))
      then have "j \<noteq> i" using i40 by auto
      then show ?thesis using j m'(3) w by (auto simp: set')
    qed
  qed (use q(1,2,9) m' room i40 in \<open>simp_all add: distinct_remove1\<close>)
qed

text \<open>A command leaves the list.\<close>

lemma remove_ok:
  assumes ok: "queue_ok m" and i: "i \<in> set (cmds m)" "\<not> bit (flags (cmd_at i m)) 2"
    and m': "cmds m' = remove1 i (cmds m)" "length (cmd_array m') = 40"
      "\<forall>j. flags (cmd_at j m') = flags (cmd_at j m)" "\<forall>j. j \<noteq> i \<longrightarrow> cmd_at j m' = cmd_at j m"
      "queue_sz m' = queue_sz m - 1" "max_queue_sz m' = 16" "callers m' = callers m"
    and w: "waiters m' = remove1 i (waiters m)" "worker m' = worker m \<or> worker m' = None"
      "worker m' \<noteq> Some i"
  shows "queue_ok m'"
proof -
  note q = queue_okD [OF ok]
  have cls: "list_classes m' = map (\<lambda>j. cmd_class (cmd_at j m)) (remove1 i (cmds m))"
    by (simp add: list_classes_def m'(1) cmd_class_def m'(3))
  have len: "length (cmds m) \<noteq> 0" "length (cmds m') = length (cmds m) - 1"
    using i(1) by (auto simp: m'(1) length_remove1)
  have "queue_sz m \<noteq> 0"
    using q(4) len(1) by (metis unat_0)
  then have sz: "unat (queue_sz m') = length (cmds m')"
    using unat_dec [of "queue_sz m"] len(2) q(4) unfolding m'(5) by argo
  have set': "set (cmds m') = set (cmds m) - {i}" "set (waiters m') = set (waiters m) - {i}"
    using q(2,11) by (simp_all add: m'(1) w(1) set_remove1_eq)
  show ?thesis
  proof (rule queue_okI)
    show "classes_ok (list_classes m')"
      unfolding cls using q(8) by (intro classes_ok_remove) (simp add: list_classes_def)
    show "\<not> bit (flags (cmd_at j m')) 0 \<and> \<not> bit (flags (cmd_at j m')) 3" if "j < 40" for j
      using q(7) m'(3) that by auto
    show "j \<in> set (cmds m')" if "j < 40" "bit (flags (cmd_at j m')) 2" for j
      using q(7) i(2) m'(3) that by (auto simp: set')
    show "j < 40 \<and> used (cmd_at j m')" if "j \<in> set (cmds m')" for j
      using q(3) m'(4) that by (auto simp: set')
    show "j < 40 \<and> used (cmd_at j m') \<and> j \<notin> set (cmds m')" if "j \<in> set (callers m')" for j
      using q(10) m'(4) that i(1) by (cases "j = i") (auto simp: set' m'(7))
    show "j \<in> set (cmds m') \<and> \<not> bit (flags (cmd_at j m')) 2" if "j \<in> set (waiters m')" for j
      using q(12) that m'(3) by (auto simp: set')
    show "j \<in> set (cmds m') \<and> \<not> bit (flags (cmd_at j m')) 2 \<and> j \<notin> set (waiters m')"
      if "worker m' = Some j" for j
    proof -
      have "worker m = Some j" "j \<noteq> i" using w(2,3) that by auto
      then show ?thesis using q(13) m'(3) by (auto simp: set')
    qed
  qed (use q(2,5,9,11) sz len m'(2,6,7) in \<open>simp_all add: distinct_remove1 m'(1) w(1)\<close>)
qed

text \<open>Nothing but one command of the list changes, and it changes in its flags only.\<close>

lemma reflag_ok:
  assumes ok: "queue_ok m"
    and m': "cmds m' = cmds m" "length (cmd_array m') = 40" "queue_sz m' = queue_sz m" "max_queue_sz m' = 16"
      "callers m' = callers m" "waiters m' = waiters m"
      "\<forall>j<40. used (cmd_at j m') = used (cmd_at j m)"
      "\<forall>j<40. bit (flags (cmd_at j m')) 0 = bit (flags (cmd_at j m)) 0 \<and>
         bit (flags (cmd_at j m')) 3 = bit (flags (cmd_at j m)) 3 \<and>
         (bit (flags (cmd_at j m')) 2 \<longrightarrow> bit (flags (cmd_at j m)) 2)"
      "classes_ok (list_classes m')"
    and w: "\<forall>j. worker m' = Some j \<longrightarrow>
        j \<in> set (cmds m) \<and> \<not> bit (flags (cmd_at j m')) 2 \<and> j \<notin> set (waiters m)"
  shows "queue_ok m'"
proof -
  note q = queue_okD [OF ok]
  show ?thesis
  proof (rule queue_okI)
    show "\<not> bit (flags (cmd_at j m')) 0 \<and> \<not> bit (flags (cmd_at j m')) 3" if "j < 40" for j
      using q(7) m'(8) that by blast
    show "j \<in> set (cmds m')" if "j < 40" "bit (flags (cmd_at j m')) 2" for j
      using q(7) m'(1,8) that by simp
    show "j < 40 \<and> used (cmd_at j m')" if "j \<in> set (cmds m')" for j
      using q(3) m'(1,7) that by simp
    show "j < 40 \<and> used (cmd_at j m') \<and> j \<notin> set (cmds m')" if "j \<in> set (callers m')" for j
      using q(10) m'(1,5,7) that by simp
    show "j \<in> set (cmds m') \<and> \<not> bit (flags (cmd_at j m')) 2" if "j \<in> set (waiters m')" for j
      using q(3,12) m'(1,6,8) that by auto
    show "j \<in> set (cmds m') \<and> \<not> bit (flags (cmd_at j m')) 2 \<and> j \<notin> set (waiters m')"
      if "worker m' = Some j" for j
      using w m'(1,6) that by simp
  qed (use q m' in simp_all)
qed


subsection \<open>Each step keeps it\<close>

lemma cmd_at_used [simp]:
  "flags (cmd_at j (upd_cmd i (used_update f) m)) = flags (cmd_at j m)"
  "flags (cmd_at j (upd_cmd i (cmd_result_update g) m)) = flags (cmd_at j m)"
  by (cases "i < length (cmd_array m)"; cases "i = j";
      simp add: cmd_at_def upd_cmd_def list_update_beyond)+

lemma remove_cmd_simps [simp]:
  "cmds (remove_cmd i m) = remove1 i (cmds m)" "queue_sz (remove_cmd i m) = queue_sz m - 1"
  "max_queue_sz (remove_cmd i m) = max_queue_sz m" "mgr_st (remove_cmd i m) = mgr_st m"
  "callers (remove_cmd i m) = callers m" "waiters (remove_cmd i m) = waiters m"
  "worker (remove_cmd i m) = worker m" "length (cmd_array (remove_cmd i m)) = length (cmd_array m)"
  "flags (cmd_at j (remove_cmd i m)) = flags (cmd_at j m)"
  by (simp_all add: remove_cmd_def rwnx_cmd_free_def Let_def)

lemma remove_cmd_other: "j \<noteq> i \<Longrightarrow> cmd_at j (remove_cmd i m) = cmd_at j m"
  by (simp add: remove_cmd_def rwnx_cmd_free_def Let_def cmd_at_def upd_cmd_def)

lemma completion_ok:
  assumes ok: "queue_ok m" and i: "i \<in> set (waiters m)"
  shows "queue_ok ((snd (queue_completed i m))\<lparr>waiters := remove1 i (waiters m)\<rparr>)"
proof -
  note q = queue_okD [OF ok]
  have "i \<in> set (cmds m)" "\<not> bit (flags (cmd_at i m)) 2" "worker m \<noteq> Some i"
    using q(12,13) i by auto
  then show ?thesis
    by (intro remove_ok [OF ok, of i])
       (simp_all add: queue_completed_def Let_def q(1,6) remove_cmd_other)
qed

lemma task_process_next_ok:
  assumes ok: "queue_ok m" and none: "worker m = None \<or> cmds m = []"
  shows "queue_ok (task_process_next m)"
proof (cases "cmds m = [] \<or> \<not> bit (flags (cmd_at (hd (cmds m)) m)) 2")
  case True
  note q = queue_okD [OF ok]
  have eq: "task_process_next m = m\<lparr>worker := None\<rparr>"
    using True by (auto simp: task_process_next_def split: list.splits)
  show ?thesis
    unfolding eq by (rule reflag_ok [OF ok]) (use q in \<open>simp_all add: list_classes_def\<close>)
next
  case False
  note q = queue_okD [OF ok]
  define i where "i = hd (cmds m)"
  obtain rest where c: "cmds m = i # rest"
    using False by (cases "cmds m") (auto simp: i_def)
  have i: "i < 40" "bit (flags (cmd_at i m)) 2" "i \<notin> set rest" "i \<notin> set (waiters m)"
  proof -
    show b: "bit (flags (cmd_at i m)) 2" using False by (simp add: i_def)
    have "i \<in> set (cmds m)" by (simp add: c)
    then show "i < 40" using q(3) by blast
    show "i \<notin> set rest" using q(2) by (simp add: c)
    show "i \<notin> set (waiters m)" using q(12) b by blast
  qed
  have eq: "task_process_next m = (push_cmd i (upd_cmd i (clear_flag RWNX_CMD_FLAG_WAIT_PUSH) m))\<lparr>worker := Some i\<rparr>"
    using i c by (simp add: task_process_next_def)
  have at: "cmd_at j (task_process_next m) =
      (if j = i then clear_flag RWNX_CMD_FLAG_WAIT_PUSH (cmd_at i m) else cmd_at j m)" for j
    using i(1) q(1) by (simp add: eq cmd_at_upd)
  have cl: "cmd_class (cmd_at i m) = 2"
    using i(2) by (simp add: cmd_class_def)
  have rest: "\<forall>k\<in>set rest. cmd_class (cmd_at k m) = 2" "classes_ok (map (\<lambda>j. cmd_class (cmd_at j m)) rest)"
  proof -
    have "\<forall>k\<in>set rest. 2 < cmd_class (cmd_at k m) \<or> 2 = cmd_class (cmd_at k m)"
      and r: "classes_ok (map (\<lambda>j. cmd_class (cmd_at j m)) rest)"
      using q(8) cl by (simp_all add: list_classes_def c)
    then show "\<forall>k\<in>set rest. cmd_class (cmd_at k m) = 2"
      using cmd_class_le by (metis leD)
    show "classes_ok (map (\<lambda>j. cmd_class (cmd_at j m)) rest)" by (rule r)
  qed
  have "map (\<lambda>j. cmd_class (cmd_at j (task_process_next m))) rest = map (\<lambda>j. cmd_class (cmd_at j m)) rest"
    using i(3) by (auto simp: at)
  moreover have "cmds (task_process_next m) = i # rest" by (simp add: eq c)
  ultimately have "list_classes (task_process_next m) =
      cmd_class (clear_flag RWNX_CMD_FLAG_WAIT_PUSH (cmd_at i m)) # map (\<lambda>j. cmd_class (cmd_at j m)) rest"
    by (simp add: list_classes_def at)
  moreover have "cmd_class (clear_flag RWNX_CMD_FLAG_WAIT_PUSH (cmd_at i m)) < 2"
    by (simp add: cmd_class_def flag_bits)
  ultimately have "classes_ok (list_classes (task_process_next m))"
    using rest by auto
  moreover have fs: "cmds (task_process_next m) = cmds m" "length (cmd_array (task_process_next m)) = 40"
    "queue_sz (task_process_next m) = queue_sz m" "max_queue_sz (task_process_next m) = 16"
    "callers (task_process_next m) = callers m" "waiters (task_process_next m) = waiters m"
    "worker (task_process_next m) = Some i"
    using q(1,6) by (simp_all add: eq)
  moreover have "used (clear_flag b x) = used x" for b x
    by (simp add: clear_flag_def)
  ultimately show ?thesis
    by (intro reflag_ok [OF ok]) (simp_all add: at flag_bits c i(4))
qed


lemma worker_completion_ok:
  assumes ok: "queue_ok m" and i: "worker m = Some i"
  shows "queue_ok (task_process_completed i m)"
proof -
  note q = queue_okD [OF ok]
  have i': "i \<in> set (cmds m)" "\<not> bit (flags (cmd_at i m)) 2" "i \<notin> set (waiters m)"
    using q(13) i by auto
  have eq: "task_process_completed i m = task_process_next ((remove_cmd i m)\<lparr>worker := None\<rparr>)"
    by (simp add: task_process_completed_def task_process_next_def push_cmd_def cmd_at_def upd_cmd_def
        split: list.splits)
  have "queue_ok ((remove_cmd i m)\<lparr>worker := None\<rparr>)"
    by (rule remove_ok [OF ok i'(1,2)]) (simp_all add: q(1,6) remove_cmd_other remove1_idem i'(3))
  then show ?thesis
    unfolding eq by (rule task_process_next_ok) simp
qed

lemma cmd_complete_flags:
  "\<not> bit (flags (cmd_at i m)) 0 \<Longrightarrow> i < length (cmd_array m) \<Longrightarrow>
     cmds (cmd_complete i m) = cmds m \<and> length (cmd_array (cmd_complete i m)) = length (cmd_array m) \<and>
     queue_sz (cmd_complete i m) = queue_sz m \<and> max_queue_sz (cmd_complete i m) = max_queue_sz m \<and>
     callers (cmd_complete i m) = callers m \<and> waiters (cmd_complete i m) = waiters m \<and>
     worker (cmd_complete i m) = worker m \<and> mgr_st (cmd_complete i m) = mgr_st m \<and>
     cmdWork (cmd_complete i m) = cmdWork m \<and>
     used (cmd_at j (cmd_complete i m)) = used (cmd_at j m) \<and>
     (n \<noteq> 5 \<longrightarrow> bit (flags (cmd_at j (cmd_complete i m))) n = bit (flags (cmd_at j m)) n)"
  by (auto simp: cmd_complete_def Let_def cmd_at_upd flag_bits set_flag_def bit_or_iff)

lemma crash_cmd_crashed:
  "mgr_st (crash_cmd i m) = STATE_CRASHED"
  by (simp add: crash_cmd_def Let_def cmd_complete_def rwnx_cmd_free_def)

lemma task_process_next_st [simp]: "mgr_st (task_process_next m) = mgr_st m"
  by (simp add: task_process_next_def push_cmd_def split: list.splits)

text \<open>A confirmation changes the answer and the confirmation and done flags of one command.\<close>

lemma confirm_fields:
  assumes ok: "queue_ok m" and n_def: "n = snd (cmd_mgr_msgind answers msg m)"
  shows "cmds n = cmds m \<and> length (cmd_array n) = 40 \<and> queue_sz n = queue_sz m \<and> max_queue_sz n = 16 \<and>
    callers n = callers m \<and> waiters n = waiters m \<and> worker n = worker m \<and> mgr_st n = mgr_st m \<and>
    cmdWork n = cmdWork m \<and>
    (\<exists>i. (i \<in> set (cmds m) \<and> bit (flags (cmd_at i m)) 4 \<or> i = 40) \<and>
      (\<forall>j<40. used (cmd_at j n) = used (cmd_at j m) \<and>
        (\<forall>k. k \<noteq> 5 \<longrightarrow> bit (flags (cmd_at j n)) k = (if j = i \<and> k = 4 then False else bit (flags (cmd_at j m)) k))))"
proof (cases "find (\<lambda>i. reqid (cmd_at i m) = ind_id msg \<and>
    has_flag (flags (cmd_at i m)) RWNX_CMD_FLAG_WAIT_CFM \<and> answers (cmd_at i m) msg) (cmds m)")
  case None
  then show ?thesis using queue_okD(1,6) [OF ok] by (auto simp: n_def cmd_mgr_msgind_def intro: exI [of _ 40])
next
  case (Some i)
  note q = queue_okD [OF ok]
  have i: "i \<in> set (cmds m)" "bit (flags (cmd_at i m)) 4"
    using Some by (auto simp: find_Some_iff)
  have i40: "i < 40" using q(3) i(1) by blast
  define m1 where "m1 = upd_cmd i (clear_flag RWNX_CMD_FLAG_WAIT_CFM) m"
  define param where "param = take RWNX_CMD_E2AMSG_LEN_MAX (ind_param msg)"
  define m2 where "m2 = upd_cmd i (\<lambda>c. if e2a_msg c \<noteq> None \<and> param \<noteq> [] then c\<lparr>e2a_msg := Some param\<rparr> else c) m1"
  have n: "n = (if RWNX_CMD_WAIT_COMPLETE (flags (cmd_at i m2)) then cmd_complete i m2 else m2)"
    unfolding n_def cmd_mgr_msgind_def Some m2_def m1_def param_def by (simp add: Let_def)
  have fl2: "flags (cmd_at j m2) = (if j = i then flags (clear_flag RWNX_CMD_FLAG_WAIT_CFM (cmd_at i m)) else flags (cmd_at j m))"
    and us2: "used (cmd_at j m2) = used (cmd_at j m)" for j
    using i40 q(1) by (simp_all add: m2_def m1_def cmd_at_upd clear_flag_def)
  have b2: "bit (flags (cmd_at j m2)) k = (if j = i \<and> k = 4 then False else bit (flags (cmd_at j m)) k)" for j k
    by (simp add: fl2 flag_bits)
  have fs2: "cmds m2 = cmds m" "length (cmd_array m2) = 40" "queue_sz m2 = queue_sz m" "max_queue_sz m2 = 16"
    "callers m2 = callers m" "waiters m2 = waiters m" "worker m2 = worker m" "mgr_st m2 = mgr_st m"
    "cmdWork m2 = cmdWork m"
    using q(1,6) by (simp_all add: m2_def m1_def)
  have "\<not> bit (flags (cmd_at i m2)) 0" using q(7) i40 by (simp add: b2)
  note cc = cmd_complete_flags [OF this]
  have "cmds n = cmds m \<and> length (cmd_array n) = 40 \<and> queue_sz n = queue_sz m \<and> max_queue_sz n = 16 \<and>
    callers n = callers m \<and> waiters n = waiters m \<and> worker n = worker m \<and> mgr_st n = mgr_st m \<and>
    cmdWork n = cmdWork m"
    using cc fs2 i40 by (simp add: n)
  moreover have "used (cmd_at j n) = used (cmd_at j m)" for j
    using cc fs2 i40 us2 by (simp add: n)
  moreover have "bit (flags (cmd_at j n)) k = (if j = i \<and> k = 4 then False else bit (flags (cmd_at j m)) k)"
    if "k \<noteq> 5" for j k
    using cc fs2 i40 b2 that by (simp add: n)
  ultimately show ?thesis using i by blast
qed

lemma confirm_ok:
  assumes ok: "queue_ok m"
  shows "queue_ok (snd (cmd_mgr_msgind answers msg m))"
proof -
  note q = queue_okD [OF ok]
  define n where "n = snd (cmd_mgr_msgind answers msg m)"
  obtain i where i: "i \<in> set (cmds m) \<and> bit (flags (cmd_at i m)) 4 \<or> i = 40"
    and us: "\<And>j. j < 40 \<Longrightarrow> used (cmd_at j n) = used (cmd_at j m)"
    and b: "\<And>j k. j < 40 \<Longrightarrow> k \<noteq> 5 \<Longrightarrow>
      bit (flags (cmd_at j n)) k = (if j = i \<and> k = 4 then False else bit (flags (cmd_at j m)) k)"
    and fs: "cmds n = cmds m" "length (cmd_array n) = 40" "queue_sz n = queue_sz m" "max_queue_sz n = 16"
      "callers n = callers m" "waiters n = waiters m" "worker n = worker m"
    using confirm_fields [OF ok n_def] by blast
  have lt: "j < 40" if "j \<in> set (cmds m)" for j using q(3) that by blast
  have cls: "cmd_class (cmd_at j n) =
     (if j = i then if cmd_class (cmd_at i m) = 2 then 2 else 0 else cmd_class (cmd_at j m))"
    if "j < 40" for j
    using that by (auto simp: cmd_class_def b)
  have "classes_ok (list_classes n)"
  proof (cases "i = 40")
    case True
    then have "list_classes n = list_classes m"
      using cls lt by (auto simp: list_classes_def fs(1))
    then show ?thesis using q(8) by simp
  next
    case False
    then have im: "i \<in> set (cmds m)" "bit (flags (cmd_at i m)) 4" using i by auto
    have "classes_ok (map (\<lambda>j. if j = i then if cmd_class (cmd_at i m) = 2 then 2 else 0
        else cmd_class (cmd_at j m)) (cmds m))"
      using q(8) [unfolded list_classes_def] q(2) im(1)
      by (rule classes_ok_confirm) (use im(2) in \<open>simp_all add: cmd_class_le\<close>, simp add: cmd_class_def)
    moreover have "list_classes n = map (\<lambda>j. if j = i then if cmd_class (cmd_at i m) = 2 then 2 else 0
        else cmd_class (cmd_at j m)) (cmds m)"
      unfolding list_classes_def fs(1) using cls lt by (intro map_cong refl) simp
    ultimately show ?thesis by simp
  qed
  then show ?thesis
    unfolding n_def [symmetric]
    by (intro reflag_ok [OF ok]) (use q(13) lt in \<open>simp_all add: fs us b\<close>)
qed

lemma enqueue_cmd_simps:
  "cmds (enqueue_cmd i m) = cmds m @ [i]" "queue_sz (enqueue_cmd i m) = queue_sz m + 1"
  "max_queue_sz (enqueue_cmd i m) = max_queue_sz m" "callers (enqueue_cmd i m) = callers m"
  "waiters (enqueue_cmd i m) = waiters m" "worker (enqueue_cmd i m) = worker m"
  "length (cmd_array (enqueue_cmd i m)) = length (cmd_array m)" "mgr_st (enqueue_cmd i m) = mgr_st m"
  "usb_up (enqueue_cmd i m) = usb_up m" "sent (enqueue_cmd i m) = sent m"
  "checks (enqueue_cmd i m) = checks m" "cmdWork (enqueue_cmd i m) = cmdWork m"
  "next_tkn (enqueue_cmd i m) = next_tkn m + 1"
  by (simp_all add: enqueue_cmd_def Let_def)

lemma enqueue_cmd_at:
  "i < length (cmd_array m) \<Longrightarrow>
   (j \<noteq> i \<longrightarrow> cmd_at j (enqueue_cmd i m) = cmd_at j m) \<and>
   used (cmd_at i (enqueue_cmd i m)) = used (cmd_at i m) \<and>
   a2e_msg (cmd_at i (enqueue_cmd i m)) = a2e_msg (cmd_at i m) \<and>
   (bit (flags (cmd_at i (enqueue_cmd i m))) n \<longleftrightarrow>
      bit (flags (cmd_at i m)) n \<or> n = 4 \<and> bit (flags (cmd_at i m)) 1)"
  by (simp add: enqueue_cmd_def Let_def cmd_at_upd set_flag_def bit_or_iff flag_bits)

text \<open>A block outside the list changes hands.\<close>

lemma outside_ok:
  assumes ok: "queue_ok m" and i: "i < 40" "i \<notin> set (cmds m)"
    and m': "cmds m' = cmds m" "length (cmd_array m') = 40" "queue_sz m' = queue_sz m" "max_queue_sz m' = 16"
      "waiters m' = waiters m" "worker m' = worker m" "\<forall>j. j \<noteq> i \<longrightarrow> cmd_at j m' = cmd_at j m"
    and c: "\<forall>n\<in>{0, 2, 3}. \<not> bit (flags (cmd_at i m')) n"
    and cl: "distinct (callers m')" "set (callers m') \<subseteq> insert i (set (callers m))"
      "i \<in> set (callers m') \<longrightarrow> used (cmd_at i m')"
  shows "queue_ok m'"
proof -
  note q = queue_okD [OF ok]
  have same: "cmd_at j m' = cmd_at j m" if "j \<in> set (cmds m)" for j
    using that i(2) m'(7) by metis
  show ?thesis
  proof (rule queue_okI)
    have "list_classes m' = list_classes m"
      using same by (simp add: list_classes_def m'(1))
    then show "classes_ok (list_classes m')" using q(8) by simp
    show "\<not> bit (flags (cmd_at j m')) 0 \<and> \<not> bit (flags (cmd_at j m')) 3" if "j < 40" for j
      using q(7) m'(7) c that by (cases "j = i") auto
    show "j \<in> set (cmds m')" if "j < 40" "bit (flags (cmd_at j m')) 2" for j
      using q(7) m'(1,7) c that by (cases "j = i") auto
    show "j < 40 \<and> used (cmd_at j m')" if "j \<in> set (cmds m')" for j
      using q(3) same m'(1) that by simp
    show "j < 40 \<and> used (cmd_at j m') \<and> j \<notin> set (cmds m')" if "j \<in> set (callers m')" for j
      using q(10) cl(2,3) m'(1,7) i that by (cases "j = i") auto
    show "j \<in> set (cmds m') \<and> \<not> bit (flags (cmd_at j m')) 2" if "j \<in> set (waiters m')" for j
      using q(12) same m'(1,5) that by simp
    show "j \<in> set (cmds m') \<and> \<not> bit (flags (cmd_at j m')) 2 \<and> j \<notin> set (waiters m')"
      if "worker m' = Some j" for j
      using q(13) same m'(1,5,6) that by simp
  qed (use q m' cl(1) in simp_all)
qed

lemma queue_room:
  assumes ok: "queue_ok m" and room: "\<not> (cmds m \<noteq> [] \<and> queue_sz m = max_queue_sz m)"
  shows "length (cmds m) < 16" "unat (queue_sz m + 1) = length (cmds m) + 1"
proof -
  note q = queue_okD [OF ok]
  have "unat (queue_sz m) \<noteq> 16"
  proof
    assume *: "unat (queue_sz m) = 16"
    then have "unat (queue_sz m) = unat (16 :: u32)" by simp
    then have "queue_sz m = 16" by (rule unsigned_word_eqI)
    moreover have "cmds m \<noteq> []" using * q(4) by auto
    ultimately show False using room q(6) by simp
  qed
  then show l: "length (cmds m) < 16" using q(4,5) by linarith
  then have "queue_sz m < 16" using q(4) by (simp add: word_less_nat_alt)
  then show "unat (queue_sz m + 1) = length (cmds m) + 1"
    using q(4) by (simp add: unat_inc [where y = 16])
qed

lemma error_ok:
  assumes ok: "queue_ok m" and i: "i \<in> set (callers m)"
  shows "queue_ok ((rwnx_cmd_free i (upd_cmd i (cmd_result_update f) m))\<lparr>callers := remove1 i (callers m)\<rparr>)"
proof -
  note q = queue_okD [OF ok]
  have i40: "i < 40" "i \<notin> set (cmds m)" using q(10) i by auto
  have "\<forall>n\<in>{0, 2, 3}. \<not> bit (flags (cmd_at i m)) n" using q(7) i40 by auto
  moreover have "set (remove1 i (callers m)) \<subseteq> insert i (set (callers m))"
    using set_remove1_subset by fast
  ultimately show ?thesis
    by (intro outside_ok [OF ok i40])
       (use q i40 in \<open>simp_all add: rwnx_cmd_free_def distinct_remove1 cmd_at_upd\<close>)
qed

lemma force_defer_ok:
  assumes ok: "queue_ok m" and i: "i \<in> set (callers m)" and up: "mgr_st m \<noteq> STATE_CRASHED"
  shows "queue_ok (caller_defers i m)"
proof (cases "cmds m \<noteq> [] \<and> queue_sz m = max_queue_sz m")
  case True
  then have eq: "caller_defers i m =
      (rwnx_cmd_free i (upd_cmd i (cmd_result_update (\<lambda>_. - ENOMEM)) m))\<lparr>callers := remove1 i (callers m)\<rparr>"
    using up by (simp add: caller_defers_def cmd_mgr_queue_force_defer_def ENOMEM_def rwnx_cmd_free_def)
  show ?thesis unfolding eq by (rule error_ok [OF ok i])
next
  case False
  note q = queue_okD [OF ok]
  have i40: "i < 40" "used (cmd_at i m)" "i \<notin> set (cmds m)" using q(10) i by auto
  define m1 where "m1 = upd_cmd i (set_flag RWNX_CMD_FLAG_WAIT_PUSH) m"
  have eq: "caller_defers i m = (enqueue_cmd i m1)\<lparr>cmdWork := True, callers := remove1 i (callers m)\<rparr>"
    using up False by (auto simp: caller_defers_def cmd_mgr_queue_force_defer_def m1_def enqueue_cmd_simps)
  have i1: "i < length (cmd_array m1)" using q(1) i40 by (simp add: m1_def)
  have c1: "cmd_at i m1 = set_flag RWNX_CMD_FLAG_WAIT_PUSH (cmd_at i m)"
    and o1: "\<forall>j. j \<noteq> i \<longrightarrow> cmd_at j m1 = cmd_at j m"
    using i40 q(1) by (simp_all add: m1_def cmd_at_upd)
  have b: "\<not> bit (flags (cmd_at i m)) 0" "\<not> bit (flags (cmd_at i m)) 3" using q(7) i40 by auto
  note at = enqueue_cmd_at [OF i1]
  define n where "n = caller_defers i m"
  have n: "cmds n = cmds m @ [i]" "length (cmd_array n) = 40" "queue_sz n = queue_sz m + 1"
    "max_queue_sz n = 16" "callers n = remove1 i (callers m)" "worker n = worker m"
    "waiters n = waiters m" "cmd_at j n = cmd_at j (enqueue_cmd i m1)" for j
    using q(1,6) by (simp_all add: n_def eq enqueue_cmd_simps m1_def)
  have "bit (flags (cmd_at i n)) k \<longleftrightarrow> bit (flags (cmd_at i m)) k \<or> k = 2 \<or> k = 4 \<and> bit (flags (cmd_at i m)) 1" for k
    using at by (auto simp: n c1 flag_bits)
  moreover have "used (cmd_at i n)" using at i40(2) by (simp add: n c1 set_flag_def)
  moreover have "\<forall>j. j \<noteq> i \<longrightarrow> cmd_at j n = cmd_at j m" using at o1 by (simp add: n)
  ultimately show ?thesis
    unfolding n_def [symmetric]
    by (intro append_ok [OF ok i]) (use queue_room [OF ok False] b n in simp_all)
qed

lemma queue_call_ok:
  assumes ok: "queue_ok m" and i: "i \<in> set (callers m)" and up: "mgr_st m \<noteq> STATE_CRASHED"
  shows "queue_ok (caller_queues i m)"
proof -
  note q = queue_okD [OF ok]
  have i40: "i < 40" "used (cmd_at i m)" "i \<notin> set (cmds m)" using q(10) i by auto
  define defer1 where "defer1 = (cmds m \<noteq> [] \<and> has_flag (flags (cmd_at (last (cmds m)) m)) wait_flags)"
  define m1 where "m1 = (if defer1 then upd_cmd i (set_flag RWNX_CMD_FLAG_WAIT_PUSH) m else m)"
  define defer2 where "defer2 = deferred_id (msg_id (a2e_msg (cmd_at i m)))"
  define m3 where "m3 = (if defer2 then upd_cmd i (set_flag RWNX_CMD_FLAG_WAIT_PUSH) (enqueue_cmd i m1)
                         else enqueue_cmd i m1)"
  consider (retry) "e2a_msg (cmd_at i m) \<noteq> None" "cmds m \<noteq> []"
    | (full) "\<not> (e2a_msg (cmd_at i m) \<noteq> None \<and> cmds m \<noteq> [])" "cmds m \<noteq> [] \<and> queue_sz m = max_queue_sz m"
    | (room) "\<not> (e2a_msg (cmd_at i m) \<noteq> None \<and> cmds m \<noteq> [])" "\<not> (cmds m \<noteq> [] \<and> queue_sz m = max_queue_sz m)"
    by blast
  then show ?thesis
  proof cases
    case retry
    then show ?thesis using ok up by (simp add: caller_queues_def cmd_mgr_queue_def)
  next
    case full
    then have "cmd_mgr_queue i m = (Q_error (- ENOMEM), upd_cmd i (cmd_result_update (\<lambda>_. - ENOMEM)) m)"
      using up unfolding cmd_mgr_queue_def by auto
    then have eq: "caller_queues i m =
        (rwnx_cmd_free i (upd_cmd i (cmd_result_update (\<lambda>_. - ENOMEM)) m))\<lparr>callers := remove1 i (callers m)\<rparr>"
      by (simp add: caller_queues_def rwnx_cmd_free_def)
    show ?thesis unfolding eq by (rule error_ok [OF ok i])
  next
    case room
    have eq: "cmd_mgr_queue i m = (if defer1 \<or> defer2 then (Q_deferred, m3) else (Q_sent, push_cmd i m3))"
      using up room unfolding cmd_mgr_queue_def defer1_def m1_def defer2_def m3_def Let_def by auto
    define n where "n = caller_queues i m"
    have i1: "i < length (cmd_array m1)" using q(1) i40 by (simp add: m1_def)
    note at = enqueue_cmd_at [OF i1]
    have o1: "\<forall>j. j \<noteq> i \<longrightarrow> cmd_at j m1 = cmd_at j m"
      and u1: "used (cmd_at i m1)"
      and b1: "bit (flags (cmd_at i m1)) k \<longleftrightarrow> bit (flags (cmd_at i m)) k \<or> k = 2 \<and> defer1" for k
      using i40 q(1) by (auto simp: m1_def cmd_at_upd flag_bits set_flag_def bit_or_iff)
    have b: "\<not> bit (flags (cmd_at i m)) 0" "\<not> bit (flags (cmd_at i m)) 3" "\<not> bit (flags (cmd_at i m)) 2"
      using q(7) i40 by auto
    have fs1: "cmds m1 = cmds m" "length (cmd_array m1) = 40" "queue_sz m1 = queue_sz m" "max_queue_sz m1 = 16"
      "callers m1 = callers m" "waiters m1 = waiters m" "worker m1 = worker m"
      using q(1,6) by (simp_all add: m1_def)
    have o3: "\<forall>j. j \<noteq> i \<longrightarrow> cmd_at j m3 = cmd_at j m" and u3: "used (cmd_at i m3)"
      and b3: "bit (flags (cmd_at i m3)) k \<longleftrightarrow>
        bit (flags (cmd_at i m)) k \<or> k = 2 \<and> (defer1 \<or> defer2) \<or> k = 4 \<and> bit (flags (cmd_at i m)) 1" for k
      using i40 q(1) i1 o1 u1 b1 at
      by (auto simp: m3_def cmd_at_upd enqueue_cmd_simps fs1 flag_bits set_flag_def bit_or_iff)
    have fs3: "cmds m3 = cmds m @ [i]" "length (cmd_array m3) = 40" "queue_sz m3 = queue_sz m + 1"
      "max_queue_sz m3 = 16" "callers m3 = callers m" "waiters m3 = waiters m" "worker m3 = worker m"
      by (simp_all add: m3_def enqueue_cmd_simps fs1)
    have n: "cmds n = cmds m @ [i]" "length (cmd_array n) = 40" "queue_sz n = queue_sz m + 1"
      "max_queue_sz n = 16" "callers n = remove1 i (callers m)" "worker n = worker m"
      "waiters n = (if defer1 \<or> defer2 then waiters m else i # waiters m)" "cmd_at j n = cmd_at j m3" for j
      using fs3 by (auto simp: n_def caller_queues_def eq cmd_at_def push_cmd_def)
    have cls: "defer1 \<or> (\<forall>k\<in>set (list_classes m). k = 0)"
    proof (cases "cmds m = []")
      case True
      then show ?thesis by (simp add: list_classes_def)
    next
      case False
      show ?thesis
      proof (cases defer1)
        case d: False
        then have "last (list_classes m) = 0"
          using False by (simp add: defer1_def list_classes_def last_map cmd_class_def)
        then show ?thesis
          using classes_ok_last [OF q(8)] False by (auto simp: list_classes_def)
      qed simp
    qed
    show ?thesis
      unfolding n_def [symmetric]
      by (rule append_ok [OF ok i])
         (use queue_room [OF ok room(2)] cls o3 u3 b in \<open>auto simp: n b3\<close>)
  qed
qed

lemma send_ok:
  assumes ok: "queue_ok m" and s: "rwnx_send_msg msg reqcfm rid cfm m = Some (r, m')"
  shows "queue_ok m'"
proof (cases "usb_up m")
  case False
  then show ?thesis using ok s by (simp add: rwnx_send_msg_def)
next
  case up: True
  note q = queue_okD [OF ok]
  obtain i where i: "first_index (\<lambda>c. \<not> used c) (cmd_array m) = Some i"
    using s up by (cases "first_index (\<lambda>c. \<not> used c) (cmd_array m)")
      (simp_all add: rwnx_send_msg_def rwnx_cmd_malloc_def)
  have i40: "i < 40" "\<not> used (cmd_at i m)"
    using i q(1) by (auto simp: first_index_Some cmd_at_def)
  then have out: "i \<notin> set (cmds m)" "i \<notin> set (callers m)" using q(3,10) by auto
  define m2 where "m2 = upd_cmd i (fill_cmd msg rid cfm reqcfm) (upd_cmd i (used_update (\<lambda>_. True)) m)"
  have at: "cmd_at j m2 = (if j = i then fill_cmd msg rid cfm reqcfm (used_update (\<lambda>_. True) (cmd_at i m)) else cmd_at j m)" for j
    using i40 q(1) by (simp add: m2_def cmd_at_upd)
  have fs: "cmds m2 = cmds m" "length (cmd_array m2) = 40" "queue_sz m2 = queue_sz m" "max_queue_sz m2 = 16"
    "callers m2 = callers m" "waiters m2 = waiters m" "worker m2 = worker m"
    using q(1,6) by (simp_all add: m2_def)
  have "\<not> bit (flags (cmd_at i m)) 0" "\<not> bit (flags (cmd_at i m)) 3" "\<not> bit (flags (cmd_at i m)) 2"
    using q(7) i40 out by auto
  then have b: "\<forall>n\<in>{0, 2, 3}. \<not> bit (flags (cmd_at i m2)) n"
    by (simp add: at fill_cmd_def Let_def set_flag_def clear_flag_def bit_or_iff bit_and_iff bit_not_iff flag_bits)
  have u: "used (cmd_at i m2)"
    by (simp add: at fill_cmd_def Let_def set_flag_def clear_flag_def)
  have m': "m' = (if reqcfm then m2\<lparr>callers := i # callers m2\<rparr> else rwnx_cmd_free i (push_cmd i m2))"
    using s up i by (auto simp: rwnx_send_msg_def rwnx_cmd_malloc_def m2_def Let_def split: if_splits)
  show ?thesis
    unfolding m'
    by (rule outside_ok [OF ok i40(1) out(1)])
       (use fs b u out(2) q(9) i40 in \<open>auto simp: rwnx_cmd_free_def cmd_at_upd at\<close>)
qed

lemma crashed_stays:
  "mgr_step m m' \<Longrightarrow> mgr_st m = STATE_CRASHED \<Longrightarrow> mgr_st m' = STATE_CRASHED"
proof (induction rule: mgr_step.induct)
  case (send msg reqcfm rid cfm m r m1)
  then show ?case
    by (auto simp: rwnx_send_msg_def rwnx_cmd_malloc_def rwnx_cmd_free_def push_cmd_def Let_def
        split: if_splits option.splits)
next
  case (confirm m answers msg)
  then show ?case
    by (auto simp: cmd_mgr_msgind_def cmd_complete_def rwnx_cmd_free_def Let_def split: option.splits)
qed (auto simp: caller_queues_def caller_defers_def cmd_mgr_queue_def cmd_mgr_queue_force_defer_def
      rwnx_cmd_free_def deferred_check_def queue_completed_def queue_timed_out_def crash_cmd_crashed
      task_process_completed_def task_process_timed_out_def Let_def)

lemma mgr_step_ok:
  assumes "mgr_step m m'" and "mgr_ok m"
  shows "mgr_ok m'"
proof (cases "mgr_st m = STATE_CRASHED")
  case True
  then show ?thesis using crashed_stays assms(1) by (simp add: mgr_ok_def)
next
  case up: False
  then have ok: "queue_ok m" using assms(2) by (simp add: mgr_ok_def)
  note q = queue_okD [OF ok]
  have same: "queue_ok m2" if "cmds m2 = cmds m" "cmd_array m2 = cmd_array m" "queue_sz m2 = queue_sz m"
     "max_queue_sz m2 = max_queue_sz m" "callers m2 = callers m" "waiters m2 = waiters m" "worker m2 = worker m" for m2
    using ok that unfolding queue_ok_def list_classes_def cmd_at_def by simp
  have "queue_ok m' \<or> mgr_st m' = STATE_CRASHED"
    using assms(1)
  proof cases
    case send
    then show ?thesis using send_ok [OF ok] by blast
  next
    case queue
    then show ?thesis using queue_call_ok [OF ok _ up] by blast
  next
    case force
    then show ?thesis using force_defer_ok [OF ok _ up] by blast
  next
    case check
    then show ?thesis using same by (simp add: deferred_check_def)
  next
    case completion
    then show ?thesis using completion_ok [OF ok] by blast
  next
    case timeout
    then show ?thesis by (simp add: rwnx_cmd_free_def queue_timed_out_def crash_cmd_crashed)
  next
    case work
    then show ?thesis using task_process_next_ok [OF same [of "m\<lparr>cmdWork := False\<rparr>"]] by simp
  next
    case worker_completion
    then show ?thesis using worker_completion_ok [OF ok] by blast
  next
    case worker_timeout
    then show ?thesis by (simp add: task_process_timed_out_def crash_cmd_crashed)
  next
    case confirm
    then show ?thesis using confirm_ok [OF ok] by blast
  next
    case (bus b)
    then show ?thesis using same by simp
  qed
  then show ?thesis by (auto simp: mgr_ok_def)
qed

lemma init_ok: "mgr_ok rwnx_cmd_mgr_init"
  by (auto simp: mgr_ok_def queue_ok_def rwnx_cmd_mgr_init_def rwnx_init_cmd_array_def RWNX_CMD_ARRAY_SIZE_def
      RWNX_CMD_MAX_QUEUED_def list_classes_def cmd_at_def blank_cmd_def)

lemma reachable_ok: "mgr_reachable m \<Longrightarrow> mgr_ok m"
  by (induction rule: mgr_reachable.induct) (auto intro: init_ok mgr_step_ok)

subsection \<open>Properties\<close>

text \<open>C8: While the command manager has not crashed, in every reachable state the list holds
  no command twice, \<open>queue_sz\<close> is its length and at most 16, its blocks are in use, and behind
  a command that the firmware works on every command still waits to be pushed (so at most
  one command is with the firmware).\<close>

theorem cmd_queue_invariant:
  assumes "mgr_reachable m" and "mgr_st m \<noteq> STATE_CRASHED"
  shows "distinct (cmds m) \<and> unat (queue_sz m) = length (cmds m) \<and> length (cmds m) \<le> 16 \<and>
     (\<forall>i\<in>set (cmds m). i < RWNX_CMD_ARRAY_SIZE \<and> used (cmd_at i m)) \<and>
     (\<forall>p q. p < q \<and> q < length (cmds m) \<and>
        has_flag (flags (cmd_at (cmds m ! p) m)) RWNX_CMD_FLAG_WAIT_CFM \<longrightarrow>
        has_flag (flags (cmd_at (cmds m ! q) m)) RWNX_CMD_FLAG_WAIT_PUSH)"
proof -
  have q: "queue_ok m" using reachable_ok assms by (auto simp: mgr_ok_def)
  note d = queue_okD [OF q]
  have "bit (flags (cmd_at (cmds m ! b) m)) 2"
    if "a < b" "b < length (cmds m)" "bit (flags (cmd_at (cmds m ! a) m)) 4" for a b
  proof -
    have "cmd_class (cmd_at (cmds m ! a) m) < cmd_class (cmd_at (cmds m ! b) m) \<or>
        cmd_class (cmd_at (cmds m ! a) m) = cmd_class (cmd_at (cmds m ! b) m) \<and> cmd_class (cmd_at (cmds m ! a) m) \<noteq> 1"
      using d(8) that(1,2) by (simp add: classes_ok_def list_classes_def sorted_wrt_iff_nth_less)
    moreover have "cmd_class (cmd_at (cmds m ! a) m) \<noteq> 0"
      using that(3) by (simp add: cmd_class_def)
    ultimately show ?thesis by (auto simp: cmd_class_def split: if_splits)
  qed
  then show ?thesis using d(2-5) by (auto simp: RWNX_CMD_ARRAY_SIZE_def)
qed

text \<open>A run: one call sends a command and waits, the next two are deferred behind it.\<close>

definition arp_msg :: lmac_msg where
  "arp_msg = \<lparr>msg_id = MM_SET_ARPOFFLOAD_REQ, msg_dest = 0, msg_src = 100, msg_param = [192, 168, 0, 1]\<rparr>"

definition traffic_msg :: lmac_msg where
  "traffic_msg = \<lparr>msg_id = ME_TRAFFIC_IND_REQ, msg_dest = 5, msg_src = 100, msg_param = [1, 1, 0, 0]\<rparr>"

definition key_msg :: lmac_msg where
  "key_msg = \<lparr>msg_id = 36, msg_dest = 0, msg_src = 100, msg_param = [7]\<rparr>"

definition calls :: "lmac_msg \<Rightarrow> bytes option \<Rightarrow> rwnx_cmd_mgr \<Rightarrow> rwnx_cmd_mgr" where
  "calls msg cfm m = (case rwnx_send_msg msg True (msg_id msg + 1) cfm m of Some (_, m1) \<Rightarrow> m1 | None \<Rightarrow> m)"

lemma calls_reachable: "mgr_reachable m \<Longrightarrow> mgr_reachable (calls msg cfm m)"
  unfolding calls_def by (auto split: option.splits intro: mgr_reachable.step mgr_step.send)

lemma queues_reachable: "mgr_reachable m \<Longrightarrow> i \<in> set (callers m) \<Longrightarrow> mgr_reachable (caller_queues i m)"
  by (blast intro: mgr_reachable.step mgr_step.queue)

lemma checks_reachable:
  "mgr_reachable m \<Longrightarrow> 0 < checks m \<Longrightarrow> mgr_reachable ((deferred_check m)\<lparr>checks := checks m - 1\<rparr>)"
  by (blast intro: mgr_reachable.step mgr_step.check)

definition run1 :: rwnx_cmd_mgr where
  "run1 = caller_queues 1 (caller_queues 0 (calls traffic_msg None (calls key_msg None rwnx_cmd_mgr_init)))"

lemma run1_cmds: "cmds run1 = [0, 1] \<and> mgr_st run1 = STATE_INITED \<and>
   has_flag (flags (cmd_at 0 run1)) RWNX_CMD_FLAG_WAIT_CFM \<and> queue_sz run1 = 2"
  by code_simp


lemma run1_reachable: "mgr_reachable run1"
proof -
  let ?m = "calls traffic_msg None (calls key_msg None rwnx_cmd_mgr_init)"
  have r: "mgr_reachable ?m" by (intro calls_reachable mgr_reachable.start)
  have "0 \<in> set (callers ?m)" by code_simp
  with r have "mgr_reachable (caller_queues 0 ?m)" by (rule queues_reachable)
  moreover have "1 \<in> set (callers (caller_queues 0 ?m))" by code_simp
  ultimately show ?thesis unfolding run1_def by (rule queues_reachable)
qed

lemma cmd_queue_invariant_witness:
  "mgr_reachable run1 \<and> has_flag (flags (cmd_at (cmds run1 ! 1) run1)) RWNX_CMD_FLAG_WAIT_PUSH"
  using cmd_queue_invariant [OF run1_reachable] run1_cmds run1_reachable by fastforce

subsection \<open>A lost wake-up\<close>

text \<open>The commands \<open>old\<close> and those behind them wait to be pushed, nobody waits for a command, the worker sleeps.\<close>

definition stuck :: "nat list \<Rightarrow> rwnx_cmd_mgr \<Rightarrow> bool" where
  "stuck old m \<longleftrightarrow> queue_ok m \<and> mgr_st m = STATE_INITED \<and> \<not> cmdWork m \<and> worker m = None \<and> waiters m = [] \<and>
     2 \<le> length (cmds m) \<and> take 2 (cmds m) = old \<and>
     (\<forall>i\<in>set (cmds m). has_flag (flags (cmd_at i m)) RWNX_CMD_FLAG_WAIT_PUSH)"

lemma mgr_st_upd [simp]: "mgr_st (rwnx_cmd_free i m) = mgr_st m" "cmdWork (rwnx_cmd_free i m) = cmdWork m"
  "worker (rwnx_cmd_free i m) = worker m" "waiters (rwnx_cmd_free i m) = waiters m"
  "cmds (rwnx_cmd_free i m) = cmds m" "flags (cmd_at j (rwnx_cmd_free i m)) = flags (cmd_at j m)"
  by (simp_all add: rwnx_cmd_free_def)

lemma stuck_queue:
  assumes s: "stuck old m" and i: "i \<in> set (callers m)"
  shows "stuck old (caller_queues i m)"
proof -
  have ok: "queue_ok m" and up: "mgr_st m = STATE_INITED" using s by (auto simp: stuck_def)
  have ne: "cmds m \<noteq> []" using s by (auto simp: stuck_def)
  have "queue_ok (caller_queues i m)" using queue_call_ok [OF ok i] up by simp
  moreover have l: "has_flag (flags (cmd_at (last (cmds m)) m)) wait_flags"
    using s ne by (auto simp: stuck_def)
  note q = queue_okD [OF ok]
  have i40: "i < length (cmd_array m)" "i \<notin> set (cmds m)" using q(1,10) i by auto
  define m1 where "m1 = upd_cmd i (set_flag RWNX_CMD_FLAG_WAIT_PUSH) m"
  have i1: "i < length (cmd_array m1)" using i40 by (simp add: m1_def)
  note at = enqueue_cmd_at [OF i1]
  have o1: "j \<noteq> i \<longrightarrow> cmd_at j m1 = cmd_at j m" and c1: "bit (flags (cmd_at i m1)) 2" for j
    using i40 by (simp_all add: m1_def cmd_at_upd flag_bits bit_or_iff)
  have at2: "cmd_at j (enqueue_cmd i m1) = cmd_at j m" if "j \<in> set (cmds m)" for j
    using at o1 i40(2) that by metis
  have at3: "bit (flags (cmd_at i (enqueue_cmd i m1))) 2" using at c1 by blast
  have "caller_queues i m = m \<or>
     (\<exists>f. caller_queues i m = (rwnx_cmd_free i (upd_cmd i (cmd_result_update f) m))\<lparr>callers := remove1 i (callers m)\<rparr>) \<or>
     (\<exists>m3. (m3 = enqueue_cmd i m1 \<or> m3 = upd_cmd i (set_flag RWNX_CMD_FLAG_WAIT_PUSH) (enqueue_cmd i m1)) \<and>
        caller_queues i m = m3\<lparr>callers := remove1 i (callers m3), checks := checks m3 + 1\<rparr>)"
    using l ne up unfolding caller_queues_def cmd_mgr_queue_def Let_def m1_def
    by (auto simp: rwnx_cmd_free_def)
  then show ?thesis
  proof (elim disjE exE conjE)
    assume "caller_queues i m = m" then show ?thesis using s by simp
  next
    fix f assume "caller_queues i m = (rwnx_cmd_free i (upd_cmd i (cmd_result_update f) m))\<lparr>callers := remove1 i (callers m)\<rparr>"
    with calculation s show ?thesis by (simp add: stuck_def)
  next
    fix m3 assume m3: "m3 = enqueue_cmd i m1" "caller_queues i m = m3\<lparr>callers := remove1 i (callers m3), checks := checks m3 + 1\<rparr>"
    have "\<forall>j\<in>set (cmds m @ [i]). bit (flags (cmd_at j m3)) 2"
      using s at2 at3 by (auto simp: stuck_def m3(1))
    with calculation s m3 show ?thesis by (simp add: stuck_def enqueue_cmd_simps m1_def)
  next
    fix m3 assume m3: "m3 = upd_cmd i (set_flag RWNX_CMD_FLAG_WAIT_PUSH) (enqueue_cmd i m1)"
      "caller_queues i m = m3\<lparr>callers := remove1 i (callers m3), checks := checks m3 + 1\<rparr>"
    have "\<forall>j\<in>set (cmds m @ [i]). bit (flags (cmd_at j m3)) 2"
      using s at2 at3 i40(2) i1 by (auto simp: stuck_def m3(1) cmd_at_upd enqueue_cmd_simps flag_bits)
    with calculation s m3 show ?thesis by (simp add: stuck_def enqueue_cmd_simps m1_def)
  qed
qed

lemma send_fields:
  assumes l: "length (cmd_array m) = 40" and s: "rwnx_send_msg msg reqcfm rid cfm m = Some (r, m')"
  shows "cmds m' = cmds m \<and> mgr_st m' = mgr_st m \<and> cmdWork m' = cmdWork m \<and> worker m' = worker m \<and>
     waiters m' = waiters m \<and> (\<forall>j. j < 40 \<and> used (cmd_at j m) \<longrightarrow> flags (cmd_at j m') = flags (cmd_at j m))"
proof (cases "usb_up m")
  case False
  then show ?thesis using s by (simp add: rwnx_send_msg_def)
next
  case up: True
  obtain i where i: "first_index (\<lambda>c. \<not> used c) (cmd_array m) = Some i"
    using s up by (cases "first_index (\<lambda>c. \<not> used c) (cmd_array m)")
      (simp_all add: rwnx_send_msg_def rwnx_cmd_malloc_def)
  then have "i < 40" "\<not> used (cmd_at i m)" using l by (auto simp: first_index_Some cmd_at_def)
  then show ?thesis
    using s up i l
    by (auto simp: rwnx_send_msg_def rwnx_cmd_malloc_def Let_def push_cmd_def cmd_at_upd split: if_splits)
qed

lemma stuck_step:
  assumes s: "stuck old m" and st: "mgr_step m m'"
  shows "stuck old m' \<or> (\<exists>i\<in>set (callers m). m' = caller_defers i m)"
proof -
  have ok: "queue_ok m" and up: "mgr_st m = STATE_INITED" using s by (auto simp: stuck_def)
  note q = queue_okD [OF ok]
  have mok: "mgr_ok m'" using mgr_step_ok [OF st] ok by (simp add: mgr_ok_def)
  show ?thesis
    using st
  proof cases
    case (send msg reqcfm rid cfm r)
    then show ?thesis using s mok q(3) send_fields [OF q(1) send] by (simp add: stuck_def mgr_ok_def)
  next
    case (queue i)
    then show ?thesis using stuck_queue [OF s] by blast
  next
    case (force i)
    then show ?thesis by blast
  next
    case check
    have "\<not> queue_sz m \<le> 1" using s q(4) by (auto simp: stuck_def word_le_nat_alt)
    then show ?thesis using s mok check(1) by (simp add: stuck_def mgr_ok_def deferred_check_def)
  next
    case (completion i)
    then show ?thesis using s by (simp add: stuck_def)
  next
    case (timeout i)
    then show ?thesis using s by (simp add: stuck_def)
  next
    case work
    then show ?thesis using s by (simp add: stuck_def)
  next
    case (worker_completion i)
    then show ?thesis using s by (simp add: stuck_def)
  next
    case (worker_timeout i)
    then show ?thesis using s by (simp add: stuck_def)
  next
    case (confirm answers msg)
    have lt: "j < 40" if "j \<in> set (cmds m)" for j using q(3) that by blast
    show ?thesis using s mok confirm_fields [OF ok confirm] lt by (auto simp: stuck_def mgr_ok_def)
  next
    case (bus b)
    then show ?thesis using s mok by (simp add: stuck_def mgr_ok_def)
  qed
qed


text \<open>Two calls are deferred at the same time: each finds two commands in the list.\<close>

definition two_calls :: rwnx_cmd_mgr where
  "two_calls = caller_queues 1 (caller_queues 0 (calls traffic_msg None (calls arp_msg None rwnx_cmd_mgr_init)))"

definition check_once :: "rwnx_cmd_mgr \<Rightarrow> rwnx_cmd_mgr" where
  "check_once m = (deferred_check m)\<lparr>checks := checks m - 1\<rparr>"

definition lost :: rwnx_cmd_mgr where
  "lost = check_once (check_once two_calls)"

lemma two_calls_reachable: "mgr_reachable two_calls"
proof -
  let ?m = "calls traffic_msg None (calls arp_msg None rwnx_cmd_mgr_init)"
  have r: "mgr_reachable ?m" by (intro calls_reachable mgr_reachable.start)
  have "0 \<in> set (callers ?m)" by code_simp
  with r have "mgr_reachable (caller_queues 0 ?m)" by (rule queues_reachable)
  moreover have "1 \<in> set (callers (caller_queues 0 ?m))" by code_simp
  ultimately show ?thesis unfolding two_calls_def by (rule queues_reachable)
qed

lemma lost_reachable: "mgr_reachable lost"
proof -
  have "0 < checks two_calls" by code_simp
  with two_calls_reachable have "mgr_reachable (check_once two_calls)"
    unfolding check_once_def by (rule checks_reachable)
  moreover have "0 < checks (check_once two_calls)" by code_simp
  ultimately show ?thesis
    unfolding lost_def check_once_def [of "check_once two_calls"] by (rule checks_reachable)
qed

lemma lost_stuck: "stuck [0, 1] lost"
proof -
  have "mgr_st lost = STATE_INITED \<and> \<not> cmdWork lost \<and> worker lost = None \<and> waiters lost = [] \<and>
     2 \<le> length (cmds lost) \<and> take 2 (cmds lost) = [0, 1] \<and> (\<forall>i\<in>set (cmds lost). has_flag (flags (cmd_at i lost)) RWNX_CMD_FLAG_WAIT_PUSH)"
    by code_simp
  moreover have "mgr_ok lost" by (rule reachable_ok [OF lost_reachable])
  ultimately show ?thesis by (simp add: stuck_def mgr_ok_def)
qed

definition unforced_step :: "rwnx_cmd_mgr \<Rightarrow> rwnx_cmd_mgr \<Rightarrow> bool" where
  "unforced_step m m' \<longleftrightarrow> mgr_step m m' \<and> \<not> (\<exists>i\<in>set (callers m). m' = caller_defers i m)"

lemma unforced_stuck: "unforced_step\<^sup>*\<^sup>* m m' \<Longrightarrow> stuck old m \<Longrightarrow> stuck old m'"
  by (induction rule: rtranclp_induct) (auto simp: unforced_step_def dest: stuck_step)



subsection \<open>The queue functions, branch by branch\<close>

text \<open>C10: What \<open>cmd_mgr_queue\<close> does on each path: a crashed manager refuses with
  \<open>-EPIPE\<close>, a call that wants an answer polls while the list is not empty, a full list refuses with
  \<open>-ENOMEM\<close>; otherwise the command gets the next token and the end of the list, and its
  message goes to the bus at once exactly if the last command of the list is through and
  the message is not one of the two that are always deferred.\<close>

theorem cmd_mgr_queue_outcomes:
  assumes "mgr_reachable m" and "i \<in> set (callers m)"
  shows "let busy = (cmds m \<noteq> []);
             crashed = (mgr_st m = STATE_CRASHED);
             answer = (e2a_msg (cmd_at i m) \<noteq> None);
             full = (length (cmds m) = 16);
             last_waits = (busy \<and> has_flag (flags (cmd_at (last (cmds m)) m)) wait_flags);
             (r, m') = cmd_mgr_queue i m
         in (crashed \<longrightarrow> r = Q_error (- EPIPE) \<and> cmds m' = cmds m \<and> sent m' = sent m) \<and>
            (\<not> crashed \<and> busy \<and> answer \<longrightarrow> r = Q_retry \<and> m' = m) \<and>
            (\<not> crashed \<and> full \<and> \<not> answer \<longrightarrow>
               r = Q_error (- ENOMEM) \<and> cmds m' = cmds m \<and> sent m' = sent m) \<and>
            (\<not> crashed \<and> \<not> full \<and> \<not> (busy \<and> answer) \<longrightarrow>
               cmds m' = cmds m @ [i] \<and> tkn (cmd_at i m') = next_tkn m \<and> next_tkn m' = next_tkn m + 1 \<and>
               queue_sz m' = queue_sz m + 1 \<and>
               (if last_waits \<or> deferred_id (msg_id (a2e_msg (cmd_at i m)))
                then r = Q_deferred \<and> sent m' = sent m \<and> has_flag (flags (cmd_at i m')) RWNX_CMD_FLAG_WAIT_PUSH
                else r = Q_sent \<and> sent m' = (if usb_up m then sent m @ [a2e_msg (cmd_at i m)] else sent m)))"
proof (cases "mgr_st m = STATE_CRASHED")
  case True
  then show ?thesis by (simp add: cmd_mgr_queue_def)
next
  case up: False
  have ok: "queue_ok m" using reachable_ok [OF assms(1)] up by (simp add: mgr_ok_def)
  note q = queue_okD [OF ok]
  have i40: "i < length (cmd_array m)" using q(1,10) assms(2) by auto
  have full: "queue_sz m = max_queue_sz m \<longleftrightarrow> length (cmds m) = 16"
  proof
    assume "queue_sz m = max_queue_sz m"
    then show "length (cmds m) = 16" using q(4,6) by simp
  next
    assume "length (cmds m) = 16"
    then have "unat (queue_sz m) = unat (16 :: u32)" using q(4) by simp
    then have "queue_sz m = 16" by (rule unsigned_word_eqI)
    then show "queue_sz m = max_queue_sz m" using q(6) by simp
  qed
  have enq: "tkn (cmd_at i (enqueue_cmd i m1)) = next_tkn m1 \<and>
       a2e_msg (cmd_at i (enqueue_cmd i m1)) = a2e_msg (cmd_at i m1)"
     if "i < length (cmd_array m1)" for m1
    using that by (simp add: enqueue_cmd_def Let_def cmd_at_upd set_flag_def)
  have fl: "bit (flags (cmd_at i (enqueue_cmd i (upd_cmd i (set_flag RWNX_CMD_FLAG_WAIT_PUSH) m)))) 2"
    using enqueue_cmd_at [of i "upd_cmd i (set_flag RWNX_CMD_FLAG_WAIT_PUSH) m"] i40
    by (simp add: cmd_at_upd flag_bits)
  show ?thesis
    using up i40 enq fl
    unfolding cmd_mgr_queue_def full
    by (auto simp: Let_def enqueue_cmd_simps push_cmd_def cmd_at_upd flag_bits set_flag_def bit_or_iff split: if_splits)
qed

subsection \<open>Confirmations\<close>

lemma cmd_complete_at:
  assumes "i < length (cmd_array m)" and "\<not> bit (flags (cmd_at i m)) 0"
    and "\<not> bit (flags (cmd_at i m)) 3" and "\<not> bit (flags (cmd_at i m)) 4"
  shows "cmd_at j (cmd_complete i m) =
      (if j = i then (set_flag RWNX_CMD_FLAG_DONE (cmd_at i m))\<lparr>cmd_result := 0, completed := True\<rparr>
       else cmd_at j m) \<and>
    cmds (cmd_complete i m) = cmds m \<and> sent (cmd_complete i m) = sent m"
  using assms by (simp add: cmd_complete_def Let_def cmd_at_upd flag_bits)

text \<open>C11: A confirmation goes to the first command of the list that waits for this message and
  whose handler accepts it: the answer (at most 1024 bytes) is stored if one is wanted, the
  command is marked done and its caller or the worker is woken with result 0.  Nothing else changes.\<close>

theorem confirmation_completes:
  assumes "mgr_reachable m" and "mgr_st m \<noteq> STATE_CRASHED"
    and "p < length (cmds m)" and "i = cmds m ! p"
    and "waits = (\<lambda>j. reqid (cmd_at j m) = ind_id msg \<and>
            has_flag (flags (cmd_at j m)) RWNX_CMD_FLAG_WAIT_CFM \<and> answers (cmd_at j m) msg)"
    and "waits i" and "\<forall>q<p. \<not> waits (cmds m ! q)"
  shows "let (taken, m') = cmd_mgr_msgind answers msg m; c = cmd_at i m'
    in taken \<and> cmds m' = cmds m \<and> sent m' = sent m \<and> (\<forall>j. j \<noteq> i \<longrightarrow> cmd_at j m' = cmd_at j m) \<and>
       \<not> has_flag (flags c) RWNX_CMD_FLAG_WAIT_CFM \<and> has_flag (flags c) RWNX_CMD_FLAG_DONE \<and>
       completed c \<and> cmd_result c = 0 \<and>
       e2a_msg c = (if e2a_msg (cmd_at i m) \<noteq> None \<and> ind_param msg \<noteq> []
                    then Some (take 1024 (ind_param msg)) else e2a_msg (cmd_at i m))"
proof -
  have ok: "queue_ok m" using reachable_ok [OF assms(1)] assms(2) by (simp add: mgr_ok_def)
  note q = queue_okD [OF ok]
  have "i \<in> set (cmds m)" using assms(3,4) by simp
  then have "i < 40" using q(3) by blast
  then have i: "i < length (cmd_array m)" "\<not> bit (flags (cmd_at i m)) 0" "\<not> bit (flags (cmd_at i m)) 3"
    using q(1,7) by auto
  have find: "find waits (cmds m) = Some i"
    using assms(3,4,6,7) by (auto simp: find_Some_iff)
  define m1 where "m1 = upd_cmd i (clear_flag RWNX_CMD_FLAG_WAIT_CFM) m"
  define param where "param = take RWNX_CMD_E2AMSG_LEN_MAX (ind_param msg)"
  define m2 where "m2 = upd_cmd i (\<lambda>c. if e2a_msg c \<noteq> None \<and> param \<noteq> [] then c\<lparr>e2a_msg := Some param\<rparr> else c) m1"
  have at2: "cmd_at j m2 = (if j = i then (let c = clear_flag RWNX_CMD_FLAG_WAIT_CFM (cmd_at i m) in
       if e2a_msg c \<noteq> None \<and> param \<noteq> [] then c\<lparr>e2a_msg := Some param\<rparr> else c) else cmd_at j m)" for j
    using i(1) by (simp add: m2_def m1_def cmd_at_upd)
  have b2: "\<not> bit (flags (cmd_at i m2)) 0" "\<not> bit (flags (cmd_at i m2)) 3" "\<not> bit (flags (cmd_at i m2)) 4"
    using i by (simp_all add: at2 Let_def flag_bits)
  have "cmd_mgr_msgind answers msg m = (True, if RWNX_CMD_WAIT_COMPLETE (flags (cmd_at i m2)) then cmd_complete i m2 else m2)"
    unfolding cmd_mgr_msgind_def find [unfolded assms(5)] m2_def m1_def param_def by (simp add: Let_def)
  then have eq: "cmd_mgr_msgind answers msg m = (True, cmd_complete i m2)" using b2 by simp
  have i2: "i < length (cmd_array m2)" using i(1) by (simp add: m2_def m1_def)
  have fs: "cmds m2 = cmds m" "sent m2 = sent m" by (simp_all add: m2_def m1_def)
  have "e2a_msg (clear_flag b c) = e2a_msg c" "e2a_msg (set_flag b c) = e2a_msg c" for b c
    by (simp_all add: set_flag_def clear_flag_def)
  then show ?thesis
    unfolding eq using cmd_complete_at [OF i2 b2] fs b2
    by (simp add: at2 Let_def flag_bits param_def RWNX_CMD_E2AMSG_LEN_MAX_def)
qed

lemma confirmation_completes_witness:
  "fst (cmd_mgr_msgind (\<lambda>_ _. True) \<lparr>ind_id = 37, ind_param = [1, 2]\<rparr> run1) \<and>
   completed (cmd_at 0 (snd (cmd_mgr_msgind (\<lambda>_ _. True) \<lparr>ind_id = 37, ind_param = [1, 2]\<rparr> run1)))"
proof -
  let ?msg = "\<lparr>ind_id = 37, ind_param = [1, 2]\<rparr>"
  have "reqid (cmd_at 0 run1) = ind_id ?msg" by code_simp
  with confirmation_completes [OF run1_reachable, of 0 0 _ ?msg "\<lambda>_ _. True"] run1_cmds
  show ?thesis by (auto simp: Let_def split: prod.splits)
qed

subsection \<open>Recycled blocks\<close>

text \<open>The flags of a block are not cleared when it is taken from the array.  When a block
  was completed in an earlier use, the timeout of its new command is not recorded: the
  result stays \<open>-EINTR\<close> (of a block used for the first time it becomes \<open>-ETIMEDOUT\<close>), although
  the call returns \<open>-ETIMEDOUT\<close> in both cases.\<close>

lemma recycled_block_hides_timeout:
  assumes "mgr_reachable m" and "mgr_st m \<noteq> STATE_CRASHED"
    and "rwnx_send_msg msg True rid cfm m = Some (Some i, m1)"
    and "cmd_mgr_queue i m1 = (Q_sent, m2)"
  shows "fst (queue_timed_out i m2) = - ETIMEDOUT \<and>
     cmd_result (cmd_at i (snd (queue_timed_out i m2))) =
       (if has_flag (flags (cmd_at i m)) RWNX_CMD_FLAG_DONE then - EINTR else - ETIMEDOUT)"
proof -
  have ok: "queue_ok m" using reachable_ok [OF assms(1)] assms(2) by (simp add: mgr_ok_def)
  note q = queue_okD [OF ok]
  have up: "usb_up m" using assms(3) by (auto simp: rwnx_send_msg_def split: if_splits)
  have i: "first_index (\<lambda>c. \<not> used c) (cmd_array m) = Some i"
    using assms(3) up by (auto simp: rwnx_send_msg_def rwnx_cmd_malloc_def Let_def split: option.splits)
  then have i40: "i < length (cmd_array m)" by (auto simp: first_index_Some)
  then have b: "\<not> bit (flags (cmd_at i m)) 0" using q(1,7) by auto
  have m1: "cmd_at i m1 = fill_cmd msg rid cfm True (used_update (\<lambda>_. True) (cmd_at i m))"
    "length (cmd_array m1) = length (cmd_array m)" "mgr_st m1 = mgr_st m"
    using assms(3) up i i40 by (auto simp: rwnx_send_msg_def rwnx_cmd_malloc_def Let_def cmd_at_upd)
  have "m2 = push_cmd i (enqueue_cmd i m1)"
    using assms(2,4) m1(3) unfolding cmd_mgr_queue_def by (auto simp: Let_def split: if_splits)
  then have c2: "cmd_at i m2 = cmd_at i (enqueue_cmd i m1)" "i < length (cmd_array m2)"
    using i40 m1(2) by (simp_all add: enqueue_cmd_simps)
  have at2: "cmd_result (cmd_at i m2) = - EINTR" "bit (flags (cmd_at i m2)) 4"
      "bit (flags (cmd_at i m2)) 5 = bit (flags (cmd_at i m)) 5" "\<not> bit (flags (cmd_at i m2)) 0"
    using b i40 m1(2)
    by (auto simp: c2(1) enqueue_cmd_def Let_def cmd_at_upd m1(1) fill_cmd_def set_flag_def clear_flag_def
        bit_or_iff bit_and_iff bit_not_iff flag_bits)
  moreover have "cmd_result (set_flag b c) = cmd_result c" for b c by (simp add: set_flag_def)
  ultimately show ?thesis
    using c2(2) by (simp add: queue_timed_out_def crash_cmd_def Let_def cmd_complete_def cmd_at_upd flag_bits)
qed

text \<open>The first block is taken, completed, freed and taken again.\<close>

definition recycled :: rwnx_cmd_mgr where
  "recycled = (let m1 = caller_queues 0 (calls key_msg None rwnx_cmd_mgr_init);
                   m2 = snd (cmd_mgr_msgind (\<lambda>_ _. True) \<lparr>ind_id = 37, ind_param = []\<rparr> m1)
               in (snd (queue_completed 0 m2))\<lparr>waiters := remove1 0 (waiters m2)\<rparr>)"


lemma recycled_reachable: "mgr_reachable recycled"
proof -
  let ?m0 = "calls key_msg None rwnx_cmd_mgr_init"
  let ?m1 = "caller_queues 0 ?m0"
  let ?m2 = "snd (cmd_mgr_msgind (\<lambda>_ _. True) \<lparr>ind_id = 37, ind_param = []\<rparr> ?m1)"
  have "mgr_reachable ?m0" by (intro calls_reachable mgr_reachable.start)
  moreover have "0 \<in> set (callers ?m0)" by code_simp
  ultimately have "mgr_reachable ?m1" by (rule queues_reachable)
  then have "mgr_reachable ?m2" by (rule mgr_reachable.step) (rule mgr_step.confirm)
  moreover have "0 \<in> set (waiters ?m2)" by code_simp
  ultimately show ?thesis
    unfolding recycled_def Let_def by (rule mgr_reachable.step [OF _ mgr_step.completion])
qed

lemma recycled_block_hides_timeout_witness:
  "\<exists>m1 m2. rwnx_send_msg key_msg True 37 None recycled = Some (Some 0, m1) \<and>
     cmd_mgr_queue 0 m1 = (Q_sent, m2) \<and> cmd_result (cmd_at 0 (snd (queue_timed_out 0 m2))) = - EINTR"
proof -
  define m1 where "m1 = snd (the (rwnx_send_msg key_msg True 37 None recycled))"
  define m2 where "m2 = snd (cmd_mgr_queue 0 m1)"
  have "map_option fst (rwnx_send_msg key_msg True 37 None recycled) = Some (Some 0)" by code_simp
  then have s: "rwnx_send_msg key_msg True 37 None recycled = Some (Some 0, m1)"
    by (auto simp: m1_def)
  have "fst (cmd_mgr_queue 0 m1) = Q_sent" unfolding m1_def by code_simp
  then have e: "cmd_mgr_queue 0 m1 = (Q_sent, m2)" by (simp add: m2_def prod_eq_iff)
  have "mgr_st recycled \<noteq> STATE_CRASHED" by code_simp
  moreover have "has_flag (flags (cmd_at 0 recycled)) RWNX_CMD_FLAG_DONE" by code_simp
  ultimately show ?thesis
    using recycled_block_hides_timeout [OF recycled_reachable _ s e] s e by auto
qed

subsection \<open>The message on the bus\<close>


text \<open>C12: The bytes handed to the bus determine the message: reading the little-endian fields
  gives back its id, destination, source, parameter length and parameters, and the 12-bit
  length field holds the length of the message plus 4.\<close>

theorem command_encoding:
  assumes "aicwf_set_cmd_tx msg (8 + length (msg_param msg)) = Some bs" and "mem_at buf 0 bs"
  shows "length bs = 16 + length (msg_param msg) \<and> length bs \<le> CMD_BUF_MAX \<and> unat (le16 buf 0 AND 0xFFF) = length (msg_param msg) + 12 \<and> buf 2 = 0x11 \<and>
     le16 buf 8 = msg_id msg \<and> le16 buf 10 = msg_dest msg \<and> le16 buf 12 = msg_src msg \<and>
     unat (le16 buf 14) = length (msg_param msg) \<and> mem_at buf 16 (msg_param msg)"
proof -
  let ?n = "length (msg_param msg)"
  let ?bs = "[of_nat (?n + 12), of_nat ((?n + 12) div 256) AND 0x0F, 0x11, 0, 0, 0, 0, 0,
      ucast (msg_id msg), ucast (drop_bit 8 (msg_id msg)), ucast (msg_dest msg), ucast (drop_bit 8 (msg_dest msg)),
      ucast (msg_src msg), ucast (drop_bit 8 (msg_src msg)), of_nat ?n, of_nat (?n div 256)] :: bytes"
  have fits: "16 + ?n \<le> CMD_BUF_MAX" and eq: "bs = ?bs @ msg_param msg"
    using assms(1) by (auto simp: aicwf_set_cmd_tx_def add.commute split: if_splits)
  have n: "?n + 12 < 4096"
    using fits by (simp add: CMD_BUF_MAX_def)
  have len: "length bs = 16 + ?n" "0 + length ?bs = 16"
    by (simp_all add: eq)
  have bs: "mem_at buf 0 ?bs" and par: "mem_at buf 16 (msg_param msg)"
    using assms(2) [unfolded eq mem_at_append len(2)] by blast+
  have at: "buf i = ?bs ! i" if "i < 16" for i
    using bs that by (simp add: mem_at_def)
  have f: "buf 0 = of_nat (?n + 12)" "buf 1 = of_nat ((?n + 12) div 256) AND 0x0F" "buf 2 = 0x11"
    "buf 8 = ucast (msg_id msg)" "buf 9 = ucast (drop_bit 8 (msg_id msg))"
    "buf 10 = ucast (msg_dest msg)" "buf 11 = ucast (drop_bit 8 (msg_dest msg))"
    "buf 12 = ucast (msg_src msg)" "buf 13 = ucast (drop_bit 8 (msg_src msg))"
    "buf 14 = of_nat ?n" "buf 15 = of_nat (?n div 256)"
    by (subst at; simp)+
  have "unat (le16 buf 0) = ?n + 12"
  proof -
    have "(?n + 12) div 256 < 16" using n by (simp add: less_mult_imp_div_less)
    then have "unat (buf 1) = (?n + 12) div 256"
      by (simp only: f unat_low_nibble unat_of_nat) simp
    moreover have "unat (buf 0) = (?n + 12) mod 256"
      by (simp only: f unat_of_nat) simp
    ultimately show ?thesis using mod_mult_div_eq [of "?n + 12" 256] by (simp add: unat_le16)
  qed
  moreover have "unat (le16 buf 14) = ?n"
    using n by (simp add: unat_le16 f unat_of_nat)
  ultimately show ?thesis
    using n fits len(1) par f by (auto simp: le16_halves unat_mask12)
qed

lemma command_encoding_witness:
  "\<exists>bs. aicwf_set_cmd_tx key_msg 9 = Some bs \<and> length bs = 17 \<and> le16 (\<lambda>i. (bs @ [0]) ! i) 8 = 36"
proof -
  have l: "length (msg_param key_msg) = 1" "msg_id key_msg = 36" by (simp_all add: key_msg_def)
  obtain bs where bs: "aicwf_set_cmd_tx key_msg 9 = Some bs"
    by (simp add: aicwf_set_cmd_tx_def CMD_BUF_MAX_def l)
  have m: "mem_at (\<lambda>i. (bs @ [0]) ! i) 0 bs"
    by (simp add: mem_at_def nth_append)
  have "aicwf_set_cmd_tx key_msg (8 + length (msg_param key_msg)) = Some bs"
    using bs l by simp
  from command_encoding [OF this m] show ?thesis
    using bs l by simp
qed

lemma cmd_mgr_queue_outcomes_witness:
  "fst (cmd_mgr_queue 1 (caller_queues 0 (calls traffic_msg None (calls key_msg None rwnx_cmd_mgr_init)))) = Q_deferred"
proof -
  let ?a = "calls traffic_msg None (calls key_msg None rwnx_cmd_mgr_init)"
  let ?b = "caller_queues 0 ?a"
  have "mgr_reachable ?a" by (intro calls_reachable mgr_reachable.start)
  moreover have "0 \<in> set (callers ?a)" by code_simp
  ultimately have r: "mgr_reachable ?b" by (rule queues_reachable)
  have i: "1 \<in> set (callers ?b)" by code_simp
  have "mgr_st ?b \<noteq> STATE_CRASHED \<and> length (cmds ?b) \<noteq> 16 \<and> cmds ?b \<noteq> [] \<and> e2a_msg (cmd_at 1 ?b) = None \<and>
     has_flag (flags (cmd_at (last (cmds ?b)) ?b)) wait_flags" by code_simp
  then show ?thesis
    using cmd_mgr_queue_outcomes [OF r i] by (auto simp: Let_def split: prod.splits)
qed

end
