(* ===== verification/RadarDetect.thy ===== *)
theory RadarDetect
  imports Prelude
begin

section \<open>Radar detection: pulse patterns\<close>

text \<open>
  \<open>rwnx_radar.c\<close>: the tables of radar types, the pools of list elements, the queue of pulses
  of a detector, the detectors for short and long waveforms and the pattern detector of one
  chain, which keeps a list of detectors for every radar type.  A list of the code is a list
  with its head first.  The pools are shared by all detectors; the state \<open>pools\<close> counts their
  elements and says whether the kernel can still allocate memory.
\<close>

subsection \<open>Radar types\<close>

datatype radar_waveform_type =
  RADAR_WAVEFORM_SHORT | RADAR_WAVEFORM_WEATHER | RADAR_WAVEFORM_INTERLEAVED | RADAR_WAVEFORM_LONG

record radar_detector_specs =
  type_id :: u8
  width_min :: u8
  width_max :: u8
  pri_min :: u16
  pri_max :: u16
  num_pri :: u8
  ppb :: u8
  rs_ppb_thresh :: u8
  max_pri_tolerance :: u8
  waveform :: radar_waveform_type

definition PRI_TOLERANCE :: nat where "PRI_TOLERANCE = 16"
definition MIN_PPB_THRESH :: nat where "MIN_PPB_THRESH = 50"

definition PPB_THRESH :: "nat \<Rightarrow> nat" where
  "PPB_THRESH n = (n * MIN_PPB_THRESH + 50) div 100"

definition PRF2PRI :: "nat \<Rightarrow> nat" where
  "PRF2PRI prf = (1000000 + prf div 2) div prf"

definition ETSI_PATTERN_SHORT :: "nat \<Rightarrow> nat \<Rightarrow> nat \<Rightarrow> nat \<Rightarrow> nat \<Rightarrow> nat \<Rightarrow> radar_detector_specs" where
  "ETSI_PATTERN_SHORT i wmin wmax pmin pmax n =
     \<lparr>type_id = of_nat i, width_min = of_nat wmin, width_max = of_nat wmax,
      pri_min = of_nat (PRF2PRI pmax - PRI_TOLERANCE), pri_max = of_nat (PRF2PRI pmin + PRI_TOLERANCE),
      num_pri = 1, ppb = of_nat n, rs_ppb_thresh = of_nat (PPB_THRESH n),
      max_pri_tolerance = of_nat PRI_TOLERANCE, waveform = RADAR_WAVEFORM_SHORT\<rparr>"

definition ETSI_PATTERN_INTERLEAVED ::
  "nat \<Rightarrow> nat \<Rightarrow> nat \<Rightarrow> nat \<Rightarrow> nat \<Rightarrow> nat \<Rightarrow> nat \<Rightarrow> nat \<Rightarrow> radar_detector_specs" where
  "ETSI_PATTERN_INTERLEAVED i wmin wmax pmin pmax prfmin prfmax n =
     \<lparr>type_id = of_nat i, width_min = of_nat wmin, width_max = of_nat wmax,
      pri_min = of_nat (PRF2PRI pmax * prfmin - PRI_TOLERANCE),
      pri_max = of_nat (PRF2PRI pmin * prfmax + PRI_TOLERANCE),
      num_pri = of_nat prfmax, ppb = of_nat (n * prfmax), rs_ppb_thresh = of_nat (PPB_THRESH n),
      max_pri_tolerance = of_nat PRI_TOLERANCE, waveform = RADAR_WAVEFORM_INTERLEAVED\<rparr>"

definition FCC_PATTERN ::
  "nat \<Rightarrow> nat \<Rightarrow> nat \<Rightarrow> nat \<Rightarrow> nat \<Rightarrow> nat \<Rightarrow> nat \<Rightarrow> radar_waveform_type \<Rightarrow> radar_detector_specs" where
  "FCC_PATTERN i wmin wmax pmin pmax prf n t =
     \<lparr>type_id = of_nat i, width_min = of_nat wmin, width_max = of_nat wmax,
      pri_min = of_nat (pmin - PRI_TOLERANCE), pri_max = of_nat (pmax * prf + PRI_TOLERANCE),
      num_pri = of_nat prf, ppb = of_nat (n * prf), rs_ppb_thresh = of_nat (PPB_THRESH n),
      max_pri_tolerance = of_nat PRI_TOLERANCE, waveform = t\<rparr>"

definition etsi_radar_ref_types_v17_riu :: "radar_detector_specs list" where
  "etsi_radar_ref_types_v17_riu =
     [ETSI_PATTERN_SHORT 0 0 8 700 700 18, ETSI_PATTERN_SHORT 1 0 10 200 1000 10,
      ETSI_PATTERN_SHORT 2 0 22 200 1600 15, ETSI_PATTERN_SHORT 3 0 22 2300 4000 25,
      ETSI_PATTERN_SHORT 4 20 38 2000 4000 20,
      ETSI_PATTERN_INTERLEAVED 5 0 8 300 400 2 3 10, ETSI_PATTERN_INTERLEAVED 6 0 8 400 1200 2 3 15]"

definition etsi_radar_ref_types_v17_fcu :: "radar_detector_specs list" where
  "etsi_radar_ref_types_v17_fcu =
     [ETSI_PATTERN_SHORT 0 0 8 700 700 18, ETSI_PATTERN_SHORT 1 0 8 200 1000 10,
      ETSI_PATTERN_SHORT 2 0 16 200 1600 15, ETSI_PATTERN_SHORT 3 0 16 2300 4000 25,
      ETSI_PATTERN_SHORT 4 20 34 2000 4000 20,
      ETSI_PATTERN_INTERLEAVED 5 0 8 300 400 2 3 10, ETSI_PATTERN_INTERLEAVED 6 0 8 400 1200 2 3 15]"

definition fcc_radar_ref_types_riu :: "radar_detector_specs list" where
  "fcc_radar_ref_types_riu =
     [FCC_PATTERN 0 0 8 1428 1428 1 18 RADAR_WAVEFORM_SHORT,
      FCC_PATTERN 1 0 8 518 3066 1 102 RADAR_WAVEFORM_WEATHER,
      FCC_PATTERN 2 0 8 150 230 1 23 RADAR_WAVEFORM_SHORT,
      FCC_PATTERN 3 6 20 200 500 1 16 RADAR_WAVEFORM_SHORT,
      FCC_PATTERN 4 10 28 200 500 1 12 RADAR_WAVEFORM_SHORT,
      FCC_PATTERN 5 50 110 1000 2000 1 8 RADAR_WAVEFORM_LONG,
      FCC_PATTERN 6 0 8 333 333 1 9 RADAR_WAVEFORM_SHORT]"

definition fcc_radar_ref_types_fcu :: "radar_detector_specs list" where
  "fcc_radar_ref_types_fcu =
     [FCC_PATTERN 0 0 8 1428 1428 1 18 RADAR_WAVEFORM_SHORT,
      FCC_PATTERN 1 0 8 518 3066 1 102 RADAR_WAVEFORM_WEATHER,
      FCC_PATTERN 2 0 8 150 230 1 23 RADAR_WAVEFORM_SHORT,
      FCC_PATTERN 3 6 12 200 500 1 16 RADAR_WAVEFORM_SHORT,
      FCC_PATTERN 4 10 22 200 500 1 12 RADAR_WAVEFORM_SHORT,
      FCC_PATTERN 5 50 104 1000 2000 1 8 RADAR_WAVEFORM_LONG,
      FCC_PATTERN 6 0 8 333 333 1 9 RADAR_WAVEFORM_SHORT]"

definition jp_radar_ref_types_riu :: "radar_detector_specs list" where
  "jp_radar_ref_types_riu =
     [FCC_PATTERN 0 0 8 1428 1428 1 18 RADAR_WAVEFORM_SHORT,
      FCC_PATTERN 1 2 8 3846 3846 1 18 RADAR_WAVEFORM_SHORT,
      FCC_PATTERN 2 0 8 1388 1388 1 18 RADAR_WAVEFORM_SHORT,
      FCC_PATTERN 3 0 8 4000 4000 1 18 RADAR_WAVEFORM_SHORT,
      FCC_PATTERN 4 0 8 150 230 1 23 RADAR_WAVEFORM_SHORT,
      FCC_PATTERN 5 6 20 200 500 1 16 RADAR_WAVEFORM_SHORT,
      FCC_PATTERN 6 10 28 200 500 1 12 RADAR_WAVEFORM_SHORT,
      FCC_PATTERN 7 50 110 1000 2000 1 8 RADAR_WAVEFORM_LONG,
      FCC_PATTERN 8 0 8 333 333 1 9 RADAR_WAVEFORM_SHORT]"

definition jp_radar_ref_types_fcu :: "radar_detector_specs list" where
  "jp_radar_ref_types_fcu =
     [FCC_PATTERN 0 0 8 1428 1428 1 18 RADAR_WAVEFORM_SHORT,
      FCC_PATTERN 1 2 6 3846 3846 1 18 RADAR_WAVEFORM_SHORT,
      FCC_PATTERN 2 0 8 1388 1388 1 18 RADAR_WAVEFORM_SHORT,
      FCC_PATTERN 3 2 2 4000 4000 1 18 RADAR_WAVEFORM_SHORT,
      FCC_PATTERN 4 0 8 150 230 1 23 RADAR_WAVEFORM_SHORT,
      FCC_PATTERN 5 6 12 200 500 1 16 RADAR_WAVEFORM_SHORT,
      FCC_PATTERN 6 10 22 200 500 1 12 RADAR_WAVEFORM_SHORT,
      FCC_PATTERN 7 50 104 1000 2000 1 8 RADAR_WAVEFORM_LONG,
      FCC_PATTERN 8 0 8 333 333 1 9 RADAR_WAVEFORM_SHORT]"

text \<open>The regulatory regions of the kernel.\<close>

datatype nl80211_dfs_regions = NL80211_DFS_UNSET | NL80211_DFS_FCC | NL80211_DFS_ETSI | NL80211_DFS_JP

record radar_types =
  rt_region :: nl80211_dfs_regions
  rt_num_radar_types :: nat
  spec_riu :: "radar_detector_specs list"
  spec_fcu :: "radar_detector_specs list"

definition etsi_radar_types_v17 :: radar_types where
  "etsi_radar_types_v17 =
     \<lparr>rt_region = NL80211_DFS_ETSI, rt_num_radar_types = length etsi_radar_ref_types_v17_riu,
      spec_riu = etsi_radar_ref_types_v17_riu, spec_fcu = etsi_radar_ref_types_v17_fcu\<rparr>"

definition fcc_radar_types :: radar_types where
  "fcc_radar_types =
     \<lparr>rt_region = NL80211_DFS_FCC, rt_num_radar_types = length fcc_radar_ref_types_riu,
      spec_riu = fcc_radar_ref_types_riu, spec_fcu = fcc_radar_ref_types_fcu\<rparr>"

definition jp_radar_types :: radar_types where
  "jp_radar_types =
     \<lparr>rt_region = NL80211_DFS_JP, rt_num_radar_types = length jp_radar_ref_types_riu,
      spec_riu = jp_radar_ref_types_riu, spec_fcu = jp_radar_ref_types_fcu\<rparr>"

definition dfs_domains :: "radar_types list" where
  "dfs_domains = [etsi_radar_types_v17, fcc_radar_types, jp_radar_types]"

subsection \<open>Detectors and pools\<close>

record pri_sequence =
  ps_pri :: u32
  ps_dur :: u32
  ps_count :: u32
  ps_count_falses :: u32
  ps_first_ts :: u64
  ps_last_ts :: u64
  ps_deadline_ts :: u64
  ps_ppb_thresh :: u8

datatype pri_detector_ops = pri_detector_short | pri_detector_long

record pri_detector =
  pde_rs :: radar_detector_specs
  pde_last_ts :: u64
  pde_sequences :: "pri_sequence list"
  pde_pulses :: "u64 list"
  pde_count :: u32
  pde_max_count :: u32
  pde_window_size :: u32
  pde_ops :: pri_detector_ops
  pde_freq :: u16

fun reset_on_pri_overflow :: "pri_detector_ops \<Rightarrow> bool" where
  "reset_on_pri_overflow pri_detector_short = True"
| "reset_on_pri_overflow pri_detector_long = False"

text \<open>\<open>mem\<close> says whether \<open>kmalloc\<close> succeeds.\<close>

record pools =
  singleton_pool_references :: u32
  pulse_pool :: nat
  pseq_pool :: nat
  mem :: bool

definition pool_register_ref :: "pools \<Rightarrow> pools" where
  "pool_register_ref pl = pl\<lparr>singleton_pool_references := singleton_pool_references pl + 1\<rparr>"

definition pool_deregister_ref :: "pools \<Rightarrow> pools" where
  "pool_deregister_ref pl =
     (let r = singleton_pool_references pl - 1
      in if r = 0 then pl\<lparr>singleton_pool_references := r, pulse_pool := 0, pseq_pool := 0\<rparr>
         else pl\<lparr>singleton_pool_references := r\<rparr>)"

definition pool_put_pulse_elem :: "pools \<Rightarrow> pools" where
  "pool_put_pulse_elem pl = pl\<lparr>pulse_pool := pulse_pool pl + 1\<rparr>"

definition pool_put_pseq_elem :: "pools \<Rightarrow> pools" where
  "pool_put_pseq_elem pl = pl\<lparr>pseq_pool := pseq_pool pl + 1\<rparr>"

definition pool_get_pseq_elem :: "pools \<Rightarrow> bool \<times> pools" where
  "pool_get_pseq_elem pl =
     (if pseq_pool pl \<noteq> 0 then (True, pl\<lparr>pseq_pool := pseq_pool pl - 1\<rparr>) else (mem pl, pl))"

definition pool_get_pulse_elem :: "pools \<Rightarrow> bool \<times> pools" where
  "pool_get_pulse_elem pl =
     (if pulse_pool pl \<noteq> 0 then (True, pl\<lparr>pulse_pool := pulse_pool pl - 1\<rparr>) else (False, pl))"

subsection \<open>The queue of pulses\<close>

text \<open>New pulses enter at the head; the tail is the oldest.\<close>

definition pulse_queue_get_tail :: "pri_detector \<Rightarrow> u64 option" where
  "pulse_queue_get_tail pde = (if pde_pulses pde = [] then None else Some (last (pde_pulses pde)))"

definition pulse_queue_dequeue :: "pri_detector \<Rightarrow> pools \<Rightarrow> bool \<times> pri_detector \<times> pools" where
  "pulse_queue_dequeue pde pl =
     (case pulse_queue_get_tail pde of
        None \<Rightarrow> (0 < pde_count pde, pde, pl)
      | Some _ \<Rightarrow>
          (let pde1 = pde\<lparr>pde_pulses := butlast (pde_pulses pde), pde_count := pde_count pde - 1\<rparr>
           in (0 < pde_count pde1, pde1, pool_put_pulse_elem pl)))"

function check_window_loop :: "u64 \<Rightarrow> pri_detector \<Rightarrow> pools \<Rightarrow> pri_detector \<times> pools" where
  "check_window_loop min_valid_ts pde pl =
     (case pulse_queue_get_tail pde of
        None \<Rightarrow> (pde, pl)
      | Some p \<Rightarrow>
          if min_valid_ts \<le> p then (pde, pl)
          else (case pulse_queue_dequeue pde pl of
                  (_, pde1, pl1) \<Rightarrow> check_window_loop min_valid_ts pde1 pl1))"
  by pat_completeness auto

termination
  by (relation "measure (\<lambda>(_, pde, _). length (pde_pulses pde))")
     (auto simp: pulse_queue_dequeue_def pulse_queue_get_tail_def Let_def split: if_splits)

definition pulse_queue_check_window :: "pri_detector \<Rightarrow> pools \<Rightarrow> pri_detector \<times> pools" where
  "pulse_queue_check_window pde pl =
     (if pde_count pde < 2 then (pde, pl)
      else if pde_last_ts pde \<le> ucast (pde_window_size pde) then (pde, pl)
      else check_window_loop (pde_last_ts pde - ucast (pde_window_size pde)) pde pl)"

definition pulse_queue_enqueue :: "pri_detector \<Rightarrow> u64 \<Rightarrow> pools \<Rightarrow> bool \<times> pri_detector \<times> pools" where
  "pulse_queue_enqueue pde ts pl =
     (case pool_get_pulse_elem pl of
        (got, pl1) \<Rightarrow>
          if \<not> got \<and> \<not> mem pl1 then (False, pde, pl1)
          else
            (let pde1 = pde\<lparr>pde_pulses := ts # pde_pulses pde, pde_count := pde_count pde + 1, pde_last_ts := ts\<rparr>
             in case pulse_queue_check_window pde1 pl1 of
                  (pde2, pl2) \<Rightarrow>
                    if pde_max_count pde2 \<le> pde_count pde2
                    then (case pulse_queue_dequeue pde2 pl2 of (_, pde3, pl3) \<Rightarrow> (True, pde3, pl3))
                    else (True, pde2, pl2)))"

declare check_window_loop.simps [simp del]

subsection \<open>Short waveforms\<close>

definition pde_get_multiple :: "u32 \<Rightarrow> u32 \<Rightarrow> u32 \<Rightarrow> u32" where
  "pde_get_multiple val fraction tolerance =
     (if fraction = 0 then 0
      else
        (let delta = (if val < fraction then fraction - val else val - fraction)
         in if delta \<le> tolerance then 1
            else
              (let factor = val div fraction; remainder = val mod fraction
               in if tolerance < remainder
                  then (if fraction - remainder \<le> tolerance then factor + 1 else 0)
                  else factor)))"

text \<open>The older pulses that fit a new sequence; \<open>tmp_false\<close> counts those that did not since the last match.\<close>

fun count_matches :: "radar_detector_specs \<Rightarrow> u64 \<Rightarrow> u32 \<Rightarrow> pri_sequence \<Rightarrow> u64 list \<Rightarrow> pri_sequence" where
  "count_matches rs min_valid_ts tmp_false ps [] = ps"
| "count_matches rs min_valid_ts tmp_false ps (p2 # older) =
     (if p2 < min_valid_ts then ps
      else if 0 < pde_get_multiple (ucast (ps_last_ts ps - p2)) (ps_pri ps) (ucast (max_pri_tolerance rs))
      then count_matches rs min_valid_ts 0
             (ps\<lparr>ps_count := ps_count ps + 1, ps_first_ts := p2,
                ps_count_falses := ps_count_falses ps + tmp_false\<rparr>) older
      else count_matches rs min_valid_ts (tmp_false + 1) ps older)"

definition start_sequence :: "radar_detector_specs \<Rightarrow> u64 \<Rightarrow> u16 \<Rightarrow> u64 \<Rightarrow> pri_sequence" where
  "start_sequence rs ts pulse_idx p =
     \<lparr>ps_pri = ucast (ts - p),
      ps_dur = ucast (ts - p) * (ucast (ppb rs) - 1) + 2 * ucast (max_pri_tolerance rs),
      ps_count = 2, ps_count_falses = ucast pulse_idx - 1, ps_first_ts = p, ps_last_ts = ts,
      ps_deadline_ts = 0, ps_ppb_thresh = 0\<rparr>"

definition finish_sequence :: "radar_detector_specs \<Rightarrow> pri_sequence \<Rightarrow> pri_sequence" where
  "finish_sequence rs ps =
     ps\<lparr>ps_deadline_ts := ps_first_ts ps + ucast (ps_dur ps),
        ps_ppb_thresh :=
          (if waveform rs = RADAR_WAVEFORM_WEATHER
           then of_nat (PPB_THRESH (unat (ucast (19000000 div (360 * ps_pri ps)) :: u8)))
           else rs_ppb_thresh rs)\<rparr>"

fun create_loop ::
  "radar_detector_specs \<Rightarrow> u64 \<Rightarrow> u32 \<Rightarrow> u16 \<Rightarrow> u64 list \<Rightarrow> pri_sequence list \<Rightarrow> pools \<Rightarrow>
   bool \<times> pri_sequence list \<times> pools" where
  "create_loop rs ts min_count pulse_idx [] seqs pl = (True, seqs, pl)"
| "create_loop rs ts min_count pulse_idx (p # older) seqs pl =
     (let delta_ts = ucast (ts - p) :: u32; idx = pulse_idx + 1
      in if delta_ts < ucast (pri_min rs) then create_loop rs ts min_count idx older seqs pl
         else if ucast (pri_max rs) < delta_ts then (True, seqs, pl)
         else
           (let ps = start_sequence rs ts idx p;
                min_valid_ts = (if ts < ucast (ps_dur ps) then 0 else ts - ucast (ps_dur ps));
                ps1 = count_matches rs min_valid_ts 0 ps older
            in if ps_count ps1 \<le> min_count then create_loop rs ts min_count idx older seqs pl
               else
                 (case pool_get_pseq_elem pl of
                    (got, pl1) \<Rightarrow>
                      if got then create_loop rs ts min_count idx older (finish_sequence rs ps1 # seqs) pl1
                      else (False, seqs, pl1))))"

definition pde_short_create_sequences ::
  "pri_detector \<Rightarrow> u64 \<Rightarrow> u32 \<Rightarrow> pools \<Rightarrow> bool \<times> pri_detector \<times> pools" where
  "pde_short_create_sequences pde ts min_count pl =
     (case create_loop (pde_rs pde) ts min_count 0 (pde_pulses pde) (pde_sequences pde) pl of
        (ok, seqs, pl1) \<Rightarrow> (ok, pde\<lparr>pde_sequences := seqs\<rparr>, pl1))"

text \<open>The loop over the sequences: those out of their window go back to the pool.\<close>

fun existing_loop ::
  "radar_detector_specs \<Rightarrow> u64 \<Rightarrow> u32 \<Rightarrow> pri_sequence list \<Rightarrow> pools \<Rightarrow> u32 \<times> pri_sequence list \<times> pools" where
  "existing_loop rs ts max_count [] pl = (max_count, [], pl)"
| "existing_loop rs ts max_count (ps # rest) pl =
     (if ps_deadline_ts ps < ts then existing_loop rs ts max_count rest (pool_put_pseq_elem pl)
      else
        (let delta_ts = ucast (ts - ps_last_ts ps) :: u32;
             factor = pde_get_multiple delta_ts (ps_pri ps) (ucast (max_pri_tolerance rs));
             ps1 = (if 0 < factor then ps\<lparr>ps_last_ts := ts, ps_count := ps_count ps + 1\<rparr>
                    else ps\<lparr>ps_count_falses := ps_count_falses ps + 1\<rparr>);
             max1 = (if 0 < factor \<and> max_count < ps_count ps1 then ps_count ps1 else max_count)
         in case existing_loop rs ts max1 rest pl of (max2, rest1, pl1) \<Rightarrow> (max2, ps1 # rest1, pl1)))"

definition pde_short_add_to_existing_seqs ::
  "pri_detector \<Rightarrow> u64 \<Rightarrow> pools \<Rightarrow> u32 \<times> pri_detector \<times> pools" where
  "pde_short_add_to_existing_seqs pde ts pl =
     (case existing_loop (pde_rs pde) ts 0 (pde_sequences pde) pl of
        (n, seqs, pl1) \<Rightarrow> (n, pde\<lparr>pde_sequences := seqs\<rparr>, pl1))"

definition sequence_complete :: "radar_detector_specs \<Rightarrow> pri_sequence \<Rightarrow> bool" where
  "sequence_complete rs ps \<longleftrightarrow>
     ucast (ps_ppb_thresh ps) \<le> ps_count ps \<and> ps_count_falses ps < ps_count ps * ucast (num_pri rs)"

definition pde_short_check_detection :: "pri_detector \<Rightarrow> pri_sequence option" where
  "pde_short_check_detection pde = find (sequence_complete (pde_rs pde)) (pde_sequences pde)"

definition pde_short_init :: "pri_detector \<Rightarrow> pri_detector" where
  "pde_short_init pde =
     pde\<lparr>pde_window_size := ucast (pri_max (pde_rs pde)) * ucast (ppb (pde_rs pde)) * ucast (num_pri (pde_rs pde)),
         pde_max_count := ucast (ppb (pde_rs pde)) * 2\<rparr>"

definition pri_detector_reset :: "pri_detector \<Rightarrow> u64 \<Rightarrow> pools \<Rightarrow> pri_detector \<times> pools" where
  "pri_detector_reset pde ts pl =
     (pde\<lparr>pde_sequences := [], pde_pulses := [], pde_count := 0, pde_last_ts := ts\<rparr>,
      pl\<lparr>pseq_pool := pseq_pool pl + length (pde_sequences pde),
         pulse_pool := pulse_pool pl + length (pde_pulses pde)\<rparr>)"

definition pde_short_add_pulse ::
  "pri_detector \<Rightarrow> u64 \<Rightarrow> pools \<Rightarrow> pri_sequence option \<times> pri_detector \<times> pools" where
  "pde_short_add_pulse pde ts pl =
     (if pde_count pde = 0
      then (case pulse_queue_enqueue pde ts pl of (_, pde1, pl1) \<Rightarrow> (None, pde1, pl1))
      else if ts - pde_last_ts pde < ucast (max_pri_tolerance (pde_rs pde)) then (None, pde, pl)
      else
        (case pde_short_add_to_existing_seqs pde ts pl of
           (max_updated_seq, pde1, pl1) \<Rightarrow>
             (case pde_short_create_sequences pde1 ts max_updated_seq pl1 of
                (False, pde2, pl2) \<Rightarrow>
                  (case pri_detector_reset pde2 ts pl2 of (pde3, pl3) \<Rightarrow> (None, pde3, pl3))
              | (True, pde2, pl2) \<Rightarrow>
                  (case pde_short_check_detection pde2 of
                     Some ps \<Rightarrow> (Some ps, pde2, pl2)
                   | None \<Rightarrow> (case pulse_queue_enqueue pde2 ts pl2 of (_, pde3, pl3) \<Rightarrow> (None, pde3, pl3))))))"

subsection \<open>Long waveforms\<close>

definition LONG_RADAR_DURATION :: u32 where "LONG_RADAR_DURATION = 12000000"
definition LONG_RADAR_BURST_MIN_DURATION :: u32 where "LONG_RADAR_BURST_MIN_DURATION = 12000000 div 20"
definition LONG_RADAR_MAX_BURST :: u32 where "LONG_RADAR_MAX_BURST = 20"

definition pde_long_init :: "pri_detector \<Rightarrow> pri_detector" where
  "pde_long_init pde = pde\<lparr>pde_window_size := LONG_RADAR_DURATION, pde_max_count := LONG_RADAR_MAX_BURST\<rparr>"

text \<open>
  When the deadline of the sequence has passed, bursts out of the window are dropped and the
  sequence starts with the oldest burst kept.
\<close>

function deadline_loop :: "u64 \<Rightarrow> pri_sequence \<Rightarrow> pri_detector \<Rightarrow> pools \<Rightarrow> pri_sequence \<times> pri_detector \<times> pools" where
  "deadline_loop min_valid_ts ps pde pl =
     (case pulse_queue_get_tail pde of
        None \<Rightarrow> (ps, pde, pl)
      | Some p \<Rightarrow>
          if min_valid_ts \<le> p
          then (ps\<lparr>ps_first_ts := p, ps_deadline_ts := p + ucast (pde_window_size pde)\<rparr>, pde, pl)
          else (case pulse_queue_dequeue pde pl of
                  (_, pde1, pl1) \<Rightarrow> deadline_loop min_valid_ts (ps\<lparr>ps_count := ps_count ps - 1\<rparr>) pde1 pl1))"
  by pat_completeness auto

termination
  by (relation "measure (\<lambda>(_, _, pde, _). length (pde_pulses pde))")
     (auto simp: pulse_queue_dequeue_def pulse_queue_get_tail_def Let_def split: if_splits)

declare deadline_loop.simps [simp del]

text \<open>
  The first burst of a sequence leaves \<open>dur\<close> as it was in the list element; it is read only
  after a second burst has set it.  A \<open>busy\<close> chain checks the availability of a channel.
\<close>

definition long_new_burst ::
  "u64 \<Rightarrow> u32 \<Rightarrow> pri_sequence \<Rightarrow> pri_detector \<Rightarrow> pools \<Rightarrow> bool \<times> pri_sequence \<times> pri_detector \<times> pools" where
  "long_new_burst ts delta_ts ps pde pl =
     (let ps1 = ps\<lparr>ps_count := ps_count ps + 1, ps_count_falses := 1\<rparr>
      in case (if ps_deadline_ts ps1 < ts
               then deadline_loop (ts - ucast (pde_window_size pde)) ps1 pde pl else (ps1, pde, pl)) of
           (ps2, pde2, pl2) \<Rightarrow>
             if ucast (rs_ppb_thresh (pde_rs pde)) < ps_count ps2 \<and>
                ucast (pde_window_size pde div 2) < ts - ps_first_ts ps2
             then (True, ps2, pde2, pl2)
             else (case pulse_queue_enqueue pde2 ts pl2 of
                     (_, pde3, pl3) \<Rightarrow> (False, ps2\<lparr>ps_dur := delta_ts\<rparr>, pde3, pl3)))"

definition pde_long_add_pulse ::
  "bool \<Rightarrow> u32 \<Rightarrow> pri_detector \<Rightarrow> u64 \<Rightarrow> pools \<Rightarrow> pri_sequence option \<times> pri_detector \<times> pools" where
  "pde_long_add_pulse cac_busy old_dur pde ts pl =
     (if \<not> cac_busy then (None, pde, pl)
      else
        (case pde_sequences pde of
           [] \<Rightarrow>
             (case pool_get_pseq_elem pl of
                (False, pl1) \<Rightarrow> (None, pde, pl1)
              | (True, pl1) \<Rightarrow>
                  (let ps = \<lparr>ps_pri = 0, ps_dur = old_dur, ps_count = 1, ps_count_falses = 1, ps_first_ts = ts,
                             ps_last_ts = ts, ps_deadline_ts = ts + ucast (pde_window_size pde),
                             ps_ppb_thresh = 0\<rparr>
                   in case pulse_queue_enqueue (pde\<lparr>pde_sequences := [ps]\<rparr>) ts pl1 of
                        (_, pde1, pl2) \<Rightarrow> (None, pde1, pl2)))
         | ps0 # others \<Rightarrow>
             (let delta_ts = ucast (ts - ps_last_ts ps0) :: u32;
                  ps = ps0\<lparr>ps_last_ts := ts\<rparr>;
                  put = (\<lambda>ps1 pde1. pde1\<lparr>pde_sequences := ps1 # others\<rparr>)
              in if delta_ts < ucast (pri_max (pde_rs pde)) then (None, put ps pde, pl)
                 else if ucast (pri_min (pde_rs pde)) \<le> delta_ts \<and> delta_ts \<le> ucast (pri_max (pde_rs pde))
                 then (None, put (ps\<lparr>ps_count_falses := ps_count_falses ps + 1\<rparr>) pde, pl)
                 else if 2 < ps_count ps \<and> ps_dur ps + delta_ts < LONG_RADAR_BURST_MIN_DURATION
                 then (None, put ps pde, pl)
                 else (case long_new_burst ts delta_ts ps pde pl of
                         (found, ps1, pde1, pl1) \<Rightarrow>
                           (if found then Some ps1 else None, put ps1 pde1, pl1)))))"

subsection \<open>Detectors\<close>

definition new_detector :: "radar_detector_specs \<Rightarrow> u16 \<Rightarrow> pri_detector" where
  "new_detector rs freq =
     (let pde = \<lparr>pde_rs = rs, pde_last_ts = 0, pde_sequences = [], pde_pulses = [], pde_count = 0,
                 pde_max_count = 0, pde_window_size = 0,
                 pde_ops = (if waveform rs = RADAR_WAVEFORM_LONG then pri_detector_long else pri_detector_short),
                 pde_freq = freq\<rparr>
      in case pde_ops pde of pri_detector_long \<Rightarrow> pde_long_init pde | pri_detector_short \<Rightarrow> pde_short_init pde)"

record dfs_pattern_detector =
  dpd_enabled :: u8
  dpd_region :: nl80211_dfs_regions
  num_radar_types :: nat
  last_pulse_ts :: u64
  prev_jiffies :: u32
  radar_spec :: "radar_detector_specs list"
  detectors :: "pri_detector list list"

text \<open>
  \<open>pri_detector_init\<close> puts the new detector at the head of the list of its type; \<open>None\<close> means
  that no memory is left.  \<open>pri_detector_get\<close> gives the place of the detector in that list.
\<close>

definition pri_detector_init ::
  "dfs_pattern_detector \<Rightarrow> nat \<Rightarrow> u16 \<Rightarrow> pools \<Rightarrow> (dfs_pattern_detector \<times> pools) option" where
  "pri_detector_init dpd radar_type freq pl =
     (if mem pl
      then Some (dpd\<lparr>detectors := (detectors dpd)
                       [radar_type := new_detector (radar_spec dpd ! radar_type) freq # detectors dpd ! radar_type]\<rparr>,
                 pool_register_ref pl)
      else None)"

fun find_detector :: "u16 \<Rightarrow> nat \<Rightarrow> nat option \<Rightarrow> pri_detector list \<Rightarrow> nat option" where
  "find_detector freq k cur [] = cur"
| "find_detector freq k cur (pde # rest) =
     (if pde_freq pde = freq
      then if pde_count pde \<noteq> 0 then Some k else find_detector freq (k + 1) (Some k) rest
      else if uint (pde_freq pde) - 2 = uint freq \<and> pde_count pde \<noteq> 0 then Some k
      else if uint (pde_freq pde) + 2 = uint freq \<and> pde_count pde \<noteq> 0 then Some k
      else find_detector freq (k + 1) cur rest)"

definition pri_detector_get ::
  "dfs_pattern_detector \<Rightarrow> u16 \<Rightarrow> nat \<Rightarrow> pools \<Rightarrow> (nat \<times> dfs_pattern_detector \<times> pools) option" where
  "pri_detector_get dpd freq radar_type pl =
     (case find_detector freq 0 None (detectors dpd ! radar_type) of
        Some k \<Rightarrow> Some (k, dpd, pl)
      | None \<Rightarrow> map_option (\<lambda>(dpd1, pl1). (0, dpd1, pl1)) (pri_detector_init dpd radar_type freq pl))"

text \<open>All detectors of a list, or of the lists of all types in use, are reset; \<open>which\<close> chooses them.\<close>

fun reset_list :: "(pri_detector \<Rightarrow> bool) \<Rightarrow> u64 \<Rightarrow> pri_detector list \<Rightarrow> pools \<Rightarrow> pri_detector list \<times> pools" where
  "reset_list which ts [] pl = ([], pl)"
| "reset_list which ts (pde # rest) pl =
     (case (if which pde then pri_detector_reset pde ts pl else (pde, pl)) of
        (pde1, pl1) \<Rightarrow> (case reset_list which ts rest pl1 of (rest1, pl2) \<Rightarrow> (pde1 # rest1, pl2)))"

fun reset_types :: "(pri_detector \<Rightarrow> bool) \<Rightarrow> u64 \<Rightarrow> nat \<Rightarrow> pri_detector list list \<Rightarrow> pools \<Rightarrow> pri_detector list list \<times> pools" where
  "reset_types which ts 0 dets pl = (dets, pl)"
| "reset_types which ts (Suc n) [] pl = ([], pl)"
| "reset_types which ts (Suc n) (ds # dets) pl =
     (case reset_list which ts ds pl of
        (ds1, pl1) \<Rightarrow> (case reset_types which ts n dets pl1 of (dets1, pl2) \<Rightarrow> (ds1 # dets1, pl2)))"

definition dfs_pattern_detector_reset :: "u32 \<Rightarrow> dfs_pattern_detector \<Rightarrow> pools \<Rightarrow> dfs_pattern_detector \<times> pools" where
  "dfs_pattern_detector_reset jiffies dpd pl =
     (case reset_types (\<lambda>_. True) (last_pulse_ts dpd) (num_radar_types dpd) (detectors dpd) pl of
        (dets, pl1) \<Rightarrow> (dpd\<lparr>detectors := dets, last_pulse_ts := 0, prev_jiffies := jiffies\<rparr>, pl1))"

definition dfs_pattern_detector_pri_overflow :: "dfs_pattern_detector \<Rightarrow> pools \<Rightarrow> dfs_pattern_detector \<times> pools" where
  "dfs_pattern_detector_pri_overflow dpd pl =
     (case reset_types (\<lambda>pde. reset_on_pri_overflow (pde_ops pde)) (last_pulse_ts dpd)
             (num_radar_types dpd) (detectors dpd) pl of
        (dets, pl1) \<Rightarrow> (dpd\<lparr>detectors := dets\<rparr>, pl1))"

definition pri_detector_exit :: "pri_detector \<Rightarrow> pools \<Rightarrow> pools" where
  "pri_detector_exit pde pl = pool_deregister_ref (snd (pri_detector_reset pde 0 pl))"

definition exit_types :: "dfs_pattern_detector \<Rightarrow> pools \<Rightarrow> dfs_pattern_detector \<times> pools" where
  "exit_types dpd pl =
     (let n = num_radar_types dpd
      in (dpd\<lparr>detectors := replicate (min n (length (detectors dpd))) [] @ drop n (detectors dpd)\<rparr>,
          fold pri_detector_exit (concat (take n (detectors dpd))) pl))"

definition dfs_pattern_detector_exit :: "dfs_pattern_detector \<Rightarrow> pools \<Rightarrow> pools" where
  "dfs_pattern_detector_exit dpd pl = snd (exit_types dpd pl)"

subsection \<open>One pulse\<close>

text \<open>
  A pulse goes to the detector of its frequency of every radar type whose width fits.  The
  outcomes are a detection, none, and a null pointer when no memory is left for a new detector
  (the result of \<open>pri_detector_get\<close> is not checked).
\<close>

record radar_env =
  cac_busy :: bool
  stale_dur :: u32
  now_jiffies :: u32

definition pde_add_pulse ::
  "radar_env \<Rightarrow> pri_detector \<Rightarrow> u64 \<Rightarrow> pools \<Rightarrow> pri_sequence option \<times> pri_detector \<times> pools" where
  "pde_add_pulse env pde ts pl =
     (case pde_ops pde of
        pri_detector_short \<Rightarrow> pde_short_add_pulse pde ts pl
      | pri_detector_long \<Rightarrow> pde_long_add_pulse (cac_busy env) (stale_dur env) pde ts pl)"

fun add_pulse_loop ::
  "radar_env \<Rightarrow> u16 \<Rightarrow> u16 \<Rightarrow> nat list \<Rightarrow> dfs_pattern_detector \<Rightarrow> pools \<Rightarrow>
   (bool \<times> dfs_pattern_detector \<times> pools) option" where
  "add_pulse_loop env freq len [] dpd pl = Some (False, dpd, pl)"
| "add_pulse_loop env freq len (i # is) dpd pl =
     (let rs = radar_spec dpd ! i
      in if len < ucast (width_min rs) \<or> ucast (width_max rs) < len
         then add_pulse_loop env freq len is dpd pl
         else
           (case pri_detector_get dpd freq i pl of
              None \<Rightarrow> None
            | Some (k, dpd1, pl1) \<Rightarrow>
                (case pde_add_pulse env (detectors dpd1 ! i ! k) (last_pulse_ts dpd1) pl1 of
                   (found, pde, pl2) \<Rightarrow>
                     (let dpd2 = dpd1\<lparr>detectors := (detectors dpd1)[i := (detectors dpd1 ! i)[k := pde]]\<rparr>
                      in case found of
                           None \<Rightarrow> add_pulse_loop env freq len is dpd2 pl2
                         | Some _ \<Rightarrow>
                             (case dfs_pattern_detector_reset (now_jiffies env) dpd2 pl2 of
                                (dpd3, pl3) \<Rightarrow> Some (True, dpd3, pl3))))))"

text \<open>
  The time of a pulse: its distance to the last one when this is known, otherwise the jiffies
  passed (\<open>jiffies_to_usecs\<close> is the kernel's conversion).
\<close>

definition pulse_delta_jiffie :: "u32 \<Rightarrow> u32 \<Rightarrow> u32" where
  "pulse_delta_jiffie now prev = (if now < prev then 0xffffffff - prev + now else now - prev)"

definition dfs_pattern_detector_add_pulse ::
  "(u32 \<Rightarrow> u32) \<Rightarrow> radar_env \<Rightarrow> u16 \<Rightarrow> u16 \<Rightarrow> u16 \<Rightarrow> u32 \<Rightarrow> dfs_pattern_detector \<Rightarrow> pools \<Rightarrow>
   (bool \<times> dfs_pattern_detector \<times> pools) option" where
  "dfs_pattern_detector_add_pulse jiffies_to_usecs env freq pri len now dpd pl =
     (if dpd_region dpd = NL80211_DFS_UNSET then Some (True, dpd, pl)
      else
        (case (if pri = 0
               then dfs_pattern_detector_pri_overflow
                      (dpd\<lparr>last_pulse_ts := last_pulse_ts dpd +
                              ucast (jiffies_to_usecs (pulse_delta_jiffie now (prev_jiffies dpd))),
                           prev_jiffies := now\<rparr>) pl
               else (dpd\<lparr>last_pulse_ts := last_pulse_ts dpd + ucast pri\<rparr>, pl)) of
           (dpd1, pl1) \<Rightarrow> add_pulse_loop env freq len [0..<num_radar_types dpd1] dpd1 pl1))"

subsection \<open>The regulatory domain\<close>

datatype rwnx_radar_chain = RWNX_RADAR_RIU | RWNX_RADAR_FCU

definition get_dfs_domain_radar_types :: "nl80211_dfs_regions \<Rightarrow> radar_types option" where
  "get_dfs_domain_radar_types region = find (\<lambda>rt. rt_region rt = region) dfs_domains"

definition get_dfs_max_radar_types :: nat where
  "get_dfs_max_radar_types = fold (\<lambda>rt m. if m < rt_num_radar_types rt then rt_num_radar_types rt else m) dfs_domains 0"

definition dfs_pattern_detector_set_domain ::
  "dfs_pattern_detector \<Rightarrow> nl80211_dfs_regions \<Rightarrow> rwnx_radar_chain \<Rightarrow> pools \<Rightarrow> bool \<times> dfs_pattern_detector \<times> pools" where
  "dfs_pattern_detector_set_domain dpd region chain pl =
     (if dpd_region dpd = region then (True, dpd, pl)
      else
        (let dpd0 = dpd\<lparr>dpd_region := NL80211_DFS_UNSET\<rparr>
         in case get_dfs_domain_radar_types region of
              None \<Rightarrow> (False, dpd0, pl)
            | Some rt \<Rightarrow>
                (case exit_types dpd0 pl of
                   (dpd1, pl1) \<Rightarrow>
                     (True,
                      dpd1\<lparr>radar_spec := (if chain = RWNX_RADAR_RIU then spec_riu rt else spec_fcu rt),
                           num_radar_types := rt_num_radar_types rt, dpd_region := region\<rparr>, pl1))))"

definition dfs_pattern_detector_init ::
  "nl80211_dfs_regions \<Rightarrow> rwnx_radar_chain \<Rightarrow> u32 \<Rightarrow> pools \<Rightarrow> dfs_pattern_detector option \<times> pools" where
  "dfs_pattern_detector_init region chain jiffies pl =
     (if \<not> mem pl then (None, pl)
      else
        (case dfs_pattern_detector_set_domain
                \<lparr>dpd_enabled = 0, dpd_region = NL80211_DFS_UNSET, num_radar_types = 0, last_pulse_ts = 0,
                 prev_jiffies = jiffies, radar_spec = [], detectors = replicate get_dfs_max_radar_types []\<rparr>
                region chain pl of
           (ok, dpd, pl1) \<Rightarrow> (if ok then Some dpd else None, pl1)))"

section \<open>Properties\<close>

subsection \<open>Multiples of an interval\<close>

lemma get_multiple_nat:
  "unat (pde_get_multiple val fraction tolerance) =
     (let v = unat val; f = unat fraction; t = unat tolerance
      in if f = 0 then 0
         else if (if v < f then f - v else v - f) \<le> t then 1
         else if t < v mod f then (if f - v mod f \<le> t then v div f + 1 else 0) else v div f)"
proof (cases "fraction = 0")
  case True
  then show ?thesis by (simp add: pde_get_multiple_def)
next
  case False
  then have f: "unat fraction \<noteq> 0" by (simp add: unat_eq_zero)
  define delta where "delta = (if val < fraction then fraction - val else val - fraction)"
  have d: "unat delta = (if unat val < unat fraction then unat fraction - unat val else unat val - unat fraction)"
    by (simp add: delta_def unat_sub unat_less_iff unat_le_iff)
  have m: "unat (val mod fraction) = unat val mod unat fraction" "unat (val div fraction) = unat val div unat fraction"
    by (simp_all add: unat_mod_distrib unat_div_distrib)
  have le: "val mod fraction \<le> fraction"
    using f by (simp add: unat_le_iff m less_imp_le)
  have s: "unat (val div fraction + 1) = unat val div unat fraction + 1"
    if "\<not> delta \<le> tolerance" "tolerance < val mod fraction"
  proof -
    have "unat val div unat fraction \<le> unat val" by (rule div_le_dividend)
    show ?thesis
    proof (cases "unat fraction = 1")
      case True
      then show ?thesis using that(2) by (simp add: unat_less_iff m)
    next
      case False
      then have "unat val div unat fraction < 2 ^ 31"
      proof -
        have "2 \<le> unat fraction" using False f by linarith
        then have "unat val div unat fraction \<le> unat val div 2" by (intro div_le_mono2) auto
        moreover have "unat val < 2 ^ 32" using unsigned_less [of val] by simp
        ultimately show ?thesis by simp
      qed
      then show ?thesis by (simp add: unat_word_ariths m)
    qed
  qed
  have le_nat: "delta \<le> tolerance \<longleftrightarrow> unat delta \<le> unat tolerance"
    and lt_nat: "tolerance < val mod fraction \<longleftrightarrow> unat tolerance < unat val mod unat fraction"
    and rest: "fraction - val mod fraction \<le> tolerance \<longleftrightarrow> unat fraction - unat val mod unat fraction \<le> unat tolerance"
    by (simp_all add: unat_le_iff unat_less_iff m unat_sub [OF le])
  have "pde_get_multiple val fraction tolerance =
      (if delta \<le> tolerance then 1
       else if tolerance < val mod fraction
         then if fraction - val mod fraction \<le> tolerance then val div fraction + 1 else 0
       else val div fraction)"
    using False by (simp add: pde_get_multiple_def delta_def Let_def)
  then show ?thesis
    unfolding Let_def d [symmetric] using f s m
    by (cases "delta \<le> tolerance"; cases "tolerance < val mod fraction")
       (simp_all add: le_nat lt_nat rest)
qed

lemma get_multiple_spec:
  fixes v f t :: nat
  assumes f: "f \<noteq> 0" and far: "t < (if v < f then f - v else v - f)"
  shows "(t < v mod f \<and> t < f - v mod f \<longrightarrow> (\<forall>k>0. int t < \<bar>int v - int (k * f)\<bar>)) \<and>
     (v mod f \<le> t \<longrightarrow> int v - int ((v div f) * f) = int (v mod f)) \<and>
     (v mod f \<le> t \<and> v div f = 0 \<longrightarrow> (\<forall>k>0. int t < \<bar>int v - int (k * f)\<bar>)) \<and>
     (f - v mod f \<le> t \<longrightarrow> int ((v div f + 1) * f) - int v = int (f - v mod f))"
proof (intro conjI impI allI)
  have v: "int v = int (v div f) * int f + int (v mod f)"
    by (metis div_mult_mod_eq of_nat_add of_nat_mult)
  have r: "v mod f < f" using f by simp
  show "int v - int ((v div f) * f) = int (v mod f)" using v by simp
  show "int ((v div f + 1) * f) - int v = int (f - v mod f)"
    using v r by (simp add: algebra_simps of_nat_diff)
  fix k :: nat assume k: "0 < k"
  show "int t < \<bar>int v - int (k * f)\<bar>" if "t < v mod f \<and> t < f - v mod f"
  proof (cases "k \<le> v div f")
    case True
    then have "int k * int f \<le> int (v div f) * int f" by (intro mult_right_mono) auto
    then show ?thesis using v that by simp
  next
    case False
    then have "(int (v div f) + 1) * int f \<le> int k * int f" by (intro mult_right_mono) auto
    moreover have "int t < int f - int (v mod f)" using that by linarith
    moreover have "(int (v div f) + 1) * int f = int v - int (v mod f) + int f"
      using v by (simp add: algebra_simps)
    ultimately show ?thesis by simp
  qed
  show "int t < \<bar>int v - int (k * f)\<bar>" if "v mod f \<le> t \<and> v div f = 0"
  proof -
    have "v < f" using that f by (simp add: div_eq_0_iff)
    have "1 * int f \<le> int k * int f" using k by (intro mult_right_mono) auto
    moreover have "int v + int t < int f" using far \<open>v < f\<close> by simp
    ultimately show ?thesis unfolding of_nat_mult by linarith
  qed
qed

text \<open>C16: \<open>pde_get_multiple\<close> tells whether a value is a multiple of the interval up to the
  tolerance: a positive result is such a multiple, and the result 0 means that there is none.\<close>

theorem get_multiple_correct:
  "let r = unat (pde_get_multiple val fraction tolerance)
   in (0 < r \<longrightarrow> \<bar>int (unat val) - int (r * unat fraction)\<bar> \<le> int (unat tolerance)) \<and>
      (r = 0 \<longleftrightarrow> fraction = 0 \<or> (\<forall>k>0. int (unat tolerance) < \<bar>int (unat val) - int (k * unat fraction)\<bar>))"
proof (cases "fraction = 0")
  case True
  then show ?thesis by (simp add: pde_get_multiple_def)
next
  case False
  define v f t where "v = unat val" "f = unat fraction" "t = unat tolerance"
  define r where "r = unat (pde_get_multiple val fraction tolerance)"
  have f: "f \<noteq> 0" using False by (simp add: v_f_t_def unat_eq_zero)
  have r: "r = (if (if v < f then f - v else v - f) \<le> t then 1
       else if t < v mod f then (if f - v mod f \<le> t then v div f + 1 else 0) else v div f)"
    unfolding r_def get_multiple_nat using f by (simp add: v_f_t_def Let_def)
  have "(0 < r \<longrightarrow> \<bar>int v - int (r * f)\<bar> \<le> int t) \<and> (r = 0 \<longleftrightarrow> (\<forall>k>0. int t < \<bar>int v - int (k * f)\<bar>))"
  proof (cases "(if v < f then f - v else v - f) \<le> t")
    case True
    then have "r = 1" "\<bar>int v - int (1 * f)\<bar> \<le> int t" using r by (auto split: if_splits)
    then show ?thesis by (metis linorder_not_less zero_less_one zero_neq_one)
  next
    case far: False
    then have far': "t < (if v < f then f - v else v - f)" by simp
    note sp = get_multiple_spec [OF f far']
    have pos: "\<not> (\<forall>k>0. int t < \<bar>int v - int (k * f)\<bar>)" if "0 < r" "\<bar>int v - int (r * f)\<bar> \<le> int t"
      using that by (metis linorder_not_less)
    consider "t < v mod f" "f - v mod f \<le> t" | "t < v mod f" "t < f - v mod f"
      | "v mod f \<le> t" "v div f = 0" | "v mod f \<le> t" "0 < v div f" by linarith
    then show ?thesis
    proof cases
      case 1
      then have "r = v div f + 1" using r far by simp
      moreover have "int ((v div f + 1) * f) - int v = int (f - v mod f)" using sp 1 by blast
      moreover have "int (f - v mod f) \<le> int t" using 1 by simp
      ultimately have "\<bar>int v - int (r * f)\<bar> \<le> int t" "0 < r" by simp_all
      then show ?thesis using pos by simp
    next
      case 2
      then have "r = 0" using r far by simp
      then show ?thesis using sp 2 by simp
    next
      case 3
      then have "r = 0" using r far by simp
      then show ?thesis using sp 3 by simp
    next
      case 4
      then have "r = v div f" using r far by simp
      moreover have "int v - int ((v div f) * f) = int (v mod f)" using sp 4 by blast
      ultimately have "\<bar>int v - int (r * f)\<bar> \<le> int t" using 4 by simp
      then show ?thesis using pos 4 r far by simp
    qed
  qed
  then show ?thesis
    using False unfolding r_def v_f_t_def by (simp add: Let_def)
qed

lemma get_multiple_correct_witness:
  "0 < unat (pde_get_multiple 6005 2000 16) \<and> \<bar>6005 - int (unat (pde_get_multiple 6005 2000 16) * 2000)\<bar> \<le> 16"
proof -
  let ?r = "unat (pde_get_multiple 6005 2000 16)"
  have "\<not> (\<forall>k>0. int (unat (16 :: u32)) < \<bar>int (unat (6005 :: u32)) - int (k * unat (2000 :: u32))\<bar>)"
    by (intro notI, drule spec [of _ 3]) simp
  then have "?r \<noteq> 0" "0 < ?r \<longrightarrow> \<bar>int (unat (6005 :: u32)) - int (?r * unat (2000 :: u32))\<bar> \<le> int (unat (16 :: u32))"
    using get_multiple_correct [of 6005 2000 16] by (simp_all only: Let_def) simp_all
  then show ?thesis by simp
qed

subsection \<open>The queue of pulses is bounded\<close>

lemma dequeue_simps:
  "pde_pulses pde = [] \<Longrightarrow> pulse_queue_dequeue pde pl = (0 < pde_count pde, pde, pl)"
  "pde_pulses pde \<noteq> [] \<Longrightarrow> pulse_queue_dequeue pde pl =
     (0 < pde_count pde - 1, pde\<lparr>pde_pulses := butlast (pde_pulses pde), pde_count := pde_count pde - 1\<rparr>,
      pool_put_pulse_elem pl)"
  by (simp_all add: pulse_queue_dequeue_def pulse_queue_get_tail_def Let_def)

text \<open>Only the pulses and their number change, and the number stays right.\<close>

definition same_but_pulses :: "pri_detector \<Rightarrow> pri_detector \<Rightarrow> bool" where
  "same_but_pulses a b \<longleftrightarrow>
     pde_rs a = pde_rs b \<and> pde_last_ts a = pde_last_ts b \<and> pde_sequences a = pde_sequences b \<and>
     pde_max_count a = pde_max_count b \<and> pde_window_size a = pde_window_size b \<and>
     pde_ops a = pde_ops b \<and> pde_freq a = pde_freq b"

lemma same_but_pulses_refl [simp]: "same_but_pulses a a"
  by (simp add: same_but_pulses_def)

lemma same_but_pulses_trans: "same_but_pulses a b \<Longrightarrow> same_but_pulses b c \<Longrightarrow> same_but_pulses a c"
  by (simp add: same_but_pulses_def)

lemma count_pred:
  fixes c :: u32
  assumes "unat c = length xs" and "xs \<noteq> []"
  shows "unat (c - 1) = length (butlast xs)"
proof -
  have "c \<noteq> 0" using assms by (auto simp: unat_eq_zero)
  then show ?thesis using assms unat_dec [of c] by simp
qed

lemma dequeue_ok:
  assumes "unat (pde_count pde) = length (pde_pulses pde)"
  shows "let (_, pde1, pl1) = pulse_queue_dequeue pde pl
     in unat (pde_count pde1) = length (pde_pulses pde1) \<and> pde_pulses pde1 = butlast (pde_pulses pde) \<and>
        same_but_pulses pde1 pde"
  using assms count_pred [OF assms]
  by (cases "pde_pulses pde = []") (simp_all add: dequeue_simps Let_def same_but_pulses_def)

lemma check_window_loop_ok:
  assumes "unat (pde_count pde) = length (pde_pulses pde)"
  shows "let (pde1, pl1) = check_window_loop m pde pl
     in unat (pde_count pde1) = length (pde_pulses pde1) \<and>
        pde_pulses pde1 = rev (dropWhile (\<lambda>p. p < m) (rev (pde_pulses pde))) \<and> same_but_pulses pde1 pde"
  using assms
proof (induction m pde pl rule: check_window_loop.induct)
  case (1 m pde pl)
  show ?case
  proof (cases "pde_pulses pde = []")
    case True
    then show ?thesis using 1(2) by (subst check_window_loop.simps) (simp add: pulse_queue_get_tail_def)
  next
    case False
    then obtain ps p where ps: "pde_pulses pde = ps @ [p]" by (cases "pde_pulses pde" rule: rev_cases) auto
    have tail: "pulse_queue_get_tail pde = Some p" by (simp add: pulse_queue_get_tail_def ps)
    show ?thesis
    proof (cases "m \<le> p")
      case True
      then show ?thesis
        using 1(2) tail ps by (subst check_window_loop.simps) (simp add: not_less)
    next
      case old: False
      obtain b pde1 pl1 where d: "pulse_queue_dequeue pde pl = (b, pde1, pl1)"
        by (cases "pulse_queue_dequeue pde pl") auto
      have d1: "unat (pde_count pde1) = length (pde_pulses pde1)" "pde_pulses pde1 = ps" "same_but_pulses pde1 pde"
        using dequeue_ok [OF 1(2), of pl] d ps by auto
      have "check_window_loop m pde pl = check_window_loop m pde1 pl1"
        using tail old d by (subst check_window_loop.simps) simp
      moreover obtain pde2 pl2 where r: "check_window_loop m pde1 pl1 = (pde2, pl2)"
        by (cases "check_window_loop m pde1 pl1") auto
      ultimately show ?thesis
        using 1(1) [OF tail old d [symmetric] refl d1(1)] d1(2,3) old ps
        by (auto simp: not_le intro: same_but_pulses_trans)
    qed
  qed
qed

text \<open>A pulse in the queue: the kept ones are a prefix of the new queue, and one more goes at the limit.\<close>

lemma enqueue_ok:
  assumes "unat (pde_count pde) = length (pde_pulses pde)" and "length (pde_pulses pde) < unat (pde_max_count pde)"
    and "pulse_queue_enqueue pde ts pl = (ok, pde1, pl1)"
  shows "unat (pde_count pde1) = length (pde_pulses pde1) \<and> length (pde_pulses pde1) < unat (pde_max_count pde) \<and>
     same_but_pulses (pde1\<lparr>pde_last_ts := pde_last_ts pde\<rparr>) pde \<and>
     (\<exists>n. pde_pulses pde1 = take n (ts # pde_pulses pde) \<or> pde_pulses pde1 = pde_pulses pde)"
proof (cases "\<not> fst (pool_get_pulse_elem pl) \<and> \<not> mem (snd (pool_get_pulse_elem pl))")
  case True
  then have "pde1 = pde" using assms(3) by (auto simp: pulse_queue_enqueue_def split: prod.splits if_splits)
  then show ?thesis using assms by simp
next
  case False
  define pl0 where "pl0 = snd (pool_get_pulse_elem pl)"
  define p0 where "p0 = pde\<lparr>pde_pulses := ts # pde_pulses pde, pde_count := pde_count pde + 1, pde_last_ts := ts\<rparr>"
  have c0: "unat (pde_count p0) = length (pde_pulses p0)"
    using assms(1,2) unat_inc [of "pde_count pde" "pde_max_count pde"] by (simp add: p0_def unat_less_iff)
  obtain p2 pl2 where w: "pulse_queue_check_window p0 pl0 = (p2, pl2)" by (cases "pulse_queue_check_window p0 pl0")
  have w2: "unat (pde_count p2) = length (pde_pulses p2) \<and> (\<exists>n. pde_pulses p2 = take n (pde_pulses p0)) \<and> same_but_pulses p2 p0"
  proof (cases "p2 = p0")
    case True
    then show ?thesis using c0 by (auto intro: exI [of _ "length (pde_pulses p0)"])
  next
    case False
    then have "check_window_loop (pde_last_ts p0 - ucast (pde_window_size p0)) p0 pl0 = (p2, pl2)"
      using w by (auto simp: pulse_queue_check_window_def split: if_splits)
    moreover have "\<exists>n. rev (dropWhile P (rev xs)) = take n xs" for P and xs :: "u64 list"
      by (metis append_eq_conv_conj rev_append rev_rev_ident takeWhile_dropWhile_id)
    ultimately show ?thesis
      using check_window_loop_ok [OF c0, of "pde_last_ts p0 - ucast (pde_window_size p0)" pl0] by auto
  qed
  have "(ok, pde1, pl1) = (if pde_max_count p2 \<le> pde_count p2
      then (case pulse_queue_dequeue p2 pl2 of (_, p3, pl3) \<Rightarrow> (True, p3, pl3)) else (True, p2, pl2))"
    using assms(3) False w by (auto simp: pulse_queue_enqueue_def p0_def pl0_def Let_def split: prod.splits)
  then consider "pde1 = p2" "\<not> pde_max_count p2 \<le> pde_count p2" | b where "pulse_queue_dequeue p2 pl2 = (b, pde1, pl1)"
    by (auto split: prod.splits if_splits)
  then show ?thesis
  proof cases
    case 1
    have "pde_max_count p2 = pde_max_count pde" using w2 by (simp add: same_but_pulses_def p0_def)
    then show ?thesis using 1 w2 by (auto simp: same_but_pulses_def p0_def unat_le_iff)
  next
    case 2
    obtain n where n: "pde_pulses p2 = take n (pde_pulses p0)" using w2 by blast
    have "pde_pulses pde1 = butlast (pde_pulses p2)" "unat (pde_count pde1) = length (pde_pulses pde1)" "same_but_pulses pde1 p2"
      using dequeue_ok [of p2 pl2] w2 2 by auto
    moreover have "length (butlast (pde_pulses p2)) < unat (pde_max_count pde)"
      using n assms(2) by (simp add: p0_def min_def) linarith
    moreover have "butlast (pde_pulses p2) = take (length (pde_pulses p2) - 1) (take n (pde_pulses p0))"
      by (simp add: n butlast_conv_take)
    ultimately show ?thesis using w2 by (auto simp: same_but_pulses_def p0_def take_take)
  qed
qed

subsection \<open>The invariant of a detector\<close>

definition spec_ok :: "radar_detector_specs \<Rightarrow> bool" where
  "spec_ok rs \<longleftrightarrow> 0 < ppb rs \<and> max_pri_tolerance rs = 16 \<and> 100 \<le> pri_min rs \<and> pri_min rs \<le> pri_max rs \<and>
     0 < num_pri rs \<and> 3 \<le> rs_ppb_thresh rs \<and> rs_ppb_thresh rs \<le> ppb rs"

definition seq_ok :: "radar_detector_specs \<Rightarrow> pri_sequence \<Rightarrow> bool" where
  "seq_ok rs ps \<longleftrightarrow> ucast (pri_min rs) \<le> ps_pri ps \<and> ps_pri ps \<le> ucast (pri_max rs)"

definition det_ok :: "pri_detector \<Rightarrow> bool" where
  "det_ok pde \<longleftrightarrow>
     unat (pde_count pde) = length (pde_pulses pde) \<and> length (pde_pulses pde) < unat (pde_max_count pde) \<and>
     (if waveform (pde_rs pde) = RADAR_WAVEFORM_LONG
      then pde_ops pde = pri_detector_long \<and> pde_max_count pde = LONG_RADAR_MAX_BURST \<and>
           pde_window_size pde = LONG_RADAR_DURATION \<and> length (pde_sequences pde) \<le> 1
      else pde_ops pde = pri_detector_short \<and> pde_max_count pde = ucast (ppb (pde_rs pde)) * 2 \<and>
           (\<forall>ps\<in>set (pde_sequences pde). seq_ok (pde_rs pde) ps))"

lemma ppb_pos: "0 < ppb rs \<Longrightarrow> 0 < unat (ucast (ppb rs) * 2 :: u32)"
proof -
  assume "0 < ppb rs"
  then have "0 < unat (ppb rs)" by (simp add: unat_less_iff)
  moreover have "unat (ucast (ppb rs) * 2 :: u32) = unat (ppb rs) * 2"
  proof -
    have "unat (ppb rs) * 2 < 4294967296" using unat_u8_less [of "ppb rs"] by linarith
    then show ?thesis by (simp add: unat_word_ariths)
  qed
  ultimately show ?thesis by simp
qed

lemma new_detector_ok: "spec_ok rs \<Longrightarrow> det_ok (new_detector rs freq)"
  using ppb_pos [of rs]
  by (auto simp: new_detector_def det_ok_def spec_ok_def Let_def pde_long_init_def pde_short_init_def
      LONG_RADAR_MAX_BURST_def)

lemma det_ok_reset: "det_ok pde \<Longrightarrow> det_ok (fst (pri_detector_reset pde ts pl))"
  by (auto simp: det_ok_def pri_detector_reset_def)

lemma det_ok_enqueue:
  assumes "det_ok pde" and "pulse_queue_enqueue pde ts pl = (ok, pde1, pl1)"
  shows "det_ok pde1 \<and> pde_rs pde1 = pde_rs pde \<and> pde_freq pde1 = pde_freq pde \<and> pde_sequences pde1 = pde_sequences pde"
  using assms(1) enqueue_ok [OF _ _ assms(2)] by (auto simp: det_ok_def same_but_pulses_def)

lemma existing_loop_pri:
  "existing_loop rs ts mx seqs pl = (n, seqs1, pl1) \<Longrightarrow> \<forall>ps\<in>set seqs. seq_ok rs ps \<Longrightarrow> \<forall>ps\<in>set seqs1. seq_ok rs ps"
proof (induction rs ts mx seqs pl arbitrary: n seqs1 pl1 rule: existing_loop.induct)
  case (2 rs ts mx ps rest pl)
  show ?case
  proof (cases "ps_deadline_ts ps < ts")
    case True
    then show ?thesis using 2 by simp
  next
    case False
    then show ?thesis
      using 2(2)[OF False refl refl refl refl] 2(3,4)
      by (auto simp: Let_def seq_ok_def split: prod.splits if_splits)
  qed
qed simp

lemma count_matches_pri: "ps_pri (count_matches rs m tf ps older) = ps_pri ps"
  by (induction rs m tf ps older rule: count_matches.induct) (simp_all add: Let_def)

lemma create_loop_pri:
  "create_loop rs ts mn idx ps seqs pl = (ok, seqs1, pl1) \<Longrightarrow> \<forall>s\<in>set seqs. seq_ok rs s \<Longrightarrow> \<forall>s\<in>set seqs1. seq_ok rs s"
proof (induction rs ts mn idx ps seqs pl arbitrary: ok seqs1 pl1 rule: create_loop.induct)
  case (2 rs ts mn idx p older seqs pl)
  define d where "d = (ucast (ts - p) :: u32)"
  define ps1 where "ps1 = count_matches rs
      (if ts < ucast (ps_dur (start_sequence rs ts (idx + 1) p)) then 0
       else ts - ucast (ps_dur (start_sequence rs ts (idx + 1) p))) 0 (start_sequence rs ts (idx + 1) p) older"
  have fin: "seq_ok rs (finish_sequence rs ps1)" if "\<not> d < ucast (pri_min rs)" "\<not> ucast (pri_max rs) < d"
    using that by (simp add: not_less seq_ok_def finish_sequence_def ps1_def count_matches_pri start_sequence_def d_def)
  show ?case
  proof (cases "d < ucast (pri_min rs)")
    case True
    then show ?thesis using 2(1) [OF d_def refl True] 2(4,5) by (simp add: d_def Let_def)
  next
    case a: False
    show ?thesis
    proof (cases "ucast (pri_max rs) < d")
      case True
      then show ?thesis using 2(4,5) a by (simp add: d_def Let_def)
    next
      case b: False
      show ?thesis
      proof (cases "ps_count ps1 \<le> mn")
        case True
        then have "create_loop rs ts mn (idx + 1) older seqs pl = (ok, seqs1, pl1)"
          using 2(4) a b by (simp add: d_def Let_def ps1_def)
        then show ?thesis using 2(2)[OF d_def refl a b refl refl ps1_def True] 2(5) by simp
      next
        case c: False
        obtain got pl0 where g: "pool_get_pseq_elem pl = (got, pl0)" by (cases "pool_get_pseq_elem pl")
        show ?thesis
        proof (cases got)
          case True
          then have "create_loop rs ts mn (idx + 1) older (finish_sequence rs ps1 # seqs) pl0 = (ok, seqs1, pl1)"
            using 2(4) a b c g by (simp add: d_def Let_def ps1_def)
          then show ?thesis
            using 2(3)[OF d_def refl a b refl refl ps1_def c g [symmetric] True] 2(5) fin a b by simp
        next
          case False
          then show ?thesis using 2(4,5) a b c g by (simp add: d_def Let_def ps1_def)
        qed
      qed
    qed
  qed
qed simp


lemma det_ok_short:
  assumes "det_ok pde" and "spec_ok (pde_rs pde)" and "pde_ops pde = pri_detector_short"
    and "pde_short_add_pulse pde ts pl = (found, pde1, pl1)"
  shows "det_ok pde1 \<and> pde_rs pde1 = pde_rs pde \<and> pde_freq pde1 = pde_freq pde"
proof (cases "pde_count pde = 0 \<or> ts - pde_last_ts pde < ucast (max_pri_tolerance (pde_rs pde))")
  case True
  then show ?thesis
    using assms(1,4) det_ok_enqueue [OF assms(1), of ts pl]
    by (auto simp: pde_short_add_pulse_def split: if_splits prod.splits)
next
  case False
  have short: "waveform (pde_rs pde) \<noteq> RADAR_WAVEFORM_LONG"
    using assms(1,3) by (auto simp: det_ok_def)
  obtain n seqs pl2 where e: "existing_loop (pde_rs pde) ts 0 (pde_sequences pde) pl = (n, seqs, pl2)"
    by (cases "existing_loop (pde_rs pde) ts 0 (pde_sequences pde) pl") auto
  obtain ok seqs3 pl3 where c: "create_loop (pde_rs pde) ts n 0 (pde_pulses pde) seqs pl2 = (ok, seqs3, pl3)"
    by (cases "create_loop (pde_rs pde) ts n 0 (pde_pulses pde) seqs pl2") auto
  define p3 where "p3 = pde\<lparr>pde_sequences := seqs3\<rparr>"
  have "\<forall>ps\<in>set seqs3. seq_ok (pde_rs pde) ps"
    using create_loop_pri [OF c] existing_loop_pri [OF e] assms(1) short by (simp add: det_ok_def)
  then have ok3: "det_ok p3" using assms(1) short by (auto simp: det_ok_def p3_def)
  have "(found, pde1, pl1) =
      (case ok of False \<Rightarrow> (None, fst (pri_detector_reset p3 ts pl3), snd (pri_detector_reset p3 ts pl3))
       | True \<Rightarrow> (case pde_short_check_detection p3 of Some ps \<Rightarrow> (Some ps, p3, pl3)
                   | None \<Rightarrow> (case pulse_queue_enqueue p3 ts pl3 of (_, p4, pl4) \<Rightarrow> (None, p4, pl4))))"
    using assms(4) False e c
    unfolding pde_short_add_pulse_def pde_short_add_to_existing_seqs_def pde_short_create_sequences_def p3_def
    by (auto split: bool.splits prod.splits option.splits)
  then have "pde1 = fst (pri_detector_reset p3 ts pl3) \<or> pde1 = p3 \<or>
      (\<exists>b pl4. pulse_queue_enqueue p3 ts pl3 = (b, pde1, pl4))"
    by (cases "pri_detector_reset p3 ts pl3") (auto split: bool.splits option.splits prod.splits)
  then show ?thesis
    using ok3 det_ok_reset [OF ok3] det_ok_enqueue [OF ok3]
    by (auto simp: p3_def pri_detector_reset_def)
qed

lemma deadline_loop_ok:
  assumes "unat (pde_count pde) = length (pde_pulses pde)"
  shows "let (ps1, pde1, pl1) = deadline_loop m ps pde pl
     in unat (pde_count pde1) = length (pde_pulses pde1) \<and> length (pde_pulses pde1) \<le> length (pde_pulses pde) \<and>
        same_but_pulses pde1 pde"
  using assms
proof (induction m ps pde pl rule: deadline_loop.induct)
  case (1 m ps pde pl)
  show ?case
  proof (cases "pulse_queue_get_tail pde")
    case None
    then show ?thesis using 1(2) by (subst deadline_loop.simps) simp
  next
    case (Some p)
    obtain b pde1 pl1 where d: "pulse_queue_dequeue pde pl = (b, pde1, pl1)"
      by (cases "pulse_queue_dequeue pde pl") auto
    have d1: "unat (pde_count pde1) = length (pde_pulses pde1)" "pde_pulses pde1 = butlast (pde_pulses pde)"
      "same_but_pulses pde1 pde"
      using dequeue_ok [OF 1(2), of pl] d by auto
    obtain ps2 pde2 pl2 where r: "deadline_loop m (ps\<lparr>ps_count := ps_count ps - 1\<rparr>) pde1 pl1 = (ps2, pde2, pl2)"
      by (cases "deadline_loop m (ps\<lparr>ps_count := ps_count ps - 1\<rparr>) pde1 pl1")
    show ?thesis
    proof (cases "m \<le> p")
      case True
      then show ?thesis using 1(2) Some by (subst deadline_loop.simps) simp
    next
      case False
      then have "deadline_loop m ps pde pl = (ps2, pde2, pl2)"
        using Some d r by (subst deadline_loop.simps) simp
      then show ?thesis
        using 1(1) [OF Some False d [symmetric] refl d1(1)] d1(2,3) r by (auto intro: same_but_pulses_trans)
    qed
  qed
qed

lemma det_ok_long:
  assumes "det_ok pde" and "pde_ops pde = pri_detector_long"
    and "pde_long_add_pulse busy dur pde ts pl = (found, pde1, pl1)"
  shows "det_ok pde1 \<and> pde_rs pde1 = pde_rs pde \<and> pde_freq pde1 = pde_freq pde"
proof -
  have long: "waveform (pde_rs pde) = RADAR_WAVEFORM_LONG" "length (pde_sequences pde) \<le> 1"
    using assms(1,2) by (auto simp: det_ok_def split: if_splits)
  have put: "det_ok (p\<lparr>pde_sequences := [s]\<rparr>)" if "det_ok p" "pde_rs p = pde_rs pde" for p s
    using that long by (auto simp: det_ok_def)
  have shrink: "det_ok p" if "unat (pde_count p) = length (pde_pulses p)"
    "length (pde_pulses p) \<le> length (pde_pulses pde)" "same_but_pulses p pde" for p
    using that assms(1) by (auto simp: det_ok_def same_but_pulses_def)
  show ?thesis
  proof (cases "pde_sequences pde")
    case Nil
    have "pde1 = pde \<or> (\<exists>b s pl0 pl2. pulse_queue_enqueue (pde\<lparr>pde_sequences := [s]\<rparr>) ts pl0 = (b, pde1, pl2))"
      using assms(3) Nil by (auto simp: pde_long_add_pulse_def Let_def split: if_splits prod.splits bool.splits)
    then show ?thesis
      using assms(1) det_ok_enqueue [OF put [OF assms(1) refl]] by fastforce
  next
    case (Cons s others)
    then have oth: "others = []" using long(2) by simp
    obtain f s2 pde2 pl2 where nb: "long_new_burst ts (ucast (ts - ps_last_ts s)) (s\<lparr>ps_last_ts := ts\<rparr>) pde pl = (f, s2, pde2, pl2)"
      by (cases "long_new_burst ts (ucast (ts - ps_last_ts s)) (s\<lparr>ps_last_ts := ts\<rparr>) pde pl")
    have "pde1 = pde \<or> (\<exists>s1. pde1 = pde\<lparr>pde_sequences := [s1]\<rparr>) \<or> pde1 = pde2\<lparr>pde_sequences := [s2]\<rparr>"
      using assms(3) Cons oth nb by (auto simp: pde_long_add_pulse_def Let_def split: if_splits)
    then show ?thesis
    proof (elim disjE exE conjE)
      assume "pde1 = pde" then show ?thesis using assms(1) by simp
    next
      fix s1 assume "pde1 = pde\<lparr>pde_sequences := [s1]\<rparr>"
      then show ?thesis using put [OF assms(1) refl] by simp
    next
      assume p1: "pde1 = pde2\<lparr>pde_sequences := [s2]\<rparr>"
      define s0 where "s0 = s\<lparr>ps_last_ts := ts\<rparr>"
      note b = nb [folded s0_def]
      define s0' where "s0' = s0\<lparr>ps_count := ps_count s0 + 1, ps_count_falses := 1\<rparr>"
      obtain s3 p2 pl3 where l: "(if ps_deadline_ts s0' < ts
          then deadline_loop (ts - ucast (pde_window_size pde)) s0' pde pl else (s0', pde, pl)) = (s3, p2, pl3)"
        by (metis prod_cases3)
      have c: "unat (pde_count pde) = length (pde_pulses pde)" using assms(1) by (simp add: det_ok_def)
      have "det_ok p2 \<and> same_but_pulses p2 pde"
      proof (cases "ps_deadline_ts s0' < ts")
        case True
        then have "deadline_loop (ts - ucast (pde_window_size pde)) s0' pde pl = (s3, p2, pl3)" using l by simp
        then show ?thesis
          using deadline_loop_ok [OF c, of "ts - ucast (pde_window_size pde)" s0' pl] shrink [of p2] by simp
      next
        case False
        then show ?thesis using l assms(1) by simp
      qed
      then have ok2: "det_ok p2" "pde_rs p2 = pde_rs pde" "pde_freq p2 = pde_freq pde"
        by (auto simp: same_but_pulses_def)
      have "pde2 = p2 \<or> (\<exists>b pl4. pulse_queue_enqueue p2 ts pl3 = (b, pde2, pl4))"
        using b l by (auto simp: long_new_burst_def s0'_def [symmetric] Let_def split: prod.splits if_splits)
      then have "det_ok pde2 \<and> pde_rs pde2 = pde_rs pde \<and> pde_freq pde2 = pde_freq pde"
        using ok2 det_ok_enqueue [OF ok2(1)] by auto
      then show ?thesis using put p1 by simp
    qed
  qed
qed


subsection \<open>The invariant of the pattern detector\<close>

definition dpd_ok :: "dfs_pattern_detector \<Rightarrow> bool" where
  "dpd_ok dpd \<longleftrightarrow>
     length (detectors dpd) = 9 \<and> num_radar_types dpd \<le> 9 \<and> length (radar_spec dpd) = num_radar_types dpd \<and>
     (\<forall>rs\<in>set (radar_spec dpd). spec_ok rs) \<and>
     (\<forall>i<num_radar_types dpd. \<forall>pde\<in>set (detectors dpd ! i). pde_rs pde = radar_spec dpd ! i \<and> det_ok pde) \<and>
     (\<forall>i<9. num_radar_types dpd \<le> i \<longrightarrow> detectors dpd ! i = [])"

lemmas tables = etsi_radar_ref_types_v17_riu_def etsi_radar_ref_types_v17_fcu_def fcc_radar_ref_types_riu_def
  fcc_radar_ref_types_fcu_def jp_radar_ref_types_riu_def jp_radar_ref_types_fcu_def

lemmas domains = dfs_domains_def etsi_radar_types_v17_def fcc_radar_types_def jp_radar_types_def

lemma patterns_ok:
  "spec_ok (ETSI_PATTERN_SHORT i a b c d n) \<longleftrightarrow>
     spec_ok \<lparr>type_id = 0, width_min = 0, width_max = 0,
      pri_min = of_nat (PRF2PRI d - 16), pri_max = of_nat (PRF2PRI c + 16),
      num_pri = 1, ppb = of_nat n, rs_ppb_thresh = of_nat (PPB_THRESH n),
      max_pri_tolerance = 16, waveform = RADAR_WAVEFORM_SHORT\<rparr>"
  "spec_ok (ETSI_PATTERN_INTERLEAVED i a b c d e f n) \<longleftrightarrow>
     spec_ok \<lparr>type_id = 0, width_min = 0, width_max = 0,
      pri_min = of_nat (PRF2PRI d * e - 16), pri_max = of_nat (PRF2PRI c * f + 16),
      num_pri = of_nat f, ppb = of_nat (n * f), rs_ppb_thresh = of_nat (PPB_THRESH n),
      max_pri_tolerance = 16, waveform = RADAR_WAVEFORM_SHORT\<rparr>"
  "spec_ok (FCC_PATTERN i a b c d e n w) \<longleftrightarrow>
     spec_ok \<lparr>type_id = 0, width_min = 0, width_max = 0,
      pri_min = of_nat (c - 16), pri_max = of_nat (d * e + 16),
      num_pri = of_nat e, ppb = of_nat (n * e), rs_ppb_thresh = of_nat (PPB_THRESH n),
      max_pri_tolerance = 16, waveform = RADAR_WAVEFORM_SHORT\<rparr>"
  by (simp_all add: spec_ok_def ETSI_PATTERN_SHORT_def ETSI_PATTERN_INTERLEAVED_def FCC_PATTERN_def PRI_TOLERANCE_def)

lemma tables_ok:
  "\<forall>rs\<in>set etsi_radar_ref_types_v17_riu. spec_ok rs" "\<forall>rs\<in>set etsi_radar_ref_types_v17_fcu. spec_ok rs"
  "\<forall>rs\<in>set fcc_radar_ref_types_riu. spec_ok rs" "\<forall>rs\<in>set fcc_radar_ref_types_fcu. spec_ok rs"
  "\<forall>rs\<in>set jp_radar_ref_types_riu. spec_ok rs" "\<forall>rs\<in>set jp_radar_ref_types_fcu. spec_ok rs"
  by (simp_all add: tables patterns_ok PRF2PRI_def PPB_THRESH_def MIN_PPB_THRESH_def)
     (simp_all add: spec_ok_def)

lemma domains_ok:
  "rt \<in> set dfs_domains \<Longrightarrow>
     rt_num_radar_types rt \<le> 9 \<and> length (spec_riu rt) = rt_num_radar_types rt \<and>
     length (spec_fcu rt) = rt_num_radar_types rt \<and> (\<forall>rs\<in>set (spec_riu rt) \<union> set (spec_fcu rt). spec_ok rs)"
  using tables_ok by (auto simp: domains) (simp_all add: tables)

lemma max_types: "get_dfs_max_radar_types = 9"
  by (simp add: get_dfs_max_radar_types_def domains tables)

text \<open>A reset does not look at the pools.\<close>

definition cleared :: "u64 \<Rightarrow> pri_detector \<Rightarrow> pri_detector" where
  "cleared ts pde = pde\<lparr>pde_sequences := [], pde_pulses := [], pde_count := 0, pde_last_ts := ts\<rparr>"

lemma fst_reset [simp]: "fst (pri_detector_reset pde ts pl) = cleared ts pde"
  by (simp add: pri_detector_reset_def cleared_def)

lemma cleared_simps [simp]: "pde_rs (cleared ts pde) = pde_rs pde" "det_ok pde \<Longrightarrow> det_ok (cleared ts pde)"
  using det_ok_reset [of pde ts] by (simp_all add: cleared_def pri_detector_reset_def)

lemma fst_reset_list:
  "fst (reset_list which ts ds pl) = map (\<lambda>pde. if which pde then cleared ts pde else pde) ds"
proof (induction which ts ds pl rule: reset_list.induct)
  case (2 which ts pde rest pl)
  obtain p1 pl1 where e: "(if which pde then pri_detector_reset pde ts pl else (pde, pl)) = (p1, pl1)"
    by (cases "if which pde then pri_detector_reset pde ts pl else (pde, pl)")
  have "p1 = (if which pde then cleared ts pde else pde)"
    using e fst_reset [of pde ts pl] by (cases "which pde") auto
  then show ?case using 2 [OF e [symmetric]] e by (auto split: prod.splits)
qed simp

lemma fst_reset_types:
  "fst (reset_types which ts n dets pl) =
     map (map (\<lambda>pde. if which pde then cleared ts pde else pde)) (take n dets) @ drop n dets"
proof (induction which ts n dets pl rule: reset_types.induct)
  case (3 which ts n ds dets pl)
  obtain d1 pl1 where e: "reset_list which ts ds pl = (d1, pl1)" by (cases "reset_list which ts ds pl")
  then show ?case using 3 [OF e [symmetric]] fst_reset_list [of which ts ds pl] by (auto split: prod.splits)
qed simp_all

lemma dpd_ok_reset_types:
  assumes "dpd_ok dpd"
  shows "dpd_ok (dpd\<lparr>detectors := fst (reset_types which ts (num_radar_types dpd) (detectors dpd) pl)\<rparr>)"
  using assms by (auto simp: dpd_ok_def fst_reset_types nth_append)


lemma find_detector_bound:
  "find_detector freq k cur ds = Some j \<Longrightarrow> (cur = Some j \<or> k \<le> j \<and> j < k + length ds)"
proof (induction freq k cur ds rule: find_detector.induct)
  case (2 freq k cur pde rest)
  then show ?case by (auto split: if_splits)
qed simp

lemma get_ok:
  assumes "dpd_ok dpd" and "i < num_radar_types dpd" and "pri_detector_get dpd freq i pl = Some (k, dpd1, pl1)"
  shows "dpd_ok dpd1 \<and> num_radar_types dpd1 = num_radar_types dpd \<and> k < length (detectors dpd1 ! i)"
proof (cases "find_detector freq 0 None (detectors dpd ! i)")
  case None
  then have d: "dpd1 = dpd\<lparr>detectors := (detectors dpd)[i := new_detector (radar_spec dpd ! i) freq # detectors dpd ! i]\<rparr>" "k = 0"
    using assms(3) by (auto simp: pri_detector_get_def pri_detector_init_def split: if_splits)
  have i9: "i < length (detectors dpd)" using assms(1,2) by (simp add: dpd_ok_def)
  have "spec_ok (radar_spec dpd ! i)" using assms(1,2) by (simp add: dpd_ok_def)
  then have new: "det_ok (new_detector (radar_spec dpd ! i) freq)" by (rule new_detector_ok)
  have rs: "pde_rs (new_detector r freq) = r" for r
    by (simp add: new_detector_def Let_def pde_long_init_def pde_short_init_def)
  have "pde_rs pde = radar_spec dpd ! j \<and> det_ok pde" if "j < num_radar_types dpd" "pde \<in> set (detectors dpd1 ! j)" for j pde
    using that assms(1) i9 new rs by (cases "j = i") (auto simp: dpd_ok_def d(1))
  moreover have "detectors dpd1 ! j = []" if "j < 9" "num_radar_types dpd \<le> j" for j
    using that assms(1,2) by (auto simp: dpd_ok_def d(1))
  ultimately show ?thesis using assms(1) i9 d by (simp add: dpd_ok_def)
next
  case (Some j)
  then show ?thesis
    using assms find_detector_bound [OF Some] by (auto simp: pri_detector_get_def)
qed

lemma pde_add_pulse_ok:
  assumes "det_ok pde" and "spec_ok (pde_rs pde)" and "pde_add_pulse env pde ts pl = (found, pde1, pl1)"
  shows "det_ok pde1 \<and> pde_rs pde1 = pde_rs pde"
  using assms det_ok_short [of pde ts pl found pde1 pl1] det_ok_long [of pde "cac_busy env" "stale_dur env" ts pl found pde1 pl1]
  by (cases "pde_ops pde") (simp_all add: pde_add_pulse_def)

lemma add_pulse_loop_ok:
  assumes "dpd_ok dpd" and "\<forall>i\<in>set is. i < num_radar_types dpd"
    and "add_pulse_loop env freq len is dpd pl = Some (found, dpd', pl')"
  shows "dpd_ok dpd' \<and> num_radar_types dpd' = num_radar_types dpd"
  using assms
proof (induction env freq len "is" dpd pl rule: add_pulse_loop.induct)
  case (2 env freq len i "is" dpd pl)
  show ?case
  proof (cases "len < ucast (width_min (radar_spec dpd ! i)) \<or> ucast (width_max (radar_spec dpd ! i)) < len")
    case True
    then show ?thesis using 2(1) [OF refl True] 2(3-5) by (simp add: Let_def)
  next
    case False
    obtain k dpd1 pl1 where g: "pri_detector_get dpd freq i pl = Some (k, dpd1, pl1)"
      using 2(5) False by (auto simp: Let_def split: option.splits)
    have i: "i < num_radar_types dpd" using 2(4) by simp
    note g1 = get_ok [OF 2(3) i g]
    obtain fnd pde pl2 where p: "pde_add_pulse env (detectors dpd1 ! i ! k) (last_pulse_ts dpd1) pl1 = (fnd, pde, pl2)"
      by (cases "pde_add_pulse env (detectors dpd1 ! i ! k) (last_pulse_ts dpd1) pl1")
    define dpd2 where "dpd2 = dpd1\<lparr>detectors := (detectors dpd1)[i := (detectors dpd1 ! i)[k := pde]]\<rparr>"
    have i1: "i < num_radar_types dpd1" "i < length (detectors dpd1)" using g1 i by (auto simp: dpd_ok_def)
    have old: "det_ok (detectors dpd1 ! i ! k)" "pde_rs (detectors dpd1 ! i ! k) = radar_spec dpd1 ! i" "spec_ok (radar_spec dpd1 ! i)"
      using g1 i1 by (auto simp: dpd_ok_def)
    have pde: "det_ok pde \<and> pde_rs pde = radar_spec dpd1 ! i"
      using pde_add_pulse_ok [OF old(1) _ p] old by simp
    have "pde_rs q = radar_spec dpd1 ! j \<and> det_ok q" if "j < num_radar_types dpd1" "q \<in> set (detectors dpd2 ! j)" for j q
    proof (cases "j = i")
      case True
      then have "q = pde \<or> q \<in> set (detectors dpd1 ! i)"
        using that(2) i1 by (auto simp: dpd2_def dest: set_update_subset_insert [THEN subsetD])
      then show ?thesis using pde g1 that(1) True by (auto simp: dpd_ok_def)
    qed (use that g1 in \<open>auto simp: dpd_ok_def dpd2_def\<close>)
    moreover have "detectors dpd2 ! j = []" if "j < 9" "num_radar_types dpd1 \<le> j" for j
      using that g1 i1 by (auto simp: dpd_ok_def dpd2_def)
    ultimately have ok2: "dpd_ok dpd2" using g1 by (simp add: dpd_ok_def dpd2_def)
    have n2: "num_radar_types dpd2 = num_radar_types dpd" using g1 by (simp add: dpd2_def)
    show ?thesis
    proof (cases fnd)
      case None
      then have "add_pulse_loop env freq len is dpd2 pl2 = Some (found, dpd', pl')"
        using 2(5) False g p by (simp add: Let_def dpd2_def)
      then show ?thesis
        using 2(2) [OF refl False g refl refl p [symmetric] refl dpd2_def None ok2] 2(4) n2 by simp
    next
      case (Some ps)
      then have "dfs_pattern_detector_reset (now_jiffies env) dpd2 pl2 = (dpd', pl')"
        using 2(5) False g p by (auto simp: Let_def dpd2_def split: prod.splits)
      then have "dpd' = dpd2\<lparr>detectors := fst (reset_types (\<lambda>_. True) (last_pulse_ts dpd2) (num_radar_types dpd2) (detectors dpd2) pl2),
          last_pulse_ts := 0, prev_jiffies := now_jiffies env\<rparr>"
        by (auto simp: dfs_pattern_detector_reset_def split: prod.splits)
      then show ?thesis
        using dpd_ok_reset_types [OF ok2, of "\<lambda>_. True" "last_pulse_ts dpd2" pl2] n2 by (simp add: dpd_ok_def)
    qed
  qed
qed simp

lemma pri_overflow_ok: "dpd_ok dpd \<Longrightarrow> dpd_ok (fst (dfs_pattern_detector_pri_overflow dpd pl))"
  using dpd_ok_reset_types [of dpd "\<lambda>pde. reset_on_pri_overflow (pde_ops pde)" "last_pulse_ts dpd" pl]
  by (auto simp: dfs_pattern_detector_pri_overflow_def split: prod.splits)

lemma add_pulse_ok:
  assumes "dpd_ok dpd" and "dfs_pattern_detector_add_pulse j2us env freq pri len now dpd pl = Some (found, dpd', pl')"
  shows "dpd_ok dpd'"
proof (cases "dpd_region dpd = NL80211_DFS_UNSET")
  case True
  then show ?thesis using assms by (simp add: dfs_pattern_detector_add_pulse_def)
next
  case False
  define d0 where "d0 = dpd\<lparr>last_pulse_ts := last_pulse_ts dpd + ucast (j2us (pulse_delta_jiffie now (prev_jiffies dpd))),
                           prev_jiffies := now\<rparr>"
  define r where "r = (if pri = 0 then dfs_pattern_detector_pri_overflow d0 pl
      else (dpd\<lparr>last_pulse_ts := last_pulse_ts dpd + ucast pri\<rparr>, pl))"
  have "dpd_ok d0" using assms(1) by (simp add: d0_def dpd_ok_def)
  then have "dpd_ok (fst (dfs_pattern_detector_pri_overflow d0 pl))" by (rule pri_overflow_ok)
  moreover have "dpd_ok (dpd\<lparr>last_pulse_ts := last_pulse_ts dpd + ucast pri\<rparr>)"
    using assms(1) by (simp add: dpd_ok_def)
  ultimately have ok1: "dpd_ok (fst r)" by (simp add: r_def)
  obtain dpd1 pl1 where r1: "r = (dpd1, pl1)" by (cases r)
  have "add_pulse_loop env freq len [0..<num_radar_types dpd1] dpd1 pl1 = Some (found, dpd', pl')"
    using assms(2) False
    unfolding dfs_pattern_detector_add_pulse_def d0_def [symmetric] r_def [symmetric] r1 by simp
  then show ?thesis using add_pulse_loop_ok [of dpd1 "[0..<num_radar_types dpd1]" env freq len pl1 found dpd' pl'] ok1 r1 by simp
qed

lemma set_domain_ok:
  assumes "dpd_ok dpd"
  shows "dpd_ok (fst (snd (dfs_pattern_detector_set_domain dpd region chain pl)))"
proof (cases "get_dfs_domain_radar_types region")
  case None
  then show ?thesis using assms by (simp add: dfs_pattern_detector_set_domain_def dpd_ok_def)
next
  case (Some rt)
  then have "rt \<in> set dfs_domains"
    by (auto simp: get_dfs_domain_radar_types_def find_Some_iff in_set_conv_nth)
  note rt = domains_ok [OF this]
  have "detectors (fst (exit_types d pl)) ! i = []" if "dpd_ok d" "i < 9" for d i
    using that by (auto simp: exit_types_def Let_def dpd_ok_def nth_append min_def)
  moreover have "length (detectors (fst (exit_types d pl))) = 9" if "dpd_ok d" for d
    using that by (auto simp: exit_types_def Let_def dpd_ok_def)
  moreover have "dpd_ok (dpd\<lparr>dpd_region := NL80211_DFS_UNSET\<rparr>)" using assms by (simp add: dpd_ok_def)
  ultimately show ?thesis
    using assms rt Some
    by (auto simp: dfs_pattern_detector_set_domain_def Let_def dpd_ok_def [of "_\<lparr>dpd_region := region\<rparr>"] case_prod_beta)
qed

lemma init_detector_ok:
  assumes "dfs_pattern_detector_init region chain jiffies pl = (Some dpd, pl1)"
  shows "dpd_ok dpd"
proof -
  let ?d = "\<lparr>dpd_enabled = 0, dpd_region = NL80211_DFS_UNSET, num_radar_types = 0, last_pulse_ts = 0,
      prev_jiffies = jiffies, radar_spec = [], detectors = replicate get_dfs_max_radar_types []\<rparr>"
  have "dpd_ok ?d" by (simp add: dpd_ok_def max_types)
  from set_domain_ok [OF this, of region chain pl] show ?thesis
    using assms by (auto simp: dfs_pattern_detector_init_def split: if_splits prod.splits)
qed

inductive dpd_reachable :: "dfs_pattern_detector \<Rightarrow> bool" where
  init: "dfs_pattern_detector_init region chain jiffies pl = (Some dpd, pl1) \<Longrightarrow> dpd_reachable dpd"
| domain: "dpd_reachable dpd \<Longrightarrow> dpd_reachable (fst (snd (dfs_pattern_detector_set_domain dpd region chain pl)))"
| enable: "dpd_reachable dpd \<Longrightarrow> dpd_reachable (dpd\<lparr>dpd_enabled := e\<rparr>)"
| pulse: "dpd_reachable dpd \<Longrightarrow>
    dfs_pattern_detector_add_pulse j2us env freq pri len now dpd pl = Some (found, dpd', pl') \<Longrightarrow>
    dpd_reachable dpd'"

lemma dpd_reachable_ok: "dpd_reachable dpd \<Longrightarrow> dpd_ok dpd"
proof (induction rule: dpd_reachable.induct)
  case (enable dpd e)
  then show ?case by (simp add: dpd_ok_def)
qed (auto intro: init_detector_ok set_domain_ok add_pulse_ok)


subsection \<open>A regular pulse train is detected\<close>

text \<open>The results of a detector for a list of pulses.\<close>

fun feed :: "pri_detector \<Rightarrow> pools \<Rightarrow> u64 list \<Rightarrow> pri_sequence option list" where
  "feed pde pl [] = []"
| "feed pde pl (ts # rest) = (case pde_short_add_pulse pde ts pl of (found, pde1, pl1) \<Rightarrow> found # feed pde1 pl1 rest)"

definition train :: "nat \<Rightarrow> nat \<Rightarrow> nat \<Rightarrow> u64" where
  "train t0 p j = of_nat (t0 + j * p)"

definition threshold :: "radar_detector_specs \<Rightarrow> nat \<Rightarrow> nat" where
  "threshold rs p =
     (if waveform rs = RADAR_WAVEFORM_WEATHER
      then unat (of_nat (PPB_THRESH (unat (ucast (19000000 div (360 * of_nat p :: u32)) :: u8))) :: u8)
      else unat (rs_ppb_thresh rs))"

lemma ucast_of_nat_down: "ucast (of_nat n :: u64) = (of_nat n :: u32)"
  by transfer (simp add: min_def)

lemma train_diff: "j \<le> k \<Longrightarrow> train t0 p k - train t0 p j = of_nat ((k - j) * p)"
  by (simp add: train_def algebra_simps of_nat_diff)

lemma get_multiple_exact:
  assumes "16 < p" and "m * p < 2 ^ 32" and "0 < m"
  shows "0 < pde_get_multiple (of_nat (m * p)) (of_nat p) 16"
proof -
  have p: "p < 2 ^ 32"
    using assms by (metis le_less_trans mult_le_mono1 nat_mult_1 Suc_leI One_nat_def)
  have v: "unat (of_nat (m * p) :: u32) = m * p" "unat (of_nat p :: u32) = p" "unat (16 :: u32) = 16"
    using assms(2) p by (simp_all add: unat_of_nat del: of_nat_mult)
  have "p \<noteq> 0" "\<not> m * p < p" using assms(1,3) by auto
  moreover have "m * p - p = (m - 1) * p" by (simp add: diff_mult_distrib)
  moreover have "(m - 1) * p \<le> 16 \<longleftrightarrow> m = 1"
  proof (cases "m = 1")
    case False
    then have "1 \<le> m - 1" using assms(3) by linarith
    then have "p \<le> (m - 1) * p" using mult_le_mono1 [of 1 "m - 1" p] by simp
    then show ?thesis using assms(1) False by linarith
  qed simp
  ultimately have "unat (pde_get_multiple (of_nat (m * p)) (of_nat p) 16) = m"
    unfolding get_multiple_nat v Let_def using assms(1) by simp
  then show ?thesis using assms(3) by (simp add: unat_less_iff)
qed

lemma count_matches_bound:
  assumes "unat (ps_count ps) + length older < 2 ^ 32"
  shows "unat (ps_count (count_matches rs m tf ps older)) \<le> unat (ps_count ps) + length older"
  using assms
proof (induction rs m tf ps older rule: count_matches.induct)
  case (2 rs m tf ps p2 older)
  have inc: "unat (ps_count ps + 1) = unat (ps_count ps) + 1"
    using 2(3) by (simp add: unat_word_ariths)
  show ?case
    using 2 inc by (auto simp: Let_def)
qed simp


lemma create_loop_none:
  assumes "length older + 1 \<le> unat min_count"
  shows "create_loop rs ts min_count idx older seqs pl = (True, seqs, pl)"
  using assms
proof (induction older arbitrary: idx)
  case (Cons p older)
  let ?ps = "start_sequence rs ts (idx + 1) p"
  have two: "unat (ps_count ?ps) = 2" by (simp add: start_sequence_def)
  have "length older + 2 \<le> unat min_count" using Cons.prems by simp
  moreover have "unat min_count < 2 ^ 32" using unsigned_less [of min_count] by simp
  ultimately have "unat (ps_count (count_matches rs m 0 ?ps older)) \<le> unat min_count" for m
    using count_matches_bound [of ?ps older rs m 0] two by linarith
  then have "ps_count (count_matches rs m 0 ?ps older) \<le> min_count" for m
    by (simp add: unat_le_iff)
  then show ?case using Cons by (simp add: Let_def)
qed simp

definition train_seq :: "radar_detector_specs \<Rightarrow> nat \<Rightarrow> nat \<Rightarrow> nat \<Rightarrow> pri_sequence" where
  "train_seq rs t0 p k =
     \<lparr>ps_pri = of_nat p, ps_dur = of_nat p * (ucast (ppb rs) - 1) + 2 * ucast (max_pri_tolerance rs),
      ps_count = of_nat k, ps_count_falses = 0, ps_first_ts = train t0 p 0, ps_last_ts = train t0 p (k - 1),
      ps_deadline_ts = train t0 p 0 + ucast (of_nat p * (ucast (ppb rs) - 1) + 2 * ucast (max_pri_tolerance rs) :: u32),
      ps_ppb_thresh = of_nat (threshold rs p)\<rparr>"

definition train_state :: "radar_detector_specs \<Rightarrow> nat \<Rightarrow> nat \<Rightarrow> nat \<Rightarrow> pri_detector \<Rightarrow> bool" where
  "train_state rs t0 p k pde \<longleftrightarrow>
     pde_rs pde = rs \<and> pde_pulses pde = map (train t0 p) (rev [0..<k]) \<and> pde_count pde = of_nat k \<and>
     pde_last_ts pde = train t0 p (k - 1) \<and>
     pde_sequences pde = (if k = 1 then [] else [train_seq rs t0 p k]) \<and>
     pde_window_size pde = ucast (pri_max rs) * ucast (ppb rs) * ucast (num_pri rs) \<and>
     pde_max_count pde = ucast (ppb rs) * 2"

definition train_ok :: "radar_detector_specs \<Rightarrow> nat \<Rightarrow> nat \<Rightarrow> bool" where
  "train_ok rs t0 p \<longleftrightarrow> spec_ok rs \<and> unat (pri_min rs) \<le> p \<and> p \<le> unat (pri_max rs) \<and>
     t0 + p * 256 < 2 ^ 64 \<and> 3 \<le> threshold rs p \<and> threshold rs p \<le> unat (ppb rs)"

text \<open>Sizes: all products of intervals and pulse counts stay below the words they are kept in.\<close>

lemma train_ok_facts:
  assumes "train_ok rs t0 p"
  shows "16 < p" "p < 2 ^ 16" "unat (max_pri_tolerance rs) = 16" "unat (ppb rs) < 256" "3 \<le> unat (ppb rs)"
    "unat (of_nat p :: u32) = p"
    "unat (of_nat p * (ucast (ppb rs) - 1) + 2 * ucast (max_pri_tolerance rs) :: u32) = p * (unat (ppb rs) - 1) + 32"
    "j \<le> 256 \<Longrightarrow> unat (train t0 p j) = t0 + j * p"
    "j * p < 2 ^ 32 \<Longrightarrow> j \<le> 256 \<Longrightarrow> unat (of_nat (j * p) :: u32) = j * p"
proof -
  have s: "spec_ok rs" "unat (pri_min rs) \<le> p" "p \<le> unat (pri_max rs)" "t0 + p * 256 < 2 ^ 64"
    "3 \<le> threshold rs p" "threshold rs p \<le> unat (ppb rs)"
    using assms by (simp_all add: train_ok_def)
  have "100 \<le> unat (pri_min rs)" using s(1) by (simp add: spec_ok_def unat_le_iff)
  then show p16: "16 < p" using s(2) by linarith
  have "p < 65536" using s(3) unat_u16_less by (rule le_less_trans)
  then show p: "p < 2 ^ 16" by simp
  show tol: "unat (max_pri_tolerance rs) = 16" using s(1) by (simp add: spec_ok_def)
  show b: "unat (ppb rs) < 256" by simp
  show b3: "3 \<le> unat (ppb rs)" using s by linarith
  show up: "unat (of_nat p :: u32) = p" using p by (simp add: unat_of_nat)
  have b1: "unat (ucast (ppb rs) - 1 :: u32) = unat (ppb rs) - 1"
  proof -
    have "unat (ucast (ppb rs) :: u32) = unat (ppb rs)" by simp
    then have "(ucast (ppb rs) :: u32) \<noteq> 0" using b3 by (metis not_numeral_le_zero unat_0)
    then show ?thesis using unat_dec [of "ucast (ppb rs) :: u32"] by simp
  qed
  have m: "p * (unat (ppb rs) - 1) + 32 < 2 ^ 32"
  proof -
    have "unat (ppb rs) - 1 \<le> 256" using b by linarith
    then have "p * (unat (ppb rs) - 1) \<le> 2 ^ 16 * 256" using p by (intro mult_le_mono) auto
    then show ?thesis by simp
  qed
  have m': "p * (unat (ppb rs) - 1) mod 4294967296 = p * (unat (ppb rs) - 1)"
    using m by (intro mod_less) simp
  show "unat (of_nat p * (ucast (ppb rs) - 1) + 2 * ucast (max_pri_tolerance rs) :: u32) = p * (unat (ppb rs) - 1) + 32"
  proof -
    have "unat (of_nat p * (ucast (ppb rs) - 1) :: u32) = p * (unat (ppb rs) - 1)"
      unfolding unat_word_ariths(2) b1 up using m' by simp
    moreover have "unat (2 * ucast (max_pri_tolerance rs) :: u32) = 32"
      unfolding unat_word_ariths(2) using tol by simp
    ultimately show ?thesis using m unfolding unat_word_ariths(1) by simp
  qed
  show "unat (train t0 p j) = t0 + j * p" if "j \<le> 256"
  proof -
    have "t0 + j * p \<le> t0 + p * 256" using mult_le_mono1 [OF that, of p] by (simp add: mult.commute)
    then have "t0 + j * p < 2 ^ 64" using s(4) by linarith
    then show ?thesis unfolding train_def unat_of_nat by simp
  qed
  show "unat (of_nat (j * p) :: u32) = j * p" if "j * p < 2 ^ 32"
    using that unfolding unat_of_nat by simp
qed


text \<open>No pulse of a train is old enough to leave the queue.\<close>

lemma enqueue_train:
  assumes tr: "train_ok rs t0 p" and k: "k < unat (ppb rs)" and mem: "mem pl"
    and pde: "pde_rs pde = rs" "pde_pulses pde = map (train t0 p) (rev [0..<k])" "pde_count pde = of_nat k"
      "pde_window_size pde = ucast (pri_max rs) * ucast (ppb rs) * ucast (num_pri rs)"
      "pde_max_count pde = ucast (ppb rs) * 2"
  shows "\<exists>pl1. pulse_queue_enqueue pde (train t0 p k) pl =
      (True, pde\<lparr>pde_pulses := map (train t0 p) (rev [0..<Suc k]), pde_count := of_nat (Suc k),
                 pde_last_ts := train t0 p k\<rparr>, pl1) \<and> mem pl1"
proof -
  note f = train_ok_facts [OF tr]
  define p1 where "p1 = pde\<lparr>pde_pulses := map (train t0 p) (rev [0..<Suc k]), pde_count := of_nat (Suc k),
                 pde_last_ts := train t0 p k\<rparr>"
  obtain got pl1 where g: "pool_get_pulse_elem pl = (got, pl1)" by (cases "pool_get_pulse_elem pl")
  then have mem1: "mem pl1"
    using mem by (auto simp: pool_get_pulse_elem_def split: if_splits)
  have w: "unat (pde_window_size pde) = unat (pri_max rs) * unat (ppb rs) * unat (num_pri rs)"
  proof -
    have a: "unat (pri_max rs) \<le> 65535" "unat (ppb rs) \<le> 255" "unat (num_pri rs) \<le> 255"
      using unat_u16_less [of "pri_max rs"] unat_u8_less [of "ppb rs"] unat_u8_less [of "num_pri rs"] by linarith+
    have m1: "unat (pri_max rs) * unat (ppb rs) \<le> 65535 * 255" using a by (intro mult_le_mono)
    then have u1: "unat (ucast (pri_max rs) * ucast (ppb rs) :: u32) = unat (pri_max rs) * unat (ppb rs)"
      unfolding unat_word_ariths(2) by simp
    have "unat (pri_max rs) * unat (ppb rs) * unat (num_pri rs) \<le> 65535 * 255 * 255"
      using m1 a by (intro mult_le_mono)
    then show ?thesis unfolding pde(4) unat_word_ariths(2) [of "_ * _"] u1 by simp
  qed
  have kW: "k * p \<le> unat (pde_window_size pde)"
  proof -
    have "1 \<le> unat (num_pri rs)" using tr by (simp add: train_ok_def spec_ok_def unat_less_iff)
    moreover have "k * p \<le> unat (ppb rs) * unat (pri_max rs)"
      using k tr by (intro mult_le_mono) (auto simp: train_ok_def)
    ultimately show ?thesis unfolding w
      using mult_le_mono [of "k * p" "unat (pri_max rs) * unat (ppb rs)" 1 "unat (num_pri rs)"] by (simp add: mult.commute)
  qed
  have "k \<le> 256" using k f(4) by linarith
  then have tk: "unat (train t0 p k) = t0 + k * p" "unat (train t0 p 0) = t0"
    using f(8) [of k] f(8) [of 0] by simp_all
  have win: "pulse_queue_check_window p1 pl1 = (p1, pl1)"
  proof (cases "pde_count p1 < 2 \<or> pde_last_ts p1 \<le> ucast (pde_window_size p1)")
    case True
    then show ?thesis by (auto simp: pulse_queue_check_window_def)
  next
    case False
    have "unat (train t0 p k - ucast (pde_window_size pde)) = t0 + k * p - unat (pde_window_size pde)"
      using False by (simp add: p1_def unat_le_iff unat_sub tk)
    then have "train t0 p k - ucast (pde_window_size pde) \<le> train t0 p 0"
      using kW tk(2) by (simp add: unat_le_iff)
    moreover have "pulse_queue_get_tail p1 = Some (train t0 p 0)"
      by (simp add: pulse_queue_get_tail_def p1_def last_map last_rev)
    ultimately have "check_window_loop (pde_last_ts p1 - ucast (pde_window_size p1)) p1 pl1 = (p1, pl1)"
      by (subst check_window_loop.simps) (simp add: p1_def)
    then show ?thesis using False by (simp add: pulse_queue_check_window_def)
  qed
  have cnt: "\<not> pde_max_count p1 \<le> pde_count p1"
  proof -
    have "unat (ppb rs) * 2 < 4294967296" using f(4) by linarith
    then have "unat (ucast (ppb rs) * 2 :: u32) = unat (ppb rs) * 2" by (simp add: unat_word_ariths)
    moreover have "unat (of_nat (Suc k) :: u32) = Suc k"
    proof -
      have "Suc k < 4294967296" using k f(4) by linarith
      then show ?thesis unfolding unat_of_nat by simp
    qed
    ultimately show ?thesis using k by (simp add: p1_def pde(5) unat_le_iff del: of_nat_Suc)
  qed
  have "pde\<lparr>pde_pulses := train t0 p k # pde_pulses pde, pde_count := pde_count pde + 1, pde_last_ts := train t0 p k\<rparr> = p1"
    by (simp add: p1_def pde)
  then show ?thesis
    using g mem1 win cnt
    unfolding pulse_queue_enqueue_def p1_def [symmetric]
    by (simp add: Let_def)
qed


lemma train_first:
  assumes tr: "train_ok rs t0 p" and mem: "mem pl"
    and pde: "pde_rs pde = rs" "pde_pulses pde = []" "pde_count pde = 0" "pde_sequences pde = []"
      "pde_window_size pde = ucast (pri_max rs) * ucast (ppb rs) * ucast (num_pri rs)"
      "pde_max_count pde = ucast (ppb rs) * 2"
  shows "\<exists>pde1 pl1. pde_short_add_pulse pde (train t0 p 0) pl = (None, pde1, pl1) \<and> mem pl1 \<and> train_state rs t0 p 1 pde1"
proof -
  have "0 < unat (ppb rs)" using train_ok_facts(5) [OF tr] by linarith
  then obtain pl1 where "pulse_queue_enqueue pde (train t0 p 0) pl =
      (True, pde\<lparr>pde_pulses := map (train t0 p) (rev [0..<Suc 0]), pde_count := of_nat (Suc 0),
                 pde_last_ts := train t0 p 0\<rparr>, pl1) \<and> mem pl1"
    using enqueue_train [OF tr _ mem, of 0 pde] pde by auto
  then show ?thesis
    using pde by (simp add: pde_short_add_pulse_def train_state_def)
qed

text \<open>The sequences after one more pulse, before the check for a detection.\<close>

lemma train_sequences:
  assumes tr: "train_ok rs t0 p" and k: "1 \<le> k" "k < unat (ppb rs)" and mem: "mem pl" and st: "train_state rs t0 p k pde"
  shows "\<exists>n pl1 pl2. existing_loop rs (train t0 p k) 0 (pde_sequences pde) pl = (n, if k = 1 then [] else [train_seq rs t0 p (Suc k)], pl1) \<and>
     create_loop rs (train t0 p k) n 0 (pde_pulses pde) (if k = 1 then [] else [train_seq rs t0 p (Suc k)]) pl1 =
       (True, [train_seq rs t0 p (Suc k)], pl2) \<and> mem pl2"
proof -
  note f = train_ok_facts [OF tr]
  have k256: "k \<le> 256" "Suc k < 4294967296" using k f(4) by linarith+
  have step: "ucast (train t0 p k - train t0 p (k - 1)) = (of_nat p :: u32)"
    using train_diff [of "k - 1" k t0 p] k(1) by (simp add: ucast_of_nat_down)
  have tol: "ucast (max_pri_tolerance rs) = (16 :: u32)"
    using tr by (simp add: train_ok_def spec_ok_def)
  have one: "0 < pde_get_multiple (of_nat p) (of_nat p) 16"
    using get_multiple_exact [of p 1] f(1,2) by simp
  show ?thesis
  proof (cases "k = 1")
    case True
    have e: "existing_loop rs (train t0 p k) 0 (pde_sequences pde) pl = (0, [], pl)"
      using st True by (simp add: train_state_def)
    define pl2 where "pl2 = snd (pool_get_pseq_elem pl)"
    have g: "pool_get_pseq_elem pl = (True, pl2)" "mem pl2"
      using mem by (simp_all add: pool_get_pseq_elem_def pl2_def)
    have d: "\<not> of_nat p < (ucast (pri_min rs) :: u32)" "\<not> (ucast (pri_max rs) :: u32) < of_nat p"
      using tr f(6) by (auto simp: train_ok_def unat_less_iff)
    have fin: "finish_sequence rs (start_sequence rs (train t0 p 1) 1 (train t0 p 0)) = train_seq rs t0 p 2"
      using step True by (simp add: finish_sequence_def start_sequence_def train_seq_def threshold_def)
    have "create_loop rs (train t0 p 1) 0 0 [train t0 p 0] [] pl = (True, [train_seq rs t0 p 2], pl2)"
      using step True d g fin by (simp add: Let_def start_sequence_def)
    then show ?thesis using e True st g by (simp add: train_state_def numeral_2_eq_2)
  next
    case False
    have seq: "pde_sequences pde = [train_seq rs t0 p k]" using st False by (simp add: train_state_def)
    have dead: "\<not> ps_deadline_ts (train_seq rs t0 p k) < train t0 p k"
    proof -
      have "p * (unat (ppb rs) - 1) + 32 \<le> p * 256"
      proof -
        have "unat (ppb rs) - 1 \<le> 254" using f(4) by linarith
        then have "p * (unat (ppb rs) - 1) \<le> p * 254" by (rule mult_le_mono2)
        then show ?thesis using f(1) by linarith
      qed
      moreover have "t0 + p * 256 < 18446744073709551616" using tr by (simp add: train_ok_def)
      ultimately have "t0 + (p * (unat (ppb rs) - 1) + 32) < 18446744073709551616" by linarith
      moreover define D where "D = (of_nat p * (ucast (ppb rs) - 1) + 2 * ucast (max_pri_tolerance rs) :: u32)"
      moreover have "unat D = p * (unat (ppb rs) - 1) + 32" unfolding D_def by (rule f(7))
      ultimately have "unat (ps_deadline_ts (train_seq rs t0 p k)) = t0 + (p * (unat (ppb rs) - 1) + 32)"
        using f(8) [of 0] by (simp add: train_seq_def D_def [symmetric] unat_word_ariths(1))
      moreover have "k * p \<le> (unat (ppb rs) - 1) * p" using k(2) by (intro mult_le_mono1) linarith
      ultimately have "unat (train t0 p k) \<le> unat (ps_deadline_ts (train_seq rs t0 p k))"
        using f(8) [OF k256(1)] mult.commute [of p "unat (ppb rs) - 1"] by linarith
      then show ?thesis by (simp add: unat_less_iff)
    qed
    have "unat (of_nat (Suc k) :: u32) = Suc k" using k256(2) unfolding unat_of_nat by simp
    then have "(0 :: u32) < of_nat (Suc k)" by (simp add: unat_less_iff del: of_nat_Suc)
    then have pos: "(0 :: u32) < of_nat k + 1" by (simp add: add.commute)
    have "existing_loop rs (train t0 p k) 0 (pde_sequences pde) pl = (of_nat (Suc k), [train_seq rs t0 p (Suc k)], pl)"
      using dead step one tol k pos by (simp add: seq Let_def train_seq_def)
    moreover have "length (pde_pulses pde) + 1 \<le> unat (of_nat (Suc k) :: u32)"
      using st k256 unfolding unat_of_nat by (simp add: train_state_def)
    ultimately show ?thesis
      using create_loop_none [of "pde_pulses pde" "of_nat (Suc k)"] False mem by auto
  qed
qed


lemma train_complete:
  assumes tr: "train_ok rs t0 p" and k: "k < unat (ppb rs)"
  shows "sequence_complete rs (train_seq rs t0 p (Suc k)) \<longleftrightarrow> threshold rs p \<le> Suc k"
proof -
  note f = train_ok_facts [OF tr]
  have sk: "Suc k < 256" using k f(4) by linarith
  then have uk: "unat (of_nat (Suc k) :: u32) = Suc k" unfolding unat_of_nat by simp
  have "threshold rs p \<le> unat (ppb rs)" using tr by (simp add: train_ok_def)
  then have "threshold rs p < 256" using f(4) by linarith
  then have ut: "unat (of_nat (threshold rs p) :: u8) = threshold rs p" unfolding unat_of_nat by simp
  have n: "1 \<le> unat (num_pri rs)" using tr by (simp add: train_ok_def spec_ok_def unat_less_iff)
  have "Suc k * unat (num_pri rs) < 4294967296"
  proof -
    have "Suc k * unat (num_pri rs) \<le> 256 * 256"
      using sk less_imp_le [OF unat_u8_less [of "num_pri rs"]] by (intro mult_le_mono) auto
    then show ?thesis by simp
  qed
  then have "unat (of_nat (Suc k) * ucast (num_pri rs) :: u32) = Suc k * unat (num_pri rs)"
    unfolding unat_word_ariths(2) uk by simp
  then have "(0 :: u32) < of_nat (Suc k) * ucast (num_pri rs)"
    using n by (simp add: unat_less_iff del: of_nat_Suc)
  then show ?thesis
    using ut uk by (simp add: sequence_complete_def train_seq_def unat_le_iff del: of_nat_Suc)
qed

lemma train_step:
  assumes tr: "train_ok rs t0 p" and k: "1 \<le> k" "k < unat (ppb rs)" and mem: "mem pl" and st: "train_state rs t0 p k pde"
  shows "\<exists>pde1 pl1.
     pde_short_add_pulse pde (train t0 p k) pl =
       (if threshold rs p \<le> Suc k then Some (train_seq rs t0 p (Suc k)) else None, pde1, pl1) \<and>
     (\<not> threshold rs p \<le> Suc k \<longrightarrow> mem pl1 \<and> train_state rs t0 p (Suc k) pde1)"
proof -
  note f = train_ok_facts [OF tr]
  have "k < 4294967296" using k(2) f(4) by linarith
  then have "unat (of_nat k :: u32) = k" unfolding unat_of_nat by simp
  then have c0: "pde_count pde \<noteq> 0" using st k(1) by (auto simp: train_state_def)
  have "train t0 p k - train t0 p (k - 1) = of_nat p" using train_diff [of "k - 1" k t0 p] k(1) by simp
  moreover have "unat (of_nat p :: u64) = p" unfolding unat_of_nat using f(2) by simp
  ultimately have far: "\<not> train t0 p k - pde_last_ts pde < ucast (max_pri_tolerance (pde_rs pde))"
    using st f(1,3) by (simp add: train_state_def unat_less_iff)
  obtain n pl1 pl2 where e: "existing_loop rs (train t0 p k) 0 (pde_sequences pde) pl =
        (n, if k = 1 then [] else [train_seq rs t0 p (Suc k)], pl1)"
    and c: "create_loop rs (train t0 p k) n 0 (pde_pulses pde) (if k = 1 then [] else [train_seq rs t0 p (Suc k)]) pl1 =
        (True, [train_seq rs t0 p (Suc k)], pl2)" and mem2: "mem pl2"
    using train_sequences [OF tr k mem st] by blast
  define p2 where "p2 = pde\<lparr>pde_sequences := [train_seq rs t0 p (Suc k)]\<rparr>"
  have rs: "pde_rs pde = rs" using st by (simp add: train_state_def)
  have det: "pde_short_check_detection p2 = (if threshold rs p \<le> Suc k then Some (train_seq rs t0 p (Suc k)) else None)"
    using train_complete [OF tr k(2)] by (simp add: pde_short_check_detection_def p2_def rs)
  obtain pl3 where q: "pulse_queue_enqueue p2 (train t0 p k) pl2 =
      (True, p2\<lparr>pde_pulses := map (train t0 p) (rev [0..<Suc k]), pde_count := of_nat (Suc k),
                 pde_last_ts := train t0 p k\<rparr>, pl3)" and mem3: "mem pl3"
    using enqueue_train [OF tr k(2) mem2, of p2] st by (auto simp: train_state_def p2_def)
  have "pde_short_add_pulse pde (train t0 p k) pl =
      (case pde_short_check_detection p2 of Some ps \<Rightarrow> (Some ps, p2, pl2)
       | None \<Rightarrow> (None, p2\<lparr>pde_pulses := map (train t0 p) (rev [0..<Suc k]), pde_count := of_nat (Suc k),
                 pde_last_ts := train t0 p k\<rparr>, pl3))"
    using c0 far e c q rs
    unfolding pde_short_add_pulse_def pde_short_add_to_existing_seqs_def pde_short_create_sequences_def p2_def
    by (simp split: option.splits)
  then show ?thesis
    using det mem3 st k(1) by (auto simp: train_state_def p2_def)
qed

lemma feed_train:
  assumes tr: "train_ok rs t0 p" and "train_state rs t0 p k pde" and "1 \<le> k" and "k < threshold rs p" and "mem pl"
  shows "feed pde pl (map (train t0 p) [k..<threshold rs p]) =
     replicate (threshold rs p - 1 - k) None @ [Some (train_seq rs t0 p (threshold rs p))]"
  using assms(2-5)
proof (induction "threshold rs p - k" arbitrary: k pde pl)
  case 0
  then show ?case by simp
next
  case (Suc d)
  have kp: "k < unat (ppb rs)" using Suc.prems(3) tr by (simp add: train_ok_def)
  have cons: "map (train t0 p) [k..<threshold rs p] = train t0 p k # map (train t0 p) [Suc k..<threshold rs p]"
    using Suc.prems(3) by (simp add: upt_conv_Cons)
  obtain pde1 pl1 where a: "pde_short_add_pulse pde (train t0 p k) pl =
       (if threshold rs p \<le> Suc k then Some (train_seq rs t0 p (Suc k)) else None, pde1, pl1)"
    and b: "\<not> threshold rs p \<le> Suc k \<longrightarrow> mem pl1 \<and> train_state rs t0 p (Suc k) pde1"
    using train_step [OF tr Suc.prems(2) kp Suc.prems(4,1)] by blast
  show ?case
  proof (cases "threshold rs p = Suc k")
    case True
    then show ?thesis using a by (simp add: cons)
  next
    case False
    then have lt: "Suc k < threshold rs p" using Suc.prems(3) by simp
    have "feed pde1 pl1 (map (train t0 p) [Suc k..<threshold rs p]) =
        replicate (threshold rs p - 1 - Suc k) None @ [Some (train_seq rs t0 p (threshold rs p))]"
      using Suc.hyps b lt by (intro Suc.hyps(1)) auto
    moreover have "threshold rs p - 1 - k = Suc (threshold rs p - 1 - Suc k)" using lt by simp
    ultimately show ?thesis using a lt by (simp add: cons)
  qed
qed

lemma weather_threshold:
  assumes "502 \<le> p" and "p \<le> 3082"
  shows "9 \<le> unat (of_nat (PPB_THRESH (unat (ucast (19000000 div (360 * of_nat p :: u32)) :: u8))) :: u8)"
    and "unat (of_nat (PPB_THRESH (unat (ucast (19000000 div (360 * of_nat p :: u32)) :: u8))) :: u8) \<le> 53"
proof -
  define q where "q = 19000000 div (360 * p)"
  have "unat (360 * of_nat p :: u32) = 360 * p"
    using assms(2) by (simp add: unat_word_ariths unat_of_nat)
  then have d: "unat (19000000 div (360 * of_nat p :: u32)) = q"
    by (simp add: q_def unat_div_distrib)
  have "19000000 div (360 * 3082) \<le> q" unfolding q_def using assms by (intro div_le_mono2) auto
  moreover have "q \<le> 19000000 div (360 * 502)" unfolding q_def using assms by (intro div_le_mono2) auto
  ultimately have q: "17 \<le> q" "q \<le> 105" by simp_all
  have u: "unat (ucast (19000000 div (360 * of_nat p :: u32)) :: u8) = q"
    using q by (simp add: unsigned_ucast_eq d take_bit_nat_eq_self)
  have "(17 * 50 + 50) div 100 \<le> PPB_THRESH q" "PPB_THRESH q \<le> (105 * 50 + 50) div 100"
    unfolding PPB_THRESH_def MIN_PPB_THRESH_def using q by (intro div_le_mono; simp)+
  then have "9 \<le> PPB_THRESH q" "PPB_THRESH q \<le> 53" by simp_all
  then show "9 \<le> unat (of_nat (PPB_THRESH (unat (ucast (19000000 div (360 * of_nat p :: u32)) :: u8))) :: u8)"
    "unat (of_nat (PPB_THRESH (unat (ucast (19000000 div (360 * of_nat p :: u32)) :: u8))) :: u8) \<le> 53"
    by (simp_all add: u unat_of_nat)
qed

lemma weather_tables:
  assumes "rt \<in> set dfs_domains" and "rs \<in> set (spec_riu rt) \<union> set (spec_fcu rt)" and "waveform rs = RADAR_WAVEFORM_WEATHER"
  shows "pri_min rs = 502 \<and> pri_max rs = 3082 \<and> ppb rs = 102"
proof -
  have w: "waveform (ETSI_PATTERN_SHORT i a b c d n) = RADAR_WAVEFORM_SHORT"
    "waveform (ETSI_PATTERN_INTERLEAVED i a b c d e f n) = RADAR_WAVEFORM_INTERLEAVED"
    "waveform (FCC_PATTERN i a b c d e n t) = t" for i a b c d e f n t
    by (simp_all add: ETSI_PATTERN_SHORT_def ETSI_PATTERN_INTERLEAVED_def FCC_PATTERN_def)
  have "rs = FCC_PATTERN 1 0 8 518 3066 1 102 RADAR_WAVEFORM_WEATHER"
    using assms by (auto simp: domains tables w)
  then show ?thesis by (simp add: FCC_PATTERN_def PRI_TOLERANCE_def)
qed

lemma table_train_ok:
  assumes rt: "rt \<in> set dfs_domains" "rs \<in> set (spec_riu rt) \<union> set (spec_fcu rt)"
    and p: "unat (pri_min rs) \<le> p" "p \<le> unat (pri_max rs)" and t: "t0 + p * 256 < 2 ^ 64"
  shows "train_ok rs t0 p"
proof -
  have ok: "spec_ok rs" using domains_ok [OF rt(1)] rt(2) by blast
  have "3 \<le> threshold rs p \<and> threshold rs p \<le> unat (ppb rs)"
  proof (cases "waveform rs = RADAR_WAVEFORM_WEATHER")
    case True
    from weather_tables [OF rt True] have "502 \<le> p" "p \<le> 3082" "unat (ppb rs) = 102" using p by simp_all
    with weather_threshold [of p] True show ?thesis by (simp add: threshold_def)
  next
    case False
    then show ?thesis using ok by (simp add: threshold_def spec_ok_def unat_le_iff)
  qed
  then show ?thesis using ok p t by (simp add: train_ok_def)
qed

lemma train_feed:
  assumes tr: "train_ok rs t0 p" and short: "waveform rs \<noteq> RADAR_WAVEFORM_LONG" and mem: "mem pl"
  shows "feed (new_detector rs freq) pl (map (train t0 p) [0..<threshold rs p]) =
     replicate (threshold rs p - 1) None @ [Some (train_seq rs t0 p (threshold rs p))]"
proof -
  have T: "3 \<le> threshold rs p" using tr by (simp add: train_ok_def)
  have "\<exists>pde1 pl1. pde_short_add_pulse (new_detector rs freq) (train t0 p 0) pl = (None, pde1, pl1) \<and> mem pl1 \<and> train_state rs t0 p 1 pde1"
    by (rule train_first [OF tr mem]) (use short in \<open>simp_all add: new_detector_def Let_def pde_short_init_def\<close>)
  then obtain pde1 pl1 where a: "pde_short_add_pulse (new_detector rs freq) (train t0 p 0) pl = (None, pde1, pl1)"
    and m: "mem pl1" and st: "train_state rs t0 p 1 pde1" by blast
  have "map (train t0 p) [0..<threshold rs p] = train t0 p 0 # map (train t0 p) [1..<threshold rs p]"
    using T by (simp add: upt_conv_Cons)
  then have "feed (new_detector rs freq) pl (map (train t0 p) [0..<threshold rs p]) =
      None # replicate (threshold rs p - 1 - 1) None @ [Some (train_seq rs t0 p (threshold rs p))]"
    using a feed_train [OF tr st _ _ m] T by simp
  moreover obtain n where n: "threshold rs p = n + 3" using T le_Suc_ex by (metis add.commute)
  moreover have "None # replicate (n + 3 - 1 - 1) None = replicate (n + 3 - 1) (None :: pri_sequence option)" by simp
  ultimately show ?thesis by (simp only: n append_Cons [symmetric])
qed

text \<open>C13: For every radar type of every region other than a long waveform, and every pulse interval in
  its range, a detector that receives a regular train of pulses with this interval reports a
  radar, exactly at the pulse that reaches the type's threshold (for the weather radar, the
  threshold of this interval), with the interval and the number of pulses right.\<close>

theorem radar_train_detected:
  assumes "rt \<in> set dfs_domains" and "rs \<in> set (spec_riu rt) \<union> set (spec_fcu rt)"
    and "waveform rs \<noteq> RADAR_WAVEFORM_LONG"
    and "unat (pri_min rs) \<le> p" and "p \<le> unat (pri_max rs)" and "t0 + p * 256 < 2 ^ 64" and "mem pl"
  shows "3 \<le> threshold rs p \<and> threshold rs p \<le> unat (ppb rs) \<and>
     (\<exists>ps. feed (new_detector rs freq) pl (map (\<lambda>j. of_nat (t0 + j * p)) [0..<threshold rs p]) =
              replicate (threshold rs p - 1) None @ [Some ps] \<and>
           unat (ps_pri ps) = p \<and> unat (ps_count ps) = threshold rs p \<and> ps_count_falses ps = 0)"
proof -
  note tr = table_train_ok [OF assms(1,2,4-6)]
  note f = train_ok_facts [OF tr]
  have T: "3 \<le> threshold rs p" "threshold rs p \<le> unat (ppb rs)" using tr by (simp_all add: train_ok_def)
  note feed = train_feed [OF tr assms(3,7), of freq, unfolded train_def]
  have "threshold rs p < 4294967296" using T(2) f(4) by linarith
  then have "unat (ps_count (train_seq rs t0 p (threshold rs p))) = threshold rs p"
    unfolding train_seq_def by (simp add: unat_of_nat)
  moreover have "unat (ps_pri (train_seq rs t0 p (threshold rs p))) = p" "ps_count_falses (train_seq rs t0 p (threshold rs p)) = 0"
    using f(6) by (simp_all add: train_seq_def)
  ultimately show ?thesis using T feed by blast
qed

lemma radar_train_detected_witness:
  "\<exists>ps. feed (new_detector (ETSI_PATTERN_SHORT 1 0 10 200 1000 10) 5500) \<lparr>singleton_pool_references = 1, pulse_pool = 0, pseq_pool = 0, mem = True\<rparr>
     (map (\<lambda>j. of_nat (7 + j * 2000)) [0..<5]) = [None, None, None, None, Some ps] \<and> unat (ps_pri ps) = 2000"
proof -
  let ?rs = "ETSI_PATTERN_SHORT 1 0 10 200 1000 10"
  let ?pl = "\<lparr>singleton_pool_references = 1, pulse_pool = 0, pseq_pool = 0, mem = True\<rparr>"
  have rt: "etsi_radar_types_v17 \<in> set dfs_domains" by (simp add: dfs_domains_def)
  have rs: "?rs \<in> set (spec_riu etsi_radar_types_v17) \<union> set (spec_fcu etsi_radar_types_v17)"
    by (simp add: etsi_radar_types_v17_def etsi_radar_ref_types_v17_riu_def)
  have w: "waveform ?rs \<noteq> RADAR_WAVEFORM_LONG" "unat (pri_min ?rs) \<le> 2000" "2000 \<le> unat (pri_max ?rs)"
    by (simp_all add: ETSI_PATTERN_SHORT_def PRF2PRI_def PRI_TOLERANCE_def)
  have "threshold ?rs 2000 = 5"
    by (simp add: threshold_def ETSI_PATTERN_SHORT_def PPB_THRESH_def MIN_PPB_THRESH_def)
  moreover have "(7 :: nat) + 2000 * 256 < 2 ^ 64" by simp
  moreover have "replicate 4 (None :: pri_sequence option) = [None, None, None, None]" by (simp add: numeral_eq_Suc)
  ultimately show ?thesis
    using radar_train_detected [OF rt rs w, of 7 ?pl 5500] by auto
qed

subsection \<open>A detection has evidence\<close>

text \<open>
  The pulses behind a sequence: as many received pulses as it counts, the newest at
  \<open>ps_last_ts\<close>, the oldest at \<open>ps_first_ts\<close>, and each but the newest at a multiple of the
  sequence's interval (within the tolerance) before another.
\<close>

definition evidence :: "radar_detector_specs \<Rightarrow> u64 set \<Rightarrow> pri_sequence \<Rightarrow> u64 list \<Rightarrow> bool" where
  "evidence rs hist ps xs \<longleftrightarrow>
     xs \<noteq> [] \<and> sorted_wrt (>) xs \<and> set xs \<subseteq> hist \<and> length xs = unat (ps_count ps) \<and>
     hd xs = ps_last_ts ps \<and> last xs = ps_first_ts ps \<and>
     (\<forall>x\<in>set xs. x \<noteq> ps_last_ts ps \<longrightarrow>
        (\<exists>y\<in>set xs. x < y \<and> 0 < pde_get_multiple (ucast (y - x)) (ps_pri ps) (ucast (max_pri_tolerance rs))))"

lemma sorted_length_bound:
  fixes xs :: "u64 list"
  assumes "sorted_wrt (>) xs" and "set xs \<subseteq> hist" and "finite hist"
  shows "length xs \<le> card hist"
proof -
  have "distinct xs" using assms(1)
  proof (induction xs)
    case (Cons a xs)
    have "a \<notin> set xs"
    proof
      assume "a \<in> set xs"
      then have "a < a" using Cons.prems by (simp only: sorted_wrt.simps)
      then show False by simp
    qed
    then show ?case using Cons by simp
  qed simp
  then show ?thesis using card_mono [OF assms(3,2)] by (simp add: distinct_card)
qed

lemma evidence_mono: "evidence rs hist ps xs \<Longrightarrow> hist \<subseteq> hist' \<Longrightarrow> evidence rs hist' ps xs"
  by (auto simp: evidence_def)

lemma inc_count:
  fixes c :: u32
  assumes "unat c < 2 ^ 32 - 1"
  shows "unat (c + 1) = unat c + 1"
  using assms by (simp add: unat_word_ariths)

text \<open>The next pulse extends a sequence.\<close>

lemma evidence_cons:
  assumes e: "evidence rs hist ps xs" and fin: "finite hist" "card hist < 2 ^ 32 - 1" and new: "\<forall>x\<in>hist. x < ts"
    and m: "0 < pde_get_multiple (ucast (ts - ps_last_ts ps)) (ps_pri ps) (ucast (max_pri_tolerance rs))"
  shows "evidence rs (insert ts hist) (ps\<lparr>ps_last_ts := ts, ps_count := ps_count ps + 1\<rparr>) (ts # xs)"
proof -
  have s: "xs \<noteq> []" "sorted_wrt (>) xs" "set xs \<subseteq> hist" "length xs = unat (ps_count ps)" "hd xs = ps_last_ts ps"
    using e by (simp_all add: evidence_def)
  have "unat (ps_count ps) < 2 ^ 32 - 1" using sorted_length_bound [OF s(2,3) fin(1)] s(4) fin(2) by simp
  then have c: "unat (ps_count ps + 1) = unat (ps_count ps) + 1" by (rule inc_count)
  have old: "ps_last_ts ps \<in> set xs" using s(1,5) hd_in_set by metis
  have lt: "\<forall>x\<in>set xs. x < ts" using s(3) new by blast
  have "\<exists>y\<in>insert ts (set xs). x < y \<and> 0 < pde_get_multiple (ucast (y - x)) (ps_pri ps) (ucast (max_pri_tolerance rs))"
    if "x \<in> set xs" for x
  proof (cases "x = ps_last_ts ps")
    case True
    then show ?thesis using m lt old by blast
  next
    case False
    then show ?thesis using e that unfolding evidence_def by blast
  qed
  then show ?thesis
    using e c lt s unfolding evidence_def by (auto simp: last_ConsR)
qed

text \<open>An older pulse extends a new sequence.\<close>

lemma evidence_snoc:
  assumes e: "evidence rs hist ps xs" and fin: "finite hist" "card hist < 2 ^ 32 - 1"
    and p2: "p2 \<in> hist" "\<forall>x\<in>set xs. p2 < x"
    and m: "0 < pde_get_multiple (ucast (ps_last_ts ps - p2)) (ps_pri ps) (ucast (max_pri_tolerance rs))"
  shows "evidence rs hist (ps\<lparr>ps_count := ps_count ps + 1, ps_first_ts := p2, ps_count_falses := f\<rparr>) (xs @ [p2])"
proof -
  have s: "xs \<noteq> []" "sorted_wrt (>) xs" "set xs \<subseteq> hist" "length xs = unat (ps_count ps)" "hd xs = ps_last_ts ps"
    using e by (simp_all add: evidence_def)
  have "unat (ps_count ps) < 2 ^ 32 - 1" using sorted_length_bound [OF s(2,3) fin(1)] s(4) fin(2) by simp
  then have c: "unat (ps_count ps + 1) = unat (ps_count ps) + 1" by (rule inc_count)
  have "ps_last_ts ps \<in> set xs" using s(1,5) hd_in_set by metis
  then show ?thesis
    using e c s p2 m unfolding evidence_def by (auto simp: sorted_wrt_append)
qed

lemma count_matches_evidence:
  assumes "evidence rs hist ps xs" and "finite hist" and "card hist < 2 ^ 32 - 1"
    and "set older \<subseteq> hist" and "sorted_wrt (>) older" and "\<forall>x\<in>set xs. \<forall>y\<in>set older. y < x"
  shows "\<exists>ys. evidence rs hist (count_matches rs m tf ps older) ys"
  using assms
proof (induction rs m tf ps older arbitrary: xs rule: count_matches.induct)
  case (2 rs m tf ps p2 older)
  consider "p2 < m"
    | "\<not> p2 < m" "0 < pde_get_multiple (ucast (ps_last_ts ps - p2)) (ps_pri ps) (ucast (max_pri_tolerance rs))"
    | "\<not> p2 < m" "\<not> 0 < pde_get_multiple (ucast (ps_last_ts ps - p2)) (ps_pri ps) (ucast (max_pri_tolerance rs))"
    by blast
  then show ?case
  proof cases
    case 1
    then show ?thesis using 2(3) by auto
  next
    case a: 2
    have "evidence rs hist (ps\<lparr>ps_count := ps_count ps + 1, ps_first_ts := p2, ps_count_falses := ps_count_falses ps + tf\<rparr>) (xs @ [p2])"
      by (rule evidence_snoc) (use 2(3-8) a in auto)
    then have "\<exists>ys. evidence rs hist (count_matches rs m 0 (ps\<lparr>ps_count := ps_count ps + 1, ps_first_ts := p2,
        ps_count_falses := ps_count_falses ps + tf\<rparr>) older) ys"
      using 2(1) [OF a] 2(4-8) by auto
    then show ?thesis using a by simp
  next
    case 3
    then show ?thesis using 2(2) [OF 3 2(3)] 2(4-8) by auto
  qed
qed auto

lemma evidence_finish: "evidence rs hist (finish_sequence rs ps) xs = evidence rs hist ps xs"
  by (simp add: evidence_def finish_sequence_def)

lemma multiple_self: "f \<noteq> 0 \<Longrightarrow> 0 < pde_get_multiple f f t"
  by (simp add: pde_get_multiple_def)

lemma create_loop_evidence:
  assumes "finite hist" and "card hist < 2 ^ 32 - 1" and "ts \<in> hist" and "set older \<subseteq> hist" and "sorted_wrt (>) older"
    and "\<forall>y\<in>set older. y < ts" and "0 < pri_min rs"
    and "\<forall>s\<in>set seqs. \<exists>xs. evidence rs hist s xs"
    and "create_loop rs ts mn idx older seqs pl = (ok, seqs1, pl1)"
  shows "\<forall>s\<in>set seqs1. \<exists>xs. evidence rs hist s xs"
  using assms(4-)
proof (induction older arbitrary: idx seqs pl)
  case (Cons p older)
  let ?ps = "start_sequence rs ts (idx + 1) p"
  define ps1 where "ps1 = count_matches rs (if ts < ucast (ps_dur ?ps) then 0 else ts - ucast (ps_dur ?ps)) 0 ?ps older"
  have ih: "\<forall>s\<in>set seqs1. \<exists>xs. evidence rs hist s xs"
    if "\<forall>s\<in>set seqs'. \<exists>xs. evidence rs hist s xs" "create_loop rs ts mn (idx + 1) older seqs' pl' = (ok, seqs1, pl1)" for seqs' pl'
    using that Cons.prems by (intro Cons.IH [of seqs' "idx + 1" pl']) auto
  show ?case
  proof (cases "(ucast (ts - p) :: u32) < ucast (pri_min rs) \<or> (ucast (pri_max rs) :: u32) < ucast (ts - p)")
    case True
    then show ?thesis using Cons.prems(5,6) ih by (auto simp: Let_def split: if_splits)
  next
    case False
    have "unat (pri_min rs) \<noteq> 0" using Cons.prems(4) by (simp add: unat_less_iff)
    then have "(ucast (ts - p) :: u32) \<noteq> 0" using False by (auto simp: unat_less_iff)
    then have "evidence rs hist ?ps [ts, p]"
      using assms(3) Cons.prems(1-3) multiple_self by (auto simp: evidence_def start_sequence_def)
    then have e: "\<exists>ys. evidence rs hist (finish_sequence rs ps1) ys"
      unfolding evidence_finish ps1_def using assms(1,2) Cons.prems(1-3)
      by (intro count_matches_evidence) auto
    show ?thesis
    proof (cases "ps_count ps1 \<le> mn")
      case True
      then have "create_loop rs ts mn (idx + 1) older seqs pl = (ok, seqs1, pl1)"
        using Cons.prems(6) False by (simp add: Let_def ps1_def)
      then show ?thesis using ih Cons.prems(5) by blast
    next
      case c: False
      obtain got pl0 where g: "pool_get_pseq_elem pl = (got, pl0)" by (cases "pool_get_pseq_elem pl")
      show ?thesis
      proof (cases got)
        case True
        then have "create_loop rs ts mn (idx + 1) older (finish_sequence rs ps1 # seqs) pl0 = (ok, seqs1, pl1)"
          using Cons.prems(6) False c g by (simp add: Let_def ps1_def)
        then show ?thesis using ih [of "finish_sequence rs ps1 # seqs"] Cons.prems(5) e by auto
      next
        case False
        then have "seqs1 = seqs" using Cons.prems(6) \<open>\<not> (_ \<or> _)\<close> c g by (simp add: Let_def ps1_def)
        then show ?thesis using Cons.prems(5) by blast
      qed
    qed
  qed
qed simp


lemma existing_loop_evidence:
  assumes "finite hist" and "card hist < 2 ^ 32 - 1" and "\<forall>x\<in>hist. x < ts"
    and "\<forall>s\<in>set seqs. \<exists>xs. evidence rs hist s xs"
    and "existing_loop rs ts mx seqs pl = (n, seqs1, pl1)"
  shows "\<forall>s\<in>set seqs1. \<exists>xs. evidence rs (insert ts hist) s xs"
  using assms(4,5)
proof (induction seqs arbitrary: mx pl n seqs1 pl1)
  case (Cons ps rest)
  show ?case
  proof (cases "ps_deadline_ts ps < ts")
    case True
    then show ?thesis using Cons by simp
  next
    case False
    define good where "good = (0 < pde_get_multiple (ucast (ts - ps_last_ts ps)) (ps_pri ps) (ucast (max_pri_tolerance rs)))"
    define ps1 where "ps1 = (if good then ps\<lparr>ps_last_ts := ts, ps_count := ps_count ps + 1\<rparr>
        else ps\<lparr>ps_count_falses := ps_count_falses ps + 1\<rparr>)"
    obtain mx' n2 rest1 pl2 where r: "existing_loop rs ts mx' rest pl = (n2, rest1, pl2)" "seqs1 = ps1 # rest1"
      using Cons.prems(2) False
      by (auto simp: Let_def ps1_def good_def split: prod.splits if_splits)
    obtain xs where xs: "evidence rs hist ps xs" using Cons.prems(1) by auto
    have "\<exists>ys. evidence rs (insert ts hist) ps1 ys"
    proof (cases good)
      case True
      then show ?thesis
        using evidence_cons [OF xs assms(1-3)] by (auto simp: ps1_def good_def)
    next
      case bad: False
      have "evidence rs hist ps1 xs" using xs bad by (simp add: ps1_def evidence_def)
      then show ?thesis using evidence_mono by blast
    qed
    then show ?thesis using Cons.IH [OF _ r(1)] Cons.prems(1) r(2) by simp
  qed
qed simp

definition evident :: "u64 set \<Rightarrow> pri_detector \<Rightarrow> bool" where
  "evident hist pde \<longleftrightarrow>
     sorted_wrt (>) (pde_pulses pde) \<and> set (pde_pulses pde) \<subseteq> hist \<and>
     (\<forall>s\<in>set (pde_sequences pde). \<exists>xs. evidence (pde_rs pde) hist s xs)"

lemma evident_enqueue:
  assumes "det_ok pde" and "evident hist pde" and "\<forall>x\<in>set (pde_pulses pde). x < ts" and "ts \<in> hist"
    and "pulse_queue_enqueue pde ts pl = (ok, pde1, pl1)"
  shows "evident hist pde1"
proof -
  have e: "(\<exists>n. pde_pulses pde1 = take n (ts # pde_pulses pde) \<or> pde_pulses pde1 = pde_pulses pde)"
    using enqueue_ok [OF _ _ assms(5)] assms(1) by (simp add: det_ok_def)
  have "sorted_wrt (>) (ts # pde_pulses pde)" using assms(2,3) by (simp add: evident_def)
  moreover have "sorted_wrt P xs \<Longrightarrow> sorted_wrt P (take n xs)" for P and xs :: "u64 list" and n
    by (metis append_take_drop_id sorted_wrt_append)
  ultimately have "sorted_wrt (>) (pde_pulses pde1)" using e assms(2) by (auto simp: evident_def simp del: sorted_wrt.simps)
  moreover have "set (take n (ts # pde_pulses pde)) \<subseteq> insert ts (set (pde_pulses pde))" for n
    by (metis set_take_subset list.simps(15))
  then have "set (pde_pulses pde1) \<subseteq> insert ts (set (pde_pulses pde))" using e by fastforce
  then have "set (pde_pulses pde1) \<subseteq> hist"
    using assms(2,4) unfolding evident_def by blast
  ultimately show ?thesis
    using det_ok_enqueue [OF assms(1,5)] assms(2) by (simp add: evident_def)
qed

lemma evident_mono: "evident hist pde \<Longrightarrow> hist \<subseteq> hist' \<Longrightarrow> evident hist' pde"
  unfolding evident_def using evidence_mono by blast

lemma short_pulse_evident:
  assumes ok: "det_ok pde" "spec_ok (pde_rs pde)" "pde_ops pde = pri_detector_short"
    and ev: "evident hist pde" and fin: "finite hist" "card hist < 2 ^ 32 - 2" and new: "\<forall>x\<in>hist. x < ts"
    and r: "pde_short_add_pulse pde ts pl = (found, pde1, pl1)"
  shows "evident (insert ts hist) pde1 \<and>
     (\<forall>ps. found = Some ps \<longrightarrow> sequence_complete (pde_rs pde) ps \<and> ps \<in> set (pde_sequences pde1))"
proof -
  let ?h = "insert ts hist"
  have lt: "\<forall>x\<in>set (pde_pulses pde). x < ts" using ev new by (auto simp: evident_def)
  note ev' = evident_mono [OF ev subset_insertI]
  show ?thesis
  proof (cases "pde_count pde = 0 \<or> ts - pde_last_ts pde < ucast (max_pri_tolerance (pde_rs pde))")
    case True
    then have "found = None" "pde1 = pde \<or> (\<exists>b pl2. pulse_queue_enqueue pde ts pl = (b, pde1, pl2))"
      using r by (auto simp: pde_short_add_pulse_def split: if_splits prod.splits)
    then show ?thesis using ev' evident_enqueue [OF ok(1) ev' lt insertI1] by auto
  next
    case False
    obtain n seqs pl2 where e: "existing_loop (pde_rs pde) ts 0 (pde_sequences pde) pl = (n, seqs, pl2)"
      by (cases "existing_loop (pde_rs pde) ts 0 (pde_sequences pde) pl") auto
    obtain b seqs3 pl3 where c: "create_loop (pde_rs pde) ts n 0 (pde_pulses pde) seqs pl2 = (b, seqs3, pl3)"
      by (cases "create_loop (pde_rs pde) ts n 0 (pde_pulses pde) seqs pl2") auto
    define p3 where "p3 = pde\<lparr>pde_sequences := seqs3\<rparr>"
    have f1: "card hist < 2 ^ 32 - 1" using fin(2) by simp
    have s0: "\<forall>s\<in>set (pde_sequences pde). \<exists>xs. evidence (pde_rs pde) hist s xs" using ev by (simp add: evident_def)
    have s1: "\<forall>s\<in>set seqs. \<exists>xs. evidence (pde_rs pde) ?h s xs"
      by (rule existing_loop_evidence [OF fin(1) f1 new s0 e])
    have f2: "finite ?h" "card ?h < 2 ^ 32 - 1" using fin by (simp_all add: card_insert_if)
    have "100 \<le> pri_min (pde_rs pde)" using ok(2) by (simp add: spec_ok_def)
    then have pm: "0 < pri_min (pde_rs pde)" by (rule less_le_trans [rotated]) simp
    have q: "set (pde_pulses pde) \<subseteq> ?h" "sorted_wrt (>) (pde_pulses pde)" using ev' by (simp_all add: evident_def)
    have "\<forall>s\<in>set seqs3. \<exists>xs. evidence (pde_rs pde) ?h s xs"
      by (rule create_loop_evidence [OF f2 insertI1 q lt pm s1 c])
    then have e3: "evident ?h p3" using ev' by (simp add: evident_def p3_def)
    have ok3: "det_ok p3"
      using create_loop_pri [OF c] existing_loop_pri [OF e] ok(1,3) by (auto simp: det_ok_def p3_def split: if_splits)
    have lt3: "\<forall>x\<in>set (pde_pulses p3). x < ts" using lt by (simp add: p3_def)
    have "(found, pde1, pl1) =
      (case b of False \<Rightarrow> (None, fst (pri_detector_reset p3 ts pl3), snd (pri_detector_reset p3 ts pl3))
       | True \<Rightarrow> (case pde_short_check_detection p3 of Some ps \<Rightarrow> (Some ps, p3, pl3)
                   | None \<Rightarrow> (case pulse_queue_enqueue p3 ts pl3 of (_, p4, pl4) \<Rightarrow> (None, p4, pl4))))"
      using r False e c
      unfolding pde_short_add_pulse_def pde_short_add_to_existing_seqs_def pde_short_create_sequences_def p3_def
      by (auto simp: pri_detector_reset_def cleared_def split: bool.splits prod.splits option.splits)
    then have "found = None \<and> pde1 = cleared ts p3 \<or>
        (\<exists>ps. pde_short_check_detection p3 = Some ps \<and> found = Some ps \<and> pde1 = p3) \<or>
        found = None \<and> (\<exists>b pl4. pulse_queue_enqueue p3 ts pl3 = (b, pde1, pl4))"
      by (cases b) (auto simp: pri_detector_reset_def cleared_def split: option.splits prod.splits)
    moreover have "sequence_complete (pde_rs pde) ps \<and> ps \<in> set (pde_sequences p3)"
      if "pde_short_check_detection p3 = Some ps" for ps
      using that by (auto simp: pde_short_check_detection_def p3_def find_Some_iff)
    moreover have "evident ?h (cleared ts p3)" by (simp add: evident_def cleared_def)
    ultimately show ?thesis
      using e3 evident_enqueue [OF ok3 e3 lt3 insertI1] by auto
  qed
qed


subsection \<open>A detection lies in one window\<close>

lemma sorted_last_least:
  fixes xs :: "u64 list"
  shows "sorted_wrt (>) xs \<Longrightarrow> x \<in> set xs \<Longrightarrow> last xs \<le> x"
  by (induction xs) (auto simp: less_imp_le)

text \<open>The deadline, the length and the threshold of a sequence.\<close>

definition timed :: "radar_detector_specs \<Rightarrow> pri_sequence \<Rightarrow> bool" where
  "timed rs ps \<longleftrightarrow>
     ps_deadline_ts ps = ps_first_ts ps + ucast (ps_dur ps) \<and>
     ps_dur ps = ps_pri ps * (ucast (ppb rs) - 1) + 2 * ucast (max_pri_tolerance rs) \<and>
     (waveform rs \<noteq> RADAR_WAVEFORM_WEATHER \<longrightarrow> ps_ppb_thresh ps = rs_ppb_thresh rs)"

text \<open>
  The newest pulse \<open>ts\<close> is no later than the length of the sequence after its oldest one.  This needs a third
  pulse: the distance of the first two is truncated to 32 bits before it is compared.
\<close>

definition windowed :: "u64 \<Rightarrow> pri_sequence \<Rightarrow> bool" where
  "windowed ts ps \<longleftrightarrow> ps_first_ts ps \<le> ts \<and> (2 < ps_count ps \<longrightarrow> ts - ps_first_ts ps \<le> ucast (ps_dur ps))"

lemma before_deadline:
  fixes f ts d :: u64
  assumes "f < ts" and "ts \<le> f + d"
  shows "ts - f \<le> d"
proof (rule ccontr)
  assume "\<not> ts - f \<le> d"
  then have "unat d < unat ts - unat f"
    using assms(1) by (simp add: word_le_nat_alt word_less_nat_alt unat_sub_if')
  then have "unat (f + d) = unat f + unat d"
    using unsigned_less [of ts, where ?'a = nat] by (simp add: unat_word_ariths)
  then show False
    using assms(2) \<open>unat d < unat ts - unat f\<close> by (simp add: word_le_nat_alt)
qed

lemma after_start:
  fixes f ts d :: u64
  assumes "f < ts" and "(if ts < d then 0 else ts - d) \<le> f"
  shows "ts - f \<le> d"
proof (cases "ts < d")
  case True
  then show ?thesis
    using assms(1) by (simp add: word_le_nat_alt word_less_nat_alt unat_sub_if')
next
  case False
  then have "unat ts - unat d \<le> unat f"
    using assms(2) by (simp add: word_le_nat_alt word_less_nat_alt unat_sub_if')
  then show ?thesis
    using assms(1) by (simp add: word_le_nat_alt word_less_nat_alt unat_sub_if')
qed

lemma existing_loop_windowed:
  assumes "\<forall>s\<in>set seqs. timed rs s \<and> ps_first_ts s < ts" and "existing_loop rs ts mx seqs pl = (n, seqs1, pl1)"
  shows "\<forall>s\<in>set seqs1. timed rs s \<and> windowed ts s"
  using assms
proof (induction seqs arbitrary: mx pl n seqs1 pl1)
  case (Cons ps rest)
  show ?case
  proof (cases "ps_deadline_ts ps < ts")
    case True
    then show ?thesis using Cons by simp
  next
    case False
    define good where "good = (0 < pde_get_multiple (ucast (ts - ps_last_ts ps)) (ps_pri ps) (ucast (max_pri_tolerance rs)))"
    define ps1 where "ps1 = (if good then ps\<lparr>ps_last_ts := ts, ps_count := ps_count ps + 1\<rparr>
        else ps\<lparr>ps_count_falses := ps_count_falses ps + 1\<rparr>)"
    obtain mx' n2 rest1 pl2 where r: "existing_loop rs ts mx' rest pl = (n2, rest1, pl2)" "seqs1 = ps1 # rest1"
      using Cons.prems(2) False
      by (auto simp: Let_def ps1_def good_def split: prod.splits if_splits)
    have "timed rs ps" "ps_first_ts ps < ts" using Cons.prems(1) by simp_all
    then have "timed rs ps1 \<and> windowed ts ps1"
      using False before_deadline [of "ps_first_ts ps" ts "ucast (ps_dur ps)"]
      by (auto simp: timed_def windowed_def ps1_def not_less)
    then show ?thesis using Cons.IH [OF _ r(1)] Cons.prems(1) r(2) by simp
  qed
qed simp

lemma count_matches_first:
  "ps_pri (count_matches rs m tf ps older) = ps_pri ps \<and> ps_dur (count_matches rs m tf ps older) = ps_dur ps \<and>
   (ps_first_ts (count_matches rs m tf ps older) = ps_first_ts ps \<and> ps_count (count_matches rs m tf ps older) = ps_count ps \<or>
    ps_first_ts (count_matches rs m tf ps older) \<in> set older \<and> m \<le> ps_first_ts (count_matches rs m tf ps older))"
  by (induction rs m tf ps older rule: count_matches.induct) auto

lemma create_loop_windowed:
  assumes "\<forall>y\<in>set older. y < ts" and "\<forall>s\<in>set seqs. timed rs s \<and> windowed ts s"
    and "create_loop rs ts mn idx older seqs pl = (ok, seqs1, pl1)"
  shows "\<forall>s\<in>set seqs1. timed rs s \<and> windowed ts s"
  using assms
proof (induction older arbitrary: idx seqs pl)
  case (Cons p older)
  let ?ps = "start_sequence rs ts (idx + 1) p"
  let ?m = "if ts < ucast (ps_dur ?ps) then 0 else ts - ucast (ps_dur ?ps)"
  define ps1 where "ps1 = count_matches rs ?m 0 ?ps older"
  have ih: "\<forall>s\<in>set seqs1. timed rs s \<and> windowed ts s"
    if "\<forall>s\<in>set seqs'. timed rs s \<and> windowed ts s" "create_loop rs ts mn (idx + 1) older seqs' pl' = (ok, seqs1, pl1)" for seqs' pl'
    using that Cons.prems by (intro Cons.IH [of seqs' "idx + 1" pl']) auto
  have f: "ps_pri ps1 = ucast (ts - p)" "ps_dur ps1 = ps_dur ?ps"
    "ps_first_ts ps1 = p \<and> ps_count ps1 = 2 \<or> ps_first_ts ps1 \<in> set older \<and> ?m \<le> ps_first_ts ps1"
    using count_matches_first [of rs ?m 0 ?ps older] by (simp_all add: ps1_def start_sequence_def)
  have lt: "ps_first_ts ps1 < ts"
    using f(3) Cons.prems(1) by (metis list.set_intros)
  have w: "ts - ps_first_ts ps1 \<le> ucast (ps_dur ps1)" if "2 < ps_count ps1"
  proof -
    have "?m \<le> ps_first_ts ps1"
      using f(3) that by (elim disjE conjE) simp_all
    then show ?thesis
      using after_start [OF lt] unfolding f(2) by blast
  qed
  have "timed rs (finish_sequence rs ps1)"
    by (simp add: timed_def finish_sequence_def f(1,2)) (simp add: start_sequence_def)
  moreover have "windowed ts (finish_sequence rs ps1)"
    using w lt by (simp add: windowed_def finish_sequence_def)
  ultimately have new: "timed rs (finish_sequence rs ps1) \<and> windowed ts (finish_sequence rs ps1)" ..
  show ?case
  proof (cases "(ucast (ts - p) :: u32) < ucast (pri_min rs) \<or> (ucast (pri_max rs) :: u32) < ucast (ts - p)")
    case True
    then have "seqs1 = seqs \<or> create_loop rs ts mn (idx + 1) older seqs pl = (ok, seqs1, pl1)"
      using Cons.prems(3) by (simp add: Let_def split: if_splits)
    then show ?thesis using ih Cons.prems(2) by blast
  next
    case False
    show ?thesis
    proof (cases "ps_count ps1 \<le> mn")
      case True
      then have "create_loop rs ts mn (idx + 1) older seqs pl = (ok, seqs1, pl1)"
        using Cons.prems(3) False by (simp add: Let_def ps1_def)
      then show ?thesis using ih Cons.prems(2) by blast
    next
      case c: False
      obtain got pl0 where g: "pool_get_pseq_elem pl = (got, pl0)" by (cases "pool_get_pseq_elem pl")
      show ?thesis
      proof (cases got)
        case True
        then have "create_loop rs ts mn (idx + 1) older (finish_sequence rs ps1 # seqs) pl0 = (ok, seqs1, pl1)"
          using Cons.prems(3) False c g by (simp add: Let_def ps1_def)
        then show ?thesis using ih [of "finish_sequence rs ps1 # seqs"] Cons.prems(2) new by simp
      next
        case False
        then have "seqs1 = seqs" using Cons.prems(3) \<open>\<not> (_ \<or> _)\<close> c g by (simp add: Let_def ps1_def)
        then show ?thesis using Cons.prems(2) by blast
      qed
    qed
  qed
qed simp

lemma short_pulse_windowed:
  assumes ok: "det_ok pde" "pde_ops pde = pri_detector_short"
    and ev: "evident hist pde" and new: "\<forall>x\<in>hist. x < ts" and tm: "\<forall>s\<in>set (pde_sequences pde). timed (pde_rs pde) s"
    and r: "pde_short_add_pulse pde ts pl = (found, pde1, pl1)"
  shows "(\<forall>s\<in>set (pde_sequences pde1). timed (pde_rs pde) s) \<and>
     (\<forall>ps. found = Some ps \<longrightarrow> timed (pde_rs pde) ps \<and> windowed ts ps)"
proof (cases "pde_count pde = 0 \<or> ts - pde_last_ts pde < ucast (max_pri_tolerance (pde_rs pde))")
  case True
  then have "found = None" "pde1 = pde \<or> (\<exists>b pl2. pulse_queue_enqueue pde ts pl = (b, pde1, pl2))"
    using r by (auto simp: pde_short_add_pulse_def split: if_splits prod.splits)
  then show ?thesis using tm det_ok_enqueue [OF ok(1)] by auto
next
  case False
  obtain n seqs pl2 where e: "existing_loop (pde_rs pde) ts 0 (pde_sequences pde) pl = (n, seqs, pl2)"
    by (cases "existing_loop (pde_rs pde) ts 0 (pde_sequences pde) pl") auto
  obtain b seqs3 pl3 where c: "create_loop (pde_rs pde) ts n 0 (pde_pulses pde) seqs pl2 = (b, seqs3, pl3)"
    by (cases "create_loop (pde_rs pde) ts n 0 (pde_pulses pde) seqs pl2") auto
  define p3 where "p3 = pde\<lparr>pde_sequences := seqs3\<rparr>"
  have first: "ps_first_ts s < ts" if "s \<in> set (pde_sequences pde)" for s
  proof -
    obtain xs where "evidence (pde_rs pde) hist s xs"
      using ev \<open>s \<in> _\<close> by (auto simp: evident_def)
    then have "ps_first_ts s \<in> hist"
      unfolding evidence_def by (metis last_in_set subsetD)
    then show ?thesis
      using new by blast
  qed
  have lt: "\<forall>x\<in>set (pde_pulses pde). x < ts" using ev new by (auto simp: evident_def)
  have "\<forall>s\<in>set seqs. timed (pde_rs pde) s \<and> windowed ts s"
    by (rule existing_loop_windowed [OF _ e]) (use tm first in blast)
  from create_loop_windowed [OF lt this c]
  have w3: "\<forall>s\<in>set seqs3. timed (pde_rs pde) s \<and> windowed ts s" .
  have ok3: "det_ok p3"
    using create_loop_pri [OF c] existing_loop_pri [OF e] ok by (auto simp: det_ok_def p3_def split: if_splits)
  have "(found, pde1, pl1) =
    (case b of False \<Rightarrow> (None, fst (pri_detector_reset p3 ts pl3), snd (pri_detector_reset p3 ts pl3))
     | True \<Rightarrow> (case pde_short_check_detection p3 of Some ps \<Rightarrow> (Some ps, p3, pl3)
                 | None \<Rightarrow> (case pulse_queue_enqueue p3 ts pl3 of (_, p4, pl4) \<Rightarrow> (None, p4, pl4))))"
    using r False e c
    unfolding pde_short_add_pulse_def pde_short_add_to_existing_seqs_def pde_short_create_sequences_def p3_def
    by (auto simp: pri_detector_reset_def cleared_def split: bool.splits prod.splits option.splits)
  then have "found = None \<and> pde1 = cleared ts p3 \<or>
      (\<exists>ps. pde_short_check_detection p3 = Some ps \<and> found = Some ps \<and> pde1 = p3) \<or>
      found = None \<and> (\<exists>b pl4. pulse_queue_enqueue p3 ts pl3 = (b, pde1, pl4))"
    by (cases b) (auto simp: pri_detector_reset_def cleared_def split: option.splits prod.splits)
  moreover have "ps \<in> set seqs3" if "pde_short_check_detection p3 = Some ps" for ps
    using that by (auto simp: pde_short_check_detection_def p3_def find_Some_iff)
  moreover have "pde_sequences p3 = seqs3" "pde_sequences (cleared ts p3) = []"
    by (simp_all add: p3_def cleared_def)
  ultimately show ?thesis
    using w3 det_ok_enqueue [OF ok3] by auto
qed

lemma feed_evident:
  assumes "det_ok pde" and "spec_ok (pde_rs pde)" and "pde_ops pde = pri_detector_short" and "evident hist pde"
    and "\<forall>s\<in>set (pde_sequences pde). timed (pde_rs pde) s"
    and "finite hist" and "card hist + length tms < 2 ^ 32 - 1" and "\<forall>x\<in>hist. \<forall>t\<in>set tms. x < t"
    and "sorted_wrt (<) tms" and "k < length tms" and "feed pde pl tms ! k = Some ps"
  shows "sequence_complete (pde_rs pde) ps \<and> (\<exists>xs. evidence (pde_rs pde) (hist \<union> set (take (Suc k) tms)) ps xs) \<and>
     seq_ok (pde_rs pde) ps \<and> timed (pde_rs pde) ps \<and> windowed (tms ! k) ps"
  using assms
proof (induction tms arbitrary: pde hist pl k)
  case (Cons ts tms)
  obtain found pde1 pl1 where r: "pde_short_add_pulse pde ts pl = (found, pde1, pl1)"
    by (cases "pde_short_add_pulse pde ts pl")
  have c: "card hist < 2 ^ 32 - 2" using Cons.prems(7) by simp
  have new: "\<forall>x\<in>hist. x < ts" using Cons.prems(8) by simp
  note ev = short_pulse_evident [OF Cons.prems(1-4,6) c new r]
  note win = short_pulse_windowed [OF Cons.prems(1,3,4) new Cons.prems(5) r]
  note ok1 = det_ok_short [OF Cons.prems(1-3) r]
  have ops: "pde_ops pde1 = pri_detector_short"
    using ok1 Cons.prems(1,3) by (auto simp: det_ok_def split: if_splits)
  show ?case
  proof (cases k)
    case 0
    then have "found = Some ps" using Cons.prems(11) r by simp
    then have ps: "sequence_complete (pde_rs pde) ps" "ps \<in> set (pde_sequences pde1)" using ev by auto
    moreover have "\<exists>xs. evidence (pde_rs pde) (insert ts hist) ps xs"
      using ev ps(2) ok1 by (auto simp: evident_def)
    moreover have "seq_ok (pde_rs pde) ps"
      using ok1 ops ps(2) by (auto simp: det_ok_def split: if_splits)
    ultimately show ?thesis using 0 win \<open>found = Some ps\<close> by simp
  next
    case (Suc j)
    have j: "j < length tms" "feed pde1 pl1 tms ! j = Some ps"
      using Cons.prems(10,11) r Suc by simp_all
    have "card (insert ts hist) + length tms < 2 ^ 32 - 1"
      using Cons.prems(6,7) by (simp add: card_insert_if)
    moreover have "\<forall>x\<in>insert ts hist. \<forall>t\<in>set tms. x < t"
      using Cons.prems(8,9) by auto
    ultimately have "sequence_complete (pde_rs pde1) ps \<and>
        (\<exists>xs. evidence (pde_rs pde1) (insert ts hist \<union> set (take (Suc j) tms)) ps xs) \<and> seq_ok (pde_rs pde1) ps \<and>
        timed (pde_rs pde1) ps \<and> windowed (tms ! j) ps"
      using ok1 ops ev win Cons.prems(2,6,9) j by (intro Cons.IH [of pde1]) auto
    then show ?thesis using ok1 Suc by simp
  qed
qed simp

text \<open>C14: A detector never reports a radar without evidence: when, after any increasing sequence of
  pulse times, it reports one, the reported sequence counts at least the threshold of pulses,
  these are distinct pulses it has received, each (but the newest) at a multiple of the
  interval before another, the interval is in the range of the radar type, there are more matching
  than false pulses, and (always when three pulses are asked for) all of them lie within one burst of that
  interval back from the newest pulse.\<close>

theorem radar_detection_sound:
  assumes "spec_ok rs" and "waveform rs \<noteq> RADAR_WAVEFORM_LONG" and "sorted_wrt (<) tms"
    and "length tms < 2 ^ 32 - 1" and "k < length tms" and "feed (new_detector rs freq) pl tms ! k = Some ps"
  shows "unat (ps_ppb_thresh ps) \<le> unat (ps_count ps) \<and> ps_count_falses ps < ps_count ps * ucast (num_pri rs) \<and>
     unat (pri_min rs) \<le> unat (ps_pri ps) \<and> unat (ps_pri ps) \<le> unat (pri_max rs) \<and>
     (\<exists>xs. sorted_wrt (>) xs \<and> length xs = unat (ps_count ps) \<and> set xs \<subseteq> set (take (Suc k) tms) \<and>
        (\<forall>x\<in>set xs. x \<noteq> ps_last_ts ps \<longrightarrow>
           (\<exists>y\<in>set xs. x < y \<and> 0 < pde_get_multiple (ucast (y - x)) (ps_pri ps) (ucast (max_pri_tolerance rs)))) \<and>
        (waveform rs \<noteq> RADAR_WAVEFORM_WEATHER \<or> 2 < ps_count ps \<longrightarrow>
           (\<forall>x\<in>set xs. x \<le> tms ! k \<and>
              tms ! k - x \<le> ucast (ps_pri ps * (ucast (ppb rs) - 1) + 2 * ucast (max_pri_tolerance rs)))))"
proof -
  let ?d = "new_detector rs freq"
  have d: "pde_rs ?d = rs" "pde_ops ?d = pri_detector_short" "evident {} ?d" "pde_sequences ?d = []"
    using assms(2) by (simp_all add: new_detector_def Let_def pde_short_init_def evident_def)
  have "sequence_complete (pde_rs ?d) ps \<and> (\<exists>xs. evidence (pde_rs ?d) ({} \<union> set (take (Suc k) tms)) ps xs) \<and>
      seq_ok (pde_rs ?d) ps \<and> timed (pde_rs ?d) ps \<and> windowed (tms ! k) ps"
    by (rule feed_evident [OF new_detector_ok [OF assms(1)] _ d(2,3) _ _ _ _ assms(3,5,6)])
       (use d(1,4) assms(1,4) in simp_all)
  then obtain xs where c: "sequence_complete rs ps" "seq_ok rs ps" "timed rs ps" "windowed (tms ! k) ps"
    and xs: "evidence rs (set (take (Suc k) tms)) ps xs"
    unfolding d(1) by auto
  have win: "x \<le> tms ! k \<and> tms ! k - x \<le> ucast (ps_dur ps)"
    if "waveform rs \<noteq> RADAR_WAVEFORM_WEATHER \<or> 2 < ps_count ps" "x \<in> set xs" for x
  proof -
    note h = that
    have "2 < ps_count ps"
    proof (cases "waveform rs = RADAR_WAVEFORM_WEATHER")
      case False
      then have "3 \<le> unat (ps_ppb_thresh ps)"
        using c(3) assms(1) by (simp add: timed_def spec_ok_def word_le_nat_alt)
      then show ?thesis
        using c(1) by (simp add: sequence_complete_def word_le_nat_alt word_less_nat_alt)
    qed (use h(1) in simp)
    then have f: "ps_first_ts ps \<le> tms ! k" "tms ! k - ps_first_ts ps \<le> ucast (ps_dur ps)"
      using c(4) by (simp_all add: windowed_def)
    have "ps_first_ts ps \<le> x"
      using xs h(2) sorted_last_least unfolding evidence_def by metis
    moreover have "x \<le> tms ! k"
    proof -
      have "x \<in> set (take (Suc k) tms)"
        using xs h(2) unfolding evidence_def by blast
      then obtain i where "i < length (take (Suc k) tms)" "take (Suc k) tms ! i = x"
        unfolding in_set_conv_nth by blast
      then have "i \<le> k" "x = tms ! i"
        by auto
      then show ?thesis
        using sorted_wrt_nth_less [OF assms(3), of i k] assms(5) by (cases "i = k") (simp_all add: less_imp_le)
    qed
    ultimately show ?thesis
      using f by (simp add: word_le_nat_alt word_less_nat_alt unat_sub_if')
  qed
  have "ps_dur ps = ps_pri ps * (ucast (ppb rs) - 1) + 2 * ucast (max_pri_tolerance rs)"
    using c(3) by (simp add: timed_def)
  then show ?thesis
    using c(1,2) xs win unfolding sequence_complete_def seq_ok_def evidence_def by (auto simp: unat_le_iff)
qed


lemma radar_detection_sound_witness:
  "\<exists>ps. feed (new_detector (ETSI_PATTERN_SHORT 1 0 10 200 1000 10) 5500) \<lparr>singleton_pool_references = 1, pulse_pool = 0, pseq_pool = 0, mem = True\<rparr>
     (map (train 7 2000) [0..<5]) ! 4 = Some ps \<and> unat (ps_ppb_thresh ps) \<le> unat (ps_count ps)"
proof -
  let ?rs = "ETSI_PATTERN_SHORT 1 0 10 200 1000 10"
  let ?pl = "\<lparr>singleton_pool_references = 1, pulse_pool = 0, pseq_pool = 0, mem = True\<rparr>"
  have rt: "etsi_radar_types_v17 \<in> set dfs_domains" by (simp add: dfs_domains_def)
  have rs: "?rs \<in> set (spec_riu etsi_radar_types_v17) \<union> set (spec_fcu etsi_radar_types_v17)"
    by (simp add: etsi_radar_types_v17_def etsi_radar_ref_types_v17_riu_def)
  have w: "waveform ?rs \<noteq> RADAR_WAVEFORM_LONG" "unat (pri_min ?rs) \<le> 2000" "2000 \<le> unat (pri_max ?rs)"
    by (simp_all add: ETSI_PATTERN_SHORT_def PRF2PRI_def PRI_TOLERANCE_def)
  have five: "threshold ?rs 2000 = 5"
    by (simp add: threshold_def ETSI_PATTERN_SHORT_def PPB_THRESH_def MIN_PPB_THRESH_def)
  have tr: "train_ok ?rs 7 2000" by (rule table_train_ok [OF rt rs w(2,3)]) simp
  then have ok: "spec_ok ?rs" by (simp add: train_ok_def)
  have feed: "feed (new_detector ?rs 5500) ?pl (map (train 7 2000) [0..<5]) ! 4 = Some (train_seq ?rs 7 2000 5)"
    using train_feed [OF tr w(1), of ?pl 5500] five by (simp add: nth_append)
  have "sorted_wrt (<) (map (train 7 2000) [0..<5])"
    by (simp add: upt_rec train_def)
  from radar_detection_sound [OF ok w(1) this _ _ feed] feed show ?thesis by auto
qed

subsection \<open>Regions\<close>

lemma exit_refs:
  "singleton_pool_references (fold pri_detector_exit ds pl) = singleton_pool_references pl - of_nat (length ds)"
proof (induction ds arbitrary: pl)
  case (Cons pde ds)
  have "singleton_pool_references (pri_detector_exit pde pl) = singleton_pool_references pl - 1"
    by (simp add: pri_detector_exit_def pool_deregister_ref_def pri_detector_reset_def Let_def)
  then show ?case using Cons.IH by (simp add: algebra_simps)
qed simp

text \<open>Setting a supported region replaces the table of radar types by the one of the region and
  chain and deletes every detector of the region before, giving its reference to the pools
  back.  An unsupported region leaves the detector unset, and then every pulse counts as a radar.\<close>

lemma radar_set_domain:
  assumes "dpd_reachable dpd" and "dpd_region dpd \<noteq> region"
  shows "(case dfs_pattern_detector_set_domain dpd region chain pl of
     (ok, dpd1, pl1) \<Rightarrow>
       if region = NL80211_DFS_UNSET
       then \<not> ok \<and> dpd_region dpd1 = NL80211_DFS_UNSET \<and> pl1 = pl \<and>
            dfs_pattern_detector_add_pulse j2us env freq pri len now dpd1 pl1 = Some (True, dpd1, pl1)
       else ok \<and> dpd_region dpd1 = region \<and> num_radar_types dpd1 = length (radar_spec dpd1) \<and>
            (\<exists>rt\<in>set dfs_domains. rt_region rt = region \<and>
               radar_spec dpd1 = (if chain = RWNX_RADAR_RIU then spec_riu rt else spec_fcu rt)) \<and>
            concat (detectors dpd1) = [] \<and>
            singleton_pool_references pl1 = singleton_pool_references pl - of_nat (length (concat (detectors dpd))))"
proof (cases "region = NL80211_DFS_UNSET")
  case True
  have "get_dfs_domain_radar_types region = None"
    by (simp add: True get_dfs_domain_radar_types_def domains)
  then show ?thesis
    using assms(2) True by (simp add: dfs_pattern_detector_set_domain_def dfs_pattern_detector_add_pulse_def)
next
  case False
  have ok: "dpd_ok dpd" using dpd_reachable_ok assms(1) by blast
  obtain rt where rt: "get_dfs_domain_radar_types region = Some rt" "rt_region rt = region" "rt \<in> set dfs_domains"
    using False by (cases region) (simp_all add: get_dfs_domain_radar_types_def domains)
  let ?n = "num_radar_types dpd"
  have rest: "concat (drop ?n (detectors dpd)) = []"
    using ok by (auto simp: dpd_ok_def in_set_conv_nth)
  have "concat (detectors dpd) = concat (take ?n (detectors dpd)) @ concat (drop ?n (detectors dpd))"
    by (metis append_take_drop_id concat_append)
  then have all: "concat (take ?n (detectors dpd)) = concat (detectors dpd)" using rest by simp
  have "concat (replicate k ([] :: pri_detector list)) = []" for k
    by (induction k) simp_all
  then show ?thesis
    using assms(2) False rt rest domains_ok [OF rt(3)]
    by (auto simp: dfs_pattern_detector_set_domain_def exit_types_def Let_def exit_refs all)
qed

subsection \<open>Examples\<close>

definition demo_pools :: pools where
  "demo_pools = \<lparr>singleton_pool_references = 0, pulse_pool = 0, pseq_pool = 0, mem = True\<rparr>"

definition demo_dpd :: dfs_pattern_detector where
  "demo_dpd = the (fst (dfs_pattern_detector_init NL80211_DFS_ETSI RWNX_RADAR_RIU 0 demo_pools))"

definition demo_env :: radar_env where
  "demo_env = \<lparr>cac_busy = True, stale_dur = 0, now_jiffies = 0\<rparr>"

lemma demo_dpd_eq:
  "demo_dpd = \<lparr>dpd_enabled = 0, dpd_region = NL80211_DFS_ETSI, num_radar_types = 7, last_pulse_ts = 0,
     prev_jiffies = 0, radar_spec = etsi_radar_ref_types_v17_riu, detectors = replicate 9 []\<rparr>"
  "dpd_reachable demo_dpd"
proof -
  have l: "length etsi_radar_ref_types_v17_riu = 7" by (simp add: etsi_radar_ref_types_v17_riu_def)
  have "dfs_pattern_detector_init NL80211_DFS_ETSI RWNX_RADAR_RIU 0 demo_pools =
     (Some \<lparr>dpd_enabled = 0, dpd_region = NL80211_DFS_ETSI, num_radar_types = 7, last_pulse_ts = 0,
     prev_jiffies = 0, radar_spec = etsi_radar_ref_types_v17_riu, detectors = replicate 9 []\<rparr>, demo_pools)"
    by (simp add: dfs_pattern_detector_init_def demo_pools_def max_types dfs_pattern_detector_set_domain_def
        get_dfs_domain_radar_types_def dfs_domains_def etsi_radar_types_v17_def exit_types_def Let_def l)
  then show "demo_dpd = \<lparr>dpd_enabled = 0, dpd_region = NL80211_DFS_ETSI, num_radar_types = 7, last_pulse_ts = 0,
     prev_jiffies = 0, radar_spec = etsi_radar_ref_types_v17_riu, detectors = replicate 9 []\<rparr>"
    and "dpd_reachable demo_dpd" by (auto simp: demo_dpd_def intro: dpd_reachable.init)
qed

lemma radar_set_domain_witness:
  "fst (dfs_pattern_detector_set_domain demo_dpd NL80211_DFS_JP RWNX_RADAR_FCU demo_pools)"
proof -
  have "dpd_region demo_dpd \<noteq> NL80211_DFS_JP" by (simp add: demo_dpd_eq(1))
  from radar_set_domain [OF demo_dpd_eq(2) this, where chain = RWNX_RADAR_FCU and pl = demo_pools]
  show ?thesis by (auto split: prod.splits)
qed

lemma demo_pulse:
  "map_option (\<lambda>(found, dpd, pl). (found, map (map pde_pulses) (detectors dpd), num_radar_types dpd))
     (dfs_pattern_detector_add_pulse id demo_env 5500 1000 30 0 demo_dpd demo_pools) =
   Some (False, [[], [], [], [], [[1000]], [], [], [], []], 7)"
proof -
  have set7: "[0..<7] = [0, 1, 2, 3, 4, 5, 6]" by (simp add: upt_rec)
  have rep9: "replicate 9 ([] :: pri_detector list) = [[], [], [], [], [], [], [], [], []]"
    by (simp add: numeral_eq_Suc)
  show ?thesis
    by (simp add: dfs_pattern_detector_add_pulse_def demo_dpd_eq(1) set7 rep9 Let_def etsi_radar_ref_types_v17_riu_def
        ETSI_PATTERN_SHORT_def ETSI_PATTERN_INTERLEAVED_def PRF2PRI_def PRI_TOLERANCE_def PPB_THRESH_def MIN_PPB_THRESH_def
        pri_detector_get_def pri_detector_init_def demo_pools_def new_detector_def pde_short_init_def pde_add_pulse_def
        pde_short_add_pulse_def pulse_queue_enqueue_def pool_get_pulse_elem_def pool_register_ref_def
        pulse_queue_check_window_def unat_le_iff)
qed


end
