(* ===== verification/Radar.thy ===== *)
theory Radar imports RadarDetect begin

section \<open>Radar detection: pulses from the firmware, reports, channel availability check\<close>

text \<open>
  The rest of \<open>rwnx_radar.c\<close> and the handler of the firmware's radar message in
  \<open>rwnx_msg_rx.c\<close>: the ring buffers of pulses, the work item that feeds them to the pattern
  detectors and reports a radar, and the channel availability check (CAC).  What the driver
  tells the kernel is appended to \<open>events\<close>.  The debug dump of the last pulses is left out.
\<close>

subsection \<open>State\<close>

definition RWNX_RADAR_PULSE_MAX :: nat where "RWNX_RADAR_PULSE_MAX = 32"
definition NX_NB_RADAR_DETECTED :: nat where "NX_NB_RADAR_DETECTED = 4"

definition RWNX_RADAR_DETECT_DISABLE :: u8 where "RWNX_RADAR_DETECT_DISABLE = 0"
definition RWNX_RADAR_DETECT_REPORT :: u8 where "RWNX_RADAR_DETECT_REPORT = 2"

record rwnx_radar_pulses =
  rp_index :: nat
  rp_count :: nat
  rp_buffer :: "u32 list"

record rwnx_radar_detected_log =
  rd_index :: nat
  rd_count :: u16
  rd_time :: "int list"
  rd_freq :: "u16 list"

datatype rwnx_radar_status =
  RWNX_RADAR_IDLE | RWNX_RADAR_CAC_BUSY | RWNX_RADAR_CAC_DONE | RWNX_RADAR_INSERVICE_BUSY | RWNX_RADAR_INSERVICE_DONE

datatype radar_event = Radar_detected | Cac_finished nat | Cac_aborted nat | Stop_cac nat | Chanctx_unlink nat

record rwnx_radar =
  rr_pulses :: "rwnx_radar_chain \<Rightarrow> rwnx_radar_pulses"
  rr_dpd :: "rwnx_radar_chain \<Rightarrow> dfs_pattern_detector"
  rr_detected :: "rwnx_radar_chain \<Rightarrow> rwnx_radar_detected_log"
  rr_status :: rwnx_radar_status
  rr_pools :: pools
  cac_vif :: "nat option"
  cac_pending :: bool
  events :: "radar_event list"
  linux_6_12 :: bool

subsection \<open>Pulses from the firmware\<close>

definition push_pulse :: "u32 \<Rightarrow> rwnx_radar_pulses \<Rightarrow> rwnx_radar_pulses" where
  "push_pulse w p =
     p\<lparr>rp_buffer := (rp_buffer p)[rp_index p := w], rp_index := (rp_index p + 1) mod RWNX_RADAR_PULSE_MAX,
       rp_count := (if rp_count p < RWNX_RADAR_PULSE_MAX then rp_count p + 1 else rp_count p)\<rparr>"

text \<open>
  The message holds four pulses, the chain and the number of pulses, which the handler does
  not compare with four: \<open>pulse\<close> is what lies in memory there.  The last component tells
  whether the work item is scheduled.
\<close>

definition rwnx_radar_detection_is_enable :: "rwnx_radar \<Rightarrow> rwnx_radar_chain \<Rightarrow> bool" where
  "rwnx_radar_detection_is_enable radar chain \<longleftrightarrow> dpd_enabled (rr_dpd radar chain) \<noteq> RWNX_RADAR_DETECT_DISABLE"

definition rwnx_radar_detect_ind ::
  "(nat \<Rightarrow> u32) \<Rightarrow> rwnx_radar_chain \<Rightarrow> nat \<Rightarrow> rwnx_radar \<Rightarrow> rwnx_radar \<times> bool" where
  "rwnx_radar_detect_ind pulse chain cnt radar =
     (if cnt = 0 then (radar, False)
      else if rwnx_radar_detection_is_enable radar chain
      then (radar\<lparr>rr_pulses := (rr_pulses radar)(chain := fold (\<lambda>i. push_pulse (pulse i)) [0..<cnt] (rr_pulses radar chain))\<rparr>, True)
      else (radar, False))"

text \<open>The copy of the waiting pulses out of the ring, which is then empty.\<close>

definition copy_pulses :: "rwnx_radar_pulses \<Rightarrow> u32 list \<times> rwnx_radar_pulses" where
  "copy_pulses p =
     (let count = rp_count p;
          start = (if rp_index p < count then rp_index p + RWNX_RADAR_PULSE_MAX - count else rp_index p - count)
      in if count = 0 then ([], p)
         else
           (if RWNX_RADAR_PULSE_MAX < start + count
            then (let count1 = RWNX_RADAR_PULSE_MAX - start
                  in take count1 (drop start (rp_buffer p)) @ take (count - count1) (rp_buffer p))
            else take count (drop start (rp_buffer p)),
            p\<lparr>rp_count := 0\<rparr>))"

subsection \<open>A pulse word\<close>

definition pulse_freq :: "u32 \<Rightarrow> int" where "pulse_freq w = sint (ucast w :: 6 word)"
definition pulse_len :: "u32 \<Rightarrow> u32" where "pulse_len w = take_bit 6 (drop_bit 10 w)"
definition pulse_rep :: "u32 \<Rightarrow> u16" where "pulse_rep w = ucast (drop_bit 16 w)"

definition pulse_channel :: "u16 \<Rightarrow> u32 \<Rightarrow> u16" where
  "pulse_channel freq w = word_of_int (sint freq + 2 * pulse_freq w)"

subsection \<open>Channel availability check\<close>

definition rwnx_radar_start_cac :: "nat \<Rightarrow> rwnx_radar \<Rightarrow> rwnx_radar" where
  "rwnx_radar_start_cac vif radar = radar\<lparr>cac_vif := Some vif, cac_pending := True\<rparr>"

text \<open>The delayed work; it is pending until it starts to run.\<close>

definition rwnx_radar_cac_work :: "rwnx_radar \<Rightarrow> rwnx_radar" where
  "rwnx_radar_cac_work radar =
     (case cac_vif radar of
        None \<Rightarrow> radar\<lparr>cac_pending := False\<rparr>
      | Some vif \<Rightarrow>
          radar\<lparr>cac_pending := False, cac_vif := None,
                events := events radar @ [Cac_finished vif, Stop_cac vif, Chanctx_unlink vif]\<rparr>)"

text \<open>A cancelled check is reported as finished from Linux 6.12 on, as aborted before.\<close>

definition cancelled_event :: "rwnx_radar \<Rightarrow> nat \<Rightarrow> radar_event" where
  "cancelled_event radar vif = (if linux_6_12 radar then Cac_finished vif else Cac_aborted vif)"

definition rwnx_radar_cancel_cac :: "rwnx_radar \<Rightarrow> rwnx_radar" where
  "rwnx_radar_cancel_cac radar =
     (case cac_vif radar of
        None \<Rightarrow> radar
      | Some vif \<Rightarrow>
          (if cac_pending radar
           then radar\<lparr>cac_pending := False, cac_vif := None,
                      events := events radar @ [Stop_cac vif, cancelled_event radar vif, Chanctx_unlink vif]\<rparr>
           else radar\<lparr>cac_vif := None\<rparr>))"

subsection \<open>The work item\<close>

definition rwnx_radar_detection_enable :: "u8 \<Rightarrow> rwnx_radar_chain \<Rightarrow> rwnx_radar \<Rightarrow> rwnx_radar" where
  "rwnx_radar_detection_enable e chain radar =
     radar\<lparr>rr_dpd := (rr_dpd radar)(chain := (rr_dpd radar chain)\<lparr>dpd_enabled := e\<rparr>)\<rparr>"

definition rwnx_radar_detection_enable_on_cur_channel :: "bool option \<Rightarrow> rwnx_radar \<Rightarrow> rwnx_radar" where
  "rwnx_radar_detection_enable_on_cur_channel radar_channel radar =
     (case radar_channel of
        None \<Rightarrow> radar
      | Some True \<Rightarrow> rwnx_radar_detection_enable RWNX_RADAR_DETECT_REPORT RWNX_RADAR_RIU radar
      | Some False \<Rightarrow> rwnx_radar_detection_enable RWNX_RADAR_DETECT_DISABLE RWNX_RADAR_RIU radar)"

definition rwnx_radar_detected :: "bool \<Rightarrow> rwnx_radar \<Rightarrow> rwnx_radar" where
  "rwnx_radar_detected chanctx_valid radar =
     (if chanctx_valid
      then (let r1 = rwnx_radar_cancel_cac radar in r1\<lparr>events := events r1 @ [Radar_detected]\<rparr>)
      else radar)"

text \<open>What happens after a detection: on the operating chain the report, then the log entry.\<close>

definition log_radar :: "rwnx_radar_chain \<Rightarrow> u16 \<Rightarrow> int \<Rightarrow> rwnx_radar \<Rightarrow> rwnx_radar" where
  "log_radar chain freq now_s radar =
     (let d = rr_detected radar chain; idx = rd_index d
      in radar\<lparr>rr_detected := (rr_detected radar)(chain :=
           d\<lparr>rd_freq := (rd_freq d)[idx := freq], rd_time := (rd_time d)[idx := now_s],
             rd_index := (idx + 1) mod NX_NB_RADAR_DETECTED, rd_count := rd_count d + 1\<rparr>)\<rparr>)"

definition report_radar :: "bool \<Rightarrow> rwnx_radar_chain \<Rightarrow> rwnx_radar \<Rightarrow> rwnx_radar" where
  "report_radar chanctx_valid chain radar =
     (if chain = RWNX_RADAR_RIU \<and> dpd_enabled (rr_dpd radar chain) = RWNX_RADAR_DETECT_REPORT
      then (let r1 = rwnx_radar_detection_enable RWNX_RADAR_DETECT_DISABLE chain (rwnx_radar_detected chanctx_valid radar)
            in r1\<lparr>rr_pulses := (rr_pulses r1)(chain := (rr_pulses r1 chain)\<lparr>rp_count := 0\<rparr>)\<rparr>)
      else radar)"

record work_env =
  we_freq :: "rwnx_radar_chain \<Rightarrow> u16"
  we_j2us :: "u32 \<Rightarrow> u32"
  we_now :: u32
  we_now_s :: int
  we_chanctx_valid :: bool
  we_stale_dur :: u32

fun pulse_loop :: "work_env \<Rightarrow> rwnx_radar_chain \<Rightarrow> u32 list \<Rightarrow> rwnx_radar \<Rightarrow> rwnx_radar option" where
  "pulse_loop env chain [] radar = Some radar"
| "pulse_loop env chain (w # rest) radar =
     (if rr_status radar \<noteq> RWNX_RADAR_CAC_BUSY \<and> rr_status radar \<noteq> RWNX_RADAR_INSERVICE_BUSY then Some radar
      else
        (case dfs_pattern_detector_add_pulse (we_j2us env)
                \<lparr>cac_busy = (rr_status radar = RWNX_RADAR_CAC_BUSY), stale_dur = we_stale_dur env, now_jiffies = we_now env\<rparr>
                (pulse_channel (we_freq env chain) w) (pulse_rep w) (ucast (pulse_len w * 2)) (we_now env)
                (rr_dpd radar chain) (rr_pools radar) of
           None \<Rightarrow> None
         | Some (found, dpd, pl) \<Rightarrow>
             (let r1 = radar\<lparr>rr_dpd := (rr_dpd radar)(chain := dpd), rr_pools := pl\<rparr>
              in if found
                 then Some (log_radar chain (pulse_channel (we_freq env chain) w) (we_now_s env)
                              (report_radar (we_chanctx_valid env) chain r1))
                 else pulse_loop env chain rest r1)))"

definition rwnx_radar_process_pulse :: "work_env \<Rightarrow> rwnx_radar \<Rightarrow> rwnx_radar option" where
  "rwnx_radar_process_pulse env radar =
     (let (riu, p1) = copy_pulses (rr_pulses radar RWNX_RADAR_RIU);
          (fcu, p2) = copy_pulses (rr_pulses radar RWNX_RADAR_FCU);
          r1 = radar\<lparr>rr_pulses := (rr_pulses radar)(RWNX_RADAR_RIU := p1, RWNX_RADAR_FCU := p2)\<rparr>
      in case pulse_loop env RWNX_RADAR_RIU riu r1 of
           None \<Rightarrow> None
         | Some r2 \<Rightarrow> pulse_loop env RWNX_RADAR_FCU fcu r2)"

subsection \<open>Start, end and region\<close>

definition empty_pulses :: rwnx_radar_pulses where
  "empty_pulses = \<lparr>rp_index = 0, rp_count = 0, rp_buffer = replicate RWNX_RADAR_PULSE_MAX 0\<rparr>"

definition empty_log :: rwnx_radar_detected_log where
  "empty_log = \<lparr>rd_index = 0, rd_count = 0, rd_time = replicate NX_NB_RADAR_DETECTED 0,
                rd_freq = replicate NX_NB_RADAR_DETECTED 0\<rparr>"

text \<open>\<open>None\<close>: no memory for a pattern detector; what was made is deleted again.\<close>

definition rwnx_radar_detection_init :: "bool \<Rightarrow> u32 \<Rightarrow> pools \<Rightarrow> rwnx_radar option" where
  "rwnx_radar_detection_init new_kernel jiffies pl =
     (case dfs_pattern_detector_init NL80211_DFS_UNSET RWNX_RADAR_RIU jiffies pl of
        (Some riu, pl1) \<Rightarrow>
          (case dfs_pattern_detector_init NL80211_DFS_UNSET RWNX_RADAR_FCU jiffies pl1 of
             (Some fcu, pl2) \<Rightarrow>
               Some \<lparr>rr_pulses = (\<lambda>_. empty_pulses), rr_dpd = (\<lambda>c. if c = RWNX_RADAR_RIU then riu else fcu),
                     rr_detected = (\<lambda>_. empty_log), rr_status = RWNX_RADAR_IDLE, rr_pools = pl2,
                     cac_vif = None, cac_pending = False, events = [], linux_6_12 = new_kernel\<rparr>
           | (None, _) \<Rightarrow> None)
      | (None, _) \<Rightarrow> None)"

definition rwnx_radar_detection_deinit :: "rwnx_radar \<Rightarrow> pools" where
  "rwnx_radar_detection_deinit radar =
     dfs_pattern_detector_exit (rr_dpd radar RWNX_RADAR_FCU)
       (dfs_pattern_detector_exit (rr_dpd radar RWNX_RADAR_RIU) (rr_pools radar))"

definition rwnx_radar_set_domain :: "nl80211_dfs_regions \<Rightarrow> rwnx_radar \<Rightarrow> bool \<times> rwnx_radar" where
  "rwnx_radar_set_domain region radar =
     (case dfs_pattern_detector_set_domain (rr_dpd radar RWNX_RADAR_RIU) region RWNX_RADAR_RIU (rr_pools radar) of
        (ok1, riu, pl1) \<Rightarrow>
          (let r1 = radar\<lparr>rr_dpd := (rr_dpd radar)(RWNX_RADAR_RIU := riu), rr_pools := pl1\<rparr>
           in if \<not> ok1 then (False, r1)
              else
                (case dfs_pattern_detector_set_domain (rr_dpd r1 RWNX_RADAR_FCU) region RWNX_RADAR_FCU pl1 of
                   (ok2, fcu, pl2) \<Rightarrow>
                     (ok2, r1\<lparr>rr_dpd := (rr_dpd r1)(RWNX_RADAR_FCU := fcu), rr_pools := pl2\<rparr>))))"

section \<open>Properties\<close>

subsection \<open>The ring of pulses\<close>

text \<open>What a ring holds, oldest first.\<close>

definition ring_ok :: "rwnx_radar_pulses \<Rightarrow> bool" where
  "ring_ok p \<longleftrightarrow> length (rp_buffer p) = 32 \<and> rp_index p < 32 \<and> rp_count p \<le> 32"

definition ring_contents :: "rwnx_radar_pulses \<Rightarrow> u32 list" where
  "ring_contents p = map (\<lambda>k. rp_buffer p ! ((rp_index p + 32 - rp_count p + k) mod 32)) [0..<rp_count p]"

lemma push_ok: "ring_ok p \<Longrightarrow> ring_ok (push_pulse w p)"
  by (auto simp: ring_ok_def push_pulse_def RWNX_RADAR_PULSE_MAX_def)

lemma mod32_cases: "a < 64 \<Longrightarrow> a mod 32 = (if a < 32 then a else a - 32)" for a :: nat
  by (simp add: mod_if)

lemma contents_push:
  assumes "ring_ok p"
  shows "ring_contents (push_pulse w p) =
     (if rp_count p < 32 then ring_contents p else tl (ring_contents p)) @ [w]"
proof -
  let ?i = "rp_index p" and ?c = "rp_count p"
  have ok: "length (rp_buffer p) = 32" "?i < 32" "?c \<le> 32" using assms by (simp_all add: ring_ok_def)
  have new: "(rp_buffer p)[?i := w] ! ((?i + 32 - n + k) mod 32) =
      (if k = n then w else rp_buffer p ! ((?i + 32 - n + k) mod 32))" if "k \<le> n" "n < 32" for k n
  proof -
    have "(?i + 32 - n + k) mod 32 = ?i \<longleftrightarrow> k = n"
      using that ok(2) by (subst mod32_cases) (auto split: if_splits)
    moreover have "(?i + 32 - n + k) mod 32 < 32" by simp
    ultimately show ?thesis using ok by (auto simp: nth_list_update)
  qed
  show ?thesis
  proof (cases "?c < 32")
    case True
    have shift: "((?i + 1) mod 32 + 32 - (?c + 1) + k) mod 32 = (?i + 32 - ?c + k) mod 32" if "k \<le> ?c" for k
      using that True ok(2) by (auto simp: mod_if)
    have "map (\<lambda>k. (rp_buffer p)[?i := w] ! (((?i + 1) mod 32 + 32 - (?c + 1) + k) mod 32)) [0..<?c + 1] =
       map (\<lambda>k. rp_buffer p ! ((?i + 32 - ?c + k) mod 32)) [0..<?c] @ [w]"
    proof -
      have "map (\<lambda>k. (rp_buffer p)[?i := w] ! (((?i + 1) mod 32 + 32 - (?c + 1) + k) mod 32)) [0..<?c + 1] =
         map (\<lambda>k. if k = ?c then w else rp_buffer p ! ((?i + 32 - ?c + k) mod 32)) [0..<?c + 1]"
      proof (intro map_cong refl)
        fix k assume "k \<in> set [0..<?c + 1]"
        then have "k \<le> ?c" by auto
        then show "(rp_buffer p)[?i := w] ! (((?i + 1) mod 32 + 32 - (?c + 1) + k) mod 32) =
           (if k = ?c then w else rp_buffer p ! ((?i + 32 - ?c + k) mod 32))"
          unfolding shift [OF \<open>k \<le> ?c\<close>] by (rule new [OF _ True])
      qed
      then show ?thesis by simp
    qed
    then show ?thesis
      using True by (simp add: ring_contents_def push_pulse_def RWNX_RADAR_PULSE_MAX_def)
  next
    case False
    then have c: "?c = 32" using ok(3) by simp
    have shift: "((?i + 1) mod 32 + 32 - 32 + k) mod 32 = (?i + 32 - 31 + k) mod 32" for k
      by (simp add: mod_add_left_eq)
    have up: "[0..<32] = [0..<31] @ [31]" "[0..<32] = 0 # map Suc [0..<31]"
      by (simp_all add: map_Suc_upt upt_rec)
    have "map (\<lambda>k. (rp_buffer p)[?i := w] ! (((?i + 1) mod 32 + 32 - 32 + k) mod 32)) [0..<32] =
       tl (map (\<lambda>k. rp_buffer p ! ((?i + 32 - 32 + k) mod 32)) [0..<32]) @ [w]"
    proof -
      have a: "map (\<lambda>k. (rp_buffer p)[?i := w] ! ((?i + 32 - 31 + k) mod 32)) ([0..<31] @ [31]) =
         map (\<lambda>k. rp_buffer p ! ((?i + 32 - 31 + k) mod 32)) [0..<31] @ [w]"
      proof -
        have "map (\<lambda>k. (rp_buffer p)[?i := w] ! ((?i + 32 - 31 + k) mod 32)) ([0..<31] @ [31]) =
           map (\<lambda>k. if k = 31 then w else rp_buffer p ! ((?i + 32 - 31 + k) mod 32)) ([0..<31] @ [31])"
        proof (intro map_cong refl)
          fix k :: nat assume "k \<in> set ([0..<31] @ [31])"
          then have "k \<le> 31" by auto
          then show "(rp_buffer p)[?i := w] ! ((?i + 32 - 31 + k) mod 32) =
             (if k = 31 then w else rp_buffer p ! ((?i + 32 - 31 + k) mod 32))"
            by (rule new) simp
        qed
        then show ?thesis by simp
      qed
      have b: "tl (map (\<lambda>k. rp_buffer p ! ((?i + 32 - 32 + k) mod 32)) (0 # map Suc [0..<31])) =
         map (\<lambda>k. rp_buffer p ! ((?i + 32 - 31 + k) mod 32)) [0..<31]"
        by simp
      show ?thesis unfolding shift using a [folded up(1)] b [folded up(2)] by (simp only:)
    qed
    then show ?thesis
      using c by (simp add: ring_contents_def push_pulse_def RWNX_RADAR_PULSE_MAX_def)
  qed
qed

lemma contents_fold:
  assumes "ring_ok p"
  shows "ring_ok (fold push_pulse ws p) \<and>
     ring_contents (fold push_pulse ws p) = drop (rp_count p + length ws - 32) (ring_contents p @ ws)"
  using assms
proof (induction ws arbitrary: p)
  case Nil
  then show ?case by (simp add: ring_ok_def)
next
  case (Cons w ws)
  have len: "length (ring_contents p) = rp_count p" by (simp add: ring_contents_def)
  have ih: "ring_ok (fold push_pulse ws (push_pulse w p)) \<and>
     ring_contents (fold push_pulse ws (push_pulse w p)) =
       drop (rp_count (push_pulse w p) + length ws - 32) (ring_contents (push_pulse w p) @ ws)"
    using Cons push_ok by blast
  show ?case
  proof (cases "rp_count p < 32")
    case True
    then have "rp_count (push_pulse w p) = rp_count p + 1" by (simp add: push_pulse_def RWNX_RADAR_PULSE_MAX_def)
    then show ?thesis using ih True contents_push [OF Cons.prems] by simp
  next
    case False
    then have c: "rp_count p = 32" using Cons.prems by (simp add: ring_ok_def)
    then have c1: "rp_count (push_pulse w p) = 32" by (simp add: push_pulse_def RWNX_RADAR_PULSE_MAX_def)
    obtain x xs where x: "ring_contents p = x # xs" using len c by (cases "ring_contents p") auto
    show ?thesis using ih c c1 x contents_push [OF Cons.prems, of w] by simp
  qed
qed

lemma copy_contents:
  assumes "ring_ok p"
  shows "fst (copy_pulses p) = ring_contents p \<and> rp_count (snd (copy_pulses p)) = 0 \<and> ring_ok (snd (copy_pulses p))"
proof -
  let ?i = "rp_index p" and ?c = "rp_count p" and ?b = "rp_buffer p"
  have ok: "length ?b = 32" "?i < 32" "?c \<le> 32" using assms by (simp_all add: ring_ok_def)
  have "fst (copy_pulses p) = ring_contents p"
  proof (cases "?i < ?c")
    case True
    let ?s = "?i + 32 - ?c"
    have fst: "fst (copy_pulses p) = (if 32 < ?s + ?c then take (32 - ?s) (drop ?s ?b) @ take (?c - (32 - ?s)) ?b
        else take ?c (drop ?s ?b))"
      using True by (simp add: copy_pulses_def Let_def RWNX_RADAR_PULSE_MAX_def)
    have l: "length (fst (copy_pulses p)) = ?c" using ok True by (simp add: fst)
    show ?thesis
    proof (rule nth_equalityI)
      show "length (fst (copy_pulses p)) = length (ring_contents p)" by (simp add: l ring_contents_def)
      fix k assume "k < length (fst (copy_pulses p))"
      then have k: "k < ?c" by (simp add: l)
      have m: "(?s + k) mod 32 = (if ?s + k < 32 then ?s + k else ?s + k - 32)"
        using k ok True by (intro mod32_cases) simp
      have "fst (copy_pulses p) ! k = ?b ! ((?s + k) mod 32)"
        using k ok True unfolding fst m by (auto simp: nth_append intro!: arg_cong [of _ _ "nth ?b"])
      then show "fst (copy_pulses p) ! k = ring_contents p ! k" using k by (simp add: ring_contents_def)
    qed
  next
    case False
    have fst: "fst (copy_pulses p) = take ?c (drop (?i - ?c) ?b)"
      using False ok by (simp add: copy_pulses_def Let_def RWNX_RADAR_PULSE_MAX_def)
    have l: "length (fst (copy_pulses p)) = ?c" using ok False by (simp add: fst)
    show ?thesis
    proof (rule nth_equalityI)
      show "length (fst (copy_pulses p)) = length (ring_contents p)" by (simp add: l ring_contents_def)
      fix k assume "k < length (fst (copy_pulses p))"
      then have k: "k < ?c" by (simp add: l)
      have "(?i + 32 - ?c + k) mod 32 = ?i - ?c + k"
        using k ok False by (subst mod32_cases) auto
      then show "fst (copy_pulses p) ! k = ring_contents p ! k"
        using k ok False by (simp add: ring_contents_def fst)
    qed
  qed
  then show ?thesis using assms by (simp add: copy_pulses_def Let_def ring_ok_def)
qed

text \<open>The pulses that the work item copies out of the ring are the last 32 (or all, when there are
  fewer) that the firmware has reported since the last copy, in the order of their arrival.\<close>

lemma radar_pulses_fifo:
  assumes "ring_ok p" and "rp_count p = 0"
  shows "copy_pulses (fold push_pulse ws p) =
     (drop (length ws - 32) ws, (fold push_pulse ws p)\<lparr>rp_count := 0\<rparr>) \<and>
     ring_ok (snd (copy_pulses (fold push_pulse ws p)))"
proof -
  note f = contents_fold [OF assms(1), of ws]
  have "ring_contents p = []" using assms(2) by (simp add: ring_contents_def)
  then have "fst (copy_pulses (fold push_pulse ws p)) = drop (length ws - 32) ws"
    using f copy_contents [of "fold push_pulse ws p"] assms(2) by simp
  moreover have "snd (copy_pulses q) = q\<lparr>rp_count := 0\<rparr>" for q
    by (simp add: copy_pulses_def Let_def)
  ultimately show ?thesis using f copy_contents [of "fold push_pulse ws p"] by (simp add: prod_eq_iff)
qed

lemma radar_pulses_fifo_witness:
  "fst (copy_pulses (fold push_pulse [3, 1, 4, 1, 5] empty_pulses)) = [3, 1, 4, 1, 5]"
proof -
  have "ring_ok empty_pulses" "rp_count empty_pulses = 0"
    by (simp_all add: ring_ok_def empty_pulses_def RWNX_RADAR_PULSE_MAX_def)
  from radar_pulses_fifo [OF this, of "[3, 1, 4, 1, 5]"] show ?thesis by simp
qed

subsection \<open>One report per detection\<close>

lemma get_keeps_enabled:
  "pri_detector_get dpd freq i pl = Some (k, dpd1, pl1) \<Longrightarrow> dpd_enabled dpd1 = dpd_enabled dpd"
  by (auto simp: pri_detector_get_def pri_detector_init_def Let_def split: if_splits option.splits prod.splits)

lemma add_loop_keeps_enabled:
  "add_pulse_loop env freq len is dpd pl = Some (found, dpd', pl') \<Longrightarrow> dpd_enabled dpd' = dpd_enabled dpd"
proof (induction env freq len "is" dpd pl rule: add_pulse_loop.induct)
  case (2 env freq len i "is" dpd pl)
  then show ?case
    by (auto simp: Let_def get_keeps_enabled dfs_pattern_detector_reset_def split: if_splits option.splits prod.splits)
qed simp

lemma add_pulse_keeps_enabled:
  assumes "dfs_pattern_detector_add_pulse j2us env freq pri len now dpd pl = Some (found, dpd', pl')"
  shows "dpd_enabled dpd' = dpd_enabled dpd"
  using assms
  by (auto simp: dfs_pattern_detector_add_pulse_def dfs_pattern_detector_pri_overflow_def
      dest!: add_loop_keeps_enabled split: if_splits prod.splits)

text \<open>What a run of the work item may add to the events: nothing, or the end of a running CAC
  and one report.\<close>

definition report_events :: "rwnx_radar \<Rightarrow> radar_event list \<Rightarrow> bool" where
  "report_events radar evs \<longleftrightarrow>
     evs = (case cac_vif radar of
              Some vif \<Rightarrow> if cac_pending radar then [Stop_cac vif, cancelled_event radar vif, Chanctx_unlink vif] else []
            | None \<Rightarrow> []) @ [Radar_detected]"

lemma report_events_keep [simp]:
  "report_events (radar\<lparr>rr_dpd := d, rr_pools := p\<rparr>) = report_events radar"
  "report_events (radar\<lparr>rr_pulses := x\<rparr>) = report_events radar"
  by (simp_all add: report_events_def cancelled_event_def fun_eq_iff split: option.splits)

lemma radar_detected_effect:
  "rwnx_radar_detected ok radar =
     (if ok then radar\<lparr>cac_vif := None, cac_pending := cac_pending radar \<and> cac_vif radar = None,
                       events := events radar @
                        (case cac_vif radar of
                           Some vif \<Rightarrow> if cac_pending radar then [Stop_cac vif, cancelled_event radar vif, Chanctx_unlink vif] else []
                         | None \<Rightarrow> []) @ [Radar_detected]\<rparr>
      else radar)"
  by (auto simp: rwnx_radar_detected_def rwnx_radar_cancel_cac_def Let_def split: option.splits)

lemma fcu_loop_silent:
  assumes "pulse_loop env RWNX_RADAR_FCU ws radar = Some r'"
  shows "events r' = events radar \<and> cac_vif r' = cac_vif radar \<and> cac_pending r' = cac_pending radar \<and>
     rr_dpd r' RWNX_RADAR_RIU = rr_dpd radar RWNX_RADAR_RIU \<and> rr_pulses r' = rr_pulses radar \<and>
     rr_detected r' RWNX_RADAR_RIU = rr_detected radar RWNX_RADAR_RIU"
  using assms
proof (induction ws arbitrary: radar)
  case (Cons w ws)
  show ?case
    using Cons.prems
    by (auto simp: Let_def log_radar_def report_radar_def dest!: Cons.IH split: if_splits option.splits prod.splits)
qed simp

lemma riu_loop_reports:
  assumes "pulse_loop env RWNX_RADAR_RIU ws radar = Some r'"
  shows "(events r' = events radar \<and> cac_vif r' = cac_vif radar \<and> cac_pending r' = cac_pending radar) \<and>
         (dpd_enabled (rr_dpd r' RWNX_RADAR_RIU) = dpd_enabled (rr_dpd radar RWNX_RADAR_RIU) \<or>
          dpd_enabled (rr_dpd r' RWNX_RADAR_RIU) = RWNX_RADAR_DETECT_DISABLE \<and> \<not> we_chanctx_valid env) \<or>
     (\<exists>evs. events r' = events radar @ evs \<and> report_events radar evs \<and> we_chanctx_valid env \<and>
        dpd_enabled (rr_dpd radar RWNX_RADAR_RIU) = RWNX_RADAR_DETECT_REPORT \<and>
        dpd_enabled (rr_dpd r' RWNX_RADAR_RIU) = RWNX_RADAR_DETECT_DISABLE \<and>
        cac_vif r' = None \<and> rp_count (rr_pulses r' RWNX_RADAR_RIU) = 0 \<and>
        rd_count (rr_detected r' RWNX_RADAR_RIU) = rd_count (rr_detected radar RWNX_RADAR_RIU) + 1)"
  using assms
proof (induction ws arbitrary: radar)
  case (Cons w ws)
  show ?case
  proof (cases "rr_status radar \<noteq> RWNX_RADAR_CAC_BUSY \<and> rr_status radar \<noteq> RWNX_RADAR_INSERVICE_BUSY")
    case True
    then show ?thesis using Cons.prems by simp
  next
    case busy: False
    then obtain found dpd pl where
      add: "dfs_pattern_detector_add_pulse (we_j2us env)
         \<lparr>cac_busy = (rr_status radar = RWNX_RADAR_CAC_BUSY), stale_dur = we_stale_dur env, now_jiffies = we_now env\<rparr>
         (pulse_channel (we_freq env RWNX_RADAR_RIU) w) (pulse_rep w) (ucast (pulse_len w * 2)) (we_now env)
         (rr_dpd radar RWNX_RADAR_RIU) (rr_pools radar) = Some (found, dpd, pl)"
      using Cons.prems by (auto split: option.splits)
    note en = add_pulse_keeps_enabled [OF add]
    let ?r1 = "radar\<lparr>rr_dpd := (rr_dpd radar)(RWNX_RADAR_RIU := dpd), rr_pools := pl\<rparr>"
    show ?thesis
    proof (cases found)
      case False
      then have "pulse_loop env RWNX_RADAR_RIU ws ?r1 = Some r'" using Cons.prems busy add by simp
      from Cons.IH [OF this] show ?thesis by (simp add: en)
    next
      case True
      then have r': "r' = log_radar RWNX_RADAR_RIU (pulse_channel (we_freq env RWNX_RADAR_RIU) w) (we_now_s env)
          (report_radar (we_chanctx_valid env) RWNX_RADAR_RIU ?r1)"
        using Cons.prems busy add by simp
      show ?thesis
        unfolding r'
        by (cases "we_chanctx_valid env"; cases "cac_vif radar"; cases "cac_pending radar")
          (simp_all add: log_radar_def report_radar_def radar_detected_effect rwnx_radar_detection_enable_def en
            Let_def report_events_def cancelled_event_def)
    qed
  qed
qed simp

text \<open>C17: A run of the work item reports at most one radar to the kernel, and only when detection on
  the operating chain is set to report and its channel is known; it has then cancelled a running
  availability check first (which the code reports as finished from Linux 6.12 on, as aborted before), switched detection off, thrown away the pulses of the meantime and
  logged the detection.  Without a report, detection stays as it was (or, when the channel is
  not known, is switched off).\<close>

theorem radar_reported_once:
  assumes "rwnx_radar_process_pulse env radar = Some r'"
  shows "(events r' = events radar \<and> cac_vif r' = cac_vif radar \<and> cac_pending r' = cac_pending radar) \<and>
         (dpd_enabled (rr_dpd r' RWNX_RADAR_RIU) = dpd_enabled (rr_dpd radar RWNX_RADAR_RIU) \<or>
          dpd_enabled (rr_dpd r' RWNX_RADAR_RIU) = RWNX_RADAR_DETECT_DISABLE \<and> \<not> we_chanctx_valid env) \<or>
     (\<exists>evs. events r' = events radar @ evs \<and> report_events radar evs \<and> we_chanctx_valid env \<and>
        dpd_enabled (rr_dpd radar RWNX_RADAR_RIU) = RWNX_RADAR_DETECT_REPORT \<and>
        dpd_enabled (rr_dpd r' RWNX_RADAR_RIU) = RWNX_RADAR_DETECT_DISABLE \<and>
        cac_vif r' = None \<and> rp_count (rr_pulses r' RWNX_RADAR_RIU) = 0 \<and>
        rd_count (rr_detected r' RWNX_RADAR_RIU) = rd_count (rr_detected radar RWNX_RADAR_RIU) + 1)"
proof -
  obtain riu p1 fcu p2 where cp: "copy_pulses (rr_pulses radar RWNX_RADAR_RIU) = (riu, p1)"
      "copy_pulses (rr_pulses radar RWNX_RADAR_FCU) = (fcu, p2)"
    by (cases "copy_pulses (rr_pulses radar RWNX_RADAR_RIU)", cases "copy_pulses (rr_pulses radar RWNX_RADAR_FCU)") auto
  let ?r1 = "radar\<lparr>rr_pulses := (rr_pulses radar)(RWNX_RADAR_RIU := p1, RWNX_RADAR_FCU := p2)\<rparr>"
  obtain r2 where l: "pulse_loop env RWNX_RADAR_RIU riu ?r1 = Some r2" "pulse_loop env RWNX_RADAR_FCU fcu r2 = Some r'"
    using assms by (auto simp: rwnx_radar_process_pulse_def cp Let_def split: option.splits)
  from riu_loop_reports [OF l(1)] fcu_loop_silent [OF l(2)] show ?thesis by simp
qed

definition demo_radar :: rwnx_radar where
  "demo_radar = \<lparr>rr_pulses = (\<lambda>_. push_pulse 7 empty_pulses),
     rr_dpd = (\<lambda>_. \<lparr>dpd_enabled = RWNX_RADAR_DETECT_REPORT, dpd_region = NL80211_DFS_UNSET, num_radar_types = 0, last_pulse_ts = 0,
       prev_jiffies = 0, radar_spec = [], detectors = []\<rparr>),
     rr_detected = (\<lambda>_. empty_log), rr_status = RWNX_RADAR_CAC_BUSY,
     rr_pools = \<lparr>singleton_pool_references = 0, pulse_pool = 0, pseq_pool = 0, mem = True\<rparr>,
     cac_vif = Some 3, cac_pending = True, events = [], linux_6_12 = False\<rparr>"

definition demo_work_env :: work_env where
  "demo_work_env = \<lparr>we_freq = (\<lambda>_. 5500), we_j2us = id, we_now = 0, we_now_s = 1234, we_chanctx_valid = True, we_stale_dur = 0\<rparr>"

lemma demo_work:
  "\<exists>r'. rwnx_radar_process_pulse demo_work_env demo_radar = Some r' \<and>
     events r' = [Stop_cac 3, Cac_aborted 3, Chanctx_unlink 3, Radar_detected]"
proof -
  have e: "ring_ok empty_pulses" "rp_count empty_pulses = 0" "ring_contents empty_pulses = []"
    by (simp_all add: ring_ok_def empty_pulses_def RWNX_RADAR_PULSE_MAX_def ring_contents_def)
  have "ring_ok (push_pulse 7 empty_pulses)" "fst (copy_pulses (push_pulse 7 empty_pulses)) = [7]"
    using e contents_push [of empty_pulses 7] copy_contents [OF push_ok [OF e(1)], of 7] push_ok [OF e(1)] by simp_all
  moreover have "snd (copy_pulses q) = q\<lparr>rp_count := 0\<rparr>" for q by (simp add: copy_pulses_def Let_def)
  ultimately have "copy_pulses (push_pulse 7 empty_pulses) = ([7], (push_pulse 7 empty_pulses)\<lparr>rp_count := 0\<rparr>)"
    by (metis prod.collapse)
  then show ?thesis
    by (simp add: rwnx_radar_process_pulse_def demo_radar_def demo_work_env_def dfs_pattern_detector_add_pulse_def
        log_radar_def report_radar_def radar_detected_effect rwnx_radar_detection_enable_def cancelled_event_def Let_def)
qed

lemma radar_reported_once_witness:
  "\<exists>r'. rwnx_radar_process_pulse demo_work_env demo_radar = Some r' \<and> cac_vif r' = None \<and>
     dpd_enabled (rr_dpd r' RWNX_RADAR_RIU) = RWNX_RADAR_DETECT_DISABLE"
proof -
  obtain r' where r: "rwnx_radar_process_pulse demo_work_env demo_radar = Some r'"
      "events r' = [Stop_cac 3, Cac_aborted 3, Chanctx_unlink 3, Radar_detected]"
    using demo_work by auto
  have "events demo_radar = []" by (simp add: demo_radar_def)
  then show ?thesis using radar_reported_once [OF r(1)] r by auto
qed

subsection \<open>Every availability check ends once\<close>

datatype cac_op = Start_cac nat | Cac_timeout | Cancel_cac | Radar_seen bool

fun cac_op_step :: "cac_op \<Rightarrow> rwnx_radar \<Rightarrow> rwnx_radar" where
  "cac_op_step (Start_cac vif) radar = rwnx_radar_start_cac vif radar"
| "cac_op_step Cac_timeout radar = (if cac_pending radar then rwnx_radar_cac_work radar else radar)"
| "cac_op_step Cancel_cac radar = rwnx_radar_cancel_cac radar"
| "cac_op_step (Radar_seen ok) radar = rwnx_radar_detected ok radar"

text \<open>No check is started while one is in progress (what the warning of \<open>rwnx_radar_start_cac\<close> demands).\<close>

fun cac_run_ok :: "cac_op list \<Rightarrow> rwnx_radar \<Rightarrow> bool" where
  "cac_run_ok [] radar = True"
| "cac_run_ok (a # as) radar = ((case a of Start_cac _ \<Rightarrow> cac_vif radar = None | _ \<Rightarrow> True) \<and> cac_run_ok as (cac_op_step a radar))"

definition cac_ended :: "radar_event list \<Rightarrow> nat list" where
  "cac_ended evs = concat (map (\<lambda>e. case e of Cac_finished v \<Rightarrow> [v] | Cac_aborted v \<Rightarrow> [v] | _ \<Rightarrow> []) evs)"

definition cac_stopped :: "radar_event list \<Rightarrow> nat list" where
  "cac_stopped evs = concat (map (\<lambda>e. case e of Stop_cac v \<Rightarrow> [v] | _ \<Rightarrow> []) evs)"

definition cac_unlinked :: "radar_event list \<Rightarrow> nat list" where
  "cac_unlinked evs = concat (map (\<lambda>e. case e of Chanctx_unlink v \<Rightarrow> [v] | _ \<Rightarrow> []) evs)"

definition cac_started :: "cac_op list \<Rightarrow> nat list" where
  "cac_started as = concat (map (\<lambda>a. case a of Start_cac v \<Rightarrow> [v] | _ \<Rightarrow> []) as)"

definition cac_current :: "rwnx_radar \<Rightarrow> nat list" where
  "cac_current radar = (case cac_vif radar of None \<Rightarrow> [] | Some v \<Rightarrow> [v])"

lemmas cac_lists = cac_ended_def cac_stopped_def cac_unlinked_def cac_started_def cac_current_def
lemmas cac_ops = rwnx_radar_start_cac_def rwnx_radar_cac_work_def rwnx_radar_cancel_cac_def radar_detected_effect
  cancelled_event_def

lemma cac_op_effect:
  assumes "cac_pending radar \<longleftrightarrow> cac_vif radar \<noteq> None" and "cac_run_ok [a] radar"
  shows "(cac_pending (cac_op_step a radar) \<longleftrightarrow> cac_vif (cac_op_step a radar) \<noteq> None) \<and>
    cac_ended (events (cac_op_step a radar)) @ cac_current (cac_op_step a radar) =
       cac_ended (events radar) @ cac_current radar @ cac_started [a] \<and>
    (cac_stopped (events radar) = cac_ended (events radar) \<longrightarrow>
       cac_stopped (events (cac_op_step a radar)) = cac_ended (events (cac_op_step a radar))) \<and>
    (cac_unlinked (events radar) = cac_ended (events radar) \<longrightarrow>
       cac_unlinked (events (cac_op_step a radar)) = cac_ended (events (cac_op_step a radar)))"
  using assms by (cases a) (auto simp: cac_lists cac_ops split: option.splits)

lemma cac_run:
  assumes "cac_pending radar \<longleftrightarrow> cac_vif radar \<noteq> None" and "cac_run_ok as radar"
    and "cac_stopped (events radar) = cac_ended (events radar)" "cac_unlinked (events radar) = cac_ended (events radar)"
  shows "cac_ended (events (fold cac_op_step as radar)) @ cac_current (fold cac_op_step as radar) =
       cac_ended (events radar) @ cac_current radar @ cac_started as \<and>
    cac_stopped (events (fold cac_op_step as radar)) = cac_ended (events (fold cac_op_step as radar)) \<and>
    cac_unlinked (events (fold cac_op_step as radar)) = cac_ended (events (fold cac_op_step as radar))"
  using assms
proof (induction as arbitrary: radar)
  case Nil
  then show ?case by (simp add: cac_started_def)
next
  case (Cons a as)
  have ok: "cac_run_ok [a] radar" "cac_run_ok as (cac_op_step a radar)" using Cons.prems(2) by auto
  have split: "cac_started (a # as) = cac_started [a] @ cac_started as" by (simp add: cac_started_def)
  note e = cac_op_effect [OF Cons.prems(1) ok(1)]
  show ?case using Cons.IH [OF _ ok(2)] e Cons.prems(3,4) by (simp add: split)
qed

text \<open>C18: After any sequence of starts, timeouts, cancellations and detected radars, the checks that
  were started are, in this order, those that have ended and the one in progress: each ends
  exactly once (finished or aborted), and exactly then it is stopped in the firmware and its
  channel context is released.\<close>

theorem cac_ends_once:
  assumes "rwnx_radar_detection_init new_kernel jiffies pl = Some radar" and "cac_run_ok as radar"
  shows "cac_started as = cac_ended (events (fold cac_op_step as radar)) @ cac_current (fold cac_op_step as radar) \<and>
    cac_stopped (events (fold cac_op_step as radar)) = cac_ended (events (fold cac_op_step as radar)) \<and>
    cac_unlinked (events (fold cac_op_step as radar)) = cac_ended (events (fold cac_op_step as radar))"
proof -
  have "cac_vif radar = None" "\<not> cac_pending radar" "events radar = []"
    using assms(1) by (auto simp: rwnx_radar_detection_init_def split: prod.splits option.splits)
  then show ?thesis using cac_run [OF _ assms(2)] by (simp add: cac_lists)
qed

lemma cac_ends_once_witness:
  "\<exists>radar. rwnx_radar_detection_init True 0 demo_pools = Some radar \<and>
     cac_ended (events (fold cac_op_step [Start_cac 2, Cac_timeout, Cac_timeout, Start_cac 5, Radar_seen True, Cancel_cac] radar)) = [2, 5]"
proof -
  obtain radar where r: "rwnx_radar_detection_init True 0 demo_pools = Some radar"
    by (auto simp: rwnx_radar_detection_init_def dfs_pattern_detector_init_def dfs_pattern_detector_set_domain_def demo_pools_def)
  then have "cac_vif radar = None" "\<not> cac_pending radar"
    by (auto simp: rwnx_radar_detection_init_def split: prod.splits option.splits)
  moreover have "cac_current (fold cac_op_step [Start_cac 2, Cac_timeout, Cac_timeout, Start_cac 5, Radar_seen True, Cancel_cac] radar) = []"
    by (simp add: cac_current_def cac_ops split: option.splits)
  ultimately show ?thesis
    using r cac_ends_once [OF r, of "[Start_cac 2, Cac_timeout, Cac_timeout, Start_cac 5, Radar_seen True, Cancel_cac]"]
    by (auto simp: cac_started_def cac_ops)
qed

end
