(* ===== verification/UserConfig.thy ===== *)
theory UserConfig imports Prelude begin

section \<open>User configuration: transmit power settings and their file\<close>

text \<open>
  The settings of \<open>aic_userconfig*.txt\<close> (\<open>rwnx_platform.c\<close>, structures in \<open>lmac_msg.h\<close> and
  \<open>rwnx_platform.h\<close>): the structure that holds them, the table of keys for both chip families
  (in the C code a chain of string comparisons, here the list that is searched in the same
  order), the number parser and the parser of the file.  Every field and array element is a
  byte (\<open>u8_l\<close>, or \<open>s8_l\<close> by its bit pattern).  Debug output is left out.
\<close>

subsection \<open>The structure\<close>

record txpwr_lvl_conf =
  lvl_enable :: u8
  lvl_dsss :: u8
  lvl_ofdmlowrate_2g4 :: u8
  lvl_ofdm64qam_2g4 :: u8
  lvl_ofdm256qam_2g4 :: u8
  lvl_ofdm1024qam_2g4 :: u8
  lvl_ofdmlowrate_5g :: u8
  lvl_ofdm64qam_5g :: u8
  lvl_ofdm256qam_5g :: u8
  lvl_ofdm1024qam_5g :: u8

record txpwr_lvl_conf_v2 =
  v2_enable :: u8
  v2_11b_11ag_2g4 :: "u8 list"
  v2_11n_11ac_2g4 :: "u8 list"
  v2_11ax_2g4 :: "u8 list"

record txpwr_lvl_conf_v3 =
  v3_enable :: u8
  v3_11b_11ag_2g4 :: "u8 list"
  v3_11n_11ac_2g4 :: "u8 list"
  v3_11ax_2g4 :: "u8 list"
  v3_11a_5g :: "u8 list"
  v3_11n_11ac_5g :: "u8 list"
  v3_11ax_5g :: "u8 list"

record txpwr_lvl_conf_v4 =
  v4_enable :: u8
  v4_11b_11ag_2g4 :: "u8 list"
  v4_11n_11ac_2g4 :: "u8 list"
  v4_11ax_2g4 :: "u8 list"
  v4_11a_5g :: "u8 list"
  v4_11n_11ac_5g :: "u8 list"
  v4_11ax_5g :: "u8 list"
  v4_11a_6g :: "u8 list"
  v4_11n_11ac_6g :: "u8 list"
  v4_11ax_6g :: "u8 list"

record txpwr_lvl_adj_conf =
  adj_enable :: u8
  adj_adj_tbl_2g4 :: "u8 list"
  adj_adj_tbl_5g :: "u8 list"

record txpwr_loss_conf =
  loss_enable_2g4 :: u8
  loss_value_2g4 :: u8
  loss_enable_5g :: u8
  loss_value_5g :: u8

record txpwr_ofst_conf =
  ofst_enable :: u8
  ofst_chan_1_4 :: u8
  ofst_chan_5_9 :: u8
  ofst_chan_10_13 :: u8
  ofst_chan_36_64 :: u8
  ofst_chan_100_120 :: u8
  ofst_chan_122_140 :: u8
  ofst_chan_142_165 :: u8

record txpwr_ofst2x_conf =
  ofst2x_enable :: u8
  ofst2x_tbl_2g4 :: "u8 list list"
  ofst2x_tbl_5g :: "u8 list list"

record txpwr_ofst2x_conf_v2 =
  ofst2x_v2_enable :: u8
  ofst2x_v2_pwrofst_flags :: u8
  ofst2x_v2_tbl_2g4_ant0 :: "u8 list list"
  ofst2x_v2_tbl_2g4_ant1 :: "u8 list list"
  ofst2x_v2_tbl_5g_ant0 :: "u8 list list"
  ofst2x_v2_tbl_5g_ant1 :: "u8 list list"
  ofst2x_v2_tbl_6g_ant0 :: "u8 list"
  ofst2x_v2_tbl_6g_ant1 :: "u8 list"

record xtal_cap_conf =
  xtal_enable :: u8
  xtal_xtal_cap :: u8
  xtal_xtal_cap_fine :: u8

record userconfig_info =
  uc_txpwr_lvl :: txpwr_lvl_conf
  uc_txpwr_lvl_v2 :: txpwr_lvl_conf_v2
  uc_txpwr_lvl_v3 :: txpwr_lvl_conf_v3
  uc_txpwr_lvl_v4 :: txpwr_lvl_conf_v4
  uc_txpwr_lvl_adj :: txpwr_lvl_adj_conf
  uc_txpwr_loss :: txpwr_loss_conf
  uc_txpwr_ofst :: txpwr_ofst_conf
  uc_txpwr_ofst2x :: txpwr_ofst2x_conf
  uc_txpwr_ofst2x_v2 :: txpwr_ofst2x_conf_v2
  uc_xtal_cap :: xtal_cap_conf

subsection \<open>The fields and array elements that a setting may address\<close>

datatype lvl_cell =
    Lvl_enable
  | Lvl_dsss
  | Lvl_ofdmlowrate_2g4
  | Lvl_ofdm64qam_2g4
  | Lvl_ofdm256qam_2g4
  | Lvl_ofdm1024qam_2g4
  | Lvl_ofdmlowrate_5g
  | Lvl_ofdm64qam_5g
  | Lvl_ofdm256qam_5g
  | Lvl_ofdm1024qam_5g

datatype v2_cell =
    V2_enable
  | V2_11b_11ag_2g4 nat
  | V2_11n_11ac_2g4 nat
  | V2_11ax_2g4 nat

datatype v3_cell =
    V3_enable
  | V3_11b_11ag_2g4 nat
  | V3_11n_11ac_2g4 nat
  | V3_11ax_2g4 nat
  | V3_11a_5g nat
  | V3_11n_11ac_5g nat
  | V3_11ax_5g nat

datatype v4_cell =
    V4_enable
  | V4_11b_11ag_2g4 nat
  | V4_11n_11ac_2g4 nat
  | V4_11ax_2g4 nat
  | V4_11a_5g nat
  | V4_11n_11ac_5g nat
  | V4_11ax_5g nat
  | V4_11a_6g nat
  | V4_11n_11ac_6g nat
  | V4_11ax_6g nat

datatype adj_cell =
    Adj_enable
  | Adj_adj_tbl_2g4 nat
  | Adj_adj_tbl_5g nat

datatype loss_cell =
    Loss_enable_2g4
  | Loss_value_2g4
  | Loss_enable_5g
  | Loss_value_5g

datatype ofst_cell =
    Ofst_enable
  | Ofst_chan_1_4
  | Ofst_chan_5_9
  | Ofst_chan_10_13
  | Ofst_chan_36_64
  | Ofst_chan_100_120
  | Ofst_chan_122_140
  | Ofst_chan_142_165

datatype ofst2x_cell =
    Ofst2x_enable
  | Ofst2x_tbl_2g4 nat nat
  | Ofst2x_tbl_5g nat nat

datatype ofst2x_v2_cell =
    Ofst2x_v2_enable
  | Ofst2x_v2_pwrofst_flags
  | Ofst2x_v2_tbl_2g4_ant0 nat nat
  | Ofst2x_v2_tbl_2g4_ant1 nat nat
  | Ofst2x_v2_tbl_5g_ant0 nat nat
  | Ofst2x_v2_tbl_5g_ant1 nat nat
  | Ofst2x_v2_tbl_6g_ant0 nat
  | Ofst2x_v2_tbl_6g_ant1 nat

datatype xtal_cell =
    Xtal_enable
  | Xtal_xtal_cap
  | Xtal_xtal_cap_fine

datatype userconfig_cell =
    Txpwr_lvl lvl_cell
  | Txpwr_lvl_v2 v2_cell
  | Txpwr_lvl_v3 v3_cell
  | Txpwr_lvl_v4 v4_cell
  | Txpwr_lvl_adj adj_cell
  | Txpwr_loss loss_cell
  | Txpwr_ofst ofst_cell
  | Txpwr_ofst2x ofst2x_cell
  | Txpwr_ofst2x_v2 ofst2x_v2_cell
  | Xtal_cap xtal_cell

fun lvl_get :: "lvl_cell \<Rightarrow> txpwr_lvl_conf \<Rightarrow> u8" where
  "lvl_get Lvl_enable r = lvl_enable r"
| "lvl_get Lvl_dsss r = lvl_dsss r"
| "lvl_get Lvl_ofdmlowrate_2g4 r = lvl_ofdmlowrate_2g4 r"
| "lvl_get Lvl_ofdm64qam_2g4 r = lvl_ofdm64qam_2g4 r"
| "lvl_get Lvl_ofdm256qam_2g4 r = lvl_ofdm256qam_2g4 r"
| "lvl_get Lvl_ofdm1024qam_2g4 r = lvl_ofdm1024qam_2g4 r"
| "lvl_get Lvl_ofdmlowrate_5g r = lvl_ofdmlowrate_5g r"
| "lvl_get Lvl_ofdm64qam_5g r = lvl_ofdm64qam_5g r"
| "lvl_get Lvl_ofdm256qam_5g r = lvl_ofdm256qam_5g r"
| "lvl_get Lvl_ofdm1024qam_5g r = lvl_ofdm1024qam_5g r"

fun lvl_put :: "lvl_cell \<Rightarrow> u8 \<Rightarrow> txpwr_lvl_conf \<Rightarrow> txpwr_lvl_conf" where
  "lvl_put Lvl_enable v r = r\<lparr>lvl_enable := v\<rparr>"
| "lvl_put Lvl_dsss v r = r\<lparr>lvl_dsss := v\<rparr>"
| "lvl_put Lvl_ofdmlowrate_2g4 v r = r\<lparr>lvl_ofdmlowrate_2g4 := v\<rparr>"
| "lvl_put Lvl_ofdm64qam_2g4 v r = r\<lparr>lvl_ofdm64qam_2g4 := v\<rparr>"
| "lvl_put Lvl_ofdm256qam_2g4 v r = r\<lparr>lvl_ofdm256qam_2g4 := v\<rparr>"
| "lvl_put Lvl_ofdm1024qam_2g4 v r = r\<lparr>lvl_ofdm1024qam_2g4 := v\<rparr>"
| "lvl_put Lvl_ofdmlowrate_5g v r = r\<lparr>lvl_ofdmlowrate_5g := v\<rparr>"
| "lvl_put Lvl_ofdm64qam_5g v r = r\<lparr>lvl_ofdm64qam_5g := v\<rparr>"
| "lvl_put Lvl_ofdm256qam_5g v r = r\<lparr>lvl_ofdm256qam_5g := v\<rparr>"
| "lvl_put Lvl_ofdm1024qam_5g v r = r\<lparr>lvl_ofdm1024qam_5g := v\<rparr>"

fun lvl_in :: "lvl_cell \<Rightarrow> bool" where
  "lvl_in Lvl_enable \<longleftrightarrow> True"
| "lvl_in Lvl_dsss \<longleftrightarrow> True"
| "lvl_in Lvl_ofdmlowrate_2g4 \<longleftrightarrow> True"
| "lvl_in Lvl_ofdm64qam_2g4 \<longleftrightarrow> True"
| "lvl_in Lvl_ofdm256qam_2g4 \<longleftrightarrow> True"
| "lvl_in Lvl_ofdm1024qam_2g4 \<longleftrightarrow> True"
| "lvl_in Lvl_ofdmlowrate_5g \<longleftrightarrow> True"
| "lvl_in Lvl_ofdm64qam_5g \<longleftrightarrow> True"
| "lvl_in Lvl_ofdm256qam_5g \<longleftrightarrow> True"
| "lvl_in Lvl_ofdm1024qam_5g \<longleftrightarrow> True"

fun v2_get :: "v2_cell \<Rightarrow> txpwr_lvl_conf_v2 \<Rightarrow> u8" where
  "v2_get V2_enable r = v2_enable r"
| "v2_get (V2_11b_11ag_2g4 i) r = v2_11b_11ag_2g4 r ! i"
| "v2_get (V2_11n_11ac_2g4 i) r = v2_11n_11ac_2g4 r ! i"
| "v2_get (V2_11ax_2g4 i) r = v2_11ax_2g4 r ! i"

fun v2_put :: "v2_cell \<Rightarrow> u8 \<Rightarrow> txpwr_lvl_conf_v2 \<Rightarrow> txpwr_lvl_conf_v2" where
  "v2_put V2_enable v r = r\<lparr>v2_enable := v\<rparr>"
| "v2_put (V2_11b_11ag_2g4 i) v r = r\<lparr>v2_11b_11ag_2g4 := (v2_11b_11ag_2g4 r)[i := v]\<rparr>"
| "v2_put (V2_11n_11ac_2g4 i) v r = r\<lparr>v2_11n_11ac_2g4 := (v2_11n_11ac_2g4 r)[i := v]\<rparr>"
| "v2_put (V2_11ax_2g4 i) v r = r\<lparr>v2_11ax_2g4 := (v2_11ax_2g4 r)[i := v]\<rparr>"

fun v2_in :: "v2_cell \<Rightarrow> bool" where
  "v2_in V2_enable \<longleftrightarrow> True"
| "v2_in (V2_11b_11ag_2g4 i) \<longleftrightarrow> i < 12"
| "v2_in (V2_11n_11ac_2g4 i) \<longleftrightarrow> i < 10"
| "v2_in (V2_11ax_2g4 i) \<longleftrightarrow> i < 12"

fun v3_get :: "v3_cell \<Rightarrow> txpwr_lvl_conf_v3 \<Rightarrow> u8" where
  "v3_get V3_enable r = v3_enable r"
| "v3_get (V3_11b_11ag_2g4 i) r = v3_11b_11ag_2g4 r ! i"
| "v3_get (V3_11n_11ac_2g4 i) r = v3_11n_11ac_2g4 r ! i"
| "v3_get (V3_11ax_2g4 i) r = v3_11ax_2g4 r ! i"
| "v3_get (V3_11a_5g i) r = v3_11a_5g r ! i"
| "v3_get (V3_11n_11ac_5g i) r = v3_11n_11ac_5g r ! i"
| "v3_get (V3_11ax_5g i) r = v3_11ax_5g r ! i"

fun v3_put :: "v3_cell \<Rightarrow> u8 \<Rightarrow> txpwr_lvl_conf_v3 \<Rightarrow> txpwr_lvl_conf_v3" where
  "v3_put V3_enable v r = r\<lparr>v3_enable := v\<rparr>"
| "v3_put (V3_11b_11ag_2g4 i) v r = r\<lparr>v3_11b_11ag_2g4 := (v3_11b_11ag_2g4 r)[i := v]\<rparr>"
| "v3_put (V3_11n_11ac_2g4 i) v r = r\<lparr>v3_11n_11ac_2g4 := (v3_11n_11ac_2g4 r)[i := v]\<rparr>"
| "v3_put (V3_11ax_2g4 i) v r = r\<lparr>v3_11ax_2g4 := (v3_11ax_2g4 r)[i := v]\<rparr>"
| "v3_put (V3_11a_5g i) v r = r\<lparr>v3_11a_5g := (v3_11a_5g r)[i := v]\<rparr>"
| "v3_put (V3_11n_11ac_5g i) v r = r\<lparr>v3_11n_11ac_5g := (v3_11n_11ac_5g r)[i := v]\<rparr>"
| "v3_put (V3_11ax_5g i) v r = r\<lparr>v3_11ax_5g := (v3_11ax_5g r)[i := v]\<rparr>"

fun v3_in :: "v3_cell \<Rightarrow> bool" where
  "v3_in V3_enable \<longleftrightarrow> True"
| "v3_in (V3_11b_11ag_2g4 i) \<longleftrightarrow> i < 12"
| "v3_in (V3_11n_11ac_2g4 i) \<longleftrightarrow> i < 10"
| "v3_in (V3_11ax_2g4 i) \<longleftrightarrow> i < 12"
| "v3_in (V3_11a_5g i) \<longleftrightarrow> i < 12"
| "v3_in (V3_11n_11ac_5g i) \<longleftrightarrow> i < 10"
| "v3_in (V3_11ax_5g i) \<longleftrightarrow> i < 12"

fun v4_get :: "v4_cell \<Rightarrow> txpwr_lvl_conf_v4 \<Rightarrow> u8" where
  "v4_get V4_enable r = v4_enable r"
| "v4_get (V4_11b_11ag_2g4 i) r = v4_11b_11ag_2g4 r ! i"
| "v4_get (V4_11n_11ac_2g4 i) r = v4_11n_11ac_2g4 r ! i"
| "v4_get (V4_11ax_2g4 i) r = v4_11ax_2g4 r ! i"
| "v4_get (V4_11a_5g i) r = v4_11a_5g r ! i"
| "v4_get (V4_11n_11ac_5g i) r = v4_11n_11ac_5g r ! i"
| "v4_get (V4_11ax_5g i) r = v4_11ax_5g r ! i"
| "v4_get (V4_11a_6g i) r = v4_11a_6g r ! i"
| "v4_get (V4_11n_11ac_6g i) r = v4_11n_11ac_6g r ! i"
| "v4_get (V4_11ax_6g i) r = v4_11ax_6g r ! i"

fun v4_put :: "v4_cell \<Rightarrow> u8 \<Rightarrow> txpwr_lvl_conf_v4 \<Rightarrow> txpwr_lvl_conf_v4" where
  "v4_put V4_enable v r = r\<lparr>v4_enable := v\<rparr>"
| "v4_put (V4_11b_11ag_2g4 i) v r = r\<lparr>v4_11b_11ag_2g4 := (v4_11b_11ag_2g4 r)[i := v]\<rparr>"
| "v4_put (V4_11n_11ac_2g4 i) v r = r\<lparr>v4_11n_11ac_2g4 := (v4_11n_11ac_2g4 r)[i := v]\<rparr>"
| "v4_put (V4_11ax_2g4 i) v r = r\<lparr>v4_11ax_2g4 := (v4_11ax_2g4 r)[i := v]\<rparr>"
| "v4_put (V4_11a_5g i) v r = r\<lparr>v4_11a_5g := (v4_11a_5g r)[i := v]\<rparr>"
| "v4_put (V4_11n_11ac_5g i) v r = r\<lparr>v4_11n_11ac_5g := (v4_11n_11ac_5g r)[i := v]\<rparr>"
| "v4_put (V4_11ax_5g i) v r = r\<lparr>v4_11ax_5g := (v4_11ax_5g r)[i := v]\<rparr>"
| "v4_put (V4_11a_6g i) v r = r\<lparr>v4_11a_6g := (v4_11a_6g r)[i := v]\<rparr>"
| "v4_put (V4_11n_11ac_6g i) v r = r\<lparr>v4_11n_11ac_6g := (v4_11n_11ac_6g r)[i := v]\<rparr>"
| "v4_put (V4_11ax_6g i) v r = r\<lparr>v4_11ax_6g := (v4_11ax_6g r)[i := v]\<rparr>"

fun v4_in :: "v4_cell \<Rightarrow> bool" where
  "v4_in V4_enable \<longleftrightarrow> True"
| "v4_in (V4_11b_11ag_2g4 i) \<longleftrightarrow> i < 12"
| "v4_in (V4_11n_11ac_2g4 i) \<longleftrightarrow> i < 10"
| "v4_in (V4_11ax_2g4 i) \<longleftrightarrow> i < 12"
| "v4_in (V4_11a_5g i) \<longleftrightarrow> i < 8"
| "v4_in (V4_11n_11ac_5g i) \<longleftrightarrow> i < 10"
| "v4_in (V4_11ax_5g i) \<longleftrightarrow> i < 12"
| "v4_in (V4_11a_6g i) \<longleftrightarrow> i < 8"
| "v4_in (V4_11n_11ac_6g i) \<longleftrightarrow> i < 10"
| "v4_in (V4_11ax_6g i) \<longleftrightarrow> i < 12"

fun adj_get :: "adj_cell \<Rightarrow> txpwr_lvl_adj_conf \<Rightarrow> u8" where
  "adj_get Adj_enable r = adj_enable r"
| "adj_get (Adj_adj_tbl_2g4 i) r = adj_adj_tbl_2g4 r ! i"
| "adj_get (Adj_adj_tbl_5g i) r = adj_adj_tbl_5g r ! i"

fun adj_put :: "adj_cell \<Rightarrow> u8 \<Rightarrow> txpwr_lvl_adj_conf \<Rightarrow> txpwr_lvl_adj_conf" where
  "adj_put Adj_enable v r = r\<lparr>adj_enable := v\<rparr>"
| "adj_put (Adj_adj_tbl_2g4 i) v r = r\<lparr>adj_adj_tbl_2g4 := (adj_adj_tbl_2g4 r)[i := v]\<rparr>"
| "adj_put (Adj_adj_tbl_5g i) v r = r\<lparr>adj_adj_tbl_5g := (adj_adj_tbl_5g r)[i := v]\<rparr>"

fun adj_in :: "adj_cell \<Rightarrow> bool" where
  "adj_in Adj_enable \<longleftrightarrow> True"
| "adj_in (Adj_adj_tbl_2g4 i) \<longleftrightarrow> i < 3"
| "adj_in (Adj_adj_tbl_5g i) \<longleftrightarrow> i < 6"

fun loss_get :: "loss_cell \<Rightarrow> txpwr_loss_conf \<Rightarrow> u8" where
  "loss_get Loss_enable_2g4 r = loss_enable_2g4 r"
| "loss_get Loss_value_2g4 r = loss_value_2g4 r"
| "loss_get Loss_enable_5g r = loss_enable_5g r"
| "loss_get Loss_value_5g r = loss_value_5g r"

fun loss_put :: "loss_cell \<Rightarrow> u8 \<Rightarrow> txpwr_loss_conf \<Rightarrow> txpwr_loss_conf" where
  "loss_put Loss_enable_2g4 v r = r\<lparr>loss_enable_2g4 := v\<rparr>"
| "loss_put Loss_value_2g4 v r = r\<lparr>loss_value_2g4 := v\<rparr>"
| "loss_put Loss_enable_5g v r = r\<lparr>loss_enable_5g := v\<rparr>"
| "loss_put Loss_value_5g v r = r\<lparr>loss_value_5g := v\<rparr>"

fun loss_in :: "loss_cell \<Rightarrow> bool" where
  "loss_in Loss_enable_2g4 \<longleftrightarrow> True"
| "loss_in Loss_value_2g4 \<longleftrightarrow> True"
| "loss_in Loss_enable_5g \<longleftrightarrow> True"
| "loss_in Loss_value_5g \<longleftrightarrow> True"

fun ofst_get :: "ofst_cell \<Rightarrow> txpwr_ofst_conf \<Rightarrow> u8" where
  "ofst_get Ofst_enable r = ofst_enable r"
| "ofst_get Ofst_chan_1_4 r = ofst_chan_1_4 r"
| "ofst_get Ofst_chan_5_9 r = ofst_chan_5_9 r"
| "ofst_get Ofst_chan_10_13 r = ofst_chan_10_13 r"
| "ofst_get Ofst_chan_36_64 r = ofst_chan_36_64 r"
| "ofst_get Ofst_chan_100_120 r = ofst_chan_100_120 r"
| "ofst_get Ofst_chan_122_140 r = ofst_chan_122_140 r"
| "ofst_get Ofst_chan_142_165 r = ofst_chan_142_165 r"

fun ofst_put :: "ofst_cell \<Rightarrow> u8 \<Rightarrow> txpwr_ofst_conf \<Rightarrow> txpwr_ofst_conf" where
  "ofst_put Ofst_enable v r = r\<lparr>ofst_enable := v\<rparr>"
| "ofst_put Ofst_chan_1_4 v r = r\<lparr>ofst_chan_1_4 := v\<rparr>"
| "ofst_put Ofst_chan_5_9 v r = r\<lparr>ofst_chan_5_9 := v\<rparr>"
| "ofst_put Ofst_chan_10_13 v r = r\<lparr>ofst_chan_10_13 := v\<rparr>"
| "ofst_put Ofst_chan_36_64 v r = r\<lparr>ofst_chan_36_64 := v\<rparr>"
| "ofst_put Ofst_chan_100_120 v r = r\<lparr>ofst_chan_100_120 := v\<rparr>"
| "ofst_put Ofst_chan_122_140 v r = r\<lparr>ofst_chan_122_140 := v\<rparr>"
| "ofst_put Ofst_chan_142_165 v r = r\<lparr>ofst_chan_142_165 := v\<rparr>"

fun ofst_in :: "ofst_cell \<Rightarrow> bool" where
  "ofst_in Ofst_enable \<longleftrightarrow> True"
| "ofst_in Ofst_chan_1_4 \<longleftrightarrow> True"
| "ofst_in Ofst_chan_5_9 \<longleftrightarrow> True"
| "ofst_in Ofst_chan_10_13 \<longleftrightarrow> True"
| "ofst_in Ofst_chan_36_64 \<longleftrightarrow> True"
| "ofst_in Ofst_chan_100_120 \<longleftrightarrow> True"
| "ofst_in Ofst_chan_122_140 \<longleftrightarrow> True"
| "ofst_in Ofst_chan_142_165 \<longleftrightarrow> True"

fun ofst2x_get :: "ofst2x_cell \<Rightarrow> txpwr_ofst2x_conf \<Rightarrow> u8" where
  "ofst2x_get Ofst2x_enable r = ofst2x_enable r"
| "ofst2x_get (Ofst2x_tbl_2g4 i j) r = ofst2x_tbl_2g4 r ! i ! j"
| "ofst2x_get (Ofst2x_tbl_5g i j) r = ofst2x_tbl_5g r ! i ! j"

fun ofst2x_put :: "ofst2x_cell \<Rightarrow> u8 \<Rightarrow> txpwr_ofst2x_conf \<Rightarrow> txpwr_ofst2x_conf" where
  "ofst2x_put Ofst2x_enable v r = r\<lparr>ofst2x_enable := v\<rparr>"
| "ofst2x_put (Ofst2x_tbl_2g4 i j) v r = r\<lparr>ofst2x_tbl_2g4 := (ofst2x_tbl_2g4 r)[i := (ofst2x_tbl_2g4 r ! i)[j := v]]\<rparr>"
| "ofst2x_put (Ofst2x_tbl_5g i j) v r = r\<lparr>ofst2x_tbl_5g := (ofst2x_tbl_5g r)[i := (ofst2x_tbl_5g r ! i)[j := v]]\<rparr>"

fun ofst2x_in :: "ofst2x_cell \<Rightarrow> bool" where
  "ofst2x_in Ofst2x_enable \<longleftrightarrow> True"
| "ofst2x_in (Ofst2x_tbl_2g4 i j) \<longleftrightarrow> i < 3 \<and> j < 3"
| "ofst2x_in (Ofst2x_tbl_5g i j) \<longleftrightarrow> i < 3 \<and> j < 6"

fun ofst2x_v2_get :: "ofst2x_v2_cell \<Rightarrow> txpwr_ofst2x_conf_v2 \<Rightarrow> u8" where
  "ofst2x_v2_get Ofst2x_v2_enable r = ofst2x_v2_enable r"
| "ofst2x_v2_get Ofst2x_v2_pwrofst_flags r = ofst2x_v2_pwrofst_flags r"
| "ofst2x_v2_get (Ofst2x_v2_tbl_2g4_ant0 i j) r = ofst2x_v2_tbl_2g4_ant0 r ! i ! j"
| "ofst2x_v2_get (Ofst2x_v2_tbl_2g4_ant1 i j) r = ofst2x_v2_tbl_2g4_ant1 r ! i ! j"
| "ofst2x_v2_get (Ofst2x_v2_tbl_5g_ant0 i j) r = ofst2x_v2_tbl_5g_ant0 r ! i ! j"
| "ofst2x_v2_get (Ofst2x_v2_tbl_5g_ant1 i j) r = ofst2x_v2_tbl_5g_ant1 r ! i ! j"
| "ofst2x_v2_get (Ofst2x_v2_tbl_6g_ant0 i) r = ofst2x_v2_tbl_6g_ant0 r ! i"
| "ofst2x_v2_get (Ofst2x_v2_tbl_6g_ant1 i) r = ofst2x_v2_tbl_6g_ant1 r ! i"

fun ofst2x_v2_put :: "ofst2x_v2_cell \<Rightarrow> u8 \<Rightarrow> txpwr_ofst2x_conf_v2 \<Rightarrow> txpwr_ofst2x_conf_v2" where
  "ofst2x_v2_put Ofst2x_v2_enable v r = r\<lparr>ofst2x_v2_enable := v\<rparr>"
| "ofst2x_v2_put Ofst2x_v2_pwrofst_flags v r = r\<lparr>ofst2x_v2_pwrofst_flags := v\<rparr>"
| "ofst2x_v2_put (Ofst2x_v2_tbl_2g4_ant0 i j) v r = r\<lparr>ofst2x_v2_tbl_2g4_ant0 := (ofst2x_v2_tbl_2g4_ant0 r)[i := (ofst2x_v2_tbl_2g4_ant0 r ! i)[j := v]]\<rparr>"
| "ofst2x_v2_put (Ofst2x_v2_tbl_2g4_ant1 i j) v r = r\<lparr>ofst2x_v2_tbl_2g4_ant1 := (ofst2x_v2_tbl_2g4_ant1 r)[i := (ofst2x_v2_tbl_2g4_ant1 r ! i)[j := v]]\<rparr>"
| "ofst2x_v2_put (Ofst2x_v2_tbl_5g_ant0 i j) v r = r\<lparr>ofst2x_v2_tbl_5g_ant0 := (ofst2x_v2_tbl_5g_ant0 r)[i := (ofst2x_v2_tbl_5g_ant0 r ! i)[j := v]]\<rparr>"
| "ofst2x_v2_put (Ofst2x_v2_tbl_5g_ant1 i j) v r = r\<lparr>ofst2x_v2_tbl_5g_ant1 := (ofst2x_v2_tbl_5g_ant1 r)[i := (ofst2x_v2_tbl_5g_ant1 r ! i)[j := v]]\<rparr>"
| "ofst2x_v2_put (Ofst2x_v2_tbl_6g_ant0 i) v r = r\<lparr>ofst2x_v2_tbl_6g_ant0 := (ofst2x_v2_tbl_6g_ant0 r)[i := v]\<rparr>"
| "ofst2x_v2_put (Ofst2x_v2_tbl_6g_ant1 i) v r = r\<lparr>ofst2x_v2_tbl_6g_ant1 := (ofst2x_v2_tbl_6g_ant1 r)[i := v]\<rparr>"

fun ofst2x_v2_in :: "ofst2x_v2_cell \<Rightarrow> bool" where
  "ofst2x_v2_in Ofst2x_v2_enable \<longleftrightarrow> True"
| "ofst2x_v2_in Ofst2x_v2_pwrofst_flags \<longleftrightarrow> True"
| "ofst2x_v2_in (Ofst2x_v2_tbl_2g4_ant0 i j) \<longleftrightarrow> i < 3 \<and> j < 3"
| "ofst2x_v2_in (Ofst2x_v2_tbl_2g4_ant1 i j) \<longleftrightarrow> i < 3 \<and> j < 3"
| "ofst2x_v2_in (Ofst2x_v2_tbl_5g_ant0 i j) \<longleftrightarrow> i < 6 \<and> j < 3"
| "ofst2x_v2_in (Ofst2x_v2_tbl_5g_ant1 i j) \<longleftrightarrow> i < 6 \<and> j < 3"
| "ofst2x_v2_in (Ofst2x_v2_tbl_6g_ant0 i) \<longleftrightarrow> i < 15"
| "ofst2x_v2_in (Ofst2x_v2_tbl_6g_ant1 i) \<longleftrightarrow> i < 15"

fun xtal_get :: "xtal_cell \<Rightarrow> xtal_cap_conf \<Rightarrow> u8" where
  "xtal_get Xtal_enable r = xtal_enable r"
| "xtal_get Xtal_xtal_cap r = xtal_xtal_cap r"
| "xtal_get Xtal_xtal_cap_fine r = xtal_xtal_cap_fine r"

fun xtal_put :: "xtal_cell \<Rightarrow> u8 \<Rightarrow> xtal_cap_conf \<Rightarrow> xtal_cap_conf" where
  "xtal_put Xtal_enable v r = r\<lparr>xtal_enable := v\<rparr>"
| "xtal_put Xtal_xtal_cap v r = r\<lparr>xtal_xtal_cap := v\<rparr>"
| "xtal_put Xtal_xtal_cap_fine v r = r\<lparr>xtal_xtal_cap_fine := v\<rparr>"

fun xtal_in :: "xtal_cell \<Rightarrow> bool" where
  "xtal_in Xtal_enable \<longleftrightarrow> True"
| "xtal_in Xtal_xtal_cap \<longleftrightarrow> True"
| "xtal_in Xtal_xtal_cap_fine \<longleftrightarrow> True"

fun cell_get :: "userconfig_cell \<Rightarrow> userconfig_info \<Rightarrow> u8" where
  "cell_get (Txpwr_lvl c) u = lvl_get c (uc_txpwr_lvl u)"
| "cell_get (Txpwr_lvl_v2 c) u = v2_get c (uc_txpwr_lvl_v2 u)"
| "cell_get (Txpwr_lvl_v3 c) u = v3_get c (uc_txpwr_lvl_v3 u)"
| "cell_get (Txpwr_lvl_v4 c) u = v4_get c (uc_txpwr_lvl_v4 u)"
| "cell_get (Txpwr_lvl_adj c) u = adj_get c (uc_txpwr_lvl_adj u)"
| "cell_get (Txpwr_loss c) u = loss_get c (uc_txpwr_loss u)"
| "cell_get (Txpwr_ofst c) u = ofst_get c (uc_txpwr_ofst u)"
| "cell_get (Txpwr_ofst2x c) u = ofst2x_get c (uc_txpwr_ofst2x u)"
| "cell_get (Txpwr_ofst2x_v2 c) u = ofst2x_v2_get c (uc_txpwr_ofst2x_v2 u)"
| "cell_get (Xtal_cap c) u = xtal_get c (uc_xtal_cap u)"

fun cell_put :: "userconfig_cell \<Rightarrow> u8 \<Rightarrow> userconfig_info \<Rightarrow> userconfig_info" where
  "cell_put (Txpwr_lvl c) v u = u\<lparr>uc_txpwr_lvl := lvl_put c v (uc_txpwr_lvl u)\<rparr>"
| "cell_put (Txpwr_lvl_v2 c) v u = u\<lparr>uc_txpwr_lvl_v2 := v2_put c v (uc_txpwr_lvl_v2 u)\<rparr>"
| "cell_put (Txpwr_lvl_v3 c) v u = u\<lparr>uc_txpwr_lvl_v3 := v3_put c v (uc_txpwr_lvl_v3 u)\<rparr>"
| "cell_put (Txpwr_lvl_v4 c) v u = u\<lparr>uc_txpwr_lvl_v4 := v4_put c v (uc_txpwr_lvl_v4 u)\<rparr>"
| "cell_put (Txpwr_lvl_adj c) v u = u\<lparr>uc_txpwr_lvl_adj := adj_put c v (uc_txpwr_lvl_adj u)\<rparr>"
| "cell_put (Txpwr_loss c) v u = u\<lparr>uc_txpwr_loss := loss_put c v (uc_txpwr_loss u)\<rparr>"
| "cell_put (Txpwr_ofst c) v u = u\<lparr>uc_txpwr_ofst := ofst_put c v (uc_txpwr_ofst u)\<rparr>"
| "cell_put (Txpwr_ofst2x c) v u = u\<lparr>uc_txpwr_ofst2x := ofst2x_put c v (uc_txpwr_ofst2x u)\<rparr>"
| "cell_put (Txpwr_ofst2x_v2 c) v u = u\<lparr>uc_txpwr_ofst2x_v2 := ofst2x_v2_put c v (uc_txpwr_ofst2x_v2 u)\<rparr>"
| "cell_put (Xtal_cap c) v u = u\<lparr>uc_xtal_cap := xtal_put c v (uc_xtal_cap u)\<rparr>"

fun cell_in :: "userconfig_cell \<Rightarrow> bool" where
  "cell_in (Txpwr_lvl c) \<longleftrightarrow> lvl_in c"
| "cell_in (Txpwr_lvl_v2 c) \<longleftrightarrow> v2_in c"
| "cell_in (Txpwr_lvl_v3 c) \<longleftrightarrow> v3_in c"
| "cell_in (Txpwr_lvl_v4 c) \<longleftrightarrow> v4_in c"
| "cell_in (Txpwr_lvl_adj c) \<longleftrightarrow> adj_in c"
| "cell_in (Txpwr_loss c) \<longleftrightarrow> loss_in c"
| "cell_in (Txpwr_ofst c) \<longleftrightarrow> ofst_in c"
| "cell_in (Txpwr_ofst2x c) \<longleftrightarrow> ofst2x_in c"
| "cell_in (Txpwr_ofst2x_v2 c) \<longleftrightarrow> ofst2x_v2_in c"
| "cell_in (Xtal_cap c) \<longleftrightarrow> xtal_in c"

subsection \<open>Initial values\<close>

definition userconfig_init :: userconfig_info where
  "userconfig_init = \<lparr>
     uc_txpwr_lvl = \<lparr>lvl_enable = 1,
        lvl_dsss = 9,
        lvl_ofdmlowrate_2g4 = 8,
        lvl_ofdm64qam_2g4 = 8,
        lvl_ofdm256qam_2g4 = 8,
        lvl_ofdm1024qam_2g4 = 8,
        lvl_ofdmlowrate_5g = 11,
        lvl_ofdm64qam_5g = 10,
        lvl_ofdm256qam_5g = 9,
        lvl_ofdm1024qam_5g = 9\<rparr>,
     uc_txpwr_lvl_v2 = \<lparr>v2_enable = 1,
        v2_11b_11ag_2g4 = [20, 20, 20, 20, 20, 20, 20, 20, 18, 18, 16, 16],
        v2_11n_11ac_2g4 = [20, 20, 20, 20, 18, 18, 16, 16, 16, 16],
        v2_11ax_2g4 = [20, 20, 20, 20, 18, 18, 16, 16, 16, 16, 15, 15]\<rparr>,
     uc_txpwr_lvl_v3 = \<lparr>v3_enable = 1,
        v3_11b_11ag_2g4 = [20, 20, 20, 20, 20, 20, 20, 20, 18, 18, 16, 16],
        v3_11n_11ac_2g4 = [20, 20, 20, 20, 18, 18, 16, 16, 16, 16],
        v3_11ax_2g4 = [20, 20, 20, 20, 18, 18, 16, 16, 16, 16, 15, 15],
        v3_11a_5g = [128, 128, 128, 128, 20, 20, 20, 20, 18, 18, 16, 16],
        v3_11n_11ac_5g = [20, 20, 20, 20, 18, 18, 16, 16, 16, 15],
        v3_11ax_5g = [20, 20, 20, 20, 18, 18, 16, 16, 16, 15, 14, 14]\<rparr>,
     uc_txpwr_lvl_v4 = \<lparr>v4_enable = 1,
        v4_11b_11ag_2g4 = [20, 20, 20, 20, 20, 20, 20, 20, 18, 18, 16, 16],
        v4_11n_11ac_2g4 = [20, 20, 20, 20, 18, 18, 16, 16, 16, 16],
        v4_11ax_2g4 = [20, 20, 20, 20, 18, 18, 16, 16, 16, 16, 15, 15],
        v4_11a_5g = [20, 20, 20, 20, 18, 18, 16, 16],
        v4_11n_11ac_5g = [20, 20, 20, 20, 18, 18, 16, 16, 16, 15],
        v4_11ax_5g = [20, 20, 20, 20, 18, 18, 16, 16, 16, 15, 14, 14],
        v4_11a_6g = replicate 8 0,
        v4_11n_11ac_6g = replicate 10 0,
        v4_11ax_6g = replicate 12 0\<rparr>,
     uc_txpwr_lvl_adj = \<lparr>adj_enable = 0,
        adj_adj_tbl_2g4 = replicate 3 0,
        adj_adj_tbl_5g = replicate 6 0\<rparr>,
     uc_txpwr_loss = \<lparr>loss_enable_2g4 = 0,
        loss_value_2g4 = 0,
        loss_enable_5g = 0,
        loss_value_5g = 0\<rparr>,
     uc_txpwr_ofst = \<lparr>ofst_enable = 1,
        ofst_chan_1_4 = 0,
        ofst_chan_5_9 = 0,
        ofst_chan_10_13 = 0,
        ofst_chan_36_64 = 0,
        ofst_chan_100_120 = 0,
        ofst_chan_122_140 = 0,
        ofst_chan_142_165 = 0\<rparr>,
     uc_txpwr_ofst2x = \<lparr>ofst2x_enable = 0,
        ofst2x_tbl_2g4 = replicate 3 (replicate 3 0),
        ofst2x_tbl_5g = replicate 3 (replicate 6 0)\<rparr>,
     uc_txpwr_ofst2x_v2 = \<lparr>ofst2x_v2_enable = 0,
        ofst2x_v2_pwrofst_flags = 0,
        ofst2x_v2_tbl_2g4_ant0 = replicate 3 (replicate 3 0),
        ofst2x_v2_tbl_2g4_ant1 = replicate 3 (replicate 3 0),
        ofst2x_v2_tbl_5g_ant0 = replicate 6 (replicate 3 0),
        ofst2x_v2_tbl_5g_ant1 = replicate 6 (replicate 3 0),
        ofst2x_v2_tbl_6g_ant0 = replicate 15 0,
        ofst2x_v2_tbl_6g_ant1 = replicate 15 0\<rparr>,
     uc_xtal_cap = \<lparr>xtal_enable = 0,
        xtal_xtal_cap = 24,
        xtal_xtal_cap_fine = 31\<rparr>\<rparr>"

subsection \<open>The keys of the 8800DC and 8800D80\<close>

definition nvram_lvl_keys :: "(string \<times> userconfig_cell list) list" where
  "nvram_lvl_keys =
   [(''enable'', [Txpwr_lvl Lvl_enable, Txpwr_lvl_v2 V2_enable, Txpwr_lvl_v3 V3_enable]),
    (''dsss'', [Txpwr_lvl Lvl_dsss]),
    (''ofdmlowrate_2g4'', [Txpwr_lvl Lvl_ofdmlowrate_2g4]),
    (''ofdm64qam_2g4'', [Txpwr_lvl Lvl_ofdm64qam_2g4]),
    (''ofdm256qam_2g4'', [Txpwr_lvl Lvl_ofdm256qam_2g4]),
    (''ofdm1024qam_2g4'', [Txpwr_lvl Lvl_ofdm1024qam_2g4]),
    (''ofdmlowrate_5g'', [Txpwr_lvl Lvl_ofdmlowrate_5g]),
    (''ofdm64qam_5g'', [Txpwr_lvl Lvl_ofdm64qam_5g]),
    (''ofdm256qam_5g'', [Txpwr_lvl Lvl_ofdm256qam_5g]),
    (''ofdm1024qam_5g'', [Txpwr_lvl Lvl_ofdm1024qam_5g])]"

definition nvram_lvl_2g4_keys :: "(string \<times> userconfig_cell list) list" where
  "nvram_lvl_2g4_keys =
   [(''lvl_11b_11ag_1m_2g4'', [Txpwr_lvl_v2 (V2_11b_11ag_2g4 0), Txpwr_lvl_v3 (V3_11b_11ag_2g4 0)]),
    (''lvl_11b_11ag_2m_2g4'', [Txpwr_lvl_v2 (V2_11b_11ag_2g4 1), Txpwr_lvl_v3 (V3_11b_11ag_2g4 1)]),
    (''lvl_11b_11ag_5m5_2g4'', [Txpwr_lvl_v2 (V2_11b_11ag_2g4 2), Txpwr_lvl_v3 (V3_11b_11ag_2g4 2)]),
    (''lvl_11b_11ag_11m_2g4'', [Txpwr_lvl_v2 (V2_11b_11ag_2g4 3), Txpwr_lvl_v3 (V3_11b_11ag_2g4 3)]),
    (''lvl_11b_11ag_6m_2g4'', [Txpwr_lvl_v2 (V2_11b_11ag_2g4 4), Txpwr_lvl_v3 (V3_11b_11ag_2g4 4)]),
    (''lvl_11b_11ag_9m_2g4'', [Txpwr_lvl_v2 (V2_11b_11ag_2g4 5), Txpwr_lvl_v3 (V3_11b_11ag_2g4 5)]),
    (''lvl_11b_11ag_12m_2g4'', [Txpwr_lvl_v2 (V2_11b_11ag_2g4 6), Txpwr_lvl_v3 (V3_11b_11ag_2g4 6)]),
    (''lvl_11b_11ag_18m_2g4'', [Txpwr_lvl_v2 (V2_11b_11ag_2g4 7), Txpwr_lvl_v3 (V3_11b_11ag_2g4 7)]),
    (''lvl_11b_11ag_24m_2g4'', [Txpwr_lvl_v2 (V2_11b_11ag_2g4 8), Txpwr_lvl_v3 (V3_11b_11ag_2g4 8)]),
    (''lvl_11b_11ag_36m_2g4'', [Txpwr_lvl_v2 (V2_11b_11ag_2g4 9), Txpwr_lvl_v3 (V3_11b_11ag_2g4 9)]),
    (''lvl_11b_11ag_48m_2g4'', [Txpwr_lvl_v2 (V2_11b_11ag_2g4 10), Txpwr_lvl_v3 (V3_11b_11ag_2g4 10)]),
    (''lvl_11b_11ag_54m_2g4'', [Txpwr_lvl_v2 (V2_11b_11ag_2g4 11), Txpwr_lvl_v3 (V3_11b_11ag_2g4 11)]),
    (''lvl_11n_11ac_mcs0_2g4'', [Txpwr_lvl_v2 (V2_11n_11ac_2g4 0), Txpwr_lvl_v3 (V3_11n_11ac_2g4 0)]),
    (''lvl_11n_11ac_mcs1_2g4'', [Txpwr_lvl_v2 (V2_11n_11ac_2g4 1), Txpwr_lvl_v3 (V3_11n_11ac_2g4 1)]),
    (''lvl_11n_11ac_mcs2_2g4'', [Txpwr_lvl_v2 (V2_11n_11ac_2g4 2), Txpwr_lvl_v3 (V3_11n_11ac_2g4 2)]),
    (''lvl_11n_11ac_mcs3_2g4'', [Txpwr_lvl_v2 (V2_11n_11ac_2g4 3), Txpwr_lvl_v3 (V3_11n_11ac_2g4 3)]),
    (''lvl_11n_11ac_mcs4_2g4'', [Txpwr_lvl_v2 (V2_11n_11ac_2g4 4), Txpwr_lvl_v3 (V3_11n_11ac_2g4 4)]),
    (''lvl_11n_11ac_mcs5_2g4'', [Txpwr_lvl_v2 (V2_11n_11ac_2g4 5), Txpwr_lvl_v3 (V3_11n_11ac_2g4 5)]),
    (''lvl_11n_11ac_mcs6_2g4'', [Txpwr_lvl_v2 (V2_11n_11ac_2g4 6), Txpwr_lvl_v3 (V3_11n_11ac_2g4 6)]),
    (''lvl_11n_11ac_mcs7_2g4'', [Txpwr_lvl_v2 (V2_11n_11ac_2g4 7), Txpwr_lvl_v3 (V3_11n_11ac_2g4 7)]),
    (''lvl_11n_11ac_mcs8_2g4'', [Txpwr_lvl_v2 (V2_11n_11ac_2g4 8), Txpwr_lvl_v3 (V3_11n_11ac_2g4 8)]),
    (''lvl_11n_11ac_mcs9_2g4'', [Txpwr_lvl_v2 (V2_11n_11ac_2g4 9), Txpwr_lvl_v3 (V3_11n_11ac_2g4 9)]),
    (''lvl_11ax_mcs0_2g4'', [Txpwr_lvl_v2 (V2_11ax_2g4 0), Txpwr_lvl_v3 (V3_11ax_2g4 0)]),
    (''lvl_11ax_mcs1_2g4'', [Txpwr_lvl_v2 (V2_11ax_2g4 1), Txpwr_lvl_v3 (V3_11ax_2g4 1)]),
    (''lvl_11ax_mcs2_2g4'', [Txpwr_lvl_v2 (V2_11ax_2g4 2), Txpwr_lvl_v3 (V3_11ax_2g4 2)]),
    (''lvl_11ax_mcs3_2g4'', [Txpwr_lvl_v2 (V2_11ax_2g4 3), Txpwr_lvl_v3 (V3_11ax_2g4 3)]),
    (''lvl_11ax_mcs4_2g4'', [Txpwr_lvl_v2 (V2_11ax_2g4 4), Txpwr_lvl_v3 (V3_11ax_2g4 4)]),
    (''lvl_11ax_mcs5_2g4'', [Txpwr_lvl_v2 (V2_11ax_2g4 5), Txpwr_lvl_v3 (V3_11ax_2g4 5)]),
    (''lvl_11ax_mcs6_2g4'', [Txpwr_lvl_v2 (V2_11ax_2g4 6), Txpwr_lvl_v3 (V3_11ax_2g4 6)]),
    (''lvl_11ax_mcs7_2g4'', [Txpwr_lvl_v2 (V2_11ax_2g4 7), Txpwr_lvl_v3 (V3_11ax_2g4 7)]),
    (''lvl_11ax_mcs8_2g4'', [Txpwr_lvl_v2 (V2_11ax_2g4 8), Txpwr_lvl_v3 (V3_11ax_2g4 8)]),
    (''lvl_11ax_mcs9_2g4'', [Txpwr_lvl_v2 (V2_11ax_2g4 9), Txpwr_lvl_v3 (V3_11ax_2g4 9)]),
    (''lvl_11ax_mcs10_2g4'', [Txpwr_lvl_v2 (V2_11ax_2g4 10), Txpwr_lvl_v3 (V3_11ax_2g4 10)]),
    (''lvl_11ax_mcs11_2g4'', [Txpwr_lvl_v2 (V2_11ax_2g4 11), Txpwr_lvl_v3 (V3_11ax_2g4 11)])]"

definition nvram_lvl_5g_keys :: "(string \<times> userconfig_cell list) list" where
  "nvram_lvl_5g_keys =
   [(''lvl_11a_1m_5g'', [Txpwr_lvl_v3 (V3_11a_5g 0)]),
    (''lvl_11a_2m_5g'', [Txpwr_lvl_v3 (V3_11a_5g 1)]),
    (''lvl_11a_5m5_5g'', [Txpwr_lvl_v3 (V3_11a_5g 2)]),
    (''lvl_11a_11m_5g'', [Txpwr_lvl_v3 (V3_11a_5g 3)]),
    (''lvl_11a_6m_5g'', [Txpwr_lvl_v3 (V3_11a_5g 4)]),
    (''lvl_11a_9m_5g'', [Txpwr_lvl_v3 (V3_11a_5g 5)]),
    (''lvl_11a_12m_5g'', [Txpwr_lvl_v3 (V3_11a_5g 6)]),
    (''lvl_11a_18m_5g'', [Txpwr_lvl_v3 (V3_11a_5g 7)]),
    (''lvl_11a_24m_5g'', [Txpwr_lvl_v3 (V3_11a_5g 8)]),
    (''lvl_11a_36m_5g'', [Txpwr_lvl_v3 (V3_11a_5g 9)]),
    (''lvl_11a_48m_5g'', [Txpwr_lvl_v3 (V3_11a_5g 10)]),
    (''lvl_11a_54m_5g'', [Txpwr_lvl_v3 (V3_11a_5g 11)]),
    (''lvl_11n_11ac_mcs0_5g'', [Txpwr_lvl_v3 (V3_11n_11ac_5g 0)]),
    (''lvl_11n_11ac_mcs1_5g'', [Txpwr_lvl_v3 (V3_11n_11ac_5g 1)]),
    (''lvl_11n_11ac_mcs2_5g'', [Txpwr_lvl_v3 (V3_11n_11ac_5g 2)]),
    (''lvl_11n_11ac_mcs3_5g'', [Txpwr_lvl_v3 (V3_11n_11ac_5g 3)]),
    (''lvl_11n_11ac_mcs4_5g'', [Txpwr_lvl_v3 (V3_11n_11ac_5g 4)]),
    (''lvl_11n_11ac_mcs5_5g'', [Txpwr_lvl_v3 (V3_11n_11ac_5g 5)]),
    (''lvl_11n_11ac_mcs6_5g'', [Txpwr_lvl_v3 (V3_11n_11ac_5g 6)]),
    (''lvl_11n_11ac_mcs7_5g'', [Txpwr_lvl_v3 (V3_11n_11ac_5g 7)]),
    (''lvl_11n_11ac_mcs8_5g'', [Txpwr_lvl_v3 (V3_11n_11ac_5g 8)]),
    (''lvl_11n_11ac_mcs9_5g'', [Txpwr_lvl_v3 (V3_11n_11ac_5g 9)]),
    (''lvl_11ax_mcs0_5g'', [Txpwr_lvl_v3 (V3_11ax_5g 0)]),
    (''lvl_11ax_mcs1_5g'', [Txpwr_lvl_v3 (V3_11ax_5g 1)]),
    (''lvl_11ax_mcs2_5g'', [Txpwr_lvl_v3 (V3_11ax_5g 2)]),
    (''lvl_11ax_mcs3_5g'', [Txpwr_lvl_v3 (V3_11ax_5g 3)]),
    (''lvl_11ax_mcs4_5g'', [Txpwr_lvl_v3 (V3_11ax_5g 4)]),
    (''lvl_11ax_mcs5_5g'', [Txpwr_lvl_v3 (V3_11ax_5g 5)]),
    (''lvl_11ax_mcs6_5g'', [Txpwr_lvl_v3 (V3_11ax_5g 6)]),
    (''lvl_11ax_mcs7_5g'', [Txpwr_lvl_v3 (V3_11ax_5g 7)]),
    (''lvl_11ax_mcs8_5g'', [Txpwr_lvl_v3 (V3_11ax_5g 8)]),
    (''lvl_11ax_mcs9_5g'', [Txpwr_lvl_v3 (V3_11ax_5g 9)]),
    (''lvl_11ax_mcs10_5g'', [Txpwr_lvl_v3 (V3_11ax_5g 10)]),
    (''lvl_11ax_mcs11_5g'', [Txpwr_lvl_v3 (V3_11ax_5g 11)])]"

definition nvram_adj_loss_keys :: "(string \<times> userconfig_cell list) list" where
  "nvram_adj_loss_keys =
   [(''lvl_adj_enable'', [Txpwr_lvl_adj Adj_enable]),
    (''lvl_adj_2g4_chan_1_4'', [Txpwr_lvl_adj (Adj_adj_tbl_2g4 0)]),
    (''lvl_adj_2g4_chan_5_9'', [Txpwr_lvl_adj (Adj_adj_tbl_2g4 1)]),
    (''lvl_adj_2g4_chan_10_13'', [Txpwr_lvl_adj (Adj_adj_tbl_2g4 2)]),
    (''lvl_adj_5g_chan_42'', [Txpwr_lvl_adj (Adj_adj_tbl_5g 0)]),
    (''lvl_adj_5g_chan_58'', [Txpwr_lvl_adj (Adj_adj_tbl_5g 1)]),
    (''lvl_adj_5g_chan_106'', [Txpwr_lvl_adj (Adj_adj_tbl_5g 2)]),
    (''lvl_adj_5g_chan_122'', [Txpwr_lvl_adj (Adj_adj_tbl_5g 3)]),
    (''lvl_adj_5g_chan_138'', [Txpwr_lvl_adj (Adj_adj_tbl_5g 4)]),
    (''lvl_adj_5g_chan_155'', [Txpwr_lvl_adj (Adj_adj_tbl_5g 5)]),
    (''loss_enable_2g4'', [Txpwr_loss Loss_enable_2g4]),
    (''loss_value_2g4'', [Txpwr_loss Loss_value_2g4]),
    (''loss_enable_5g'', [Txpwr_loss Loss_enable_5g]),
    (''loss_value_5g'', [Txpwr_loss Loss_value_5g])]"

definition nvram_ofst_keys :: "(string \<times> userconfig_cell list) list" where
  "nvram_ofst_keys =
   [(''ofst_enable'', [Txpwr_ofst Ofst_enable, Txpwr_ofst2x Ofst2x_enable]),
    (''ofst_chan_1_4'', [Txpwr_ofst Ofst_chan_1_4]),
    (''ofst_chan_5_9'', [Txpwr_ofst Ofst_chan_5_9]),
    (''ofst_chan_10_13'', [Txpwr_ofst Ofst_chan_10_13]),
    (''ofst_chan_36_64'', [Txpwr_ofst Ofst_chan_36_64]),
    (''ofst_chan_100_120'', [Txpwr_ofst Ofst_chan_100_120]),
    (''ofst_chan_122_140'', [Txpwr_ofst Ofst_chan_122_140]),
    (''ofst_chan_142_165'', [Txpwr_ofst Ofst_chan_142_165]),
    (''ofst_2g4_11b_chan_1_4'', [Txpwr_ofst2x (Ofst2x_tbl_2g4 0 0)]),
    (''ofst_2g4_11b_chan_5_9'', [Txpwr_ofst2x (Ofst2x_tbl_2g4 0 1)]),
    (''ofst_2g4_11b_chan_10_13'', [Txpwr_ofst2x (Ofst2x_tbl_2g4 0 2)]),
    (''ofst_2g4_ofdm_highrate_chan_1_4'', [Txpwr_ofst2x (Ofst2x_tbl_2g4 1 0)]),
    (''ofst_2g4_ofdm_highrate_chan_5_9'', [Txpwr_ofst2x (Ofst2x_tbl_2g4 1 1)]),
    (''ofst_2g4_ofdm_highrate_chan_10_13'', [Txpwr_ofst2x (Ofst2x_tbl_2g4 1 2)]),
    (''ofst_2g4_ofdm_lowrate_chan_1_4'', [Txpwr_ofst2x (Ofst2x_tbl_2g4 2 0)]),
    (''ofst_2g4_ofdm_lowrate_chan_5_9'', [Txpwr_ofst2x (Ofst2x_tbl_2g4 2 1)]),
    (''ofst_2g4_ofdm_lowrate_chan_10_13'', [Txpwr_ofst2x (Ofst2x_tbl_2g4 2 2)]),
    (''ofst_5g_ofdm_lowrate_chan_42'', [Txpwr_ofst2x (Ofst2x_tbl_5g 0 0)]),
    (''ofst_5g_ofdm_lowrate_chan_58'', [Txpwr_ofst2x (Ofst2x_tbl_5g 0 1)]),
    (''ofst_5g_ofdm_lowrate_chan_106'', [Txpwr_ofst2x (Ofst2x_tbl_5g 0 2)]),
    (''ofst_5g_ofdm_lowrate_chan_122'', [Txpwr_ofst2x (Ofst2x_tbl_5g 0 3)]),
    (''ofst_5g_ofdm_lowrate_chan_138'', [Txpwr_ofst2x (Ofst2x_tbl_5g 0 4)]),
    (''ofst_5g_ofdm_lowrate_chan_155'', [Txpwr_ofst2x (Ofst2x_tbl_5g 0 5)]),
    (''ofst_5g_ofdm_highrate_chan_42'', [Txpwr_ofst2x (Ofst2x_tbl_5g 1 0)]),
    (''ofst_5g_ofdm_highrate_chan_58'', [Txpwr_ofst2x (Ofst2x_tbl_5g 1 1)]),
    (''ofst_5g_ofdm_highrate_chan_106'', [Txpwr_ofst2x (Ofst2x_tbl_5g 1 2)]),
    (''ofst_5g_ofdm_highrate_chan_122'', [Txpwr_ofst2x (Ofst2x_tbl_5g 1 3)]),
    (''ofst_5g_ofdm_highrate_chan_138'', [Txpwr_ofst2x (Ofst2x_tbl_5g 1 4)]),
    (''ofst_5g_ofdm_highrate_chan_155'', [Txpwr_ofst2x (Ofst2x_tbl_5g 1 5)]),
    (''ofst_5g_ofdm_midrate_chan_42'', [Txpwr_ofst2x (Ofst2x_tbl_5g 2 0)]),
    (''ofst_5g_ofdm_midrate_chan_58'', [Txpwr_ofst2x (Ofst2x_tbl_5g 2 1)]),
    (''ofst_5g_ofdm_midrate_chan_106'', [Txpwr_ofst2x (Ofst2x_tbl_5g 2 2)]),
    (''ofst_5g_ofdm_midrate_chan_122'', [Txpwr_ofst2x (Ofst2x_tbl_5g 2 3)]),
    (''ofst_5g_ofdm_midrate_chan_138'', [Txpwr_ofst2x (Ofst2x_tbl_5g 2 4)]),
    (''ofst_5g_ofdm_midrate_chan_155'', [Txpwr_ofst2x (Ofst2x_tbl_5g 2 5)]),
    (''xtal_enable'', [Xtal_cap Xtal_enable]),
    (''xtal_cap'', [Xtal_cap Xtal_xtal_cap]),
    (''xtal_cap_fine'', [Xtal_cap Xtal_xtal_cap_fine])]"

definition nvram_keys :: "(string \<times> userconfig_cell list) list" where
  "nvram_keys = nvram_lvl_keys @ nvram_lvl_2g4_keys @ nvram_lvl_5g_keys @ nvram_adj_loss_keys @ nvram_ofst_keys"

subsection \<open>The keys of the 8800D80X2\<close>

definition nvram_lvl_2g4_keys_8800d80x2 :: "(string \<times> userconfig_cell list) list" where
  "nvram_lvl_2g4_keys_8800d80x2 =
   [(''enable'', [Txpwr_lvl_v4 V4_enable]),
    (''lvl_11b_11ag_1m_2g4'', [Txpwr_lvl_v4 (V4_11b_11ag_2g4 0)]),
    (''lvl_11b_11ag_2m_2g4'', [Txpwr_lvl_v4 (V4_11b_11ag_2g4 1)]),
    (''lvl_11b_11ag_5m5_2g4'', [Txpwr_lvl_v4 (V4_11b_11ag_2g4 2)]),
    (''lvl_11b_11ag_11m_2g4'', [Txpwr_lvl_v4 (V4_11b_11ag_2g4 3)]),
    (''lvl_11b_11ag_6m_2g4'', [Txpwr_lvl_v4 (V4_11b_11ag_2g4 4)]),
    (''lvl_11b_11ag_9m_2g4'', [Txpwr_lvl_v4 (V4_11b_11ag_2g4 5)]),
    (''lvl_11b_11ag_12m_2g4'', [Txpwr_lvl_v4 (V4_11b_11ag_2g4 6)]),
    (''lvl_11b_11ag_18m_2g4'', [Txpwr_lvl_v4 (V4_11b_11ag_2g4 7)]),
    (''lvl_11b_11ag_24m_2g4'', [Txpwr_lvl_v4 (V4_11b_11ag_2g4 8)]),
    (''lvl_11b_11ag_36m_2g4'', [Txpwr_lvl_v4 (V4_11b_11ag_2g4 9)]),
    (''lvl_11b_11ag_48m_2g4'', [Txpwr_lvl_v4 (V4_11b_11ag_2g4 10)]),
    (''lvl_11b_11ag_54m_2g4'', [Txpwr_lvl_v4 (V4_11b_11ag_2g4 11)]),
    (''lvl_11n_11ac_mcs0_2g4'', [Txpwr_lvl_v4 (V4_11n_11ac_2g4 0)]),
    (''lvl_11n_11ac_mcs1_2g4'', [Txpwr_lvl_v4 (V4_11n_11ac_2g4 1)]),
    (''lvl_11n_11ac_mcs2_2g4'', [Txpwr_lvl_v4 (V4_11n_11ac_2g4 2)]),
    (''lvl_11n_11ac_mcs3_2g4'', [Txpwr_lvl_v4 (V4_11n_11ac_2g4 3)]),
    (''lvl_11n_11ac_mcs4_2g4'', [Txpwr_lvl_v4 (V4_11n_11ac_2g4 4)]),
    (''lvl_11n_11ac_mcs5_2g4'', [Txpwr_lvl_v4 (V4_11n_11ac_2g4 5)]),
    (''lvl_11n_11ac_mcs6_2g4'', [Txpwr_lvl_v4 (V4_11n_11ac_2g4 6)]),
    (''lvl_11n_11ac_mcs7_2g4'', [Txpwr_lvl_v4 (V4_11n_11ac_2g4 7)]),
    (''lvl_11n_11ac_mcs8_2g4'', [Txpwr_lvl_v4 (V4_11n_11ac_2g4 8)]),
    (''lvl_11n_11ac_mcs9_2g4'', [Txpwr_lvl_v4 (V4_11n_11ac_2g4 9)]),
    (''lvl_11ax_mcs0_2g4'', [Txpwr_lvl_v4 (V4_11ax_2g4 0)]),
    (''lvl_11ax_mcs1_2g4'', [Txpwr_lvl_v4 (V4_11ax_2g4 1)]),
    (''lvl_11ax_mcs2_2g4'', [Txpwr_lvl_v4 (V4_11ax_2g4 2)]),
    (''lvl_11ax_mcs3_2g4'', [Txpwr_lvl_v4 (V4_11ax_2g4 3)]),
    (''lvl_11ax_mcs4_2g4'', [Txpwr_lvl_v4 (V4_11ax_2g4 4)]),
    (''lvl_11ax_mcs5_2g4'', [Txpwr_lvl_v4 (V4_11ax_2g4 5)]),
    (''lvl_11ax_mcs6_2g4'', [Txpwr_lvl_v4 (V4_11ax_2g4 6)]),
    (''lvl_11ax_mcs7_2g4'', [Txpwr_lvl_v4 (V4_11ax_2g4 7)]),
    (''lvl_11ax_mcs8_2g4'', [Txpwr_lvl_v4 (V4_11ax_2g4 8)]),
    (''lvl_11ax_mcs9_2g4'', [Txpwr_lvl_v4 (V4_11ax_2g4 9)]),
    (''lvl_11ax_mcs10_2g4'', [Txpwr_lvl_v4 (V4_11ax_2g4 10)]),
    (''lvl_11ax_mcs11_2g4'', [Txpwr_lvl_v4 (V4_11ax_2g4 11)])]"

definition nvram_lvl_5g_keys_8800d80x2 :: "(string \<times> userconfig_cell list) list" where
  "nvram_lvl_5g_keys_8800d80x2 =
   [(''lvl_11a_6m_5g'', [Txpwr_lvl_v4 (V4_11a_5g 0)]),
    (''lvl_11a_9m_5g'', [Txpwr_lvl_v4 (V4_11a_5g 1)]),
    (''lvl_11a_12m_5g'', [Txpwr_lvl_v4 (V4_11a_5g 2)]),
    (''lvl_11a_18m_5g'', [Txpwr_lvl_v4 (V4_11a_5g 3)]),
    (''lvl_11a_24m_5g'', [Txpwr_lvl_v4 (V4_11a_5g 4)]),
    (''lvl_11a_36m_5g'', [Txpwr_lvl_v4 (V4_11a_5g 5)]),
    (''lvl_11a_48m_5g'', [Txpwr_lvl_v4 (V4_11a_5g 6)]),
    (''lvl_11a_54m_5g'', [Txpwr_lvl_v4 (V4_11a_5g 7)]),
    (''lvl_11n_11ac_mcs0_5g'', [Txpwr_lvl_v4 (V4_11n_11ac_5g 0)]),
    (''lvl_11n_11ac_mcs1_5g'', [Txpwr_lvl_v4 (V4_11n_11ac_5g 1)]),
    (''lvl_11n_11ac_mcs2_5g'', [Txpwr_lvl_v4 (V4_11n_11ac_5g 2)]),
    (''lvl_11n_11ac_mcs3_5g'', [Txpwr_lvl_v4 (V4_11n_11ac_5g 3)]),
    (''lvl_11n_11ac_mcs4_5g'', [Txpwr_lvl_v4 (V4_11n_11ac_5g 4)]),
    (''lvl_11n_11ac_mcs5_5g'', [Txpwr_lvl_v4 (V4_11n_11ac_5g 5)]),
    (''lvl_11n_11ac_mcs6_5g'', [Txpwr_lvl_v4 (V4_11n_11ac_5g 6)]),
    (''lvl_11n_11ac_mcs7_5g'', [Txpwr_lvl_v4 (V4_11n_11ac_5g 7)]),
    (''lvl_11n_11ac_mcs8_5g'', [Txpwr_lvl_v4 (V4_11n_11ac_5g 8)]),
    (''lvl_11n_11ac_mcs9_5g'', [Txpwr_lvl_v4 (V4_11n_11ac_5g 9)]),
    (''lvl_11ax_mcs0_5g'', [Txpwr_lvl_v4 (V4_11ax_5g 0)]),
    (''lvl_11ax_mcs1_5g'', [Txpwr_lvl_v4 (V4_11ax_5g 1)]),
    (''lvl_11ax_mcs2_5g'', [Txpwr_lvl_v4 (V4_11ax_5g 2)]),
    (''lvl_11ax_mcs3_5g'', [Txpwr_lvl_v4 (V4_11ax_5g 3)]),
    (''lvl_11ax_mcs4_5g'', [Txpwr_lvl_v4 (V4_11ax_5g 4)]),
    (''lvl_11ax_mcs5_5g'', [Txpwr_lvl_v4 (V4_11ax_5g 5)]),
    (''lvl_11ax_mcs6_5g'', [Txpwr_lvl_v4 (V4_11ax_5g 6)]),
    (''lvl_11ax_mcs7_5g'', [Txpwr_lvl_v4 (V4_11ax_5g 7)]),
    (''lvl_11ax_mcs8_5g'', [Txpwr_lvl_v4 (V4_11ax_5g 8)]),
    (''lvl_11ax_mcs9_5g'', [Txpwr_lvl_v4 (V4_11ax_5g 9)]),
    (''lvl_11ax_mcs10_5g'', [Txpwr_lvl_v4 (V4_11ax_5g 10)]),
    (''lvl_11ax_mcs11_5g'', [Txpwr_lvl_v4 (V4_11ax_5g 11)])]"

definition nvram_adj_loss_keys_8800d80x2 :: "(string \<times> userconfig_cell list) list" where
  "nvram_adj_loss_keys_8800d80x2 =
   [(''lvl_adj_enable'', [Txpwr_lvl_adj Adj_enable]),
    (''lvl_adj_2g4_chan_1_4'', [Txpwr_lvl_adj (Adj_adj_tbl_2g4 0)]),
    (''lvl_adj_2g4_chan_5_9'', [Txpwr_lvl_adj (Adj_adj_tbl_2g4 1)]),
    (''lvl_adj_2g4_chan_10_13'', [Txpwr_lvl_adj (Adj_adj_tbl_2g4 2)]),
    (''lvl_adj_5g_chan_42'', [Txpwr_lvl_adj (Adj_adj_tbl_5g 0)]),
    (''lvl_adj_5g_chan_58'', [Txpwr_lvl_adj (Adj_adj_tbl_5g 1)]),
    (''lvl_adj_5g_chan_106'', [Txpwr_lvl_adj (Adj_adj_tbl_5g 2)]),
    (''lvl_adj_5g_chan_122'', [Txpwr_lvl_adj (Adj_adj_tbl_5g 3)]),
    (''lvl_adj_5g_chan_138'', [Txpwr_lvl_adj (Adj_adj_tbl_5g 4)]),
    (''lvl_adj_5g_chan_155'', [Txpwr_lvl_adj (Adj_adj_tbl_5g 5)]),
    (''loss_enable_2g4'', [Txpwr_loss Loss_enable_2g4]),
    (''loss_value_2g4'', [Txpwr_loss Loss_value_2g4]),
    (''loss_enable_5g'', [Txpwr_loss Loss_enable_5g]),
    (''loss_value_5g'', [Txpwr_loss Loss_value_5g])]"

definition nvram_ofst_keys_8800d80x2 :: "(string \<times> userconfig_cell list) list" where
  "nvram_ofst_keys_8800d80x2 =
   [(''ofst_enable'', [Txpwr_ofst2x_v2 Ofst2x_v2_enable]),
    (''ofst_2g4_ant0_11b_chan_1_4'', [Txpwr_ofst2x_v2 (Ofst2x_v2_tbl_2g4_ant0 0 0)]),
    (''ofst_2g4_ant0_11b_chan_5_9'', [Txpwr_ofst2x_v2 (Ofst2x_v2_tbl_2g4_ant0 1 0)]),
    (''ofst_2g4_ant0_11b_chan_10_13'', [Txpwr_ofst2x_v2 (Ofst2x_v2_tbl_2g4_ant0 2 0)]),
    (''ofst_2g4_ant0_ofdm_highrate_chan_1_4'', [Txpwr_ofst2x_v2 (Ofst2x_v2_tbl_2g4_ant0 0 1)]),
    (''ofst_2g4_ant0_ofdm_highrate_chan_5_9'', [Txpwr_ofst2x_v2 (Ofst2x_v2_tbl_2g4_ant0 1 1)]),
    (''ofst_2g4_ant0_ofdm_highrate_chan_10_13'', [Txpwr_ofst2x_v2 (Ofst2x_v2_tbl_2g4_ant0 2 1)]),
    (''ofst_2g4_ant1_11b_chan_1_4'', [Txpwr_ofst2x_v2 (Ofst2x_v2_tbl_2g4_ant1 0 0)]),
    (''ofst_2g4_ant1_11b_chan_5_9'', [Txpwr_ofst2x_v2 (Ofst2x_v2_tbl_2g4_ant1 1 0)]),
    (''ofst_2g4_ant1_11b_chan_10_13'', [Txpwr_ofst2x_v2 (Ofst2x_v2_tbl_2g4_ant1 2 0)]),
    (''ofst_2g4_ant1_ofdm_highrate_chan_1_4'', [Txpwr_ofst2x_v2 (Ofst2x_v2_tbl_2g4_ant1 0 1)]),
    (''ofst_2g4_ant1_ofdm_highrate_chan_5_9'', [Txpwr_ofst2x_v2 (Ofst2x_v2_tbl_2g4_ant1 1 1)]),
    (''ofst_2g4_ant1_ofdm_highrate_chan_10_13'', [Txpwr_ofst2x_v2 (Ofst2x_v2_tbl_2g4_ant1 2 1)]),
    (''ofst_5g_ant0_ofdm_highrate_chan_42'', [Txpwr_ofst2x_v2 (Ofst2x_v2_tbl_5g_ant0 0 0)]),
    (''ofst_5g_ant0_ofdm_highrate_chan_58'', [Txpwr_ofst2x_v2 (Ofst2x_v2_tbl_5g_ant0 1 0)]),
    (''ofst_5g_ant0_ofdm_highrate_chan_106'', [Txpwr_ofst2x_v2 (Ofst2x_v2_tbl_5g_ant0 2 0)]),
    (''ofst_5g_ant0_ofdm_highrate_chan_122'', [Txpwr_ofst2x_v2 (Ofst2x_v2_tbl_5g_ant0 3 0)]),
    (''ofst_5g_ant0_ofdm_highrate_chan_138'', [Txpwr_ofst2x_v2 (Ofst2x_v2_tbl_5g_ant0 4 0)]),
    (''ofst_5g_ant0_ofdm_highrate_chan_155'', [Txpwr_ofst2x_v2 (Ofst2x_v2_tbl_5g_ant0 5 0)]),
    (''ofst_5g_ant1_ofdm_highrate_chan_42'', [Txpwr_ofst2x_v2 (Ofst2x_v2_tbl_5g_ant1 0 0)]),
    (''ofst_5g_ant1_ofdm_highrate_chan_58'', [Txpwr_ofst2x_v2 (Ofst2x_v2_tbl_5g_ant1 1 0)]),
    (''ofst_5g_ant1_ofdm_highrate_chan_106'', [Txpwr_ofst2x_v2 (Ofst2x_v2_tbl_5g_ant1 2 0)]),
    (''ofst_5g_ant1_ofdm_highrate_chan_122'', [Txpwr_ofst2x_v2 (Ofst2x_v2_tbl_5g_ant1 3 0)]),
    (''ofst_5g_ant1_ofdm_highrate_chan_138'', [Txpwr_ofst2x_v2 (Ofst2x_v2_tbl_5g_ant1 4 0)]),
    (''ofst_5g_ant1_ofdm_highrate_chan_155'', [Txpwr_ofst2x_v2 (Ofst2x_v2_tbl_5g_ant1 5 0)]),
    (''xtal_enable'', [Xtal_cap Xtal_enable]),
    (''xtal_cap'', [Xtal_cap Xtal_xtal_cap]),
    (''xtal_cap_fine'', [Xtal_cap Xtal_xtal_cap_fine])]"
definition nvram_keys_8800d80x2 :: "(string \<times> userconfig_cell list) list" where
  "nvram_keys_8800d80x2 =
     nvram_lvl_2g4_keys_8800d80x2 @ nvram_lvl_5g_keys_8800d80x2 @ nvram_adj_loss_keys_8800d80x2 @
     nvram_ofst_keys_8800d80x2"

subsection \<open>Numbers\<close>

text \<open>A C string is the text before its terminator.  The result wraps as \<open>int\<close> does in the kernel.\<close>

fun atoi_loop :: "32 word \<Rightarrow> string \<Rightarrow> 32 word" where
  "atoi_loop result [] = result"
| "atoi_loop result (c # cs) =
     (if 48 \<le> (of_char c :: nat) \<and> (of_char c :: nat) \<le> 57 then atoi_loop (result * 10 + of_nat (of_char c - 48)) cs
      else 0)"

definition rwnx_atoi :: "string \<Rightarrow> 32 word" where
  "rwnx_atoi value = (if value \<noteq> [] \<and> hd value = CHR ''-'' then - atoi_loop 0 (tl value) else atoi_loop 0 value)"

text \<open>\<open>rwnx_atoi2\<close> reads a given number of characters of the memory at \<open>value\<close>.\<close>

definition rwnx_atoi2 :: "(nat \<Rightarrow> char) \<Rightarrow> nat \<Rightarrow> 32 word" where
  "rwnx_atoi2 value c_len =
     (if value 0 = CHR ''-'' then - atoi_loop 0 (map (\<lambda>i. value (i + 1)) [0..<c_len])
      else atoi_loop 0 (map value [0..<c_len]))"

subsection \<open>Setting a value\<close>

definition set_cells :: "userconfig_cell list \<Rightarrow> string \<Rightarrow> userconfig_info \<Rightarrow> userconfig_info" where
  "set_cells cells value u = fold (\<lambda>c. cell_put c (ucast (rwnx_atoi value))) cells u"

definition set_by_table :: "(string \<times> userconfig_cell list) list \<Rightarrow> string \<Rightarrow> string \<Rightarrow> userconfig_info \<Rightarrow> userconfig_info" where
  "set_by_table keys command value u =
     (case map_of keys command of None \<Rightarrow> u | Some cells \<Rightarrow> set_cells cells value u)"

definition rwnx_plat_nvram_set_value :: "string \<Rightarrow> string \<Rightarrow> userconfig_info \<Rightarrow> userconfig_info" where
  "rwnx_plat_nvram_set_value = set_by_table nvram_keys"

definition rwnx_plat_nvram_set_value_8800d80x2 :: "string \<Rightarrow> string \<Rightarrow> userconfig_info \<Rightarrow> userconfig_info" where
  "rwnx_plat_nvram_set_value_8800d80x2 = set_by_table nvram_keys_8800d80x2"

subsection \<open>Reading and the antenna loss\<close>

definition get_userconfig_txpwr_lvl_in_fdrv :: "userconfig_info \<Rightarrow> txpwr_lvl_conf" where
  "get_userconfig_txpwr_lvl_in_fdrv u = uc_txpwr_lvl u"

definition get_userconfig_txpwr_loss :: "userconfig_info \<Rightarrow> txpwr_loss_conf" where
  "get_userconfig_txpwr_loss u = uc_txpwr_loss u"

definition set_txpwr_loss_ofst :: "u8 \<Rightarrow> userconfig_info \<Rightarrow> userconfig_info" where
  "set_txpwr_loss_ofst value u =
     u\<lparr>uc_txpwr_loss := \<lparr>loss_enable_2g4 = 1, loss_value_2g4 = - value, loss_enable_5g = 1, loss_value_5g = - value\<rparr>\<rparr>"

section \<open>Properties\<close>

subsection \<open>Fields and elements are independent\<close>

text \<open>What a structure with addressable cells promises: a cell that exists holds what was written,
  and the others are as before.\<close>

locale cell_store =
  fixes get :: "'c \<Rightarrow> 'r \<Rightarrow> 'v"
    and put :: "'c \<Rightarrow> 'v \<Rightarrow> 'r \<Rightarrow> 'r"
    and ok :: "'r \<Rightarrow> bool"
    and within :: "'c \<Rightarrow> bool"
  assumes get_put: "ok r \<Longrightarrow> within c \<Longrightarrow> get c (put c v r) = v"
    and get_put_other: "c \<noteq> d \<Longrightarrow> get d (put c v r) = get d r"
    and ok_put: "ok r \<Longrightarrow> ok (put c v r)"
begin

lemma put_all:
  assumes "ok r" and "\<forall>c\<in>set cs. within c"
  shows "ok (fold (\<lambda>c. put c v) cs r) \<and>
     (\<forall>d. get d (fold (\<lambda>c. put c v) cs r) = (if d \<in> set cs then v else get d r))"
  using assms
proof (induction cs arbitrary: r)
  case (Cons c cs)
  then show ?case using Cons.IH [of "put c v r"] get_put [of r c v] get_put_other [of c _ v r] ok_put [of r c v] by auto
qed simp

end

definition matrix :: "nat \<Rightarrow> nat \<Rightarrow> u8 list list \<Rightarrow> bool" where
  "matrix m n xs \<longleftrightarrow> length xs = m \<and> (\<forall>row\<in>set xs. length row = n)"

lemma matrix_put [simp]: "matrix m n xs \<Longrightarrow> matrix m n (xs[i := (xs ! i)[j := v]])"
  by (cases "i < length xs")
    (auto simp: matrix_def list_update_beyond dest!: set_update_subset_insert [THEN subsetD])

lemma matrix_get:
  "matrix m n xs \<Longrightarrow> i < m \<Longrightarrow> j < n \<Longrightarrow> xs[i := (xs ! i)[j := v]] ! i ! j = v"
  by (simp add: matrix_def)

lemma nth_put_other [simp]:
  "i \<noteq> j \<Longrightarrow> (xs[i := v]) ! j = xs ! j"
  by simp

lemma matrix_get_other:
  "i = k \<longrightarrow> j \<noteq> l \<Longrightarrow> xs[i := (xs ! i)[j := v]] ! k ! l = xs ! k ! l"
  by (cases "i < length xs") (auto simp: nth_list_update list_update_beyond)

lemma matrix_other [simp]:
  "i \<noteq> k \<Longrightarrow> xs[i := (xs ! i)[j := v]] ! k ! l = xs ! k ! l"
  "j \<noteq> l \<Longrightarrow> xs[i := (xs ! i)[j := v]] ! k ! l = xs ! k ! l"
  by (simp_all add: matrix_get_other)

definition v2_ok :: "txpwr_lvl_conf_v2 \<Rightarrow> bool" where
  "v2_ok r \<longleftrightarrow> length (v2_11b_11ag_2g4 r) = 12 \<and> length (v2_11n_11ac_2g4 r) = 10 \<and> length (v2_11ax_2g4 r) = 12"

definition v3_ok :: "txpwr_lvl_conf_v3 \<Rightarrow> bool" where
  "v3_ok r \<longleftrightarrow>
     length (v3_11b_11ag_2g4 r) = 12 \<and> length (v3_11n_11ac_2g4 r) = 10 \<and> length (v3_11ax_2g4 r) = 12 \<and>
     length (v3_11a_5g r) = 12 \<and> length (v3_11n_11ac_5g r) = 10 \<and> length (v3_11ax_5g r) = 12"

definition v4_ok :: "txpwr_lvl_conf_v4 \<Rightarrow> bool" where
  "v4_ok r \<longleftrightarrow>
     length (v4_11b_11ag_2g4 r) = 12 \<and> length (v4_11n_11ac_2g4 r) = 10 \<and> length (v4_11ax_2g4 r) = 12 \<and>
     length (v4_11a_5g r) = 8 \<and> length (v4_11n_11ac_5g r) = 10 \<and> length (v4_11ax_5g r) = 12 \<and>
     length (v4_11a_6g r) = 8 \<and> length (v4_11n_11ac_6g r) = 10 \<and> length (v4_11ax_6g r) = 12"

definition adj_ok :: "txpwr_lvl_adj_conf \<Rightarrow> bool" where
  "adj_ok r \<longleftrightarrow> length (adj_adj_tbl_2g4 r) = 3 \<and> length (adj_adj_tbl_5g r) = 6"

definition ofst2x_ok :: "txpwr_ofst2x_conf \<Rightarrow> bool" where
  "ofst2x_ok r \<longleftrightarrow> matrix 3 3 (ofst2x_tbl_2g4 r) \<and> matrix 3 6 (ofst2x_tbl_5g r)"

definition ofst2x_v2_ok :: "txpwr_ofst2x_conf_v2 \<Rightarrow> bool" where
  "ofst2x_v2_ok r \<longleftrightarrow>
     matrix 3 3 (ofst2x_v2_tbl_2g4_ant0 r) \<and> matrix 3 3 (ofst2x_v2_tbl_2g4_ant1 r) \<and>
     matrix 6 3 (ofst2x_v2_tbl_5g_ant0 r) \<and> matrix 6 3 (ofst2x_v2_tbl_5g_ant1 r) \<and>
     length (ofst2x_v2_tbl_6g_ant0 r) = 15 \<and> length (ofst2x_v2_tbl_6g_ant1 r) = 15"

interpretation lvl: cell_store lvl_get lvl_put "\<lambda>_. True" lvl_in
proof unfold_locales
  fix c d :: lvl_cell and r v
  show "lvl_in c \<Longrightarrow> lvl_get c (lvl_put c v r) = v" by (cases c) simp_all
  show "c \<noteq> d \<Longrightarrow> lvl_get d (lvl_put c v r) = lvl_get d r" by (cases c; cases d) simp_all
qed simp

interpretation v2: cell_store v2_get v2_put v2_ok v2_in
proof unfold_locales
  fix c d :: v2_cell and r v
  show "v2_ok r \<Longrightarrow> v2_in c \<Longrightarrow> v2_get c (v2_put c v r) = v" by (cases c) (simp_all add: v2_ok_def)
  show "c \<noteq> d \<Longrightarrow> v2_get d (v2_put c v r) = v2_get d r" by (cases c; cases d) simp_all
  show "v2_ok r \<Longrightarrow> v2_ok (v2_put c v r)" by (cases c) (simp_all add: v2_ok_def)
qed

interpretation v3: cell_store v3_get v3_put v3_ok v3_in
proof unfold_locales
  fix c d :: v3_cell and r v
  show "v3_ok r \<Longrightarrow> v3_in c \<Longrightarrow> v3_get c (v3_put c v r) = v" by (cases c) (simp_all add: v3_ok_def)
  show "c \<noteq> d \<Longrightarrow> v3_get d (v3_put c v r) = v3_get d r" by (cases c; cases d) simp_all
  show "v3_ok r \<Longrightarrow> v3_ok (v3_put c v r)" by (cases c) (simp_all add: v3_ok_def)
qed

interpretation v4: cell_store v4_get v4_put v4_ok v4_in
proof unfold_locales
  fix c d :: v4_cell and r v
  show "v4_ok r \<Longrightarrow> v4_in c \<Longrightarrow> v4_get c (v4_put c v r) = v" by (cases c) (simp_all add: v4_ok_def)
  show "c \<noteq> d \<Longrightarrow> v4_get d (v4_put c v r) = v4_get d r" by (cases c; cases d) simp_all
  show "v4_ok r \<Longrightarrow> v4_ok (v4_put c v r)" by (cases c) (simp_all add: v4_ok_def)
qed

interpretation adj: cell_store adj_get adj_put adj_ok adj_in
proof unfold_locales
  fix c d :: adj_cell and r v
  show "adj_ok r \<Longrightarrow> adj_in c \<Longrightarrow> adj_get c (adj_put c v r) = v" by (cases c) (simp_all add: adj_ok_def)
  show "c \<noteq> d \<Longrightarrow> adj_get d (adj_put c v r) = adj_get d r" by (cases c; cases d) simp_all
  show "adj_ok r \<Longrightarrow> adj_ok (adj_put c v r)" by (cases c) (simp_all add: adj_ok_def)
qed

interpretation loss: cell_store loss_get loss_put "\<lambda>_. True" loss_in
proof unfold_locales
  fix c d :: loss_cell and r v
  show "loss_in c \<Longrightarrow> loss_get c (loss_put c v r) = v" by (cases c) simp_all
  show "c \<noteq> d \<Longrightarrow> loss_get d (loss_put c v r) = loss_get d r" by (cases c; cases d) simp_all
qed simp

interpretation ofst: cell_store ofst_get ofst_put "\<lambda>_. True" ofst_in
proof unfold_locales
  fix c d :: ofst_cell and r v
  show "ofst_in c \<Longrightarrow> ofst_get c (ofst_put c v r) = v" by (cases c) simp_all
  show "c \<noteq> d \<Longrightarrow> ofst_get d (ofst_put c v r) = ofst_get d r" by (cases c; cases d) simp_all
qed simp

interpretation ofst2x: cell_store ofst2x_get ofst2x_put ofst2x_ok ofst2x_in
proof unfold_locales
  fix c d :: ofst2x_cell and r v
  show "ofst2x_ok r \<Longrightarrow> ofst2x_in c \<Longrightarrow> ofst2x_get c (ofst2x_put c v r) = v"
    by (cases c) (auto simp: ofst2x_ok_def intro: matrix_get)
  show "c \<noteq> d \<Longrightarrow> ofst2x_get d (ofst2x_put c v r) = ofst2x_get d r"
    by (cases c; cases d) (auto simp: matrix_get_other)
  show "ofst2x_ok r \<Longrightarrow> ofst2x_ok (ofst2x_put c v r)" by (cases c) (simp_all add: ofst2x_ok_def)
qed

interpretation ofst2x_v2: cell_store ofst2x_v2_get ofst2x_v2_put ofst2x_v2_ok ofst2x_v2_in
proof unfold_locales
  fix c d :: ofst2x_v2_cell and r v
  show "ofst2x_v2_ok r \<Longrightarrow> ofst2x_v2_in c \<Longrightarrow> ofst2x_v2_get c (ofst2x_v2_put c v r) = v"
    by (cases c) (auto simp: ofst2x_v2_ok_def intro: matrix_get)
  show "c \<noteq> d \<Longrightarrow> ofst2x_v2_get d (ofst2x_v2_put c v r) = ofst2x_v2_get d r"
    by (cases c; cases d) (auto simp: matrix_get_other)
  show "ofst2x_v2_ok r \<Longrightarrow> ofst2x_v2_ok (ofst2x_v2_put c v r)" by (cases c) (simp_all add: ofst2x_v2_ok_def)
qed

interpretation xtal: cell_store xtal_get xtal_put "\<lambda>_. True" xtal_in
proof unfold_locales
  fix c d :: xtal_cell and r v
  show "xtal_in c \<Longrightarrow> xtal_get c (xtal_put c v r) = v" by (cases c) simp_all
  show "c \<noteq> d \<Longrightarrow> xtal_get d (xtal_put c v r) = xtal_get d r" by (cases c; cases d) simp_all
qed simp

definition userconfig_ok :: "userconfig_info \<Rightarrow> bool" where
  "userconfig_ok u \<longleftrightarrow>
     v2_ok (uc_txpwr_lvl_v2 u) \<and> v3_ok (uc_txpwr_lvl_v3 u) \<and> v4_ok (uc_txpwr_lvl_v4 u) \<and>
     adj_ok (uc_txpwr_lvl_adj u) \<and> ofst2x_ok (uc_txpwr_ofst2x u) \<and> ofst2x_v2_ok (uc_txpwr_ofst2x_v2 u)"

lemmas struct_get_put = lvl.get_put v2.get_put v3.get_put v4.get_put adj.get_put loss.get_put ofst.get_put
  ofst2x.get_put ofst2x_v2.get_put xtal.get_put
lemmas struct_get_put_other = lvl.get_put_other v2.get_put_other v3.get_put_other v4.get_put_other
  adj.get_put_other loss.get_put_other ofst.get_put_other ofst2x.get_put_other ofst2x_v2.get_put_other xtal.get_put_other
lemmas struct_ok_put = v2.ok_put v3.ok_put v4.ok_put adj.ok_put ofst2x.ok_put ofst2x_v2.ok_put

interpretation uc: cell_store cell_get cell_put userconfig_ok cell_in
proof unfold_locales
  fix c d :: userconfig_cell and r v
  show "userconfig_ok r \<Longrightarrow> cell_in c \<Longrightarrow> cell_get c (cell_put c v r) = v"
    by (cases c) (simp_all add: userconfig_ok_def struct_get_put)
  show "c \<noteq> d \<Longrightarrow> cell_get d (cell_put c v r) = cell_get d r"
    by (cases c; cases d) (simp_all add: struct_get_put_other)
  show "userconfig_ok r \<Longrightarrow> userconfig_ok (cell_put c v r)"
    by (cases c) (simp_all add: userconfig_ok_def struct_ok_put)
qed

lemma userconfig_init_ok: "userconfig_ok userconfig_init"
  by (simp add: userconfig_ok_def userconfig_init_def v2_ok_def v3_ok_def v4_ok_def adj_ok_def ofst2x_ok_def
      ofst2x_v2_ok_def matrix_def)

subsection \<open>The tables of keys\<close>

lemmas nvram_tables = nvram_keys_def nvram_lvl_keys_def nvram_lvl_2g4_keys_def nvram_lvl_5g_keys_def
  nvram_adj_loss_keys_def nvram_ofst_keys_def
lemmas nvram_tables_8800d80x2 = nvram_keys_8800d80x2_def nvram_lvl_2g4_keys_8800d80x2_def
  nvram_lvl_5g_keys_8800d80x2_def nvram_adj_loss_keys_8800d80x2_def nvram_ofst_keys_8800d80x2_def

definition keys_ok :: "(string \<times> userconfig_cell list) list \<Rightarrow> bool" where
  "keys_ok keys \<longleftrightarrow>
     distinct (map fst keys) \<and> distinct (concat (map snd keys)) \<and> list_all cell_in (concat (map snd keys))"

lemma nvram_keys_ok: "keys_ok nvram_keys"
proof -
  have "distinct (map fst nvram_keys)" by (simp add: nvram_tables)
  moreover have "distinct (concat (map snd nvram_keys))" by (simp add: nvram_tables)
  moreover have "list_all cell_in (concat (map snd nvram_keys))" by (simp add: nvram_tables)
  ultimately show ?thesis by (simp add: keys_ok_def)
qed

lemma nvram_keys_8800d80x2_ok: "keys_ok nvram_keys_8800d80x2"
proof -
  have "distinct (map fst nvram_keys_8800d80x2)" by (simp add: nvram_tables_8800d80x2)
  moreover have "distinct (concat (map snd nvram_keys_8800d80x2))" by (simp add: nvram_tables_8800d80x2)
  moreover have "list_all cell_in (concat (map snd nvram_keys_8800d80x2))" by (simp add: nvram_tables_8800d80x2)
  ultimately show ?thesis by (simp add: keys_ok_def)
qed

lemma set_by_table_effect:
  assumes "keys_ok keys" and "userconfig_ok u"
  shows "userconfig_ok (set_by_table keys command value u)"
    and "(command, cells) \<in> set keys \<Longrightarrow>
       cell_get c (set_by_table keys command value u) = (if c \<in> set cells then ucast (rwnx_atoi value) else cell_get c u)"
    and "command \<notin> fst ` set keys \<Longrightarrow> set_by_table keys command value u = u"
proof -
  have within: "\<forall>c\<in>set cells. cell_in c" if "(command, cells) \<in> set keys" for cells
    using assms(1) that by (auto simp: keys_ok_def list_all_iff)
  show "userconfig_ok (set_by_table keys command value u)"
    using assms(2) within by (auto simp: set_by_table_def set_cells_def uc.put_all dest: map_of_SomeD split: option.splits)
  show "(command, cells) \<in> set keys \<Longrightarrow>
     cell_get c (set_by_table keys command value u) = (if c \<in> set cells then ucast (rwnx_atoi value) else cell_get c u)"
    using assms within by (simp add: set_by_table_def set_cells_def keys_ok_def uc.put_all)
  show "command \<notin> fst ` set keys \<Longrightarrow> set_by_table keys command value u = u"
    by (simp add: set_by_table_def map_of_eq_None_iff [symmetric])
qed

text \<open>C23: A setting writes the number of its value to the fields and elements of its key, all of which
  exist, and nothing else; an unknown key changes nothing.  Different keys never write to the
  same place, so the order of the settings of a file does not matter.  This holds for the keys
  of both chip families.\<close>

theorem nvram_set_value_effect:
  assumes "(set_value, keys) \<in> {(rwnx_plat_nvram_set_value, nvram_keys),
      (rwnx_plat_nvram_set_value_8800d80x2, nvram_keys_8800d80x2)}" and "userconfig_ok u"
  shows "userconfig_ok (set_value command value u) \<and>
     (\<forall>cells c. (command, cells) \<in> set keys \<longrightarrow>
        cell_get c (set_value command value u) = (if c \<in> set cells then ucast (rwnx_atoi value) else cell_get c u) \<and>
        (c \<in> set cells \<longrightarrow> cell_in c)) \<and>
     (command \<notin> fst ` set keys \<longrightarrow> set_value command value u = u) \<and>
     (\<forall>k1 cells1 k2 cells2. (k1, cells1) \<in> set keys \<and> (k2, cells2) \<in> set keys \<and> k1 \<noteq> k2 \<longrightarrow>
        set cells1 \<inter> set cells2 = {})"
proof -
  have sv: "set_value = set_by_table keys" and ok: "keys_ok keys"
    using assms(1) nvram_keys_ok nvram_keys_8800d80x2_ok
    by (auto simp: rwnx_plat_nvram_set_value_def rwnx_plat_nvram_set_value_8800d80x2_def)
  have dis: "distinct (concat (map snd ks)) \<Longrightarrow> (k1, cells1) \<in> set ks \<Longrightarrow> (k2, cells2) \<in> set ks \<Longrightarrow> k1 \<noteq> k2 \<Longrightarrow>
     set cells1 \<inter> set cells2 = {}" for ks :: "(string \<times> userconfig_cell list) list" and k1 k2 cells1 cells2
    by (induction ks) fastforce+
  have "distinct (concat (map snd keys))" "\<forall>cells c. (command, cells) \<in> set keys \<longrightarrow> c \<in> set cells \<longrightarrow> cell_in c"
    using ok by (auto simp: keys_ok_def list_all_iff)
  then show ?thesis
    unfolding sv using set_by_table_effect [OF ok assms(2)] dis by blast
qed

lemma nvram_set_value_effect_witness:
  "cell_get (Txpwr_lvl_v4 (V4_11ax_5g 11)) (rwnx_plat_nvram_set_value_8800d80x2 ''lvl_11ax_mcs11_5g'' ''-2'' userconfig_init) = - 2 \<and>
   cell_get (Txpwr_lvl_v4 (V4_11ax_5g 10)) (rwnx_plat_nvram_set_value_8800d80x2 ''lvl_11ax_mcs11_5g'' ''-2'' userconfig_init) = 14"
proof -
  have row: "(''lvl_11ax_mcs11_5g'', [Txpwr_lvl_v4 (V4_11ax_5g 11)]) \<in> set nvram_keys_8800d80x2"
    by (simp add: nvram_tables_8800d80x2)
  have "rwnx_atoi ''-2'' = - 2" by (simp add: rwnx_atoi_def)
  moreover have "cell_get (Txpwr_lvl_v4 (V4_11ax_5g 10)) userconfig_init = 14" by (simp add: userconfig_init_def)
  ultimately show ?thesis
    using nvram_set_value_effect [OF insertI2 [OF singletonI] userconfig_init_ok,
        of "''lvl_11ax_mcs11_5g''" "''-2''"] row
    by (auto simp del: cell_get.simps)
qed

subsection \<open>The number parser\<close>

definition is_digit :: "char \<Rightarrow> bool" where
  "is_digit c \<longleftrightarrow> 48 \<le> (of_char c :: nat) \<and> (of_char c :: nat) \<le> 57"

fun number_of :: "nat \<Rightarrow> string \<Rightarrow> nat" where
  "number_of n [] = n"
| "number_of n (c # cs) = number_of (n * 10 + (of_char c - 48)) cs"

fun decimal :: "nat \<Rightarrow> string" where
  "decimal n = (if n < 10 then [char_of (48 + n)] else decimal (n div 10) @ [char_of (48 + n mod 10)])"

declare decimal.simps [simp del]

lemma atoi_loop_digits:
  "atoi_loop (of_nat n) s = (if \<forall>c\<in>set s. is_digit c then of_nat (number_of n s) else 0)"
proof (induction s arbitrary: n)
  case (Cons c cs)
  show ?case
  proof (cases "is_digit c")
    case True
    have "(of_nat n :: 32 word) * 10 + of_nat (of_char c - 48) = of_nat (n * 10 + (of_char c - 48))" by simp
    then have "atoi_loop (of_nat n) (c # cs) = atoi_loop (of_nat (n * 10 + (of_char c - 48))) cs"
      using True by (simp only: atoi_loop.simps is_digit_def simp_thms if_True)
    then show ?thesis using Cons.IH True by (simp only: number_of.simps list.set ball_simps) simp
  qed (auto simp: is_digit_def)
qed simp

lemma digit_char: "k < 10 \<Longrightarrow> of_char (char_of (48 + k)) = 48 + k" for k :: nat
  by simp

lemma decimal_digits: "c \<in> set (decimal n) \<Longrightarrow> is_digit c"
proof (induction n rule: decimal.induct)
  case (1 n)
  then show ?case
    by (subst (asm) (2) decimal.simps) (auto simp: is_digit_def split: if_splits)
qed

lemma number_of_append: "number_of n (s @ [c]) = number_of n s * 10 + (of_char c - 48)"
  by (induction s arbitrary: n) simp_all

lemma number_of_decimal: "number_of 0 (decimal n) = n"
proof (induction n rule: decimal.induct)
  case (1 n)
  show ?case
  proof (cases "n < 10")
    case True
    then show ?thesis by (subst decimal.simps) simp
  next
    case False
    then show ?thesis using 1 by (subst decimal.simps) (simp add: number_of_append)
  qed
qed

lemma decimal_not_empty: "decimal n \<noteq> []"
  by (subst decimal.simps) simp

lemma minus_no_digit: "\<not> is_digit CHR ''-''"
  by (simp add: is_digit_def)

text \<open>Reading a decimal number back: the digits of any number, also with a sign, give the number
  modulo \<open>2 ^ 32\<close>, exactly when it fits an \<open>int\<close>; a text with any other character gives 0.\<close>

lemma rwnx_atoi_roundtrip:
  fixes n :: nat
  shows "rwnx_atoi (decimal n) = of_nat n \<and> rwnx_atoi (CHR ''-'' # decimal n) = - of_nat n \<and>
     (n < 2 ^ 31 \<longrightarrow> sint (rwnx_atoi (decimal n)) = int n \<and> sint (rwnx_atoi (CHR ''-'' # decimal n)) = - int n) \<and>
     ((\<exists>c\<in>set s. \<not> is_digit c \<and> c \<noteq> CHR ''-'') \<longrightarrow> rwnx_atoi s = 0) \<and>
     rwnx_atoi (d # s @ CHR ''-'' # t) = 0"
proof -
  have pos: "rwnx_atoi (decimal n) = of_nat n"
    using decimal_digits [of _ n] atoi_loop_digits [of 0 "decimal n"] hd_in_set [OF decimal_not_empty [of n]] minus_no_digit
    by (auto simp: rwnx_atoi_def number_of_decimal)
  have neg: "rwnx_atoi (CHR ''-'' # decimal n) = - of_nat n"
    using decimal_digits [of _ n] atoi_loop_digits [of 0 "decimal n"]
    by (auto simp: rwnx_atoi_def number_of_decimal)
  moreover have "n < 2 ^ 31 \<Longrightarrow> sint (rwnx_atoi (decimal n)) = int n \<and> sint (rwnx_atoi (CHR ''-'' # decimal n)) = - int n"
  proof -
    assume n: "n < 2 ^ 31"
    have "sint (of_int i :: 32 word) = i" if "- (2 ^ 31) \<le> i" "i < 2 ^ 31" for i
      using that by (simp add: signed_of_int signed_take_bit_int_eq_self)
    from this [of "int n"] this [of "- int n"] show ?thesis using n pos neg by simp
  qed
  moreover have "rwnx_atoi s = 0" if "c \<in> set s" "\<not> is_digit c" "c \<noteq> CHR ''-''" for c
    using that atoi_loop_digits [of 0 s] atoi_loop_digits [of 0 "tl s"] by (cases s) (auto simp: rwnx_atoi_def)
  moreover have "rwnx_atoi (d # s @ CHR ''-'' # t) = 0"
    using atoi_loop_digits [of 0 "d # s @ CHR ''-'' # t"] atoi_loop_digits [of 0 "s @ CHR ''-'' # t"] minus_no_digit
    by (auto simp: rwnx_atoi_def)
  ultimately show ?thesis using pos by blast
qed

lemma rwnx_atoi_roundtrip_witness:
  "sint (rwnx_atoi (CHR ''-'' # decimal 42)) = - 42 \<and> rwnx_atoi ''12x'' = 0"
  using rwnx_atoi_roundtrip [of 42 "''12x''"] by (simp add: is_digit_def)

end
