(* ===== verification/UserConfigFile.thy ===== *)
theory UserConfigFile imports UserConfig begin

section \<open>The user configuration file\<close>

text \<open>
  The parser of the configuration file (\<open>rwnx_plat_userconfig_parsing\<close> and its copy for the
  8800D80X2, which differ in the size of the command buffer and in the table of keys).  The two
  buffers on the stack keep their sizes: a write or a read of a string past their end is the
  result \<open>None\<close>.
\<close>

subsection \<open>State\<close>

datatype parse_state = INIT | CMD | PRINT | GET_VALUE

record parser =
  ps_state :: parse_state
  ps_command :: string
  ps_value :: string
  char_counter :: nat
  ps_config :: userconfig_info

definition put_char :: "nat \<Rightarrow> char \<Rightarrow> string \<Rightarrow> string option" where
  "put_char i c buf = (if i < length buf then Some (buf[i := c]) else None)"

definition c_string :: "string \<Rightarrow> string option" where
  "c_string buf = (if CHR 0x00 \<in> set buf then Some (takeWhile (\<lambda>c. c \<noteq> CHR 0x00) buf) else None)"

definition clear :: "nat \<Rightarrow> string \<Rightarrow> string" where
  "clear n buf = replicate n (CHR 0x00) @ List.drop n buf"

definition is_eol :: "char \<Rightarrow> bool" where
  "is_eol c \<longleftrightarrow> c = CHR 0x0A \<or> c = CHR 0x0D"

subsection \<open>One character\<close>

text \<open>The end of a line: the setting (or the comment, which is printed) is used, and the buffers are
  cleared.\<close>

definition end_line :: "(string \<Rightarrow> string \<Rightarrow> userconfig_info \<Rightarrow> userconfig_info) \<Rightarrow> parser \<Rightarrow> parser option" where
  "end_line set_value p =
     (let reset = (\<lambda>u. p\<lparr>ps_state := INIT, ps_command := clear 64 (ps_command p), ps_value := clear 100 (ps_value p),
                        char_counter := 0, ps_config := u\<rparr>)
      in if ps_command p ! 0 \<noteq> CHR 0x00 \<and> ps_value p ! 0 \<noteq> CHR 0x00 then
           (if ps_state p = PRINT then
              (case c_string (ps_value p) of None \<Rightarrow> None | Some _ \<Rightarrow> Some (reset (ps_config p)))
            else if ps_state p = GET_VALUE then
              (case c_string (ps_command p) of None \<Rightarrow> None
               | Some command \<Rightarrow>
                   (case c_string (ps_value p) of None \<Rightarrow> None
                    | Some value \<Rightarrow> Some (reset (set_value command value (ps_config p)))))
            else Some (reset (ps_config p)))
         else Some (reset (ps_config p)))"

definition store_command :: "char \<Rightarrow> parser \<Rightarrow> parser option" where
  "store_command c p =
     map_option (\<lambda>buf. p\<lparr>ps_command := buf, char_counter := char_counter p + 1\<rparr>) (put_char (char_counter p) c (ps_command p))"

definition store_value :: "char \<Rightarrow> parser \<Rightarrow> parser option" where
  "store_value c p =
     map_option (\<lambda>buf. p\<lparr>ps_value := buf, char_counter := char_counter p + 1\<rparr>) (put_char (char_counter p) c (ps_value p))"

definition in_number :: "char \<Rightarrow> bool" where
  "in_number c \<longleftrightarrow> c = CHR 0x2D \<or> 48 \<le> (of_char c :: nat) \<and> (of_char c :: nat) \<le> 57"

definition parse_char :: "(string \<Rightarrow> string \<Rightarrow> userconfig_info \<Rightarrow> userconfig_info) \<Rightarrow> char \<Rightarrow> parser \<Rightarrow> parser option" where
  "parse_char set_value c p =
     (if is_eol c then end_line set_value p
      else if ps_state p = INIT \<and> c = CHR ''#'' then Some (p\<lparr>ps_state := PRINT\<rparr>)
      else
        (let p1 = (if ps_state p = INIT then p\<lparr>ps_state := CMD\<rparr> else p)
         in case ps_state p1 of
              PRINT \<Rightarrow> store_value c (p1\<lparr>ps_command := (ps_command p1)[0 := CHR 0x01]\<rparr>)
            | CMD \<Rightarrow>
                (if ps_command p1 ! 0 \<noteq> CHR 0x00 \<and> c = CHR ''='' then Some (p1\<lparr>ps_state := GET_VALUE, char_counter := 0\<rparr>)
                 else store_command c p1)
            | _ \<Rightarrow> (if in_number c then store_value c p1 else Some p1)))"

subsection \<open>The file\<close>

fun parse_chars :: "(string \<Rightarrow> string \<Rightarrow> userconfig_info \<Rightarrow> userconfig_info) \<Rightarrow> string \<Rightarrow> parser \<Rightarrow> parser option" where
  "parse_chars set_value [] p = Some p"
| "parse_chars set_value (c # cs) p =
     (case parse_char set_value c p of None \<Rightarrow> None | Some p1 \<Rightarrow> parse_chars set_value cs p1)"

text \<open>\<open>stack\<close> is what lies in the two buffers before they are cleared.\<close>

definition rwnx_plat_userconfig_parsing :: "string \<Rightarrow> string \<Rightarrow> string \<Rightarrow> userconfig_info \<Rightarrow> userconfig_info option" where
  "rwnx_plat_userconfig_parsing stack1 stack2 buffer u =
     map_option ps_config
       (parse_chars rwnx_plat_nvram_set_value buffer
          \<lparr>ps_state = INIT, ps_command = clear 64 (take 64 stack1), ps_value = clear 100 (take 100 stack2),
           char_counter = 0, ps_config = u\<rparr>)"

definition rwnx_plat_userconfig_parsing_8800d80x2 :: "string \<Rightarrow> string \<Rightarrow> string \<Rightarrow> userconfig_info \<Rightarrow> userconfig_info option" where
  "rwnx_plat_userconfig_parsing_8800d80x2 stack1 stack2 buffer u =
     map_option ps_config
       (parse_chars rwnx_plat_nvram_set_value_8800d80x2 buffer
          \<lparr>ps_state = INIT, ps_command = clear 64 (take 100 stack1), ps_value = clear 100 (take 100 stack2),
           char_counter = 0, ps_config = u\<rparr>)"

section \<open>Properties\<close>

subsection \<open>What a line means\<close>

text \<open>A line without its end; the key of a setting ends at the first \<open>=\<close> after its first
  character, and of the text behind it only digits and minus signs count.\<close>

definition is_comment :: "string \<Rightarrow> bool" where
  "is_comment l \<longleftrightarrow> l \<noteq> [] \<and> hd l = CHR ''#''"

definition line_key :: "string \<Rightarrow> string" where
  "line_key l = hd l # takeWhile (\<lambda>c. c \<noteq> CHR ''='') (tl l)"

definition line_value :: "string \<Rightarrow> string" where
  "line_value l = filter in_number (tl (dropWhile (\<lambda>c. c \<noteq> CHR ''='') (tl l)))"

definition line_effect :: "(string \<Rightarrow> string \<Rightarrow> userconfig_info \<Rightarrow> userconfig_info) \<Rightarrow> string \<Rightarrow> userconfig_info \<Rightarrow> userconfig_info" where
  "line_effect set_value l u =
     (if l = [] \<or> is_comment l \<or> line_value l = [] then u else set_value (line_key l) (line_value l) u)"

definition line_fits :: "string \<Rightarrow> bool" where
  "line_fits l \<longleftrightarrow>
     l = [] \<or>
     (if is_comment l then length l \<le> 100
      else length (line_key l) \<le> 64 \<and> (line_value l \<noteq> [] \<longrightarrow> length (line_key l) < 64 \<and> length (line_value l) < 100))"

text \<open>The text behind the last end of line is only stored.\<close>

definition tail_fits :: "string \<Rightarrow> bool" where
  "tail_fits l \<longleftrightarrow>
     l = [] \<or> (if is_comment l then length l \<le> 101 else length (line_key l) \<le> 64 \<and> length (line_value l) \<le> 100)"

definition plain :: "string \<Rightarrow> bool" where
  "plain l \<longleftrightarrow> (\<forall>c\<in>set l. \<not> is_eol c \<and> c \<noteq> CHR 0x00)"

subsection \<open>The buffers\<close>

definition filled :: "nat \<Rightarrow> string \<Rightarrow> string" where
  "filled n xs = xs @ replicate (n - length xs) (CHR 0x00)"

lemma filled_put:
  "length xs < n \<Longrightarrow> (filled n xs @ g)[length xs := c] = filled n (xs @ [c]) @ g"
  by (auto simp: filled_def list_update_append Suc_diff_Suc [symmetric])

lemma put_char_filled:
  "length xs \<le> n \<Longrightarrow> put_char (length xs) c (filled n xs) = (if length xs < n then Some (filled n (xs @ [c])) else None)"
  using filled_put [of xs n "[]" c] by (auto simp: put_char_def filled_def)

lemma put_char_filled_garbage:
  "length xs \<le> n \<Longrightarrow> g = [] \<or> length xs < n \<Longrightarrow>
   put_char (length xs) c (filled n xs @ g) = (if length xs < n then Some (filled n (xs @ [c]) @ g) else None)"
  using filled_put [of xs n g c] by (auto simp: put_char_def filled_def)

lemma filled_first: "0 < n \<Longrightarrow> CHR 0x00 \<notin> set xs \<Longrightarrow> (filled n xs @ g) ! 0 = CHR 0x00 \<longleftrightarrow> xs = []"
  by (cases xs) (auto simp: filled_def nth_append)

lemma filled_first' [simp]: "0 < n \<Longrightarrow> CHR 0x00 \<notin> set xs \<Longrightarrow> filled n xs ! 0 = CHR 0x00 \<longleftrightarrow> xs = []"
  using filled_first [of n xs "[]"] by simp

lemma c_string_filled:
  assumes "CHR 0x00 \<notin> set xs" and "length xs \<le> n" and "g = [] \<or> length xs < n"
  shows "c_string (filled n xs @ g) = (if length xs < n then Some xs else None)"
proof (cases "length xs < n")
  case True
  then obtain k where "n - length xs = Suc k" by (cases "n - length xs") auto
  then have "filled n xs @ g = xs @ CHR 0x00 # replicate k (CHR 0x00) @ g" by (simp add: filled_def)
  moreover have "takeWhile (\<lambda>c. c \<noteq> CHR 0x00) (xs @ CHR 0x00 # ys) = xs" for ys
    using assms(1) by (subst takeWhile_append2) auto
  ultimately show ?thesis using True by (simp add: c_string_def)
next
  case False
  then show ?thesis using assms by (auto simp: c_string_def filled_def)
qed

lemma clear_filled [simp]:
  "length xs \<le> n \<Longrightarrow> clear n (filled n xs @ g) = filled n [] @ g"
  "length xs \<le> n \<Longrightarrow> clear n (filled n xs) = filled n []"
  by (simp_all add: clear_def filled_def)

lemma c_string_filled' [simp]:
  "CHR 0x00 \<notin> set xs \<Longrightarrow> length xs \<le> n \<Longrightarrow> c_string (filled n xs) = (if length xs < n then Some xs else None)"
  using c_string_filled [of xs n "[]"] by simp

subsection \<open>The states of the parser\<close>

definition fresh :: "string \<Rightarrow> userconfig_info \<Rightarrow> parser" where
  "fresh g u = \<lparr>ps_state = INIT, ps_command = filled 64 [] @ g, ps_value = filled 100 [], char_counter = 0, ps_config = u\<rparr>"

definition in_print :: "string \<Rightarrow> userconfig_info \<Rightarrow> string \<Rightarrow> parser" where
  "in_print g u xs = \<lparr>ps_state = PRINT, ps_command = filled 64 (if xs = [] then [] else [CHR 0x01]) @ g,
     ps_value = filled 100 xs, char_counter = length xs, ps_config = u\<rparr>"

definition in_cmd :: "string \<Rightarrow> userconfig_info \<Rightarrow> string \<Rightarrow> parser" where
  "in_cmd g u xs = \<lparr>ps_state = CMD, ps_command = filled 64 xs @ g, ps_value = filled 100 [],
     char_counter = length xs, ps_config = u\<rparr>"

definition in_value :: "string \<Rightarrow> userconfig_info \<Rightarrow> string \<Rightarrow> string \<Rightarrow> parser" where
  "in_value g u k xs = \<lparr>ps_state = GET_VALUE, ps_command = filled 64 k @ g, ps_value = filled 100 xs,
     char_counter = length xs, ps_config = u\<rparr>"

lemma parse_append:
  "parse_chars f (xs @ ys) p = (case parse_chars f xs p of None \<Rightarrow> None | Some q \<Rightarrow> parse_chars f ys q)"
  by (induction xs arbitrary: p) (auto split: option.splits)

lemma print_char:
  assumes "\<not> is_eol c" and "length xs \<le> 100"
  shows "parse_char f c (in_print g u xs) = (if length xs < 100 then Some (in_print g u (xs @ [c])) else None)"
proof -
  have one: "(filled 64 [] @ g)[0 := CHR 0x01] = filled 64 [CHR 0x01] @ g" using filled_put [of "[]" 64 g "CHR 0x01"] by simp
  have two: "(filled 64 [CHR 0x01] @ g)[0 := CHR 0x01] = filled 64 [CHR 0x01] @ g" by (simp add: filled_def)
  show ?thesis
    using assms
    by (auto simp: parse_char_def in_print_def store_value_def put_char_filled one two)
qed

lemma parse_print:
  assumes "plain cs" and "length xs \<le> 100"
  shows "parse_chars f cs (in_print g u xs) =
     (if length xs + length cs \<le> 100 then Some (in_print g u (xs @ cs)) else None)"
  using assms
proof (induction cs arbitrary: xs)
  case (Cons c cs)
  have "plain cs" "\<not> is_eol c" using Cons.prems(1) by (auto simp: plain_def)
  then show ?case using Cons.prems(2) Cons.IH [of "xs @ [c]"] by (auto simp: print_char)
qed simp

lemma value_char:
  assumes "\<not> is_eol c" and "length xs \<le> 100"
  shows "parse_char f c (in_value g u k xs) =
     (if \<not> in_number c then Some (in_value g u k xs)
      else if length xs < 100 then Some (in_value g u k (xs @ [c])) else None)"
  using assms by (auto simp: parse_char_def in_value_def store_value_def put_char_filled Let_def)

lemma parse_value:
  assumes "plain cs" and "length xs \<le> 100"
  shows "parse_chars f cs (in_value g u k xs) =
     (if length xs + length (filter in_number cs) \<le> 100 then Some (in_value g u k (xs @ filter in_number cs)) else None)"
  using assms
proof (induction cs arbitrary: xs)
  case (Cons c cs)
  have "plain cs" "\<not> is_eol c" using Cons.prems(1) by (auto simp: plain_def)
  then show ?case using Cons.prems(2) Cons.IH [of xs] Cons.IH [of "xs @ [c]"] by (auto simp: value_char)
qed simp

lemma cmd_char:
  assumes "\<not> is_eol c" and "xs \<noteq> []" and "CHR 0x00 \<notin> set xs" and "length xs \<le> 64" and "g = [] \<or> length xs < 64"
  shows "parse_char f c (in_cmd g u xs) =
     (if c = CHR ''='' then Some (in_value g u xs [])
      else if length xs < 64 then Some (in_cmd g u (xs @ [c])) else None)"
  using assms
  by (auto simp: parse_char_def in_cmd_def in_value_def store_command_def put_char_filled_garbage Let_def filled_first)

lemma parse_cmd:
  assumes "plain cs" and "xs \<noteq> []" and "CHR 0x00 \<notin> set xs" and "length xs \<le> 64"
    and "g = [] \<or> length xs + length (takeWhile (\<lambda>c. c \<noteq> CHR ''='') cs) < 64"
  shows "parse_chars f cs (in_cmd g u xs) =
     (let key = xs @ takeWhile (\<lambda>c. c \<noteq> CHR ''='') cs; rest = dropWhile (\<lambda>c. c \<noteq> CHR ''='') cs
      in if 64 < length key then None
         else if rest = [] then Some (in_cmd g u key)
         else parse_chars f (tl rest) (in_value g u key []))"
  using assms
proof (induction cs arbitrary: xs)
  case (Cons c cs)
  have cs: "plain cs" "\<not> is_eol c" "c \<noteq> CHR 0x00" using Cons.prems(1) by (auto simp: plain_def)
  have step: "parse_char f c (in_cmd g u xs) =
     (if c = CHR ''='' then Some (in_value g u xs [])
      else if length xs < 64 then Some (in_cmd g u (xs @ [c])) else None)"
    by (rule cmd_char) (use cs Cons.prems in auto)
  show ?case
  proof (cases "c = CHR ''=''")
    case True
    then show ?thesis using step Cons.prems by (simp add: Let_def)
  next
    case False
    show ?thesis
    proof (cases "length xs < 64")
      case True
      then have "parse_chars f cs (in_cmd g u (xs @ [c])) =
        (let key = (xs @ [c]) @ takeWhile (\<lambda>c. c \<noteq> CHR ''='') cs; rest = dropWhile (\<lambda>c. c \<noteq> CHR ''='') cs
         in if 64 < length key then None
            else if rest = [] then Some (in_cmd g u key)
            else parse_chars f (tl rest) (in_value g u key []))"
        by (intro Cons.IH) (use cs Cons.prems False in auto)
      then show ?thesis using step True False by (simp add: Let_def)
    next
      case False': False
      then show ?thesis using step False by (simp add: Let_def)
    qed
  qed
qed (simp add: Let_def)

lemma set_tl_dropWhile: "set (tl (dropWhile P xs)) \<subseteq> set xs"
  by (induction xs) auto

lemma no_value: "dropWhile (\<lambda>c. c \<noteq> CHR ''='') (tl l) = [] \<Longrightarrow> line_value l = []"
  by (simp only: line_value_def list.sel filter.simps)

lemma end_print:
  assumes "CHR 0x00 \<notin> set xs" and "length xs \<le> 100" and "is_eol e"
  shows "parse_char f e (in_print g u xs) = (if length xs < 100 then Some (fresh g u) else None)"
proof -
  have z: "clear 64 (filled 64 (if xs = [] then [] else [CHR 0x01]) @ g) = filled 64 [] @ g" by simp
  show ?thesis
    using assms
    by (auto simp: parse_char_def end_line_def in_print_def fresh_def Let_def filled_first z simp del: clear_filled(1))
qed

lemma end_cmd:
  assumes "is_eol e" and "length xs \<le> 64"
  shows "parse_char f e (in_cmd g u xs) = Some (fresh g u)"
  using assms by (auto simp: parse_char_def end_line_def in_cmd_def fresh_def Let_def)

lemma end_value:
  assumes "is_eol e" and "length k \<le> 64" and "length xs \<le> 100" and "g = [] \<or> length k < 64"
    and "CHR 0x00 \<notin> set k" "CHR 0x00 \<notin> set xs" "k \<noteq> []"
  shows "parse_char f e (in_value g u k xs) =
     (if xs = [] then Some (fresh g u)
      else if length k < 64 \<and> length xs < 100 then Some (fresh g (f k xs u)) else None)"
  using assms c_string_filled [of k 64 g]
  by (auto simp: parse_char_def end_line_def in_value_def fresh_def Let_def filled_first)

lemma end_fresh: "is_eol e \<Longrightarrow> parse_char f e (fresh g u) = Some (fresh g u)"
  by (simp add: parse_char_def end_line_def fresh_def Let_def filled_first)

lemma first_char:
  assumes "\<not> is_eol c" and "c \<noteq> CHR 0x00"
  shows "parse_char f c (fresh g u) = Some (if c = CHR ''#'' then in_print g u [] else in_cmd g u [c])"
proof (cases "c = CHR ''#''")
  case True
  then show ?thesis using assms by (simp add: parse_char_def fresh_def in_print_def)
next
  case False
  have "put_char 0 c (filled 64 [] @ g) = Some (filled 64 [c] @ g)"
    using put_char_filled_garbage [of "[]" 64 g c] by simp
  then show ?thesis
    using assms False by (simp add: parse_char_def fresh_def in_cmd_def store_command_def Let_def filled_first)
qed

text \<open>Short enough for the buffer of the 8800D80X2, of which only the first 64 bytes are cleared.\<close>

definition short_key :: "string \<Rightarrow> bool" where
  "short_key l \<longleftrightarrow> l = [] \<or> is_comment l \<or> length (line_key l) < 64"

lemma parse_setting:
  assumes "plain (c # cs)" and "c \<noteq> CHR ''#''" and "g = [] \<or> short_key (c # cs)"
  shows "parse_chars f (c # cs) (fresh g u) =
     (let key = line_key (c # cs)
      in if 64 < length key then None
         else if dropWhile (\<lambda>c. c \<noteq> CHR ''='') cs = [] then Some (in_cmd g u key)
         else if length (line_value (c # cs)) \<le> 100 then Some (in_value g u key (line_value (c # cs)))
         else None)"
proof -
  have p: "plain cs" "\<not> is_eol c" "c \<noteq> CHR 0x00" using assms(1) by (auto simp: plain_def)
  have rest: "plain (tl (dropWhile (\<lambda>c. c \<noteq> CHR ''='') cs))"
    using p(1) by (auto simp: plain_def dest: subsetD [OF set_tl_dropWhile])
  have "parse_chars f cs (in_cmd g u [c]) =
     (let key = [c] @ takeWhile (\<lambda>c. c \<noteq> CHR ''='') cs; rest = dropWhile (\<lambda>c. c \<noteq> CHR ''='') cs
      in if 64 < length key then None
         else if rest = [] then Some (in_cmd g u key)
         else parse_chars f (tl rest) (in_value g u key []))"
    by (rule parse_cmd) (use p assms in \<open>auto simp: short_key_def is_comment_def line_key_def\<close>)
  then show ?thesis
    using first_char [OF p(2,3)] assms(2) parse_value [OF rest, of "[]" f g u]
    by (simp add: Let_def line_key_def line_value_def del: dropWhile_eq_Nil_conv)
qed

lemma plain_parts:
  assumes "plain l"
  shows "CHR 0x00 \<notin> set (takeWhile P (tl l))" "CHR 0x00 \<notin> set (line_value l)" "l \<noteq> [] \<Longrightarrow> CHR 0x00 \<notin> set (line_key l)"
proof -
  have n: "CHR 0x00 \<notin> set l" using assms by (auto simp: plain_def)
  then have t: "CHR 0x00 \<notin> set (tl l)" by (metis list.sel(2) list.set_sel(2))
  then show a: "CHR 0x00 \<notin> set (takeWhile P (tl l))" for P by (auto dest: set_takeWhileD)
  show "CHR 0x00 \<notin> set (line_value l)" using t by (auto simp: line_value_def dest: subsetD [OF set_tl_dropWhile])
  show "l \<noteq> [] \<Longrightarrow> CHR 0x00 \<notin> set (line_key l)"
    using n a by (auto simp: line_key_def)
qed

lemma parse_line:
  assumes "plain l" and "is_eol e" and "g = [] \<or> short_key l"
  shows "parse_chars f (l @ [e]) (fresh g u) =
     (if line_fits l then Some (fresh g (line_effect f l u)) else None)"
proof (cases l)
  case Nil
  then show ?thesis using assms(2) by (simp add: end_fresh line_fits_def line_effect_def)
next
  case (Cons c cs)
  have p: "plain cs" "\<not> is_eol c" "c \<noteq> CHR 0x00" "CHR 0x00 \<notin> set cs" using assms(1) Cons by (auto simp: plain_def)
  show ?thesis
  proof (cases "c = CHR ''#''")
    case True
    then have "parse_chars f (l @ [e]) (fresh g u) =
       (if length cs \<le> 100 then parse_chars f [e] (in_print g u cs) else None)"
      unfolding Cons using first_char [OF p(2,3), of f g u] parse_print [OF p(1), of "[]" f g u]
      by (simp add: parse_append)
    then show ?thesis
      using True end_print [OF p(4) _ assms(2), of f g u] Cons
      by (auto simp: line_fits_def is_comment_def line_effect_def)
  next
    case False
    let ?k = "line_key l" and ?v = "line_value l"
    have nc: "\<not> is_comment l" "l \<noteq> []" using False Cons by (simp_all add: is_comment_def)
    have k: "?k \<noteq> []" by (simp add: line_key_def)
    note st = parse_setting [of c cs g f u, folded Cons, OF assms(1) False assms(3)]
    have g: "g = [] \<or> length ?k < 64" using assms(3) nc by (auto simp: short_key_def)
    show ?thesis
    proof (cases "64 < length ?k")
      case True
      then show ?thesis using st nc by (simp add: parse_append line_fits_def Let_def)
    next
      case fits: False
      show ?thesis
      proof (cases "dropWhile (\<lambda>c. c \<noteq> CHR ''='') cs = []")
        case True
        then have "parse_chars f (l @ [e]) (fresh g u) = Some (fresh g u)"
          using st fits end_cmd [OF assms(2), of ?k f g u] by (simp add: parse_append Let_def)
        then show ?thesis using fits nc no_value [of l] True Cons by (simp add: line_fits_def line_effect_def)
      next
        case has: False
        show ?thesis
        proof (cases "length ?v \<le> 100")
          case True
          then have "parse_chars f (l @ [e]) (fresh g u) = parse_chars f [e] (in_value g u ?k ?v)"
            using st fits has by (simp add: parse_append Let_def del: dropWhile_eq_Nil_conv)
          then show ?thesis
            using end_value [OF assms(2) _ True g _ _ k, of f u] fits nc plain_parts [OF assms(1)] True
            by (auto simp: line_fits_def line_effect_def)
        next
          case False
          then have "?v \<noteq> []" by auto
          then show ?thesis using st fits has False nc
            by (simp add: parse_append Let_def line_fits_def del: dropWhile_eq_Nil_conv)
        qed
      qed
    qed
  qed
qed

lemma parse_tail:
  assumes "plain l" and "g = [] \<or> short_key l"
  shows "map_option ps_config (parse_chars f l (fresh g u)) = (if tail_fits l then Some u else None)"
proof (cases l)
  case Nil
  then show ?thesis by (simp add: tail_fits_def fresh_def)
next
  case (Cons c cs)
  have p: "plain cs" "\<not> is_eol c" "c \<noteq> CHR 0x00" using assms(1) Cons by (auto simp: plain_def)
  show ?thesis
  proof (cases "c = CHR ''#''")
    case True
    then show ?thesis
      unfolding Cons using first_char [OF p(2,3), of f g u] parse_print [OF p(1), of "[]" f g u]
      by (simp add: tail_fits_def is_comment_def in_print_def)
  next
    case False
    note st = parse_setting [of c cs g f u, folded Cons, OF assms(1) False assms(2)]
    have "line_value l = []" if "dropWhile (\<lambda>c. c \<noteq> CHR ''='') cs = []"
      by (rule no_value) (use that Cons in simp)
    then show ?thesis
      using st False Cons by (auto simp: Let_def tail_fits_def is_comment_def in_cmd_def in_value_def)
  qed
qed

text \<open>A file: lines with their ends, and the text behind the last end of line.\<close>

definition file_text :: "(string \<times> char) list \<Rightarrow> string \<Rightarrow> string" where
  "file_text ls rest = concat (map (\<lambda>(l, e). l @ [e]) ls) @ rest"

lemma parse_file:
  assumes "\<forall>(l, e)\<in>set ls. plain l \<and> is_eol e" and "plain rest"
    and "g = [] \<or> short_key rest \<and> (\<forall>l\<in>fst ` set ls. short_key l)"
  shows "map_option ps_config (parse_chars f (file_text ls rest) (fresh g u)) =
     (if (\<forall>l\<in>fst ` set ls. line_fits l) \<and> tail_fits rest
      then Some (fold (\<lambda>(l, e). line_effect f l) ls u) else None)"
  using assms
proof (induction ls arbitrary: u)
  case Nil
  then show ?case using parse_tail [of rest g f u] by (auto simp: file_text_def)
next
  case (Cons le ls)
  obtain l e where le: "le = (l, e)" by (cases le)
  have line: "parse_chars f (l @ [e]) (fresh g u) =
     (if line_fits l then Some (fresh g (line_effect f l u)) else None)"
    by (rule parse_line) (use Cons.prems le in auto)
  have "file_text (le # ls) rest = (l @ [e]) @ file_text ls rest" by (simp add: file_text_def le)
  then have "parse_chars f (file_text (le # ls) rest) (fresh g u) =
     (if line_fits l then parse_chars f (file_text ls rest) (fresh g (line_effect f l u)) else None)"
    by (simp only: parse_append [of f "l @ [e]"] line option.case split: if_split) simp
  moreover have "map_option ps_config (parse_chars f (file_text ls rest) (fresh g v)) =
     (if (\<forall>l\<in>fst ` set ls. line_fits l) \<and> tail_fits rest
      then Some (fold (\<lambda>(l, e). line_effect f l) ls v) else None)" for v
    by (rule Cons.IH) (use Cons.prems in auto)
  ultimately have "map_option ps_config (parse_chars f (file_text (le # ls) rest) (fresh g u)) =
     (if line_fits l then
        (if (\<forall>l\<in>fst ` set ls. line_fits l) \<and> tail_fits rest
         then Some (fold (\<lambda>(l, e). line_effect f l) ls (line_effect f l u)) else None)
      else None)" by (simp only: option.map split: if_split) simp
  then show ?case by (simp add: le)
qed

lemma start_state:
  "\<lparr>ps_state = INIT, ps_command = clear 64 (take 64 s1), ps_value = clear 100 (take 100 s2), char_counter = 0, ps_config = u\<rparr> = fresh [] u"
  "\<lparr>ps_state = INIT, ps_command = clear 64 (take 100 s1), ps_value = clear 100 (take 100 s2), char_counter = 0, ps_config = u\<rparr> =
     fresh (List.drop 64 (take 100 s1)) u"
  by (simp_all add: fresh_def clear_def filled_def)

text \<open>C22: Parsing a file applies its lines in order (comments and settings without a number have no
  effect, what follows the last end of line is ignored) exactly when every line fits the two
  buffers; otherwise the parser writes or reads past them, for example for a comment of more
  than 99 characters or a key of more than 63.  For the 8800D80X2 this holds when no key has more
  than 63 characters (a longer one runs into the part of the buffer that is not cleared).\<close>

theorem userconfig_parsing_exact:
  assumes "\<forall>(l, e)\<in>set ls. plain l \<and> is_eol e" and "plain rest"
  shows "rwnx_plat_userconfig_parsing s1 s2 (file_text ls rest) u =
       (if (\<forall>l\<in>fst ` set ls. line_fits l) \<and> tail_fits rest
        then Some (fold (\<lambda>(l, e). line_effect rwnx_plat_nvram_set_value l) ls u) else None) \<and>
     (short_key rest \<and> (\<forall>l\<in>fst ` set ls. short_key l) \<longrightarrow>
       rwnx_plat_userconfig_parsing_8800d80x2 s1 s2 (file_text ls rest) u =
       (if (\<forall>l\<in>fst ` set ls. line_fits l) \<and> tail_fits rest
        then Some (fold (\<lambda>(l, e). line_effect rwnx_plat_nvram_set_value_8800d80x2 l) ls u) else None))"
  unfolding rwnx_plat_userconfig_parsing_def rwnx_plat_userconfig_parsing_8800d80x2_def start_state
  using parse_file [OF assms] by blast

definition demo_file :: "(string \<times> char) list" where
  "demo_file = [(''# txpwr_lvl'', CHR 0x0A), (''enable=0'', CHR 0x0D), ([], CHR 0x0A), (''xtal_cap = 7 pF'', CHR 0x0A), (''dsss=11'', CHR 0x0A)]"

lemma userconfig_parsing_exact_witness:
  "\<exists>u. rwnx_plat_userconfig_parsing [] [] (file_text demo_file ''dsss=5'') userconfig_init = Some u \<and>
     cell_get (Txpwr_lvl Lvl_dsss) u = 11 \<and>
   rwnx_plat_userconfig_parsing [] [] (file_text [(CHR ''#'' # replicate 100 CHR ''-'', CHR 0x0A)] []) userconfig_init = None"
proof -
  have plain: "\<forall>(l, e)\<in>set demo_file. plain l \<and> is_eol e" "plain ''dsss=5''" "plain []"
    by (simp_all add: demo_file_def plain_def is_eol_def)
  have fits: "(\<forall>l\<in>fst ` set demo_file. line_fits l) \<and> tail_fits ''dsss=5''"
    by (simp add: demo_file_def line_fits_def tail_fits_def is_comment_def line_key_def line_value_def in_number_def)
  have "cell_get (Txpwr_lvl Lvl_dsss) (line_effect rwnx_plat_nvram_set_value ''dsss=11'' u) = 11" for u
  proof -
    have "map_of nvram_keys ''dsss'' = Some [Txpwr_lvl Lvl_dsss]" by (simp add: nvram_tables)
    then show ?thesis
      by (simp add: line_effect_def line_key_def line_value_def is_comment_def in_number_def rwnx_plat_nvram_set_value_def
          set_by_table_def set_cells_def rwnx_atoi_def)
  qed
  moreover have "rwnx_plat_userconfig_parsing [] [] (file_text demo_file ''dsss=5'') userconfig_init =
     Some (fold (\<lambda>(l, e). line_effect rwnx_plat_nvram_set_value l) demo_file userconfig_init)"
    using userconfig_parsing_exact [OF plain(1,2), of "[]" "[]" userconfig_init] fits by simp
  moreover have "rwnx_plat_userconfig_parsing [] [] (file_text [(CHR ''#'' # replicate 100 CHR ''-'', CHR 0x0A)] []) userconfig_init = None"
    using userconfig_parsing_exact [of "[(CHR ''#'' # replicate 100 CHR ''-'', CHR 0x0A)]" "[]" "[]" "[]" userconfig_init]
    by (auto simp: plain_def is_eol_def line_fits_def is_comment_def)
  ultimately show ?thesis by (auto simp: demo_file_def)
qed

end
