(* ===== verification/RxDemux.thy ===== *)
theory RxDemux imports Amsdu begin

section \<open>Splitting what the USB bus delivers\<close>

text \<open>
  \<open>aicwf_process_rxframes\<close> and \<open>aicwf_process_msg_rxframes\<close> of \<open>aicwf_txrxif.c\<close> (without
  preallocated buffers): the buffers received from the bus hold one packet, or several in a row
  when the bus aggregates them.  A packet begins with its length (two bytes) and its type; data
  goes to the receive path, the rest to the handlers of messages, confirmations and prints.
  These calls are the result, in their order.  Whether the \<open>n\<close>-th allocation succeeds is a
  parameter.
\<close>

subsection \<open>Packets\<close>

definition RX_HWHRD_LEN :: u16 where "RX_HWHRD_LEN = 60"
definition RX_ALIGNMENT :: nat where "RX_ALIGNMENT = 4"

definition USB_TYPE_CFG :: u8 where "USB_TYPE_CFG = 0x10"
definition USB_TYPE_CFG_CMD_RSP :: u8 where "USB_TYPE_CFG_CMD_RSP = 0x11"
definition USB_TYPE_CFG_DATA_CFM :: u8 where "USB_TYPE_CFG_DATA_CFM = 0x12"
definition USB_TYPE_CFG_PRINT :: u8 where "USB_TYPE_CFG_PRINT = 0x13"

datatype rx_ind =
    Rx_data bytes
  | Rx_msg bytes
  | Tx_cfm bytes
  | Rx_print bytes

definition aicwf_another_ptk :: "sk_buff \<Rightarrow> bool" where
  "aicwf_another_ptk skb \<longleftrightarrow> 2 \<le> sk_len skb \<and> le16 (sk_data skb) 0 \<noteq> 0"

definition pkt_len :: "sk_buff \<Rightarrow> u16" where
  "pkt_len skb = le16 (sk_data skb) 0"

definition is_data :: "sk_buff \<Rightarrow> bool" where
  "is_data skb \<longleftrightarrow> sk_data skb 2 AND USB_TYPE_CFG \<noteq> USB_TYPE_CFG"

definition read_bytes :: "sk_buff \<Rightarrow> nat \<Rightarrow> nat \<Rightarrow> bytes" where
  "read_bytes skb p n = map (\<lambda>i. sk_data skb (p + i)) [0..<n]"

text \<open>All lengths are 16 bits wide.\<close>

definition data_aggr_len :: "sk_buff \<Rightarrow> nat" where
  "data_aggr_len skb = unat (pkt_len skb + RX_HWHRD_LEN)"

definition align_len :: "nat \<Rightarrow> nat" where
  "align_len n = (if n mod RX_ALIGNMENT \<noteq> 0 then roundup n RX_ALIGNMENT mod 2 ^ 16 else n)"

definition cfg_adjust_len :: "sk_buff \<Rightarrow> nat" where
  "cfg_adjust_len skb = align_len (unat (pkt_len skb))"

text \<open>The copy of a configuration packet and the handlers it goes to.\<close>

definition cfg_inds :: "bool \<Rightarrow> sk_buff \<Rightarrow> rx_ind list" where
  "cfg_inds usb_down skb =
     (let t = sk_data skb 2 AND 0x7f; body = read_bytes skb 4 (unat (pkt_len skb))
      in (if t = USB_TYPE_CFG_CMD_RSP \<and> \<not> usb_down then [Rx_msg body] else []) @
         (if t = USB_TYPE_CFG_DATA_CFM then [Tx_cfm body] else []) @
         (if t = USB_TYPE_CFG_PRINT then [Rx_print body] else []))"

subsection \<open>One aggregate\<close>

record demux_env =
  alloc_ok :: "nat \<Rightarrow> bool"
  usb_down :: bool

text \<open>The result says whether the function is left with \<open>-EBADE\<close>.  A failing \<open>skb_pull\<close> is not
  noticed, so the loop need not end: \<open>None\<close> is a loop that never ends.\<close>

partial_function (option) aggr_loop :: "demux_env \<Rightarrow> nat \<Rightarrow> sk_buff \<Rightarrow> rx_ind list \<Rightarrow> (bool \<times> nat \<times> rx_ind list) option" where
  "aggr_loop env n skb inds =
     (if \<not> aicwf_another_ptk skb then Some (False, n, inds)
      else if sk_len skb < unat (pkt_len skb) then Some (False, n, inds)
      else if is_data skb then
        aggr_loop env (n + 1) (skb_pull (data_aggr_len skb) skb)
          (if alloc_ok env n then inds @ [Rx_data (read_bytes skb 0 (data_aggr_len skb))] else inds)
      else if alloc_ok env n then
        aggr_loop env (n + 1) (skb_pull (cfg_adjust_len skb + 4) skb) (inds @ cfg_inds (usb_down env) skb)
      else Some (True, n + 1, inds))"

subsection \<open>The queues of received buffers\<close>

record rx_queue =
  rxq :: "sk_buff list"
  rx_cnt :: int
  rx_freed :: "sk_buff list"
  rx_inds :: "rx_ind list"

fun rxframes_aggr :: "demux_env \<Rightarrow> nat \<Rightarrow> sk_buff list \<Rightarrow> rx_queue \<Rightarrow> (int \<times> rx_queue) option" where
  "rxframes_aggr env n [] q = Some (0, q\<lparr>rxq := []\<rparr>)"
| "rxframes_aggr env n (skb # rest) q =
     (case aggr_loop env n skb [] of
        None \<Rightarrow> None
      | Some (True, n1, inds) \<Rightarrow>
          Some (- 52, q\<lparr>rxq := rest, rx_freed := rx_freed q @ [skb], rx_inds := rx_inds q @ inds\<rparr>)
      | Some (False, n1, inds) \<Rightarrow>
          rxframes_aggr env n1 rest
            (q\<lparr>rx_freed := rx_freed q @ [skb], rx_inds := rx_inds q @ inds, rx_cnt := rx_cnt q - 1\<rparr>))"

text \<open>One packet per buffer; the buffer of a data packet is itself handed to the receive path.\<close>

fun rxframes_single :: "demux_env \<Rightarrow> nat \<Rightarrow> sk_buff list \<Rightarrow> rx_queue \<Rightarrow> int \<times> rx_queue" where
  "rxframes_single env n [] q = (0, q\<lparr>rxq := []\<rparr>)"
| "rxframes_single env n (skb # rest) q =
     (if sk_len skb < unat (pkt_len skb) then
        rxframes_single env n rest (q\<lparr>rx_freed := rx_freed q @ [skb], rx_cnt := rx_cnt q - 1\<rparr>)
      else if is_data skb then
        rxframes_single env n rest (q\<lparr>rx_inds := rx_inds q @ [Rx_data (skb_bytes skb)], rx_cnt := rx_cnt q - 1\<rparr>)
      else if alloc_ok env n then
        rxframes_single env (n + 1) rest
          (q\<lparr>rx_inds := rx_inds q @ cfg_inds (usb_down env) skb, rx_freed := rx_freed q @ [skb], rx_cnt := rx_cnt q - 1\<rparr>)
      else (- 52, q\<lparr>rxq := rest, rx_freed := rx_freed q @ [skb]\<rparr>))"

definition aicwf_process_rxframes :: "bool \<Rightarrow> demux_env \<Rightarrow> rx_queue \<Rightarrow> (int \<times> rx_queue) option" where
  "aicwf_process_rxframes aicwf_usb_rx_aggr env q =
     (if aicwf_usb_rx_aggr then rxframes_aggr env 0 (rxq q) q else Some (rxframes_single env 0 (rxq q) q))"

text \<open>The message endpoint: no check of the length, and a data packet is copied.\<close>

fun msg_rxframes :: "demux_env \<Rightarrow> nat \<Rightarrow> sk_buff list \<Rightarrow> rx_queue \<Rightarrow> int \<times> rx_queue" where
  "msg_rxframes env n [] q = (0, q\<lparr>rxq := []\<rparr>)"
| "msg_rxframes env n (skb # rest) q =
     (if is_data skb then
        (if alloc_ok env n then
           msg_rxframes env (n + 1) rest
             (q\<lparr>rx_inds := rx_inds q @ [Rx_data (read_bytes skb 0 (data_aggr_len skb))],
                rx_freed := rx_freed q @ [skb], rx_cnt := rx_cnt q - 1\<rparr>)
         else msg_rxframes env (n + 1) rest q)
      else if alloc_ok env n then
        msg_rxframes env (n + 1) rest
          (q\<lparr>rx_inds := rx_inds q @ cfg_inds (usb_down env) skb, rx_freed := rx_freed q @ [skb], rx_cnt := rx_cnt q - 1\<rparr>)
      else (- 52, q\<lparr>rxq := rest, rx_freed := rx_freed q @ [skb]\<rparr>))"

definition aicwf_process_msg_rxframes :: "demux_env \<Rightarrow> rx_queue \<Rightarrow> int \<times> rx_queue" where
  "aicwf_process_msg_rxframes env q = msg_rxframes env 0 (rxq q) q"

subsection \<open>Aggregates of complete packets\<close>

record usb_packet =
  up_len :: u16
  up_type :: u8
  up_rest :: bytes

definition up_bytes :: "usb_packet \<Rightarrow> bytes" where
  "up_bytes p = [ucast (up_len p), ucast (drop_bit 8 (up_len p)), up_type p] @ up_rest p"

definition up_data :: "usb_packet \<Rightarrow> bool" where
  "up_data p \<longleftrightarrow> up_type p AND USB_TYPE_CFG \<noteq> USB_TYPE_CFG"

definition up_size :: "usb_packet \<Rightarrow> nat" where
  "up_size p = (if up_data p then unat (up_len p) + 60 else roundup (unat (up_len p)) 4 + 4)"

definition up_ok :: "usb_packet \<Rightarrow> bool" where
  "up_ok p \<longleftrightarrow> up_len p \<noteq> 0 \<and> length (up_bytes p) = up_size p \<and> up_size p < 65536"

definition up_inds :: "bool \<Rightarrow> usb_packet \<Rightarrow> rx_ind list" where
  "up_inds down p =
     (let body = take (unat (up_len p)) (List.drop 4 (up_bytes p)); t = up_type p AND 0x7f
      in if up_data p then [Rx_data (up_bytes p)]
         else if t = USB_TYPE_CFG_CMD_RSP then (if down then [] else [Rx_msg body])
         else if t = USB_TYPE_CFG_DATA_CFM then [Tx_cfm body]
         else if t = USB_TYPE_CFG_PRINT then [Rx_print body] else [])"

text \<open>The first three bytes of a packet lie at the front of a buffer.\<close>

definition up_head :: "usb_packet \<Rightarrow> sk_buff \<Rightarrow> bool" where
  "up_head p skb \<longleftrightarrow> mem_at (sk_data skb) 0 (take 3 (up_bytes p))"

lemma read_bytes_mem: "mem_at (sk_data skb) p xs \<Longrightarrow> read_bytes skb p (length xs) = xs"
  by (auto simp: read_bytes_def mem_at_def intro: nth_equalityI)

lemma mem_at_part: "mem_at buf q xs \<Longrightarrow> i + n \<le> length xs \<Longrightarrow> mem_at buf (q + i) (take n (List.drop i xs))"
  by (auto simp: mem_at_def add.assoc)

lemma align_4: "n < 65532 \<Longrightarrow> align_len n = roundup n 4"
  using roundup_4(1,2) [of n] by (auto simp: align_len_def RX_ALIGNMENT_def roundup_def)

lemma head_facts:
  assumes "up_head p skb" and "up_ok p"
  shows "pkt_len skb = up_len p" and "is_data skb = up_data p"
    and "(if up_data p then data_aggr_len skb else cfg_adjust_len skb + 4) = up_size p"
    and "sk_data skb 2 = up_type p"
proof -
  have m: "sk_data skb 0 = ucast (up_len p)" "sk_data skb (Suc 0) = ucast (drop_bit 8 (up_len p))" "sk_data skb 2 = up_type p"
    using assms(1) by (simp_all add: up_head_def up_bytes_def numeral_eq_Suc)
  show len: "pkt_len skb = up_len p" using le16_halves [of "sk_data skb" 0 "up_len p"] m by (simp add: pkt_len_def)
  show "is_data skb = up_data p" by (simp add: is_data_def up_data_def m)
  show "sk_data skb 2 = up_type p" by (rule m(3))
  show "(if up_data p then data_aggr_len skb else cfg_adjust_len skb + 4) = up_size p"
  proof (cases "up_data p")
    case True
    then have "unat (up_len p) + 60 < 65536" using assms(2) by (simp add: up_ok_def up_size_def)
    then show ?thesis using True by (simp add: data_aggr_len_def len RX_HWHRD_LEN_def up_size_def unat_word_ariths)
  next
    case False
    then have "unat (up_len p) < 65532" using assms(2) roundup_4(1) [of "unat (up_len p)"] by (simp add: up_ok_def up_size_def)
    then show ?thesis using False by (simp add: cfg_adjust_len_def len up_size_def align_4)
  qed
qed

lemma up_size_pos: "4 \<le> up_size p"
  by (simp add: up_size_def)

lemma up_size_len: "unat (up_len p) \<le> up_size p"
  using roundup_4(1) [of "unat (up_len p)"] by (simp add: up_size_def)

lemma up_len_pos: "up_ok p \<Longrightarrow> 0 < unat (up_len p)"
  by (simp add: up_ok_def unat_gt_0)

lemma packet_step:
  assumes "up_ok p" and "mem_at (sk_data skb) 0 (up_bytes p)" and "up_size p \<le> sk_len skb" and "\<forall>n. alloc_ok env n"
  shows "aggr_loop env n skb inds =
     aggr_loop env (n + 1) (skb_pull (up_size p) skb) (inds @ up_inds (usb_down env) p)"
proof -
  have head: "up_head p skb" using assms(2) by (simp add: up_head_def mem_at_def)
  note f = head_facts [OF head assms(1)]
  have len: "length (up_bytes p) = up_size p" using assms(1) by (simp add: up_ok_def)
  have another: "aicwf_another_ptk skb" "\<not> sk_len skb < unat (pkt_len skb)"
    using assms(1,3) up_size_pos [of p] up_size_len [of p] f(1)
    by (simp_all add: aicwf_another_ptk_def pkt_len_def [symmetric] up_ok_def)
  show ?thesis
  proof (cases "up_data p")
    case True
    have "data_aggr_len skb = up_size p" using f(3) True by simp
    moreover have "read_bytes skb 0 (up_size p) = up_bytes p" using read_bytes_mem [OF assms(2)] len by simp
    ultimately show ?thesis
      using another assms(4) True f(2) by (subst aggr_loop.simps) (simp add: up_inds_def)
  next
    case False
    have size: "cfg_adjust_len skb + 4 = up_size p" using f(3) False by simp
    have "unat (up_len p) + 4 \<le> length (up_bytes p)"
      using False len roundup_4(1) [of "unat (up_len p)"] by (simp add: up_size_def)
    then have "mem_at (sk_data skb) 4 (take (unat (up_len p)) (List.drop 4 (up_bytes p)))"
      "length (take (unat (up_len p)) (List.drop 4 (up_bytes p))) = unat (up_len p)"
      using mem_at_part [OF assms(2), of 4 "unat (up_len p)"] by (simp_all add: add.commute)
    then have "read_bytes skb 4 (unat (pkt_len skb)) = take (unat (up_len p)) (List.drop 4 (up_bytes p))"
      using read_bytes_mem [of skb 4 "take (unat (up_len p)) (List.drop 4 (up_bytes p))"] f(1) by simp
    then have "cfg_inds (usb_down env) skb = up_inds (usb_down env) p"
      using False f(4)
      by (auto simp: cfg_inds_def up_inds_def Let_def USB_TYPE_CFG_CMD_RSP_def USB_TYPE_CFG_DATA_CFM_def USB_TYPE_CFG_PRINT_def)
    then show ?thesis
      using another assms(4) False f(2) size by (subst aggr_loop.simps) simp
  qed
qed

lemma pull_rest:
  assumes "mem_at (sk_data skb) 0 (xs @ ys)" and "sk_len skb = length xs + length ys"
  shows "mem_at (sk_data (skb_pull (length xs) skb)) 0 ys \<and> sk_len (skb_pull (length xs) skb) = length ys"
  using assms by (auto simp: skb_pull_def mem_at_def)

lemma packets_steps:
  assumes "\<forall>p\<in>set ps. up_ok p" and "\<forall>n. alloc_ok env n"
    and "mem_at (sk_data skb) 0 (concat (map up_bytes ps) @ rest)"
    and "sk_len skb = length (concat (map up_bytes ps) @ rest)"
  shows "\<exists>skb'. mem_at (sk_data skb') 0 rest \<and> sk_len skb' = length rest \<and>
     aggr_loop env n skb inds = aggr_loop env (n + length ps) skb' (inds @ concat (map (up_inds (usb_down env)) ps))"
  using assms
proof (induction ps arbitrary: n skb inds)
  case Nil
  then show ?case by (intro exI [of _ skb]) simp
next
  case (Cons p ps)
  let ?ys = "concat (map up_bytes ps) @ rest"
  have size: "length (up_bytes p) = up_size p" using Cons.prems(1) by (simp add: up_ok_def)
  have mem: "mem_at (sk_data skb) 0 (up_bytes p @ ?ys)" "sk_len skb = length (up_bytes p) + length ?ys"
    using Cons.prems(3,4) by simp_all
  have "aggr_loop env n skb inds = aggr_loop env (n + 1) (skb_pull (up_size p) skb) (inds @ up_inds (usb_down env) p)"
    by (rule packet_step) (use Cons.prems mem size in auto)
  moreover obtain skb' where "mem_at (sk_data skb') 0 rest" "sk_len skb' = length rest"
    "aggr_loop env (n + 1) (skb_pull (up_size p) skb) (inds @ up_inds (usb_down env) p) =
     aggr_loop env (n + 1 + length ps) skb' ((inds @ up_inds (usb_down env) p) @ concat (map (up_inds (usb_down env)) ps))"
    using Cons.IH [of "skb_pull (up_size p) skb" "n + 1" "inds @ up_inds (usb_down env) p"] Cons.prems(1,2)
      pull_rest [OF mem] size by auto
  ultimately show ?case by (intro exI [of _ skb']) simp
qed

text \<open>A packet that is cut: its length is there, the rest is not.\<close>

definition pkt_cut :: "sk_buff \<Rightarrow> bool" where
  "pkt_cut skb \<longleftrightarrow>
     aicwf_another_ptk skb \<and> unat (pkt_len skb) \<le> sk_len skb \<and>
     sk_len skb < (if is_data skb then data_aggr_len skb else cfg_adjust_len skb + 4)"

lemma cut_loops:
  assumes "aggr_loop env n skb inds = Some r"
  shows "(\<forall>n. alloc_ok env n) \<longrightarrow> \<not> pkt_cut skb"
proof (rule aggr_loop.raw_induct [where P = "\<lambda>env n skb inds r. (\<forall>n. alloc_ok env n) \<longrightarrow> \<not> pkt_cut skb", OF _ assms])
  fix f :: "demux_env \<Rightarrow> nat \<Rightarrow> sk_buff \<Rightarrow> rx_ind list \<Rightarrow> (bool \<times> nat \<times> rx_ind list) option"
    and env n skb inds r
  assume IH: "\<And>env n skb inds r. f env n skb inds = Some r \<Longrightarrow> (\<forall>n. alloc_ok env n) \<longrightarrow> \<not> pkt_cut skb"
    and eq: "(if \<not> aicwf_another_ptk skb then Some (False, n, inds)
      else if sk_len skb < unat (pkt_len skb) then Some (False, n, inds)
      else if is_data skb then
        f env (n + 1) (skb_pull (data_aggr_len skb) skb)
          (if alloc_ok env n then inds @ [Rx_data (read_bytes skb 0 (data_aggr_len skb))] else inds)
      else if alloc_ok env n then
        f env (n + 1) (skb_pull (cfg_adjust_len skb + 4) skb) (inds @ cfg_inds (usb_down env) skb)
      else Some (True, n + 1, inds)) = Some r"
  show "(\<forall>n. alloc_ok env n) \<longrightarrow> \<not> pkt_cut skb"
  proof (intro impI notI)
    assume all: "\<forall>n. alloc_ok env n" and cut: "pkt_cut skb"
    have "(if is_data skb then skb_pull (data_aggr_len skb) skb else skb_pull (cfg_adjust_len skb + 4) skb) = skb"
      using cut by (auto simp: pkt_cut_def skb_pull_def)
    then have "\<exists>inds'. f env (n + 1) skb inds' = Some r"
      using eq cut all by (auto simp: pkt_cut_def split: if_splits)
    then show False using IH all cut by blast
  qed
qed

lemma cut_never_ends:
  assumes "\<forall>n. alloc_ok env n" and "pkt_cut skb"
  shows "aggr_loop env n skb inds = None"
  using assms cut_loops [of env n skb inds] by (cases "aggr_loop env n skb inds") blast+

lemma short_tail_ends:
  assumes "mem_at (sk_data skb) 0 rest" and "sk_len skb = length rest"
    and "length rest < 2 \<or> take 2 rest = [0, 0]"
  shows "aggr_loop env n skb inds = Some (False, n, inds)"
proof -
  have "\<not> aicwf_another_ptk skb"
  proof (cases "length rest < 2")
    case False
    then obtain ys where "rest = [0, 0] @ ys" using assms(3) append_take_drop_id [of 2 rest] by metis
    then show ?thesis using assms(1) by (simp add: aicwf_another_ptk_def le16_def)
  qed (use assms(2) in \<open>simp add: aicwf_another_ptk_def\<close>)
  then show ?thesis by (subst aggr_loop.simps) simp
qed

lemma head_of_part:
  assumes "mem_at (sk_data skb) 0 (take k (up_bytes p))" and "3 \<le> k"
  shows "up_head p skb"
proof -
  have "take 3 (up_bytes p) = take 3 (take k (up_bytes p))" using assms(2) by (simp add: min_def)
  then show ?thesis using mem_at_part [OF assms(1), of 0 3] assms(2) by (simp add: up_head_def up_bytes_def)
qed

text \<open>C7: An aggregate of complete packets is split into them: every packet reaches its handler, in
  order and with its own bytes, and the loop ends when less than a length follows, a zero
  length, or a packet shorter than the length it states.  When the last packet is cut
  so that its length still fits but the header or padding that comes on top does not, the loop
  never ends (it handles the same bytes again and again).\<close>

theorem aggregate_demux:
  assumes "\<forall>p\<in>set ps. up_ok p" and "\<forall>n. alloc_ok env n"
    and "mem_at (sk_data skb) 0 (concat (map up_bytes ps) @ rest)"
    and "sk_len skb = length (concat (map up_bytes ps) @ rest)"
  shows "(length rest < 2 \<or> take 2 rest = [0, 0] \<or>
       (\<exists>p k. up_ok p \<and> rest = take k (up_bytes p) \<and> 3 \<le> k \<and> k < unat (up_len p)) \<longrightarrow>
       aggr_loop env n skb inds =
         Some (False, n + length ps, inds @ concat (map (up_inds (usb_down env)) ps))) \<and>
     ((\<exists>p k. up_ok p \<and> rest = take k (up_bytes p) \<and> 3 \<le> k \<and> unat (up_len p) \<le> k \<and> k < up_size p) \<longrightarrow>
       aggr_loop env n skb inds = None)"
proof -
  obtain skb' where s: "mem_at (sk_data skb') 0 rest" "sk_len skb' = length rest"
      "aggr_loop env n skb inds = aggr_loop env (n + length ps) skb' (inds @ concat (map (up_inds (usb_down env)) ps))"
    using packets_steps [OF assms] by blast
  have part: "up_head p skb'" "length rest = k" if "up_ok p" "rest = take k (up_bytes p)" "3 \<le> k" "k < up_size p" for p k
    using that s(1) head_of_part [of skb' k p] by (auto simp: up_ok_def)
  have ends: "aggr_loop env (n + length ps) skb' evs = Some (False, n + length ps, evs)"
    if "up_ok p" "rest = take k (up_bytes p)" "3 \<le> k" "k < unat (up_len p)" for p k evs
  proof -
    have "k < up_size p" using that(4) up_size_len [of p] by linarith
    note h = part [OF that(1-3) this]
    have "sk_len skb' < unat (pkt_len skb')" using head_facts(1) [OF h(1) that(1)] h(2) that(4) s(2) by simp
    then show ?thesis by (subst aggr_loop.simps) simp
  qed
  have never: "aggr_loop env (n + length ps) skb' evs = None"
    if "up_ok p" "rest = take k (up_bytes p)" "3 \<le> k" "unat (up_len p) \<le> k" "k < up_size p" for p k evs
  proof -
    note h = part [OF that(1-3,5)]
    have "pkt_cut skb'"
      using head_facts(1-3) [OF h(1) that(1)] h(2) that s(2) up_ok_def [of p]
      by (simp add: pkt_cut_def aicwf_another_ptk_def pkt_len_def [symmetric])
    then show ?thesis by (rule cut_never_ends [OF assms(2)])
  qed
  show ?thesis
    unfolding s(3) using ends never short_tail_ends [OF s(1,2)] by blast
qed

definition demo_packet :: usb_packet where
  "demo_packet = \<lparr>up_len = 2, up_type = USB_TYPE_CFG_CMD_RSP, up_rest = [0, 7, 9, 0, 0]\<rparr>"

definition demo_demux :: demux_env where
  "demo_demux = \<lparr>alloc_ok = (\<lambda>_. True), usb_down = False\<rparr>"

definition skb_of :: "bytes \<Rightarrow> sk_buff" where
  "skb_of xs = \<lparr>sk_id = [], sk_data = (\<lambda>i. if i < length xs then xs ! i else 0), sk_len = length xs\<rparr>"

lemma mem_skb_of: "mem_at (sk_data (skb_of xs)) 0 xs" "sk_len (skb_of xs) = length xs"
  by (simp_all add: skb_of_def mem_at_def)

lemma aggregate_demux_witness:
  "aggr_loop demo_demux 0 (skb_of (up_bytes demo_packet @ up_bytes demo_packet)) [] =
     Some (False, 2, [Rx_msg [7, 9], Rx_msg [7, 9]]) \<and>
   aggr_loop demo_demux 0 (skb_of (up_bytes demo_packet @ take 6 (up_bytes demo_packet))) [] = None"
proof -
  have ok: "up_ok demo_packet" and len: "up_size demo_packet = 8" "up_len demo_packet = 2"
    and inds: "up_inds False demo_packet = [Rx_msg [7, 9]]"
    by (simp_all add: up_ok_def up_size_def up_bytes_def up_data_def up_inds_def demo_packet_def roundup_def
        USB_TYPE_CFG_def USB_TYPE_CFG_CMD_RSP_def)
  have all: "\<forall>n. alloc_ok demo_demux n" "usb_down demo_demux = False" by (simp_all add: demo_demux_def)
  have "aggr_loop demo_demux 0 (skb_of (up_bytes demo_packet @ up_bytes demo_packet)) [] =
     Some (False, 2, [Rx_msg [7, 9], Rx_msg [7, 9]])"
    using aggregate_demux [of "[demo_packet, demo_packet]" demo_demux "skb_of (up_bytes demo_packet @ up_bytes demo_packet)" "[]" 0 "[]"]
      ok all mem_skb_of [of "up_bytes demo_packet @ up_bytes demo_packet"] inds by simp
  moreover have "aggr_loop demo_demux 0 (skb_of (up_bytes demo_packet @ take 6 (up_bytes demo_packet))) [] = None"
  proof -
    have "\<exists>p k. up_ok p \<and> take 6 (up_bytes demo_packet) = take k (up_bytes p) \<and> 3 \<le> k \<and> unat (up_len p) \<le> k \<and> k < up_size p"
      by (rule exI [of _ demo_packet], rule exI [of _ 6]) (simp add: ok len)
    then show ?thesis
      using aggregate_demux [of "[demo_packet]" demo_demux "skb_of (up_bytes demo_packet @ take 6 (up_bytes demo_packet))"
          "take 6 (up_bytes demo_packet)" 0 "[]"]
        ok all mem_skb_of [of "up_bytes demo_packet @ take 6 (up_bytes demo_packet)"] by simp
  qed
  ultimately show ?thesis by blast
qed

end
