(* ===== verification/RxHdr.thy ===== *)
theory RxHdr
  imports Prelude
begin

unbundle bit_operations_syntax

section \<open>The receive descriptor\<close>

text \<open>
  \<open>struct hw_rxhdr\<close> of \<open>rwnx_rx.h\<close>: the 56 bytes that the firmware puts in front of every received
  frame, with their bit fields, in the layout of the compiler (little-endian, fields packed from the
  low bits).  \<open>rwnx_rx_vector_convert\<close> rewrites the receive vector of an old modem into the new
  layout, \<open>rwnx_rx_statistic\<close> counts the frame.
\<close>

subsection \<open>Bit fields in memory\<close>

definition mem_bit :: "mem \<Rightarrow> nat \<Rightarrow> bool" where
  "mem_bit m k = bit (m (k div 8)) (k mod 8)"

definition bits :: "mem \<Rightarrow> nat \<Rightarrow> nat \<Rightarrow> nat" where
  "bits m off len = horner_sum of_bool 2 (map (mem_bit m) [off..<off + len])"

definition set_bits :: "nat \<Rightarrow> nat \<Rightarrow> nat \<Rightarrow> mem \<Rightarrow> mem" where
  "set_bits off len v m = (\<lambda>i. horner_sum of_bool 2 (map (\<lambda>j.
     if off \<le> 8 * i + j \<and> 8 * i + j < off + len then bit v (8 * i + j - off) else bit (m i) j) [0..<8]))"

lemma bit_bits: "bit (bits m off len) k \<longleftrightarrow> k < len \<and> mem_bit m (off + k)"
  by (auto simp: bits_def bit_horner_sum_bit_iff)

lemma mem_bit_set_bits:
  "mem_bit (set_bits off len v m) k =
     (if off \<le> k \<and> k < off + len then bit v (k - off) else mem_bit m k)"
  by (simp add: mem_bit_def set_bits_def bit_horner_sum_bit_iff)

lemma bits_set_same: "bits (set_bits off len v m) off len = v mod 2 ^ len"
proof -
  have "bits (set_bits off len v m) off len = take_bit len v"
    by (rule bit_eqI) (auto simp: bit_bits mem_bit_set_bits bit_take_bit_iff)
  then show ?thesis by (simp add: take_bit_eq_mod)
qed

lemma bits_set_other:
  "off' + len' \<le> off \<or> off + len \<le> off' \<Longrightarrow> bits (set_bits off len v m) off' len' = bits m off' len'"
  by (rule bit_eqI) (auto simp: bit_bits mem_bit_set_bits)

lemma bits_less: "bits m off len < 2 ^ len"
proof -
  have "take_bit len (bits m off len) = bits m off len"
    by (rule bit_eqI) (auto simp: bit_bits bit_take_bit_iff)
  then show ?thesis by (metis take_bit_nat_less_exp)
qed


type_synonym field = "nat \<times> nat"

definition get :: "field \<Rightarrow> mem \<Rightarrow> nat" where
  "get f m = bits m (fst f) (snd f)"

definition puts :: "(field \<times> nat) list \<Rightarrow> mem \<Rightarrow> mem" where
  "puts fs m = fold (\<lambda>(f, v). set_bits (fst f) (snd f) v) fs m"

definition flag :: "field \<Rightarrow> mem \<Rightarrow> bool" where
  "flag f m \<longleftrightarrow> get f m \<noteq> 0"

definition memset0 :: "nat \<Rightarrow> nat \<Rightarrow> mem \<Rightarrow> mem" where
  "memset0 p n m = (\<lambda>i. if p \<le> i \<and> i < p + n then 0 else m i)"

lemma puts_Nil: "puts [] m = m"
  by (simp add: puts_def)

lemma puts_Cons: "puts ((f, v) # fs) m = puts fs (set_bits (fst f) (snd f) v m)"
  by (simp add: puts_def)

definition apart :: "field \<Rightarrow> field \<Rightarrow> bool" where
  "apart f g \<longleftrightarrow> fst f + snd f \<le> fst g \<or> fst g + snd g \<le> fst f"

lemma get_puts_other: "\<forall>x\<in>set fs. apart f (fst x) \<Longrightarrow> get f (puts fs m) = get f m"
proof (induction fs arbitrary: m)
  case Nil
  then show ?case by (simp add: puts_Nil)
next
  case (Cons x fs)
  obtain g v where x: "x = (g, v)" by (cases x)
  have "get f (puts (x # fs) m) = get f (set_bits (fst g) (snd g) v m)"
    using Cons by (simp add: x puts_Cons)
  also have "\<dots> = get f m"
    using Cons.prems by (simp add: x get_def apart_def bits_set_other)
  finally show ?case .
qed

text \<open>The last assignment to a field is what is read back, cut to the width of the field.\<close>

fun last_put :: "field \<Rightarrow> (field \<times> nat) list \<Rightarrow> nat \<Rightarrow> nat" where
  "last_put f [] d = d"
| "last_put f ((g, v) # fs) d = last_put f fs (if g = f then v mod 2 ^ snd f else d)"

lemma get_puts: "\<forall>x\<in>set fs. fst x = f \<or> apart f (fst x) \<Longrightarrow> get f (puts fs m) = last_put f fs (get f m)"
proof (induction fs arbitrary: m)
  case Nil
  then show ?case by (simp add: puts_Nil)
next
  case (Cons x fs)
  obtain g v where x: "x = (g, v)" by (cases x)
  have "get f (set_bits (fst g) (snd g) v m) = (if g = f then v mod 2 ^ snd f else get f m)"
    using Cons.prems by (auto simp: x get_def apart_def bits_set_same bits_set_other)
  then show ?case
    using Cons by (simp add: x puts_Cons)
qed

lemma mem_bit_memset0: "mem_bit (memset0 p n m) k \<longleftrightarrow> \<not> (p \<le> k div 8 \<and> k div 8 < p + n) \<and> mem_bit m k"
  by (simp add: mem_bit_def memset0_def)

lemma get_memset0_in:
  assumes "8 * p \<le> fst f" and "fst f + snd f \<le> 8 * (p + n)"
  shows "get f (memset0 p n m) = 0"
proof -
  have "p \<le> k div 8 \<and> k div 8 < p + n" if "fst f \<le> k" "k < fst f + snd f" for k
    using that assms by (auto simp: less_eq_div_iff_mult_less_eq div_less_iff_less_mult ac_simps)
  then show ?thesis
    unfolding get_def by (intro bit_eqI) (auto simp: bit_bits mem_bit_memset0)
qed

lemma get_memset0_out:
  assumes "fst f + snd f \<le> 8 * p \<or> 8 * (p + n) \<le> fst f"
  shows "get f (memset0 p n m) = get f m"
proof -
  have "\<not> (p \<le> k div 8 \<and> k div 8 < p + n)" if "fst f \<le> k" "k < fst f + snd f" for k
    using that assms by (auto simp: less_eq_div_iff_mult_less_eq div_less_iff_less_mult ac_simps)
  then show ?thesis
    unfolding get_def by (intro bit_eqI) (auto simp: bit_bits mem_bit_memset0)
qed

subsection \<open>The fields\<close>

text \<open>Offset and width in bits.  \<open>hwvect\<close>, the status word, the channel and the flags.\<close>

definition hwvect_len :: field where "hwvect_len = (0, 16)"
definition mpdu_cnt :: field where "mpdu_cnt = (24, 6)"
definition ampdu_cnt :: field where "ampdu_cnt = (30, 2)"
definition tsf_lo :: field where "tsf_lo = (32, 32)"
definition tsf_hi :: field where "tsf_hi = (64, 32)"
definition decr_status :: field where "decr_status = (290, 3)"
definition ga_frame :: field where "ga_frame = (298, 1)"
definition frm_successful_rx :: field where "frm_successful_rx = (301, 1)"
definition phy_band :: field where "phy_band = (320, 8)"
definition phy_prim20_freq :: field where "phy_prim20_freq = (336, 16)"
definition phy_center2_freq :: field where "phy_center2_freq = (368, 16)"
definition flags_is_amsdu :: field where "flags_is_amsdu = (384, 1)"
definition flags_is_80211_mpdu :: field where "flags_is_80211_mpdu = (385, 1)"
definition flags_is_4addr :: field where "flags_is_4addr = (386, 1)"
definition flags_new_peer :: field where "flags_new_peer = (387, 1)"
definition flags_need_reord :: field where "flags_need_reord = (389, 1)"
definition flags_upload :: field where "flags_upload = (390, 1)"
definition is_monitor_vif :: field where "is_monitor_vif = (391, 1)"
definition flags_vif_idx :: field where "flags_vif_idx = (392, 8)"
definition flags_sta_idx :: field where "flags_sta_idx = (400, 8)"
definition flags_dst_idx :: field where "flags_dst_idx = (408, 8)"

text \<open>\<open>struct rx_vector_1\<close>: the common part, then the members of its union.\<close>

definition format_mod :: field where "format_mod = (96, 4)"
definition ch_bw :: field where "ch_bw = (100, 3)"
definition pre_type :: field where "pre_type = (103, 1)"
definition antenna_set :: field where "antenna_set = (104, 8)"
definition rssi_leg :: field where "rssi_leg = (112, 8)"
definition leg_length :: field where "leg_length = (120, 12)"
definition leg_rate :: field where "leg_rate = (132, 4)"
definition rssi1 :: field where "rssi1 = (136, 8)"

definition leg_dyn_bw :: field where "leg_dyn_bw = (144, 1)"
definition leg_chn_bw :: field where "leg_chn_bw = (145, 2)"
definition leg_lsig_valid :: field where "leg_lsig_valid = (151, 1)"

definition ht_sounding :: field where "ht_sounding = (144, 1)"
definition ht_smoothing :: field where "ht_smoothing = (145, 1)"
definition ht_short_gi :: field where "ht_short_gi = (146, 1)"
definition ht_aggregation :: field where "ht_aggregation = (147, 1)"
definition ht_stbc :: field where "ht_stbc = (148, 1)"
definition ht_num_extn_ss :: field where "ht_num_extn_ss = (149, 2)"
definition ht_lsig_valid :: field where "ht_lsig_valid = (151, 1)"
definition ht_mcs :: field where "ht_mcs = (152, 7)"
definition ht_fec :: field where "ht_fec = (159, 1)"
definition ht_length :: field where "ht_length = (160, 16)"

definition vht_sounding :: field where "vht_sounding = (144, 1)"
definition vht_beamformed :: field where "vht_beamformed = (145, 1)"
definition vht_short_gi :: field where "vht_short_gi = (146, 1)"
definition vht_stbc :: field where "vht_stbc = (148, 1)"
definition vht_doze :: field where "vht_doze = (149, 1)"
definition vht_first_user :: field where "vht_first_user = (150, 1)"
definition vht_partial_aid :: field where "vht_partial_aid = (152, 9)"
definition vht_group_id :: field where "vht_group_id = (161, 6)"
definition vht_mcs :: field where "vht_mcs = (168, 4)"
definition vht_nss :: field where "vht_nss = (172, 3)"
definition vht_fec :: field where "vht_fec = (175, 1)"
definition vht_length :: field where "vht_length = (176, 20)"

definition he_beamformed :: field where "he_beamformed = (145, 1)"
definition he_gi_type :: field where "he_gi_type = (146, 2)"
definition he_stbc :: field where "he_stbc = (148, 1)"
definition he_uplink_flag :: field where "he_uplink_flag = (152, 1)"
definition he_beam_change :: field where "he_beam_change = (153, 1)"
definition he_dcm :: field where "he_dcm = (154, 1)"
definition he_ltf_type :: field where "he_ltf_type = (155, 2)"
definition he_doppler :: field where "he_doppler = (157, 1)"
definition he_bss_color :: field where "he_bss_color = (160, 6)"
definition he_ru_size :: field where "he_ru_size = (189, 3)"
definition he_mcs :: field where "he_mcs = (192, 4)"
definition he_nss :: field where "he_nss = (196, 3)"
definition he_fec :: field where "he_fec = (199, 1)"

text \<open>\<open>struct rx_vector_1_old\<close> in the same bytes.\<close>

definition old_leg_length :: field where "old_leg_length = (96, 12)"
definition old_leg_rate :: field where "old_leg_rate = (108, 4)"
definition old_ht_length :: field where "old_ht_length = (112, 16)"
definition old_ht_length_hi :: field where "old_ht_length_hi = (128, 4)"
definition old_short_gi :: field where "old_short_gi = (132, 1)"
definition old_stbc :: field where "old_stbc = (133, 2)"
definition old_smoothing :: field where "old_smoothing = (135, 1)"
definition old_mcs :: field where "old_mcs = (136, 7)"
definition old_pre_type :: field where "old_pre_type = (143, 1)"
definition old_format_mod :: field where "old_format_mod = (144, 3)"
definition old_ch_bw :: field where "old_ch_bw = (147, 2)"
definition old_n_sts :: field where "old_n_sts = (149, 3)"
definition old_lsig_valid :: field where "old_lsig_valid = (152, 1)"
definition old_sounding :: field where "old_sounding = (153, 1)"
definition old_num_extn_ss :: field where "old_num_extn_ss = (154, 2)"
definition old_aggregation :: field where "old_aggregation = (156, 1)"
definition old_fec_coding :: field where "old_fec_coding = (157, 1)"
definition old_dyn_bw :: field where "old_dyn_bw = (158, 1)"
definition old_doze :: field where "old_doze = (159, 1)"
definition old_antenna_set :: field where "old_antenna_set = (160, 8)"
definition old_partial_aid :: field where "old_partial_aid = (168, 9)"
definition old_group_id :: field where "old_group_id = (177, 6)"
definition old_first_user :: field where "old_first_user = (183, 1)"
definition old_rssi1 :: field where "old_rssi1 = (184, 8)"

text \<open>\<open>struct rx_vector_2\<close>, new and old.\<close>

definition rcpi :: "nat \<Rightarrow> field" where "rcpi k = (224 + 8 * k, 8)"
definition evm :: "nat \<Rightarrow> field" where "evm k = (256 + 8 * k, 8)"
definition old_rcpi :: field where "old_rcpi = (224, 8)"
definition old_evm :: "nat \<Rightarrow> field" where "old_evm k = (232 + 8 * k, 8)"

lemmas vect_fields = format_mod_def ch_bw_def pre_type_def antenna_set_def rssi_leg_def leg_length_def
  leg_rate_def rssi1_def leg_dyn_bw_def leg_chn_bw_def leg_lsig_valid_def ht_sounding_def ht_smoothing_def
  ht_short_gi_def ht_aggregation_def ht_stbc_def ht_num_extn_ss_def ht_lsig_valid_def ht_mcs_def ht_fec_def
  ht_length_def vht_sounding_def vht_beamformed_def vht_short_gi_def vht_stbc_def vht_doze_def
  vht_first_user_def vht_partial_aid_def vht_group_id_def vht_mcs_def vht_nss_def vht_fec_def vht_length_def
  rcpi_def evm_def


subsection \<open>Converting the vectors of an old modem\<close>

definition FORMATMOD_NON_HT :: nat where "FORMATMOD_NON_HT = 0"
definition FORMATMOD_NON_HT_DUP_OFDM :: nat where "FORMATMOD_NON_HT_DUP_OFDM = 1"
definition FORMATMOD_HT_MF :: nat where "FORMATMOD_HT_MF = 2"
definition FORMATMOD_HT_GF :: nat where "FORMATMOD_HT_GF = 3"
definition FORMATMOD_VHT :: nat where "FORMATMOD_VHT = 4"
definition FORMATMOD_HE_SU :: nat where "FORMATMOD_HE_SU = 5"

lemmas formatmods = FORMATMOD_NON_HT_def FORMATMOD_NON_HT_DUP_OFDM_def FORMATMOD_HT_MF_def
  FORMATMOD_HT_GF_def FORMATMOD_VHT_def FORMATMOD_HE_SU_def

definition MDM_MAJOR_VERSION :: "u32 \<Rightarrow> u32" where
  "MDM_MAJOR_VERSION v = drop_bit 24 (v AND 0xFF000000)"

definition convert_common :: "mem \<Rightarrow> (field \<times> nat) list" where
  "convert_common old =
     [(format_mod, get old_format_mod old), (ch_bw, get old_ch_bw old),
      (antenna_set, get old_antenna_set old), (leg_length, get old_leg_length old),
      (leg_rate, get old_leg_rate old), (rssi1, get old_rssi1 old)]"

definition convert_leg :: "mem \<Rightarrow> (field \<times> nat) list" where
  "convert_leg old =
     [(leg_lsig_valid, get old_lsig_valid old), (leg_chn_bw, get old_num_extn_ss old),
      (leg_dyn_bw, get old_dyn_bw old)]"

definition convert_ht :: "mem \<Rightarrow> (field \<times> nat) list" where
  "convert_ht old =
     [(ht_aggregation, get old_aggregation old), (ht_fec, get old_fec_coding old),
      (ht_lsig_valid, get old_lsig_valid old), (ht_length, get old_ht_length old),
      (ht_mcs, get old_mcs old), (ht_num_extn_ss, get old_num_extn_ss old),
      (ht_short_gi, get old_short_gi old), (ht_smoothing, get old_smoothing old),
      (ht_sounding, get old_sounding old), (ht_stbc, get old_stbc old)]"

definition convert_vht :: "mem \<Rightarrow> (field \<times> nat) list" where
  "convert_vht old =
     [(vht_beamformed, if flag old_smoothing old then 0 else 1), (vht_fec, get old_fec_coding old),
      (vht_length, get old_ht_length old OR push_bit 8 (get old_ht_length_hi old)),
      (vht_mcs, get old_mcs old AND 0x0F),
      (vht_nss, if flag old_stbc old then get old_n_sts old div 2 else get old_n_sts old),
      (vht_doze, get old_doze old), (vht_short_gi, get old_short_gi old),
      (vht_sounding, get old_sounding old), (vht_stbc, get old_stbc old),
      (vht_group_id, get old_group_id old), (vht_partial_aid, get old_partial_aid old),
      (vht_first_user, get old_first_user old)]"

definition convert_vect2 :: "mem \<Rightarrow> (field \<times> nat) list" where
  "convert_vect2 old =
     [(rcpi 0, get old_rcpi old), (rcpi 1, get old_rcpi old), (rcpi 2, get old_rcpi old),
      (rcpi 3, get old_rcpi old), (evm 0, get (old_evm 0) old), (evm 1, get (old_evm 1) old),
      (evm 2, get (old_evm 2) old), (evm 3, get (old_evm 3) old)]"

text \<open>
  The descriptor after \<open>rwnx_rx_vector_convert\<close> on its two receive vectors, which start at bytes
  12 and 28.  The switch tests the format already converted.
\<close>

definition rwnx_rx_vector_convert :: "u32 \<Rightarrow> mem \<Rightarrow> mem" where
  "rwnx_rx_vector_convert version_phy_2 m =
     (if 0 < MDM_MAJOR_VERSION version_phy_2 then puts [(rssi1, get rssi_leg m)] m
      else
        (let v1 = puts (convert_common m) (memset0 12 16 m);
             fmt = get format_mod v1;
             v2 = (if fmt = FORMATMOD_NON_HT \<or> fmt = FORMATMOD_NON_HT_DUP_OFDM then puts (convert_leg m) v1
                   else if fmt = FORMATMOD_HT_MF \<or> fmt = FORMATMOD_HT_GF then puts (convert_ht m) v1
                   else if fmt = FORMATMOD_VHT then puts (convert_vht m) v1
                   else v1)
         in puts (convert_vect2 m) (memset0 28 8 v2)))"

subsection \<open>Receive statistics\<close>

definition legrates_idx :: "nat \<Rightarrow> int" where
  "legrates_idx r = [0, 1, 2, 3, - 1, - 1, - 1, - 1, 10, 8, 6, 4, 11, 9, 7, 5] ! r"

definition N_CCK :: int where "N_CCK = 8"
definition N_OFDM :: int where "N_OFDM = 8"
definition N_HT :: int where "N_HT = 8 * 2 * 2 * 4"
definition N_VHT :: int where "N_VHT = 10 * 4 * 2 * 8"
definition N_HE_SU :: int where "N_HE_SU = 12 * 4 * 3 * 8"

lemmas rate_counts = N_CCK_def N_OFDM_def N_HT_def N_VHT_def N_HE_SU_def

definition geti :: "field \<Rightarrow> mem \<Rightarrow> int" where
  "geti f m = int (get f m)"

definition rx_rate_idx :: "mem \<Rightarrow> int" where
  "rx_rate_idx m =
     (let fmt = get format_mod m; bw = geti ch_bw m in
      if FORMATMOD_NON_HT_DUP_OFDM < fmt then
        if fmt = FORMATMOD_HT_MF \<or> fmt = FORMATMOD_HT_GF then
          N_CCK + N_OFDM + (geti ht_mcs m div 8) * 32 + (geti ht_mcs m mod 8) * 4 + bw * 2 + geti ht_short_gi m
        else if fmt = FORMATMOD_VHT then
          N_CCK + N_OFDM + N_HT + geti vht_nss m * 80 + geti vht_mcs m * 8 + bw * 2 + geti vht_short_gi m
        else if fmt = FORMATMOD_HE_SU then
          N_CCK + N_OFDM + N_HT + N_VHT + geti he_nss m * 144 + geti he_mcs m * 12 + bw * 3 + geti he_gi_type m
        else
          N_CCK + N_OFDM + N_HT + N_VHT + N_HE_SU + geti he_nss m * 216 + geti he_mcs m * 18
            + geti he_ru_size m * 3 + geti he_gi_type m
      else
        (let idx = legrates_idx (get leg_rate m) in
         if idx < 4 then idx * 2 + geti pre_type m else N_CCK + idx - 4))"

text \<open>The counters are C \<open>int\<close>s, kept as integers in range: every sum is reduced to 32 bits.\<close>

definition c_int :: "int \<Rightarrow> int" where
  "c_int x = (x + 2 ^ 31) mod 2 ^ 32 - 2 ^ 31"

lemma c_int_id: "- (2 ^ 31) \<le> x \<Longrightarrow> x < 2 ^ 31 \<Longrightarrow> c_int x = x"
  by (simp add: c_int_def)

record rwnx_rx_stats =
  ampdus_rx :: "int list"
  ampdus_rx_map :: "int list"
  ampdus_rx_miss :: int
  rate_table :: "int list"
  rate_cpt :: int
  rate_cnt :: int

text \<open>The counters of \<open>rwnx_hw\<close> and of the station; \<open>None\<close> is a write in front of the rate table.\<close>

definition count_ampdu :: "mem \<Rightarrow> rwnx_rx_stats \<Rightarrow> rwnx_rx_stats" where
  "count_ampdu m st =
     (let mpdu = geti mpdu_cnt m; a = get ampdu_cnt m; prev = ampdus_rx_map st ! a;
          st1 = (if prev < mpdu then st\<lparr>ampdus_rx_miss := c_int (ampdus_rx_miss st + (mpdu - prev - 1))\<rparr>
                 else st\<lparr>ampdus_rx := (ampdus_rx st)[nat prev := c_int (ampdus_rx st ! nat prev + 1)]\<rparr>)
      in st1\<lparr>ampdus_rx_map := (ampdus_rx_map st1)[a := mpdu]\<rparr>)"

definition rwnx_rx_statistic :: "mem \<Rightarrow> rwnx_rx_stats \<Rightarrow> rwnx_rx_stats option" where
  "rwnx_rx_statistic m st0 =
     (let st = count_ampdu m st0; i = rx_rate_idx m in
      if rate_table st = [] then Some st
      else if int (length (rate_table st)) \<le> i then Some st
      else if i < 0 then None
      else
        Some (st\<lparr>rate_cnt := (if rate_table st ! nat i = 0 then c_int (rate_cnt st + 1) else rate_cnt st),
                 rate_table := (rate_table st)[nat i := c_int (rate_table st ! nat i + 1)],
                 rate_cpt := c_int (rate_cpt st + 1)\<rparr>))"


subsection \<open>What the conversion keeps\<close>

lemma get_less: "get f m < 2 ^ snd f"
  by (simp add: get_def bits_less)

lemmas old_fields = old_leg_length_def old_leg_rate_def old_ht_length_def old_ht_length_hi_def old_short_gi_def
  old_stbc_def old_smoothing_def old_mcs_def old_pre_type_def old_format_mod_def old_ch_bw_def old_n_sts_def
  old_lsig_valid_def old_sounding_def old_num_extn_ss_def old_aggregation_def old_fec_coding_def old_dyn_bw_def
  old_doze_def old_antenna_set_def old_partial_aid_def old_group_id_def old_first_user_def old_rssi1_def
  old_rcpi_def old_evm_def

lemmas convert_lists = convert_common_def convert_leg_def convert_ht_def convert_vht_def convert_vect2_def

abbreviation vect_part :: "mem \<Rightarrow> mem" where
  "vect_part m \<equiv> puts (convert_common m) (memset0 12 16 m)"

lemma common_format: "get format_mod (vect_part m) = get old_format_mod m"
proof -
  have "get format_mod (vect_part m) = get old_format_mod m mod 2 ^ 4"
    by (subst get_puts) (simp_all add: convert_common_def vect_fields apart_def)
  also have "\<dots> = get old_format_mod m"
    using get_less [of old_format_mod m] by (simp add: old_format_mod_def)
  finally show ?thesis .
qed

text \<open>The list of assignments that a format adds.\<close>

definition convert_union :: "mem \<Rightarrow> (field \<times> nat) list" where
  "convert_union m =
     (let fmt = get old_format_mod m in
      if fmt \<le> 1 then convert_leg m else if fmt \<le> 3 then convert_ht m
      else if fmt = 4 then convert_vht m else [])"

lemma puts_append: "puts (xs @ ys) m = puts ys (puts xs m)"
  by (simp add: puts_def)

lemma convert_old:
  assumes "MDM_MAJOR_VERSION v = 0"
  shows "rwnx_rx_vector_convert v m =
    puts (convert_vect2 m) (memset0 28 8 (puts (convert_common m @ convert_union m) (memset0 12 16 m)))"
proof -
  have "get old_format_mod m < 8"
    using get_less [of old_format_mod m] by (simp add: old_format_mod_def)
  then show ?thesis
    using assms by (auto simp: rwnx_rx_vector_convert_def common_format Let_def convert_union_def puts_append
        formatmods puts_Nil)
qed

definition inside :: "nat \<Rightarrow> nat \<Rightarrow> field \<Rightarrow> bool" where
  "inside a b f \<longleftrightarrow> a \<le> fst f \<and> fst f + snd f \<le> b"

lemma convert_inside:
  "\<forall>x\<in>set (convert_leg m). inside 144 224 (fst x)" "\<forall>x\<in>set (convert_ht m). inside 144 224 (fst x)"
  "\<forall>x\<in>set (convert_vht m). inside 144 224 (fst x)" "\<forall>x\<in>set (convert_common m). inside 96 144 (fst x)"
  "\<forall>x\<in>set (convert_vect2 m). inside 224 288 (fst x)"
  by (simp_all add: convert_lists vect_fields inside_def)

lemma union_inside: "\<forall>x\<in>set (convert_union m). inside 144 224 (fst x)"
  using convert_inside(1-3) [of m] by (auto simp: convert_union_def Let_def)

lemma inside_apart: "inside a b f \<Longrightarrow> fst g + snd g \<le> a \<or> b \<le> fst g \<Longrightarrow> apart g f"
  by (auto simp: inside_def apart_def)

lemma get_puts_outside:
  "\<forall>x\<in>set fs. inside a b (fst x) \<Longrightarrow> fst f + snd f \<le> a \<or> b \<le> fst f \<Longrightarrow> get f (puts fs m) = get f m"
  by (rule get_puts_other) (blast intro: inside_apart)

lemma get_convert_outside:
  assumes "MDM_MAJOR_VERSION v = 0" and "fst f + snd f \<le> 96 \<or> 288 \<le> fst f"
  shows "get f (rwnx_rx_vector_convert v m) = get f m"
proof -
  have "get f (puts (convert_vect2 m) m') = get f m'" for m'
    by (rule get_puts_outside [OF convert_inside(5)]) (use assms(2) in linarith)
  moreover have "get f (puts (convert_union m) m') = get f m'" for m'
    by (rule get_puts_outside [OF union_inside]) (use assms(2) in linarith)
  moreover have "get f (puts (convert_common m) m') = get f m'" for m'
    by (rule get_puts_outside [OF convert_inside(4)]) (use assms(2) in linarith)
  ultimately show ?thesis
    using assms by (auto simp: convert_old puts_append get_memset0_out)
qed

lemma get_convert_vect1:
  assumes "MDM_MAJOR_VERSION v = 0" and "inside 96 224 f"
  shows "get f (rwnx_rx_vector_convert v m) = get f (puts (convert_common m @ convert_union m) (memset0 12 16 m))"
proof -
  have "get f (puts (convert_vect2 m) m') = get f m'" for m'
    by (rule get_puts_outside [OF convert_inside(5)]) (use assms(2) in \<open>simp add: inside_def\<close>)
  then show ?thesis
    using assms by (simp add: convert_old get_memset0_out inside_def)
qed

lemma get_convert_common:
  assumes "MDM_MAJOR_VERSION v = 0" and "inside 96 144 f" and "\<forall>x\<in>set (convert_common m). fst x = f \<or> apart f (fst x)"
  shows "get f (rwnx_rx_vector_convert v m) = last_put f (convert_common m) 0"
proof -
  have "get f (puts (convert_union m) m') = get f m'" for m'
    by (rule get_puts_outside [OF union_inside]) (use assms(2) in \<open>simp add: inside_def\<close>)
  then show ?thesis
    using assms get_convert_vect1 [of v f m] by (simp add: inside_def puts_append get_puts get_memset0_in)
qed

lemma get_convert_union:
  assumes "MDM_MAJOR_VERSION v = 0" and "inside 144 224 f"
    and "\<forall>x\<in>set (convert_union m). fst x = f \<or> apart f (fst x)"
  shows "get f (rwnx_rx_vector_convert v m) = last_put f (convert_union m) 0"
proof -
  have "get f (puts (convert_common m) m') = get f m'" for m'
    by (rule get_puts_outside [OF convert_inside(4)]) (use assms(2) in \<open>simp add: inside_def\<close>)
  then show ?thesis
    using assms get_convert_vect1 [of v f m] by (simp add: inside_def puts_append get_puts get_memset0_in)
qed

lemma convert_common_fields:
  assumes "MDM_MAJOR_VERSION v = 0"
  shows "get format_mod (rwnx_rx_vector_convert v m) = get old_format_mod m"
    and "get ch_bw (rwnx_rx_vector_convert v m) = get old_ch_bw m"
    and "get antenna_set (rwnx_rx_vector_convert v m) = get old_antenna_set m"
    and "get leg_rate (rwnx_rx_vector_convert v m) = get old_leg_rate m"
    and "get rssi1 (rwnx_rx_vector_convert v m) = get old_rssi1 m"
    and "get pre_type (rwnx_rx_vector_convert v m) = 0"
  using get_less [of old_format_mod m] get_less [of old_ch_bw m] get_less [of old_antenna_set m]
    get_less [of old_leg_rate m] get_less [of old_rssi1 m] assms
  by (simp_all add: get_convert_common convert_common_def vect_fields old_fields inside_def apart_def)

lemma convert_ht_fields:
  assumes "MDM_MAJOR_VERSION v = 0" and "get old_format_mod m \<in> {2, 3}"
  shows "get ht_mcs (rwnx_rx_vector_convert v m) = get old_mcs m"
    and "get ht_short_gi (rwnx_rx_vector_convert v m) = get old_short_gi m"
    and "get ht_fec (rwnx_rx_vector_convert v m) = get old_fec_coding m"
    and "get ht_aggregation (rwnx_rx_vector_convert v m) = get old_aggregation m"
    and "get ht_stbc (rwnx_rx_vector_convert v m) = get old_stbc m mod 2"
proof -
  have u: "convert_union m = convert_ht m"
    using assms(2) by (auto simp: convert_union_def)
  show "get ht_mcs (rwnx_rx_vector_convert v m) = get old_mcs m"
    and "get ht_short_gi (rwnx_rx_vector_convert v m) = get old_short_gi m"
    and "get ht_fec (rwnx_rx_vector_convert v m) = get old_fec_coding m"
    and "get ht_aggregation (rwnx_rx_vector_convert v m) = get old_aggregation m"
    and "get ht_stbc (rwnx_rx_vector_convert v m) = get old_stbc m mod 2"
    using get_less [of old_mcs m] get_less [of old_short_gi m] get_less [of old_fec_coding m]
      get_less [of old_aggregation m] assms(1)
    by (simp_all add: get_convert_union u convert_ht_def vect_fields old_fields inside_def apart_def)
qed

lemma convert_vht_fields:
  assumes "MDM_MAJOR_VERSION v = 0" and "get old_format_mod m = 4"
  shows "get vht_mcs (rwnx_rx_vector_convert v m) = get old_mcs m mod 16"
    and "get vht_short_gi (rwnx_rx_vector_convert v m) = get old_short_gi m"
    and "get vht_fec (rwnx_rx_vector_convert v m) = get old_fec_coding m"
    and "get vht_nss (rwnx_rx_vector_convert v m) =
           (if get old_stbc m = 0 then get old_n_sts m else get old_n_sts m div 2)"
    and "get vht_stbc (rwnx_rx_vector_convert v m) = get old_stbc m mod 2"
proof -
  have u: "convert_union m = convert_vht m"
    using assms(2) by (auto simp: convert_union_def)
  have a: "get old_mcs m AND 0x0F = get old_mcs m mod 16"
    using and_exp_eq_0_iff_not_bit take_bit_eq_mask [of 4 "get old_mcs m"]
    by (simp add: take_bit_eq_mod mask_eq_exp_minus_1)
  show "get vht_mcs (rwnx_rx_vector_convert v m) = get old_mcs m mod 16"
    and "get vht_short_gi (rwnx_rx_vector_convert v m) = get old_short_gi m"
    and "get vht_fec (rwnx_rx_vector_convert v m) = get old_fec_coding m"
    and "get vht_nss (rwnx_rx_vector_convert v m) =
           (if get old_stbc m = 0 then get old_n_sts m else get old_n_sts m div 2)"
    and "get vht_stbc (rwnx_rx_vector_convert v m) = get old_stbc m mod 2"
    using get_less [of old_n_sts m] get_less [of old_short_gi m] get_less [of old_fec_coding m] assms(1) a
    by (simp_all add: get_convert_union u convert_vht_def vect_fields old_fields inside_def apart_def flag_def)
qed


subsection \<open>The statistics stay consistent\<close>

definition stats_ok :: "rwnx_rx_stats \<Rightarrow> bool" where
  "stats_ok st \<longleftrightarrow>
     64 \<le> length (ampdus_rx st) \<and> length (ampdus_rx_map st) = 4 \<and>
     (\<forall>x\<in>set (ampdus_rx_map st). 0 \<le> x \<and> x < 64) \<and>
     (\<forall>x\<in>set (rate_table st). 0 \<le> x) \<and> rate_cpt st = sum_list (rate_table st) \<and>
     rate_cnt st = int (count_if (\<lambda>x. x \<noteq> 0) (rate_table st))"

lemma count_ampdu_ok:
  assumes "stats_ok st"
  shows "stats_ok (count_ampdu m st)"
    and "rate_table (count_ampdu m st) = rate_table st"
    and "rate_cpt (count_ampdu m st) = rate_cpt st"
proof -
  have "get mpdu_cnt m < 64" "get ampdu_cnt m < 4"
    using get_less [of mpdu_cnt m] get_less [of ampdu_cnt m] by (simp_all add: mpdu_cnt_def ampdu_cnt_def)
  then show "stats_ok (count_ampdu m st)"
    using assms by (auto simp: stats_ok_def count_ampdu_def Let_def geti_def
        dest!: set_update_subset_insert [THEN subsetD])
  show "rate_table (count_ampdu m st) = rate_table st" "rate_cpt (count_ampdu m st) = rate_cpt st"
    by (simp_all add: count_ampdu_def Let_def)
qed

lemma legrates_range:
  assumes "r < 16"
  shows "- 1 \<le> legrates_idx r \<and> legrates_idx r < 12 \<and> (legrates_idx r = - 1 \<longleftrightarrow> r \<in> {4..7})"
proof -
  have "list_all (\<lambda>r. - 1 \<le> legrates_idx r \<and> legrates_idx r < 12 \<and>
      (legrates_idx r = - 1 \<longleftrightarrow> 4 \<le> r \<and> r \<le> 7)) [0..<16]"
    by code_simp
  then show ?thesis using assms by (simp add: list_all_iff)
qed

lemma rx_rate_idx_neg: "rx_rate_idx m < 0 \<longleftrightarrow> get format_mod m \<le> 1 \<and> get leg_rate m \<in> {4..7}"
proof -
  have r: "get leg_rate m < 16" and p: "get pre_type m < 2"
    using get_less [of leg_rate m] get_less [of pre_type m] by (simp_all add: leg_rate_def pre_type_def)
  have "0 \<le> rx_rate_idx m" if "2 \<le> get format_mod m"
    using that by (simp add: rx_rate_idx_def Let_def formatmods rate_counts geti_def)
  moreover have "rx_rate_idx m < 0 \<longleftrightarrow> get leg_rate m \<in> {4..7}" if "get format_mod m \<le> 1"
    using that legrates_range [OF r] p
    by (auto simp: rx_rate_idx_def Let_def formatmods rate_counts geti_def)
  ultimately show ?thesis
    by (metis not_less_eq_eq numeral_2_eq_2 One_nat_def not_le)
qed

lemma count_if_le_sum: "\<forall>x\<in>set xs. 0 \<le> x \<Longrightarrow> int (count_if (\<lambda>x. x \<noteq> 0) xs) \<le> sum_list xs" for xs :: "int list"
  by (induction xs) auto

lemma nth_le_sum: "\<forall>x\<in>set xs. 0 \<le> x \<Longrightarrow> i < length xs \<Longrightarrow> xs ! i \<le> sum_list xs" for xs :: "int list"
proof (induction xs arbitrary: i)
  case (Cons x xs)
  have "0 \<le> sum_list xs" using Cons.prems(1) by (simp add: sum_list_nonneg)
  then show ?case using Cons by (cases i) fastforce+
qed simp

lemma table_inc:
  assumes "stats_ok st" and "i < length (rate_table st)" and "rate_cpt st < 2 ^ 31 - 1"
  shows "stats_ok (st\<lparr>rate_cnt := (if rate_table st ! i = 0 then c_int (rate_cnt st + 1) else rate_cnt st),
     rate_table := (rate_table st)[i := c_int (rate_table st ! i + 1)], rate_cpt := c_int (rate_cpt st + 1)\<rparr>)"
proof -
  have pos: "\<forall>x\<in>set (rate_table st). 0 \<le> x" and cpt: "rate_cpt st = sum_list (rate_table st)"
    and cnt: "rate_cnt st = int (count_if (\<lambda>x. x \<noteq> 0) (rate_table st))"
    using assms(1) by (simp_all add: stats_ok_def)
  have n: "0 \<le> rate_table st ! i" "rate_table st ! i \<le> rate_cpt st"
    using pos assms(2) nth_le_sum [OF pos assms(2)] cpt by simp_all
  have c: "0 \<le> rate_cnt st" "rate_cnt st \<le> rate_cpt st"
    using count_if_le_sum [OF pos] cnt cpt by simp_all
  have w: "c_int (rate_cnt st + 1) = rate_cnt st + 1" "c_int (rate_table st ! i + 1) = rate_table st ! i + 1"
    "c_int (rate_cpt st + 1) = rate_cpt st + 1"
    using n c assms(3) by (simp_all add: c_int_id)
  have nz: "(rate_table st ! i + 1 \<noteq> 0) = True" using n(1) by simp
  have up: "count_if (\<lambda>x. x \<noteq> 0) ((rate_table st)[i := rate_table st ! i + 1]) =
      count_if (\<lambda>x. x \<noteq> 0) (rate_table st) + (if rate_table st ! i = 0 then 1 else 0)"
    using count_if_update [OF assms(2), of "\<lambda>x. x \<noteq> 0" "rate_table st ! i + 1"] unfolding nz
    by (auto split: if_splits)
  show ?thesis
    unfolding w using assms(1,2) n up sum_list_update_add [of i "rate_table st" "rate_table st ! i + 1"]
    by (auto simp: stats_ok_def dest!: set_update_subset_insert [THEN subsetD])
qed

text \<open>C40: Counting a received frame writes in front of the rate table exactly when the frame has one of
  the four invalid legacy rates; otherwise all indices are in range, and as long as fewer than 2^31 frames
  were counted for the station (the counters are C integers, which then wrap) the counters stay consistent:
  the number of frames is the sum of the table, the number of rates that of its non-zero entries, and at
  most one frame is counted at a time.\<close>

theorem rx_statistic_bounds:
  assumes "stats_ok st" and "rate_cpt st < 2 ^ 31 - 1"
  shows "(rwnx_rx_statistic m st = None \<longleftrightarrow>
      rate_table st \<noteq> [] \<and> get format_mod m \<le> 1 \<and> get leg_rate m \<in> {4..7}) \<and>
    (\<forall>st'. rwnx_rx_statistic m st = Some st' \<longrightarrow>
      stats_ok st' \<and> length (rate_table st') = length (rate_table st) \<and>
      rate_cpt st' = rate_cpt st + (if rx_rate_idx m < int (length (rate_table st)) \<and> rate_table st \<noteq> [] then 1 else 0))"
proof -
  let ?s = "count_ampdu m st"
  have ok: "stats_ok ?s" and t: "rate_table ?s = rate_table st" and c: "rate_cpt ?s = rate_cpt st"
    using count_ampdu_ok [OF assms(1)] by simp_all
  have pos: "0 \<le> rate_cpt st"
    using assms(1) by (simp add: stats_ok_def sum_list_nonneg)
  then have w: "c_int (rate_cpt st + 1) = rate_cpt st + 1"
    using assms(2) by (simp add: c_int_id)
  show ?thesis
    using rx_rate_idx_neg [of m] ok t c w table_inc [OF ok, of "nat (rx_rate_idx m)"] assms(2)
    by (auto simp: rwnx_rx_statistic_def Let_def)
qed

definition demo_stats :: rwnx_rx_stats where
  "demo_stats = \<lparr>ampdus_rx = replicate 64 0, ampdus_rx_map = [0, 0, 0, 0], ampdus_rx_miss = 0,
     rate_table = [0, 2, 0], rate_cpt = 2, rate_cnt = 1\<rparr>"

theorem rx_statistic_bounds_witness:
  "rwnx_rx_statistic (\<lambda>i. if i = 16 then 0x40 else 0) demo_stats = None \<and>
   rwnx_rx_statistic (\<lambda>_. 0) demo_stats \<noteq> None"
proof -
  have ok: "stats_ok demo_stats"
    by (simp add: stats_ok_def demo_stats_def)
  have f: "get format_mod (\<lambda>i. if i = 16 then 0x40 else 0) = 0" "get leg_rate (\<lambda>i. if i = 16 then 0x40 else 0) = 4"
    "get leg_rate (\<lambda>_. 0) = 0"
    by code_simp+
  have small: "rate_cpt demo_stats < 2 ^ 31 - 1"
    by (simp add: demo_stats_def)
  show ?thesis
    using rx_statistic_bounds [OF ok small, of "\<lambda>i. if i = 16 then 0x40 else 0"]
      rx_statistic_bounds [OF ok small, of "\<lambda>_. 0"] f
    by (simp add: demo_stats_def)
qed

text \<open>Converting the receive vector of an old modem keeps format, bandwidth, antennas, rate and
  signal strength, the modulation fields of HT and VHT frames (the STBC count only modulo 2), and every
  other field of the descriptor; the preamble type is lost.\<close>

lemma vector_convert_fields:
  assumes "MDM_MAJOR_VERSION v = 0" and "m' = rwnx_rx_vector_convert v m"
  shows "get format_mod m' = get old_format_mod m \<and> get ch_bw m' = get old_ch_bw m \<and>
    get antenna_set m' = get old_antenna_set m \<and> get leg_rate m' = get old_leg_rate m \<and>
    get rssi1 m' = get old_rssi1 m \<and> get pre_type m' = 0 \<and>
    (get old_format_mod m \<in> {2, 3} \<longrightarrow>
       get ht_mcs m' = get old_mcs m \<and> get ht_short_gi m' = get old_short_gi m \<and>
       get ht_fec m' = get old_fec_coding m \<and> get ht_aggregation m' = get old_aggregation m \<and>
       get ht_stbc m' = get old_stbc m mod 2) \<and>
    (get old_format_mod m = 4 \<longrightarrow>
       get vht_mcs m' = get old_mcs m mod 16 \<and> get vht_short_gi m' = get old_short_gi m \<and>
       get vht_fec m' = get old_fec_coding m \<and> get vht_stbc m' = get old_stbc m mod 2 \<and>
       get vht_nss m' = (if get old_stbc m = 0 then get old_n_sts m else get old_n_sts m div 2)) \<and>
    (\<forall>f. fst f + snd f \<le> 96 \<or> 288 \<le> fst f \<longrightarrow> get f m' = get f m)"
  using convert_common_fields [OF assms(1)] convert_ht_fields [OF assms(1)] convert_vht_fields [OF assms(1)]
    get_convert_outside [OF assms(1)]
  unfolding assms(2) by simp

lemma vector_convert_fields_witness:
  "\<exists>m'. m' = rwnx_rx_vector_convert 0 (\<lambda>i. if i = 18 then 2 else if i = 17 then 0x87 else 0) \<and>
    get format_mod m' = 2 \<and> get ht_mcs m' = 7 \<and> get pre_type m' = 0"
proof -
  let ?m = "\<lambda>i. if i = 18 then 2 else if i = 17 then 0x87 else 0 :: u8"
  have f: "get old_format_mod ?m = 2" "get old_mcs ?m = 7" "MDM_MAJOR_VERSION 0 = 0"
    by code_simp+
  show ?thesis
    using vector_convert_fields [of 0 "rwnx_rx_vector_convert 0 ?m" ?m] f by simp
qed

end
