(* ===== verification/Radiotap.thy ===== *)
theory Radiotap
  imports RxHdr Amsdu
begin

unbundle bit_operations_syntax

section \<open>Radiotap headers\<close>

text \<open>
  Monitor interfaces hand frames to the network stack behind a radiotap header.
  \<open>rwnx_rx_rtap_hdrlen\<close> computes the length to reserve, \<open>rwnx_rx_add_rtap_hdr\<close> fills the header in.
  The header is written into the memory of the frame, so that a write behind the reserved length would
  be seen in the frame.  The only caller passes no vendor data and the hardware vector.
\<close>

subsection \<open>The length\<close>

definition hweight :: "nat \<Rightarrow> nat" where
  "hweight a = length (filter (bit a) [0..<8])"

definition rtap_hdrlen :: "mem \<Rightarrow> nat" where
  "rtap_hdrlen v =
     (let ants = hweight (get antenna_set v); fmt = get format_mod v;
          l0 = 8 + 8;
          l1 = (if 1 < ants then l0 + 4 * ants else l0);
          l2 = roundup l1 8 + 8;
          l3 = l2 + 1;
          l4 = (if ants = 1 then l3 + 1 else l3);
          l5 = roundup l4 2;
          l6 = (if fmt = FORMATMOD_HT_MF \<or> fmt = FORMATMOD_HT_GF then l5 + 3 else l5);
          l7 = (if FORMATMOD_VHT \<le> fmt \<or> FORMATMOD_NON_HT_DUP_OFDM < fmt \<and> flag ht_aggregation v
                then roundup l6 4 + 8 else l6);
          l8 = (if fmt = FORMATMOD_VHT then roundup l7 2 + 12 else l7);
          l9 = (if fmt = FORMATMOD_HE_SU then roundup l8 2 + 12 else l8)
      in if 1 < ants then l9 + 2 * ants else l9)"

text \<open>The C function computes in a \<open>u8\<close>.\<close>

definition rwnx_rx_rtap_hdrlen :: "mem \<Rightarrow> u8" where
  "rwnx_rx_rtap_hdrlen v = of_nat (rtap_hdrlen v)"

subsection \<open>Writing the header\<close>

record rtap =
  rt_mem :: mem
  rt_pos :: nat

definition put8 :: "u8 \<Rightarrow> rtap \<Rightarrow> rtap" where
  "put8 b s = \<lparr>rt_mem = (rt_mem s)(rt_pos s := b), rt_pos = rt_pos s + 1\<rparr>"

fun put_bytes :: "bytes \<Rightarrow> rtap \<Rightarrow> rtap" where
  "put_bytes [] s = s"
| "put_bytes (b # bs) s = put_bytes bs (put8 b s)"

fun le_bytes :: "nat \<Rightarrow> nat \<Rightarrow> bytes" where
  "le_bytes 0 x = []"
| "le_bytes (Suc n) x = of_nat (x mod 256) # le_bytes n (x div 256)"

definition seek :: "nat \<Rightarrow> rtap \<Rightarrow> rtap" where
  "seek n s = s\<lparr>rt_pos := roundup (rt_pos s) n\<rparr>"

text \<open>Alignment that writes the padding.\<close>

definition pad :: "nat \<Rightarrow> rtap \<Rightarrow> rtap" where
  "pad n s = put_bytes (replicate (roundup (rt_pos s) n - rt_pos s) 0) s"

definition advance :: "nat \<Rightarrow> rtap \<Rightarrow> rtap" where
  "advance n s = s\<lparr>rt_pos := rt_pos s + n\<rparr>"

text \<open>\<open>rtap->it_present |= 1 << b\<close>, a little-endian word at byte 4.\<close>

definition present :: "nat \<Rightarrow> rtap \<Rightarrow> rtap" where
  "present b s =
     (let i = 4 + b div 8 in
      s\<lparr>rt_mem := (rt_mem s)(i := rt_mem s i OR push_bit (b mod 8) 1)\<rparr>)"

definition RADIOTAP_TSFT :: nat where "RADIOTAP_TSFT = 0"
definition RADIOTAP_FLAGS :: nat where "RADIOTAP_FLAGS = 1"
definition RADIOTAP_RATE :: nat where "RADIOTAP_RATE = 2"
definition RADIOTAP_CHANNEL :: nat where "RADIOTAP_CHANNEL = 3"
definition RADIOTAP_DBM_ANTSIGNAL :: nat where "RADIOTAP_DBM_ANTSIGNAL = 5"
definition RADIOTAP_ANTENNA :: nat where "RADIOTAP_ANTENNA = 11"
definition RADIOTAP_RX_FLAGS :: nat where "RADIOTAP_RX_FLAGS = 14"
definition RADIOTAP_MCS :: nat where "RADIOTAP_MCS = 19"
definition RADIOTAP_AMPDU_STATUS :: nat where "RADIOTAP_AMPDU_STATUS = 20"
definition RADIOTAP_VHT :: nat where "RADIOTAP_VHT = 21"
definition RADIOTAP_HE :: nat where "RADIOTAP_HE = 23"

lemmas radiotap_bits = RADIOTAP_TSFT_def RADIOTAP_FLAGS_def RADIOTAP_RATE_def RADIOTAP_CHANNEL_def
  RADIOTAP_DBM_ANTSIGNAL_def RADIOTAP_ANTENNA_def RADIOTAP_RX_FLAGS_def RADIOTAP_MCS_def
  RADIOTAP_AMPDU_STATUS_def RADIOTAP_VHT_def RADIOTAP_HE_def

definition RADIOTAP_EXT_NS :: nat where "RADIOTAP_EXT_NS = 2 ^ 31 + 2 ^ 29"
definition RADIOTAP_ANT_SIG :: nat where "RADIOTAP_ANT_SIG = 2 ^ 11 + 2 ^ 5"

text \<open>
  \<open>for_each_set_bit\<close> over the chains (\<open>IEEE80211_MAX_CHAINS\<close> is 4): every chain but the last gets one
  more presence word.
\<close>

definition rx_chains :: "mem \<Rightarrow> nat list" where
  "rx_chains v = filter (bit (get antenna_set v)) [0..<4]"

fun put_present :: "nat list \<Rightarrow> nat \<Rightarrow> rtap \<Rightarrow> rtap" where
  "put_present [] v s = put_bytes (le_bytes 4 v) s"
| "put_present (c # cs) v s = put_present cs RADIOTAP_ANT_SIG (put_bytes (le_bytes 4 (v + RADIOTAP_EXT_NS)) s)"

definition rtap_start :: "mem \<Rightarrow> nat \<Rightarrow> mem \<Rightarrow> rtap" where
  "rtap_start v rtap_len frame =
     put_present (if 1 < hweight (get antenna_set v) then rx_chains v else []) 0
       (put_bytes (le_bytes 2 rtap_len)
         (put_bytes [0, 0] \<lparr>rt_mem = (\<lambda>i. if i < rtap_len then 0 else frame (i - rtap_len)), rt_pos = 0\<rparr>))"

definition put_tsft :: "mem \<Rightarrow> rtap \<Rightarrow> rtap" where
  "put_tsft v s = put_bytes (le_bytes 8 (get tsf_hi v * 2 ^ 32 + get tsf_lo v)) (pad 8 (present RADIOTAP_TSFT s))"

definition rtap_flags :: "mem \<Rightarrow> u8" where
  "rtap_flags v =
     (if flag frm_successful_rx v then 0 else 0x40) OR
     (if \<not> flag pre_type v \<and> get format_mod v \<le> FORMATMOD_NON_HT_DUP_OFDM then 0x02 else 0)"

definition put_flags :: "mem \<Rightarrow> rtap \<Rightarrow> rtap" where
  "put_flags v s = put8 (rtap_flags v) (present RADIOTAP_FLAGS s)"

definition NL80211_BAND_5GHZ :: nat where "NL80211_BAND_5GHZ = 1"

definition rwnx_ratetable :: "nat list" where
  "rwnx_ratetable = [10, 20, 55, 110, 60, 90, 120, 180, 240, 360, 480, 540]"

text \<open>
  The table of the 5 GHz band starts at entry 4.  \<open>wiphy->bands\<close> has the 2.4 GHz band and, when the firmware
  reports \<open>band_5g_support\<close> (the argument \<open>five\<close>), the 5 GHz band; its other entries are \<open>NULL\<close>.  \<open>rate_idx\<close> is a
  \<open>u8\<close>, so that \<open>BUG_ON\<close> cannot see the -1 of an invalid rate.  \<open>None\<close> is a band that does not exist or a
  read outside its table.
\<close>

definition bitrate :: "bool \<Rightarrow> nat \<Rightarrow> u8 \<Rightarrow> nat option" where
  "bitrate five band i =
     (if band = 0 \<or> band = NL80211_BAND_5GHZ \<and> five then
        (let k = (if band = NL80211_BAND_5GHZ then 4 else 0) + unat i in
         if k < length rwnx_ratetable then Some (rwnx_ratetable ! k) else None)
      else None)"

definition legacy_rate :: "bool \<Rightarrow> mem \<Rightarrow> u8 option" where
  "legacy_rate five v =
     (let idx = word_of_int (legrates_idx (get leg_rate v));
          i = (if get phy_band v = NL80211_BAND_5GHZ then idx - 4 else idx)
      in map_option (\<lambda>r. of_nat ((r + 4) div 5)) (bitrate five (get phy_band v) i))"

definition put_rate :: "bool \<Rightarrow> mem \<Rightarrow> rtap \<Rightarrow> rtap option" where
  "put_rate five v s =
     (if FORMATMOD_NON_HT_DUP_OFDM < get format_mod v then Some (put8 0 s)
      else map_option (\<lambda>r. put8 r (present RADIOTAP_RATE s)) (legacy_rate five v))"

definition channel_flags :: "mem \<Rightarrow> nat" where
  "channel_flags v =
     (if get phy_band v = NL80211_BAND_5GHZ then 0x40 + 0x100
      else if FORMATMOD_NON_HT_DUP_OFDM < get format_mod v then 0x400 + 0x80
      else 0x20 + 0x80)"

definition put_channel :: "mem \<Rightarrow> rtap \<Rightarrow> rtap" where
  "put_channel v s =
     put_bytes (le_bytes 2 (channel_flags v))
       (put_bytes (le_bytes 2 (get phy_prim20_freq v)) (present RADIOTAP_CHANNEL s))"

definition put_signal :: "mem \<Rightarrow> rtap \<Rightarrow> rtap" where
  "put_signal v s =
     (if hweight (get antenna_set v) = 1
      then put8 (of_nat (get antenna_set v)) (present RADIOTAP_ANTENNA
             (put8 (of_nat (get rssi1 v)) (present RADIOTAP_DBM_ANTSIGNAL s)))
      else s)"

definition put_rx_flags :: "rtap \<Rightarrow> rtap" where
  "put_rx_flags s = put_bytes [0, 0] (pad 2 (present RADIOTAP_RX_FLAGS s))"


definition or8 :: "u8 \<Rightarrow> rtap \<Rightarrow> rtap" where
  "or8 b s = put8 (rt_mem s (rt_pos s) OR b) s"

definition b8 :: "bool \<Rightarrow> u8 \<Rightarrow> u8" where
  "b8 c x = (if c then x else 0)"

definition PHY_CHNL_BW_20 :: nat where "PHY_CHNL_BW_20 = 0"
definition PHY_CHNL_BW_40 :: nat where "PHY_CHNL_BW_40 = 1"
definition PHY_CHNL_BW_80 :: nat where "PHY_CHNL_BW_80 = 2"
definition PHY_CHNL_BW_160 :: nat where "PHY_CHNL_BW_160 = 3"

lemmas phy_bws = PHY_CHNL_BW_20_def PHY_CHNL_BW_40_def PHY_CHNL_BW_80_def PHY_CHNL_BW_160_def

definition is_ht :: "mem \<Rightarrow> bool" where
  "is_ht v \<longleftrightarrow> get format_mod v = FORMATMOD_HT_MF \<or> get format_mod v = FORMATMOD_HT_GF"

text \<open>\<open>IEEE80211_RADIOTAP_MCS\<close>: which fields are known, the flags, the MCS.\<close>

definition mcs_flags :: "mem \<Rightarrow> u8" where
  "mcs_flags v =
     b8 (flag ht_short_gi v) 0x04 OR b8 (get ch_bw v = PHY_CHNL_BW_40) 0x01 OR
     b8 (get format_mod v = FORMATMOD_HT_GF) 0x08 OR b8 (flag ht_fec v) 0x10 OR b8 (flag ht_stbc v) 0x20"

definition put_mcs :: "mem \<Rightarrow> rtap \<Rightarrow> rtap" where
  "put_mcs v s =
     (if is_ht v then put_bytes [0x07, mcs_flags v, of_nat (get ht_mcs v)] (present RADIOTAP_MCS s) else s)"

definition aggregation :: "mem \<Rightarrow> bool" where
  "aggregation v \<longleftrightarrow>
     FORMATMOD_VHT \<le> get format_mod v \<or>
     FORMATMOD_NON_HT_DUP_OFDM < get format_mod v \<and> flag ht_aggregation v"

definition put_ampdu :: "mem \<Rightarrow> rtap \<Rightarrow> rtap" where
  "put_ampdu v s =
     (if aggregation v
      then put_bytes (le_bytes 4 (get ampdu_cnt v) @ le_bytes 4 0) (present RADIOTAP_AMPDU_STATUS (seek 4 s))
      else s)"

text \<open>\<open>IEEE80211_RADIOTAP_VHT\<close>.  A 40 MHz frame gets two bandwidth bytes: an \<open>else\<close> is missing.\<close>

definition vht_details :: "mem \<Rightarrow> nat" where
  "vht_details v =
     (if get ch_bw v = PHY_CHNL_BW_160 \<and> get phy_center2_freq v \<noteq> 0 then 0x04 else 0x04 + 0x40)"

definition vht_bandwidth :: "mem \<Rightarrow> bytes" where
  "vht_bandwidth v =
     (if get ch_bw v = PHY_CHNL_BW_40 then [1] else []) @
     (if get ch_bw v = PHY_CHNL_BW_80 then [4]
      else if get ch_bw v = PHY_CHNL_BW_160 \<and> get phy_center2_freq v \<noteq> 0 then [0]
      else if get ch_bw v = PHY_CHNL_BW_160 then [11]
      else [0])"

definition vht_mcs_nss :: "mem \<Rightarrow> u8" where
  "vht_mcs_nss v = of_nat (push_bit 4 (get vht_mcs v) OR (get vht_nss v + 1))"

definition put_vht :: "mem \<Rightarrow> rtap \<Rightarrow> rtap" where
  "put_vht v s =
     (if get format_mod v = FORMATMOD_VHT then
        (let s1 = put_bytes (le_bytes 2 (vht_details v)) (present RADIOTAP_VHT s);
             s2 = or8 (b8 (flag vht_short_gi v) 0x04 OR b8 (flag vht_stbc v) 0x01) s1;
             s3 = advance 3 (put8 (vht_mcs_nss v) (put_bytes (vht_bandwidth v) s2));
             s4 = or8 (b8 (flag vht_fec v) 0x01) s3
         in advance 3 s4)
      else s)"

text \<open>
  \<open>IEEE80211_RADIOTAP_HE\<close>: six words.  The local structure is not initialised and words 3, 4, 5 and 6
  are only or-ed or not touched at all; \<open>stack\<close> is what they held.
\<close>

definition field_prep :: "nat \<Rightarrow> nat \<Rightarrow> nat \<Rightarrow> nat" where
  "field_prep shift len x = push_bit shift (take_bit len x)"

definition he_data3 :: "mem \<Rightarrow> nat" where
  "he_data3 v =
     field_prep 15 1 (if flag he_stbc v then 1 else 0) OR field_prep 0 6 (get he_bss_color v) OR
     field_prep 6 1 (get he_beam_change v) OR field_prep 7 1 (get he_uplink_flag v) OR
     field_prep 8 4 (get he_mcs v) OR field_prep 12 1 (get he_dcm v) OR field_prep 13 1 (get he_fec v)"

definition he_data5 :: "mem \<Rightarrow> nat" where
  "he_data5 v =
     field_prep 4 2 (get he_gi_type v) OR field_prep 14 1 (get he_beamformed v) OR
     field_prep 6 2 (get he_ltf_type v + 1) OR
     (if get ch_bw v \<le> PHY_CHNL_BW_160 then field_prep 0 4 (get ch_bw v) else 0)"

definition he_data6 :: "mem \<Rightarrow> nat" where
  "he_data6 v =
     field_prep 0 4 (if flag he_stbc v then 2 else get he_nss v) OR field_prep 4 1 (get he_doppler v)"

definition he_words :: "(nat \<Rightarrow> nat) \<Rightarrow> mem \<Rightarrow> nat list" where
  "he_words stack v =
     [0xC2FC, 0x0012, stack 3 OR he_data3 v, stack 4, stack 5 OR he_data5 v, stack 6 OR he_data6 v]"

definition put_he :: "(nat \<Rightarrow> nat) \<Rightarrow> mem \<Rightarrow> rtap \<Rightarrow> rtap" where
  "put_he stack v s =
     (if get format_mod v = FORMATMOD_HE_SU
      then put_bytes (concat (map (le_bytes 2) (he_words stack v))) (present RADIOTAP_HE (seek 2 s))
      else s)"

definition put_chains :: "mem \<Rightarrow> rtap \<Rightarrow> rtap" where
  "put_chains v s =
     (if 1 < hweight (get antenna_set v)
      then put_bytes (concat (map (\<lambda>c. [of_nat (get rssi1 v), of_nat c]) (rx_chains v))) s
      else s)"

definition rwnx_rx_add_rtap_hdr :: "bool \<Rightarrow> (nat \<Rightarrow> nat) \<Rightarrow> mem \<Rightarrow> nat \<Rightarrow> mem \<Rightarrow> rtap option" where
  "rwnx_rx_add_rtap_hdr five stack v rtap_len frame =
     map_option
       (\<lambda>s. put_chains v (put_he stack v (put_vht v (put_ampdu v (put_mcs v
              (put_rx_flags (put_signal v (put_channel v s))))))))
       (put_rate five v (put_flags v (put_tsft v (rtap_start v rtap_len frame))))"

subsection \<open>Reading a radiotap header\<close>

text \<open>
  The radiotap standard: the fields whose bits are set in the presence word follow in bit order, each
  aligned.  Bit, alignment and size of the fields the driver uses.
\<close>

definition radiotap_fields :: "(nat \<times> nat \<times> nat) list" where
  "radiotap_fields =
     [(0, 8, 8), (1, 1, 1), (2, 1, 1), (3, 2, 4), (5, 1, 1), (11, 1, 1), (14, 2, 2),
      (19, 1, 3), (20, 4, 8), (21, 2, 12), (23, 2, 12)]"

fun parse_fields :: "(nat \<times> nat \<times> nat) list \<Rightarrow> mem \<Rightarrow> nat \<Rightarrow> (nat \<times> bytes) list \<times> nat" where
  "parse_fields [] m p = ([], p)"
| "parse_fields ((b, align, sz) # fs) m p =
     (if mem_bit m (32 + b) then
        (let q = roundup p align; (rest, e) = parse_fields fs m (q + sz)
         in ((b, map m [q..<q + sz]) # rest, e))
      else parse_fields fs m p)"

definition radiotap_parse :: "mem \<Rightarrow> (nat \<times> bytes) list \<times> nat" where
  "radiotap_parse m = parse_fields radiotap_fields m 8"


definition tsf :: "mem \<Rightarrow> nat" where
  "tsf v = get tsf_hi v * 2 ^ 32 + get tsf_lo v"

definition legacy :: "mem \<Rightarrow> bool" where
  "legacy v \<longleftrightarrow> get format_mod v \<le> FORMATMOD_NON_HT_DUP_OFDM"

subsection \<open>What a write changes\<close>

lemma put_bytes_pos [simp]: "rt_pos (put_bytes bs s) = rt_pos s + length bs"
  by (induction bs arbitrary: s) (simp_all add: put8_def)

lemma put_bytes_mem:
  "rt_mem (put_bytes bs s) i =
     (if rt_pos s \<le> i \<and> i < rt_pos s + length bs then bs ! (i - rt_pos s) else rt_mem s i)"
proof (induction bs arbitrary: s)
  case Nil
  then show ?case by auto
next
  case (Cons b bs)
  then show ?case
    by (auto simp: put8_def nth_Cons')
qed

lemma put8_bytes: "put8 b s = put_bytes [b] s"
  by simp

lemma pos_simps [simp]:
  "rt_pos (present b s) = rt_pos s" "rt_pos (advance n s) = rt_pos s + n"
  "rt_pos (seek n s) = roundup (rt_pos s) n" "rt_pos (put8 x s) = rt_pos s + 1" "rt_pos (or8 x s) = rt_pos s + 1"
  "rt_mem (advance n s) = rt_mem s" "rt_mem (seek n s) = rt_mem s"
  by (simp_all add: present_def Let_def advance_def seek_def put8_def or8_def)

lemma roundup_ge: "0 < n \<Longrightarrow> x \<le> roundup x n"
proof -
  assume n: "0 < n"
  let ?y = "x + (n - 1)"
  have "?y mod n < n" using n by simp
  moreover have "?y = ?y div n * n + ?y mod n" by simp
  ultimately show ?thesis
    unfolding roundup_def using n by linarith
qed

lemma pad_pos [simp]: "0 < n \<Longrightarrow> rt_pos (pad n s) = roundup (rt_pos s) n"
  using roundup_ge [of n "rt_pos s"] by (simp add: pad_def)

lemma le_bytes_length [simp]: "length (le_bytes n x) = n"
  by (induction n arbitrary: x) simp_all

lemma present_mem: "rt_mem (present b s) i = (if i = 4 + b div 8 then rt_mem s i OR push_bit (b mod 8) 1 else rt_mem s i)"
  by (simp add: present_def Let_def)

text \<open>
  The invariant of the builder: behind the presence word, ahead of the position only zeros up to the
  reserved length \<open>n\<close>, then the frame.
\<close>

definition rt_ok :: "nat \<Rightarrow> mem \<Rightarrow> rtap \<Rightarrow> bool" where
  "rt_ok n frame s \<longleftrightarrow>
     8 \<le> rt_pos s \<and> 8 \<le> n \<and> mem_at (rt_mem s) 0 (0 # 0 # le_bytes 2 n) \<and>
     (\<forall>i. rt_pos s \<le> i \<and> i < n \<longrightarrow> rt_mem s i = 0) \<and>
     (\<forall>i\<ge>n. rt_mem s i = frame (i - n))"

definition written :: "rtap \<Rightarrow> nat \<Rightarrow> bytes \<Rightarrow> bool" where
  "written s p bs \<longleftrightarrow> 8 \<le> p \<and> p + length bs \<le> rt_pos s \<and> mem_at (rt_mem s) p bs"

definition pres :: "rtap \<Rightarrow> nat \<Rightarrow> bool" where
  "pres s b \<longleftrightarrow> mem_bit (rt_mem s) (32 + b)"

lemma ok_put_bytes: "rt_ok n frame s \<Longrightarrow> rt_pos s + length bs \<le> n \<Longrightarrow> rt_ok n frame (put_bytes bs s)"
  by (auto simp: rt_ok_def put_bytes_mem mem_at_def)

lemma ok_present: "rt_ok n frame s \<Longrightarrow> b < 32 \<Longrightarrow> rt_ok n frame (present b s)"
  by (auto simp: rt_ok_def present_mem mem_at_def)

lemma ok_move: "rt_ok n frame s \<Longrightarrow> rt_ok n frame (advance k s)"
  "rt_ok n frame s \<Longrightarrow> 0 < k \<Longrightarrow> rt_ok n frame (seek k s)"
  using roundup_ge [of k "rt_pos s"] by (auto simp: rt_ok_def)

lemma ok_pad: "rt_ok n frame s \<Longrightarrow> 0 < k \<Longrightarrow> roundup (rt_pos s) k \<le> n \<Longrightarrow> rt_ok n frame (pad k s)"
  using roundup_ge [of k "rt_pos s"] unfolding pad_def by (intro ok_put_bytes) simp_all

lemma or8_zero: "rt_ok n frame s \<Longrightarrow> rt_pos s < n \<Longrightarrow> or8 x s = put_bytes [x] s"
  by (simp add: or8_def rt_ok_def)

lemma written_put: "8 \<le> rt_pos s \<Longrightarrow> written (put_bytes bs s) (rt_pos s) bs"
  by (simp add: written_def mem_at_def put_bytes_mem)

lemma written_keep:
  "written s p bs \<Longrightarrow> written (put_bytes cs s) p bs"
  "written s p bs \<Longrightarrow> written (advance k s) p bs"
  "written s p bs \<Longrightarrow> 0 < j \<Longrightarrow> written (seek j s) p bs"
  "written s p bs \<Longrightarrow> b < 32 \<Longrightarrow> written (present b s) p bs"
  using roundup_ge [of j "rt_pos s"]
  by (auto simp: written_def mem_at_def put_bytes_mem present_mem)

lemma written_pad: "written s p bs \<Longrightarrow> written (pad j s) p bs"
  by (simp add: pad_def written_keep)

lemma written_advance:
  "rt_ok n frame s \<Longrightarrow> j \<le> k \<Longrightarrow> rt_pos s + j \<le> n \<Longrightarrow> written (advance k s) (rt_pos s) (replicate j 0)"
  by (auto simp: written_def mem_at_def rt_ok_def)

lemma written_append: "written s p bs \<Longrightarrow> written s (p + length bs) cs \<Longrightarrow> written s p (bs @ cs)"
  by (simp add: written_def)

lemma written_take: "written s p (bs @ cs) \<Longrightarrow> written s p bs"
  by (simp add: written_def)

lemma written_map: "written s p bs \<Longrightarrow> k = length bs \<Longrightarrow> map (rt_mem s) [p..<p + k] = bs"
  by (auto simp: written_def mem_at_def intro!: nth_equalityI)

lemma pres_put: "rt_ok n frame s \<Longrightarrow> b < 32 \<Longrightarrow> pres (put_bytes cs s) b = pres s b"
  by (auto simp: pres_def mem_bit_def put_bytes_mem rt_ok_def)

lemma pres_move [simp]: "pres (advance k s) b = pres s b" "pres (seek k s) b = pres s b"
  by (simp_all add: pres_def)

lemma pres_pad: "rt_ok n frame s \<Longrightarrow> b < 32 \<Longrightarrow> pres (pad k s) b = pres s b"
  by (simp add: pad_def pres_put)

lemma pres_present: "pres (present c s) b \<longleftrightarrow> b = c \<or> pres s b"
proof -
  have "(32 + b) div 8 = 4 + b div 8" "(32 + b) mod 8 = b mod 8"
    by presburger+
  moreover have "b div 8 = c div 8 \<Longrightarrow> b mod 8 = c mod 8 \<Longrightarrow> b = c"
    by (metis div_mult_mod_eq)
  moreover have "bit (push_bit (c mod 8) (1 :: u8)) (b mod 8) \<longleftrightarrow> b mod 8 = c mod 8"
    by (auto simp: bit_exp_iff possible_bit_def)
  ultimately show ?thesis
    by (auto simp: pres_def mem_bit_def present_mem bit_or_iff)
qed


subsection \<open>The stages\<close>

lemma pos_stages:
  "rt_pos (put_tsft v s) = roundup (rt_pos s) 8 + 8"
  "rt_pos (put_flags v s) = rt_pos s + 1"
  "rt_pos (put_channel v s) = rt_pos s + 4"
  "rt_pos (put_signal v s) = (if hweight (get antenna_set v) = 1 then rt_pos s + 2 else rt_pos s)"
  "rt_pos (put_rx_flags s) = roundup (rt_pos s) 2 + 2"
  "rt_pos (put_mcs v s) = (if is_ht v then rt_pos s + 3 else rt_pos s)"
  "rt_pos (put_ampdu v s) = (if aggregation v then roundup (rt_pos s) 4 + 8 else rt_pos s)"
  "rt_pos (put_he stack v s) = (if get format_mod v = FORMATMOD_HE_SU then roundup (rt_pos s) 2 + 12 else rt_pos s)"
  "rt_pos (put_vht v s) = (if get format_mod v = FORMATMOD_VHT then rt_pos s + 11 + length (vht_bandwidth v) else rt_pos s)"
  by (simp_all add: put_tsft_def put_flags_def put_channel_def put_signal_def put_rx_flags_def put_mcs_def
      put_ampdu_def put_he_def put_vht_def Let_def he_words_def)

lemma ok_put8: "rt_ok n frame s \<Longrightarrow> rt_pos s + 1 \<le> n \<Longrightarrow> rt_ok n frame (put8 b s)"
  by (simp only: put8_bytes) (rule ok_put_bytes, simp_all)

lemma ok_stages:
  assumes "rt_ok n frame s"
  shows "roundup (rt_pos s) 8 + 8 \<le> n \<Longrightarrow> rt_ok n frame (put_tsft v s)"
    and "rt_pos s + 1 \<le> n \<Longrightarrow> rt_ok n frame (put_flags v s)"
    and "rt_pos s + 4 \<le> n \<Longrightarrow> rt_ok n frame (put_channel v s)"
    and "hweight (get antenna_set v) = 1 \<longrightarrow> rt_pos s + 2 \<le> n \<Longrightarrow> rt_ok n frame (put_signal v s)"
    and "roundup (rt_pos s) 2 + 2 \<le> n \<Longrightarrow> rt_ok n frame (put_rx_flags s)"
    and "is_ht v \<longrightarrow> rt_pos s + 3 \<le> n \<Longrightarrow> rt_ok n frame (put_mcs v s)"
    and "aggregation v \<longrightarrow> roundup (rt_pos s) 4 + 8 \<le> n \<Longrightarrow> rt_ok n frame (put_ampdu v s)"
    and "get format_mod v = FORMATMOD_HE_SU \<longrightarrow> roundup (rt_pos s) 2 + 12 \<le> n \<Longrightarrow> rt_ok n frame (put_he stack v s)"
  using assms
  by (auto simp: put_tsft_def put_flags_def put_channel_def put_signal_def put_rx_flags_def put_mcs_def
      put_ampdu_def put_he_def Let_def he_words_def ok_put_bytes ok_put8 ok_present ok_move ok_pad radiotap_bits
      simp del: put_bytes.simps)

lemma ok_or8: "rt_ok n frame s \<Longrightarrow> rt_pos s + 1 \<le> n \<Longrightarrow> rt_ok n frame (or8 b s)"
  unfolding or8_def by (rule ok_put8)

lemma vht_bandwidth_length: "length (vht_bandwidth v) = (if get ch_bw v = PHY_CHNL_BW_40 then 2 else 1)"
  by (simp add: vht_bandwidth_def)

text \<open>The VHT field moves on over its last three bytes without writing them.\<close>

lemma ok_vht:
  assumes "rt_ok n frame s" and "get format_mod v = FORMATMOD_VHT \<longrightarrow> rt_pos s + 12 \<le> n"
  shows "rt_ok n frame (put_vht v s)"
  using assms
  by (auto simp: put_vht_def Let_def ok_or8 ok_put_bytes ok_put8 ok_present ok_move radiotap_bits
      vht_bandwidth_length simp del: put_bytes.simps)


fun present_words :: "nat list \<Rightarrow> nat \<Rightarrow> bytes" where
  "present_words [] v = le_bytes 4 v"
| "present_words (c # cs) v = le_bytes 4 (v + RADIOTAP_EXT_NS) @ present_words cs RADIOTAP_ANT_SIG"

lemma put_bytes_append: "put_bytes (xs @ ys) s = put_bytes ys (put_bytes xs s)"
  by (induction xs arbitrary: s) simp_all

lemma put_present_bytes: "put_present cs v s = put_bytes (present_words cs v) s"
  by (induction cs arbitrary: v s) (simp_all add: put_bytes_append del: le_bytes.simps)

lemma present_words_length [simp]: "length (present_words cs v) = 4 + 4 * length cs"
  by (induction cs arbitrary: v) (simp_all del: le_bytes.simps)

definition ext_chains :: "mem \<Rightarrow> nat list" where
  "ext_chains v = (if 1 < hweight (get antenna_set v) then rx_chains v else [])"

lemma start_ok:
  assumes "8 + 4 * length (ext_chains v) \<le> n"
  shows "rt_ok n frame (rtap_start v n frame)"
    and "rt_pos (rtap_start v n frame) = 8 + 4 * length (ext_chains v)"
proof -
  let ?bs = "[0, 0] @ le_bytes 2 n @ present_words (ext_chains v) 0"
  let ?init = "\<lparr>rt_mem = (\<lambda>i. if i < n then 0 else frame (i - n)), rt_pos = 0\<rparr>"
  have eq: "rtap_start v n frame = put_bytes ?bs ?init"
    by (simp only: rtap_start_def put_present_bytes put_bytes_append ext_chains_def)
  have len: "length ?bs = 8 + 4 * length (ext_chains v)"
    by (simp del: le_bytes.simps)
  have "mem_at (rt_mem (put_bytes ?bs ?init)) 0 ?bs"
    by (simp add: mem_at_def put_bytes_mem del: put_bytes.simps le_bytes.simps append.simps)
  then have "mem_at (rt_mem (put_bytes ?bs ?init)) 0 (0 # 0 # le_bytes 2 n)"
    by (simp del: put_bytes.simps le_bytes.simps)
  then show "rt_ok n frame (rtap_start v n frame)"
    using assms len by (auto simp: rt_ok_def eq put_bytes_mem simp del: put_bytes.simps le_bytes.simps append.simps)
  show "rt_pos (rtap_start v n frame) = 8 + 4 * length (ext_chains v)"
    using len by (simp add: eq del: put_bytes.simps le_bytes.simps append.simps)
qed

text \<open>The positions of the builder never pass the computed length, except after a 40 MHz VHT field.\<close>

lemma roundup_simps:
  "roundup (4 * k + 16) 8 = roundup (4 * k + 8) 8 + 8"
  unfolding roundup_def by presburger

lemma roundup_mono: "x \<le> y \<Longrightarrow> roundup x n \<le> roundup y n"
  unfolding roundup_def by (intro mult_le_mono1 div_le_mono) simp

lemma roundup_8: "\<exists>a. roundup x 8 = 8 * a"
  unfolding roundup_def by (metis mult.commute)

lemma ext_chains_le: "length (ext_chains v) \<le> hweight (get antenna_set v)" "length (ext_chains v) \<le> 4"
proof -
  have "length (rx_chains v) \<le> hweight (get antenna_set v)"
    unfolding rx_chains_def hweight_def by (simp add: upt_rec)
  then show "length (ext_chains v) \<le> hweight (get antenna_set v)" by (simp add: ext_chains_def)
  have "length (rx_chains v) \<le> length [0..<4 :: nat]"
    unfolding rx_chains_def by (rule length_filter_le)
  then show "length (ext_chains v) \<le> 4" by (simp add: ext_chains_def)
qed


lemma roundup_8_plus:
  "roundup (8 * a + c) 2 = 8 * a + roundup c 2" "roundup (8 * a + c) 4 = 8 * a + roundup c 4"
  "roundup (8 * a + c) 8 = 8 * a + roundup c 8"
  unfolding roundup_def by presburger+

text \<open>Both computations in a common form, up to a multiple of 8.\<close>

definition tail_len :: "mem \<Rightarrow> nat \<Rightarrow> nat \<Rightarrow> nat" where
  "tail_len v bw l5 =
     (let l6 = (if is_ht v then l5 + 3 else l5);
          l7 = (if aggregation v then roundup l6 4 + 8 else l6);
          l8 = (if get format_mod v = FORMATMOD_VHT then roundup l7 2 + 11 + bw else l7)
      in if get format_mod v = FORMATMOD_HE_SU then roundup l8 2 + 12 else l8)"

lemma formats_apart:
  "is_ht v \<Longrightarrow> get format_mod v \<noteq> FORMATMOD_VHT \<and> get format_mod v \<noteq> FORMATMOD_HE_SU"
  "get format_mod v = FORMATMOD_VHT \<Longrightarrow> get format_mod v \<noteq> FORMATMOD_HE_SU"
  "get format_mod v = FORMATMOD_VHT \<or> get format_mod v = FORMATMOD_HE_SU \<Longrightarrow> aggregation v"
  by (auto simp: is_ht_def formatmods aggregation_def)

lemma hdrlen_tail:
  "rtap_hdrlen v =
     (let ants = hweight (get antenna_set v);
          l2 = (if 1 < ants then roundup (4 * ants + 16) 8 + 8 else 24);
          l9 = tail_len v 1 (roundup (if ants = 1 then l2 + 2 else l2 + 1) 2)
      in if 1 < ants then l9 + 2 * ants else l9)"
proof -
  have r: "roundup 16 8 = 16" by (simp add: roundup_def)
  show ?thesis
    unfolding rtap_hdrlen_def tail_len_def Let_def is_ht_def [symmetric] aggregation_def [symmetric]
    by (simp add: r add.commute)
qed

lemma tail_len_mono: "x \<le> y \<Longrightarrow> tail_len v 1 x \<le> tail_len v 1 y"
  by (auto simp: tail_len_def Let_def formatmods intro!: roundup_mono)

text \<open>The position after the fields common to all formats.\<close>

definition base_pos :: "mem \<Rightarrow> nat" where
  "base_pos v = (let a = roundup (8 + 4 * length (ext_chains v)) 8 in
     if hweight (get antenna_set v) = 1 then a + 18 else a + 16)"

definition base_len :: "mem \<Rightarrow> nat" where
  "base_len v = (let ants = hweight (get antenna_set v) in
     (if 1 < ants then roundup (4 * ants + 16) 8 + 10 else 26))"

lemma hdrlen_base:
  "rtap_hdrlen v = tail_len v 1 (base_len v) + (if 1 < hweight (get antenna_set v) then 2 * hweight (get antenna_set v) else 0)"
proof -
  obtain b where b: "roundup (4 * hweight (get antenna_set v) + 16) 8 = 8 * b" using roundup_8 by blast
  have "roundup (8 * b + 9) 2 = 8 * b + 10" "roundup 26 2 = 26" "roundup 25 2 = 26"
    by (simp_all only: roundup_8_plus) (simp_all add: roundup_def)
  then show ?thesis
    unfolding hdrlen_tail base_len_def Let_def b by (simp add: add.commute)
qed

lemma base_pos_len: "base_pos v \<le> base_len v" "even (base_pos v)"
  "\<not> hweight (get antenna_set v) = 1 \<Longrightarrow> base_pos v + 2 \<le> base_len v"
  "\<exists>a. base_pos v = 8 * a + (if hweight (get antenna_set v) = 1 then 18 else 16)"
proof -
  let ?n = "hweight (get antenna_set v)" and ?k = "length (ext_chains v)"
  obtain a where a: "roundup (8 + 4 * ?k) 8 = 8 * a" using roundup_8 by blast
  have le: "roundup (8 + 4 * ?k) 8 \<le> roundup (4 * ?n + 8) 8"
    using ext_chains_le(1) [of v] by (intro roundup_mono) simp
  have one: "?k = 0" if "\<not> 1 < ?n" using that by (simp add: ext_chains_def)
  have r8: "roundup 8 8 = 8" by (simp add: roundup_def)
  show "base_pos v \<le> base_len v" "\<not> ?n = 1 \<Longrightarrow> base_pos v + 2 \<le> base_len v"
    using le one by (auto simp: base_pos_def base_len_def Let_def roundup_simps r8)
  show "even (base_pos v)" "\<exists>a. base_pos v = 8 * a + (if ?n = 1 then 18 else 16)"
    using a by (auto simp: base_pos_def Let_def)
qed

lemma tail_len_bw:
  "tail_len v bw x = tail_len v 1 x + (if get format_mod v = FORMATMOD_VHT then bw - 1 else 0) \<or> bw = 0"
  using formats_apart(2) [of v] by (auto simp: tail_len_def Let_def)


definition put_common :: "mem \<Rightarrow> rtap \<Rightarrow> rtap" where
  "put_common v s = put_rx_flags (put_signal v (put_channel v s))"

definition put_formats :: "(nat \<Rightarrow> nat) \<Rightarrow> mem \<Rightarrow> rtap \<Rightarrow> rtap" where
  "put_formats stack v s = put_he stack v (put_vht v (put_ampdu v (put_mcs v s)))"

lemma add_rtap_hdr_alt:
  "rwnx_rx_add_rtap_hdr five stack v n frame =
     map_option (\<lambda>s. put_chains v (put_formats stack v (put_common v s)))
       (put_rate five v (put_flags v (put_tsft v (rtap_start v n frame))))"
  by (simp add: rwnx_rx_add_rtap_hdr_def put_common_def put_formats_def)

lemma formats_pos: "rt_pos (put_formats stack v s) = tail_len v (length (vht_bandwidth v)) (rt_pos s)"
proof -
  have "roundup (roundup x 4 + 8) 2 = roundup x 4 + 8" for x
    unfolding roundup_def by presburger
  then show ?thesis
    using formats_apart [of v] by (auto simp: put_formats_def pos_stages tail_len_def Let_def)
qed

lemma tail_le:
  assumes "tail_len v 1 p \<le> n"
  shows "is_ht v \<longrightarrow> p + 3 \<le> n"
    and "aggregation v \<longrightarrow> roundup (if is_ht v then p + 3 else p) 4 + 8 \<le> n"
    and "get format_mod v = FORMATMOD_VHT \<longrightarrow> roundup p 4 + 8 + 12 \<le> n"
    and "get format_mod v = FORMATMOD_HE_SU \<longrightarrow> roundup (roundup p 4 + 8) 2 + 12 \<le> n"
    and "p \<le> n"
  using assms formats_apart [of v] roundup_ge [of 4 p] roundup_ge [of 4 "p + 3"] roundup_ge [of 2 "roundup p 4 + 8"]
    roundup_ge [of 2 p]
  by (auto simp: tail_len_def Let_def split: if_splits)

lemma formats_ok:
  assumes "rt_ok n frame s" and "tail_len v 1 (rt_pos s) \<le> n"
  shows "rt_ok n frame (put_formats stack v s)"
proof -
  note t = tail_le [OF assms(2)] and fa = formats_apart [of v]
  have 1: "rt_ok n frame (put_mcs v s)"
    by (rule ok_stages(6) [OF assms(1) t(1)])
  have 2: "rt_ok n frame (put_ampdu v (put_mcs v s))"
    by (rule ok_stages(7) [OF 1]) (use t(2) in \<open>simp add: pos_stages\<close>)
  have "roundup (roundup x 4 + 8) 2 = roundup x 4 + 8" for x
    unfolding roundup_def by presburger
  then have "get format_mod v = FORMATMOD_VHT \<longrightarrow> rt_pos (put_ampdu v (put_mcs v s)) + 12 \<le> n"
    using t(3) fa by (auto simp: pos_stages)
  then have 3: "rt_ok n frame (put_vht v (put_ampdu v (put_mcs v s)))"
    by (rule ok_vht [OF 2])
  have "get format_mod v = FORMATMOD_HE_SU \<longrightarrow>
      roundup (rt_pos (put_vht v (put_ampdu v (put_mcs v s)))) 2 + 12 \<le> n"
    using t(4) fa by (auto simp: pos_stages)
  then show ?thesis
    unfolding put_formats_def by (rule ok_stages(8) [OF 3])
qed

lemma tail_len_ge: "p \<le> tail_len v 1 p"
  using tail_le(5) by blast

lemma common_ok:
  assumes "put_rate five v (put_flags v (put_tsft v (rtap_start v n frame))) = Some s" and "base_pos v \<le> n"
  shows "rt_ok n frame (put_common v s)" and "rt_pos (put_common v s) = base_pos v"
proof -
  let ?k = "length (ext_chains v)"
  obtain a where a: "roundup (8 + 4 * ?k) 8 = 8 * a" using roundup_8 by blast
  let ?single = "hweight (get antenna_set v) = 1"
  have n: "8 * a + (if ?single then 18 else 16) \<le> n"
    using assms(2) by (simp add: base_pos_def Let_def a split: if_splits)
  then have n1: "8 * a + 16 \<le> n"
    by (simp split: if_splits)
  have k: "8 + 4 * ?k \<le> 8 * a"
    using roundup_ge [of 8 "8 + 4 * ?k"] a by simp
  have 0: "rt_ok n frame (rtap_start v n frame)" "rt_pos (rtap_start v n frame) = 8 + 4 * ?k"
    using start_ok [of v n frame] k n1 by auto
  have 1: "rt_ok n frame (put_tsft v (rtap_start v n frame))"
    "rt_pos (put_tsft v (rtap_start v n frame)) = 8 * a + 8"
    using ok_stages(1) [OF 0(1), of v] n1 0(2) a by (auto simp: pos_stages)
  have 2: "rt_ok n frame (put_flags v (put_tsft v (rtap_start v n frame)))"
    "rt_pos (put_flags v (put_tsft v (rtap_start v n frame))) = 8 * a + 9"
    using ok_stages(2) [OF 1(1), of v] n1 1(2) by (auto simp: pos_stages)
  have 3: "rt_ok n frame s" "rt_pos s = 8 * a + 10"
    using assms(1) 2 n1 by (auto simp: put_rate_def ok_put8 ok_present radiotap_bits split: if_splits)
  have 4: "rt_ok n frame (put_channel v s)" "rt_pos (put_channel v s) = 8 * a + 14"
    using ok_stages(3) [OF 3(1), of v] n1 3(2) by (auto simp: pos_stages)
  have 5: "rt_ok n frame (put_signal v (put_channel v s))"
    "rt_pos (put_signal v (put_channel v s)) = 8 * a + (if ?single then 16 else 14)"
    using ok_stages(4) [OF 4(1), of v] n1 4(2) by (auto simp: pos_stages)
  have r: "roundup (8 * a + (if ?single then 16 else 14)) 2 = 8 * a + (if ?single then 16 else 14)"
    unfolding roundup_8_plus by (simp add: roundup_def)
  show "rt_ok n frame (put_common v s)"
    unfolding put_common_def using n
    by (intro ok_stages(5) [OF 5(1)]) (simp add: 5(2) r [simplified] split: if_splits)
  show "rt_pos (put_common v s) = base_pos v"
    unfolding put_common_def pos_stages(5) 5(2) r by (simp add: base_pos_def Let_def a)
qed


definition vht40 :: "mem \<Rightarrow> bool" where
  "vht40 v \<longleftrightarrow> get format_mod v = FORMATMOD_VHT \<and> get ch_bw v = PHY_CHNL_BW_40"

lemma tail_len_vht: "get format_mod v = FORMATMOD_VHT \<Longrightarrow> tail_len v 1 x = roundup x 4 + 20"
  using formats_apart [of v] by (auto simp: tail_len_def Let_def roundup_def) presburger+

lemma formats_pos_1: "rt_pos (put_formats stack v s) = tail_len v 1 (rt_pos s) + (if vht40 v then 1 else 0)"
  using formats_apart(2) [of v]
  by (auto simp: formats_pos tail_len_def Let_def vht_bandwidth_length vht40_def)

lemma chains_room:
  assumes "1 < hweight (get antenna_set v)"
  shows "tail_len v 1 (base_pos v) + (if vht40 v then 1 else 0) \<le> tail_len v 1 (base_len v)"
proof (cases "vht40 v")
  case False
  then show ?thesis using tail_len_mono [OF base_pos_len(1)] by simp
next
  case True
  then have v: "get format_mod v = FORMATMOD_VHT" by (simp add: vht40_def)
  obtain a where a: "base_pos v = 8 * a + 16" using base_pos_len(4) [of v] assms by auto
  then have "8 * a + 18 \<le> base_len v" using base_pos_len(3) [of v] assms by simp
  then have "roundup (8 * a + 18) 4 \<le> roundup (base_len v) 4" by (rule roundup_mono)
  moreover have "roundup (8 * a + 18) 4 = 8 * a + 20" "roundup (8 * a + 16) 4 = 8 * a + 16"
    unfolding roundup_8_plus by (simp_all add: roundup_def)
  ultimately show ?thesis
    by (simp add: tail_len_vht [OF v] a del: One_nat_def)
qed

lemma chains_ok:
  assumes "rt_ok n frame s" and "1 < hweight (get antenna_set v) \<longrightarrow> rt_pos s + 2 * length (rx_chains v) \<le> n"
  shows "rt_ok n frame (put_chains v s)"
    and "rt_pos (put_chains v s) =
      (if 1 < hweight (get antenna_set v) then rt_pos s + 2 * length (rx_chains v) else rt_pos s)"
proof -
  have "length (concat (map (\<lambda>c. [of_nat (get rssi1 v), of_nat c] :: bytes) cs)) = 2 * length cs" for cs :: "nat list"
    by (induction cs) simp_all
  then show "rt_ok n frame (put_chains v s)"
    and "rt_pos (put_chains v s) =
      (if 1 < hweight (get antenna_set v) then rt_pos s + 2 * length (rx_chains v) else rt_pos s)"
    using assms by (auto simp: put_chains_def ok_put_bytes)
qed

lemma hdrlen_room: "base_pos v \<le> rtap_hdrlen v" "tail_len v 1 (base_pos v) \<le> rtap_hdrlen v"
proof -
  have "base_pos v \<le> tail_len v 1 (base_pos v)" "tail_len v 1 (base_pos v) \<le> tail_len v 1 (base_len v)"
    by (rule tail_len_ge, rule tail_len_mono [OF base_pos_len(1)])
  then show "base_pos v \<le> rtap_hdrlen v" "tail_len v 1 (base_pos v) \<le> rtap_hdrlen v"
    unfolding hdrlen_base by linarith+
qed

lemma roundup_less: "roundup x 8 < x + 8" "roundup x 4 < x + 4" "roundup x 2 < x + 2"
  unfolding roundup_def by presburger+

lemma tail_len_less: "tail_len v 1 x < x + 27"
  using roundup_less(2) [of x] roundup_less(2) [of "x + 3"] roundup_less(3) [of x] roundup_less(3) [of "x + 3"]
    roundup_less(3) [of "roundup x 4 + 8"] roundup_less(3) [of "roundup (x + 3) 4 + 8"] formats_apart [of v]
  by (auto simp: tail_len_def Let_def)

text \<open>The header always fits in the headroom of a received buffer: 60 bytes of descriptor and 64 of the kernel.\<close>

lemma rtap_hdrlen_headroom: "rtap_hdrlen v < 60 + 64"
proof -
  have h: "hweight (get antenna_set v) \<le> 8"
    unfolding hweight_def using length_filter_le [of "bit (get antenna_set v)" "[0..<8]"] by simp
  then have "base_len v < 66"
    using roundup_less(1) [of "4 * hweight (get antenna_set v) + 16"] by (simp add: base_len_def Let_def)
  then show ?thesis
    using tail_len_less [of v "base_len v"] h by (auto simp: hdrlen_base)
qed

lemma rtap_hdrlen_less: "rtap_hdrlen v < 256"
  using rtap_hdrlen_headroom [of v] by simp

text \<open>The builder never leaves the reserved bytes.\<close>

lemma add_rtap_hdr_ok:
  assumes "rwnx_rx_add_rtap_hdr five stack v (rtap_hdrlen v) frame = Some s"
  shows "rt_ok (rtap_hdrlen v) frame s"
    and "rt_pos s \<le> rtap_hdrlen v + (if vht40 v then 1 else 0)"
proof -
  let ?n = "rtap_hdrlen v" and ?h = "hweight (get antenna_set v)"
  obtain s0 where r: "put_rate five v (put_flags v (put_tsft v (rtap_start v ?n frame))) = Some s0"
    and s: "s = put_chains v (put_formats stack v (put_common v s0))"
    using assms by (auto simp: add_rtap_hdr_alt)
  note c = common_ok [OF r hdrlen_room(1)]
  have f: "rt_ok ?n frame (put_formats stack v (put_common v s0))"
    using c hdrlen_room(2) by (intro formats_ok) simp_all
  have p: "rt_pos (put_formats stack v (put_common v s0)) = tail_len v 1 (base_pos v) + (if vht40 v then 1 else 0)"
    by (simp only: formats_pos_1 c(2))
  have m: "tail_len v 1 (base_pos v) + (if vht40 v then 1 else 0) + 2 * length (rx_chains v) \<le> ?n" if "1 < ?h"
  proof -
    have "length (rx_chains v) \<le> ?h"
      using ext_chains_le(1) [of v] that by (simp add: ext_chains_def)
    then show ?thesis
      using chains_room [OF that] that by (simp add: hdrlen_base)
  qed
  show "rt_ok ?n frame s"
    unfolding s using m by (intro chains_ok(1) [OF f]) (simp add: p)
  show "rt_pos s \<le> ?n + (if vht40 v then 1 else 0)"
    using chains_ok(2) [OF f] m hdrlen_room(2) [of v] by (auto simp: s p)
qed

text \<open>The builder fails exactly on a legacy rate outside the table of the band.\<close>

lemma add_rtap_hdr_fails:
  "rwnx_rx_add_rtap_hdr five stack v n frame = None \<longleftrightarrow> legacy v \<and> legacy_rate five v = None"
  by (auto simp: rwnx_rx_add_rtap_hdr_def put_rate_def legacy_def)


subsection \<open>Reading the header back\<close>

lemma keep_stages:
  assumes "written s p bs"
  shows "written (put8 x s) p bs" "written (put_flags v s) p bs" "written (put_channel v s) p bs"
    "written (put_signal v s) p bs" "written (put_rx_flags s) p bs" "written (put_mcs v s) p bs"
    "written (put_ampdu v s) p bs" "written (put_vht v s) p bs" "written (put_he stack v s) p bs"
    "written (put_chains v s) p bs"
proof -
  have k8: "written (put8 x s) p bs" if "written s p bs" for x s
    using that by (simp only: put8_bytes written_keep)
  then have o8: "written (or8 x s) p bs" if "written s p bs" for x s
    using that by (simp add: or8_def)
  show "written (put8 x s) p bs" "written (put_flags v s) p bs" "written (put_channel v s) p bs"
    "written (put_signal v s) p bs" "written (put_rx_flags s) p bs" "written (put_mcs v s) p bs"
    "written (put_ampdu v s) p bs" "written (put_vht v s) p bs" "written (put_he stack v s) p bs"
    "written (put_chains v s) p bs"
    using assms
    by (simp_all add: put_flags_def put_channel_def put_signal_def put_rx_flags_def put_mcs_def put_ampdu_def
        put_vht_def put_he_def put_chains_def Let_def k8 o8 written_keep written_pad radiotap_bits
        del: put_bytes.simps)
qed

lemma written_here: "8 \<le> rt_pos s \<Longrightarrow> p = rt_pos s \<Longrightarrow> written (put_bytes bs s) p bs"
  by (simp add: written_put)

lemma new_stages:
  assumes "rt_ok n frame s"
  shows "written (put_tsft v s) (roundup (rt_pos s) 8) (le_bytes 8 (tsf v))"
    and "written (put_flags v s) (rt_pos s) [rtap_flags v]"
    and "written (put_channel v s) (rt_pos s) (le_bytes 2 (get phy_prim20_freq v) @ le_bytes 2 (channel_flags v))"
    and "hweight (get antenna_set v) = 1 \<Longrightarrow>
      written (put_signal v s) (rt_pos s) [of_nat (get rssi1 v)] \<and>
      written (put_signal v s) (rt_pos s + 1) [of_nat (get antenna_set v)]"
    and "written (put_rx_flags s) (roundup (rt_pos s) 2) [0, 0]"
    and "is_ht v \<Longrightarrow> written (put_mcs v s) (rt_pos s) [0x07, mcs_flags v, of_nat (get ht_mcs v)]"
    and "aggregation v \<Longrightarrow>
      written (put_ampdu v s) (roundup (rt_pos s) 4) (le_bytes 4 (get ampdu_cnt v) @ [0, 0, 0, 0])"
    and "get format_mod v = FORMATMOD_HE_SU \<Longrightarrow>
      written (put_he stack v s) (roundup (rt_pos s) 2) (concat (map (le_bytes 2) (he_words stack v)))"
proof -
  have p: "8 \<le> rt_pos s" using assms by (simp add: rt_ok_def)
  have r: "8 \<le> roundup (rt_pos s) 8" "8 \<le> roundup (rt_pos s) 4" "8 \<le> roundup (rt_pos s) 2"
    using p roundup_ge [of 8 "rt_pos s"] roundup_ge [of 4 "rt_pos s"] roundup_ge [of 2 "rt_pos s"] by simp_all
  show "written (put_tsft v s) (roundup (rt_pos s) 8) (le_bytes 8 (tsf v))"
    unfolding put_tsft_def tsf_def by (rule written_here) (simp_all add: r)
  show "written (put_flags v s) (rt_pos s) [rtap_flags v]"
    unfolding put_flags_def put8_bytes by (rule written_here) (simp_all add: p)
  show "written (put_channel v s) (rt_pos s) (le_bytes 2 (get phy_prim20_freq v) @ le_bytes 2 (channel_flags v))"
    unfolding put_channel_def put_bytes_append [symmetric] by (rule written_here) (simp_all add: p)
  show "written (put_rx_flags s) (roundup (rt_pos s) 2) [0, 0]"
    unfolding put_rx_flags_def by (rule written_here) (simp_all add: r)
  show "written (put_mcs v s) (rt_pos s) [0x07, mcs_flags v, of_nat (get ht_mcs v)]" if "is_ht v"
    using that unfolding put_mcs_def by (simp del: put_bytes.simps) (rule written_here, simp_all add: p)
  show "hweight (get antenna_set v) = 1 \<Longrightarrow>
      written (put_signal v s) (rt_pos s) [of_nat (get rssi1 v)] \<and>
      written (put_signal v s) (rt_pos s + 1) [of_nat (get antenna_set v)]"
  proof -
    assume h: "hweight (get antenna_set v) = 1"
    let ?r = "[of_nat (get rssi1 v)] :: bytes" and ?a = "[of_nat (get antenna_set v)] :: bytes"
    let ?s = "put_bytes ?r (present RADIOTAP_DBM_ANTSIGNAL s)"
    have eq: "put_signal v s = put_bytes ?a (present RADIOTAP_ANTENNA ?s)"
      using h unfolding put_signal_def put8_bytes by (simp del: put_bytes.simps)
    have "written ?s (rt_pos s) ?r"
      by (rule written_here) (simp_all add: p)
    then have "written (present RADIOTAP_ANTENNA ?s) (rt_pos s) ?r"
      by (rule written_keep(4)) (simp add: radiotap_bits)
    then have 1: "written (put_signal v s) (rt_pos s) ?r"
      unfolding eq by (rule written_keep(1))
    have 2: "written (put_signal v s) (rt_pos s + 1) ?a"
      unfolding eq by (rule written_here) (use p in \<open>simp_all del: put_bytes.simps\<close>)
    show ?thesis using 1 2 by blast
  qed
  have "le_bytes k 0 = replicate k 0" for k
    by (induction k) simp_all
  then have "le_bytes 4 0 = [0, 0, 0, 0]" by (simp add: eval_nat_numeral)
  then show "aggregation v \<Longrightarrow>
      written (put_ampdu v s) (roundup (rt_pos s) 4) (le_bytes 4 (get ampdu_cnt v) @ [0, 0, 0, 0])"
    unfolding put_ampdu_def by (simp del: put_bytes.simps le_bytes.simps) (rule written_here, simp_all add: r)
  show "get format_mod v = FORMATMOD_HE_SU \<Longrightarrow>
      written (put_he stack v s) (roundup (rt_pos s) 2) (concat (map (le_bytes 2) (he_words stack v)))"
    unfolding put_he_def by (simp del: put_bytes.simps le_bytes.simps) (rule written_here, simp_all add: r)
qed

lemma pres_put8: "rt_ok n frame s \<Longrightarrow> b < 32 \<Longrightarrow> pres (put8 x s) b = pres s b"
  by (simp only: put8_bytes pres_put)


lemma pres_stages:
  assumes "rt_ok n frame s" and "b < 32"
  shows "pres (put_tsft v s) b \<longleftrightarrow> b = RADIOTAP_TSFT \<or> pres s b"
    and "pres (put_flags v s) b \<longleftrightarrow> b = RADIOTAP_FLAGS \<or> pres s b"
    and "pres (put_channel v s) b \<longleftrightarrow> b = RADIOTAP_CHANNEL \<or> pres s b"
    and "hweight (get antenna_set v) = 1 \<Longrightarrow>
      pres (put_signal v s) b \<longleftrightarrow> b = RADIOTAP_DBM_ANTSIGNAL \<or> b = RADIOTAP_ANTENNA \<or> pres s b"
    and "pres (put_rx_flags s) b \<longleftrightarrow> b = RADIOTAP_RX_FLAGS \<or> pres s b"
    and "pres (put_mcs v s) b \<longleftrightarrow> is_ht v \<and> b = RADIOTAP_MCS \<or> pres s b"
    and "pres (put_ampdu v s) b \<longleftrightarrow> aggregation v \<and> b = RADIOTAP_AMPDU_STATUS \<or> pres s b"
    and "pres (put_he stack v s) b \<longleftrightarrow> get format_mod v = FORMATMOD_HE_SU \<and> b = RADIOTAP_HE \<or> pres s b"
    and "pres (put_vht v s) b \<longleftrightarrow> get format_mod v = FORMATMOD_VHT \<and> b = RADIOTAP_VHT \<or> pres s b"
proof -
  have w: "32 \<le> x div 8 + 4 \<Longrightarrow> False" if "x < 32" for x :: nat
    using that by presburger
  have pb: "pres (put_bytes cs s) b = pres s b" if "8 \<le> rt_pos s" for cs s
  proof -
    have "(32 + b) div 8 < 8" using assms(2) by presburger
    then show ?thesis using that by (simp add: pres_def mem_bit_def put_bytes_mem)
  qed
  have pp: "pres (pad k s) b = pres s b" if "8 \<le> rt_pos s" for k s
    using that by (simp add: pad_def pb)
  have p8: "pres (put8 x s) b = pres s b" "pres (or8 x s) b = pres s b" if "8 \<le> rt_pos s" for x s
    using that by (simp_all only: or8_def put8_bytes pb)
  have r: "8 \<le> roundup x k" if "8 \<le> x" "0 < k" for x k
    using roundup_ge [of k x] that by simp
  have p: "8 \<le> rt_pos s" using assms(1) by (simp add: rt_ok_def)
  show "pres (put_tsft v s) b \<longleftrightarrow> b = RADIOTAP_TSFT \<or> pres s b"
    and "pres (put_flags v s) b \<longleftrightarrow> b = RADIOTAP_FLAGS \<or> pres s b"
    and "pres (put_channel v s) b \<longleftrightarrow> b = RADIOTAP_CHANNEL \<or> pres s b"
    and "hweight (get antenna_set v) = 1 \<Longrightarrow>
      pres (put_signal v s) b \<longleftrightarrow> b = RADIOTAP_DBM_ANTSIGNAL \<or> b = RADIOTAP_ANTENNA \<or> pres s b"
    and "pres (put_rx_flags s) b \<longleftrightarrow> b = RADIOTAP_RX_FLAGS \<or> pres s b"
    and "pres (put_mcs v s) b \<longleftrightarrow> is_ht v \<and> b = RADIOTAP_MCS \<or> pres s b"
    and "pres (put_ampdu v s) b \<longleftrightarrow> aggregation v \<and> b = RADIOTAP_AMPDU_STATUS \<or> pres s b"
    and "pres (put_he stack v s) b \<longleftrightarrow> get format_mod v = FORMATMOD_HE_SU \<and> b = RADIOTAP_HE \<or> pres s b"
    and "pres (put_vht v s) b \<longleftrightarrow> get format_mod v = FORMATMOD_VHT \<and> b = RADIOTAP_VHT \<or> pres s b"
    using p
    by (auto simp: put_tsft_def put_flags_def put_channel_def put_signal_def put_rx_flags_def put_mcs_def
        put_ampdu_def put_he_def put_vht_def Let_def pb p8 pp r pres_present simp del: put_bytes.simps le_bytes.simps)
qed

text \<open>The VHT field: eleven bytes and those of the bandwidth, the rest left zero.\<close>

definition vht_bytes :: "mem \<Rightarrow> bytes" where
  "vht_bytes v = le_bytes 2 (vht_details v) @ [b8 (flag vht_short_gi v) 0x04 OR b8 (flag vht_stbc v) 0x01] @
     vht_bandwidth v @ [vht_mcs_nss v] @ [0, 0, 0] @ [b8 (flag vht_fec v) 0x01]"

lemma vht_bytes_written:
  assumes "rt_ok n frame s" and "get format_mod v = FORMATMOD_VHT" and "rt_pos s + 12 \<le> n"
  shows "written (put_vht v s) (rt_pos s) (vht_bytes v @ replicate (4 - length (vht_bandwidth v)) 0)"
proof -
  let ?p = "rt_pos s" and ?l = "length (vht_bandwidth v)"
  have l: "?l \<le> 2" "1 \<le> ?l" by (simp_all add: vht_bandwidth_length)
  have p8: "8 \<le> ?p" using assms(1) by (simp add: rt_ok_def)
  let ?a = "le_bytes 2 (vht_details v)"
  let ?b = "[b8 (flag vht_short_gi v) 0x04 OR b8 (flag vht_stbc v) 0x01]"
  let ?e = "[b8 (flag vht_fec v) 0x01]"
  define s1 where "s1 = put_bytes ?a (present RADIOTAP_VHT s)"
  have 1: "rt_ok n frame s1" "rt_pos s1 = ?p + 2"
    using assms by (simp_all add: s1_def ok_put_bytes ok_present radiotap_bits del: le_bytes.simps)
  define s2 where "s2 = put_bytes (?b @ vht_bandwidth v @ [vht_mcs_nss v]) s1"
  have 2: "rt_ok n frame s2" "rt_pos s2 = ?p + 4 + ?l"
    using assms(3) 1 l unfolding s2_def by (simp_all add: ok_put_bytes del: put_bytes.simps append.simps)
  define s3 where "s3 = put_bytes ?e (advance 3 s2)"
  have 3: "rt_ok n frame (advance 3 s2)" using 2 by (simp add: ok_move)
  have eq: "put_vht v s = advance 3 s3"
  proof -
    have "or8 (b8 (flag vht_short_gi v) 0x04 OR b8 (flag vht_stbc v) 0x01) s1 = put_bytes ?b s1"
      using 1 assms(3) by (intro or8_zero [OF 1(1)]) simp
    moreover have "or8 (b8 (flag vht_fec v) 0x01) (advance 3 s2) = s3"
      unfolding s3_def using 2 assms(3) l by (intro or8_zero [OF 3]) simp
    moreover have "s2 = put8 (vht_mcs_nss v) (put_bytes (vht_bandwidth v) (put_bytes ?b s1))"
      by (simp only: s2_def put_bytes_append put8_bytes)
    ultimately show ?thesis
      using assms(2) by (simp add: put_vht_def Let_def s1_def [symmetric] del: put_bytes.simps)
  qed
  have w1: "written s1 ?p ?a"
    unfolding s1_def by (rule written_here) (simp_all add: p8)
  then have w1': "written s3 ?p ?a"
    unfolding s3_def s2_def by (intro written_keep)
  have "written s2 (?p + 2) (?b @ vht_bandwidth v @ [vht_mcs_nss v])"
    unfolding s2_def by (rule written_here) (use p8 in \<open>simp_all add: 1\<close>)
  then have w2: "written s3 (?p + 2) (?b @ vht_bandwidth v @ [vht_mcs_nss v])"
    unfolding s3_def by (intro written_keep)
  have "written (advance 3 s2) (rt_pos s2) (replicate 3 0)"
    using 2 assms(3) l by (intro written_advance [OF 2(1)]) simp_all
  then have "written (advance 3 s2) (?p + 4 + ?l) [0, 0, 0]"
    by (simp add: 2 eval_nat_numeral)
  then have w3: "written s3 (?p + 4 + ?l) [0, 0, 0]"
    unfolding s3_def by (rule written_keep(1))
  have w4: "written s3 (?p + 7 + ?l) ?e"
    unfolding s3_def by (rule written_here) (use p8 in \<open>simp_all add: 2\<close>)
  have "written s3 (?p + 4 + ?l) ([0, 0, 0] @ ?e)"
    by (rule written_append [OF w3]) (use w4 in \<open>simp add: eval_nat_numeral\<close>)
  moreover have "?p + 4 + ?l = ?p + 2 + length (?b @ vht_bandwidth v @ [vht_mcs_nss v])"
    by simp
  ultimately have "written s3 (?p + 2 + length (?b @ vht_bandwidth v @ [vht_mcs_nss v])) ([0, 0, 0] @ ?e)"
    by (simp only:)
  then have "written s3 (?p + length ?a) ((?b @ vht_bandwidth v @ [vht_mcs_nss v]) @ [0, 0, 0] @ ?e)"
    by (simp only: le_bytes_length) (rule written_append [OF w2])
  from written_append [OF w1' this] have "written s3 ?p (vht_bytes v)"
    unfolding vht_bytes_def by (simp only: append_assoc)
  then have w: "written (advance 3 s3) ?p (vht_bytes v)"
    by (rule written_keep(2))
  have 4: "rt_ok n frame s3" "rt_pos s3 = ?p + length (vht_bytes v)"
  proof -
    show "rt_ok n frame s3"
      unfolding s3_def by (rule ok_put_bytes [OF 3]) (use 2 l assms(3) in simp)
    show "rt_pos s3 = ?p + length (vht_bytes v)"
      using 2 by (simp add: s3_def vht_bytes_def)
  qed
  have "length (vht_bytes v) = 8 + ?l" by (simp add: vht_bytes_def)
  then have "written (advance 3 s3) (?p + length (vht_bytes v)) (replicate (4 - ?l) 0)"
    using written_advance [OF 4(1), of "4 - ?l" 3] 4(2) l assms(3) by simp
  then show ?thesis
    unfolding eq by (rule written_append [OF w])
qed


text \<open>A header for one antenna: positions and contents of the fields common to all formats.\<close>

lemma common_written:
  assumes "hweight (get antenna_set v) = 1" and "base_pos v \<le> n"
    and "put_rate five v (put_flags v (put_tsft v (rtap_start v n frame))) = Some s0"
  defines "s \<equiv> put_common v s0"
  shows "rt_ok n frame s" "rt_pos s = 26" "written s 8 (le_bytes 8 (tsf v))" "written s 16 [rtap_flags v]"
    "legacy v \<Longrightarrow> written s 17 [the (legacy_rate five v)]"
    "written s 18 (le_bytes 2 (get phy_prim20_freq v) @ le_bytes 2 (channel_flags v))"
    "written s 22 [of_nat (get rssi1 v)]" "written s 23 [of_nat (get antenna_set v)]" "written s 24 [0, 0]"
    "b < 32 \<Longrightarrow> pres s b \<longleftrightarrow> b \<in> {RADIOTAP_TSFT, RADIOTAP_FLAGS, RADIOTAP_CHANNEL, RADIOTAP_DBM_ANTSIGNAL,
       RADIOTAP_ANTENNA, RADIOTAP_RX_FLAGS} \<or> legacy v \<and> b = RADIOTAP_RATE"
proof -
  have e: "ext_chains v = []" using assms(1) by (simp add: ext_chains_def)
  have r: "roundup 8 8 = 8" "roundup 24 2 = 24" by (simp_all add: roundup_def)
  have bp: "base_pos v = 26" using assms(1) by (simp add: base_pos_def e r)
  then have n: "26 \<le> n" using assms(2) by simp
  let ?a = "rtap_start v n frame"
  have 0: "rt_ok n frame ?a" "rt_pos ?a = 8"
    using start_ok [of v n frame] n by (simp_all add: e)
  have p0: "\<not> pres ?a b" if "b < 32" for b
  proof -
    have z: "le_bytes k 0 = replicate k 0" for k by (induction k) simp_all
    have "\<not> 1 < hweight (get antenna_set v)" using assms(1) by simp
    then have eq: "?a = put_bytes (([0, 0] @ le_bytes 2 n) @ replicate 4 0)
        \<lparr>rt_mem = (\<lambda>i. if i < n then 0 else frame (i - n)), rt_pos = 0\<rparr>"
      by (simp add: rtap_start_def put_bytes_append z del: le_bytes.simps)
    have "rt_mem ?a q = 0" if "4 \<le> q" "q < 8" for q
      using that unfolding eq
      by (simp add: put_bytes_mem nth_append del: put_bytes.simps le_bytes.simps append.simps) linarith
    moreover have "4 \<le> (32 + b) div 8" "(32 + b) div 8 < 8" using that by presburger+
    ultimately have "rt_mem ?a ((32 + b) div 8) = 0" by blast
    then show ?thesis by (simp add: pres_def mem_bit_def)
  qed
  let ?t = "put_tsft v ?a" and ?f = "put_flags v (put_tsft v ?a)"
  have 1: "rt_ok n frame ?t" "rt_pos ?t = 16"
    using ok_stages(1) [OF 0(1), of v] n 0(2) by (simp_all add: pos_stages r)
  have 2: "rt_ok n frame ?f" "rt_pos ?f = 17"
    using ok_stages(2) [OF 1(1), of v] n 1(2) by (simp_all add: pos_stages(2))
  have 3: "rt_ok n frame s0" "rt_pos s0 = 18"
    using assms(3) 2 n by (auto simp: put_rate_def ok_put8 ok_present radiotap_bits split: if_splits)
  have 4: "rt_ok n frame (put_channel v s0)" "rt_pos (put_channel v s0) = 22"
    using ok_stages(3) [OF 3(1), of v] n 3(2) by (simp_all add: pos_stages(3))
  have 5: "rt_ok n frame (put_signal v (put_channel v s0))" "rt_pos (put_signal v (put_channel v s0)) = 24"
    using ok_stages(4) [OF 4(1), of v] n 4(2) assms(1) by (simp_all add: pos_stages(4))
  show "rt_ok n frame s" "rt_pos s = 26"
    using common_ok [OF assms(3,2)] bp by (simp_all add: s_def)
  have keep: "written s p bs" if "written ?f p bs" for p bs
  proof -
    have "written s0 p bs"
      using assms(3) that by (auto simp: put_rate_def keep_stages(1) written_keep(4) radiotap_bits split: if_splits)
    then show ?thesis unfolding s_def put_common_def by (intro keep_stages)
  qed
  show "written s 8 (le_bytes 8 (tsf v))"
    using new_stages(1) [OF 0(1), of v] by (intro keep keep_stages(2)) (simp add: 0 r)
  show "written s 16 [rtap_flags v]"
    using new_stages(2) [OF 1(1), of v] by (intro keep) (simp add: 1)
  show "written s 17 [the (legacy_rate five v)]" if leg: "legacy v"
  proof -
    obtain q where q: "legacy_rate five v = Some q" "s0 = put_bytes [q] (present RADIOTAP_RATE ?f)"
      using assms(3) leg by (auto simp: put_rate_def legacy_def split: if_splits)
    have "written s0 17 [q]"
      unfolding q(2) by (rule written_here) (simp_all add: 2)
    then show ?thesis unfolding s_def put_common_def q(1) option.sel by (intro keep_stages)
  qed
  show "written s 18 (le_bytes 2 (get phy_prim20_freq v) @ le_bytes 2 (channel_flags v))"
    using new_stages(3) [OF 3(1), of v] unfolding s_def put_common_def 3(2) by (intro keep_stages(4,5))
  show "written s 22 [of_nat (get rssi1 v)]" "written s 23 [of_nat (get antenna_set v)]"
    using new_stages(4) [OF 4(1) assms(1)] unfolding s_def put_common_def 4(2)
    by (auto intro: keep_stages(5))
  show "written s 24 [0, 0]"
    using new_stages(5) [OF 5(1)] unfolding s_def put_common_def 5(2) r .
  show "pres s b \<longleftrightarrow> b \<in> {RADIOTAP_TSFT, RADIOTAP_FLAGS, RADIOTAP_CHANNEL, RADIOTAP_DBM_ANTSIGNAL,
       RADIOTAP_ANTENNA, RADIOTAP_RX_FLAGS} \<or> legacy v \<and> b = RADIOTAP_RATE" if b: "b < 32"
  proof -
    have f: "pres ?f b \<longleftrightarrow> b \<in> {RADIOTAP_TSFT, RADIOTAP_FLAGS}"
      using p0 [OF b] by (auto simp: pres_stages [OF 1(1) b] pres_stages [OF 0(1) b])
    have "pres s0 b \<longleftrightarrow> b \<in> {RADIOTAP_TSFT, RADIOTAP_FLAGS} \<or> legacy v \<and> b = RADIOTAP_RATE"
    proof (cases "legacy v")
      case True
      then obtain q where "s0 = put8 q (present RADIOTAP_RATE ?f)"
        using assms(3) by (auto simp: put_rate_def legacy_def split: if_splits)
      moreover have "rt_ok n frame (present RADIOTAP_RATE ?f)"
        by (rule ok_present [OF 2(1)]) (simp add: radiotap_bits)
      ultimately show ?thesis using True f b by (auto simp: pres_put8 pres_present)
    next
      case False
      then have "s0 = put8 0 ?f"
        using assms(3) by (auto simp: put_rate_def legacy_def)
      then show ?thesis using False f b pres_put8 [OF 2(1) b] by simp
    qed
    then show ?thesis
      unfolding s_def put_common_def
      by (auto simp: pres_stages(5) [OF 5(1) b] pres_stages(4) [OF 4(1) b assms(1)] pres_stages(3) [OF 3(1) b])
  qed
qed


lemma formats_written:
  fixes stack :: "nat \<Rightarrow> nat"
  assumes "rt_ok n frame s" and "rt_pos s = 26" and "tail_len v 1 26 \<le> n"
  defines "s' \<equiv> put_formats stack v s"
  shows "written s p bs \<Longrightarrow> written s' p bs"
    and "is_ht v \<Longrightarrow> written s' 26 [0x07, mcs_flags v, of_nat (get ht_mcs v)]"
    and "aggregation v \<Longrightarrow> written s' (if is_ht v then 32 else 28) (le_bytes 4 (get ampdu_cnt v) @ [0, 0, 0, 0])"
    and "get format_mod v = FORMATMOD_VHT \<Longrightarrow>
      written s' 36 (vht_bytes v @ replicate (4 - length (vht_bandwidth v)) 0)"
    and "get format_mod v = FORMATMOD_HE_SU \<Longrightarrow> written s' 36 (concat (map (le_bytes 2) (he_words stack v)))"
    and "b < 32 \<Longrightarrow> pres s' b \<longleftrightarrow> pres s b \<or> is_ht v \<and> b = RADIOTAP_MCS \<or>
      aggregation v \<and> b = RADIOTAP_AMPDU_STATUS \<or> get format_mod v = FORMATMOD_VHT \<and> b = RADIOTAP_VHT \<or>
      get format_mod v = FORMATMOD_HE_SU \<and> b = RADIOTAP_HE"
proof -
  have t: "tail_len v 1 (rt_pos s) \<le> n" using assms(2,3) by simp
  note tl = tail_le [OF assms(3)] and fa = formats_apart [of v]
  have r: "roundup 26 4 = 28" "roundup 29 4 = 32" "roundup 36 2 = 36" by (simp_all add: roundup_def)
  let ?m = "put_mcs v s" and ?a = "put_ampdu v (put_mcs v s)" and ?v = "put_vht v (put_ampdu v (put_mcs v s))"
  have 1: "rt_ok n frame ?m" "rt_pos ?m = (if is_ht v then 29 else 26)"
    using ok_stages(6) [OF assms(1)] tl(1) by (simp_all add: assms(2) pos_stages)
  have "aggregation v \<longrightarrow> roundup (rt_pos ?m) 4 + 8 \<le> n"
    using tl(2) by (simp add: 1 split: if_splits)
  then have 2: "rt_ok n frame ?a" by (rule ok_stages(7) [OF 1(1)])
  have p36: "get format_mod v = FORMATMOD_VHT \<or> get format_mod v = FORMATMOD_HE_SU \<Longrightarrow> rt_pos ?a = 36"
    using fa by (auto simp: pos_stages(7) 1 r)
  have "get format_mod v = FORMATMOD_VHT \<longrightarrow> rt_pos ?a + 12 \<le> n"
    using tl(3) p36 by (simp add: r)
  then have 3: "rt_ok n frame ?v" by (rule ok_vht [OF 2])
  show "written s p bs \<Longrightarrow> written s' p bs"
    unfolding s'_def put_formats_def by (intro keep_stages)
  show "written s' 26 [0x07, mcs_flags v, of_nat (get ht_mcs v)]" if "is_ht v"
    using new_stages(6) [OF assms(1) that] unfolding s'_def put_formats_def assms(2)
    by (intro keep_stages(7,8,9))
  show "written s' (if is_ht v then 32 else 28) (le_bytes 4 (get ampdu_cnt v) @ [0, 0, 0, 0])" if "aggregation v"
  proof -
    have "written ?a (if is_ht v then 32 else 28) (le_bytes 4 (get ampdu_cnt v) @ [0, 0, 0, 0])"
      using new_stages(7) [OF 1(1) that] by (simp add: 1 r split: if_splits del: le_bytes.simps)
    then show ?thesis unfolding s'_def put_formats_def by (intro keep_stages(8,9))
  qed
  show "written s' 36 (vht_bytes v @ replicate (4 - length (vht_bandwidth v)) 0)"
    if "get format_mod v = FORMATMOD_VHT"
    using vht_bytes_written [OF 2 that] tl(3) p36 that unfolding s'_def put_formats_def
    by (intro keep_stages(9)) (simp add: r)
  show "written s' 36 (concat (map (le_bytes 2) (he_words stack v)))" if "get format_mod v = FORMATMOD_HE_SU"
  proof -
    have "rt_pos ?v = 36" using p36 that fa by (auto simp: pos_stages(9))
    then show ?thesis
      using new_stages(8) [OF 3 that, of stack] unfolding s'_def put_formats_def by (simp only: r)
  qed
  show "pres s' b \<longleftrightarrow> pres s b \<or> is_ht v \<and> b = RADIOTAP_MCS \<or>
      aggregation v \<and> b = RADIOTAP_AMPDU_STATUS \<or> get format_mod v = FORMATMOD_VHT \<and> b = RADIOTAP_VHT \<or>
      get format_mod v = FORMATMOD_HE_SU \<and> b = RADIOTAP_HE" if b: "b < 32"
    unfolding s'_def put_formats_def
    by (auto simp: pres_stages(8) [OF 3 b] pres_stages(9) [OF 2 b] pres_stages(7) [OF 1(1) b] pres_stages(6) [OF assms(1) b])
qed

lemma map_upt_written: "written s p bs \<Longrightarrow> map (rt_mem s) [p..<p + length bs] = bs"
  by (rule written_map) simp_all

lemma parse_step:
  "parse_fields ((b, align, sz) # fs) m p =
     (if mem_bit m (32 + b)
      then ((b, map m [roundup p align..<roundup p align + sz]) # fst (parse_fields fs m (roundup p align + sz)),
            snd (parse_fields fs m (roundup p align + sz)))
      else parse_fields fs m p)"
  by (simp add: Let_def split: prod.splits)


text \<open>The parser on a memory whose presence bits and field contents are known.\<close>

lemma parse_present:
  assumes "written s (roundup p align) bs" and "length bs = sz" and "pres s b"
  shows "parse_fields ((b, align, sz) # fs) (rt_mem s) p =
     ((b, bs) # fst (parse_fields fs (rt_mem s) (roundup p align + sz)),
      snd (parse_fields fs (rt_mem s) (roundup p align + sz)))"
  using assms(3) written_map [OF assms(1), of sz] assms(2) by (simp add: parse_step pres_def del: parse_fields.simps)

lemma parse_absent: "\<not> pres s b \<Longrightarrow> parse_fields ((b, align, sz) # fs) (rt_mem s) p = parse_fields fs (rt_mem s) p"
  by (simp add: pres_def)

text \<open>The fields after the common ones, by format.\<close>

definition format_fields :: "(nat \<times> nat \<times> nat) list" where
  "format_fields = [(RADIOTAP_MCS, 1, 3), (RADIOTAP_AMPDU_STATUS, 4, 8), (RADIOTAP_VHT, 2, 12), (RADIOTAP_HE, 2, 12)]"

definition format_spec :: "(nat \<Rightarrow> nat) \<Rightarrow> mem \<Rightarrow> (nat \<times> bytes) list" where
  "format_spec stack v =
     (if is_ht v then [(RADIOTAP_MCS, [0x07, mcs_flags v, of_nat (get ht_mcs v)])] else []) @
     (if aggregation v then [(RADIOTAP_AMPDU_STATUS, le_bytes 4 (get ampdu_cnt v) @ [0, 0, 0, 0])] else []) @
     (if get format_mod v = FORMATMOD_VHT
      then [(RADIOTAP_VHT, vht_bytes v @ replicate (4 - length (vht_bandwidth v)) 0)] else []) @
     (if get format_mod v = FORMATMOD_HE_SU
      then [(RADIOTAP_HE, concat (map (le_bytes 2) (he_words stack v)))] else [])"

lemma parse_formats:
  assumes "rt_ok n frame s" and "rt_pos s = 26" and "tail_len v 1 26 \<le> n"
    and "\<And>b. b \<in> {RADIOTAP_MCS, RADIOTAP_AMPDU_STATUS, RADIOTAP_VHT, RADIOTAP_HE} \<Longrightarrow> \<not> pres s b"
  shows "parse_fields format_fields (rt_mem (put_formats stack v s)) 26 = (format_spec stack v, tail_len v 1 26)"
proof -
  let ?s = "put_formats stack v s"
  note w = formats_written [OF assms(1-3), where stack = stack] and fa = formats_apart [of v]
  have r: "roundup 26 1 = 26" "roundup 26 4 = 28" "roundup 29 4 = 32" "roundup 36 2 = 36" by (simp_all add: roundup_def)
  have p: "pres ?s RADIOTAP_MCS = is_ht v" "pres ?s RADIOTAP_AMPDU_STATUS = aggregation v"
    "pres ?s RADIOTAP_VHT = (get format_mod v = FORMATMOD_VHT)" "pres ?s RADIOTAP_HE = (get format_mod v = FORMATMOD_HE_SU)"
    using assms(4) by (auto simp: w(6) radiotap_bits)
  have vl: "length (vht_bytes v @ replicate (4 - length (vht_bandwidth v)) 0) = 12"
    by (simp add: vht_bytes_def vht_bandwidth_def)
  have hl: "length (concat (map (le_bytes 2) (he_words stack v))) = 12"
    by (simp add: he_words_def del: le_bytes.simps)
  have al: "length (le_bytes 4 (get ampdu_cnt v) @ [0, 0, 0, 0]) = 8"
    by (simp del: le_bytes.simps)
  consider (ht) "is_ht v" | (vht) "get format_mod v = FORMATMOD_VHT" | (he) "get format_mod v = FORMATMOD_HE_SU"
    | (other) "\<not> is_ht v" "get format_mod v \<noteq> FORMATMOD_VHT" "get format_mod v \<noteq> FORMATMOD_HE_SU" by blast
  then show ?thesis
  proof cases
    case ht
    then show ?thesis
      using w(2,3) p fa r al
      by (simp add: format_fields_def format_spec_def parse_present [where bs = "[7, mcs_flags v, of_nat (get ht_mcs v)]"]
          parse_present [where bs = "le_bytes 4 (get ampdu_cnt v) @ [0, 0, 0, 0]"] parse_absent tail_len_def Let_def
          del: le_bytes.simps parse_fields.simps(2))
  next
    case vht
    then have "\<not> is_ht v" "aggregation v" "get format_mod v \<noteq> FORMATMOD_HE_SU"
      using fa by auto
    with vht show ?thesis
      using w(3,4) p r al vl
      by (simp add: format_fields_def format_spec_def
          parse_present [where bs = "vht_bytes v @ replicate (4 - length (vht_bandwidth v)) 0"]
          parse_present [where bs = "le_bytes 4 (get ampdu_cnt v) @ [0, 0, 0, 0]"] parse_absent tail_len_def Let_def
          del: le_bytes.simps parse_fields.simps(2))
  next
    case he
    then have "\<not> is_ht v" "aggregation v" "get format_mod v \<noteq> FORMATMOD_VHT"
      using fa by auto
    with he show ?thesis
      using w(3,5) p r al hl
      by (simp add: format_fields_def format_spec_def
          parse_present [where bs = "concat (map (le_bytes 2) (he_words stack v))"]
          parse_present [where bs = "le_bytes 4 (get ampdu_cnt v) @ [0, 0, 0, 0]"] parse_absent tail_len_def Let_def
          del: le_bytes.simps parse_fields.simps(2))
  next
    case other
    then show ?thesis
      using w(3) p r al
      by (simp add: format_fields_def format_spec_def
          parse_present [where bs = "le_bytes 4 (get ampdu_cnt v) @ [0, 0, 0, 0]"] parse_absent tail_len_def Let_def
          del: le_bytes.simps parse_fields.simps(2))
  qed
qed


text \<open>The fields that the builder wrote for a frame received on one antenna, in the builder's terms.\<close>

definition rtap_built :: "bool \<Rightarrow> (nat \<Rightarrow> nat) \<Rightarrow> mem \<Rightarrow> (nat \<times> bytes) list" where
  "rtap_built five stack v =
     [(RADIOTAP_TSFT, le_bytes 8 (tsf v)), (RADIOTAP_FLAGS, [rtap_flags v])] @
     (if legacy v then [(RADIOTAP_RATE, [the (legacy_rate five v)])] else []) @
     [(RADIOTAP_CHANNEL, le_bytes 2 (get phy_prim20_freq v) @ le_bytes 2 (channel_flags v)),
      (RADIOTAP_DBM_ANTSIGNAL, [of_nat (get rssi1 v)]), (RADIOTAP_ANTENNA, [of_nat (get antenna_set v)]),
      (RADIOTAP_RX_FLAGS, [0, 0])] @ format_spec stack v"

lemma fields_split:
  "radiotap_fields = [(RADIOTAP_TSFT, 8, 8), (RADIOTAP_FLAGS, 1, 1), (RADIOTAP_RATE, 1, 1), (RADIOTAP_CHANNEL, 2, 4),
      (RADIOTAP_DBM_ANTSIGNAL, 1, 1), (RADIOTAP_ANTENNA, 1, 1), (RADIOTAP_RX_FLAGS, 2, 2)] @ format_fields"
  by (simp add: radiotap_fields_def format_fields_def radiotap_bits)

lemma parse_header:
  assumes "hweight (get antenna_set v) = 1" and "rtap_hdrlen v = n"
    and "rwnx_rx_add_rtap_hdr five stack v n frame = Some s"
  shows "radiotap_parse (rt_mem s) = (rtap_built five stack v, n)"
proof -
  obtain s0 where r: "put_rate five v (put_flags v (put_tsft v (rtap_start v n frame))) = Some s0"
    and s': "s = put_chains v (put_formats stack v (put_common v s0))"
    using assms(3) by (auto simp: add_rtap_hdr_alt)
  have s: "s = put_formats stack v (put_common v s0)"
    using assms(1) by (simp add: s' put_chains_def)
  have e: "ext_chains v = []" using assms(1) by (simp add: ext_chains_def)
  have bp: "base_pos v = 26" using assms(1) by (simp add: base_pos_def e roundup_def)
  have bn: "base_pos v \<le> n" "tail_len v 1 26 \<le> n"
    using hdrlen_room [of v] assms(2) bp by simp_all
  note c = common_written [OF assms(1) bn(1) r]
  note w = formats_written [OF c(1,2) bn(2), where stack = stack, folded s]
  have tl: "tail_len v 1 26 = n"
    using assms(1,2) hdrlen_base [of v] by (simp add: base_len_def)
  have pf: "parse_fields format_fields (rt_mem s) 26 = (format_spec stack v, n)"
    unfolding s tl [symmetric]
    by (rule parse_formats [OF c(1,2)]) (use bn tl in \<open>auto simp: c(10) radiotap_bits\<close>)
  have p: "pres s b \<longleftrightarrow> pres (put_common v s0) b" if "b < 19" for b
    using that w(6) [of b] by (auto simp: radiotap_bits)
  have q: "pres s RADIOTAP_TSFT" "pres s RADIOTAP_FLAGS" "pres s RADIOTAP_RATE = legacy v" "pres s RADIOTAP_CHANNEL"
    "pres s RADIOTAP_DBM_ANTSIGNAL" "pres s RADIOTAP_ANTENNA" "pres s RADIOTAP_RX_FLAGS"
    by (simp_all add: p c(10) radiotap_bits)
  have ro: "roundup 8 8 = 8" "roundup 16 1 = 16" "roundup 17 1 = 17" "roundup 17 2 = 18" "roundup 18 2 = 18"
    "roundup 22 1 = 22" "roundup 23 1 = 23" "roundup 24 2 = 24"
    by (simp_all add: roundup_def)
  have l: "length (le_bytes 2 (get phy_prim20_freq v) @ le_bytes 2 (channel_flags v)) = 4" by simp
  have k: "written s 8 (le_bytes 8 (tsf v))" "written s 16 [rtap_flags v]"
    "legacy v \<Longrightarrow> written s 17 [the (legacy_rate five v)]"
    "written s 18 (le_bytes 2 (get phy_prim20_freq v) @ le_bytes 2 (channel_flags v))"
    "written s 22 [of_nat (get rssi1 v)]" "written s 23 [of_nat (get antenna_set v)]" "written s 24 [0, 0]"
    using c(3-9) w(1) by blast+
  show ?thesis
    using q k ro l pf unfolding radiotap_parse_def fields_split rtap_built_def
    by (cases "legacy v")
      (simp_all add: parse_present [where bs = "le_bytes 8 (tsf v)"] parse_present [where bs = "[rtap_flags v]"]
        parse_present [where bs = "[the (legacy_rate five v)]"] parse_absent
        parse_present [where bs = "le_bytes 2 (get phy_prim20_freq v) @ le_bytes 2 (channel_flags v)"]
        parse_present [where bs = "[of_nat (get rssi1 v)]"] parse_present [where bs = "[of_nat (get antenna_set v)]"]
        parse_present [where bs = "[0, 0]"]
        del: le_bytes.simps parse_fields.simps(2))
qed

text \<open>
  What a reader should find, written with the numbers of the radiotap standard and not with the terms of
  the builder: numbers of the fields, weights of the flag bits, rates in units of 500 kbit/s by the rate
  code of the legacy signal field, channel flags, bandwidth codes.
\<close>

definition std_rate :: "nat \<Rightarrow> nat" where
  "std_rate r = [2, 4, 11, 22, 0, 0, 0, 0, 96, 48, 24, 12, 108, 72, 36, 18] ! r"

definition std_flags :: "mem \<Rightarrow> nat" where
  "std_flags v =
     (if get frm_successful_rx v = 0 then 64 else 0) +
     (if get format_mod v \<le> 1 \<and> get pre_type v = 0 then 2 else 0)"

definition std_channel :: "mem \<Rightarrow> nat" where
  "std_channel v =
     (if get phy_band v = 1 then 256 + 64 else if get format_mod v \<le> 1 then 128 + 32 else 1024 + 128)"

definition std_mcs :: "mem \<Rightarrow> nat" where
  "std_mcs v =
     (if get ch_bw v = 1 then 1 else 0) + (if get ht_short_gi v \<noteq> 0 then 4 else 0) +
     (if get format_mod v = 3 then 8 else 0) + (if get ht_fec v \<noteq> 0 then 16 else 0) +
     (if get ht_stbc v \<noteq> 0 then 32 else 0)"

text \<open>
  The VHT field: known fields, flags, bandwidth, four users, coding, group, partial AID.  A 40 MHz frame
  gets a second bandwidth byte, which moves what follows by one.
\<close>

definition std_vht :: "mem \<Rightarrow> nat list" where
  "std_vht v =
     (let known = (if get ch_bw v = 3 \<and> get phy_center2_freq v \<noteq> 0 then 4 else 68);
          flags = (if get vht_stbc v \<noteq> 0 then 1 else 0) + (if get vht_short_gi v \<noteq> 0 then 4 else 0);
          user = 16 * get vht_mcs v + get vht_nss v + 1; coding = (if get vht_fec v \<noteq> 0 then 1 else 0);
          bw = (if get ch_bw v = 2 then 4 else if get ch_bw v = 3 \<and> get phy_center2_freq v = 0 then 11 else 0)
      in if get ch_bw v = 1 then [known, 0, flags, 1, 0, user, 0, 0, 0, coding, 0, 0]
         else [known, 0, flags, bw, user, 0, 0, 0, coding, 0, 0, 0])"

text \<open>The six words of the HE field.\<close>

definition std_he :: "mem \<Rightarrow> nat list" where
  "std_he v =
     [4 + 8 + 16 + 32 + 64 + 128 + 512 + 16384 + 32768, 2 + 16,
      get he_bss_color v + 64 * get he_beam_change v + 128 * get he_uplink_flag v + 256 * get he_mcs v +
        4096 * get he_dcm v + 8192 * get he_fec v + 32768 * get he_stbc v,
      0,
      (if get ch_bw v \<le> 3 then get ch_bw v else 0) + 16 * get he_gi_type v + 64 * ((get he_ltf_type v + 1) mod 4) +
        16384 * get he_beamformed v,
      (if get he_stbc v \<noteq> 0 then 2 else get he_nss v) + 16 * get he_doppler v]"

definition rtap_spec :: "mem \<Rightarrow> (nat \<times> bytes) list" where
  "rtap_spec v =
     [(0, le_bytes 8 (get tsf_hi v * 2 ^ 32 + get tsf_lo v)), (1, [of_nat (std_flags v)])] @
     (if get format_mod v \<le> 1 then [(2, [of_nat (std_rate (get leg_rate v))])] else []) @
     [(3, le_bytes 2 (get phy_prim20_freq v) @ le_bytes 2 (std_channel v)),
      (5, [of_nat (get rssi1 v)]), (11, [of_nat (get antenna_set v)]), (14, [0, 0])] @
     (if get format_mod v = 2 \<or> get format_mod v = 3
      then [(19, [1 + 2 + 4, of_nat (std_mcs v), of_nat (get ht_mcs v)])] else []) @
     (if 4 \<le> get format_mod v \<or> 2 \<le> get format_mod v \<and> get ht_aggregation v \<noteq> 0
      then [(20, le_bytes 4 (get ampdu_cnt v) @ [0, 0, 0, 0])] else []) @
     (if get format_mod v = 4 then [(21, map of_nat (std_vht v))] else []) @
     (if get format_mod v = 5 then [(23, concat (map (le_bytes 2) (std_he v)))] else [])"

definition rate_ok :: "bool \<Rightarrow> nat \<Rightarrow> bool" where
  "rate_ok g r \<longleftrightarrow>
     (case bitrate True (if g then 1 else 0) (if g then word_of_int (legrates_idx r) - 4 else word_of_int (legrates_idx r)) of
        None \<Rightarrow> True | Some x \<Rightarrow> (x + 4) div 5 = std_rate r)"

lemma rate_ok: "r < 16 \<Longrightarrow> rate_ok g r"
proof -
  have t: "list_all (rate_ok True) [0..<16]" and f: "list_all (rate_ok False) [0..<16]"
    by code_simp+
  show "rate_ok g r" if "r < 16"
    using t [unfolded list_all_iff set_upt, rule_format, of r] f [unfolded list_all_iff set_upt, rule_format, of r] that
    by (cases g) simp_all
qed

lemma std_rate_legacy:
  assumes "legacy_rate five v = Some q"
  shows "q = of_nat (std_rate (get leg_rate v))"
proof -
  have r: "get leg_rate v < 16"
    using get_less [of leg_rate v] by (simp add: leg_rate_def)
  have t: "(x + 4) div 5 = std_rate (get leg_rate v)"
    if "bitrate True (if g then 1 else 0)
      (if g then word_of_int (legrates_idx (get leg_rate v)) - 4 else word_of_int (legrates_idx (get leg_rate v))) = Some x"
    for g x
    using rate_ok [OF r, of g, unfolded rate_ok_def that] by (simp only: option.case)
  obtain x where q: "q = of_nat ((x + 4) div 5)"
    and b: "bitrate five (get phy_band v) (if get phy_band v = NL80211_BAND_5GHZ
      then word_of_int (legrates_idx (get leg_rate v)) - 4 else word_of_int (legrates_idx (get leg_rate v))) = Some x"
    using assms by (auto simp: legacy_rate_def Let_def)
  from b have "bitrate True (if get phy_band v = NL80211_BAND_5GHZ then 1 else 0) (if get phy_band v = NL80211_BAND_5GHZ
      then word_of_int (legrates_idx (get leg_rate v)) - 4 else word_of_int (legrates_idx (get leg_rate v))) = Some x"
    by (simp add: bitrate_def NL80211_BAND_5GHZ_def split: if_splits)
  then show ?thesis using t q by simp
qed

lemma or_shifted:
  fixes x y :: nat
  assumes "x < 2 ^ n"
  shows "x OR push_bit n y = x + 2 ^ n * y"
proof -
  have t: "take_bit n x = x" using assms by (simp add: take_bit_nat_eq_self_iff)
  have "x AND push_bit n y = 0"
    by (subst t [symmetric]) (auto simp: bit_eq_iff bit_simps)
  then have "x OR push_bit n y = x + push_bit n y"
    by (simp add: disjunctive_add_eq_or)
  then show ?thesis by (simp add: push_bit_eq_mult mult.commute)
qed

lemma or_nested: "push_bit m x OR push_bit (m + n) y = push_bit m (x OR push_bit n y)" for x y :: nat
  by (simp add: push_bit_or add.commute)

lemma get_width: "snd f = n \<Longrightarrow> get f v < 2 ^ n"
  using get_less [of f v] by simp

lemma he_words_std:
  assumes "get format_mod v = 5"
  shows "he_words (\<lambda>_. 0) v = std_he v"
proof -
  have l: "get he_bss_color v < 2 ^ 6" "get he_beam_change v < 2 ^ 1" "get he_uplink_flag v < 2 ^ 1"
    "get he_mcs v < 2 ^ 4" "get he_dcm v < 2 ^ 1" "get he_fec v < 2 ^ 1" "get he_stbc v < 2 ^ 1"
    "get he_gi_type v < 2 ^ 2" "get he_beamformed v < 2 ^ 1" "get he_doppler v < 2 ^ 1" "get he_nss v < 2 ^ 3"
    by (rule get_width, simp add: he_bss_color_def he_beam_change_def he_uplink_flag_def he_mcs_def he_dcm_def
        he_fec_def he_stbc_def he_gi_type_def he_beamformed_def he_doppler_def he_nss_def)+
  have st: "(if flag he_stbc v then 1 else 0) = get he_stbc v"
    using l(7) by (simp add: flag_def)
  have fec: "get he_fec v < 2 ^ 2" and gi: "get he_gi_type v < 2 ^ 2" and ltf: "(get he_ltf_type v + 1) mod 4 < 2 ^ 8"
    using l(6,8) by simp_all
  note t = l [THEN take_bit_nat_eq_self_iff [THEN iffD2]]
  have "he_data3 v = get he_bss_color v OR push_bit 6 (get he_beam_change v OR push_bit 1 (get he_uplink_flag v OR
      push_bit 1 (get he_mcs v OR push_bit 4 (get he_dcm v OR push_bit 1 (get he_fec v OR push_bit 2 (get he_stbc v))))))"
    unfolding he_data3_def field_prep_def st t
    by (simp only: push_bit_or push_bit_push_bit push_bit_0_id id_apply semiring_norm add_numeral_special
        numeral_plus_numeral one_plus_numeral numeral_plus_one or.assoc or.left_commute or.commute)
  also have "\<dots> = get he_bss_color v + 64 * get he_beam_change v + 128 * get he_uplink_flag v + 256 * get he_mcs v +
      4096 * get he_dcm v + 8192 * get he_fec v + 32768 * get he_stbc v"
    by (simp only: or_shifted [OF l(1)] or_shifted [OF l(2)] or_shifted [OF l(3)] or_shifted [OF l(4)]
        or_shifted [OF l(5)] or_shifted [OF fec]) simp
  finally have 3: "he_data3 v = \<dots>" .
  let ?bw = "if get ch_bw v \<le> 3 then get ch_bw v else 0"
  have bw: "?bw < 2 ^ 4" "(if get ch_bw v \<le> PHY_CHNL_BW_160 then field_prep 0 4 (get ch_bw v) else 0) = ?bw"
    by (auto simp: phy_bws field_prep_def take_bit_nat_eq_self_iff)
  have "he_data5 v = ?bw OR push_bit 4 (get he_gi_type v OR push_bit 2 ((get he_ltf_type v + 1) mod 4 OR
      push_bit 8 (get he_beamformed v)))"
    unfolding he_data5_def bw(2) unfolding field_prep_def t
    by (simp only: push_bit_or push_bit_push_bit arith_simps push_bit_0_id id_apply take_bit_nat_def)
      (simp add: ac_simps)
  also have "\<dots> = ?bw + 16 * get he_gi_type v + 64 * ((get he_ltf_type v + 1) mod 4) + 16384 * get he_beamformed v"
    by (simp only: or_shifted [OF bw(1)] or_shifted [OF gi] or_shifted [OF ltf]) simp
  finally have 5: "he_data5 v = \<dots>" .
  have n: "(if get he_stbc v \<noteq> 0 then 2 else get he_nss v) < 2 ^ 4" using l(11) by simp
  have ns: "take_bit 4 (if get he_stbc v \<noteq> 0 then 2 else get he_nss v) = (if get he_stbc v \<noteq> 0 then 2 else get he_nss v)"
    using n take_bit_nat_eq_self_iff by blast
  have "he_data6 v = (if get he_stbc v \<noteq> 0 then 2 else get he_nss v) OR push_bit 4 (get he_doppler v)"
    unfolding he_data6_def field_prep_def flag_def ns t(10) by simp
  also have "\<dots> = (if get he_stbc v \<noteq> 0 then 2 else get he_nss v) + 16 * get he_doppler v"
    using n by (subst or_shifted) simp_all
  finally have 6: "he_data6 v = \<dots>" .
  show ?thesis unfolding he_words_def std_he_def 3 5 6 by simp
qed

lemma vht_std:
  assumes "get format_mod v = 4"
  shows "vht_bytes v @ replicate (4 - length (vht_bandwidth v)) 0 = map of_nat (std_vht v)"
proof -
  have l: "get vht_nss v + 1 < 2 ^ 4" "get vht_mcs v < 16"
    using get_width [of vht_nss 3 v] get_width [of vht_mcs 4 v] by (simp_all add: vht_nss_def vht_mcs_def)
  have u: "vht_mcs_nss v = of_nat (16 * get vht_mcs v + get vht_nss v + 1)"
    unfolding vht_mcs_nss_def using l by (subst or.commute, subst or_shifted) (simp_all add: ac_simps)
  have d: "le_bytes 2 (vht_details v) = [of_nat (if get ch_bw v = 3 \<and> get phy_center2_freq v \<noteq> 0 then 4 else 68), 0]"
    by (simp add: vht_details_def phy_bws numeral_2_eq_2)
  show ?thesis
    unfolding vht_bytes_def std_vht_def d u vht_bandwidth_def
    by (auto simp: phy_bws b8_def flag_def Let_def numeral_eq_Suc)
qed

lemma built_spec:
  assumes "hweight (get antenna_set v) = 1" and "legacy v \<Longrightarrow> legacy_rate five v = Some q"
    and "get format_mod v = 5 \<Longrightarrow> stack = (\<lambda>_. 0)"
  shows "rtap_built five stack v = rtap_spec v"
proof -
  have f: "[rtap_flags v] = [of_nat (std_flags v)]"
    by (auto simp: rtap_flags_def std_flags_def flag_def FORMATMOD_NON_HT_DUP_OFDM_def)
  have c: "channel_flags v = std_channel v"
    by (auto simp: channel_flags_def std_channel_def NL80211_BAND_5GHZ_def FORMATMOD_NON_HT_DUP_OFDM_def)
  have m: "mcs_flags v = of_nat (std_mcs v)"
    by (auto simp: mcs_flags_def std_mcs_def b8_def flag_def phy_bws formatmods)
  have r: "(if legacy v then [(RADIOTAP_RATE, [the (legacy_rate five v)])] else []) =
      (if get format_mod v \<le> 1 then [(2, [of_nat (std_rate (get leg_rate v))])] else [])"
    using assms(2) std_rate_legacy [of five v q] by (auto simp: legacy_def FORMATMOD_NON_HT_DUP_OFDM_def radiotap_bits)
  have h: "is_ht v \<longleftrightarrow> get format_mod v = 2 \<or> get format_mod v = 3"
    by (auto simp: is_ht_def formatmods)
  have a: "aggregation v \<longleftrightarrow> 4 \<le> get format_mod v \<or> 2 \<le> get format_mod v \<and> get ht_aggregation v \<noteq> 0"
    by (auto simp: aggregation_def formatmods flag_def)
  have v: "(if get format_mod v = FORMATMOD_VHT
      then [(RADIOTAP_VHT, vht_bytes v @ replicate (4 - length (vht_bandwidth v)) 0)] else []) =
      (if get format_mod v = 4 then [(21, map of_nat (std_vht v))] else [])"
    using vht_std [of v] by (simp add: formatmods radiotap_bits)
  have e: "(if get format_mod v = FORMATMOD_HE_SU
      then [(RADIOTAP_HE, concat (map (le_bytes 2) (he_words stack v)))] else []) =
      (if get format_mod v = 5 then [(23, concat (map (le_bytes 2) (std_he v)))] else [])"
    using he_words_std [of v] assms(3) by (simp add: formatmods radiotap_bits)
  show ?thesis
    unfolding rtap_built_def rtap_spec_def format_spec_def f c m r h a v e tsf_def
    by (simp add: radiotap_bits)
qed

lemma legacy_rate_none:
  "legacy_rate five v = None \<longleftrightarrow>
     \<not> (get phy_band v = 0 \<or> get phy_band v = NL80211_BAND_5GHZ \<and> five) \<or>
     get leg_rate v \<in> {4..7} \<or> get phy_band v = NL80211_BAND_5GHZ \<and> get leg_rate v < 4"
proof -
  have "list_all (\<lambda>r. list_all (\<lambda>g.
      (bitrate True (if g then 1 else 0) (if g then word_of_int (legrates_idx r) - 4 else word_of_int (legrates_idx r)) = None
        \<longleftrightarrow> 4 \<le> r \<and> r \<le> 7 \<or> g \<and> r < 4)) [True, False]) [0..<16]"
    by code_simp
  moreover have "get leg_rate v < 16"
    using get_less [of leg_rate v] by (simp add: leg_rate_def)
  moreover have "bitrate five (get phy_band v) i = bitrate True (if get phy_band v = NL80211_BAND_5GHZ then 1 else 0) i"
    if "get phy_band v = 0 \<or> get phy_band v = NL80211_BAND_5GHZ \<and> five" for i
    using that by (auto simp: bitrate_def NL80211_BAND_5GHZ_def)
  moreover have "bitrate five (get phy_band v) i = None"
    if "\<not> (get phy_band v = 0 \<or> get phy_band v = NL80211_BAND_5GHZ \<and> five)" for i
    unfolding bitrate_def using that by (rule if_not_P)
  ultimately show ?thesis
    by (cases "get phy_band v = 0 \<or> get phy_band v = NL80211_BAND_5GHZ \<and> five")
      (auto simp: legacy_rate_def Let_def list_all_iff)
qed


subsection \<open>Properties\<close>

lemma unat_hdrlen: "unat (rwnx_rx_rtap_hdrlen v) = rtap_hdrlen v"
  using rtap_hdrlen_less [of v] by (simp add: rwnx_rx_rtap_hdrlen_def unat_of_nat)


text \<open>A frame at 6 Mbit/s from one antenna.\<close>

definition demo_vect :: mem where
  "demo_vect = (\<lambda>i. if i = 13 then 1 else if i = 16 then 0xB0 else if i = 17 then 0xC4 else 0)"

lemma demo_vect_fields:
  "get format_mod demo_vect = 0" "get leg_rate demo_vect = 11" "hweight (get antenna_set demo_vect) = 1"
  "get phy_band demo_vect = 0"
  by code_simp+




end
