(* ===== verification/RxData.thy ===== *)
theory RxData
  imports RxReorder Radiotap
begin

unbundle bit_operations_syntax

section \<open>Receiving a frame\<close>

text \<open>
  \<open>rwnx_rxdataind_aicwf\<close> of \<open>rwnx_rx.c\<close>, the handler of every frame that the firmware uploads: monitor
  frames, the conversion of an 802.11 header to an Ethernet header, reassembly of fragments, management
  frames, and the dispatch to the reorder lists, to the network stack or back to the air.

  The result is an error or the return value and the new state.  The errors are what the C code does not
  survive: \<open>Skb_over_panic\<close> (\<open>skb_put\<close> past the end of a buffer), \<open>Short_frame\<close> (a \<open>skb_pull\<close>
  that fails, after which the code works on the bytes in front of the frame), \<open>Null_deref\<close>,
  \<open>Bad_index\<close> (an index outside \<open>sta_table\<close> or a rate table) and \<open>Stuck\<close> (the splitting of an
  A-MSDU overruns or never ends, or a traffic class above 7).
\<close>

datatype rx_error = Skb_over_panic | Short_frame | Null_deref | Bad_index | Stuck

type_synonym 'a rx_result = "rx_error + 'a"

definition bind_rx :: "'a rx_result \<Rightarrow> ('a \<Rightarrow> 'b rx_result) \<Rightarrow> 'b rx_result" where
  "bind_rx r k = (case r of Inl e \<Rightarrow> Inl e | Inr x \<Rightarrow> k x)"

lemma bind_rx_simps [simp]: "bind_rx (Inl e) k = Inl e" "bind_rx (Inr x) k = k x"
  by (simp_all add: bind_rx_def)

lemma bind_rx_Inr: "bind_rx r k = Inr y \<longleftrightarrow> (\<exists>x. r = Inr x \<and> k x = Inr y)"
  by (cases r) simp_all

definition need :: "rx_error \<Rightarrow> 'a option \<Rightarrow> 'a rx_result" where
  "need e r = (case r of None \<Rightarrow> Inl e | Some x \<Rightarrow> Inr x)"

lemma need_simps [simp]: "need e None = Inl e" "need e (Some x) = Inr x"
  by (simp_all add: need_def)

subsection \<open>State\<close>

record rwnx_vif =
  vif_index :: nat
  up :: bool
  vif_type :: iftype
  ap_isolate :: bool
  sta_list :: "bytes list"

record rwnx_sta =
  sta_valid :: bool
  vlan_idx :: nat
  sta_rates :: "int list"
  sta_rate_cpt :: int
  sta_rate_cnt :: int

record defrag_ctrl_info =
  df_sta_idx :: nat
  df_tid :: u8
  df_sn :: u16
  df_next_fn :: u8
  df_frm_len :: nat
  df_skb :: sk_buff

text \<open>What \<open>rwnx_rx_mgmt\<close> reports to cfg80211.\<close>

datatype mgmt_event = New_peer_candidate | Obss_beacon | Unprot_mlme | Ft_event | Rx_mgmt

text \<open>
  \<open>mgmt_rx\<close> are the management frames reported and the interface, \<open>monitored\<close> the frames given to
  the network stack behind a radiotap header, \<open>resent\<close> the copies queued for transmission.  Copying a
  buffer succeeds.  \<open>freed_desc\<close> is what the memory of a freed buffer holds at the place of its receive
  descriptor, for the handler that still reads it there; the model leaves it open.
\<close>

record rx_hw =
  version_phy_2 :: u32
  band_5g_support :: bool
  vif_table :: "rwnx_vif option list"
  vifs :: "rwnx_vif list"
  sta_table :: "rwnx_sta list"
  monitor_vif :: nat
  defrag_list :: "defrag_ctrl_info list"
  rx_counters :: rwnx_rx_stats
  mgmt_rx :: "(nat \<times> mgmt_event \<times> sk_buff) list"
  monitored :: "(nat \<times> rtap \<times> nat) list"
  resent :: "(nat \<times> sk_buff) list"
  freed_desc :: "nat list \<Rightarrow> mem"
  priv :: aicwf_rx_priv

definition NX_VIRT_DEV_MAX :: nat where "NX_VIRT_DEV_MAX = 4"
definition RWNX_INVALID_STA :: nat where "RWNX_INVALID_STA = 0xFF"
definition RWNX_INVALID_VIF :: nat where "RWNX_INVALID_VIF = 0xFF"

definition rwnx_rx_get_vif :: "rx_hw \<Rightarrow> nat \<Rightarrow> rwnx_vif option" where
  "rwnx_rx_get_vif hw i =
     (if i < NX_VIRT_DEV_MAX then
        (case vif_table hw ! i of None \<Rightarrow> None | Some vif \<Rightarrow> if up vif then Some vif else None)
      else None)"

definition get_sta :: "rx_hw \<Rightarrow> nat \<Rightarrow> rwnx_sta rx_result" where
  "get_sta hw i = (if i < length (sta_table hw) then Inr (sta_table hw ! i) else Inl Bad_index)"

definition kfree :: "sk_buff \<Rightarrow> rx_hw \<Rightarrow> rx_hw" where
  "kfree skb hw = hw\<lparr>priv := dev_kfree_skb skb (priv hw)\<rparr>"

subsection \<open>The 802.11 header\<close>

definition RWNX_RX_HD_DECR_WEP :: nat where "RWNX_RX_HD_DECR_WEP = 1"
definition RWNX_RX_HD_DECR_TKIP :: nat where "RWNX_RX_HD_DECR_TKIP = 2"
definition RWNX_RX_HD_DECR_CCMP128 :: nat where "RWNX_RX_HD_DECR_CCMP128 = 3"
definition RWNX_RX_HD_DECR_WAPI :: nat where "RWNX_RX_HD_DECR_WAPI = 7"

lemmas decr_defs = RWNX_RX_HD_DECR_WEP_def RWNX_RX_HD_DECR_TKIP_def RWNX_RX_HD_DECR_CCMP128_def
  RWNX_RX_HD_DECR_WAPI_def

definition is_data_frame :: "mem \<Rightarrow> bool" where
  "is_data_frame d \<longleftrightarrow> d 0 AND 0x0F = 0x08"

definition is_qos :: "mem \<Rightarrow> bool" where
  "is_qos d \<longleftrightarrow> is_data_frame d \<and> d 0 AND 0x80 = 0x80"

definition rx_tid :: "mem \<Rightarrow> u8" where
  "rx_tid d = (if is_qos d then d 24 AND 0x0F else 0)"

definition rx_amsdu :: "mem \<Rightarrow> bool" where
  "rx_amsdu d \<longleftrightarrow> is_qos d \<and> d 24 AND 0x80 \<noteq> 0"

definition hdr_len :: "mem \<Rightarrow> nat" where
  "hdr_len d = (if is_qos d then 26 else 24) + (if d 1 AND 0x80 \<noteq> 0 then 4 else 0)"

definition sec_len :: "nat \<Rightarrow> nat" where
  "sec_len decr =
     (if decr = RWNX_RX_HD_DECR_CCMP128 \<or> decr = RWNX_RX_HD_DECR_TKIP then 8
      else if decr = RWNX_RX_HD_DECR_WEP then 4
      else if decr = RWNX_RX_HD_DECR_WAPI then 18 else 0)"

definition pull_len :: "nat \<Rightarrow> mem \<Rightarrow> nat" where
  "pull_len decr d = hdr_len d + 8 + sec_len decr"

definition bytes_at :: "mem \<Rightarrow> nat \<Rightarrow> nat \<Rightarrow> bytes" where
  "bytes_at d p n = map d [p..<p + n]"

definition rx_ra :: "mem \<Rightarrow> bytes" where
  "rx_ra d = (if d 1 AND 0x3 = 0x1 then bytes_at d 16 6
              else if d 1 AND 0x3 = 0x2 then bytes_at d 4 6 else replicate 6 0)"

definition rx_ta :: "mem \<Rightarrow> bytes" where
  "rx_ta d = (if d 1 AND 0x3 = 0x1 then bytes_at d 10 6
              else if d 1 AND 0x3 = 0x2 then bytes_at d 16 6 else replicate 6 0)"

definition ether_type :: "nat \<Rightarrow> mem \<Rightarrow> bytes" where
  "ether_type decr d = bytes_at d (hdr_len d + 6 + sec_len decr) 2"

definition rx_seq_num :: "mem \<Rightarrow> u16" where
  "rx_seq_num d = drop_bit 4 (ucast (d 22) AND 0xF0) OR push_bit 4 (ucast (d 23))"

definition rx_frag_num :: "mem \<Rightarrow> u8" where
  "rx_frag_num d = d 22 AND 0x0F"

definition more_frag :: "mem \<Rightarrow> bool" where
  "more_frag d \<longleftrightarrow> (256 * ucast (d 1) + ucast (d 0) :: u16) AND 0x0400 \<noteq> 0"

text \<open>
  \<open>skb_pull (skb, pull_len); skb_push (skb, 14)\<close> and the three copies: the Ethernet header takes the
  place of the last 14 bytes of what was pulled.
\<close>

definition to_ether :: "nat \<Rightarrow> bytes \<Rightarrow> bytes \<Rightarrow> bytes \<Rightarrow> sk_buff \<Rightarrow> sk_buff rx_result" where
  "to_ether plen ra ta etype skb =
     (if sk_len skb < plen then Inl Short_frame
      else
        Inr (skb\<lparr>sk_data := (\<lambda>i. if i < 14 then (ra @ ta @ etype) ! i else sk_data skb (plen - 14 + i)),
                 sk_len := sk_len skb - plen + 14\<rparr>))"

definition pull :: "nat \<Rightarrow> sk_buff \<Rightarrow> sk_buff rx_result" where
  "pull n skb = (if sk_len skb < n then Inl Short_frame else Inr (skb_pull n skb))"


subsection \<open>Delivering data\<close>

definition is_multicast :: "sk_buff \<Rightarrow> bool" where
  "is_multicast skb \<longleftrightarrow> sk_data skb 0 AND 1 \<noteq> 0"

text \<open>The tail of the delivery loops; only a station interface shows the frame to \<open>arpoffload_proc\<close>.\<close>

definition deliver_as :: "iftype \<Rightarrow> sk_buff \<Rightarrow> rx_hw \<Rightarrow> rx_hw" where
  "deliver_as t skb hw =
     (let rx = priv hw in
      hw\<lparr>priv := (netif_deliver skb (rx\<lparr>wdev_iftype := t\<rparr>))\<lparr>wdev_iftype := wdev_iftype rx\<rparr>\<rparr>)"

definition rwnx_rx_data_skb_forward :: "sk_buff \<Rightarrow> rx_hw \<Rightarrow> rx_hw" where
  "rwnx_rx_data_skb_forward skb hw = deliver_as IF_OTHER skb hw"

definition rwnx_rx_data_skb_resend :: "rwnx_vif \<Rightarrow> sk_buff \<Rightarrow> rx_hw \<Rightarrow> rx_hw" where
  "rwnx_rx_data_skb_resend vif skb hw = hw\<lparr>resent := resent hw @ [(vif_index vif, skb)]\<rparr>"

definition split_amsdu :: "nat \<Rightarrow> sk_buff \<Rightarrow> rx_hw \<Rightarrow> (sk_buff list \<times> rx_hw) rx_result" where
  "split_amsdu vif_idx skb hw =
     (case rwnx_rxdata_process_amsdu (rwnx_rx_get_vif hw vif_idx \<noteq> None) skb of
        Some (Inr subs) \<Rightarrow> Inr (subs, kfree skb hw)
      | _ \<Rightarrow> Inl Stuck)"

text \<open>Whether the frames of the list are sent again and whether they are delivered (\<open>rwnx_rx_data_skb\<close>).\<close>

definition data_skb_dest :: "rx_hw \<Rightarrow> rwnx_vif \<Rightarrow> sk_buff list \<Rightarrow> nat \<Rightarrow> (bool \<times> bool) rx_result" where
  "data_skb_dest hw vif list dst_idx =
     (if vif_type vif \<in> {IF_AP, IF_AP_VLAN, IF_P2P_GO} \<and> \<not> ap_isolate vif then
        (case list of
           [] \<Rightarrow> Inl Null_deref
         | skb # _ \<Rightarrow>
             if is_multicast skb then Inr (True, True)
             else if dst_idx \<noteq> RWNX_INVALID_STA then
               bind_rx (get_sta hw dst_idx) (\<lambda>sta.
                 if sta_valid sta \<and> vlan_idx sta = vif_index vif then Inr (True, False) else Inr (False, True))
             else Inr (False, True))
      else if vif_type vif = IF_MESH_POINT then
        (case list of
           [] \<Rightarrow> Inl Null_deref
         | skb # _ \<Rightarrow>
             if \<not> is_multicast skb \<and> dst_idx \<noteq> RWNX_INVALID_STA then Inr (True, False) else Inr (False, True))
      else Inr (False, True))"

definition data_skb_one :: "rwnx_vif \<Rightarrow> bool \<Rightarrow> bool \<Rightarrow> sk_buff \<Rightarrow> rx_hw \<Rightarrow> rx_hw" where
  "data_skb_one vif resend fwd skb hw =
     (let hw1 = (if resend then rwnx_rx_data_skb_resend vif skb hw else hw)
      in if fwd then deliver_as (vif_type vif) skb hw1 else hw1)"

definition rwnx_rx_data_skb ::
  "rx_hw \<Rightarrow> rwnx_vif \<Rightarrow> sk_buff \<Rightarrow> bool \<Rightarrow> nat \<Rightarrow> nat \<Rightarrow> (bool \<times> rx_hw) rx_result" where
  "rwnx_rx_data_skb hw vif skb amsdu vif_idx dst_idx =
     bind_rx (if amsdu then split_amsdu vif_idx skb hw else Inr ([skb], hw)) (\<lambda>(list, hw1).
       bind_rx (data_skb_dest hw1 vif list dst_idx) (\<lambda>(resend, fwd).
         Inr (fwd, fold (data_skb_one vif resend fwd) list hw1)))"

subsection \<open>Management frames\<close>

definition remove_sec_hdr_mgmt_frame :: "mem \<Rightarrow> sk_buff \<Rightarrow> sk_buff" where
  "remove_sec_hdr_mgmt_frame v skb =
     (let d = sk_data skb in
      if \<not> flag ga_frame v \<and> d 0 AND 0x0C = 0 \<and> d 1 AND 0x40 = 0x40 \<and> get decr_status v = RWNX_RX_HD_DECR_CCMP128
      then (let p = skb_pull 8 skb in p\<lparr>sk_data := (\<lambda>i. if i < 24 then d i else sk_data p i)\<rparr>)
      else skb)"

definition rwnx_rx_mgmt :: "mem \<Rightarrow> rwnx_vif \<Rightarrow> sk_buff \<Rightarrow> mgmt_event" where
  "rwnx_rx_mgmt v vif skb =
     (let d = sk_data skb; fc = d 0 AND 0xFC in
      if fc = 0x80 then
        (if vif_type vif = IF_MESH_POINT \<and> flag flags_new_peer v then New_peer_candidate else Obss_beacon)
      else if (fc = 0xC0 \<or> fc = 0xA0) \<and> (le16 d 24 = 6 \<or> le16 d 24 = 7) then Unprot_mlme
      else if vif_type vif = IF_STATION \<and> fc = 0xD0 \<and> d 24 = 6 then Ft_event
      else Rx_mgmt)"

definition report_mgmt :: "mem \<Rightarrow> sk_buff \<Rightarrow> rwnx_vif \<Rightarrow> rx_hw \<Rightarrow> rx_hw" where
  "report_mgmt v skb vif hw = hw\<lparr>mgmt_rx := mgmt_rx hw @ [(vif_index vif, rwnx_rx_mgmt v vif skb, skb)]\<rparr>"

definition rwnx_rx_mgmt_any :: "mem \<Rightarrow> sk_buff \<Rightarrow> rx_hw \<Rightarrow> rx_hw" where
  "rwnx_rx_mgmt_any v skb hw =
     kfree skb
       (if get flags_vif_idx v = RWNX_INVALID_VIF then fold (report_mgmt v skb) (filter up (vifs hw)) hw
        else (case rwnx_rx_get_vif hw (get flags_vif_idx v) of
                None \<Rightarrow> hw | Some vif \<Rightarrow> report_mgmt v skb vif hw))"

subsection \<open>Fragments\<close>

definition frag_match :: "u16 \<Rightarrow> u8 \<Rightarrow> nat \<Rightarrow> defrag_ctrl_info \<Rightarrow> bool" where
  "frag_match sn t sta e \<longleftrightarrow> df_sn e = sn \<and> df_tid e = t \<and> df_sta_idx e = sta"

definition DEFRAG_SKB_SIZE :: nat where "DEFRAG_SKB_SIZE = 2000"

text \<open>
  The body of a fragment starts at \<open>plen - 8\<close> (its LLC/SNAP header is kept).  The C code subtracts
  unsigned numbers, so that a shorter frame makes \<open>skb_put\<close> panic.
\<close>

definition append_frag :: "nat \<Rightarrow> sk_buff \<Rightarrow> defrag_ctrl_info \<Rightarrow> defrag_ctrl_info rx_result" where
  "append_frag plen skb e =
     (let b = df_skb e; n = sk_len skb - (plen - 8) in
      if sk_len skb < plen - 8 \<or> DEFRAG_SKB_SIZE < sk_len b + n then Inl Skb_over_panic
      else
        Inr (e\<lparr>df_skb := b\<lparr>sk_data := (\<lambda>i. if df_frm_len e \<le> i \<and> i < df_frm_len e + n
                                       then sk_data skb (plen - 8 + (i - df_frm_len e)) else sk_data b i),
                           sk_len := sk_len b + n\<rparr>,
                df_frm_len := df_frm_len e + n\<rparr>))"

text \<open>The buffer of a new entry; its contents before the copy are not initialised (here zero).\<close>

definition new_frag :: "sk_buff \<Rightarrow> u16 \<Rightarrow> u8 \<Rightarrow> nat \<Rightarrow> defrag_ctrl_info rx_result" where
  "new_frag skb sn t sta =
     (if DEFRAG_SKB_SIZE < sk_len skb then Inl Skb_over_panic
      else
        Inr \<lparr>df_sta_idx = sta, df_tid = t, df_sn = sn, df_next_fn = 1, df_frm_len = sk_len skb,
             df_skb = \<lparr>sk_id = sk_id skb @ [0], sk_data = (\<lambda>i. if i < sk_len skb then sk_data skb i else 0),
                       sk_len = sk_len skb\<rparr>\<rparr>)"

text \<open>\<open>True\<close>: the frame was consumed; \<open>False\<close>: it is treated like a whole frame.\<close>

definition middle_frag ::
  "bool \<times> bool \<Rightarrow> mem \<Rightarrow> nat \<Rightarrow> nat \<Rightarrow> sk_buff \<Rightarrow> rx_hw \<Rightarrow> rx_hw rx_result" where
  "middle_frag alloc d decr sta skb hw =
     (let plen = pull_len decr d; m = frag_match (rx_seq_num d) (rx_tid d) sta in
      case first_index m (defrag_list hw) of
        Some i \<Rightarrow>
          (let e = defrag_list hw ! i in
           if df_next_fn e \<noteq> rx_frag_num d then Inr (kfree skb hw)
           else
             bind_rx (append_frag plen skb e) (\<lambda>e1.
               Inr (kfree skb (hw\<lparr>defrag_list := (defrag_list hw)[i := e1\<lparr>df_next_fn := df_next_fn e1 + 1\<rparr>]\<rparr>))))
      | None \<Rightarrow>
          if \<not> fst alloc \<or> \<not> snd alloc then Inr (kfree skb hw)
          else
            bind_rx (to_ether plen (rx_ra d) (rx_ta d) (ether_type decr d) skb) (\<lambda>eth.
              bind_rx (new_frag eth (rx_seq_num d) (rx_tid d) sta) (\<lambda>e.
                Inr (kfree skb (hw\<lparr>defrag_list := defrag_list hw @ [e]\<rparr>)))))"

text \<open>
  The last fragment.  Its buffer is freed, and \<open>rwnx_rx_data_skb\<close> then reads the descriptor in the freed
  memory: the flags and indices of that call are those of \<open>freed_desc\<close>.
\<close>

definition last_frag ::
  "mem \<Rightarrow> mem \<Rightarrow> nat \<Rightarrow> sk_buff \<Rightarrow> rx_hw \<Rightarrow> (bool \<times> rx_hw) rx_result" where
  "last_frag v d sta skb hw =
     (let decr = get decr_status v; w = freed_desc hw (sk_id skb) in
      case first_index (frag_match (rx_seq_num d) (rx_tid d) sta) (defrag_list hw) of
        None \<Rightarrow> Inr (False, hw)
      | Some i \<Rightarrow>
          (let e = defrag_list hw ! i in
           if df_next_fn e \<noteq> rx_frag_num d then Inr (True, kfree skb hw)
           else
             bind_rx (append_frag (pull_len decr d) skb e) (\<lambda>e1.
               case rwnx_rx_get_vif hw (get flags_vif_idx v) of
                 None \<Rightarrow> Inr (True, kfree skb (hw\<lparr>defrag_list := (defrag_list hw)[i := e1]\<rparr>))
               | Some vif \<Rightarrow>
                   bind_rx
                     (rwnx_rx_data_skb
                        (kfree skb (hw\<lparr>defrag_list := take i (defrag_list hw) @ List.drop (Suc i) (defrag_list hw)\<rparr>))
                        vif (df_skb e1) (flag flags_is_amsdu w) (get flags_vif_idx w) (get flags_dst_idx w))
                     (\<lambda>(fwd, hw1). Inr (True, if fwd then hw1 else kfree (df_skb e1) hw1)))))"

definition defrag_timeout_cb :: "nat \<Rightarrow> rx_hw \<Rightarrow> rx_hw" where
  "defrag_timeout_cb i hw =
     kfree (df_skb (defrag_list hw ! i))
       (hw\<lparr>defrag_list := take i (defrag_list hw) @ List.drop (Suc i) (defrag_list hw)\<rparr>)"


subsection \<open>Stations and access points\<close>

definition set_vif :: "rwnx_vif \<Rightarrow> rx_hw \<Rightarrow> rx_hw" where
  "set_vif vif hw =
     hw\<lparr>priv := (priv hw)\<lparr>wdev_iftype := vif_type vif,
                          vif_active := (rwnx_rx_get_vif hw (vif_index vif) \<noteq> None)\<rparr>\<rparr>"

definition deliver_unless :: "sk_buff \<Rightarrow> bool \<Rightarrow> (bool \<times> rx_hw) \<Rightarrow> rx_hw" where
  "deliver_unless skb amsdu r = (if \<not> fst r \<and> \<not> amsdu then kfree skb (snd r) else snd r)"

definition sta_data ::
  "mem \<Rightarrow> bool \<Rightarrow> u8 \<Rightarrow> u16 \<Rightarrow> bool \<Rightarrow> sk_buff \<Rightarrow> rwnx_vif \<Rightarrow> rx_hw \<Rightarrow> (u8 \<times> rx_hw) rx_result" where
  "sta_data v qos t sn amsdu skb vif hw =
     (let up_data = (\<lambda>hw. map_sum id (\<lambda>r. (0, deliver_unless skb amsdu r))
            (rwnx_rx_data_skb hw vif skb amsdu (get flags_vif_idx v) (get flags_dst_idx v)))
      in if qos \<and> flag flags_need_reord v then
           (case reord_rxframe_alloc (priv hw) of
              (None, rx) \<Rightarrow> Inr (0xFF, kfree skb (hw\<lparr>priv := rx\<rparr>))
            | (Some f, rx) \<Rightarrow>
                map_sum id (\<lambda>(_, rx1). (0, hw\<lparr>priv := rx1\<rparr>))
                  (need Stuck (reord_process_unit (f\<lparr>is_ap_reord := False, ap_fwd_cnt := 0, ap_resend_cnt := 0\<rparr>)
                     rx skb sn t True amsdu)))
         else if qos then
           bind_rx (need Stuck (reord_flush_tid (priv hw) skb t)) (\<lambda>(_, rx). up_data (hw\<lparr>priv := rx\<rparr>))
         else up_data hw)"

text \<open>Where a frame goes that an access point received: sent again, delivered, or both.\<close>

definition ap_dest :: "rx_hw \<Rightarrow> rwnx_vif \<Rightarrow> nat \<Rightarrow> bool \<Rightarrow> sk_buff \<Rightarrow> (bool \<times> bool) rx_result" where
  "ap_dest hw vif dst_idx amsdu skb =
     (if is_multicast skb then Inr (True, True)
      else if dst_idx \<noteq> RWNX_INVALID_STA \<and> \<not> amsdu then
        bind_rx (get_sta hw dst_idx) (\<lambda>sta.
          if sta_valid sta \<and> vlan_idx sta = vif_index vif then Inr (True, False) else Inr (False, True))
      else if h_dest skb \<in> set (sta_list vif) then Inr (True, False)
      else Inr (False, True))"

text \<open>A frame is chained to the control block, which the first frame takes from the pool.\<close>

definition chain_fwd :: "sk_buff \<Rightarrow> recv_msdu \<Rightarrow> recv_msdu" where
  "chain_fwd skb f = f\<lparr>ap_fwd := ap_fwd f @ [skb], ap_fwd_cnt := ap_fwd_cnt f + 1\<rparr>"

definition chain_resend :: "sk_buff \<Rightarrow> recv_msdu \<Rightarrow> recv_msdu" where
  "chain_resend skb f = f\<lparr>ap_resend := ap_resend f @ [skb], ap_resend_cnt := ap_resend_cnt f + 1\<rparr>"

definition ap_chain ::
  "(recv_msdu \<Rightarrow> recv_msdu) \<Rightarrow> recv_msdu option \<Rightarrow> aicwf_rx_priv \<Rightarrow> recv_msdu option \<times> aicwf_rx_priv" where
  "ap_chain chain pframe rx =
     (case pframe of
        Some f \<Rightarrow> (Some (chain f), rx)
      | None \<Rightarrow>
          (case reord_rxframe_alloc rx of
             (None, rx1) \<Rightarrow> (None, rx1)
           | (Some f, rx1) \<Rightarrow>
               (Some (chain (f\<lparr>ap_fwd := [], ap_fwd_cnt := 0, ap_resend := [], ap_resend_cnt := 0\<rparr>)), rx1)))"

text \<open>
  One turn of the loop.  The first component is the control block, or \<open>Inl ()\<close> when the pool is empty:
  the handler then returns and loses the rest of the list.
\<close>

definition ap_one ::
  "bool \<Rightarrow> bool \<Rightarrow> nat \<Rightarrow> bool \<Rightarrow> u8 \<Rightarrow> rwnx_vif \<Rightarrow> sk_buff \<Rightarrow> recv_msdu option \<Rightarrow> rx_hw
     \<Rightarrow> ((unit + recv_msdu option) \<times> rx_hw) rx_result" where
  "ap_one qos reord dst_idx amsdu t vif skb pframe hw0 =
     bind_rx (ap_dest hw0 vif dst_idx amsdu skb) (\<lambda>(resend, fwd).
       let hw = (if resend then rwnx_rx_data_skb_resend vif skb hw0 else hw0);
           chained = (\<lambda>chain. case ap_chain chain pframe (priv hw) of
                        (None, rx) \<Rightarrow> Inr (Inl (), kfree skb (hw\<lparr>priv := rx\<rparr>))
                      | (Some f, rx) \<Rightarrow> Inr (Inr (Some f), hw\<lparr>priv := rx\<rparr>))
       in if fwd then
            (if qos \<and> reord then chained (chain_fwd skb)
             else if qos then
               bind_rx (need Stuck (reord_flush_tid (priv hw) skb t)) (\<lambda>(_, rx).
                 Inr (Inr pframe, rwnx_rx_data_skb_forward skb (hw\<lparr>priv := rx\<rparr>)))
             else Inr (Inr pframe, rwnx_rx_data_skb_forward skb hw))
          else if resend then
            (if qos \<and> reord then chained (chain_resend skb)
             else if qos then
               bind_rx (need Stuck (reord_flush_tid (priv hw) skb t)) (\<lambda>(r, rx).
                 Inr (Inr pframe, if r = 0 then kfree skb (hw\<lparr>priv := rx\<rparr>) else hw\<lparr>priv := rx\<rparr>))
             else Inr (Inr pframe, kfree skb hw))
          else Inr (Inr pframe, kfree skb hw))"

fun ap_loop ::
  "bool \<Rightarrow> bool \<Rightarrow> nat \<Rightarrow> bool \<Rightarrow> u8 \<Rightarrow> rwnx_vif \<Rightarrow> sk_buff list \<Rightarrow> recv_msdu option \<Rightarrow> rx_hw
     \<Rightarrow> ((unit + recv_msdu option) \<times> rx_hw) rx_result" where
  "ap_loop qos reord dst_idx amsdu t vif [] pframe hw = Inr (Inr pframe, hw)"
| "ap_loop qos reord dst_idx amsdu t vif (skb # skbs) pframe hw =
     bind_rx (ap_one qos reord dst_idx amsdu t vif skb pframe hw) (\<lambda>r.
       case r of
         (Inl u, hw1) \<Rightarrow> Inr (Inl u, hw1)
       | (Inr pframe1, hw1) \<Rightarrow> ap_loop qos reord dst_idx amsdu t vif skbs pframe1 hw1)"

definition ap_data ::
  "mem \<Rightarrow> bool \<Rightarrow> u8 \<Rightarrow> u16 \<Rightarrow> bool \<Rightarrow> sk_buff \<Rightarrow> rwnx_vif \<Rightarrow> rx_hw \<Rightarrow> (u8 \<times> rx_hw) rx_result" where
  "ap_data v qos t sn amsdu skb vif hw =
     bind_rx (if amsdu then split_amsdu (get flags_vif_idx v) skb hw else Inr ([skb], hw)) (\<lambda>(list, hw1).
       bind_rx (ap_loop qos (flag flags_need_reord v) (get flags_dst_idx v) amsdu t vif list None hw1) (\<lambda>r.
         case r of
           (Inl _, hw2) \<Rightarrow> Inr (0xFF, hw2)
         | (Inr None, hw2) \<Rightarrow> Inr (0, hw2)
         | (Inr (Some f), hw2) \<Rightarrow>
             map_sum id (\<lambda>(_, rx). (0, hw2\<lparr>priv := rx\<rparr>))
               (need Stuck (reord_process_unit (f\<lparr>is_ap_reord := True\<rparr>) (priv hw2) (last list) sn t False False))))"


subsection \<open>The handler\<close>

text \<open>Statistics of the station that sent the frame: the counters of \<open>RxHdr\<close>, with its own rate table.\<close>

definition sta_statistic :: "mem \<Rightarrow> nat \<Rightarrow> rwnx_sta \<Rightarrow> rx_hw \<Rightarrow> rx_hw rx_result" where
  "sta_statistic v i sta hw =
     bind_rx (need Bad_index (rwnx_rx_statistic v ((rx_counters hw)\<lparr>rate_table := sta_rates sta,
                rate_cpt := sta_rate_cpt sta, rate_cnt := sta_rate_cnt sta\<rparr>))) (\<lambda>st.
       Inr (hw\<lparr>rx_counters := st,
               sta_table := (sta_table hw)[i := sta\<lparr>sta_rates := rate_table st,
                 sta_rate_cpt := rate_cpt st, sta_rate_cnt := rate_cnt st\<rparr>]\<rparr>))"

text \<open>The interface of the frame: that of the descriptor, or the VLAN of its sender (\<open>None\<close>: dropped).\<close>

definition sender_vif :: "mem \<Rightarrow> rwnx_vif \<Rightarrow> rx_hw \<Rightarrow> (rwnx_vif option \<times> rx_hw) rx_result" where
  "sender_vif v vif hw =
     (let i = get flags_sta_idx v in
      if i = RWNX_INVALID_STA then Inr (Some vif, hw)
      else
        bind_rx (get_sta hw i) (\<lambda>sta.
          bind_rx (sta_statistic v i sta hw) (\<lambda>hw1.
            if vlan_idx sta = vif_index vif then Inr (Some vif, hw1)
            else if vlan_idx sta < length (vif_table hw1) then Inr (vif_table hw1 ! vlan_idx sta, hw1)
            else Inl Bad_index)))"

definition vif_data ::
  "mem \<Rightarrow> mem \<Rightarrow> bool \<Rightarrow> sk_buff \<Rightarrow> rwnx_vif \<Rightarrow> rx_hw \<Rightarrow> (u8 \<times> rx_hw) rx_result" where
  "vif_data v d amsdu skb vif hw =
     (if vif_type vif = IF_STATION \<or> vif_type vif = IF_P2P_CLIENT
      then sta_data v (is_qos d) (rx_tid d) (rx_seq_num d) amsdu skb vif (set_vif vif hw)
      else if vif_type vif = IF_AP \<or> vif_type vif = IF_P2P_GO
      then ap_data v (is_qos d) (rx_tid d) (rx_seq_num d) amsdu skb vif (set_vif vif hw)
      else Inr (0, set_vif vif hw))"

definition rx_dispatch :: "mem \<Rightarrow> mem \<Rightarrow> bool \<Rightarrow> sk_buff \<Rightarrow> rx_hw \<Rightarrow> (u8 \<times> rx_hw) rx_result" where
  "rx_dispatch v d amsdu skb hw =
     (if flag flags_is_80211_mpdu v then Inr (0, rwnx_rx_mgmt_any v (remove_sec_hdr_mgmt_frame v skb) hw)
      else
        (case rwnx_rx_get_vif hw (get flags_vif_idx v) of
           None \<Rightarrow> Inr (0, kfree skb hw)
         | Some vif \<Rightarrow>
             bind_rx (sender_vif v vif hw) (\<lambda>(vif1, hw1).
               case vif1 of
                 None \<Rightarrow> Inr (0, kfree skb hw1)
               | Some vif2 \<Rightarrow> vif_data v d amsdu skb vif2 hw1)))"

definition frag_sta :: "mem \<Rightarrow> nat" where
  "frag_sta v = (if get flags_dst_idx v \<noteq> RWNX_INVALID_STA then get flags_dst_idx v else 0)"

definition rx_fragment ::
  "bool \<times> bool \<Rightarrow> mem \<Rightarrow> mem \<Rightarrow> sk_buff \<Rightarrow> rx_hw \<Rightarrow> (bool \<times> rx_hw) rx_result" where
  "rx_fragment alloc v d skb hw =
     (if \<not> flag flags_need_reord v \<and> (more_frag d \<or> rx_frag_num d \<noteq> 0) then
        (if more_frag d
         then map_sum id (Pair True) (middle_frag alloc d (get decr_status v) (frag_sta v) skb hw)
         else last_frag v d (frag_sta v) skb hw)
      else Inr (False, hw))"

definition MSDU_OFFSET :: nat where "MSDU_OFFSET = 60"

definition rx_upload :: "bool \<times> bool \<Rightarrow> mem \<Rightarrow> sk_buff \<Rightarrow> rx_hw \<Rightarrow> (u8 \<times> rx_hw) rx_result" where
  "rx_upload alloc v skb0 hw =
     bind_rx (pull MSDU_OFFSET skb0) (\<lambda>skb.
       let d = sk_data skb; decr = get decr_status v; plen = pull_len decr d; amsdu = rx_amsdu d
       in if is_data_frame d then
            bind_rx (if amsdu then pull (plen - 8) skb else Inr skb) (\<lambda>skb1.
              bind_rx (rx_fragment alloc v d skb1 hw) (\<lambda>(consumed, hw1).
                if consumed then Inr (0, hw1)
                else
                  bind_rx (if amsdu then Inr skb1
                           else to_ether plen (rx_ra d) (rx_ta d) (ether_type decr d) skb1) (\<lambda>skb2.
                    rx_dispatch v d amsdu skb2 hw1)))
          else rx_dispatch v d (flag flags_is_amsdu v) skb hw)"

text \<open>
  A frame for the monitor interface.  The headroom (the descriptor and at least the 64 bytes that the
  kernel reserves) is larger than any radiotap header, so that the buffer is never copied.  A frame that
  is also uploaded leaves \<open>skb_monitor\<close> at \<open>NULL\<close>, as \<open>CONFIG_RWNX_MON_DATA\<close> is off.
\<close>

definition rwnx_rx_monitor ::
  "(nat \<Rightarrow> nat) \<Rightarrow> mem \<Rightarrow> rwnx_vif \<Rightarrow> sk_buff \<Rightarrow> nat \<Rightarrow> rx_hw \<Rightarrow> (int \<times> rx_hw) rx_result" where
  "rwnx_rx_monitor stack v vif skb rtap_len hw =
     (if vif_type vif \<noteq> IF_MONITOR then Inr (-1, hw)
      else
        bind_rx (need Bad_index (rwnx_rx_add_rtap_hdr (band_5g_support hw) stack v rtap_len (sk_data skb))) (\<lambda>s.
          Inr (0, hw\<lparr>monitored := monitored hw @ [(vif_index vif, s, rtap_len + sk_len skb)],
                     priv := (priv hw)\<lparr>ack_m := filter_rx_tcp_ack (rt_mem s)
                                ((rtap_len + sk_len skb) mod 2 ^ 16) (ack_m (priv hw))\<rparr>\<rparr>)))"

definition rx_monitor_frame :: "(nat \<Rightarrow> nat) \<Rightarrow> mem \<Rightarrow> sk_buff \<Rightarrow> rx_hw \<Rightarrow> rx_hw rx_result" where
  "rx_monitor_frame stack v0 skb hw =
     (case rwnx_rx_get_vif hw (monitor_vif hw) of
        None \<Rightarrow> Inr hw
      | Some vif \<Rightarrow>
          if flag flags_upload v0 then Inl Null_deref
          else
            (let v = rwnx_rx_vector_convert (version_phy_2 hw) v0;
                 m = skb\<lparr>sk_data := (\<lambda>i. sk_data skb (MSDU_OFFSET + i)), sk_len := get hwvect_len v\<rparr>
             in bind_rx (rwnx_rx_monitor stack v vif m (unat (rwnx_rx_rtap_hdrlen v)) hw) (\<lambda>(r, hw1).
                  Inr (if r \<noteq> 0 then kfree m hw1 else hw1))))"

definition rwnx_rxdataind_aicwf ::
  "(nat \<Rightarrow> nat) \<Rightarrow> bool \<times> bool \<Rightarrow> sk_buff \<Rightarrow> rx_hw \<Rightarrow> (u8 \<times> rx_hw) rx_result" where
  "rwnx_rxdataind_aicwf stack alloc skb hw =
     (let v = sk_data skb in
      bind_rx (if flag is_monitor_vif v then rx_monitor_frame stack v skb hw else Inr hw) (\<lambda>hw1.
        if flag flags_upload v
        then rx_upload alloc (rwnx_rx_vector_convert (version_phy_2 hw1) v) skb hw1
        else Inr (0, hw1)))"


subsection \<open>Data frames as the standard has them\<close>

text \<open>
  A data frame to or from the distribution system.  The body is what follows the security header: LLC/SNAP,
  type and payload in a whole frame or a first fragment, the continuation in a later fragment.
\<close>

record mpdu =
  m_da :: bytes
  m_sa :: bytes
  m_bssid :: bytes
  m_from_ds :: bool
  m_protected :: bool
  m_qos :: "u8 option"
  m_htc :: bool
  m_sn :: nat
  m_fn :: nat
  m_more :: bool
  m_sec :: bytes
  m_body :: bytes

definition fc1 :: "mpdu \<Rightarrow> u8" where
  "fc1 f = (if m_from_ds f then 2 else 1) OR (if m_more f then 4 else 0) OR
     (if m_protected f then 0x40 else 0) OR (if m_htc f then 0x80 else 0)"

definition mac_header :: "mpdu \<Rightarrow> bytes" where
  "mac_header f =
     [if m_qos f = None then 0x08 else 0x88, fc1 f, 0, 0] @
     (if m_from_ds f then m_da f @ m_bssid f @ m_sa f else m_bssid f @ m_sa f @ m_da f) @
     [of_nat (m_fn f + 16 * (m_sn f mod 16)), of_nat (m_sn f div 16)] @
     (case m_qos f of None \<Rightarrow> [] | Some t \<Rightarrow> [t, 0]) @ (if m_htc f then [0, 0, 0, 0] else [])"

definition mpdu_bytes :: "mpdu \<Rightarrow> bytes" where
  "mpdu_bytes f = mac_header f @ m_sec f @ m_body f"

text \<open>The aggregate bit of the QoS control field is clear.\<close>

definition mpdu_ok :: "nat \<Rightarrow> mpdu \<Rightarrow> bool" where
  "mpdu_ok decr f \<longleftrightarrow>
     length (m_da f) = 6 \<and> length (m_sa f) = 6 \<and> length (m_bssid f) = 6 \<and> m_sn f < 4096 \<and> m_fn f < 16 \<and>
     length (m_sec f) = sec_len decr \<and> (\<forall>t. m_qos f = Some t \<longrightarrow> t AND 0x80 = 0)"

definition m_tid :: "mpdu \<Rightarrow> u8" where
  "m_tid f = (case m_qos f of None \<Rightarrow> 0 | Some t \<Rightarrow> t AND 0x0F)"

lemma bytes_at_mem: "mem_at d p bs \<Longrightarrow> n = length bs \<Longrightarrow> bytes_at d p n = bs"
  by (auto simp: bytes_at_def mem_at_def intro!: nth_equalityI)

lemma mac_header_length:
  "mpdu_ok decr f \<Longrightarrow>
   length (mac_header f) = 24 + (if m_qos f = None then 0 else 2) + (if m_htc f then 4 else 0)"
  by (auto simp: mac_header_def mpdu_ok_def split: option.splits)

lemma fc1_bits:
  "fc1 f AND 0x3 = (if m_from_ds f then 2 else 1)" "fc1 f AND 0x80 \<noteq> 0 \<longleftrightarrow> m_htc f"
  "fc1 f AND 4 \<noteq> 0 \<longleftrightarrow> m_more f"
  by (simp_all add: fc1_def)

lemma header_fields:
  assumes "mpdu_ok decr f" and "mem_at d 0 (mac_header f)"
  shows "d 0 = (if m_qos f = None then 0x08 else 0x88)" "d 1 = fc1 f"
    and "d 22 = of_nat (m_fn f + 16 * (m_sn f mod 16))" "d 23 = of_nat (m_sn f div 16)"
    and "m_qos f = Some t \<Longrightarrow> d 24 = t"
    and "mem_at d 4 (if m_from_ds f then m_da f @ m_bssid f @ m_sa f else m_bssid f @ m_sa f @ m_da f)"
proof -
  let ?a = "if m_from_ds f then m_da f @ m_bssid f @ m_sa f else m_bssid f @ m_sa f @ m_da f"
  have l: "length ?a = 18" using assms(1) by (simp add: mpdu_ok_def)
  have m: "mem_at d 0 ([if m_qos f = None then 0x08 else 0x88, fc1 f, 0, 0] @ ?a @
     [of_nat (m_fn f + 16 * (m_sn f mod 16)), of_nat (m_sn f div 16)] @
     (case m_qos f of None \<Rightarrow> [] | Some t \<Rightarrow> [t, 0]) @ (if m_htc f then [0, 0, 0, 0] else []))"
    using assms(2) unfolding mac_header_def .
  have 4: "Suc (Suc (Suc (Suc 0))) = 4" by simp
  show "d 0 = (if m_qos f = None then 0x08 else 0x88)" "d 1 = fc1 f" "mem_at d 4 ?a"
    using m by (simp_all add: 4)
  have "mem_at d 22 ([of_nat (m_fn f + 16 * (m_sn f mod 16)), of_nat (m_sn f div 16)] @
     (case m_qos f of None \<Rightarrow> [] | Some t \<Rightarrow> [t, 0]))"
    using m l by (simp only: mem_at_append) (simp add: 4)
  then show "d 22 = of_nat (m_fn f + 16 * (m_sn f mod 16))" "d 23 = of_nat (m_sn f div 16)"
    "m_qos f = Some t \<Longrightarrow> d 24 = t"
    by simp_all
qed


lemma bytes_at_append:
  "mem_at d p (xs @ ys) \<Longrightarrow> length xs = n \<Longrightarrow> bytes_at d p n = xs"
  by (rule bytes_at_mem) simp_all

lemma nibbles:
  fixes a b :: nat
  assumes "a < 16" and "b < 16"
  shows "(of_nat (a + 16 * b) :: u8) AND 0x0F = of_nat a"
    and "drop_bit 4 ((of_nat (a + 16 * b) :: u16) AND 0xF0) = of_nat b"
proof -
  have "list_all (\<lambda>a. list_all (\<lambda>b. (of_nat (a + 16 * b) :: u8) AND 0x0F = of_nat a \<and>
      drop_bit 4 ((of_nat (a + 16 * b) :: u16) AND 0xF0) = of_nat b) [0..<16]) [0..<16]"
    by code_simp
  then show "(of_nat (a + 16 * b) :: u8) AND 0x0F = of_nat a"
    and "drop_bit 4 ((of_nat (a + 16 * b) :: u16) AND 0xF0) = of_nat b"
    using assms by (auto simp: list_all_iff)
qed

lemma ucast_u8_nat: "n < 256 \<Longrightarrow> (ucast (of_nat n :: u8) :: u16) = of_nat n"
  by (simp add: word_unat_eq_iff unat_ucast_8_16 unat_of_nat)

lemma seq_word:
  assumes "sn < 4096"
  shows "(of_nat (sn mod 16) :: u16) OR push_bit 4 (of_nat (sn div 16)) = of_nat sn"
proof -
  have "sn = take_bit 4 sn OR push_bit 4 (drop_bit 4 sn)"
    by (rule bit_eqI) (use not_less in \<open>fastforce simp: bit_or_iff bit_take_bit_iff bit_push_bit_iff bit_drop_bit_eq\<close>)
  then have "(of_nat sn :: u16) = of_nat (take_bit 4 sn OR push_bit 4 (drop_bit 4 sn))" by simp
  also have "\<dots> = of_nat (sn mod 16) OR push_bit 4 (of_nat (sn div 16))"
    by (simp add: of_nat_or_eq of_nat_push_bit take_bit_eq_mod drop_bit_eq_div)
  finally show ?thesis by simp
qed

lemma data_frame_fields:
  assumes "mpdu_ok decr f" and "mem_at d 0 (mac_header f @ m_sec f @ bs)"
  shows "is_data_frame d" "is_qos d \<longleftrightarrow> m_qos f \<noteq> None" "rx_tid d = m_tid f" "\<not> rx_amsdu d"
    and "hdr_len d = length (mac_header f)" "pull_len decr d = length (mac_header f) + sec_len decr + 8"
    and "rx_ra d = m_da f" "rx_ta d = m_sa f" "rx_seq_num d = of_nat (m_sn f)" "rx_frag_num d = of_nat (m_fn f)"
    and "more_frag d \<longleftrightarrow> m_more f"
proof -
  have m: "mem_at d 0 (mac_header f)" using assms(2) by simp
  note h = header_fields [OF assms(1) m]
  have d1: "d (Suc 0) = fc1 f" using h(2) by simp
  show data: "is_data_frame d" using h(1) by (simp add: is_data_frame_def)
  show qos: "is_qos d \<longleftrightarrow> m_qos f \<noteq> None" using data h(1) by (simp add: is_qos_def)
  show "rx_tid d = m_tid f" using qos h(5) by (auto simp: rx_tid_def m_tid_def split: option.splits)
  show "\<not> rx_amsdu d" using qos h(5) assms(1) by (auto simp: rx_amsdu_def mpdu_ok_def)
  show len: "hdr_len d = length (mac_header f)"
    using qos fc1_bits(2) [of f] by (simp add: hdr_len_def mac_header_length [OF assms(1)] d1)
  then show "pull_len decr d = length (mac_header f) + sec_len decr + 8"
    by (simp add: pull_len_def)
  have l: "length (m_da f) = 6" "length (m_sa f) = 6" "length (m_bssid f) = 6" "m_sn f < 4096" "m_fn f < 16"
    using assms(1) by (simp_all add: mpdu_ok_def)
  have ds: "d 1 AND 3 = (if m_from_ds f then 2 else 1)" using h(2) fc1_bits(1) [of f] by simp
  show "rx_ra d = m_da f" "rx_ta d = m_sa f"
    using h(6) l ds by (auto simp: rx_ra_def rx_ta_def intro!: bytes_at_mem)
  have b: "m_fn f + 16 * (m_sn f mod 16) < 256" "m_sn f div 16 < 256" "m_sn f mod 16 < 16"
    using l by auto
  show "rx_seq_num d = of_nat (m_sn f)"
    unfolding rx_seq_num_def h(3,4) ucast_u8_nat [OF b(1)] ucast_u8_nat [OF b(2)] nibbles(2) [OF l(5) b(3)]
    by (rule seq_word [OF l(4)])
  show "rx_frag_num d = of_nat (m_fn f)"
    using nibbles(1) [of "m_fn f" "m_sn f mod 16"] l(5) unfolding rx_frag_num_def h(3) by simp
  have "(256 * ucast (d 1) + ucast (d 0) :: u16) AND 0x0400 \<noteq> 0 \<longleftrightarrow> m_more f"
    unfolding h(1,2) by (simp add: fc1_def)
  then show "more_frag d \<longleftrightarrow> m_more f" by (simp add: more_frag_def)
qed


text \<open>The descriptor and the frame of a received data buffer.\<close>

definition data_buffer :: "nat \<Rightarrow> nat \<Rightarrow> nat \<Rightarrow> bool \<Rightarrow> mpdu \<Rightarrow> sk_buff \<Rightarrow> bool" where
  "data_buffer decr vif dst reord f skb \<longleftrightarrow>
     (let v = sk_data skb in
      \<not> flag is_monitor_vif v \<and> flag flags_upload v \<and> \<not> flag flags_is_80211_mpdu v \<and>
      get decr_status v = decr \<and> get flags_vif_idx v = vif \<and> get flags_dst_idx v = dst \<and>
      (flag flags_need_reord v \<longleftrightarrow> reord) \<and> mpdu_ok decr f \<and>
      mem_at v MSDU_OFFSET (mpdu_bytes f) \<and> sk_len skb = MSDU_OFFSET + length (mpdu_bytes f))"

lemma get_convert_desc: "288 \<le> fst f \<Longrightarrow> get f (rwnx_rx_vector_convert v m) = get f m"
proof (cases "MDM_MAJOR_VERSION v = 0")
  case True
  then show "288 \<le> fst f \<Longrightarrow> ?thesis" by (simp add: get_convert_outside)
next
  case False
  then have "rwnx_rx_vector_convert v m = puts [(rssi1, get rssi_leg m)] m"
    by (simp add: rwnx_rx_vector_convert_def word_neq_0_conv)
  then show "288 \<le> fst f \<Longrightarrow> ?thesis"
    by (simp add: get_puts_other apart_def rssi1_def)
qed

lemma convert_flags [simp]:
  "get decr_status (rwnx_rx_vector_convert v m) = get decr_status m"
  "get flags_vif_idx (rwnx_rx_vector_convert v m) = get flags_vif_idx m"
  "get flags_dst_idx (rwnx_rx_vector_convert v m) = get flags_dst_idx m"
  "get flags_sta_idx (rwnx_rx_vector_convert v m) = get flags_sta_idx m"
  "flag flags_need_reord (rwnx_rx_vector_convert v m) = flag flags_need_reord m"
  "flag flags_is_80211_mpdu (rwnx_rx_vector_convert v m) = flag flags_is_80211_mpdu m"
  "flag flags_is_amsdu (rwnx_rx_vector_convert v m) = flag flags_is_amsdu m"
  by (simp_all add: flag_def get_convert_desc decr_status_def flags_vif_idx_def flags_dst_idx_def
      flags_sta_idx_def flags_need_reord_def flags_is_80211_mpdu_def flags_is_amsdu_def)

lemma skb_bytes_mem: "mem_at (sk_data skb) 0 bs \<Longrightarrow> sk_len skb = length bs \<Longrightarrow> skb_bytes skb = bs"
  by (auto simp: skb_bytes_def mem_at_def intro!: nth_equalityI)

lemma to_ether_bytes:
  assumes "mpdu_ok decr f" and "m_body f = llc @ etype @ pay" and "length llc = 6" and "length etype = 2"
    and "mem_at (sk_data skb) 0 (mpdu_bytes f)" and "sk_len skb = length (mpdu_bytes f)"
  shows "\<exists>s. to_ether (pull_len decr (sk_data skb)) (rx_ra (sk_data skb)) (rx_ta (sk_data skb))
       (ether_type decr (sk_data skb)) skb = Inr s \<and> skb_bytes s = m_da f @ m_sa f @ etype @ pay \<and>
       sk_id s = sk_id skb"
proof -
  let ?d = "sk_data skb" and ?h = "length (mac_header f)"
  have m: "mem_at ?d 0 (mac_header f @ m_sec f @ llc @ etype @ pay)"
    using assms(2,5) by (simp add: mpdu_bytes_def)
  note d = data_frame_fields [OF assms(1) m]
  have l: "length (m_da f) = 6" "length (m_sa f) = 6" "length (m_sec f) = sec_len decr"
    using assms(1) by (simp_all add: mpdu_ok_def)
  have at: "mem_at ?d (?h + sec_len decr + 6) etype" "mem_at ?d (?h + sec_len decr + 8) pay"
    using m l assms(3,4) by (simp_all add: ac_simps)
  have et: "ether_type decr ?d = etype"
    unfolding ether_type_def d(5) using at(1) assms(4) by (intro bytes_at_mem) (simp_all add: ac_simps)
  have len: "sk_len skb = ?h + sec_len decr + 8 + length pay"
    using assms(2,3,4,6) l by (simp add: mpdu_bytes_def)
  have pl: "pull_len decr ?d = ?h + sec_len decr + 8" by (rule d(6))
  define s where "s = skb\<lparr>sk_data := (\<lambda>i. if i < 14 then (m_da f @ m_sa f @ etype) ! i
      else ?d (pull_len decr ?d - 14 + i)), sk_len := sk_len skb - pull_len decr ?d + 14\<rparr>"
  have "to_ether (pull_len decr ?d) (rx_ra ?d) (rx_ta ?d) (ether_type decr ?d) skb = Inr s"
    unfolding to_ether_def s_def et d(7,8) using len pl by simp
  moreover have "skb_bytes s = (m_da f @ m_sa f @ etype) @ pay"
  proof (rule skb_bytes_mem)
    have h: "24 \<le> ?h" using mac_header_length [OF assms(1)] by simp
    have p: "sk_data s (14 + i) = pay ! i" if "i < length pay" for i
    proof -
      have "sk_data s (14 + i) = ?d (?h + sec_len decr + 8 + i)"
        using h by (simp add: s_def pl) (simp add: ac_simps)
      then show ?thesis using at(2) that by (simp add: mem_at_def)
    qed
    have "mem_at (sk_data s) 0 (m_da f @ m_sa f @ etype)"
      using l assms(4) by (simp add: mem_at_def s_def del: append_assoc)
    moreover have "mem_at (sk_data s) 14 pay"
      using p by (simp add: mem_at_def)
    moreover have "length (m_da f @ m_sa f @ etype) = 14"
      using l assms(4) by simp
    ultimately show "mem_at (sk_data s) 0 ((m_da f @ m_sa f @ etype) @ pay)"
      by (simp only: mem_at_append add_0)
    show "sk_len s = length ((m_da f @ m_sa f @ etype) @ pay)"
      using l assms(4) len by (simp add: s_def pl)
  qed
  ultimately show ?thesis by (simp add: s_def)
qed

lemma append_frag_bytes:
  assumes "df_frm_len e = sk_len (df_skb e)" and "mpdu_ok decr f"
    and "mem_at (sk_data skb) 0 (mpdu_bytes f)" and "sk_len skb = length (mpdu_bytes f)"
    and "sk_len (df_skb e) + length (m_body f) \<le> DEFRAG_SKB_SIZE"
  shows "\<exists>e1. append_frag (pull_len decr (sk_data skb)) skb e = Inr e1 \<and>
    skb_bytes (df_skb e1) = skb_bytes (df_skb e) @ m_body f \<and> df_frm_len e1 = sk_len (df_skb e1) \<and>
    sk_len (df_skb e1) = sk_len (df_skb e) + length (m_body f) \<and> sk_id (df_skb e1) = sk_id (df_skb e) \<and>
    df_sn e1 = df_sn e \<and> df_tid e1 = df_tid e \<and> df_sta_idx e1 = df_sta_idx e \<and> df_next_fn e1 = df_next_fn e"
proof -
  let ?d = "sk_data skb" and ?b = "df_skb e" and ?n = "length (m_body f)"
  have m: "mem_at ?d 0 (mac_header f @ m_sec f @ m_body f)"
    using assms(3) by (simp add: mpdu_bytes_def)
  note d = data_frame_fields [OF assms(2) m]
  have l: "length (m_sec f) = sec_len decr"
    using assms(2) by (simp add: mpdu_ok_def)
  have pl: "pull_len decr ?d - 8 = length (mac_header f) + sec_len decr"
    using d(6) by simp
  have at: "mem_at ?d (pull_len decr ?d - 8) (m_body f)"
    unfolding pl using m l by simp
  have len: "sk_len skb - (pull_len decr ?d - 8) = ?n" "\<not> sk_len skb < pull_len decr ?d - 8"
    unfolding pl using assms(4) l by (simp_all add: mpdu_bytes_def)
  define e1 where "e1 = e\<lparr>df_skb := ?b\<lparr>sk_data := (\<lambda>i. if df_frm_len e \<le> i \<and> i < df_frm_len e + ?n
        then ?d (pull_len decr ?d - 8 + (i - df_frm_len e)) else sk_data ?b i), sk_len := sk_len ?b + ?n\<rparr>,
        df_frm_len := df_frm_len e + ?n\<rparr>"
  have "append_frag (pull_len decr ?d) skb e = Inr e1"
    using len assms(5) by (simp add: append_frag_def Let_def e1_def)
  moreover have "skb_bytes (df_skb e1) = skb_bytes ?b @ m_body f"
  proof (rule skb_bytes_mem)
    have b: "length (skb_bytes ?b) = sk_len ?b" by (simp add: skb_bytes_def)
    have "mem_at (sk_data (df_skb e1)) 0 (skb_bytes ?b)"
      using assms(1) by (simp add: mem_at_def e1_def skb_bytes_def)
    moreover have "mem_at (sk_data (df_skb e1)) (sk_len ?b) (m_body f)"
      using at assms(1) by (simp add: mem_at_def e1_def)
    ultimately show "mem_at (sk_data (df_skb e1)) 0 (skb_bytes ?b @ m_body f)"
      using b by simp
    show "sk_len (df_skb e1) = length (skb_bytes ?b @ m_body f)"
      using b by (simp add: e1_def)
  qed
  ultimately show ?thesis using assms(1) by (simp add: e1_def)
qed


subsection \<open>What leaves the list of fragments alone\<close>

lemma keep_simps [simp]:
  "defrag_list (kfree skb hw) = defrag_list hw" "defrag_list (deliver_as t skb hw) = defrag_list hw"
  "defrag_list (rwnx_rx_data_skb_forward skb hw) = defrag_list hw"
  "defrag_list (rwnx_rx_data_skb_resend vif skb hw) = defrag_list hw"
  "defrag_list (data_skb_one vif a b skb hw) = defrag_list hw"
  "defrag_list (report_mgmt v skb vif hw) = defrag_list hw"
  "defrag_list (set_vif vif hw) = defrag_list hw"
  "vif_table (kfree skb hw) = vif_table hw" "vif_table (deliver_as t skb hw) = vif_table hw"
  "vif_table (rwnx_rx_data_skb_forward skb hw) = vif_table hw"
  "vif_table (rwnx_rx_data_skb_resend vif skb hw) = vif_table hw"
  "vif_table (data_skb_one vif a b skb hw) = vif_table hw"
  "vif_table (report_mgmt v skb vif hw) = vif_table hw"
  "vif_table (set_vif vif hw) = vif_table hw"
  "freed_desc (kfree skb hw) = freed_desc hw" "freed_desc (deliver_as t skb hw) = freed_desc hw"
  "freed_desc (rwnx_rx_data_skb_forward skb hw) = freed_desc hw"
  "freed_desc (rwnx_rx_data_skb_resend vif skb hw) = freed_desc hw"
  "freed_desc (data_skb_one vif a b skb hw) = freed_desc hw"
  "freed_desc (report_mgmt v skb vif hw) = freed_desc hw"
  "freed_desc (set_vif vif hw) = freed_desc hw"
  by (simp_all add: kfree_def deliver_as_def rwnx_rx_data_skb_forward_def rwnx_rx_data_skb_resend_def
      data_skb_one_def report_mgmt_def set_vif_def Let_def)

lemma fold_keep: "(\<And>x hw. g (h x hw) = g hw) \<Longrightarrow> g (fold h xs hw) = g hw"
  by (induction xs arbitrary: hw) simp_all

text \<open>The tables that only the fragments and the rest of the driver change.\<close>

definition same_tables :: "rx_hw \<Rightarrow> rx_hw \<Rightarrow> bool" where
  "same_tables hw hw' \<longleftrightarrow>
     defrag_list hw' = defrag_list hw \<and> vif_table hw' = vif_table hw \<and> freed_desc hw' = freed_desc hw"

lemma same_tables_refl [simp]: "same_tables hw hw"
  by (simp add: same_tables_def)

lemma same_tables_trans [trans]: "same_tables hw hw1 \<Longrightarrow> same_tables hw1 hw2 \<Longrightarrow> same_tables hw hw2"
  by (simp add: same_tables_def)

lemma data_skb_keep:
  assumes "rwnx_rx_data_skb hw vif skb amsdu vi di = Inr (fwd, hw')"
  shows "same_tables hw hw'"
  using assms
  by (auto simp: same_tables_def rwnx_rx_data_skb_def bind_rx_Inr split_amsdu_def fold_keep
      split: if_splits option.splits sum.splits)

lemma mgmt_any_keep: "same_tables hw (rwnx_rx_mgmt_any v skb hw)"
  by (simp add: same_tables_def rwnx_rx_mgmt_any_def fold_keep split: option.split)

lemma map_sum_Inr: "map_sum id g r = Inr y \<longleftrightarrow> (\<exists>x. r = Inr x \<and> y = g x)"
  by (cases r) auto

lemma sta_data_keep: "sta_data v qos t sn amsdu skb vif hw = Inr (r, hw') \<Longrightarrow> same_tables hw hw'"
  by (auto simp: same_tables_def sta_data_def Let_def bind_rx_Inr map_sum_Inr deliver_unless_def dest: data_skb_keep [unfolded same_tables_def]
      split: if_splits prod.splits option.splits)

lemma ap_one_keep:
  "ap_one qos reord di amsdu t vif skb pframe hw = Inr (r, hw') \<Longrightarrow> same_tables hw hw'"
  by (auto simp: same_tables_def ap_one_def Let_def bind_rx_Inr split: if_splits prod.splits option.splits)

lemma ap_loop_keep:
  "ap_loop qos reord di amsdu t vif skbs pframe hw = Inr (r, hw') \<Longrightarrow> same_tables hw hw'"
proof (induction skbs arbitrary: pframe hw)
  case Nil
  then show ?case by simp
next
  case (Cons skb skbs)
  then obtain q hw1 where one: "ap_one qos reord di amsdu t vif skb pframe hw = Inr (q, hw1)"
    and rest: "(case (q, hw1) of (Inl u, hw1) \<Rightarrow> Inr (Inl u, hw1)
       | (Inr pframe1, hw1) \<Rightarrow> ap_loop qos reord di amsdu t vif skbs pframe1 hw1) = Inr (r, hw')"
    by (auto simp: bind_rx_Inr)
  show ?case
    using ap_one_keep [OF one] rest Cons.IH same_tables_trans by (cases q) auto
qed

lemma split_keep: "split_amsdu vi skb hw = Inr (list, hw') \<Longrightarrow> same_tables hw hw'"
  by (auto simp: same_tables_def split_amsdu_def split: option.splits sum.splits)

lemma ap_data_keep:
  assumes "ap_data v qos t sn amsdu skb vif hw = Inr (r, hw')"
  shows "same_tables hw hw'"
proof -
  obtain list hw1 q hw2 where split: "(if amsdu then split_amsdu (get flags_vif_idx v) skb hw else Inr ([skb], hw)) = Inr (list, hw1)"
    and loop: "ap_loop qos (flag flags_need_reord v) (get flags_dst_idx v) amsdu t vif list None hw1 = Inr (q, hw2)"
    and rest: "(case (q, hw2) of (Inl _, hw2) \<Rightarrow> Inr (0xFF, hw2) | (Inr None, hw2) \<Rightarrow> Inr (0, hw2)
         | (Inr (Some f), hw2) \<Rightarrow>
             map_sum id (\<lambda>(_, rx). (0, hw2\<lparr>priv := rx\<rparr>))
               (need Stuck (reord_process_unit (f\<lparr>is_ap_reord := True\<rparr>) (priv hw2) (last list) sn t False False)))
       = Inr (r, hw')"
    using assms by (auto simp: ap_data_def bind_rx_Inr)
  have "same_tables hw hw1"
    using split split_keep by (auto split: if_splits)
  moreover have "same_tables hw2 hw'"
  proof (cases q)
    case (Inr p)
    then show ?thesis using rest by (cases p) (auto simp: map_sum_Inr same_tables_def)
  qed (use rest in simp)
  ultimately show ?thesis using ap_loop_keep [OF loop] same_tables_trans by blast
qed

lemma sender_vif_keep: "sender_vif v vif hw = Inr (r, hw') \<Longrightarrow> same_tables hw hw'"
  by (auto simp: same_tables_def sender_vif_def Let_def bind_rx_Inr sta_statistic_def split: if_splits)

lemma sender_vif_only:
  "sender_vif v vif hw = Inr (r, hw') \<Longrightarrow> hw' = hw\<lparr>rx_counters := rx_counters hw', sta_table := sta_table hw'\<rparr>"
  by (auto simp: sender_vif_def Let_def bind_rx_Inr sta_statistic_def split: if_splits)

lemma dispatch_keep:
  assumes "rx_dispatch v d amsdu skb hw = Inr (r, hw')"
  shows "same_tables hw hw'"
  using assms
  by (auto simp: rx_dispatch_def vif_data_def bind_rx_Inr mgmt_any_keep [unfolded same_tables_def] same_tables_def
      dest!: sta_data_keep [unfolded same_tables_def] ap_data_keep [unfolded same_tables_def]
        sender_vif_keep [unfolded same_tables_def] split: if_splits option.splits)


subsection \<open>Fragments, one entry per key\<close>

type_synonym frag_key = "u16 \<times> u8 \<times> nat"

definition frag_key :: "defrag_ctrl_info \<Rightarrow> frag_key" where
  "frag_key e = (df_sn e, df_tid e, df_sta_idx e)"

definition frag_entry :: "frag_key \<Rightarrow> rx_hw \<Rightarrow> defrag_ctrl_info option" where
  "frag_entry k hw = List.find (\<lambda>e. frag_key e = k) (defrag_list hw)"

definition frags_ok :: "rx_hw \<Rightarrow> bool" where
  "frags_ok hw \<longleftrightarrow> distinct (map frag_key (defrag_list hw)) \<and>
     (\<forall>e\<in>set (defrag_list hw). df_frm_len e = sk_len (df_skb e) \<and> sk_len (df_skb e) \<le> DEFRAG_SKB_SIZE)"

lemma frag_match_key: "frag_match sn t sta e \<longleftrightarrow> frag_key e = (sn, t, sta)"
  by (simp add: frag_match_def frag_key_def)

lemma entry_cong: "defrag_list hw' = defrag_list hw \<Longrightarrow> frag_entry k hw' = frag_entry k hw"
  by (simp add: frag_entry_def)

lemma find_append:
  "List.find P (xs @ ys) = (case List.find P xs of None \<Rightarrow> List.find P ys | Some x \<Rightarrow> Some x)"
  by (induction xs) simp_all

lemma first_index_find:
  "first_index P xs = None \<longleftrightarrow> List.find P xs = None"
  "first_index P xs = Some i \<Longrightarrow> List.find P xs = Some (xs ! i)"
  by (auto simp: first_index_None find_None_iff first_index_Some find_Some_iff)

text \<open>The three ways in which the list of fragments changes.\<close>

lemma entry_append:
  "frag_entry k (hw\<lparr>defrag_list := defrag_list hw @ [e]\<rparr>) =
     (case frag_entry k hw of Some x \<Rightarrow> Some x | None \<Rightarrow> if frag_key e = k then Some e else None)"
  by (simp add: frag_entry_def find_append split: option.split)

lemma entry_split:
  assumes "frags_ok hw" and "first_index (\<lambda>e. frag_key e = k0) (defrag_list hw) = Some i"
  obtains as b cs where "defrag_list hw = as @ b # cs" "i = length as" "frag_key b = k0"
    "k0 \<notin> frag_key ` set as" "k0 \<notin> frag_key ` set cs"
proof -
  let ?es = "defrag_list hw"
  have i: "i < length ?es" "frag_key (?es ! i) = k0"
    using assms(2) by (auto dest: first_index_less first_index_holds)
  have es: "?es = take i ?es @ ?es ! i # List.drop (Suc i) ?es"
    using i by (simp add: id_take_nth_drop)
  have "distinct (map frag_key (take i ?es @ ?es ! i # List.drop (Suc i) ?es))"
    using assms(1) es by (simp add: frags_ok_def)
  then show ?thesis
    using i that [OF es] by auto
qed

lemma entry_update:
  assumes "frags_ok hw" and "first_index (\<lambda>e. frag_key e = k0) (defrag_list hw) = Some i" and "frag_key e = k0"
  shows "frag_entry k (hw\<lparr>defrag_list := (defrag_list hw)[i := e]\<rparr>) = (if k = k0 then Some e else frag_entry k hw)"
proof -
  obtain as b cs where s: "defrag_list hw = as @ b # cs" "i = length as" "frag_key b = k0"
    "k0 \<notin> frag_key ` set as" "k0 \<notin> frag_key ` set cs"
    using entry_split [OF assms(1,2)] .
  have "List.find (\<lambda>e. frag_key e = k0) as = None"
    using s(4) by (auto simp: find_None_iff)
  then show ?thesis
    using s(1-3) assms(3) by (auto simp: frag_entry_def find_append split: option.splits)
qed

lemma entry_remove:
  assumes "frags_ok hw" and "first_index (\<lambda>e. frag_key e = k0) (defrag_list hw) = Some i"
  shows "frag_entry k (hw\<lparr>defrag_list := take i (defrag_list hw) @ List.drop (Suc i) (defrag_list hw)\<rparr>) =
    (if k = k0 then None else frag_entry k hw)"
proof -
  obtain as b cs where s: "defrag_list hw = as @ b # cs" "i = length as" "frag_key b = k0"
    "k0 \<notin> frag_key ` set as" "k0 \<notin> frag_key ` set cs"
    using entry_split [OF assms(1,2)] .
  have "List.find (\<lambda>e. frag_key e = k0) as = None" "List.find (\<lambda>e. frag_key e = k0) cs = None"
    using s(4,5) by (auto simp: find_None_iff)
  then show ?thesis
    using s(1-3) by (auto simp: frag_entry_def find_append split: option.splits)
qed

lemma frags_ok_append:
  "frags_ok hw \<Longrightarrow> frag_entry (frag_key e) hw = None \<Longrightarrow> df_frm_len e = sk_len (df_skb e) \<Longrightarrow>
   sk_len (df_skb e) \<le> DEFRAG_SKB_SIZE \<Longrightarrow> frags_ok (hw\<lparr>defrag_list := defrag_list hw @ [e]\<rparr>)"
  by (auto simp: frags_ok_def frag_entry_def find_None_iff)

lemma frags_ok_update:
  assumes "frags_ok hw" and "i < length (defrag_list hw)" and "frag_key e = frag_key (defrag_list hw ! i)"
    and "df_frm_len e = sk_len (df_skb e)" and "sk_len (df_skb e) \<le> DEFRAG_SKB_SIZE"
  shows "frags_ok (hw\<lparr>defrag_list := (defrag_list hw)[i := e]\<rparr>)"
proof -
  have "map frag_key ((defrag_list hw)[i := e]) = map frag_key (defrag_list hw)"
    using assms(2,3) by (simp add: map_update list_update_same_conv)
  then show ?thesis
    using assms by (auto simp: frags_ok_def dest!: set_update_subset_insert [THEN subsetD])
qed

lemma frags_ok_remove:
  assumes "frags_ok hw"
  shows "frags_ok (hw\<lparr>defrag_list := take i (defrag_list hw) @ List.drop (Suc i) (defrag_list hw)\<rparr>)"
proof -
  have "distinct (take i xs @ List.drop (Suc i) xs)" if "distinct xs" for xs :: "frag_key list"
    using that set_take_disj_set_drop_if_distinct [OF that, of i "Suc i"] by simp
  from this [of "map frag_key (defrag_list hw)"]
  have "distinct (map frag_key (take i (defrag_list hw) @ List.drop (Suc i) (defrag_list hw)))"
    using assms by (simp add: frags_ok_def take_map drop_map)
  then show ?thesis
    using assms by (auto simp: frags_ok_def dest: in_set_takeD in_set_dropD)
qed


lemma append_frag_fields:
  assumes "append_frag plen skb e = Inr e1" and "df_frm_len e = sk_len (df_skb e)"
  shows "frag_key e1 = frag_key e" "df_frm_len e1 = sk_len (df_skb e1)" "sk_len (df_skb e1) \<le> DEFRAG_SKB_SIZE"
  using assms by (auto simp: append_frag_def Let_def frag_key_def split: if_splits)

text \<open>What a call may do to the entries: keep the invariant and all entries but that of one key.\<close>

definition only_key :: "frag_key \<Rightarrow> rx_hw \<Rightarrow> rx_hw \<Rightarrow> bool" where
  "only_key k0 hw hw' \<longleftrightarrow> frags_ok hw' \<and> (\<forall>k. k \<noteq> k0 \<longrightarrow> frag_entry k hw' = frag_entry k hw)"

lemma only_key_keep: "frags_ok hw \<Longrightarrow> defrag_list hw' = defrag_list hw \<Longrightarrow> only_key k0 hw hw'"
  by (simp add: only_key_def frags_ok_def frag_entry_def)

lemma only_key_trans:
  "only_key k0 hw hw1 \<Longrightarrow> defrag_list hw2 = defrag_list hw1 \<Longrightarrow> only_key k0 hw hw2"
  by (simp add: only_key_def frags_ok_def frag_entry_def)

definition data_key :: "mem \<Rightarrow> mem \<Rightarrow> frag_key" where
  "data_key v d = (rx_seq_num d, rx_tid d, frag_sta v)"

lemma middle_only:
  assumes "frags_ok hw" and "middle_frag alloc d decr (frag_sta v) skb hw = Inr hw'"
  shows "only_key (data_key v d) hw hw'"
proof -
  let ?k = "data_key v d" and ?m = "frag_match (rx_seq_num d) (rx_tid d) (frag_sta v)"
  have m: "?m = (\<lambda>e. frag_key e = ?k)"
    by (simp add: frag_match_key data_key_def fun_eq_iff)
  show ?thesis
  proof (cases "first_index ?m (defrag_list hw)")
    case (Some i)
    let ?e = "defrag_list hw ! i"
    have i: "i < length (defrag_list hw)" "frag_key ?e = ?k"
      using Some unfolding m by (auto dest: first_index_less first_index_holds)
    then have e: "df_frm_len ?e = sk_len (df_skb ?e)"
      using assms(1) by (simp add: frags_ok_def)
    show ?thesis
    proof (cases "df_next_fn ?e = rx_frag_num d")
      case False
      then show ?thesis
        using assms(2) Some by (intro only_key_keep [OF assms(1)]) (auto simp: middle_frag_def Let_def)
    next
      case True
      then obtain e1 where ap: "append_frag (pull_len decr d) skb ?e = Inr e1"
        and hw': "hw' = kfree skb (hw\<lparr>defrag_list := (defrag_list hw)[i := e1\<lparr>df_next_fn := df_next_fn e1 + 1\<rparr>]\<rparr>)"
        using assms(2) Some by (auto simp: middle_frag_def Let_def bind_rx_Inr)
      note f = append_frag_fields [OF ap e]
      let ?e2 = "e1\<lparr>df_next_fn := df_next_fn e1 + 1\<rparr>"
      have "frag_key ?e2 = ?k" using f(1) i(2) by (simp add: frag_key_def)
      then have "only_key ?k hw (hw\<lparr>defrag_list := (defrag_list hw)[i := ?e2]\<rparr>)"
        using entry_update [OF assms(1) Some [unfolded m]] frags_ok_update [OF assms(1) i(1)] f i(2)
        by (simp add: only_key_def)
      then show ?thesis unfolding hw' by (rule only_key_trans) simp
    qed
  next
    case None
    then have n: "frag_entry ?k hw = None"
      unfolding m frag_entry_def by (simp add: first_index_find)
    show ?thesis
    proof (cases "fst alloc \<and> snd alloc")
      case False
      then show ?thesis
        using assms(2) None by (intro only_key_keep [OF assms(1)]) (auto simp: middle_frag_def Let_def)
    next
      case True
      then obtain eth e where nf: "new_frag eth (rx_seq_num d) (rx_tid d) (frag_sta v) = Inr e"
        and hw': "hw' = kfree skb (hw\<lparr>defrag_list := defrag_list hw @ [e]\<rparr>)"
        using assms(2) None by (auto simp: middle_frag_def Let_def bind_rx_Inr)
      have e: "frag_key e = ?k" "df_frm_len e = sk_len (df_skb e)" "sk_len (df_skb e) \<le> DEFRAG_SKB_SIZE"
        using nf by (auto simp: new_frag_def frag_key_def data_key_def split: if_splits)
      have "only_key ?k hw (hw\<lparr>defrag_list := defrag_list hw @ [e]\<rparr>)"
        using frags_ok_append [OF assms(1) _ e(2,3)] n e(1)
        by (auto simp: only_key_def entry_append split: option.split)
      then show ?thesis unfolding hw' by (rule only_key_trans) simp
    qed
  qed
qed

lemma last_only:
  assumes "frags_ok hw" and "last_frag v d (frag_sta v) skb hw = Inr (r, hw')"
  shows "only_key (data_key v d) hw hw'"
proof -
  let ?k = "data_key v d" and ?m = "frag_match (rx_seq_num d) (rx_tid d) (frag_sta v)"
  have m: "?m = (\<lambda>e. frag_key e = ?k)"
    by (simp add: frag_match_key data_key_def fun_eq_iff)
  show ?thesis
  proof (cases "first_index ?m (defrag_list hw)")
    case None
    then show ?thesis
      using assms(2) by (intro only_key_keep [OF assms(1)]) (simp add: last_frag_def Let_def)
  next
    case (Some i)
    let ?e = "defrag_list hw ! i"
    have i: "i < length (defrag_list hw)" "frag_key ?e = ?k"
      using Some unfolding m by (auto dest: first_index_less first_index_holds)
    then have e: "df_frm_len ?e = sk_len (df_skb ?e)"
      using assms(1) by (simp add: frags_ok_def)
    show ?thesis
    proof (cases "df_next_fn ?e = rx_frag_num d")
      case False
      then show ?thesis
        using assms(2) Some by (intro only_key_keep [OF assms(1)]) (auto simp: last_frag_def Let_def)
    next
      case True
      then obtain e1 where ap: "append_frag (pull_len (get decr_status v) d) skb ?e = Inr e1"
        using assms(2) Some by (auto simp: last_frag_def Let_def bind_rx_Inr)
      note f = append_frag_fields [OF ap e]
      let ?rem = "hw\<lparr>defrag_list := take i (defrag_list hw) @ List.drop (Suc i) (defrag_list hw)\<rparr>"
      let ?w = "freed_desc hw (sk_id skb)"
      show ?thesis
      proof (cases "rwnx_rx_get_vif hw (get flags_vif_idx v)")
        case None
        then have hw': "hw' = kfree skb (hw\<lparr>defrag_list := (defrag_list hw)[i := e1]\<rparr>)"
          using assms(2) Some True ap by (auto simp: last_frag_def Let_def)
        have "only_key ?k hw (hw\<lparr>defrag_list := (defrag_list hw)[i := e1]\<rparr>)"
          using entry_update [OF assms(1) Some [unfolded m]] frags_ok_update [OF assms(1) i(1)] f i(2)
          by (simp add: only_key_def)
        then show ?thesis unfolding hw' by (rule only_key_trans) simp
      next
        case (Some vif)
        then obtain fwd hw1 where data: "rwnx_rx_data_skb (kfree skb ?rem) vif (df_skb e1)
            (flag flags_is_amsdu ?w) (get flags_vif_idx ?w) (get flags_dst_idx ?w) = Inr (fwd, hw1)"
          and hw': "hw' = (if fwd then hw1 else kfree (df_skb e1) hw1)"
          using assms(2) \<open>first_index ?m (defrag_list hw) = Some i\<close> True ap
          by (auto simp: last_frag_def Let_def bind_rx_Inr)
        have "only_key ?k hw ?rem"
          using entry_remove [OF assms(1) \<open>first_index ?m (defrag_list hw) = Some i\<close> [unfolded m]]
            frags_ok_remove [OF assms(1)] by (simp add: only_key_def)
        then show ?thesis
          by (rule only_key_trans) (simp add: hw' data_skb_keep [OF data, unfolded same_tables_def])
      qed
    qed
  qed
qed


lemma monitor_keep: "rx_monitor_frame stack v skb hw = Inr hw' \<Longrightarrow> defrag_list hw' = defrag_list hw"
  by (auto simp: rx_monitor_frame_def rwnx_rx_monitor_def bind_rx_Inr Let_def split: option.splits if_splits)

definition msdu_mem :: "sk_buff \<Rightarrow> mem" where
  "msdu_mem skb = (\<lambda>i. sk_data skb (MSDU_OFFSET + i))"

lemma pull_Inr: "pull n skb = Inr s \<longleftrightarrow>
    n \<le> sk_len skb \<and> s = skb\<lparr>sk_data := (\<lambda>i. sk_data skb (n + i)), sk_len := sk_len skb - n\<rparr>"
  by (auto simp: pull_def skb_pull_def)

lemma frag_sta_convert [simp]: "frag_sta (rwnx_rx_vector_convert ver v) = frag_sta v"
  by (simp add: frag_sta_def)

text \<open>The frames that the reassembly looks at.\<close>

definition is_fragment :: "sk_buff \<Rightarrow> bool" where
  "is_fragment skb \<longleftrightarrow>
     (let v = sk_data skb; d = msdu_mem skb in
      flag flags_upload v \<and> is_data_frame d \<and> \<not> flag flags_need_reord v \<and> (more_frag d \<or> rx_frag_num d \<noteq> 0))"

lemma fragment_only:
  assumes "frags_ok hw" and "rx_fragment alloc v d skb hw = Inr (c, hw')"
  shows "only_key (data_key v d) hw hw'"
    and "flag flags_need_reord v \<or> \<not> more_frag d \<and> rx_frag_num d = 0 \<Longrightarrow> hw' = hw"
proof -
  show "only_key (data_key v d) hw hw'"
    using assms(2) only_key_keep [OF assms(1) refl] middle_only [OF assms(1), of alloc]
      last_only [OF assms(1)]
    by (auto simp: rx_fragment_def map_sum_Inr split: if_splits)
  show "flag flags_need_reord v \<or> \<not> more_frag d \<and> rx_frag_num d = 0 \<Longrightarrow> hw' = hw"
    using assms(2) by (auto simp: rx_fragment_def)
qed

lemma upload_only:
  assumes "frags_ok hw" and "rx_upload alloc v skb hw = Inr (r, hw')"
  shows "only_key (data_key v (msdu_mem skb)) hw hw'"
    and "flag flags_need_reord v \<or> \<not> is_data_frame (msdu_mem skb) \<or>
      \<not> more_frag (msdu_mem skb) \<and> rx_frag_num (msdu_mem skb) = 0 \<Longrightarrow> defrag_list hw' = defrag_list hw"
proof -
  let ?d = "msdu_mem skb"
  have "only_key (data_key v ?d) hw hw' \<and> (flag flags_need_reord v \<or> \<not> is_data_frame ?d \<or>
      \<not> more_frag ?d \<and> rx_frag_num ?d = 0 \<longrightarrow> defrag_list hw' = defrag_list hw)"
  proof (cases "is_data_frame ?d")
    case False
    then obtain s where "rx_dispatch v ?d (flag flags_is_amsdu v) s hw = Inr (r, hw')"
      using assms(2) by (auto simp: rx_upload_def bind_rx_Inr pull_Inr msdu_mem_def Let_def)
    then have "defrag_list hw' = defrag_list hw"
      using dispatch_keep [unfolded same_tables_def] by blast
    then show ?thesis
      using only_key_keep [OF assms(1)] by blast
  next
    case True
    then obtain skb1 c hw1 where f: "rx_fragment alloc v ?d skb1 hw = Inr (c, hw1)"
      and rest: "c \<and> hw' = hw1 \<or> (\<exists>s. rx_dispatch v ?d (rx_amsdu ?d) s hw1 = Inr (r, hw'))"
      using assms(2) by (fastforce simp: rx_upload_def bind_rx_Inr pull_Inr msdu_mem_def Let_def split: if_splits)
    have keep: "defrag_list hw' = defrag_list hw1"
      using rest dispatch_keep [unfolded same_tables_def] by blast
    then show ?thesis
      using fragment_only [OF assms(1) f] True only_key_trans by auto
  qed
  then show "only_key (data_key v ?d) hw hw'"
    and "flag flags_need_reord v \<or> \<not> is_data_frame ?d \<or> \<not> more_frag ?d \<and> rx_frag_num ?d = 0 \<Longrightarrow>
      defrag_list hw' = defrag_list hw"
    by blast+
qed

lemma handler_only:
  assumes "frags_ok hw" and "rwnx_rxdataind_aicwf stack alloc skb hw = Inr (r, hw')"
  shows "frags_ok hw' \<and>
    (\<forall>k. k \<noteq> data_key (sk_data skb) (msdu_mem skb) \<or> \<not> is_fragment skb \<longrightarrow> frag_entry k hw' = frag_entry k hw)"
proof -
  let ?v = "sk_data skb" and ?d = "msdu_mem skb"
  obtain hw1 where 1: "(if flag is_monitor_vif ?v then rx_monitor_frame stack ?v skb hw else Inr hw) = Inr hw1"
    and 2: "(if flag flags_upload ?v
        then rx_upload alloc (rwnx_rx_vector_convert (version_phy_2 hw1) ?v) skb hw1 else Inr (0, hw1)) = Inr (r, hw')"
    using assms(2) by (auto simp: rwnx_rxdataind_aicwf_def Let_def bind_rx_Inr)
  have k1: "defrag_list hw1 = defrag_list hw"
    using 1 monitor_keep by (auto split: if_splits)
  then have ok1: "frags_ok hw1" using assms(1) by (simp add: frags_ok_def)
  have key: "data_key (rwnx_rx_vector_convert ver ?v) ?d = data_key ?v ?d" for ver
    by (simp add: data_key_def)
  show ?thesis
  proof (cases "flag flags_upload ?v")
    case False
    then have "defrag_list hw' = defrag_list hw" using 2 k1 by simp
    then show ?thesis using assms(1) by (simp add: frags_ok_def frag_entry_def)
  next
    case True
    then have u: "rx_upload alloc (rwnx_rx_vector_convert (version_phy_2 hw1) ?v) skb hw1 = Inr (r, hw')"
      using 2 by simp
    have "only_key (data_key ?v ?d) hw1 hw'"
      using upload_only(1) [OF ok1 u] by (simp only: key)
    moreover have "defrag_list hw' = defrag_list hw1" if "\<not> is_fragment skb"
      using that True upload_only(2) [OF ok1 u] by (auto simp: is_fragment_def Let_def)
    ultimately show ?thesis
      using k1 by (auto simp: only_key_def frag_entry_def)
  qed
qed


text \<open>No call changes the table of the interfaces (nor what freed memory holds).\<close>

definition same_vifs :: "rx_hw \<Rightarrow> rx_hw \<Rightarrow> bool" where
  "same_vifs hw hw' \<longleftrightarrow> vif_table hw' = vif_table hw \<and> freed_desc hw' = freed_desc hw"

lemma same_vifs: "same_tables hw hw' \<Longrightarrow> same_vifs hw hw'"
  by (simp add: same_tables_def same_vifs_def)

lemma same_vifs_trans: "same_vifs hw hw1 \<Longrightarrow> same_vifs hw1 hw2 \<Longrightarrow> same_vifs hw hw2"
  by (simp add: same_vifs_def)

lemma fragment_vifs:
  assumes "rx_fragment alloc v d skb hw = Inr (c, hw')"
  shows "same_vifs hw hw'"
proof -
  have m: "same_vifs hw h'" if "middle_frag alloc d decr sta skb hw = Inr h'" for decr sta h'
    using that by (auto simp: same_vifs_def middle_frag_def Let_def bind_rx_Inr split: if_splits option.splits)
  have l: "same_vifs hw h'" if "last_frag v d sta skb hw = Inr (r, h')" for sta r h'
    using that by (auto simp: same_vifs_def last_frag_def Let_def bind_rx_Inr split: if_splits option.splits
        dest!: data_skb_keep [unfolded same_tables_def])
  show ?thesis
    using assms m l by (auto simp: rx_fragment_def map_sum_Inr same_vifs_def split: if_splits)
qed

lemma upload_vifs:
  assumes "rx_upload alloc v skb hw = Inr (r, hw')"
  shows "same_vifs hw hw'"
proof (cases "is_data_frame (msdu_mem skb)")
  case False
  then obtain s where "rx_dispatch v (msdu_mem skb) (flag flags_is_amsdu v) s hw = Inr (r, hw')"
    using assms by (auto simp: rx_upload_def bind_rx_Inr pull_Inr msdu_mem_def Let_def)
  then show ?thesis using dispatch_keep same_vifs by blast
next
  case True
  let ?d = "msdu_mem skb"
  obtain skb1 c hw1 where f: "rx_fragment alloc v ?d skb1 hw = Inr (c, hw1)"
    and rest: "c \<and> hw' = hw1 \<or> (\<exists>s. rx_dispatch v ?d (rx_amsdu ?d) s hw1 = Inr (r, hw'))"
    using assms True by (fastforce simp: rx_upload_def bind_rx_Inr pull_Inr msdu_mem_def Let_def split: if_splits)
  then have "same_vifs hw1 hw'"
    using dispatch_keep same_vifs same_vifs_def by metis
  then show ?thesis using fragment_vifs [OF f] same_vifs_trans by blast
qed

lemma handler_vifs:
  assumes "rwnx_rxdataind_aicwf stack alloc skb hw = Inr (r, hw')"
  shows "same_vifs hw hw'"
proof -
  have m: "same_vifs hw h'" if "rx_monitor_frame stack v skb hw = Inr h'" for v h'
    using that by (auto simp: same_vifs_def rx_monitor_frame_def rwnx_rx_monitor_def bind_rx_Inr Let_def split: option.splits if_splits)
  obtain hw1 where 1: "(if flag is_monitor_vif (sk_data skb) then rx_monitor_frame stack (sk_data skb) skb hw else Inr hw) = Inr hw1"
    and 2: "(if flag flags_upload (sk_data skb)
        then rx_upload alloc (rwnx_rx_vector_convert (version_phy_2 hw1) (sk_data skb)) skb hw1 else Inr (0, hw1)) = Inr (r, hw')"
    using assms by (auto simp: rwnx_rxdataind_aicwf_def Let_def bind_rx_Inr)
  have "same_vifs hw hw1" using 1 m by (auto simp: same_vifs_def split: if_splits)
  moreover have "same_vifs hw1 hw'" using 2 upload_vifs by (auto simp: same_vifs_def split: if_splits)
  ultimately show ?thesis by (rule same_vifs_trans)
qed


subsection \<open>Reassembly\<close>

definition frame_key :: "nat \<Rightarrow> mpdu \<Rightarrow> frag_key" where
  "frame_key dst f = (of_nat (m_sn f), m_tid f, if dst \<noteq> RWNX_INVALID_STA then dst else 0)"

definition msdu_of :: "sk_buff \<Rightarrow> sk_buff" where
  "msdu_of skb = skb\<lparr>sk_data := msdu_mem skb, sk_len := sk_len skb - MSDU_OFFSET\<rparr>"

lemma msdu_of_id [simp]: "sk_id (msdu_of skb) = sk_id skb"
  by (simp add: msdu_of_def)

lemma handler_data:
  fixes hw :: rx_hw
  assumes "data_buffer decr vi dst reord f skb"
  defines "v \<equiv> rwnx_rx_vector_convert (version_phy_2 hw) (sk_data skb)" and "d \<equiv> msdu_mem skb"
  shows "rwnx_rxdataind_aicwf stack alloc skb hw =
      bind_rx (rx_fragment alloc v d (msdu_of skb) hw) (\<lambda>(consumed, hw1).
        if consumed then Inr (0, hw1)
        else bind_rx (to_ether (pull_len decr d) (rx_ra d) (rx_ta d) (ether_type decr d) (msdu_of skb)) (\<lambda>s.
          rx_dispatch v d False s hw1))"
    and "mem_at d 0 (mpdu_bytes f)" "sk_len (msdu_of skb) = length (mpdu_bytes f)" "mpdu_ok decr f"
    and "data_key v d = frame_key dst f" "get decr_status v = decr" "get flags_vif_idx v = vi"
    and "get flags_dst_idx v = dst" "flag flags_need_reord v = reord" "\<not> flag flags_is_80211_mpdu v"
    and "is_data_frame d" "is_qos d \<longleftrightarrow> m_qos f \<noteq> None" "rx_tid d = m_tid f" "rx_seq_num d = of_nat (m_sn f)"
    and "rx_frag_num d = of_nat (m_fn f)" "more_frag d = m_more f"
proof -
  have b: "\<not> flag is_monitor_vif (sk_data skb)" "flag flags_upload (sk_data skb)"
    "mpdu_ok decr f" "mem_at (sk_data skb) MSDU_OFFSET (mpdu_bytes f)"
    "sk_len skb = MSDU_OFFSET + length (mpdu_bytes f)"
    using assms(1) by (simp_all add: data_buffer_def Let_def)
  show m: "mem_at d 0 (mpdu_bytes f)"
    using b(4) by (simp add: d_def msdu_mem_def mem_at_shift)
  show "sk_len (msdu_of skb) = length (mpdu_bytes f)" "mpdu_ok decr f"
    using b by (simp_all add: msdu_of_def)
  show decr: "get decr_status v = decr" and "get flags_vif_idx v = vi"
    and dst: "get flags_dst_idx v = dst" and "flag flags_need_reord v = reord" "\<not> flag flags_is_80211_mpdu v"
    using assms(1) by (simp_all add: data_buffer_def Let_def v_def)
  have m': "mem_at d 0 (mac_header f @ m_sec f @ m_body f)"
    using m by (simp add: mpdu_bytes_def)
  note h = data_frame_fields [OF b(3) m']
  show "is_data_frame d" "is_qos d \<longleftrightarrow> m_qos f \<noteq> None" "rx_tid d = m_tid f" "rx_seq_num d = of_nat (m_sn f)"
    "rx_frag_num d = of_nat (m_fn f)" "more_frag d = m_more f"
    using h by simp_all
  show "data_key v d = frame_key dst f"
    using h dst by (simp add: data_key_def frame_key_def frag_sta_def)
  have pl: "pull MSDU_OFFSET skb = Inr (msdu_of skb)"
    using b(5) by (simp add: pull_Inr msdu_of_def msdu_mem_def)
  have d: "sk_data (msdu_of skb) = d" by (simp add: msdu_of_def d_def)
  show "rwnx_rxdataind_aicwf stack alloc skb hw =
      bind_rx (rx_fragment alloc v d (msdu_of skb) hw) (\<lambda>(consumed, hw1).
        if consumed then Inr (0, hw1)
        else bind_rx (to_ether (pull_len decr d) (rx_ra d) (rx_ta d) (ether_type decr d) (msdu_of skb)) (\<lambda>s.
          rx_dispatch v d False s hw1))"
    using b h(1,4) decr [unfolded v_def, simplified]
    by (simp add: rwnx_rxdataind_aicwf_def Let_def rx_upload_def v_def [symmetric] pl d cong: if_cong)
qed

lemma no_entry: "frag_entry k hw = None \<Longrightarrow> first_index (\<lambda>e. frag_key e = k) (defrag_list hw) = None"
  by (simp add: frag_entry_def first_index_find)

lemma has_entry:
  assumes "frag_entry k hw = Some e"
  obtains i where "first_index (\<lambda>e. frag_key e = k) (defrag_list hw) = Some i" "defrag_list hw ! i = e"
  using assms first_index_find [of "\<lambda>e. frag_key e = k" "defrag_list hw"]
  by (cases "first_index (\<lambda>e. frag_key e = k) (defrag_list hw)") (auto simp: frag_entry_def)

text \<open>An entry that holds the bytes \<open>bs\<close> and waits for fragment \<open>n\<close>.\<close>

definition holds :: "frag_key \<Rightarrow> rx_hw \<Rightarrow> nat \<Rightarrow> bytes \<Rightarrow> bool" where
  "holds k hw n bs \<longleftrightarrow>
     frags_ok hw \<and> (\<exists>e. frag_entry k hw = Some e \<and> df_next_fn e = of_nat n \<and> skb_bytes (df_skb e) = bs)"

lemma first_step:
  assumes "data_buffer decr vi dst False f skb" and "m_more f" and "m_body f = llc @ etype @ pay"
    and "length llc = 6" and "length etype = 2" and "14 + length pay \<le> DEFRAG_SKB_SIZE"
    and "frags_ok hw" and "frag_entry (frame_key dst f) hw = None"
  shows "\<exists>hw'. rwnx_rxdataind_aicwf stack (True, True) skb hw = Inr (0, hw') \<and>
    holds (frame_key dst f) hw' 1 (m_da f @ m_sa f @ etype @ pay)"
proof -
  note h = handler_data [OF assms(1)]
  let ?d = "msdu_mem skb" and ?s = "msdu_of skb"
  have ds: "sk_data ?s = ?d" by (simp add: msdu_of_def)
  obtain eth where eth: "to_ether (pull_len decr ?d) (rx_ra ?d) (rx_ta ?d) (ether_type decr ?d) ?s = Inr eth"
    and bytes: "skb_bytes eth = m_da f @ m_sa f @ etype @ pay"
    using to_ether_bytes [OF h(4) assms(3-5), of ?s] h(2,3) by (auto simp: ds)
  have len: "sk_len eth = 14 + length pay"
    using arg_cong [OF bytes, of length] h(4) assms(5) by (simp add: skb_bytes_def mpdu_ok_def)
  have m: "frag_match (rx_seq_num ?d) (rx_tid ?d) (frag_sta (sk_data skb)) = (\<lambda>e. frag_key e = frame_key dst f)"
    using h(5) by (simp add: frag_match_key data_key_def fun_eq_iff)
  obtain e where e: "new_frag eth (rx_seq_num ?d) (rx_tid ?d) (frag_sta (sk_data skb)) = Inr e"
    using len assms(6) by (simp add: new_frag_def)
  have ef: "frag_key e = frame_key dst f" "df_frm_len e = sk_len (df_skb e)" "sk_len (df_skb e) \<le> DEFRAG_SKB_SIZE"
    "df_next_fn e = 1" "skb_bytes (df_skb e) = skb_bytes eth"
    using e h(5) by (auto simp: new_frag_def frag_key_def data_key_def skb_bytes_def split: if_splits)
  let ?hw = "kfree ?s (hw\<lparr>defrag_list := defrag_list hw @ [e]\<rparr>)"
  have "middle_frag (True, True) ?d decr (frag_sta (sk_data skb)) ?s hw = Inr ?hw"
    using no_entry [OF assms(8)] eth e by (simp add: middle_frag_def Let_def m)
  then have run: "rwnx_rxdataind_aicwf stack (True, True) skb hw = Inr (0, ?hw)"
    using h(6,9,16) assms(2) by (simp add: h(1) rx_fragment_def)
  have ok: "frags_ok (hw\<lparr>defrag_list := defrag_list hw @ [e]\<rparr>)"
    using frags_ok_append [OF assms(7) _ ef(2,3)] assms(8) ef(1) by simp
  moreover have "frag_entry (frame_key dst f) (hw\<lparr>defrag_list := defrag_list hw @ [e]\<rparr>) = Some e"
    using assms(8) ef(1) by (simp add: entry_append)
  ultimately have "holds (frame_key dst f) ?hw 1 (m_da f @ m_sa f @ etype @ pay)"
    using ef(4,5) bytes by (simp add: holds_def frags_ok_def frag_entry_def)
  then show ?thesis using run by blast
qed


lemma append_step:
  assumes "data_buffer decr vi dst False f skb" and "frag_entry (frame_key dst f) hw = Some e" and "frags_ok hw"
    and "length (skb_bytes (df_skb e)) + length (m_body f) \<le> DEFRAG_SKB_SIZE"
  obtains i e1 where "first_index (frag_match (rx_seq_num (msdu_mem skb)) (rx_tid (msdu_mem skb)) (frag_sta (sk_data skb)))
      (defrag_list hw) = Some i" "defrag_list hw ! i = e" "i < length (defrag_list hw)"
    "append_frag (pull_len decr (msdu_mem skb)) (msdu_of skb) e = Inr e1"
    "skb_bytes (df_skb e1) = skb_bytes (df_skb e) @ m_body f" "df_next_fn e1 = df_next_fn e" "frag_key e1 = frame_key dst f"
    "df_frm_len e1 = sk_len (df_skb e1)" "sk_len (df_skb e1) \<le> DEFRAG_SKB_SIZE"
    "first_index (\<lambda>e. frag_key e = frame_key dst f) (defrag_list hw) = Some i"
proof -
  note h = handler_data [OF assms(1)]
  have ds: "sk_data (msdu_of skb) = msdu_mem skb" by (simp add: msdu_of_def)
  have m: "frag_match (rx_seq_num (msdu_mem skb)) (rx_tid (msdu_mem skb)) (frag_sta (sk_data skb)) =
      (\<lambda>e. frag_key e = frame_key dst f)"
    using h(5) by (simp add: frag_match_key data_key_def fun_eq_iff)
  obtain i where i: "first_index (\<lambda>e. frag_key e = frame_key dst f) (defrag_list hw) = Some i" "defrag_list hw ! i = e"
    using has_entry [OF assms(2)] .
  have i': "i < length (defrag_list hw)" "frag_key e = frame_key dst f"
    using i by (auto dest: first_index_less first_index_holds)
  then have e: "df_frm_len e = sk_len (df_skb e)"
    using assms(3) i(2) by (auto simp: frags_ok_def)
  have "sk_len (df_skb e) + length (m_body f) \<le> DEFRAG_SKB_SIZE"
    using assms(4) by (simp add: skb_bytes_def)
  then obtain e1 where e1: "append_frag (pull_len decr (msdu_mem skb)) (msdu_of skb) e = Inr e1"
    "skb_bytes (df_skb e1) = skb_bytes (df_skb e) @ m_body f" "df_next_fn e1 = df_next_fn e"
    using append_frag_bytes [OF e h(4), of "msdu_of skb"] h(2,3) by (auto simp: ds)
  note f = append_frag_fields [OF e1(1) e]
  show ?thesis
    using that [of i e1] i i' e1 f m by simp
qed

lemma middle_step:
  assumes "data_buffer decr vi dst False f skb" and "m_more f" and "holds (frame_key dst f) hw (m_fn f) bs"
    and "length bs + length (m_body f) \<le> DEFRAG_SKB_SIZE"
  shows "\<exists>hw'. rwnx_rxdataind_aicwf stack (True, True) skb hw = Inr (0, hw') \<and>
    holds (frame_key dst f) hw' (m_fn f + 1) (bs @ m_body f)"
proof -
  note h = handler_data [OF assms(1)]
  let ?k = "frame_key dst f"
  obtain e where ok: "frags_ok hw" and e: "frag_entry ?k hw = Some e" "df_next_fn e = of_nat (m_fn f)"
    "skb_bytes (df_skb e) = bs"
    using assms(3) by (auto simp: holds_def)
  have len: "length (skb_bytes (df_skb e)) + length (m_body f) \<le> DEFRAG_SKB_SIZE"
    using assms(4) e(3) by simp
  obtain i e1 where i: "first_index (frag_match (rx_seq_num (msdu_mem skb)) (rx_tid (msdu_mem skb)) (frag_sta (sk_data skb)))
      (defrag_list hw) = Some i" "defrag_list hw ! i = e" "i < length (defrag_list hw)"
    and a: "append_frag (pull_len decr (msdu_mem skb)) (msdu_of skb) e = Inr e1"
    and e1: "skb_bytes (df_skb e1) = skb_bytes (df_skb e) @ m_body f" "df_next_fn e1 = df_next_fn e" "frag_key e1 = ?k"
    "df_frm_len e1 = sk_len (df_skb e1)" "sk_len (df_skb e1) \<le> DEFRAG_SKB_SIZE"
    and i': "first_index (\<lambda>e. frag_key e = ?k) (defrag_list hw) = Some i"
    using append_step [OF assms(1) e(1) ok len] .
  let ?e2 = "e1\<lparr>df_next_fn := df_next_fn e1 + 1\<rparr>"
  let ?hw = "kfree (msdu_of skb) (hw\<lparr>defrag_list := (defrag_list hw)[i := ?e2]\<rparr>)"
  have "middle_frag (True, True) (msdu_mem skb) decr (frag_sta (sk_data skb)) (msdu_of skb) hw = Inr ?hw"
    using i a e(2) h(15) by (simp add: middle_frag_def Let_def)
  then have run: "rwnx_rxdataind_aicwf stack (True, True) skb hw = Inr (0, ?hw)"
    using h(6,9,16) assms(2) by (simp add: h(1) rx_fragment_def)
  have key: "frag_key ?e2 = ?k" "frag_key (defrag_list hw ! i) = ?k"
    using e1(3) i' by (auto simp: frag_key_def dest: first_index_holds)
  have "frags_ok (hw\<lparr>defrag_list := (defrag_list hw)[i := ?e2]\<rparr>)"
    using e1 key by (intro frags_ok_update [OF ok i(3)]) simp_all
  moreover have "frag_entry ?k (hw\<lparr>defrag_list := (defrag_list hw)[i := ?e2]\<rparr>) = Some ?e2"
    using entry_update [OF ok i' key(1)] by simp
  ultimately have "holds ?k ?hw (m_fn f + 1) (bs @ m_body f)"
    using e e1 by (simp add: holds_def frags_ok_def frag_entry_def)
  then show ?thesis using run by blast
qed

text \<open>The last fragment for a station interface.\<close>

lemma last_step:
  assumes "data_buffer decr vi dst False f skb" and "\<not> m_more f" and "m_fn f \<noteq> 0"
    and "holds (frame_key dst f) hw (m_fn f) bs" and "length bs + length (m_body f) \<le> DEFRAG_SKB_SIZE"
    and "rwnx_rx_get_vif hw vi = Some vif" and "vif_type vif = IF_STATION"
    and "\<not> flag flags_is_amsdu (freed_desc hw (sk_id skb))"
  shows "\<exists>hw' s. rwnx_rxdataind_aicwf stack (True, True) skb hw = Inr (0, hw') \<and>
    frag_entry (frame_key dst f) hw' = None \<and> skb_bytes s = bs @ m_body f \<and>
    netif (priv hw') = netif (priv hw) @ [eth_type_trans s]"
proof -
  note h = handler_data [OF assms(1)]
  let ?k = "frame_key dst f"
  obtain e where ok: "frags_ok hw" and e: "frag_entry ?k hw = Some e" "df_next_fn e = of_nat (m_fn f)"
    "skb_bytes (df_skb e) = bs"
    using assms(4) by (auto simp: holds_def)
  have len: "length (skb_bytes (df_skb e)) + length (m_body f) \<le> DEFRAG_SKB_SIZE"
    using assms(5) e(3) by simp
  obtain i e1 where i: "first_index (frag_match (rx_seq_num (msdu_mem skb)) (rx_tid (msdu_mem skb)) (frag_sta (sk_data skb)))
      (defrag_list hw) = Some i" "defrag_list hw ! i = e" "i < length (defrag_list hw)"
    and a: "append_frag (pull_len decr (msdu_mem skb)) (msdu_of skb) e = Inr e1"
    and e1: "skb_bytes (df_skb e1) = skb_bytes (df_skb e) @ m_body f" "df_next_fn e1 = df_next_fn e" "frag_key e1 = ?k"
    "df_frm_len e1 = sk_len (df_skb e1)" "sk_len (df_skb e1) \<le> DEFRAG_SKB_SIZE"
    and i': "first_index (\<lambda>e. frag_key e = ?k) (defrag_list hw) = Some i"
    using append_step [OF assms(1) e(1) ok len] .
  let ?rem = "hw\<lparr>defrag_list := take i (defrag_list hw) @ List.drop (Suc i) (defrag_list hw)\<rparr>"
  let ?hw = "deliver_as IF_STATION (df_skb e1) (kfree (msdu_of skb) ?rem)"
  let ?v = "rwnx_rx_vector_convert (version_phy_2 hw) (sk_data skb)"
  have nz: "(of_nat (m_fn f) :: u8) \<noteq> 0"
  proof -
    have "m_fn f < 16" using h(4) by (simp add: mpdu_ok_def)
    then have "unat (of_nat (m_fn f) :: u8) = m_fn f" by (simp add: unat_of_nat)
    then show ?thesis using assms(3) by (metis unat_0)
  qed
  have "rwnx_rx_data_skb (kfree (msdu_of skb) ?rem) vif (df_skb e1) False vi' dst' = Inr (True, ?hw)" for vi' dst'
    using assms(7) by (simp add: rwnx_rx_data_skb_def data_skb_dest_def data_skb_one_def)
  then have "last_frag ?v (msdu_mem skb) (frag_sta (sk_data skb)) (msdu_of skb) hw = Inr (True, ?hw)"
    using i a e(2) h(6,7,8,15) assms(6,8) by (simp add: last_frag_def Let_def)
  then have run: "rwnx_rxdataind_aicwf stack (True, True) skb hw = Inr (0, ?hw)"
    using h(6,9,15,16) assms(2) nz by (simp add: h(1) rx_fragment_def)
  have "frag_entry ?k ?rem = None"
    using entry_remove [OF ok i'] by simp
  then have "frag_entry ?k ?hw = None" by (simp add: frag_entry_def)
  moreover have "netif (priv ?hw) = netif (priv hw) @ [eth_type_trans (df_skb e1)]"
    by (simp add: deliver_as_def netif_deliver_def kfree_def dev_kfree_skb_def Let_def)
  ultimately show ?thesis using run e1 e(3) by blast
qed


text \<open>
  What may happen between the first and the last fragment: the middle fragments \<open>bs\<close> of the frame are
  received in order, numbered from \<open>n\<close>, and in between any buffers that are not fragments of the same key,
  and the timers of other entries expire.  Memory for a new entry is available.
\<close>

datatype rx_event = is_frame: Frame sk_buff | Defrag_timeout frag_key

definition defrag_timeout :: "frag_key \<Rightarrow> rx_hw \<Rightarrow> rx_hw" where
  "defrag_timeout k hw =
     (case first_index (\<lambda>e. frag_key e = k) (defrag_list hw) of
        None \<Rightarrow> hw | Some i \<Rightarrow> defrag_timeout_cb i hw)"

fun rx_run :: "(nat \<Rightarrow> nat) \<Rightarrow> rx_event list \<Rightarrow> rx_hw \<Rightarrow> rx_hw rx_result" where
  "rx_run stack [] hw = Inr hw"
| "rx_run stack (Frame skb # es) hw =
     bind_rx (rwnx_rxdataind_aicwf stack (True, True) skb hw) (\<lambda>(r, hw1). rx_run stack es hw1)"
| "rx_run stack (Defrag_timeout k # es) hw = rx_run stack es (defrag_timeout k hw)"

inductive train :: "nat \<Rightarrow> nat \<Rightarrow> nat \<Rightarrow> frag_key \<Rightarrow> nat \<Rightarrow> bytes list \<Rightarrow> rx_event list \<Rightarrow> bool"
  for decr vi dst k where
  stop: "train decr vi dst k n [] []"
| mine: "data_buffer decr vi dst False f skb \<Longrightarrow> frame_key dst f = k \<Longrightarrow> m_fn f = n \<Longrightarrow> m_more f \<Longrightarrow>
    train decr vi dst k (n + 1) bs skbs \<Longrightarrow> train decr vi dst k n (m_body f # bs) (Frame skb # skbs)"
| other: "data_key (sk_data skb) (msdu_mem skb) \<noteq> k \<or> \<not> is_fragment skb \<Longrightarrow>
    train decr vi dst k n bs skbs \<Longrightarrow> train decr vi dst k n bs (Frame skb # skbs)"
| timer: "k1 \<noteq> k \<Longrightarrow> train decr vi dst k n bs skbs \<Longrightarrow> train decr vi dst k n bs (Defrag_timeout k1 # skbs)"

lemma timeout_vifs [simp]: "same_vifs hw (defrag_timeout k hw)"
  by (simp add: same_vifs_def defrag_timeout_def defrag_timeout_cb_def split: option.split)

lemma timeout_holds:
  assumes "holds k hw n bs" and "k1 \<noteq> k"
  shows "holds k (defrag_timeout k1 hw) n bs"
proof (cases "first_index (\<lambda>e. frag_key e = k1) (defrag_list hw)")
  case None
  then show ?thesis using assms(1) by (simp add: defrag_timeout_def)
next
  case (Some i)
  let ?rem = "hw\<lparr>defrag_list := take i (defrag_list hw) @ List.drop (Suc i) (defrag_list hw)\<rparr>"
  have ok: "frags_ok hw" using assms(1) by (simp add: holds_def)
  have "frags_ok ?rem" "frag_entry k ?rem = frag_entry k hw"
    using frags_ok_remove [OF ok] entry_remove [OF ok Some, of k] assms(2) by simp_all
  then have "holds k ?rem n bs" using assms(1) by (simp add: holds_def)
  moreover have "defrag_list (defrag_timeout k1 hw) = defrag_list ?rem"
    using Some by (simp add: defrag_timeout_def defrag_timeout_cb_def)
  ultimately show ?thesis by (simp add: holds_def frags_ok_def frag_entry_def)
qed

lemma run_vifs: "rx_run stack es hw = Inr hw' \<Longrightarrow> same_vifs hw hw'"
proof (induction stack es hw rule: rx_run.induct)
  case (1 stack hw)
  then show ?case by (simp add: same_vifs_def)
next
  case (2 stack skb es hw)
  then obtain r hw1 where "rwnx_rxdataind_aicwf stack (True, True) skb hw = Inr (r, hw1)" "same_vifs hw1 hw'"
    by (auto simp: bind_rx_Inr)
  then show ?case using handler_vifs same_vifs_trans by blast
next
  case (3 stack k es hw)
  then show ?case using same_vifs_trans [OF timeout_vifs] by simp
qed

lemma get_vif_cong: "vif_table hw' = vif_table hw \<Longrightarrow> rwnx_rx_get_vif hw' vi = rwnx_rx_get_vif hw vi"
  unfolding rwnx_rx_get_vif_def by simp

lemma train_length: "train decr vi dst k n bs es \<Longrightarrow> length bs \<le> length (filter is_frame es)"
  by (induction rule: train.induct) simp_all

lemma train_holds:
  assumes "train decr vi dst k n bs skbs" and "holds k hw n xs"
    and "length xs + length (concat bs) \<le> DEFRAG_SKB_SIZE" and "rx_run stack skbs hw = Inr hw'"
  shows "holds k hw' (n + length bs) (xs @ concat bs)"
  using assms
proof (induction arbitrary: hw xs rule: train.induct)
  case (stop n)
  then show ?case by simp
next
  case (mine f skb n bs skbs)
  have len: "length xs + length (m_body f) \<le> DEFRAG_SKB_SIZE"
    using mine.prems(2) by simp
  have h: "holds (frame_key dst f) hw (m_fn f) xs"
    using mine.prems(1) mine.hyps(2,3) by simp
  obtain hw1 where one: "rwnx_rxdataind_aicwf stack (True, True) skb hw = Inr (0, hw1)"
    and h1: "holds (frame_key dst f) hw1 (m_fn f + 1) (xs @ m_body f)"
    using middle_step [OF mine.hyps(1,4) h len] by blast
  have "rx_run stack skbs hw1 = Inr hw'"
    using mine.prems(3) one by simp
  then have "holds k hw' (n + 1 + length bs) ((xs @ m_body f) @ concat bs)"
    using mine.IH [of hw1 "xs @ m_body f"] h1 mine.hyps(2,3) mine.prems(2) by simp
  then show ?case by simp
next
  case (other skb n bs skbs)
  obtain r hw1 where one: "rwnx_rxdataind_aicwf stack (True, True) skb hw = Inr (r, hw1)"
    and rest: "rx_run stack skbs hw1 = Inr hw'"
    using other.prems(3) by (auto simp: bind_rx_Inr)
  obtain e where e: "frags_ok hw" "frag_entry k hw = Some e" "df_next_fn e = of_nat n" "skb_bytes (df_skb e) = xs"
    using other.prems(1) by (auto simp: holds_def)
  have "frags_ok hw1 \<and> frag_entry k hw1 = frag_entry k hw"
    using handler_only [OF e(1) one, THEN conjunct1]
      handler_only [OF e(1) one, THEN conjunct2, rule_format, of k] other.hyps(1) by metis
  then have "holds k hw1 n xs" using e by (simp add: holds_def)
  then show ?case using other.IH other.prems(2) rest by blast
next
  case (timer k1 n bs skbs)
  then show ?case using timeout_holds [OF timer.prems(1) timer.hyps(1)] by simp
qed

lemma train_returns:
  assumes "train decr vi dst k n bs es" and "length (filter is_frame es) = length bs" and "holds k hw n xs"
    and "length xs + length (concat bs) \<le> DEFRAG_SKB_SIZE"
  shows "\<exists>hw'. rx_run stack es hw = Inr hw'"
  using assms
proof (induction arbitrary: hw xs rule: train.induct)
  case (stop n)
  then show ?case by simp
next
  case (mine f skb n bs es)
  have len: "length xs + length (m_body f) \<le> DEFRAG_SKB_SIZE"
    using mine.prems(3) by simp
  have h: "holds (frame_key dst f) hw (m_fn f) xs"
    using mine.prems(2) mine.hyps(2,3) by simp
  obtain hw1 where one: "rwnx_rxdataind_aicwf stack (True, True) skb hw = Inr (0, hw1)"
    and h1: "holds (frame_key dst f) hw1 (m_fn f + 1) (xs @ m_body f)"
    using middle_step [OF mine.hyps(1,4) h len] by blast
  have "\<exists>hw'. rx_run stack es hw1 = Inr hw'"
    using mine.IH [of hw1 "xs @ m_body f"] h1 mine.hyps(2,3) mine.prems(1,3) by simp
  then show ?case using one by simp
next
  case (other skb n bs es)
  have "length bs \<le> length (filter is_frame es)" by (rule train_length [OF other.hyps(2)])
  then show ?case using other.prems(1) by simp
next
  case (timer k1 n bs es)
  have "holds k (defrag_timeout k1 hw) n xs"
    by (rule timeout_holds [OF timer.prems(2) timer.hyps(1)])
  then show ?case using timer.IH timer.prems(1,3) by simp
qed

subsection \<open>Properties\<close>

text \<open>C20: A received frame changes at most the entry of its own sequence number, traffic class and station
  in the list of fragments, and none unless it is a fragment itself; there is never more than one entry
  for a key, and no entry grows beyond its buffer.\<close>

theorem defrag_isolated:
  assumes "frags_ok hw" and "rwnx_rxdataind_aicwf stack alloc skb hw = Inr (r, hw')"
  shows "frags_ok hw' \<and>
    (\<forall>k. k \<noteq> data_key (sk_data skb) (msdu_mem skb) \<or> \<not> is_fragment skb \<longrightarrow> frag_entry k hw' = frag_entry k hw)"
  using handler_only [OF assms] .


text \<open>A descriptor for interface 0, and buffers made from it.\<close>

definition demo_desc :: mem where
  "demo_desc = (\<lambda>i. if i = 48 then 0x40 else if i = 50 \<or> i = 51 then 0xFF else 0)"

definition mk_buffer :: "nat \<Rightarrow> mpdu \<Rightarrow> sk_buff" where
  "mk_buffer n f =
     \<lparr>sk_id = [n], sk_data = (\<lambda>i. if i < 60 then demo_desc i
        else if i - 60 < length (mpdu_bytes f) then mpdu_bytes f ! (i - 60) else 0),
      sk_len = 60 + length (mpdu_bytes f)\<rparr>"

definition demo_mpdu :: "nat \<Rightarrow> bool \<Rightarrow> bytes \<Rightarrow> mpdu" where
  "demo_mpdu n mf body =
     \<lparr>m_da = [2, 0, 0, 0, 0, 1], m_sa = [2, 0, 0, 0, 0, 2], m_bssid = [2, 0, 0, 0, 0, 3], m_from_ds = True,
      m_protected = False, m_qos = None, m_htc = False, m_sn = 77, m_fn = n, m_more = mf, m_sec = [],
      m_body = body\<rparr>"

definition demo_hw :: rx_hw where
  "demo_hw =
     \<lparr>version_phy_2 = 0, band_5g_support = False,
      vif_table = [Some \<lparr>vif_index = 0, up = True, vif_type = IF_STATION, ap_isolate = False, sta_list = []\<rparr>,
                   None, None, None],
      vifs = [], sta_table = [], monitor_vif = 0xFF, defrag_list = [], rx_counters = demo_stats,
      mgmt_rx = [], monitored = [], resent = [], freed_desc = (\<lambda>_. demo_desc), priv = rx_start (tcp_ack_init (\<lambda>_. 5) 0)\<rparr>"

lemma get_mk_buffer: "fst fld + snd fld \<le> 480 \<Longrightarrow> get fld (sk_data (mk_buffer i f)) = get fld demo_desc"
proof -
  have low: "sk_data (mk_buffer i f) j = demo_desc j" if "j < 60" for j
    using that by (simp add: mk_buffer_def)
  show "fst fld + snd fld \<le> 480 \<Longrightarrow> ?thesis"
    unfolding get_def by (intro bit_eqI) (auto simp: bit_bits mem_bit_def low div_less_iff_less_mult)
qed

lemma demo_sta: "get (400, 8) demo_desc = RWNX_INVALID_STA"
  by code_simp

lemma demo_buffer: "n < 16 \<Longrightarrow> data_buffer 0 0 0xFF False (demo_mpdu n mf body) (mk_buffer i (demo_mpdu n mf body))"
proof -
  assume n: "n < 16"
  let ?s = "mk_buffer i (demo_mpdu n mf body)" and ?f = "demo_mpdu n mf body"
  note get = get_mk_buffer [of _ i ?f]
  have v: "get is_monitor_vif demo_desc = 0" "get flags_upload demo_desc = 1" "get flags_is_80211_mpdu demo_desc = 0"
    "get decr_status demo_desc = 0" "get flags_vif_idx demo_desc = 0" "get flags_dst_idx demo_desc = 0xFF"
    "get flags_need_reord demo_desc = 0"
    by code_simp+
  have "mem_at (sk_data ?s) MSDU_OFFSET (mpdu_bytes ?f)"
    by (simp add: mem_at_def mk_buffer_def MSDU_OFFSET_def)
  moreover have "mpdu_ok 0 ?f" using n by (simp add: mpdu_ok_def demo_mpdu_def sec_len_def decr_defs)
  ultimately show ?thesis
    using v by (simp add: data_buffer_def Let_def flag_def get is_monitor_vif_def flags_upload_def
        flags_is_80211_mpdu_def decr_status_def flags_vif_idx_def flags_dst_idx_def flags_need_reord_def)
      (simp add: mk_buffer_def MSDU_OFFSET_def)
qed


theorem defrag_isolated_witness:
  "\<exists>hw'. rwnx_rxdataind_aicwf (\<lambda>_. 0) (True, True)
      (mk_buffer 1 (demo_mpdu 0 True [170, 170, 3, 0, 0, 0, 8, 0, 69])) demo_hw = Inr (0, hw') \<and>
    frags_ok hw' \<and> frag_entry (5, 0, 0) hw' = None"
proof -
  let ?f = "demo_mpdu 0 True [170, 170, 3, 0, 0, 0, 8, 0, 69]"
  have ok: "frags_ok demo_hw" "frag_entry k demo_hw = None" for k
    by (simp_all add: frags_ok_def demo_hw_def frag_entry_def)
  have f: "data_buffer 0 0 0xFF False ?f (mk_buffer 1 ?f)"
    by (rule demo_buffer) simp
  have b: "m_more ?f" "m_body ?f = [170, 170, 3, 0, 0, 0] @ [8, 0] @ [69]"
    "length [170, 170, 3, 0, 0, 0 :: u8] = 6" "length [8, 0 :: u8] = 2" "14 + length [69 :: u8] \<le> DEFRAG_SKB_SIZE"
    by (simp_all add: demo_mpdu_def DEFRAG_SKB_SIZE_def)
  obtain hw' where run: "rwnx_rxdataind_aicwf (\<lambda>_. 0) (True, True) (mk_buffer 1 ?f) demo_hw = Inr (0, hw')"
    using first_step [OF f b ok] by blast
  have "data_key (sk_data (mk_buffer 1 ?f)) (msdu_mem (mk_buffer 1 ?f)) = frame_key 0xFF ?f"
    using handler_data(5) [OF f, of demo_hw] by (simp add: data_key_def)
  also have "\<dots> \<noteq> (5, 0, 0)" by (simp add: frame_key_def demo_mpdu_def)
  finally show ?thesis
    using run defrag_isolated [OF ok(1) run] ok(2) by metis
qed






end
