(* ===== verification/TxQueue.thy ===== *)
theory TxQueue
  imports Prelude
begin

unbundle bit_operations_syntax

section \<open>Transmit queues\<close>

text \<open>
  The queues of \<open>rwnx_txq.c\<close> between the network stack and the bus, with \<open>rwnx_tx_push\<close> of
  \<open>rwnx_tx.c\<close>.  Every station has a queue for each of its eight traffic classes and one for management
  frames, every interface one for group addressed frames and one for unknown receivers, and there is one
  for frames sent off channel.  A queue that has frames and is not stopped is a member of the list of its
  hardware queue; \<open>rwnx_hwq_process\<close> walks over that list and pushes frames to the firmware.

  Pointers to queues, stations and interfaces are indices into the tables of the state.  The result of a
  function that can fail is an error or the new state: \<open>Tx_bug\<close> is a \<open>BUG_ON\<close>, \<open>Tx_null\<close> a NULL
  pointer and \<open>Tx_index\<close> an index outside a table.
\<close>

datatype tx_error = Tx_bug | Tx_null | Tx_index

type_synonym 'a tx_result = "tx_error + 'a"

definition bind_tx :: "'a tx_result \<Rightarrow> ('a \<Rightarrow> 'b tx_result) \<Rightarrow> 'b tx_result" where
  "bind_tx r k = (case r of Inl e \<Rightarrow> Inl e | Inr x \<Rightarrow> k x)"

lemma bind_tx_simps [simp]: "bind_tx (Inl e) k = Inl e" "bind_tx (Inr x) k = k x"
  by (simp_all add: bind_tx_def)

lemma bind_tx_Inr: "bind_tx r k = Inr y \<longleftrightarrow> (\<exists>x. r = Inr x \<and> k x = Inr y)"
  by (cases r) simp_all

subsection \<open>Layout of the table of queues\<close>

text \<open>Old chips have 8 stations, new ones 32; the table is always as large as new chips need it.\<close>

definition NX_NB_TID_PER_STA :: nat where "NX_NB_TID_PER_STA = 8"
definition NX_NB_TXQ_PER_STA :: nat where "NX_NB_TXQ_PER_STA = NX_NB_TID_PER_STA + 1"
definition NX_NB_TXQ_PER_VIF :: nat where "NX_NB_TXQ_PER_VIF = 2"
definition NX_VIRT_DEVS :: nat where "NX_VIRT_DEVS = 4"
definition NX_REMOTE_STA_MAX :: nat where "NX_REMOTE_STA_MAX = 32"
definition NX_REMOTE_STA_MAX_FOR_OLD_IC :: nat where "NX_REMOTE_STA_MAX_FOR_OLD_IC = 8"

definition nx_remote_sta_max :: "bool \<Rightarrow> nat" where
  "nx_remote_sta_max old_ic = (if old_ic then NX_REMOTE_STA_MAX_FOR_OLD_IC else NX_REMOTE_STA_MAX)"

definition NX_NB_TXQ :: nat where
  "NX_NB_TXQ = NX_NB_TXQ_PER_STA * NX_REMOTE_STA_MAX + NX_NB_TXQ_PER_VIF * NX_VIRT_DEVS + 1"

definition nx_first_vif_txq_idx :: "bool \<Rightarrow> nat" where
  "nx_first_vif_txq_idx old_ic = nx_remote_sta_max old_ic * NX_NB_TXQ_PER_STA"

definition nx_first_unk_txq_idx :: "bool \<Rightarrow> nat" where
  "nx_first_unk_txq_idx old_ic = nx_first_vif_txq_idx old_ic + NX_VIRT_DEVS"

definition nx_off_chan_txq_idx :: "bool \<Rightarrow> nat" where
  "nx_off_chan_txq_idx old_ic = nx_first_vif_txq_idx old_ic + NX_VIRT_DEVS * NX_NB_TXQ_PER_VIF"

definition nx_bcmc_txq_ndev_idx :: "bool \<Rightarrow> nat" where
  "nx_bcmc_txq_ndev_idx old_ic = NX_NB_TID_PER_STA * nx_remote_sta_max old_ic"

definition NX_NB_NDEV_TXQ :: nat where "NX_NB_NDEV_TXQ = NX_NB_TID_PER_STA * NX_REMOTE_STA_MAX + 1"

definition NX_STA_NDEV_IDX :: "nat \<Rightarrow> nat \<Rightarrow> nat" where
  "NX_STA_NDEV_IDX tid sta_idx = tid + sta_idx * NX_NB_TID_PER_STA"

definition NDEV_NO_TXQ :: nat where "NDEV_NO_TXQ = 0xffff"
definition TXQ_INACTIVE :: nat where "TXQ_INACTIVE = 0xffff"
definition NX_BCMC_TXQ_TYPE :: nat where "NX_BCMC_TXQ_TYPE = 0"
definition NX_UNK_TXQ_TYPE :: nat where "NX_UNK_TXQ_TYPE = 1"
definition TID_MGT :: nat where "TID_MGT = 8"

lemmas layout_defs = NX_NB_TID_PER_STA_def NX_NB_TXQ_PER_STA_def NX_NB_TXQ_PER_VIF_def NX_VIRT_DEVS_def
  NX_REMOTE_STA_MAX_def NX_REMOTE_STA_MAX_FOR_OLD_IC_def nx_remote_sta_max_def NX_NB_TXQ_def
  nx_first_vif_txq_idx_def nx_first_unk_txq_idx_def nx_off_chan_txq_idx_def nx_bcmc_txq_ndev_idx_def
  NX_NB_NDEV_TXQ_def NX_STA_NDEV_IDX_def NDEV_NO_TXQ_def TXQ_INACTIVE_def NX_BCMC_TXQ_TYPE_def
  NX_UNK_TXQ_TYPE_def TID_MGT_def

definition is_multicast_sta :: "bool \<Rightarrow> nat \<Rightarrow> bool" where
  "is_multicast_sta old_ic sta_idx \<longleftrightarrow> nx_remote_sta_max old_ic \<le> sta_idx"

definition RWNX_HWQ_BK :: nat where "RWNX_HWQ_BK = 0"
definition RWNX_HWQ_BE :: nat where "RWNX_HWQ_BE = 1"
definition RWNX_HWQ_VI :: nat where "RWNX_HWQ_VI = 2"
definition RWNX_HWQ_VO :: nat where "RWNX_HWQ_VO = 3"

lemmas hwq_defs = RWNX_HWQ_BK_def RWNX_HWQ_BE_def RWNX_HWQ_VI_def RWNX_HWQ_VO_def

definition rwnx_tid2hwq :: "nat list" where
  "rwnx_tid2hwq =
     [RWNX_HWQ_BE, RWNX_HWQ_BK, RWNX_HWQ_BK, RWNX_HWQ_BE, RWNX_HWQ_VI, RWNX_HWQ_VI, RWNX_HWQ_VO, RWNX_HWQ_VO,
      RWNX_HWQ_VO] @ replicate 7 RWNX_HWQ_BE"

definition nx_tid_prio :: "nat list" where
  "nx_tid_prio = [7, 6, 5, 4, 3, 0, 2, 1]"

definition nx_txdesc_cnt :: "nat list" where
  "nx_txdesc_cnt = [8, 64, 64, 32, 8]"

text \<open>Reasons to stop a queue.  \<open>RWNX_TXQ_STOP_MU_POS\<close> is not one of \<open>RWNX_TXQ_STOP\<close>.\<close>

definition RWNX_TXQ_IN_HWQ_LIST :: u8 where "RWNX_TXQ_IN_HWQ_LIST = 0x01"
definition RWNX_TXQ_STOP_FULL :: u8 where "RWNX_TXQ_STOP_FULL = 0x02"
definition RWNX_TXQ_STOP_CSA :: u8 where "RWNX_TXQ_STOP_CSA = 0x04"
definition RWNX_TXQ_STOP_STA_PS :: u8 where "RWNX_TXQ_STOP_STA_PS = 0x08"
definition RWNX_TXQ_STOP_VIF_PS :: u8 where "RWNX_TXQ_STOP_VIF_PS = 0x10"
definition RWNX_TXQ_STOP_CHAN :: u8 where "RWNX_TXQ_STOP_CHAN = 0x20"
definition RWNX_TXQ_NDEV_FLOW_CTRL :: u8 where "RWNX_TXQ_NDEV_FLOW_CTRL = 0x80"
definition RWNX_TXQ_STOP :: u8 where
  "RWNX_TXQ_STOP = RWNX_TXQ_STOP_FULL OR RWNX_TXQ_STOP_CSA OR RWNX_TXQ_STOP_STA_PS OR RWNX_TXQ_STOP_VIF_PS
     OR RWNX_TXQ_STOP_CHAN"

lemmas status_defs = RWNX_TXQ_IN_HWQ_LIST_def RWNX_TXQ_STOP_FULL_def RWNX_TXQ_STOP_CSA_def
  RWNX_TXQ_STOP_STA_PS_def RWNX_TXQ_STOP_VIF_PS_def RWNX_TXQ_STOP_CHAN_def RWNX_TXQ_NDEV_FLOW_CTRL_def

lemma RWNX_TXQ_STOP_eq: "RWNX_TXQ_STOP = 0x3E"
  by (simp add: RWNX_TXQ_STOP_def status_defs)

definition LEGACY_PS_ID :: nat where "LEGACY_PS_ID = 0"
definition UAPSD_ID :: nat where "UAPSD_ID = 1"
definition NX_TXQ_INITIAL_CREDITS :: "8 word" where "NX_TXQ_INITIAL_CREDITS = 64"
definition RWNX_NDEV_FLOW_CTRL_STOP :: nat where "RWNX_NDEV_FLOW_CTRL_STOP = 64"
definition RWNX_NDEV_FLOW_CTRL_RESTART :: nat where "RWNX_NDEV_FLOW_CTRL_RESTART = 64"

subsection \<open>State\<close>

text \<open>
  A buffer with its software descriptor (\<open>struct rwnx_sw_txhdr\<close>): \<open>tb_fc\<close> is the first byte of the
  frame, the other fields are named as in the code.  \<open>tb_iftype\<close> tells whether it is sent on a mesh
  interface.
\<close>

record tx_buf =
  tb_id :: nat
  tb_sta :: "nat option"
  tb_vif :: nat
  tb_mesh :: bool
  tb_txq :: nat
  tb_hwq :: nat
  tb_flags :: u16
  tb_ethertype :: u16
  tb_eth :: bytes
  tb_staid :: nat
  tb_tid :: u8
  tb_fc :: u8
  tb_payload :: bytes
  frame_len :: u16
  need_cfm :: bool
  raw_frame :: bool
  fixed_rate :: bool
  rate_config :: u16
  status_desc_addr :: u32

record rwnx_txq =
  idx :: nat
  status :: u8
  credits :: "8 word"
  pkt_sent :: u8
  pkt_pushed :: u8
  sk_list :: "tx_buf list"
  last_retry_skb :: "nat option"
  q_hwq :: nat
  nb_retry :: int
  push_limit :: u8
  q_tid :: nat
  q_sta :: "nat option"
  ps_id :: nat
  ndev_idx :: nat
  q_ndev :: nat

record rwnx_hwq =
  hlist :: "nat list"
  hsize :: nat
  need_processing :: bool

record tx_sta =
  sta_vif :: nat
  sta_mac :: bytes
  uapsd_tids :: u16
  sta_qos :: bool
  acm :: u8
  tdls_active :: bool
  chsw_en :: bool
  last_tid :: u8
  ps_active :: bool
  pkt_ready :: "nat \<Rightarrow> u16"
  sp_cnt :: "nat \<Rightarrow> u16"

datatype traffic_ind = Tdls_traffic nat | Me_traffic nat bool bool

text \<open>
  \<open>stopped\<close> are the stopped queues of the network interfaces, \<open>bus\<close> the frames handed to the USB layer,
  \<open>freed\<close> the frames thrown away, \<open>traffic\<close> the indications to the firmware.  \<open>tx_host_id\<close> and
  \<open>txdesc_free_idx\<close> are the ring of the frames whose confirmation is awaited (\<open>usb_host.c\<close>).
\<close>

record tx_hw =
  old_ic :: bool
  txqs :: "rwnx_txq list"
  hwqs :: "rwnx_hwq list"
  tx_stas :: "tx_sta list"
  tbusy :: bool
  stopped :: "(nat \<times> nat) set"
  bus :: "tx_buf list"
  freed :: "tx_buf list"
  traffic :: "traffic_ind list"
  tx_host_id :: "tx_buf option list"
  txdesc_free_idx :: u32
  txdesc_used_idx :: u32
  mgmt_status :: "(nat \<times> bool) list"

definition upd_txq :: "nat \<Rightarrow> (rwnx_txq \<Rightarrow> rwnx_txq) \<Rightarrow> tx_hw \<Rightarrow> tx_hw" where
  "upd_txq t f hw = hw\<lparr>txqs := (txqs hw)[t := f (txqs hw ! t)]\<rparr>"

definition upd_hwq :: "nat \<Rightarrow> (rwnx_hwq \<Rightarrow> rwnx_hwq) \<Rightarrow> tx_hw \<Rightarrow> tx_hw" where
  "upd_hwq h f hw = hw\<lparr>hwqs := (hwqs hw)[h := f (hwqs hw ! h)]\<rparr>"

definition upd_sta :: "nat \<Rightarrow> (tx_sta \<Rightarrow> tx_sta) \<Rightarrow> tx_hw \<Rightarrow> tx_hw" where
  "upd_sta s f hw = hw\<lparr>tx_stas := (tx_stas hw)[s := f (tx_stas hw ! s)]\<rparr>"

definition in_list :: "rwnx_txq \<Rightarrow> bool" where
  "in_list q \<longleftrightarrow> status q AND RWNX_TXQ_IN_HWQ_LIST \<noteq> 0"

definition rwnx_txq_is_stopped :: "rwnx_txq \<Rightarrow> bool" where
  "rwnx_txq_is_stopped q \<longleftrightarrow> status q AND RWNX_TXQ_STOP \<noteq> 0"

definition rwnx_txq_is_full :: "rwnx_txq \<Rightarrow> bool" where
  "rwnx_txq_is_full q \<longleftrightarrow> status q AND RWNX_TXQ_STOP_FULL \<noteq> 0"

definition rwnx_txq_sta_idx :: "bool \<Rightarrow> nat \<Rightarrow> tx_sta \<Rightarrow> nat \<Rightarrow> nat" where
  "rwnx_txq_sta_idx old s sta tid =
     (if is_multicast_sta old s then nx_first_vif_txq_idx old + sta_vif sta else s * NX_NB_TXQ_PER_STA + tid)"

definition rwnx_txq_vif_idx :: "bool \<Rightarrow> nat \<Rightarrow> nat \<Rightarrow> nat" where
  "rwnx_txq_vif_idx old master_vif type = nx_first_vif_txq_idx old + master_vif + type * NX_VIRT_DEVS"

definition rwnx_txq_sta_get :: "nat \<Rightarrow> nat \<Rightarrow> tx_hw \<Rightarrow> nat" where
  "rwnx_txq_sta_get s tid hw =
     rwnx_txq_sta_idx (old_ic hw) s (tx_stas hw ! s) (if NX_NB_TXQ_PER_STA \<le> tid then 0 else tid)"

definition rwnx_txq_vif_get :: "nat \<Rightarrow> nat \<Rightarrow> tx_hw \<Rightarrow> nat" where
  "rwnx_txq_vif_get master_vif type hw =
     rwnx_txq_vif_idx (old_ic hw) master_vif (if NX_UNK_TXQ_TYPE < type then NX_BCMC_TXQ_TYPE else type)"

definition foreach_sta_txq :: "nat \<Rightarrow> tx_hw \<Rightarrow> nat list" where
  "foreach_sta_txq s hw =
     map (\<lambda>i. rwnx_txq_sta_get s 0 hw + i) [0..<if is_multicast_sta (old_ic hw) s then 1 else NX_NB_TXQ_PER_STA]"

definition foreach_sta_txq_prio :: "nat \<Rightarrow> tx_hw \<Rightarrow> nat list" where
  "foreach_sta_txq_prio s hw = map (\<lambda>tid. rwnx_txq_sta_get s tid hw) nx_tid_prio"

subsection \<open>The lists of the hardware queues\<close>

definition rwnx_txq_add_to_hw_list :: "nat \<Rightarrow> tx_hw \<Rightarrow> tx_hw" where
  "rwnx_txq_add_to_hw_list t hw =
     (let q = txqs hw ! t in
      if in_list q then hw
      else upd_hwq (q_hwq q) (\<lambda>h. h\<lparr>hlist := hlist h @ [t], need_processing := True\<rparr>)
             (upd_txq t (\<lambda>q. q\<lparr>status := status q OR RWNX_TXQ_IN_HWQ_LIST\<rparr>) hw))"

text \<open>\<open>list_del\<close> takes the queue out of the list in which it is linked.\<close>

definition rwnx_txq_del_from_hw_list :: "nat \<Rightarrow> tx_hw \<Rightarrow> tx_hw" where
  "rwnx_txq_del_from_hw_list t hw =
     (if in_list (txqs hw ! t)
      then (upd_txq t (\<lambda>q. q\<lparr>status := status q AND NOT RWNX_TXQ_IN_HWQ_LIST\<rparr>) hw)
             \<lparr>hwqs := map (\<lambda>h. h\<lparr>hlist := remove1 t (hlist h)\<rparr>) (hwqs hw)\<rparr>
      else hw)"

definition rwnx_txq_skb_ready :: "rwnx_txq \<Rightarrow> bool" where
  "rwnx_txq_skb_ready q \<longleftrightarrow> sk_list q \<noteq> []"

definition rwnx_txq_start :: "nat \<Rightarrow> u8 \<Rightarrow> tx_hw \<Rightarrow> tx_hw" where
  "rwnx_txq_start t reason hw =
     (let q = txqs hw ! t in
      if idx q \<noteq> TXQ_INACTIVE \<and> status q AND reason \<noteq> 0 then
        (let hw1 = upd_txq t (\<lambda>q. q\<lparr>status := status q AND NOT reason\<rparr>) hw; q1 = txqs hw1 ! t in
         if \<not> rwnx_txq_is_stopped q1 \<and> rwnx_txq_skb_ready q1 then rwnx_txq_add_to_hw_list t hw1 else hw1)
      else hw)"

definition rwnx_txq_stop :: "nat \<Rightarrow> u8 \<Rightarrow> tx_hw \<Rightarrow> tx_hw" where
  "rwnx_txq_stop t reason hw =
     (if idx (txqs hw ! t) \<noteq> TXQ_INACTIVE
      then rwnx_txq_del_from_hw_list t (upd_txq t (\<lambda>q. q\<lparr>status := status q OR reason\<rparr>) hw)
      else hw)"

subsection \<open>Creation and removal\<close>

definition rwnx_txq_init :: "nat \<Rightarrow> u8 \<Rightarrow> nat \<Rightarrow> nat \<Rightarrow> nat option \<Rightarrow> nat \<Rightarrow> tx_hw \<Rightarrow> tx_hw" where
  "rwnx_txq_init i st hq tid sta ndev hw =
     upd_txq i (\<lambda>q. q\<lparr>idx := i, status := st, credits := NX_TXQ_INITIAL_CREDITS, pkt_sent := 0, sk_list := [],
         last_retry_skb := None, nb_retry := 0, q_hwq := hq, q_sta := sta, pkt_pushed := 0, push_limit := 0,
         q_tid := tid, ps_id := LEGACY_PS_ID,
         ndev_idx :=
           (if i < nx_first_vif_txq_idx (old_ic hw) then
              (let t = i - the sta * NX_NB_TXQ_PER_STA in
               if t < NX_NB_TID_PER_STA then NX_STA_NDEV_IDX t (the sta) else NDEV_NO_TXQ)
            else if i < nx_first_unk_txq_idx (old_ic hw) then nx_bcmc_txq_ndev_idx (old_ic hw)
            else NDEV_NO_TXQ),
         q_ndev := ndev\<rparr>) hw"

definition rwnx_txq_flush :: "nat \<Rightarrow> tx_hw \<Rightarrow> tx_hw" where
  "rwnx_txq_flush t hw =
     (upd_txq t (\<lambda>q. q\<lparr>sk_list := []\<rparr>) hw)\<lparr>freed := freed hw @ sk_list (txqs hw ! t)\<rparr>"

definition rwnx_txq_deinit :: "nat \<Rightarrow> tx_hw \<Rightarrow> tx_hw" where
  "rwnx_txq_deinit t hw =
     (if idx (txqs hw ! t) = TXQ_INACTIVE then hw
      else rwnx_txq_flush t (upd_txq t (\<lambda>q. q\<lparr>idx := TXQ_INACTIVE\<rparr>) (rwnx_txq_del_from_hw_list t hw)))"

definition rwnx_txq_unk_vif_init :: "nat \<Rightarrow> u8 \<Rightarrow> tx_hw \<Rightarrow> tx_hw" where
  "rwnx_txq_unk_vif_init vif st hw =
     rwnx_txq_init (rwnx_txq_vif_idx (old_ic hw) vif NX_UNK_TXQ_TYPE) st RWNX_HWQ_VO TID_MGT None vif hw"

definition rwnx_txq_vif_init :: "nat \<Rightarrow> nat \<Rightarrow> u8 \<Rightarrow> tx_hw \<Rightarrow> tx_hw" where
  "rwnx_txq_vif_init vif bcmc_index st hw =
     rwnx_txq_unk_vif_init vif st
       (rwnx_txq_init (rwnx_txq_vif_idx (old_ic hw) vif NX_BCMC_TXQ_TYPE) st RWNX_HWQ_BE 0 (Some bcmc_index) vif hw)"

definition rwnx_txq_unk_vif_deinit :: "nat \<Rightarrow> tx_hw \<Rightarrow> tx_hw" where
  "rwnx_txq_unk_vif_deinit vif hw = rwnx_txq_deinit (rwnx_txq_vif_get vif NX_UNK_TXQ_TYPE hw) hw"

definition rwnx_txq_vif_deinit :: "nat \<Rightarrow> tx_hw \<Rightarrow> tx_hw" where
  "rwnx_txq_vif_deinit vif hw =
     rwnx_txq_unk_vif_deinit vif (rwnx_txq_deinit (rwnx_txq_vif_get vif NX_BCMC_TXQ_TYPE hw) hw)"

definition sta_txq_init :: "nat \<Rightarrow> u8 \<Rightarrow> nat \<Rightarrow> tx_hw \<Rightarrow> tx_hw" where
  "sta_txq_init s st i hw =
     (let sta = tx_stas hw ! s; t = rwnx_txq_sta_get s 0 hw + i in
      upd_txq t (\<lambda>q. q\<lparr>ps_id := if bit (uapsd_tids sta) i then UAPSD_ID else LEGACY_PS_ID\<rparr>)
        (rwnx_txq_init t st (rwnx_tid2hwq ! i) i (Some s) (sta_vif sta) hw))"

definition rwnx_txq_sta_init :: "nat \<Rightarrow> u8 \<Rightarrow> tx_hw \<Rightarrow> tx_hw" where
  "rwnx_txq_sta_init s st hw =
     fold (sta_txq_init s st) [0..<if is_multicast_sta (old_ic hw) s then 1 else NX_NB_TXQ_PER_STA] hw"

definition rwnx_txq_sta_deinit :: "nat \<Rightarrow> tx_hw \<Rightarrow> tx_hw" where
  "rwnx_txq_sta_deinit s hw = fold rwnx_txq_deinit (foreach_sta_txq s hw) hw"

definition rwnx_txq_offchan_init :: "nat \<Rightarrow> tx_hw \<Rightarrow> tx_hw" where
  "rwnx_txq_offchan_init vif hw =
     rwnx_txq_init (nx_off_chan_txq_idx (old_ic hw)) RWNX_TXQ_STOP_CHAN RWNX_HWQ_VO TID_MGT None vif hw"

definition rwnx_txq_offchan_deinit :: "tx_hw \<Rightarrow> tx_hw" where
  "rwnx_txq_offchan_deinit hw = rwnx_txq_deinit (nx_off_chan_txq_idx (old_ic hw)) hw"

subsection \<open>Stations and interfaces\<close>

definition rwnx_txq_sta_start :: "u8 \<Rightarrow> nat \<Rightarrow> tx_hw \<Rightarrow> tx_hw" where
  "rwnx_txq_sta_start reason s hw = fold (\<lambda>t. rwnx_txq_start t reason) (foreach_sta_txq s hw) hw"

definition rwnx_txq_sta_stop :: "u8 \<Rightarrow> nat \<Rightarrow> tx_hw \<Rightarrow> tx_hw" where
  "rwnx_txq_sta_stop reason s hw = fold (\<lambda>t. rwnx_txq_stop t reason) (foreach_sta_txq s hw) hw"

text \<open>What the functions for interfaces read of \<open>struct rwnx_vif\<close>.\<close>

datatype vif_iftype =
  VIF_STATION | VIF_P2P_CLIENT | VIF_AP | VIF_P2P_GO | VIF_AP_VLAN | VIF_MESH_POINT | VIF_MONITOR | VIF_OTHER

record tx_vif =
  v_index :: nat
  v_type :: vif_iftype
  v_master :: nat
  v_ap :: "nat option"
  v_tdls_sta :: "nat option"
  v_tdls_active :: bool
  v_roc_tdls :: bool
  v_sta_list :: "nat list"
  v_bcmc_index :: nat
  v_sta_4a :: "nat option"
  v_use_4addr :: bool
  v_is_resending :: bool
  v_perm_addr :: bytes
  v_proxies :: "(bytes \<times> bytes \<times> bool) list"
  v_mpaths :: "(bytes \<times> nat option) list"
  v_csa :: "u8 option"

definition master_vif_idx :: "tx_vif \<Rightarrow> nat" where
  "master_vif_idx vif = (if v_type vif = VIF_AP_VLAN then v_master vif else v_index vif)"

text \<open>
  The stations of an interface; for an AP VLAN \<open>v_sta_list\<close> is the list of its master.  A missing access
  point only triggers a warning.
\<close>

definition vif_stas :: "tx_vif \<Rightarrow> nat list tx_result" where
  "vif_stas vif =
     (case v_type vif of
        VIF_STATION \<Rightarrow>
          (if v_tdls_active vif
           then (case v_tdls_sta vif of
                   None \<Rightarrow> Inl Tx_null | Some s \<Rightarrow> Inr (s # (case v_ap vif of None \<Rightarrow> [] | Some a \<Rightarrow> [a])))
           else Inr (case v_ap vif of None \<Rightarrow> [] | Some a \<Rightarrow> [a]))
      | VIF_P2P_CLIENT \<Rightarrow>
          (if v_tdls_active vif
           then (case v_tdls_sta vif of
                   None \<Rightarrow> Inl Tx_null | Some s \<Rightarrow> Inr (s # (case v_ap vif of None \<Rightarrow> [] | Some a \<Rightarrow> [a])))
           else Inr (case v_ap vif of None \<Rightarrow> [] | Some a \<Rightarrow> [a]))
      | VIF_AP_VLAN \<Rightarrow> Inr (v_sta_list vif)
      | VIF_AP \<Rightarrow> Inr (v_sta_list vif)
      | VIF_MESH_POINT \<Rightarrow> Inr (v_sta_list vif)
      | VIF_P2P_GO \<Rightarrow> Inr (v_sta_list vif)
      | _ \<Rightarrow> Inl Tx_bug)"

definition rwnx_txq_vif_for_each_sta :: "tx_vif \<Rightarrow> (nat \<Rightarrow> tx_hw \<Rightarrow> tx_hw) \<Rightarrow> tx_hw \<Rightarrow> tx_hw tx_result" where
  "rwnx_txq_vif_for_each_sta vif f hw = bind_tx (vif_stas vif) (\<lambda>ss. Inr (fold f ss hw))"

definition rwnx_txq_vif_start :: "tx_vif \<Rightarrow> u8 \<Rightarrow> tx_hw \<Rightarrow> tx_hw tx_result" where
  "rwnx_txq_vif_start vif reason hw =
     (if v_type vif = VIF_MONITOR then Inr hw
      else
        (let hw1 =
           (case v_tdls_sta vif of
              None \<Rightarrow> hw
            | Some s \<Rightarrow> if v_roc_tdls vif \<and> chsw_en (tx_stas hw ! s) then rwnx_txq_sta_start reason s hw else hw)
         in bind_tx (if v_roc_tdls vif then Inr hw1
                     else rwnx_txq_vif_for_each_sta vif (rwnx_txq_sta_start reason) hw1) (\<lambda>hw2.
              Inr (rwnx_txq_start (rwnx_txq_vif_get (master_vif_idx vif) NX_UNK_TXQ_TYPE hw2) reason
                    (rwnx_txq_start (rwnx_txq_vif_get (master_vif_idx vif) NX_BCMC_TXQ_TYPE hw2) reason hw2)))))"

definition rwnx_txq_vif_stop :: "tx_vif \<Rightarrow> u8 \<Rightarrow> tx_hw \<Rightarrow> tx_hw tx_result" where
  "rwnx_txq_vif_stop vif reason hw =
     (if v_type vif = VIF_MONITOR then Inr hw
      else
        bind_tx (rwnx_txq_vif_for_each_sta vif (rwnx_txq_sta_stop reason) hw) (\<lambda>hw1.
          Inr (rwnx_txq_stop (rwnx_txq_vif_get (master_vif_idx vif) NX_UNK_TXQ_TYPE hw1) reason
                (rwnx_txq_stop (rwnx_txq_vif_get (master_vif_idx vif) NX_BCMC_TXQ_TYPE hw1) reason hw1))))"

definition rwnx_txq_tdls_sta_start :: "tx_vif \<Rightarrow> u8 \<Rightarrow> tx_hw \<Rightarrow> tx_hw" where
  "rwnx_txq_tdls_sta_start vif reason hw =
     (case v_tdls_sta vif of None \<Rightarrow> hw | Some s \<Rightarrow> rwnx_txq_sta_start reason s hw)"

definition rwnx_txq_tdls_sta_stop :: "tx_vif \<Rightarrow> u8 \<Rightarrow> tx_hw \<Rightarrow> tx_hw" where
  "rwnx_txq_tdls_sta_stop vif reason hw =
     (case v_tdls_sta vif of None \<Rightarrow> hw | Some s \<Rightarrow> rwnx_txq_sta_stop reason s hw)"

definition rwnx_txq_offchan_start :: "tx_hw \<Rightarrow> tx_hw" where
  "rwnx_txq_offchan_start hw = rwnx_txq_start (nx_off_chan_txq_idx (old_ic hw)) RWNX_TXQ_STOP_CHAN hw"

definition rwnx_txq_sta_switch_vif :: "nat \<Rightarrow> nat \<Rightarrow> tx_hw \<Rightarrow> tx_hw" where
  "rwnx_txq_sta_switch_vif s new_vif hw =
     fold (\<lambda>i hw. let t = rwnx_txq_sta_get s 0 hw + i in
              (upd_txq t (\<lambda>q. q\<lparr>q_ndev := new_vif\<rparr>) hw)
                \<lparr>stopped := stopped hw - {(new_vif, ndev_idx (txqs hw ! t))}\<rparr>)
       [0..<NX_NB_TID_PER_STA] hw"

subsection \<open>Queueing a frame\<close>

definition rwnx_set_traffic_status :: "nat \<Rightarrow> bool \<Rightarrow> nat \<Rightarrow> tx_hw \<Rightarrow> tx_hw" where
  "rwnx_set_traffic_status s available ps hw =
     hw\<lparr>traffic := traffic hw @
       [if tdls_active (tx_stas hw ! s) then Tdls_traffic (sta_vif (tx_stas hw ! s))
        else Me_traffic s (ps \<noteq> LEGACY_PS_ID) available]\<rparr>"

text \<open>\<open>rwnx_skb_append\<close>; when the old buffer is not in the list the new one is lost.\<close>

fun insert_after :: "nat \<Rightarrow> tx_buf \<Rightarrow> tx_buf list \<Rightarrow> tx_buf list" where
  "insert_after i b [] = []"
| "insert_after i b (x # xs) = (if tb_id x = i then x # b # xs else x # insert_after i b xs)"

text \<open>The power save counter of the receiver.\<close>

definition count_ready :: "nat \<Rightarrow> tx_hw \<Rightarrow> tx_hw" where
  "count_ready t hw =
     (let q = txqs hw ! t in
      case q_sta q of
        None \<Rightarrow> hw
      | Some s \<Rightarrow>
          if ps_active (tx_stas hw ! s) then
            (let hw1 = upd_sta s (\<lambda>st. st\<lparr>pkt_ready := (pkt_ready st)(ps_id q := pkt_ready st (ps_id q) + 1)\<rparr>) hw
             in if pkt_ready (tx_stas hw1 ! s) (ps_id q) = 1 then rwnx_set_traffic_status s True (ps_id q) hw1
                else hw1)
          else hw)"

definition enqueue :: "tx_buf \<Rightarrow> bool \<Rightarrow> rwnx_txq \<Rightarrow> rwnx_txq" where
  "enqueue b retry q =
     (if \<not> retry then q\<lparr>sk_list := sk_list q @ [b]\<rparr>
      else
        q\<lparr>sk_list := (case last_retry_skb q of
                         Some i \<Rightarrow> insert_after i b (sk_list q) | None \<Rightarrow> b # sk_list q),
          last_retry_skb := Some (tb_id b), nb_retry := nb_retry q + 1\<rparr>)"

text \<open>The queue of the network interface is stopped when more than 64 frames wait.\<close>

definition ndev_flow_stop :: "nat \<Rightarrow> tx_hw \<Rightarrow> tx_hw" where
  "ndev_flow_stop t hw =
     (let q = txqs hw ! t in
      if ndev_idx q \<noteq> NDEV_NO_TXQ \<and> \<not> tbusy hw \<and> RWNX_NDEV_FLOW_CTRL_STOP < length (sk_list q)
      then (upd_txq t (\<lambda>q. q\<lparr>status := status q OR RWNX_TXQ_NDEV_FLOW_CTRL\<rparr>) hw)
             \<lparr>stopped := insert (q_ndev q, ndev_idx q) (stopped hw)\<rparr>
      else hw)"

definition rwnx_txq_queue_skb :: "tx_buf \<Rightarrow> nat \<Rightarrow> bool \<Rightarrow> tx_hw \<Rightarrow> bool \<times> tx_hw" where
  "rwnx_txq_queue_skb b t retry hw =
     (let hw1 = ndev_flow_stop t (upd_txq t (enqueue b retry) (count_ready t hw))
      in if rwnx_txq_is_stopped (txqs hw1 ! t) then (False, hw1) else (True, rwnx_txq_add_to_hw_list t hw1))"

definition rwnx_txq_confirm_any :: "nat \<Rightarrow> nat \<Rightarrow> tx_hw \<Rightarrow> tx_hw" where
  "rwnx_txq_confirm_any t h hw =
     upd_hwq h (\<lambda>h. h\<lparr>need_processing := True\<rparr>)
       (upd_txq t (\<lambda>q. if pkt_pushed q \<noteq> 0 then q\<lparr>pkt_pushed := pkt_pushed q - 1\<rparr> else q) hw)"

subsection \<open>Pushing frames\<close>

definition TXU_CNTRL_RETRY :: u16 where "TXU_CNTRL_RETRY = 0x0001"
definition TXU_CNTRL_MORE_DATA :: u16 where "TXU_CNTRL_MORE_DATA = 0x0004"
definition TXU_CNTRL_MGMT :: u16 where "TXU_CNTRL_MGMT = 0x0008"
definition TXU_CNTRL_MGMT_NO_CCK :: u16 where "TXU_CNTRL_MGMT_NO_CCK = 0x0010"
definition TXU_CNTRL_MGMT_ROBUST :: u16 where "TXU_CNTRL_MGMT_ROBUST = 0x0080"
definition TXU_CNTRL_USE_4ADDR :: u16 where "TXU_CNTRL_USE_4ADDR = 0x0100"
definition TXU_CNTRL_EOSP :: u16 where "TXU_CNTRL_EOSP = 0x0200"
definition TXU_CNTRL_MESH_FWD :: u16 where "TXU_CNTRL_MESH_FWD = 0x0400"
definition TXU_CNTRL_TDLS :: u16 where "TXU_CNTRL_TDLS = 0x0800"

lemmas txu_defs = TXU_CNTRL_RETRY_def TXU_CNTRL_MORE_DATA_def TXU_CNTRL_MGMT_def TXU_CNTRL_MGMT_NO_CCK_def
  TXU_CNTRL_MGMT_ROBUST_def TXU_CNTRL_USE_4ADDR_def TXU_CNTRL_EOSP_def TXU_CNTRL_MESH_FWD_def TXU_CNTRL_TDLS_def

definition rwnx_set_more_data_flag :: "nat \<Rightarrow> tx_buf \<Rightarrow> tx_hw \<Rightarrow> tx_buf \<times> tx_hw" where
  "rwnx_set_more_data_flag s b hw =
     (let i = ps_id (txqs hw ! tb_txq b) in
      if ps_active (tx_stas hw ! s) then
        (let hw1 = upd_sta s (\<lambda>st. st\<lparr>pkt_ready := (pkt_ready st)(i := pkt_ready st i - 1),
                                       sp_cnt := (sp_cnt st)(i := sp_cnt st i - 1)\<rparr>) hw;
             st1 = tx_stas hw1 ! s;
             b1 = (if (i = UAPSD_ID \<or> tb_mesh b \<or> tdls_active st1) \<and> sp_cnt st1 i = 0
                   then b\<lparr>tb_flags := tb_flags b OR TXU_CNTRL_EOSP\<rparr> else b)
         in if pkt_ready st1 i \<noteq> 0 then (b1\<lparr>tb_flags := tb_flags b1 OR TXU_CNTRL_MORE_DATA\<rparr>, hw1)
            else (b1, rwnx_set_traffic_status s False i hw1))
      else (b, hw))"

definition USB_TXDESC_CNT :: nat where "USB_TXDESC_CNT = 64"

definition aicwf_usb_host_txdesc_push :: "tx_buf \<Rightarrow> tx_hw \<Rightarrow> tx_hw" where
  "aicwf_usb_host_txdesc_push b hw =
     (let free = txdesc_free_idx hw in
      hw\<lparr>tx_host_id := (tx_host_id hw)[unat free mod USB_TXDESC_CNT := Some b],
         txdesc_free_idx := (if free + 1 = 0x40000000 then 0 else free + 1)\<rparr>)"

text \<open>Management frames that need an answer, EAPOL and WAPI frames are confirmed.\<close>

definition needs_cfm :: "tx_buf \<Rightarrow> bool" where
  "needs_cfm b \<longleftrightarrow>
     tb_flags b AND TXU_CNTRL_MGMT \<noteq> 0 \<and> (tb_fc b = 0xd0 \<or> tb_fc b = 0x10 \<or> tb_fc b = 0x30) \<or>
     tb_ethertype b = 0x8e88 \<or> tb_ethertype b = 0xb488"

definition to_bus :: "tx_buf \<Rightarrow> tx_hw \<Rightarrow> tx_hw" where
  "to_bus b hw =
     (if needs_cfm b then
        (let b1 = b\<lparr>need_cfm := True, status_desc_addr := 0x80000000 OR txdesc_free_idx hw\<rparr>;
             hw1 = aicwf_usb_host_txdesc_push b1 hw
         in hw1\<lparr>bus := bus hw1 @ [b1]\<rparr>)
      else
        (let b1 = b\<lparr>need_cfm := False,
                    tb_flags := (if raw_frame b then tb_flags b OR TXU_CNTRL_MGMT else tb_flags b),
                    status_desc_addr := (if fixed_rate b then 0x40000000 OR ucast (rate_config b) else 0)\<rparr>
         in hw\<lparr>bus := bus hw @ [b1]\<rparr>))"

definition count_push :: "rwnx_txq \<Rightarrow> rwnx_txq" where
  "count_push q =
     (if nb_retry q \<noteq> 0
      then q\<lparr>nb_retry := nb_retry q - 1, last_retry_skb := (if nb_retry q = 1 then None else last_retry_skb q)\<rparr>
      else q\<lparr>pkt_sent := pkt_sent q + 1\<rparr>)"

definition count_pushed :: "rwnx_txq \<Rightarrow> rwnx_txq" where
  "count_pushed q =
     q\<lparr>pkt_pushed := pkt_pushed q + 1, push_limit := (if push_limit q \<noteq> 0 then push_limit q - 1 else 0)\<rparr>"

definition rwnx_tx_push :: "tx_buf \<Rightarrow> tx_hw \<Rightarrow> tx_hw" where
  "rwnx_tx_push b hw =
     (let t = tb_txq b;
          b1 = b\<lparr>tb_hwq := q_hwq (txqs hw ! t)\<rparr>;
          hw1 = upd_txq t count_push hw;
          r = (case tb_sta b of None \<Rightarrow> (b1, hw1) | Some s \<Rightarrow> rwnx_set_more_data_flag s b1 hw1)
      in to_bus (fst r) (upd_txq t count_pushed (snd r)))"

subsection \<open>Processing a hardware queue\<close>

definition rwnx_txq_get_credits :: "rwnx_txq \<Rightarrow> int" where
  "rwnx_txq_get_credits q =
     (if push_limit q \<noteq> 0 \<and> int (unat (push_limit q)) < sint (credits q)
      then sint (push_limit q) else sint (credits q))"

text \<open>How many frames to push, and whether the queue leaves the list afterwards.\<close>

definition rwnx_txq_get_skb_to_push :: "rwnx_txq \<Rightarrow> nat \<times> bool" where
  "rwnx_txq_get_skb_to_push q =
     (let nb_ready = length (sk_list q); c = rwnx_txq_get_credits q in
      if int nb_ready \<le> c then (nb_ready, True)
      else (nat c, push_limit q \<noteq> 0 \<and> c = int (unat (push_limit q))))"

definition ndev_flow_restart :: "nat \<Rightarrow> tx_hw \<Rightarrow> tx_hw" where
  "ndev_flow_restart t hw =
     (let q = txqs hw ! t in
      if status q AND RWNX_TXQ_NDEV_FLOW_CTRL \<noteq> 0 \<and> length (sk_list q) < RWNX_NDEV_FLOW_CTRL_RESTART
      then (upd_txq t (\<lambda>q. q\<lparr>status := status q AND NOT RWNX_TXQ_NDEV_FLOW_CTRL\<rparr>) hw)
             \<lparr>stopped := (if tbusy hw then stopped hw else stopped hw - {(q_ndev q, ndev_idx q)})\<rparr>
      else hw)"

text \<open>A service period for legacy power save that could not be completed is given up.\<close>

definition abort_sp :: "nat \<Rightarrow> tx_hw \<Rightarrow> tx_hw" where
  "abort_sp t hw =
     (let q = txqs hw ! t in
      case q_sta q of
        Some s \<Rightarrow>
          if push_limit q \<noteq> 0 \<and> ps_id q = LEGACY_PS_ID then
            upd_txq t (\<lambda>q. q\<lparr>push_limit := 0\<rparr>)
              (upd_sta s (\<lambda>st. st\<lparr>sp_cnt := (sp_cnt st)(ps_id q := sp_cnt st (ps_id q) - ucast (push_limit q))\<rparr>) hw)
          else hw
      | None \<Rightarrow> hw)"

definition leave_or_rotate :: "nat \<Rightarrow> nat \<Rightarrow> bool \<Rightarrow> tx_hw \<Rightarrow> tx_hw" where
  "leave_or_rotate h t emptied hw =
     (if emptied then upd_txq t (\<lambda>q. q\<lparr>pkt_sent := 0\<rparr>) (rwnx_txq_del_from_hw_list t hw)
      else if in_list (txqs hw ! t) \<and> hsize (hwqs hw ! h) < unat (pkt_sent (txqs hw ! t))
      then upd_hwq h (\<lambda>h. h\<lparr>hlist := rotate1 (hlist h)\<rparr>) (upd_txq t (\<lambda>q. q\<lparr>pkt_sent := 0\<rparr>) hw)
      else hw)"

definition process_txq :: "nat \<Rightarrow> nat \<Rightarrow> tx_hw \<Rightarrow> tx_hw tx_result" where
  "process_txq h t hw =
     (if length (txqs hw) \<le> t then Inl Tx_index
      else
        (let q = txqs hw ! t in
         if \<not> in_list q then Inl Tx_bug
         else if idx q = TXQ_INACTIVE then Inr (rwnx_txq_flush t (rwnx_txq_del_from_hw_list t hw))
         else if credits q <=s 0 \<or> \<not> rwnx_txq_skb_ready q then Inl Tx_bug
         else
           (let (n, emptied) = rwnx_txq_get_skb_to_push q;
                hw1 = upd_txq t (\<lambda>q. q\<lparr>sk_list := List.drop n (sk_list q)\<rparr>) hw;
                hw2 = fold rwnx_tx_push (take n (sk_list q)) hw1
            in Inr (ndev_flow_restart t (abort_sp t (leave_or_rotate h t emptied hw2))))))"

text \<open>The element after \<open>t\<close>, \<open>None\<close> at the end of the list.\<close>

fun next_in :: "nat \<Rightarrow> nat list \<Rightarrow> nat option" where
  "next_in t [] = None"
| "next_in t (x # xs) = (if x = t then (case xs of [] \<Rightarrow> None | y # _ \<Rightarrow> Some y) else next_in t xs)"

subsection \<open>Bits of the status\<close>

lemma and_not_and: "(s AND NOT m) AND k = s AND (NOT m AND k)" for s :: u8
  by (simp add: and.assoc)

lemma or_and: "(s OR m) AND k = (s AND k) OR (m AND k)" for s :: u8
  by (rule bit.conj_disj_distrib2)

lemma status_bits:
  "(s AND NOT RWNX_TXQ_IN_HWQ_LIST) AND RWNX_TXQ_IN_HWQ_LIST = 0"
  "(s OR RWNX_TXQ_IN_HWQ_LIST) AND RWNX_TXQ_IN_HWQ_LIST \<noteq> 0"
  "(s AND NOT RWNX_TXQ_IN_HWQ_LIST) AND RWNX_TXQ_STOP = s AND RWNX_TXQ_STOP"
  "(s OR RWNX_TXQ_IN_HWQ_LIST) AND RWNX_TXQ_STOP = s AND RWNX_TXQ_STOP"
  "(s AND NOT RWNX_TXQ_IN_HWQ_LIST) AND RWNX_TXQ_STOP_STA_PS = s AND RWNX_TXQ_STOP_STA_PS"
  "(s OR RWNX_TXQ_IN_HWQ_LIST) AND RWNX_TXQ_STOP_STA_PS = s AND RWNX_TXQ_STOP_STA_PS"
  "(s AND NOT RWNX_TXQ_NDEV_FLOW_CTRL) AND RWNX_TXQ_IN_HWQ_LIST = s AND RWNX_TXQ_IN_HWQ_LIST"
  "(s OR RWNX_TXQ_NDEV_FLOW_CTRL) AND RWNX_TXQ_IN_HWQ_LIST = s AND RWNX_TXQ_IN_HWQ_LIST"
  "(s AND NOT RWNX_TXQ_NDEV_FLOW_CTRL) AND RWNX_TXQ_STOP = s AND RWNX_TXQ_STOP"
  "(s OR RWNX_TXQ_NDEV_FLOW_CTRL) AND RWNX_TXQ_STOP = s AND RWNX_TXQ_STOP"
  "(s AND NOT RWNX_TXQ_NDEV_FLOW_CTRL) AND RWNX_TXQ_STOP_STA_PS = s AND RWNX_TXQ_STOP_STA_PS"
  "(s OR RWNX_TXQ_NDEV_FLOW_CTRL) AND RWNX_TXQ_STOP_STA_PS = s AND RWNX_TXQ_STOP_STA_PS"
proof -
  show "(s OR RWNX_TXQ_IN_HWQ_LIST) AND RWNX_TXQ_IN_HWQ_LIST \<noteq> 0"
    by (simp only: or_and RWNX_TXQ_IN_HWQ_LIST_def) (simp add: or_eq_0_iff)
qed (simp_all only: and_not_and or_and RWNX_TXQ_STOP_eq status_defs, simp_all)

lemma masks_not_0 [simp]: "RWNX_TXQ_IN_HWQ_LIST \<noteq> 0" "RWNX_TXQ_STOP \<noteq> 0" "RWNX_TXQ_STOP_STA_PS \<noteq> 0"
  by (simp_all add: RWNX_TXQ_STOP_eq status_defs)

text \<open>A reason to stop a queue.\<close>

definition stop_reason :: "u8 \<Rightarrow> bool" where
  "stop_reason r \<longleftrightarrow> r AND RWNX_TXQ_STOP = r \<and> r \<noteq> 0"

lemma stop_reason_bits:
  assumes "stop_reason r"
  shows "(s AND NOT r) AND RWNX_TXQ_IN_HWQ_LIST = s AND RWNX_TXQ_IN_HWQ_LIST"
    "(s OR r) AND RWNX_TXQ_IN_HWQ_LIST = s AND RWNX_TXQ_IN_HWQ_LIST"
    "(s OR r) AND RWNX_TXQ_STOP \<noteq> 0"
proof -
  have r: "r AND RWNX_TXQ_STOP = r" "r \<noteq> 0" using assms by (simp_all add: stop_reason_def)
  have "r AND RWNX_TXQ_IN_HWQ_LIST = (r AND RWNX_TXQ_STOP) AND RWNX_TXQ_IN_HWQ_LIST" using r(1) by simp
  also have "\<dots> = 0" by (simp add: and.assoc RWNX_TXQ_STOP_eq RWNX_TXQ_IN_HWQ_LIST_def)
  finally have z: "r AND RWNX_TXQ_IN_HWQ_LIST = 0" .
  then have "NOT r AND RWNX_TXQ_IN_HWQ_LIST = RWNX_TXQ_IN_HWQ_LIST"
    by (intro bit_word_eqI) (auto simp: bit_eq_iff bit_simps)
  then show "(s AND NOT r) AND RWNX_TXQ_IN_HWQ_LIST = s AND RWNX_TXQ_IN_HWQ_LIST"
    by (simp add: and_not_and)
  show "(s OR r) AND RWNX_TXQ_IN_HWQ_LIST = s AND RWNX_TXQ_IN_HWQ_LIST"
    using z by (simp add: or_and)
  show "(s OR r) AND RWNX_TXQ_STOP \<noteq> 0"
    using r by (simp add: or_and or_eq_0_iff)
qed

subsection \<open>Termination\<close>

text \<open>Every turn of the loop pushes a frame or takes an inactive queue out of the lists.\<close>

definition buffered :: "tx_hw \<Rightarrow> nat" where
  "buffered hw = sum_list (map (\<lambda>q. length (sk_list q)) (txqs hw))"

definition listed :: "tx_hw \<Rightarrow> nat" where
  "listed hw = count_if in_list (txqs hw)"

lemma upd_txq_simps [simp]:
  "hwqs (upd_txq t f hw) = hwqs hw" "tx_stas (upd_txq t f hw) = tx_stas hw" "old_ic (upd_txq t f hw) = old_ic hw"
  "length (txqs (upd_txq t f hw)) = length (txqs hw)" "tbusy (upd_txq t f hw) = tbusy hw"
  "stopped (upd_txq t f hw) = stopped hw" "bus (upd_txq t f hw) = bus hw" "freed (upd_txq t f hw) = freed hw"
  "traffic (upd_txq t f hw) = traffic hw" "tx_host_id (upd_txq t f hw) = tx_host_id hw"
  "txdesc_free_idx (upd_txq t f hw) = txdesc_free_idx hw"
  by (simp_all add: upd_txq_def)

lemma upd_hwq_simps [simp]:
  "txqs (upd_hwq h g hw) = txqs hw" "tx_stas (upd_hwq h g hw) = tx_stas hw" "old_ic (upd_hwq h g hw) = old_ic hw"
  "length (hwqs (upd_hwq h g hw)) = length (hwqs hw)" "tbusy (upd_hwq h g hw) = tbusy hw"
  "stopped (upd_hwq h g hw) = stopped hw" "bus (upd_hwq h g hw) = bus hw" "freed (upd_hwq h g hw) = freed hw"
  "traffic (upd_hwq h g hw) = traffic hw" "tx_host_id (upd_hwq h g hw) = tx_host_id hw"
  "txdesc_free_idx (upd_hwq h g hw) = txdesc_free_idx hw"
  by (simp_all add: upd_hwq_def)

lemma upd_sta_simps [simp]:
  "txqs (upd_sta s k hw) = txqs hw" "hwqs (upd_sta s k hw) = hwqs hw" "old_ic (upd_sta s k hw) = old_ic hw"
  "length (tx_stas (upd_sta s k hw)) = length (tx_stas hw)" "tbusy (upd_sta s k hw) = tbusy hw"
  "stopped (upd_sta s k hw) = stopped hw" "bus (upd_sta s k hw) = bus hw" "freed (upd_sta s k hw) = freed hw"
  "traffic (upd_sta s k hw) = traffic hw" "tx_host_id (upd_sta s k hw) = tx_host_id hw"
  "txdesc_free_idx (upd_sta s k hw) = txdesc_free_idx hw"
  by (simp_all add: upd_sta_def)

lemma set_traffic_simps [simp]:
  "txqs (rwnx_set_traffic_status s a i hw) = txqs hw" "hwqs (rwnx_set_traffic_status s a i hw) = hwqs hw"
  "tx_stas (rwnx_set_traffic_status s a i hw) = tx_stas hw" "old_ic (rwnx_set_traffic_status s a i hw) = old_ic hw"
  "bus (rwnx_set_traffic_status s a i hw) = bus hw" "freed (rwnx_set_traffic_status s a i hw) = freed hw"
  by (simp_all add: rwnx_set_traffic_status_def)

lemma upd_txq_nth: "u < length (txqs hw) \<Longrightarrow>
    txqs (upd_txq t f hw) ! u = (if u = t then f (txqs hw ! u) else txqs hw ! u)"
  by (simp add: upd_txq_def)

lemma upd_txq_same [simp]: "t < length (txqs hw) \<Longrightarrow> txqs (upd_txq t f hw) ! t = f (txqs hw ! t)"
  by (simp add: upd_txq_nth)

lemma upd_hwq_nth: "u < length (hwqs hw) \<Longrightarrow>
    hwqs (upd_hwq t f hw) ! u = (if u = t then f (hwqs hw ! u) else hwqs hw ! u)"
  by (simp add: upd_hwq_def)

lemma upd_sta_nth: "u < length (tx_stas hw) \<Longrightarrow>
    tx_stas (upd_sta t f hw) ! u = (if u = t then f (tx_stas hw ! u) else tx_stas hw ! u)"
  by (simp add: upd_sta_def)

text \<open>What a push leaves alone: everything but the counters of the queue.\<close>

definition q_core :: "rwnx_txq \<Rightarrow> nat \<times> u8 \<times> u8 \<times> tx_buf list \<times> nat \<times> nat option \<times> nat \<times> nat \<times> nat \<times> nat" where
  "q_core q = (idx q, status q, credits q, sk_list q, q_hwq q, q_sta q, ps_id q, ndev_idx q, q_ndev q, q_tid q)"

lemma to_bus_simps [simp]:
  "txqs (to_bus b hw) = txqs hw" "hwqs (to_bus b hw) = hwqs hw" "tx_stas (to_bus b hw) = tx_stas hw"
  "old_ic (to_bus b hw) = old_ic hw" "freed (to_bus b hw) = freed hw"
  by (simp_all add: to_bus_def aicwf_usb_host_txdesc_push_def Let_def)

lemma more_data_simps [simp]:
  "txqs (snd (rwnx_set_more_data_flag s b hw)) = txqs hw" "hwqs (snd (rwnx_set_more_data_flag s b hw)) = hwqs hw"
  "old_ic (snd (rwnx_set_more_data_flag s b hw)) = old_ic hw" "bus (snd (rwnx_set_more_data_flag s b hw)) = bus hw"
  "length (tx_stas (snd (rwnx_set_more_data_flag s b hw))) = length (tx_stas hw)"
  "freed (snd (rwnx_set_more_data_flag s b hw)) = freed hw"
  by (simp_all add: rwnx_set_more_data_flag_def Let_def)

lemma push_txqs: "txqs (rwnx_tx_push b hw) = (txqs hw)[tb_txq b := count_pushed (count_push (txqs hw ! tb_txq b))]"
  by (cases "tb_txq b < length (txqs hw)")
    (simp_all add: rwnx_tx_push_def Let_def upd_txq_def list_update_beyond split: option.split)

lemma push_simps [simp]:
  "hwqs (rwnx_tx_push b hw) = hwqs hw" "old_ic (rwnx_tx_push b hw) = old_ic hw"
  "length (txqs (rwnx_tx_push b hw)) = length (txqs hw)"
  "length (tx_stas (rwnx_tx_push b hw)) = length (tx_stas hw)" "freed (rwnx_tx_push b hw) = freed hw"
  by (simp_all add: rwnx_tx_push_def Let_def split: option.split)

lemma q_core_count [simp]: "q_core (count_pushed (count_push q)) = q_core q"
  by (simp add: q_core_def count_pushed_def count_push_def)

lemma q_core_eq: "q_core q = q_core q' \<Longrightarrow> idx q = idx q' \<and> status q = status q' \<and> credits q = credits q' \<and>
    sk_list q = sk_list q' \<and> q_hwq q = q_hwq q' \<and> q_sta q = q_sta q' \<and> ps_id q = ps_id q' \<and> ndev_idx q = ndev_idx q'"
  by (simp add: q_core_def)

lemma push_core: "map q_core (txqs (rwnx_tx_push b hw)) = map q_core (txqs hw)"
proof (cases "tb_txq b < length (txqs hw)")
  case True
  then show ?thesis by (intro nth_equalityI) (simp_all add: push_txqs nth_list_update)
qed (simp add: push_txqs list_update_beyond)

lemma push_fold_core:
  "map q_core (txqs (fold rwnx_tx_push bs hw)) = map q_core (txqs hw)"
  "hwqs (fold rwnx_tx_push bs hw) = hwqs hw" "length (txqs (fold rwnx_tx_push bs hw)) = length (txqs hw)"
  by (induction bs arbitrary: hw) (simp_all add: push_core)

lemma core_measure:
  assumes "map q_core qs = map q_core qs'"
  shows "map (\<lambda>q. length (sk_list q)) qs = map (\<lambda>q. length (sk_list q)) qs'" "count_if in_list qs = count_if in_list qs'"
proof -
  have l: "length qs = length qs'" using assms by (metis length_map)
  have n: "q_core (qs ! i) = q_core (qs' ! i)" if "i < length qs" for i
    using assms that l by (metis nth_map)
  show "map (\<lambda>q. length (sk_list q)) qs = map (\<lambda>q. length (sk_list q)) qs'"
    using l q_core_eq [OF n] by (auto intro!: nth_equalityI)
  have "map in_list qs = map in_list qs'"
    using l q_core_eq [OF n] by (auto intro!: nth_equalityI simp: in_list_def)
  then have "length (filter id (map in_list qs)) = length (filter id (map in_list qs'))" by simp
  then show "count_if in_list qs = count_if in_list qs'"
    by (simp add: count_if_def filter_map comp_def)
qed

lemma sint_small: "uint x < 128 \<Longrightarrow> sint x = uint x" for x :: u8
proof -
  assume "uint x < 128"
  then have "signed_take_bit 7 (uint x) = uint x"
    by (intro signed_take_bit_int_eq_self) (simp_all add: order_trans [OF _ uint_ge_0])
  then show ?thesis by (simp add: sint_uint)
qed

lemma uint_pos: "x \<noteq> 0 \<Longrightarrow> 0 < uint x"
  by (metis order_le_less uint_0_iff uint_ge_0)

lemma credits_range: "sint x < 128" for x :: u8
  using sint_lt [of x] by simp

text \<open>The number of credits that a push may use.\<close>

lemma get_credits: "rwnx_txq_get_credits q =
    (if push_limit q \<noteq> 0 then min (int (unat (push_limit q))) (sint (credits q)) else sint (credits q))"
  using credits_range [of "credits q"] sint_small [of "push_limit q"]
  by (auto simp: rwnx_txq_get_credits_def min_def)

lemma get_credits_pos: "0 < sint (credits q) \<Longrightarrow> 0 < rwnx_txq_get_credits q"
  by (simp add: get_credits uint_pos)

lemma to_push_pos:
  "0 < sint (credits q) \<Longrightarrow> sk_list q \<noteq> [] \<Longrightarrow> 0 < fst (rwnx_txq_get_skb_to_push q)"
  using get_credits_pos [of q] by (simp add: rwnx_txq_get_skb_to_push_def Let_def)

lemma buffered_upd:
  assumes "t < length (txqs hw)"
  shows "buffered (upd_txq t f hw) + length (sk_list (txqs hw ! t)) =
    buffered hw + length (sk_list (f (txqs hw ! t)))"
  using assms sum_list_update_add [of t "map (\<lambda>q. length (sk_list q)) (txqs hw)" "length (sk_list (f (txqs hw ! t)))"]
  by (simp add: buffered_def upd_txq_def map_update)

lemma measure_upd_same:
  assumes "\<And>q. sk_list (f q) = sk_list q"
  shows "buffered (upd_txq t f hw) = buffered hw"
proof (cases "t < length (txqs hw)")
  case True
  then show ?thesis using buffered_upd [of t hw f] assms by simp
qed (simp add: upd_txq_def list_update_beyond buffered_def)

lemma buffered_cong: "txqs hw' = txqs hw \<Longrightarrow> buffered hw' = buffered hw"
  by (simp add: buffered_def)

lemma del_buffered [simp]: "buffered (rwnx_txq_del_from_hw_list t hw) = buffered hw"
proof -
  have "buffered (upd_txq t (\<lambda>q. q\<lparr>status := status q AND NOT RWNX_TXQ_IN_HWQ_LIST\<rparr>) hw) = buffered hw"
    by (rule measure_upd_same) simp
  then show ?thesis by (simp add: rwnx_txq_del_from_hw_list_def buffered_def)
qed

lemma leave_buffered [simp]: "buffered (leave_or_rotate h t e hw) = buffered hw"
  by (simp add: leave_or_rotate_def measure_upd_same buffered_cong [OF upd_hwq_simps(1)])

lemma abort_buffered [simp]: "buffered (abort_sp t hw) = buffered hw"
  by (auto simp: abort_sp_def Let_def measure_upd_same buffered_cong [OF upd_sta_simps(1)] split: option.split)

lemma restart_buffered [simp]: "buffered (ndev_flow_restart t hw) = buffered hw"
proof -
  have "buffered (upd_txq t (\<lambda>q. q\<lparr>status := status q AND NOT RWNX_TXQ_NDEV_FLOW_CTRL\<rparr>) hw) = buffered hw"
    by (rule measure_upd_same) simp
  then show ?thesis by (simp add: ndev_flow_restart_def Let_def buffered_def)
qed

lemma push_fold_buffered [simp]: "buffered (fold rwnx_tx_push bs hw) = buffered hw"
  unfolding buffered_def by (rule arg_cong [OF core_measure(1)]) (rule push_fold_core)

lemma process_measure:
  assumes "process_txq h t hw = Inr hw'"
  shows "buffered hw' < buffered hw \<or> buffered hw' \<le> buffered hw \<and> listed hw' < listed hw"
proof -
  let ?q = "txqs hw ! t"
  have t: "t < length (txqs hw)" and l: "in_list ?q"
    using assms by (auto simp: process_txq_def Let_def split: if_splits)
  show ?thesis
  proof (cases "idx ?q = TXQ_INACTIVE")
    case True
    let ?g = "\<lambda>q. q\<lparr>status := status q AND NOT RWNX_TXQ_IN_HWQ_LIST\<rparr>"
    have hw': "hw' = rwnx_txq_flush t (rwnx_txq_del_from_hw_list t hw)"
      using assms t l True by (simp add: process_txq_def Let_def)
    let ?d = "rwnx_txq_del_from_hw_list t hw"
    have d: "txqs ?d = (txqs hw)[t := ?g ?q]"
      using l by (simp add: rwnx_txq_del_from_hw_list_def upd_txq_def)
    have "buffered hw' \<le> buffered hw"
      using buffered_upd [of t ?d "\<lambda>q. q\<lparr>sk_list := []\<rparr>"] t d
      by (simp add: hw' rwnx_txq_flush_def buffered_def [of "tx_hw.freed_update _ _"]) (simp add: buffered_def)
    moreover have "listed hw' < listed hw"
    proof -
      let ?q1 = "(?g ?q)\<lparr>sk_list := []\<rparr>"
      have "txqs hw' = (txqs hw)[t := ?q1]"
        using t d by (simp add: hw' rwnx_txq_flush_def upd_txq_def)
      moreover have "\<not> in_list ?q1" by (simp add: in_list_def status_bits)
      ultimately show ?thesis
        using count_if_update [OF t, of in_list ?q1] l by (simp add: listed_def)
    qed
    ultimately show ?thesis by simp
  next
    case False
    let ?n = "fst (rwnx_txq_get_skb_to_push ?q)" and ?hw1 = "upd_txq t (\<lambda>q. q\<lparr>sk_list := List.drop (fst (rwnx_txq_get_skb_to_push ?q)) (sk_list q)\<rparr>) hw"
    have c: "0 < sint (credits ?q)" "sk_list ?q \<noteq> []" and b: "buffered hw' = buffered ?hw1"
      using assms t l False
      by (auto simp: process_txq_def Let_def case_prod_unfold rwnx_txq_skb_ready_def word_sle_eq split: if_splits)
    have "length (List.drop ?n (sk_list ?q)) < length (sk_list ?q)"
      using to_push_pos [OF c] c(2) by simp
    then have "buffered ?hw1 < buffered hw"
      using buffered_upd [OF t, of "\<lambda>q. q\<lparr>sk_list := List.drop (fst (rwnx_txq_get_skb_to_push ?q)) (sk_list q)\<rparr>"] by simp
    then show ?thesis using b by simp
  qed
qed

text \<open>The loop of \<open>rwnx_hwq_process\<close>: \<open>cur\<close> is the current queue, its successor is read before it is processed.\<close>

function hwq_loop :: "nat \<Rightarrow> nat option \<Rightarrow> tx_hw \<Rightarrow> tx_hw tx_result" where
  "hwq_loop h cur hw =
     (case cur of
        None \<Rightarrow> Inr hw
      | Some t \<Rightarrow>
          (case process_txq h t hw of
             Inl e \<Rightarrow> Inl e
           | Inr hw1 \<Rightarrow> hwq_loop h (next_in t (hlist (hwqs hw ! h))) hw1))"
  by pat_completeness auto

termination
proof (relation "inv_image (less_than <*lex*> less_than) (\<lambda>(h, cur, hw). (buffered hw, listed hw))", goal_cases)
  case 1
  show ?case by (simp add: wf_lex_prod)
next
  case (2 h cur hw t hw1)
  then show ?case using process_measure [of h t hw hw1] by (cases "buffered hw1 < buffered hw") auto
qed

declare hwq_loop.simps [simp del]

definition rwnx_hwq_process :: "nat \<Rightarrow> tx_hw \<Rightarrow> tx_hw tx_result" where
  "rwnx_hwq_process h hw =
     (let hw1 = upd_hwq h (\<lambda>h. h\<lparr>need_processing := False\<rparr>) hw
      in hwq_loop h (case hlist (hwqs hw1 ! h) of [] \<Rightarrow> None | t # _ \<Rightarrow> Some t) hw1)"

fun process_from :: "nat list \<Rightarrow> tx_hw \<Rightarrow> tx_hw tx_result" where
  "process_from [] hw = Inr hw"
| "process_from (h # hs) hw =
     bind_tx (if need_processing (hwqs hw ! h) then rwnx_hwq_process h hw else Inr hw) (process_from hs)"

definition rwnx_hwq_process_all :: "tx_hw \<Rightarrow> tx_hw tx_result" where
  "rwnx_hwq_process_all hw = process_from (rev [0..<length (hwqs hw)]) hw"

section \<open>The scheduling invariant\<close>

text \<open>The members of the list of a hardware queue are the queues with the flag, each once.\<close>

definition sched_ok :: "tx_hw \<Rightarrow> bool" where
  "sched_ok hw \<longleftrightarrow>
     (\<forall>h<length (hwqs hw). distinct (hlist (hwqs hw ! h)) \<and>
        (\<forall>t\<in>set (hlist (hwqs hw ! h)). t < length (txqs hw) \<and> in_list (txqs hw ! t) \<and> q_hwq (txqs hw ! t) = h)) \<and>
     (\<forall>t<length (txqs hw). in_list (txqs hw ! t) \<longrightarrow>
        q_hwq (txqs hw ! t) < length (hwqs hw) \<and> t \<in> set (hlist (hwqs hw ! q_hwq (txqs hw ! t))))"

definition sta_ps :: "rwnx_txq \<Rightarrow> bool" where
  "sta_ps q \<longleftrightarrow> status q AND RWNX_TXQ_STOP_STA_PS \<noteq> 0"

text \<open>The retried frames are the first \<open>nb_retry\<close> of the queue.\<close>

definition retry_ok :: "rwnx_txq \<Rightarrow> bool" where
  "retry_ok q \<longleftrightarrow> distinct (map tb_id (sk_list q)) \<and> 0 \<le> nb_retry q \<and> nb_retry q \<le> int (length (sk_list q)) \<and>
     last_retry_skb q = (if nb_retry q = 0 then None else Some (tb_id (sk_list q ! nat (nb_retry q - 1))))"

text \<open>
  What holds of an active queue: the conditions of the three \<open>BUG_ON\<close>s of \<open>rwnx_hwq_process\<close>; a queue
  with frames that is not stopped is scheduled; a push limit is set only in power save and is covered by
  the frames and the credits; the frames belong to the queue.
\<close>

definition active_ok :: "nat \<Rightarrow> rwnx_txq \<Rightarrow> bool" where
  "active_ok t q \<longleftrightarrow>
     0 < sint (credits q) \<and> (in_list q \<longrightarrow> sk_list q \<noteq> []) \<and>
     (\<not> rwnx_txq_is_stopped q \<longrightarrow> sk_list q \<noteq> [] \<longrightarrow> in_list q) \<and>
     (push_limit q \<noteq> 0 \<longrightarrow>
        sta_ps q \<and> uint (push_limit q) \<le> int (length (sk_list q)) \<and> uint (push_limit q) \<le> sint (credits q)) \<and>
     (\<forall>b\<in>set (sk_list q). tb_txq b = t \<and> tb_sta b = q_sta q) \<and> retry_ok q"

definition q_ok :: "nat \<Rightarrow> nat \<Rightarrow> rwnx_txq \<Rightarrow> bool" where
  "q_ok nh t q \<longleftrightarrow>
     q_hwq q < nh \<and> (if idx q = TXQ_INACTIVE then sk_list q = [] else active_ok t q)"

definition queues_ok :: "tx_hw \<Rightarrow> bool" where
  "queues_ok hw \<longleftrightarrow> (\<forall>t<length (txqs hw). q_ok (length (hwqs hw)) t (txqs hw ! t))"

lemma in_list_or: "s AND RWNX_TXQ_IN_HWQ_LIST \<noteq> 0 \<Longrightarrow> s OR RWNX_TXQ_IN_HWQ_LIST = s" for s :: u8
proof -
  assume a: "s AND RWNX_TXQ_IN_HWQ_LIST \<noteq> 0"
  have "s AND 1 = (if bit s 0 then 1 else 0)"
    by (simp add: and_one_eq odd_iff_mod_2_eq_one bit_0)
  then have "bit s 0" using a by (auto simp: RWNX_TXQ_IN_HWQ_LIST_def split: if_splits)
  then show ?thesis
    by (intro bit_word_eqI) (auto simp: RWNX_TXQ_IN_HWQ_LIST_def bit_simps)
qed

lemma not_in_list: "s AND RWNX_TXQ_IN_HWQ_LIST = 0 \<Longrightarrow> s AND NOT RWNX_TXQ_IN_HWQ_LIST = s" for s :: u8
  by (rule bit_word_eqI) (auto simp: bit_eq_iff bit_simps)

lemma add_txqs: "txqs (rwnx_txq_add_to_hw_list t hw) =
    (txqs hw)[t := (txqs hw ! t)\<lparr>status := status (txqs hw ! t) OR RWNX_TXQ_IN_HWQ_LIST\<rparr>]"
  by (simp add: rwnx_txq_add_to_hw_list_def upd_txq_def in_list_def Let_def in_list_or)

lemma del_txqs: "txqs (rwnx_txq_del_from_hw_list t hw) =
    (txqs hw)[t := (txqs hw ! t)\<lparr>status := status (txqs hw ! t) AND NOT RWNX_TXQ_IN_HWQ_LIST\<rparr>]"
  by (simp add: rwnx_txq_del_from_hw_list_def upd_txq_def in_list_def Let_def not_in_list)

lemma add_simps [simp]:
  "length (hwqs (rwnx_txq_add_to_hw_list t hw)) = length (hwqs hw)"
  "length (txqs (rwnx_txq_add_to_hw_list t hw)) = length (txqs hw)"
  "tx_stas (rwnx_txq_add_to_hw_list t hw) = tx_stas hw" "old_ic (rwnx_txq_add_to_hw_list t hw) = old_ic hw"
  "bus (rwnx_txq_add_to_hw_list t hw) = bus hw"
  by (simp_all add: rwnx_txq_add_to_hw_list_def Let_def)

lemma del_simps [simp]:
  "length (hwqs (rwnx_txq_del_from_hw_list t hw)) = length (hwqs hw)"
  "length (txqs (rwnx_txq_del_from_hw_list t hw)) = length (txqs hw)"
  "tx_stas (rwnx_txq_del_from_hw_list t hw) = tx_stas hw" "old_ic (rwnx_txq_del_from_hw_list t hw) = old_ic hw"
  "bus (rwnx_txq_del_from_hw_list t hw) = bus hw"
  by (simp_all add: rwnx_txq_del_from_hw_list_def)

lemma sched_add:
  assumes "sched_ok hw" and t: "t < length (txqs hw)" and "q_hwq (txqs hw ! t) < length (hwqs hw)"
  shows "sched_ok (rwnx_txq_add_to_hw_list t hw)"
proof (cases "in_list (txqs hw ! t)")
  case True
  then show ?thesis using assms by (simp add: rwnx_txq_add_to_hw_list_def)
next
  case False
  let ?h = "q_hwq (txqs hw ! t)"
  let ?hw = "rwnx_txq_add_to_hw_list t hw"
  have n: "t \<notin> set (hlist (hwqs hw ! h))" if "h < length (hwqs hw)" for h
    using assms(1) that False by (auto simp: sched_ok_def)
  have hl: "hlist (hwqs ?hw ! h) = hlist (hwqs hw ! h) @ (if h = ?h then [t] else [])" if "h < length (hwqs hw)" for h
    using that False by (simp add: rwnx_txq_add_to_hw_list_def Let_def upd_hwq_nth)
  have qs: "in_list (txqs ?hw ! u) = (in_list (txqs hw ! u) \<or> u = t)" "q_hwq (txqs ?hw ! u) = q_hwq (txqs hw ! u)"
    if "u < length (txqs hw)" for u
    using that t by (simp_all add: add_txqs nth_list_update in_list_def status_bits)
  have 1: "distinct (hlist (hwqs ?hw ! h)) \<and> (\<forall>u\<in>set (hlist (hwqs ?hw ! h)). u < length (txqs ?hw) \<and>
      in_list (txqs ?hw ! u) \<and> q_hwq (txqs ?hw ! u) = h)" if h: "h < length (hwqs hw)" for h
  proof -
    have o: "distinct (hlist (hwqs hw ! h))" "\<forall>u\<in>set (hlist (hwqs hw ! h)). u < length (txqs hw) \<and>
        in_list (txqs hw ! u) \<and> q_hwq (txqs hw ! u) = h"
      using assms(1) h by (simp_all add: sched_ok_def)
    show ?thesis using o n [OF h] t by (auto simp: hl [OF h] qs)
  qed
  have 2: "q_hwq (txqs ?hw ! u) < length (hwqs ?hw) \<and> u \<in> set (hlist (hwqs ?hw ! q_hwq (txqs ?hw ! u)))"
    if u: "u < length (txqs hw)" "in_list (txqs ?hw ! u)" for u
  proof -
    have "u \<noteq> t \<Longrightarrow> q_hwq (txqs hw ! u) < length (hwqs hw) \<and> u \<in> set (hlist (hwqs hw ! q_hwq (txqs hw ! u)))"
      using assms(1) u by (simp add: sched_ok_def qs)
    then show ?thesis using u assms(3) by (cases "u = t") (simp_all add: qs hl)
  qed
  show ?thesis using 1 2 by (simp add: sched_ok_def)
qed

lemma sched_del:
  assumes "sched_ok hw"
  shows "sched_ok (rwnx_txq_del_from_hw_list t hw)"
proof (cases "in_list (txqs hw ! t) \<and> t < length (txqs hw)")
  case False
  then show ?thesis
    using assms by (cases "t < length (txqs hw)")
      (auto simp: rwnx_txq_del_from_hw_list_def sched_ok_def upd_txq_def list_update_beyond)
next
  case True
  let ?hw = "rwnx_txq_del_from_hw_list t hw"
  have hl: "hlist (hwqs ?hw ! h) = remove1 t (hlist (hwqs hw ! h))" if "h < length (hwqs hw)" for h
    using that True by (simp add: rwnx_txq_del_from_hw_list_def)
  have qs: "in_list (txqs ?hw ! u) = (in_list (txqs hw ! u) \<and> u \<noteq> t)" "q_hwq (txqs ?hw ! u) = q_hwq (txqs hw ! u)"
    if "u < length (txqs hw)" for u
    using that True by (auto simp: del_txqs nth_list_update in_list_def status_bits)
  have 1: "distinct (hlist (hwqs ?hw ! h)) \<and> (\<forall>u\<in>set (hlist (hwqs ?hw ! h)). u < length (txqs ?hw) \<and>
      in_list (txqs ?hw ! u) \<and> q_hwq (txqs ?hw ! u) = h)" if h: "h < length (hwqs hw)" for h
  proof -
    have o: "distinct (hlist (hwqs hw ! h))" "\<forall>u\<in>set (hlist (hwqs hw ! h)). u < length (txqs hw) \<and>
        in_list (txqs hw ! u) \<and> q_hwq (txqs hw ! u) = h"
      using assms h by (simp_all add: sched_ok_def)
    show ?thesis using o by (auto simp: hl [OF h] qs)
  qed
  have 2: "q_hwq (txqs ?hw ! u) < length (hwqs ?hw) \<and> u \<in> set (hlist (hwqs ?hw ! q_hwq (txqs ?hw ! u)))"
    if u: "u < length (txqs hw)" "in_list (txqs ?hw ! u)" for u
  proof -
    have "q_hwq (txqs hw ! u) < length (hwqs hw) \<and> u \<in> set (hlist (hwqs hw ! q_hwq (txqs hw ! u)))" "u \<noteq> t"
      using assms u by (simp_all add: sched_ok_def qs)
    then show ?thesis using u by (simp add: qs hl)
  qed
  show ?thesis using 1 2 by (simp add: sched_ok_def)
qed

lemma sched_upd:
  assumes "sched_ok hw" and "t < length (txqs hw) \<Longrightarrow> in_list (f (txqs hw ! t)) = in_list (txqs hw ! t)"
    and "t < length (txqs hw) \<Longrightarrow> in_list (txqs hw ! t) \<Longrightarrow> q_hwq (f (txqs hw ! t)) = q_hwq (txqs hw ! t)"
  shows "sched_ok (upd_txq t f hw)"
proof (cases "t < length (txqs hw)")
  case True
  have qs: "in_list (txqs (upd_txq t f hw) ! u) = in_list (txqs hw ! u)"
    "in_list (txqs hw ! u) \<Longrightarrow> q_hwq (txqs (upd_txq t f hw) ! u) = q_hwq (txqs hw ! u)"
    if "u < length (txqs hw)" for u
    using that assms(2,3) True by (cases "u = t"; simp add: upd_txq_nth)+
  show ?thesis using assms(1) qs by (simp add: sched_ok_def)
qed (use assms(1) in \<open>simp add: upd_txq_def list_update_beyond\<close>)

lemma sched_rotate:
  "sched_ok hw \<Longrightarrow> (\<And>q. distinct (hlist (f q)) = distinct (hlist q) \<and> set (hlist (f q)) = set (hlist q)) \<Longrightarrow>
   sched_ok (upd_hwq h f hw)"
proof -
  assume a: "sched_ok hw" and f: "\<And>q. distinct (hlist (f q)) = distinct (hlist q) \<and> set (hlist (f q)) = set (hlist q)"
  have "distinct (hlist (hwqs (upd_hwq h f hw) ! u)) = distinct (hlist (hwqs hw ! u))"
    "set (hlist (hwqs (upd_hwq h f hw) ! u)) = set (hlist (hwqs hw ! u))" if "u < length (hwqs hw)" for u
    using that f by (simp_all add: upd_hwq_nth)
  then show ?thesis using a by (simp add: sched_ok_def)
qed

lemma sched_cong: "txqs hw' = txqs hw \<Longrightarrow> hwqs hw' = hwqs hw \<Longrightarrow> sched_ok hw' = sched_ok hw"
  by (simp add: sched_ok_def)

lemma sched_irrelevant [simp]:
  "sched_ok (hw\<lparr>stopped := x\<rparr>) = sched_ok hw" "sched_ok (hw\<lparr>freed := y\<rparr>) = sched_ok hw"
  by (rule sched_cong; simp)+

lemma queues_irrelevant [simp]:
  "queues_ok (hw\<lparr>stopped := x\<rparr>) = queues_ok hw" "queues_ok (hw\<lparr>freed := y\<rparr>) = queues_ok hw"
  by (simp_all add: queues_ok_def)

lemma queues_upd:
  assumes "queues_ok hw" and "t < length (txqs hw) \<Longrightarrow> q_ok (length (hwqs hw)) t (f (txqs hw ! t))"
  shows "queues_ok (upd_txq t f hw)"
  using assms by (auto simp: queues_ok_def upd_txq_nth)

lemma queues_cong: "txqs hw' = txqs hw \<Longrightarrow> length (hwqs hw') = length (hwqs hw) \<Longrightarrow> queues_ok hw' = queues_ok hw"
  by (simp add: queues_ok_def)

lemma queues_at: "queues_ok hw \<Longrightarrow> t < length (txqs hw) \<Longrightarrow> q_ok (length (hwqs hw)) t (txqs hw ! t)"
  by (simp add: queues_ok_def)

lemma queues_set:
  assumes "queues_ok hw" and "txqs hw' = (txqs hw)[t := q]" and "length (hwqs hw') = length (hwqs hw)"
    and "t < length (txqs hw) \<Longrightarrow> q_ok (length (hwqs hw)) t q"
  shows "queues_ok hw'"
  using assms by (cases "t < length (txqs hw)") (auto simp: queues_ok_def nth_list_update list_update_beyond)

text \<open>Setting and clearing the list flag.\<close>

lemma q_ok_listed:
  assumes "q_ok nh t q" and "idx q \<noteq> TXQ_INACTIVE \<Longrightarrow> sk_list q \<noteq> []"
  shows "q_ok nh t (q\<lparr>status := status q OR RWNX_TXQ_IN_HWQ_LIST\<rparr>)"
  using assms
  by (auto simp: q_ok_def active_ok_def in_list_def rwnx_txq_is_stopped_def sta_ps_def retry_ok_def status_bits)

lemma q_ok_unlisted:
  assumes "q_ok nh t q" and "idx q \<noteq> TXQ_INACTIVE \<Longrightarrow> rwnx_txq_is_stopped q \<or> sk_list q = []"
  shows "q_ok nh t (q\<lparr>status := status q AND NOT RWNX_TXQ_IN_HWQ_LIST\<rparr>)"
  using assms
  by (auto simp: q_ok_def active_ok_def in_list_def rwnx_txq_is_stopped_def sta_ps_def retry_ok_def status_bits)

lemma in_list_cong: "status q = status q' \<Longrightarrow> in_list q = in_list q'"
  by (simp add: in_list_def)

text \<open>Start and stop.\<close>

lemma start_txqs: "txqs (rwnx_txq_start t r hw) = (txqs hw)[t :=
    (let q = txqs hw ! t in
     if idx q \<noteq> TXQ_INACTIVE \<and> status q AND r \<noteq> 0 then
       (let s = status q AND NOT r in
        q\<lparr>status := if s AND RWNX_TXQ_STOP = 0 \<and> sk_list q \<noteq> [] then s OR RWNX_TXQ_IN_HWQ_LIST else s\<rparr>)
     else q)]"
proof (cases "t < length (txqs hw)")
  case True
  then show ?thesis
    by (simp add: rwnx_txq_start_def Let_def add_txqs rwnx_txq_is_stopped_def rwnx_txq_skb_ready_def)
      (simp add: upd_txq_def)
qed (simp add: rwnx_txq_start_def Let_def list_update_beyond add_txqs upd_txq_def)

lemma stop_txqs: "txqs (rwnx_txq_stop t r hw) = (txqs hw)[t :=
    (let q = txqs hw ! t in
     if idx q \<noteq> TXQ_INACTIVE then q\<lparr>status := (status q OR r) AND NOT RWNX_TXQ_IN_HWQ_LIST\<rparr> else q)]"
  by (cases "t < length (txqs hw)") (simp_all add: rwnx_txq_stop_def del_txqs upd_txq_def list_update_beyond Let_def)

lemma start_simps [simp]:
  "length (hwqs (rwnx_txq_start t r hw)) = length (hwqs hw)"
  "length (txqs (rwnx_txq_start t r hw)) = length (txqs hw)"
  "tx_stas (rwnx_txq_start t r hw) = tx_stas hw" "old_ic (rwnx_txq_start t r hw) = old_ic hw"
  "bus (rwnx_txq_start t r hw) = bus hw"
  by (simp_all add: rwnx_txq_start_def Let_def)

lemma stop_simps [simp]:
  "length (hwqs (rwnx_txq_stop t r hw)) = length (hwqs hw)"
  "length (txqs (rwnx_txq_stop t r hw)) = length (txqs hw)"
  "tx_stas (rwnx_txq_stop t r hw) = tx_stas hw" "old_ic (rwnx_txq_stop t r hw) = old_ic hw"
  "bus (rwnx_txq_stop t r hw) = bus hw"
  by (simp_all add: rwnx_txq_stop_def)

lemma sched_start:
  assumes "sched_ok hw" and "queues_ok hw" and "stop_reason r" and t: "t < length (txqs hw)"
  shows "sched_ok (rwnx_txq_start t r hw)"
proof -
  let ?hw = "upd_txq t (\<lambda>q. q\<lparr>status := status q AND NOT r\<rparr>) hw"
  have "sched_ok ?hw"
    by (rule sched_upd [OF assms(1)]) (simp_all add: in_list_def stop_reason_bits [OF assms(3)])
  moreover have "q_hwq (txqs ?hw ! t) < length (hwqs ?hw)"
    using queues_at [OF assms(2) t] t by (simp add: q_ok_def)
  ultimately have "sched_ok (rwnx_txq_add_to_hw_list t ?hw)"
    using sched_add t by simp
  then show ?thesis using \<open>sched_ok ?hw\<close> assms(1) by (simp add: rwnx_txq_start_def Let_def)
qed

lemma sched_stop:
  assumes "sched_ok hw" and "stop_reason r"
  shows "sched_ok (rwnx_txq_stop t r hw)"
proof -
  have "sched_ok (upd_txq t (\<lambda>q. q\<lparr>status := status q OR r\<rparr>) hw)"
    by (rule sched_upd [OF assms(1)]) (simp_all add: in_list_def stop_reason_bits [OF assms(2)])
  then show ?thesis using assms(1) by (simp add: rwnx_txq_stop_def sched_del)
qed

text \<open>
  Starting a queue for the end of power save needs that no push limit is set; any other reason leaves the
  power save bit alone.
\<close>

lemma stop_reason_ps: "(s OR r) AND RWNX_TXQ_STOP_STA_PS = 0 \<Longrightarrow> s AND RWNX_TXQ_STOP_STA_PS = 0" for s :: u8
  by (simp add: or_and or_eq_0_iff)

lemma start_ps_bit:
  fixes s r :: u8
  assumes "r AND RWNX_TXQ_STOP_STA_PS = 0"
  shows "(s AND NOT r) AND RWNX_TXQ_STOP_STA_PS = s AND RWNX_TXQ_STOP_STA_PS"
proof -
  have "NOT r AND RWNX_TXQ_STOP_STA_PS = RWNX_TXQ_STOP_STA_PS"
    using assms by (intro bit_word_eqI) (auto simp: bit_eq_iff bit_simps)
  then show ?thesis by (simp add: and_not_and)
qed

lemma queues_start:
  assumes "queues_ok hw" and r: "stop_reason r" and t: "t < length (txqs hw)"
    and ps: "r AND RWNX_TXQ_STOP_STA_PS = 0 \<or> push_limit (txqs hw ! t) = 0"
  shows "queues_ok (rwnx_txq_start t r hw)"
proof (rule queues_set [OF assms(1) start_txqs])
  let ?q = "txqs hw ! t"
  let ?s = "status ?q AND NOT r"
  have q: "q_ok (length (hwqs hw)) t ?q" by (rule queues_at [OF assms(1) t])
  note bits = stop_reason_bits [OF r] status_bits
  have p: "push_limit ?q \<noteq> 0 \<Longrightarrow> ?s AND RWNX_TXQ_STOP_STA_PS = status ?q AND RWNX_TXQ_STOP_STA_PS"
    using ps start_ps_bit by auto
  have "q_ok (length (hwqs hw)) t (?q\<lparr>status := if ?s AND RWNX_TXQ_STOP = 0 \<and> sk_list ?q \<noteq> []
      then ?s OR RWNX_TXQ_IN_HWQ_LIST else ?s\<rparr>)" if "idx ?q \<noteq> TXQ_INACTIVE"
  proof (cases "?s AND RWNX_TXQ_STOP = 0 \<and> sk_list ?q \<noteq> []")
    case True
    then show ?thesis
      using q that p by (auto simp: q_ok_def active_ok_def in_list_def rwnx_txq_is_stopped_def sta_ps_def retry_ok_def bits)
  next
    case False
    then show ?thesis
      using q that p by (auto simp: q_ok_def active_ok_def in_list_def rwnx_txq_is_stopped_def sta_ps_def retry_ok_def bits)
  qed
  then show "q_ok (length (hwqs hw)) t (let q = ?q in if idx q \<noteq> TXQ_INACTIVE \<and> status q AND r \<noteq> 0 then
       (let s = status q AND NOT r in
        q\<lparr>status := if s AND RWNX_TXQ_STOP = 0 \<and> sk_list q \<noteq> [] then s OR RWNX_TXQ_IN_HWQ_LIST else s\<rparr>) else q)"
    using q by (simp add: Let_def)
qed simp

lemma queues_stop:
  assumes "queues_ok hw" and r: "stop_reason r"
  shows "queues_ok (rwnx_txq_stop t r hw)"
proof (rule queues_set [OF assms(1) stop_txqs])
  let ?q = "txqs hw ! t"
  assume t: "t < length (txqs hw)"
  have q: "q_ok (length (hwqs hw)) t ?q" by (rule queues_at [OF assms(1) t])
  have "rwnx_txq_is_stopped (?q\<lparr>status := status ?q OR r\<rparr>)"
    by (simp add: rwnx_txq_is_stopped_def stop_reason_bits [OF r])
  moreover have "q_ok (length (hwqs hw)) t (?q\<lparr>status := status ?q OR r\<rparr>)"
    using q stop_reason_ps [of "status ?q" r]
    by (auto simp: q_ok_def active_ok_def in_list_def rwnx_txq_is_stopped_def sta_ps_def retry_ok_def stop_reason_bits [OF r])
  ultimately have "q_ok (length (hwqs hw)) t (?q\<lparr>status := (status ?q OR r) AND NOT RWNX_TXQ_IN_HWQ_LIST\<rparr>)"
    using q_ok_unlisted [of "length (hwqs hw)" t "?q\<lparr>status := status ?q OR r\<rparr>"] by simp
  then show "q_ok (length (hwqs hw)) t (let q = ?q in
      if idx q \<noteq> TXQ_INACTIVE then q\<lparr>status := (status q OR r) AND NOT RWNX_TXQ_IN_HWQ_LIST\<rparr> else q)"
    using q by (simp add: Let_def)
qed simp

text \<open>Creation and removal.\<close>

lemma init_txqs: "i < length (txqs hw) \<Longrightarrow> u < length (txqs hw) \<Longrightarrow> u \<noteq> i \<Longrightarrow>
    txqs (rwnx_txq_init i st hq tid sta ndev hw) ! u = txqs hw ! u"
  by (simp add: rwnx_txq_init_def upd_txq_nth)

lemma init_simps [simp]:
  "hwqs (rwnx_txq_init i st hq tid sta ndev hw) = hwqs hw" "tx_stas (rwnx_txq_init i st hq tid sta ndev hw) = tx_stas hw"
  "old_ic (rwnx_txq_init i st hq tid sta ndev hw) = old_ic hw" "bus (rwnx_txq_init i st hq tid sta ndev hw) = bus hw"
  "length (txqs (rwnx_txq_init i st hq tid sta ndev hw)) = length (txqs hw)"
  by (simp_all add: rwnx_txq_init_def)

lemma sched_init:
  "sched_ok hw \<Longrightarrow> \<not> in_list (txqs hw ! i) \<Longrightarrow> st AND RWNX_TXQ_IN_HWQ_LIST = 0 \<Longrightarrow>
   sched_ok (rwnx_txq_init i st hq tid sta ndev hw)"
  unfolding rwnx_txq_init_def by (rule sched_upd) (simp_all add: in_list_def)

lemma queues_init:
  "queues_ok hw \<Longrightarrow> hq < length (hwqs hw) \<Longrightarrow> st AND RWNX_TXQ_IN_HWQ_LIST = 0 \<Longrightarrow>
   queues_ok (rwnx_txq_init i st hq tid sta ndev hw)"
  unfolding rwnx_txq_init_def
  by (rule queues_upd)
    (simp_all add: q_ok_def active_ok_def in_list_def retry_ok_def NX_TXQ_INITIAL_CREDITS_def)

lemma deinit_txqs: "txqs (rwnx_txq_deinit t hw) = (txqs hw)[t :=
    (let q = txqs hw ! t in
     if idx q = TXQ_INACTIVE then q
     else q\<lparr>status := status q AND NOT RWNX_TXQ_IN_HWQ_LIST, idx := TXQ_INACTIVE, sk_list := []\<rparr>)]"
  by (cases "t < length (txqs hw)")
    (simp_all add: rwnx_txq_deinit_def rwnx_txq_flush_def del_txqs upd_txq_def list_update_beyond Let_def)

lemma deinit_simps [simp]:
  "length (hwqs (rwnx_txq_deinit t hw)) = length (hwqs hw)" "tx_stas (rwnx_txq_deinit t hw) = tx_stas hw"
  "old_ic (rwnx_txq_deinit t hw) = old_ic hw" "bus (rwnx_txq_deinit t hw) = bus hw"
  "length (txqs (rwnx_txq_deinit t hw)) = length (txqs hw)"
  by (simp_all add: rwnx_txq_deinit_def rwnx_txq_flush_def)

lemma sched_flush: "sched_ok hw \<Longrightarrow> sched_ok (rwnx_txq_flush t hw)"
proof -
  assume "sched_ok hw"
  then have "sched_ok (upd_txq t (\<lambda>q. q\<lparr>sk_list := []\<rparr>) hw)"
    by (rule sched_upd) (simp_all add: in_list_def)
  then show ?thesis by (simp add: rwnx_txq_flush_def)
qed

lemma sched_deinit: "sched_ok hw \<Longrightarrow> sched_ok (rwnx_txq_deinit t hw)"
proof -
  assume "sched_ok hw"
  then have "sched_ok (rwnx_txq_del_from_hw_list t hw)" by (rule sched_del)
  then have "sched_ok (upd_txq t (\<lambda>q. q\<lparr>idx := TXQ_INACTIVE\<rparr>) (rwnx_txq_del_from_hw_list t hw))"
    by (rule sched_upd) (simp_all add: in_list_def)
  then show ?thesis using \<open>sched_ok hw\<close> by (simp add: rwnx_txq_deinit_def sched_flush)
qed

lemma queues_deinit: "queues_ok hw \<Longrightarrow> queues_ok (rwnx_txq_deinit t hw)"
proof (rule queues_set [OF _ deinit_txqs])
  assume "queues_ok hw" and "t < length (txqs hw)"
  then have "q_ok (length (hwqs hw)) t (txqs hw ! t)" by (rule queues_at)
  then show "q_ok (length (hwqs hw)) t (let q = txqs hw ! t in if idx q = TXQ_INACTIVE then q
     else q\<lparr>status := status q AND NOT RWNX_TXQ_IN_HWQ_LIST, idx := TXQ_INACTIVE, sk_list := []\<rparr>)"
    by (simp add: q_ok_def Let_def)
qed simp_all

text \<open>Queueing a frame.\<close>

lemma insert_after_at:
  "distinct (map tb_id xs) \<Longrightarrow> k < length xs \<Longrightarrow> i = tb_id (xs ! k) \<Longrightarrow>
   insert_after i b xs = take (Suc k) xs @ b # List.drop (Suc k) xs"
proof (induction xs arbitrary: k)
  case (Cons x xs)
  show ?case
  proof (cases k)
    case (Suc j)
    then have "xs ! j \<in> set xs" using Cons.prems by simp
    then have "tb_id x \<noteq> tb_id (xs ! j)" using Cons.prems(1) by auto
    then show ?thesis using Cons Suc by simp
  qed (use Cons.prems in simp)
qed simp

text \<open>Where a frame is put: at the end, or behind the retried frames.\<close>

lemma enqueue_list:
  assumes "retry_ok q"
  shows "sk_list (enqueue b retry q) =
    (if retry then take (nat (nb_retry q)) (sk_list q) @ b # List.drop (nat (nb_retry q)) (sk_list q)
     else sk_list q @ [b])"
proof (cases "retry \<and> nb_retry q \<noteq> 0")
  case True
  then have k: "nat (nb_retry q - 1) < length (sk_list q)" "Suc (nat (nb_retry q - 1)) = nat (nb_retry q)"
    using assms by (auto simp: retry_ok_def)
  then show ?thesis
    using True assms insert_after_at [of "sk_list q" "nat (nb_retry q - 1)" _ b]
    by (simp add: enqueue_def retry_ok_def)
qed (use assms in \<open>auto simp: enqueue_def retry_ok_def\<close>)

lemma retry_enqueue:
  assumes "retry_ok q" and "tb_id b \<notin> tb_id ` set (sk_list q)"
  shows "retry_ok (enqueue b retry q)"
proof (cases retry)
  case False
  then show ?thesis using assms by (auto simp: enqueue_def retry_ok_def nth_append)
next
  case True
  let ?k = "nat (nb_retry q)" and ?xs = "sk_list q"
  have k: "?k \<le> length ?xs" "0 \<le> nb_retry q" using assms(1) by (auto simp: retry_ok_def)
  have "distinct (map tb_id (as @ b # cs))" if "?xs = as @ cs" for as cs
    using assms that by (auto simp: retry_ok_def)
  from this [of "take ?k ?xs" "List.drop ?k ?xs"]
  have "distinct (map tb_id (take ?k ?xs @ b # List.drop ?k ?xs))" by simp
  moreover have "(take ?k ?xs @ b # List.drop ?k ?xs) ! ?k = b"
    using k by (simp add: nth_append)
  ultimately show ?thesis
    using enqueue_list [OF assms(1), of b True] True k
    by (simp add: retry_ok_def) (simp add: enqueue_def)
qed

lemma count_ready_simps [simp]:
  "txqs (count_ready t hw) = txqs hw" "hwqs (count_ready t hw) = hwqs hw" "old_ic (count_ready t hw) = old_ic hw"
  "length (tx_stas (count_ready t hw)) = length (tx_stas hw)" "bus (count_ready t hw) = bus hw"
  by (simp_all add: count_ready_def Let_def split: option.split)

lemma flow_stop_txqs: "txqs (ndev_flow_stop t hw) = (txqs hw)[t :=
    (let q = txqs hw ! t in
     if ndev_idx q \<noteq> NDEV_NO_TXQ \<and> \<not> tbusy hw \<and> RWNX_NDEV_FLOW_CTRL_STOP < length (sk_list q)
     then q\<lparr>status := status q OR RWNX_TXQ_NDEV_FLOW_CTRL\<rparr> else q)]"
  by (simp add: ndev_flow_stop_def Let_def upd_txq_def)

lemma flow_stop_simps [simp]:
  "hwqs (ndev_flow_stop t hw) = hwqs hw" "tx_stas (ndev_flow_stop t hw) = tx_stas hw"
  "old_ic (ndev_flow_stop t hw) = old_ic hw" "length (txqs (ndev_flow_stop t hw)) = length (txqs hw)"
  "bus (ndev_flow_stop t hw) = bus hw"
  by (simp_all add: ndev_flow_stop_def Let_def)

lemma enqueue_core [simp]:
  "idx (enqueue b retry q) = idx q" "status (enqueue b retry q) = status q" "credits (enqueue b retry q) = credits q"
  "q_hwq (enqueue b retry q) = q_hwq q" "q_sta (enqueue b retry q) = q_sta q" "ps_id (enqueue b retry q) = ps_id q"
  "push_limit (enqueue b retry q) = push_limit q" "ndev_idx (enqueue b retry q) = ndev_idx q"
  by (simp_all add: enqueue_def)

lemma put_split: "\<exists>as cs. xs = as @ cs \<and> take k xs @ b # List.drop k xs = as @ b # cs"
  by (metis append_take_drop_id)

lemma enqueue_split:
  assumes "retry_ok q"
  shows "\<exists>as cs. sk_list q = as @ cs \<and> sk_list (enqueue b retry q) = as @ b # cs"
  using put_split [of "sk_list q" "nat (nb_retry q)" b] assms by (auto simp: enqueue_list)

lemma enqueue_length: "retry_ok q \<Longrightarrow> length (sk_list (enqueue b retry q)) = Suc (length (sk_list q))"
  using enqueue_split [of q b retry] by auto

lemma enqueue_set: "retry_ok q \<Longrightarrow> set (sk_list (enqueue b retry q)) = insert b (set (sk_list q))"
  using enqueue_split [of q b retry] by auto

text \<open>The record of the queue when the frame has been put and the queue been scheduled.\<close>

definition queued :: "bool \<Rightarrow> tx_buf \<Rightarrow> bool \<Rightarrow> rwnx_txq \<Rightarrow> rwnx_txq" where
  "queued busy b retry q =
     (let e = enqueue b retry q;
          f = (if ndev_idx e \<noteq> NDEV_NO_TXQ \<and> \<not> busy \<and> RWNX_NDEV_FLOW_CTRL_STOP < length (sk_list e)
               then e\<lparr>status := status e OR RWNX_TXQ_NDEV_FLOW_CTRL\<rparr> else e)
      in if rwnx_txq_is_stopped f then f else f\<lparr>status := status f OR RWNX_TXQ_IN_HWQ_LIST\<rparr>)"

lemma tbusy_count [simp]: "tbusy (count_ready t hw) = tbusy hw"
  by (simp add: count_ready_def Let_def rwnx_set_traffic_status_def split: option.split)

lemma queue_txqs:
  assumes "t < length (txqs hw)"
  shows "txqs (snd (rwnx_txq_queue_skb b t retry hw)) = (txqs hw)[t := queued (tbusy hw) b retry (txqs hw ! t)]"
    "length (hwqs (snd (rwnx_txq_queue_skb b t retry hw))) = length (hwqs hw)"
  using assms
  by (simp_all add: rwnx_txq_queue_skb_def Let_def flow_stop_txqs add_txqs queued_def)
    (simp_all add: upd_txq_def)

lemma q_ok_queued:
  assumes "q_ok nh t q" and "idx q \<noteq> TXQ_INACTIVE" and "tb_txq b = t" "tb_sta b = q_sta q"
    and "tb_id b \<notin> tb_id ` set (sk_list q)"
  shows "q_ok nh t (queued busy b retry q)"
proof -
  have a: "active_ok t q" "retry_ok q" "q_hwq q < nh" using assms(1,2) by (simp_all add: q_ok_def active_ok_def)
  note r = retry_enqueue [OF a(2) assms(5), of retry] enqueue_length [OF a(2), of b retry] enqueue_set [OF a(2), of b retry]
  have ne: "sk_list (enqueue b retry q) \<noteq> []" using r(2) by auto
  define e where "e = enqueue b retry q"
  have e: "retry_ok e" "sk_list e \<noteq> []" "idx e = idx q" "status e = status q" "credits e = credits q" "q_hwq e = q_hwq q"
    "push_limit e = push_limit q" "length (sk_list e) = Suc (length (sk_list q))" "q_sta e = q_sta q"
    "\<forall>b\<in>set (sk_list e). tb_txq b = t \<and> tb_sta b = q_sta e"
    using r ne a(1) assms(3,4) by (auto simp: e_def active_ok_def)
  have g: "q_ok nh t (f\<lparr>status := s\<rparr>)"
    if "f = e" "s AND RWNX_TXQ_STOP_STA_PS = status q AND RWNX_TXQ_STOP_STA_PS"
      "s AND RWNX_TXQ_STOP = 0 \<Longrightarrow> s AND RWNX_TXQ_IN_HWQ_LIST \<noteq> 0" for f s
    using e a that assms(2)
    by (auto simp: q_ok_def active_ok_def in_list_def rwnx_txq_is_stopped_def sta_ps_def retry_ok_def)
  have same: "e\<lparr>status := status q\<rparr> = e"
    unfolding e(4) [symmetric] by (cases e) simp
  show ?thesis
    unfolding queued_def Let_def e_def [symmetric]
    using g [OF refl, of "status e"] g [OF refl, of "status e OR RWNX_TXQ_NDEV_FLOW_CTRL"]
      g [OF refl, of "status e OR RWNX_TXQ_IN_HWQ_LIST"] g [OF refl, of "(status e OR RWNX_TXQ_NDEV_FLOW_CTRL) OR RWNX_TXQ_IN_HWQ_LIST"]
    by (simp add: e(4) same rwnx_txq_is_stopped_def status_bits split: if_split)
qed

lemma queues_queue:
  assumes "queues_ok hw" and t: "t < length (txqs hw)" and "idx (txqs hw ! t) \<noteq> TXQ_INACTIVE"
    and "tb_txq b = t" "tb_sta b = q_sta (txqs hw ! t)" and "tb_id b \<notin> tb_id ` set (sk_list (txqs hw ! t))"
  shows "queues_ok (snd (rwnx_txq_queue_skb b t retry hw))"
  by (rule queues_set [OF assms(1) queue_txqs(1) [OF t] queue_txqs(2) [OF t]])
    (rule q_ok_queued [OF queues_at [OF assms(1) t] assms(3-6)])

lemma sched_queue:
  assumes "sched_ok hw" and "queues_ok hw" and t: "t < length (txqs hw)"
  shows "sched_ok (snd (rwnx_txq_queue_skb b t retry hw))"
proof -
  have "sched_ok (count_ready t hw)" using assms(1) sched_cong [of "count_ready t hw" hw] by simp
  then have "sched_ok (upd_txq t (enqueue b retry) (count_ready t hw))"
    by (rule sched_upd) (simp_all add: in_list_def)
  then have "sched_ok (upd_txq t (\<lambda>q. q\<lparr>status := status q OR RWNX_TXQ_NDEV_FLOW_CTRL\<rparr>)
      (upd_txq t (enqueue b retry) (count_ready t hw)))"
    by (rule sched_upd) (simp_all add: in_list_def status_bits)
  then have f: "sched_ok (ndev_flow_stop t (upd_txq t (enqueue b retry) (count_ready t hw)))"
    using \<open>sched_ok (upd_txq t (enqueue b retry) (count_ready t hw))\<close>
    by (simp add: ndev_flow_stop_def Let_def)
  have "q_hwq (txqs (ndev_flow_stop t (upd_txq t (enqueue b retry) (count_ready t hw))) ! t) < length (hwqs hw)"
    using queues_at [OF assms(2) t] t by (simp add: flow_stop_txqs Let_def q_ok_def)
  then have "sched_ok (rwnx_txq_add_to_hw_list t (ndev_flow_stop t (upd_txq t (enqueue b retry) (count_ready t hw))))"
    using sched_add [OF f] t by simp
  then show ?thesis using f by (simp add: rwnx_txq_queue_skb_def Let_def)
qed

text \<open>Processing one queue.\<close>

lemma leave_hwqs [simp]: "length (hwqs (leave_or_rotate h t e hw)) = length (hwqs hw)"
  "length (txqs (leave_or_rotate h t e hw)) = length (txqs hw)"
  by (simp_all add: leave_or_rotate_def)

lemma abort_simps [simp]: "hwqs (abort_sp t hw) = hwqs hw" "length (txqs (abort_sp t hw)) = length (txqs hw)"
  "old_ic (abort_sp t hw) = old_ic hw"
  "length (tx_stas (abort_sp t hw)) = length (tx_stas hw)" "bus (abort_sp t hw) = bus hw"
  by (simp_all add: abort_sp_def Let_def split: option.split)

lemma restart_simps [simp]: "hwqs (ndev_flow_restart t hw) = hwqs hw" "tx_stas (ndev_flow_restart t hw) = tx_stas hw"
  "length (txqs (ndev_flow_restart t hw)) = length (txqs hw)" "old_ic (ndev_flow_restart t hw) = old_ic hw"
  "bus (ndev_flow_restart t hw) = bus hw"
  by (simp_all add: ndev_flow_restart_def Let_def)

lemma leave_sched: "sched_ok hw \<Longrightarrow> sched_ok (leave_or_rotate h t e hw)"
proof -
  assume s: "sched_ok hw"
  have u: "sched_ok (upd_txq t (\<lambda>q. q\<lparr>pkt_sent := 0\<rparr>) hw')" if "sched_ok hw'" for hw'
    using that by (rule sched_upd) (simp_all add: in_list_def)
  show ?thesis
    using s sched_del [OF s] by (auto simp: leave_or_rotate_def u intro!: sched_rotate)
qed

lemma abort_sched: "sched_ok hw \<Longrightarrow> sched_ok (abort_sp t hw)"
proof -
  assume s: "sched_ok hw"
  have u: "sched_ok (upd_txq t (\<lambda>q. q\<lparr>push_limit := 0\<rparr>) (upd_sta s' f hw))" for s' f
  proof -
    have "sched_ok (upd_sta s' f hw)" using s sched_cong [of "upd_sta s' f hw" hw] by simp
    then show ?thesis by (rule sched_upd) (simp_all add: in_list_def)
  qed
  show ?thesis using s u by (simp add: abort_sp_def Let_def split: option.split)
qed

lemma restart_sched: "sched_ok hw \<Longrightarrow> sched_ok (ndev_flow_restart t hw)"
proof -
  assume s: "sched_ok hw"
  then have "sched_ok (upd_txq t (\<lambda>q. q\<lparr>status := status q AND NOT RWNX_TXQ_NDEV_FLOW_CTRL\<rparr>) hw)"
    by (rule sched_upd) (simp_all add: in_list_def status_bits)
  then show ?thesis using s by (simp add: ndev_flow_restart_def Let_def)
qed

lemma core_at: "map q_core qs = map q_core qs' \<Longrightarrow> u < length qs' \<Longrightarrow> q_core (qs ! u) = q_core (qs' ! u)"
  by (metis length_map nth_map)

lemma push_sched: "sched_ok hw \<Longrightarrow> sched_ok (fold rwnx_tx_push bs hw)"
proof -
  assume s: "sched_ok hw"
  have "in_list (txqs (fold rwnx_tx_push bs hw) ! u) = in_list (txqs hw ! u)"
    "q_hwq (txqs (fold rwnx_tx_push bs hw) ! u) = q_hwq (txqs hw ! u)" if "u < length (txqs hw)" for u
    using q_core_eq [OF core_at [OF push_fold_core(1) that, of bs]] by (simp_all add: in_list_def)
  then show ?thesis
    using s by (simp add: sched_ok_def push_fold_core(2,3))
qed

lemma process_sched:
  assumes "sched_ok hw" and "process_txq h t hw = Inr hw'"
  shows "sched_ok hw'" "length (hwqs hw') = length (hwqs hw)" "length (txqs hw') = length (txqs hw)"
proof -
  let ?hw1 = "upd_txq t (\<lambda>q. q\<lparr>sk_list := List.drop (fst (rwnx_txq_get_skb_to_push (txqs hw ! t))) (sk_list q)\<rparr>) hw"
  have s1: "sched_ok ?hw1" by (rule sched_upd [OF assms(1)]) (simp_all add: in_list_def)
  show "sched_ok hw'" "length (hwqs hw') = length (hwqs hw)" "length (txqs hw') = length (txqs hw)"
    using assms(2) sched_flush [OF sched_del [OF assms(1)], of t t] restart_sched [OF abort_sched [OF leave_sched [OF push_sched [OF s1]]]]
    by (auto simp: process_txq_def Let_def case_prod_unfold push_fold_core rwnx_txq_flush_def split: if_splits)
qed

text \<open>What \<open>n\<close> pushes do to the counters of the queue.\<close>

definition count_n :: "nat \<Rightarrow> rwnx_txq \<Rightarrow> rwnx_txq" where
  "count_n n q = ((\<lambda>q. count_pushed (count_push q)) ^^ n) q"

lemma count_n_simps [simp]: "count_n 0 q = q" "count_n (Suc n) q = count_n n (count_pushed (count_push q))"
  unfolding count_n_def funpow_Suc_right by simp_all

lemma push_fold_txqs:
  "t < length (txqs hw) \<Longrightarrow> \<forall>b\<in>set bs. tb_txq b = t \<Longrightarrow>
   txqs (fold rwnx_tx_push bs hw) = (txqs hw)[t := count_n (length bs) (txqs hw ! t)]"
  by (induction bs arbitrary: hw) (simp_all add: push_txqs)

lemma count_n_core: "q_core (count_n n q) = q_core q"
  by (induction n arbitrary: q) simp_all

lemma uint_dec: "x \<noteq> 0 \<Longrightarrow> uint (x - 1) = uint x - 1" for x :: u8
proof -
  assume a: "x \<noteq> 0"
  then have "1 \<le> unat x" by (simp add: Suc_le_eq unat_gt_0)
  then have "int (unat x - 1) = int (unat x) - 1" by (metis of_nat_1 of_nat_diff)
  then show ?thesis unfolding unat_minus_one [OF a, symmetric] by simp
qed

lemma count_n_limit: "uint (push_limit (count_n n q)) = max 0 (uint (push_limit q) - int n)"
proof (induction n arbitrary: q)
  case (Suc n)
  have "uint (push_limit (count_pushed (count_push q))) = max 0 (uint (push_limit q) - 1)"
    using uint_pos [of "push_limit q"] uint_dec [of "push_limit q"] by (auto simp: count_pushed_def count_push_def)
  then show ?case using Suc.IH [of "count_pushed (count_push q)"] by simp
qed simp

lemma count_n_retry:
  assumes "0 \<le> nb_retry q" and "nb_retry q = 0 \<longrightarrow> last_retry_skb q = None"
  shows "nb_retry (count_n n q) = max 0 (nb_retry q - int n)"
    "last_retry_skb (count_n n q) = (if nb_retry q \<le> int n then None else last_retry_skb q)"
proof -
  have "nb_retry (count_n n q) = max 0 (nb_retry q - int n) \<and>
      last_retry_skb (count_n n q) = (if nb_retry q \<le> int n then None else last_retry_skb q)"
    using assms
  proof (induction n arbitrary: q)
    case (Suc n)
    let ?p = "count_pushed (count_push q)"
    have "nb_retry ?p = max 0 (nb_retry q - 1)" "last_retry_skb ?p = (if nb_retry q \<le> 1 then None else last_retry_skb q)"
      using Suc.prems by (auto simp: count_pushed_def count_push_def)
    then show ?case using Suc.IH [of ?p] by auto
  qed auto
  then show "nb_retry (count_n n q) = max 0 (nb_retry q - int n)"
    "last_retry_skb (count_n n q) = (if nb_retry q \<le> int n then None else last_retry_skb q)" by simp_all
qed

lemma retry_pushed:
  assumes "retry_ok q" and n: "n \<le> length (sk_list q)"
  shows "retry_ok (count_n n (q\<lparr>sk_list := List.drop n (sk_list q)\<rparr>))"
proof -
  let ?q = "q\<lparr>sk_list := List.drop n (sk_list q)\<rparr>"
  have a: "0 \<le> nb_retry ?q" "nb_retry ?q = 0 \<longrightarrow> last_retry_skb ?q = None"
    using assms(1) by (auto simp: retry_ok_def)
  have sk: "sk_list (count_n n ?q) = List.drop n (sk_list q)"
    using q_core_eq [OF count_n_core [of n ?q]] by simp
  have d: "distinct (map tb_id (List.drop n (sk_list q)))"
    using assms(1) by (simp add: retry_ok_def drop_map [symmetric])
  have at: "List.drop n (sk_list q) ! nat (nb_retry q - int n - 1) = sk_list q ! nat (nb_retry q - 1)"
    if "int n < nb_retry q"
  proof -
    have "n + nat (nb_retry q - int n - 1) = nat (nb_retry q - 1)" using that by simp
    then show ?thesis using n by simp
  qed
  show ?thesis
    unfolding retry_ok_def sk count_n_retry [OF a]
    using assms(1) n d at by (auto simp: retry_ok_def)
qed

text \<open>The limit of a power save period: when it is set exactly that many frames are pushed.\<close>

lemma le_limit: "p \<le> k \<Longrightarrow> (if int k \<le> int p then (k, True) else (nat (int p), True)) = (p, True)"
  by auto

lemma to_push_active:
  assumes "active_ok t q"
  shows "fst (rwnx_txq_get_skb_to_push q) \<le> length (sk_list q)"
    "push_limit q \<noteq> 0 \<Longrightarrow> rwnx_txq_get_skb_to_push q = (unat (push_limit q), True)"
    "push_limit q = 0 \<Longrightarrow> snd (rwnx_txq_get_skb_to_push q) \<Longrightarrow> fst (rwnx_txq_get_skb_to_push q) = length (sk_list q)"
    "\<not> snd (rwnx_txq_get_skb_to_push q) \<Longrightarrow> fst (rwnx_txq_get_skb_to_push q) < length (sk_list q)"
proof -
  have l: "rwnx_txq_get_skb_to_push q = (unat (push_limit q), True) \<and> unat (push_limit q) \<le> length (sk_list q)"
    if l: "push_limit q \<noteq> 0"
  proof -
    have u: "uint (push_limit q) \<le> int (length (sk_list q))" "uint (push_limit q) \<le> sint (credits q)"
      using assms l by (simp_all add: active_ok_def)
    have "int (unat (push_limit q)) \<le> int (length (sk_list q))" using u(1) by simp
    then have c: "rwnx_txq_get_credits q = int (unat (push_limit q))" "unat (push_limit q) \<le> length (sk_list q)"
      using l u(2) by (simp_all only: of_nat_le_iff) (simp add: get_credits)
    have d: "(push_limit q \<noteq> 0 \<and> int (unat (push_limit q)) = int (unat (push_limit q))) = True" using l by blast
    have "rwnx_txq_get_skb_to_push q = (unat (push_limit q), True)"
      unfolding rwnx_txq_get_skb_to_push_def c(1) Let_def d by (rule le_limit [OF c(2)])
    then show ?thesis using c(2) by simp
  qed
  show "push_limit q \<noteq> 0 \<Longrightarrow> rwnx_txq_get_skb_to_push q = (unat (push_limit q), True)" using l by simp
  show "fst (rwnx_txq_get_skb_to_push q) \<le> length (sk_list q)"
    "push_limit q = 0 \<Longrightarrow> snd (rwnx_txq_get_skb_to_push q) \<Longrightarrow> fst (rwnx_txq_get_skb_to_push q) = length (sk_list q)"
    "\<not> snd (rwnx_txq_get_skb_to_push q) \<Longrightarrow> fst (rwnx_txq_get_skb_to_push q) < length (sk_list q)"
  proof -
    have z: "rwnx_txq_get_skb_to_push q =
        (if int (length (sk_list q)) \<le> sint (credits q) then (length (sk_list q), True) else (nat (sint (credits q)), False))"
      if "push_limit q = 0"
      using that by (simp add: rwnx_txq_get_skb_to_push_def Let_def get_credits)
    have c: "0 < sint (credits q)" using assms by (simp add: active_ok_def)
    show "fst (rwnx_txq_get_skb_to_push q) \<le> length (sk_list q)"
      "push_limit q = 0 \<Longrightarrow> snd (rwnx_txq_get_skb_to_push q) \<Longrightarrow> fst (rwnx_txq_get_skb_to_push q) = length (sk_list q)"
      "\<not> snd (rwnx_txq_get_skb_to_push q) \<Longrightarrow> fst (rwnx_txq_get_skb_to_push q) < length (sk_list q)"
      using l z c by (cases "push_limit q = 0"; auto split: if_splits)+
  qed
qed

text \<open>The order of the frames: what has been sent and what waits, by queue.\<close>

definition tag :: "tx_buf \<Rightarrow> nat \<times> nat" where
  "tag b = (tb_txq b, tb_id b)"

lemma to_bus_tag: "map tag (bus (to_bus b hw)) = map tag (bus hw) @ [tag b]"
  by (simp add: to_bus_def Let_def tag_def aicwf_usb_host_txdesc_push_def)

lemma more_data_tag: "tag (fst (rwnx_set_more_data_flag s b hw)) = tag b"
  by (simp add: rwnx_set_more_data_flag_def Let_def tag_def)

lemma push_tag: "map tag (bus (rwnx_tx_push b hw)) = map tag (bus hw) @ [tag b]"
  using more_data_tag [of _ "b\<lparr>tb_hwq := q_hwq (txqs hw ! tb_txq b)\<rparr>"]
  by (simp add: rwnx_tx_push_def Let_def to_bus_tag split: option.split) (simp add: tag_def)

lemma push_fold_tag: "map tag (bus (fold rwnx_tx_push bs hw)) = map tag (bus hw) @ map tag bs"
  by (induction bs arbitrary: hw) (simp_all add: push_tag)

definition sent :: "nat \<Rightarrow> tx_hw \<Rightarrow> nat list" where
  "sent t hw = map snd (filter (\<lambda>x. fst x = t) (map tag (bus hw)))"

definition waiting :: "nat \<Rightarrow> tx_hw \<Rightarrow> nat list" where
  "waiting t hw = map tb_id (sk_list (txqs hw ! t))"

lemma sta_ps_stopped: "sta_ps q \<Longrightarrow> rwnx_txq_is_stopped q"
proof (rule ccontr)
  assume "sta_ps q" "\<not> rwnx_txq_is_stopped q"
  moreover have "status q AND RWNX_TXQ_STOP_STA_PS = (status q AND RWNX_TXQ_STOP) AND RWNX_TXQ_STOP_STA_PS"
    by (simp add: and.assoc RWNX_TXQ_STOP_eq RWNX_TXQ_STOP_STA_PS_def)
  ultimately show False by (simp add: sta_ps_def rwnx_txq_is_stopped_def)
qed

text \<open>The queue when it has been processed.\<close>

definition pushed :: "rwnx_txq \<Rightarrow> rwnx_txq" where
  "pushed q = (let n = fst (rwnx_txq_get_skb_to_push q) in count_n n (q\<lparr>sk_list := List.drop n (sk_list q)\<rparr>))"

lemma pushed_core:
  "idx (pushed q) = idx q" "status (pushed q) = status q" "credits (pushed q) = credits q" "q_hwq (pushed q) = q_hwq q"
  "q_sta (pushed q) = q_sta q" "ndev_idx (pushed q) = ndev_idx q" "q_ndev (pushed q) = q_ndev q"
  "sk_list (pushed q) = List.drop (fst (rwnx_txq_get_skb_to_push q)) (sk_list q)"
  using count_n_core [of "fst (rwnx_txq_get_skb_to_push q)" "q\<lparr>sk_list := List.drop (fst (rwnx_txq_get_skb_to_push q)) (sk_list q)\<rparr>"]
  by (simp_all add: pushed_def q_core_def Let_def)

lemma pushed_limit:
  assumes "active_ok t q"
  shows "push_limit (pushed q) = 0"
proof -
  have "uint (push_limit (pushed q)) = 0"
    using to_push_active(2) [OF assms] by (cases "push_limit q = 0") (simp_all add: pushed_def Let_def count_n_limit)
  then show ?thesis by (simp add: uint_0_iff)
qed

lemma q_ok_pushed:
  assumes "q_ok nh t q" and "in_list q" and "idx q \<noteq> TXQ_INACTIVE" and "snd (rwnx_txq_get_skb_to_push q) = e"
  shows "q_ok nh t (if e then (pushed q)\<lparr>status := status q AND NOT RWNX_TXQ_IN_HWQ_LIST, pkt_sent := x\<rparr>
    else (pushed q)\<lparr>pkt_sent := y\<rparr>)"
proof -
  have a: "active_ok t q" "q_hwq q < nh" using assms by (simp_all add: q_ok_def)
  note p = to_push_active [OF a(1)]
  have r: "retry_ok (pushed q)"
    using retry_pushed [OF _ p(1)] a(1) by (simp add: pushed_def Let_def active_ok_def)
  have set: "\<forall>b\<in>set (sk_list (pushed q)). tb_txq b = t \<and> tb_sta b = q_sta q"
    using a(1) by (auto simp: active_ok_def pushed_core dest: in_set_dropD)
  show ?thesis
  proof (cases e)
    case False
    then have "sk_list (pushed q) \<noteq> []" using p(4) assms(4) by (simp add: pushed_core)
    then show ?thesis
      using a r set False assms(2,3) pushed_limit [OF a(1)]
      by (simp add: q_ok_def active_ok_def pushed_core in_list_def retry_ok_def)
  next
    case True
    have "rwnx_txq_is_stopped q \<or> sk_list (pushed q) = []"
      using a(1) p(3) assms(4) True sta_ps_stopped [of q] by (cases "push_limit q = 0") (auto simp: active_ok_def pushed_core)
    then show ?thesis
      using a r set True assms(3) pushed_limit [OF a(1)]
      by (auto simp: q_ok_def active_ok_def pushed_core in_list_def retry_ok_def status_bits rwnx_txq_is_stopped_def)
  qed
qed

lemma q_ok_flow: "q_ok nh t q \<Longrightarrow> q_ok nh t (q\<lparr>status := status q AND NOT RWNX_TXQ_NDEV_FLOW_CTRL\<rparr>)"
  by (auto simp: q_ok_def active_ok_def in_list_def rwnx_txq_is_stopped_def sta_ps_def retry_ok_def status_bits)

lemma queues_restart: "queues_ok hw \<Longrightarrow> queues_ok (ndev_flow_restart t hw)"
  using queues_upd [of hw t "\<lambda>q. q\<lparr>status := status q AND NOT RWNX_TXQ_NDEV_FLOW_CTRL\<rparr>"] q_ok_flow queues_at [of hw t]
  by (simp add: ndev_flow_restart_def Let_def)

lemma abort_sp_idle: "push_limit (txqs hw ! t) = 0 \<Longrightarrow> abort_sp t hw = hw"
  by (simp add: abort_sp_def Let_def split: option.split)

lemma del_hlist: "u \<noteq> t \<Longrightarrow> k < length (hwqs hw) \<Longrightarrow>
    u \<in> set (hlist (hwqs (rwnx_txq_del_from_hw_list t hw) ! k)) \<longleftrightarrow> u \<in> set (hlist (hwqs hw ! k))"
  by (simp add: rwnx_txq_del_from_hw_list_def)

lemma leave_hlist: "u \<noteq> t \<Longrightarrow> k < length (hwqs hw) \<Longrightarrow>
    u \<in> set (hlist (hwqs (leave_or_rotate h t e hw) ! k)) \<longleftrightarrow> u \<in> set (hlist (hwqs hw ! k))"
  by (simp add: leave_or_rotate_def del_hlist upd_hwq_nth)

lemma leave_txqs:
  assumes "t < length (txqs hw)"
  shows "\<exists>y. txqs (leave_or_rotate h t e hw) = (txqs hw)[t :=
    (let q = txqs hw ! t in
     if e then q\<lparr>status := status q AND NOT RWNX_TXQ_IN_HWQ_LIST, pkt_sent := 0\<rparr> else q\<lparr>pkt_sent := y\<rparr>)]"
proof -
  have "txqs hw = (txqs hw)[t := (txqs hw ! t)\<lparr>pkt_sent := pkt_sent (txqs hw ! t)\<rparr>]"
    using assms by simp
  then have "\<exists>y. txqs hw = (txqs hw)[t := (txqs hw ! t)\<lparr>pkt_sent := y\<rparr>]" by blast
  then show ?thesis
    using assms unfolding leave_or_rotate_def by (simp add: del_txqs upd_txq_def Let_def) blast
qed

lemma leave_bus [simp]: "bus (leave_or_rotate h t e hw) = bus hw"
  by (simp add: leave_or_rotate_def)

lemma flushed_nil: "sk_list q = [] \<Longrightarrow> q\<lparr>status := s, sk_list := []\<rparr> = q\<lparr>status := s\<rparr>"
  by (cases q) simp

text \<open>
  One turn of the loop.  It succeeds, keeps the invariants and the order of the frames, leaves the other
  queues alone and pushes at least one frame of an active queue.
\<close>

lemma process_turn:
  assumes s: "sched_ok hw" and Q: "queues_ok hw" and t: "t < length (txqs hw)" and l: "in_list (txqs hw ! t)"
  shows "\<exists>hw'. process_txq h t hw = Inr hw' \<and> queues_ok hw' \<and>
    (\<forall>u. sent u hw' @ waiting u hw' = sent u hw @ waiting u hw) \<and>
    (\<forall>u k. u \<noteq> t \<longrightarrow> k < length (hwqs hw) \<longrightarrow>
      (u \<in> set (hlist (hwqs hw' ! k)) \<longleftrightarrow> u \<in> set (hlist (hwqs hw ! k))) \<and> sent u hw' = sent u hw) \<and>
    (idx (txqs hw ! t) \<noteq> TXQ_INACTIVE \<longrightarrow> length (sent t hw) < length (sent t hw'))"
proof (cases "idx (txqs hw ! t) = TXQ_INACTIVE")
  case True
  let ?hw' = "rwnx_txq_flush t (rwnx_txq_del_from_hw_list t hw)"
  have q: "q_hwq (txqs hw ! t) < length (hwqs hw)" "sk_list (txqs hw ! t) = []"
    using queues_at [OF Q t] True by (simp_all add: q_ok_def)
  have qs: "txqs ?hw' = (txqs hw)[t := (txqs hw ! t)\<lparr>status := status (txqs hw ! t) AND NOT RWNX_TXQ_IN_HWQ_LIST\<rparr>]"
    using t q(2) by (simp add: rwnx_txq_flush_def upd_txq_def del_txqs flushed_nil)
  have "queues_ok ?hw'"
    by (rule queues_set [OF Q qs]) (simp_all add: rwnx_txq_flush_def q_ok_def True q)
  moreover have "sent u ?hw' = sent u hw" for u by (simp add: sent_def rwnx_txq_flush_def)
  moreover have "waiting u ?hw' = waiting u hw" for u
    using t q(2) by (cases "u < length (txqs hw)") (auto simp: waiting_def qs nth_list_update list_update_beyond)
  ultimately show ?thesis
    using t l True by (auto simp: process_txq_def Let_def rwnx_txq_flush_def del_hlist)
next
  case False
  let ?q = "txqs hw ! t"
  let ?n = "fst (rwnx_txq_get_skb_to_push ?q)" and ?e = "snd (rwnx_txq_get_skb_to_push ?q)"
  have ok: "q_ok (length (hwqs hw)) t ?q" by (rule queues_at [OF Q t])
  then have a: "active_ok t ?q" using False by (simp add: q_ok_def)
  define hw1 where "hw1 = upd_txq t (\<lambda>q. q\<lparr>sk_list := List.drop ?n (sk_list q)\<rparr>) hw"
  define hw2 where "hw2 = fold rwnx_tx_push (take ?n (sk_list ?q)) hw1"
  define hw3 where "hw3 = leave_or_rotate h t ?e hw2"
  have n: "?n \<le> length (sk_list ?q)" "0 < ?n"
    using to_push_active(1) [OF a] to_push_pos [of ?q] a l by (simp_all add: active_ok_def)
  have own: "\<forall>b\<in>set (take ?n (sk_list ?q)). tb_txq b = t"
    using a by (auto simp: active_ok_def dest: in_set_takeD)
  have qs2: "txqs hw2 = (txqs hw)[t := pushed ?q]"
    using push_fold_txqs [OF _ own, of hw1] t n(1) by (simp add: hw2_def hw1_def pushed_def Let_def min_absorb2) (simp add: upd_txq_def)
  obtain y where qs3: "txqs hw3 = (txqs hw)[t := if ?e then (pushed ?q)\<lparr>status := status ?q AND NOT RWNX_TXQ_IN_HWQ_LIST, pkt_sent := 0\<rparr>
      else (pushed ?q)\<lparr>pkt_sent := y\<rparr>]"
    using leave_txqs [of t hw2 h ?e] t by (auto simp: hw3_def qs2 Let_def pushed_core cong: if_cong)
  have ok3: "queues_ok hw3"
    by (rule queues_set [OF Q qs3]) (simp add: hw3_def hw2_def hw1_def push_fold_core, rule q_ok_pushed [OF ok l False refl])
  have "push_limit (txqs hw3 ! t) = 0"
    using t pushed_limit [OF a] by (simp add: qs3)
  then have P: "process_txq h t hw = Inr (ndev_flow_restart t hw3)"
    using t l False a
    by (simp add: process_txq_def Let_def case_prod_unfold active_ok_def rwnx_txq_skb_ready_def word_sle_eq
        hw3_def [symmetric] hw2_def [symmetric] hw1_def [symmetric] abort_sp_idle)
  have tags: "map tag (bus (ndev_flow_restart t hw3)) = map tag (bus hw) @ map tag (take ?n (sk_list ?q))"
    by (simp add: hw3_def hw2_def push_fold_tag) (simp add: hw1_def)
  have sent: "sent u (ndev_flow_restart t hw3) = sent u hw @ (if u = t then map tb_id (take ?n (sk_list ?q)) else [])" for u
    using own unfolding sent_def tags by (simp add: filter_map comp_def tag_def cong: filter_cong)
  have sk: "sk_list (txqs (ndev_flow_restart t hw3) ! u) = sk_list (txqs hw3 ! u)" for u
    using t by (cases "u = t") (simp_all add: ndev_flow_restart_def Let_def qs3, simp add: upd_txq_def qs3)
  have wait: "waiting u (ndev_flow_restart t hw3) = (if u = t then map tb_id (List.drop ?n (sk_list ?q)) else waiting u hw)" for u
    using t by (simp add: waiting_def sk qs3 pushed_core)
  have "map tb_id (take ?n (sk_list ?q)) @ map tb_id (List.drop ?n (sk_list ?q)) = waiting t hw"
    by (simp add: waiting_def map_append [symmetric] del: map_append)
  then have "sent u (ndev_flow_restart t hw3) @ waiting u (ndev_flow_restart t hw3) = sent u hw @ waiting u hw" for u
    by (simp add: sent wait)
  moreover have "u \<in> set (hlist (hwqs (ndev_flow_restart t hw3) ! k)) \<longleftrightarrow> u \<in> set (hlist (hwqs hw ! k))"
    if "u \<noteq> t" "k < length (hwqs hw)" for u k
    using that by (simp add: hw3_def leave_hlist hw2_def push_fold_core hw1_def)
  moreover have "length (sent t hw) < length (sent t (ndev_flow_restart t hw3))"
    using n by (auto simp: sent)
  ultimately show ?thesis
    using P queues_restart [OF ok3] sent by auto
qed

lemma process_hlist:
  assumes "process_txq h t hw = Inr hw'" and "h < length (hwqs hw)"
  shows "hlist (hwqs hw' ! h) \<in> {hlist (hwqs hw ! h), remove1 t (hlist (hwqs hw ! h)), rotate1 (hlist (hwqs hw ! h))}"
proof -
  have d: "hlist (hwqs (rwnx_txq_del_from_hw_list t hw2) ! h) \<in> {hlist (hwqs hw2 ! h), remove1 t (hlist (hwqs hw2 ! h))}"
    if "h < length (hwqs hw2)" for hw2
    using that by (simp add: rwnx_txq_del_from_hw_list_def)
  then have l: "hlist (hwqs (leave_or_rotate h t e hw2) ! h) \<in> {hlist (hwqs hw2 ! h), remove1 t (hlist (hwqs hw2 ! h)), rotate1 (hlist (hwqs hw2 ! h))}"
    if "h < length (hwqs hw2)" for e hw2
    using that by (auto simp: leave_or_rotate_def upd_hwq_nth)
  let ?n = "fst (rwnx_txq_get_skb_to_push (txqs hw ! t))" and ?e = "snd (rwnx_txq_get_skb_to_push (txqs hw ! t))"
  define hw2 where "hw2 = fold rwnx_tx_push (take ?n (sk_list (txqs hw ! t))) (upd_txq t (\<lambda>q. q\<lparr>sk_list := List.drop ?n (sk_list q)\<rparr>) hw)"
  have "hwqs hw2 = hwqs hw" by (simp add: hw2_def push_fold_core)
  then have l2: "hlist (hwqs (leave_or_rotate h t ?e hw2) ! h) \<in> {hlist (hwqs hw ! h), remove1 t (hlist (hwqs hw ! h)), rotate1 (hlist (hwqs hw ! h))}"
    using l [of hw2 ?e] assms(2) by simp
  have "hwqs hw' = hwqs (rwnx_txq_del_from_hw_list t hw) \<or> hwqs hw' = hwqs (leave_or_rotate h t ?e hw2)"
    using assms(1) by (auto simp: process_txq_def Let_def case_prod_unfold rwnx_txq_flush_def hw2_def split: if_splits)
  then show ?thesis using l2 d [OF assms(2)] by auto
qed

lemma map_idx_upd: "(\<And>q. idx (f q) = idx q) \<Longrightarrow> map idx (txqs (upd_txq t f hw)) = map idx (txqs hw)"
  by (rule nth_equalityI) (simp_all add: upd_txq_nth)

lemma core_idx: "map q_core qs = map q_core qs' \<Longrightarrow> map idx qs = map idx qs'"
proof -
  assume "map q_core qs = map q_core qs'"
  then have "map fst (map q_core qs) = map fst (map q_core qs')" by simp
  then show ?thesis by (simp add: comp_def q_core_def)
qed

lemma process_idx:
  assumes "process_txq h t hw = Inr hw'"
  shows "map idx (txqs hw') = map idx (txqs hw)"
proof -
  have d: "map idx (txqs (rwnx_txq_del_from_hw_list t hw2)) = map idx (txqs hw2)" for hw2
    using map_idx_upd [of "\<lambda>q. q\<lparr>status := status q AND NOT RWNX_TXQ_IN_HWQ_LIST\<rparr>" t hw2]
    by (simp add: rwnx_txq_del_from_hw_list_def)
  have a: "map idx (txqs (abort_sp t hw2)) = map idx (txqs hw2)" for hw2
    using map_idx_upd [of "\<lambda>q. q\<lparr>push_limit := 0\<rparr>" t "upd_sta _ _ hw2"] by (simp add: abort_sp_def Let_def split: option.split)
  have r: "map idx (txqs (ndev_flow_restart t hw2)) = map idx (txqs hw2)" for hw2
    using map_idx_upd [of "\<lambda>q. q\<lparr>status := status q AND NOT RWNX_TXQ_NDEV_FLOW_CTRL\<rparr>" t hw2] by (simp add: ndev_flow_restart_def Let_def)
  have l: "map idx (txqs (leave_or_rotate h t e hw2)) = map idx (txqs hw2)" for e hw2
    using map_idx_upd [of "\<lambda>q. q\<lparr>pkt_sent := 0\<rparr>" t] by (simp add: leave_or_rotate_def d)
  have f: "map idx (txqs (rwnx_txq_flush t hw2)) = map idx (txqs hw2)" for hw2
    using map_idx_upd [of "\<lambda>q. q\<lparr>sk_list := []\<rparr>" t hw2] by (simp add: rwnx_txq_flush_def)
  have "map idx (txqs (upd_txq t (\<lambda>q. q\<lparr>sk_list := x q\<rparr>) hw)) = map idx (txqs hw)" for x
    by (rule map_idx_upd) simp
  then show ?thesis
    using assms by (auto simp: process_txq_def Let_def case_prod_unfold d f a r l core_idx [OF push_fold_core(1)] split: if_splits)
qed

subsection \<open>The loop\<close>

lemma next_in_split: "next_in t xs = Some v \<Longrightarrow> \<exists>as bs. xs = as @ t # v # bs \<and> t \<notin> set as"
proof (induction xs)
  case (Cons x xs)
  show ?case
  proof (cases "x = t")
    case True
    then obtain bs where "xs = v # bs" using Cons.prems by (auto split: list.splits)
    then have "x # xs = [] @ t # v # bs" using True by simp
    then show ?thesis by (metis empty_iff empty_set)
  next
    case False
    then obtain as bs where "xs = as @ t # v # bs" "t \<notin> set as" using Cons by auto
    then have "x # xs = (x # as) @ t # v # bs \<and> t \<notin> set (x # as)" using False by simp
    then show ?thesis by blast
  qed
qed simp

lemma next_in_None: "next_in t xs = None \<Longrightarrow> t \<in> set xs \<Longrightarrow> distinct xs \<Longrightarrow> \<exists>as. xs = as @ [t]"
proof (induction xs)
  case (Cons x xs)
  then show ?case by (cases "x = t") (auto split: list.splits)
qed simp

text \<open>The queues that the loop has still to visit.\<close>

definition rest_of :: "nat option \<Rightarrow> nat list \<Rightarrow> nat set" where
  "rest_of cur xs = (case cur of None \<Rightarrow> {} | Some t \<Rightarrow> set (dropWhile (\<lambda>u. u \<noteq> t) xs))"

lemma dropWhile_split: "t \<notin> set as \<Longrightarrow> dropWhile (\<lambda>u. u \<noteq> t) (as @ t # bs) = t # bs"
  by (induction as) auto

lemma rest_step:
  assumes "distinct xs" and "t \<in> set xs" and "ys \<in> {xs, remove1 t xs, rotate1 xs}"
  shows "rest_of (Some t) xs \<subseteq> insert t (rest_of (next_in t xs) ys)"
proof (cases "next_in t xs")
  case None
  then obtain as where "xs = as @ [t]" using next_in_None assms(1,2) by blast
  then show ?thesis using assms(1) dropWhile_split [of t as "[]"] by (simp add: rest_of_def)
next
  case (Some v)
  then obtain as bs where x: "xs = as @ t # v # bs" using next_in_split by blast
  then have d: "t \<notin> set as" "v \<notin> set as" "v \<noteq> t" using assms(1) by auto
  have r: "dropWhile (\<lambda>u. u \<noteq> t) xs = t # v # bs" using dropWhile_split [OF d(1)] x by simp
  have "set (v # bs) \<subseteq> set (dropWhile (\<lambda>u. u \<noteq> v) ys)"
  proof -
    consider "ys = (as @ [t]) @ v # bs" | "ys = as @ v # bs" | "ys = rotate1 xs" using assms(3) x d(1) by (auto simp: remove1_append)
    then show ?thesis
    proof cases
      case 3
      show ?thesis
      proof (cases as)
        case Nil
        then have "ys = [] @ v # (bs @ [t])" using 3 x by simp
        then show ?thesis using dropWhile_split [of v "[]" "bs @ [t]"] by auto
      next
        case (Cons a as')
        then have y: "ys = (as' @ [t]) @ v # (bs @ [a])" using 3 x by simp
        show ?thesis unfolding y
          by (subst dropWhile_split) (use d Cons in auto)
      qed
    next
      case 1
      show ?thesis unfolding 1 by (subst dropWhile_split) (use d in auto)
    next
      case 2
      show ?thesis unfolding 2 by (subst dropWhile_split) (use d in auto)
    qed
  qed
  then show ?thesis using Some r by (auto simp: rest_of_def)
qed

lemma next_in_mem: "next_in t xs = Some v \<Longrightarrow> distinct xs \<Longrightarrow> v \<in> set xs \<and> v \<noteq> t"
  by (drule next_in_split) auto

lemma loop_ok:
  assumes "sched_ok hw" and "queues_ok hw" and "h < length (hwqs hw)"
    and "\<And>t. cur = Some t \<Longrightarrow> t \<in> set (hlist (hwqs hw ! h))"
  shows "\<exists>hw'. hwq_loop h cur hw = Inr hw' \<and> sched_ok hw' \<and> queues_ok hw' \<and>
    length (hwqs hw') = length (hwqs hw) \<and> map idx (txqs hw') = map idx (txqs hw) \<and>
    (\<forall>u. sent u hw' @ waiting u hw' = sent u hw @ waiting u hw \<and> length (sent u hw) \<le> length (sent u hw')) \<and>
    (\<forall>u\<in>rest_of cur (hlist (hwqs hw ! h)). idx (txqs hw ! u) \<noteq> TXQ_INACTIVE \<longrightarrow> length (sent u hw) < length (sent u hw'))"
  using assms
proof (induction h cur hw rule: hwq_loop.induct)
  case (1 h cur hw)
  show ?case
  proof (cases cur)
    case None
    then show ?thesis using 1 by (simp add: hwq_loop.simps rest_of_def)
  next
    case (Some t)
    let ?L = "hlist (hwqs hw ! h)"
    have t: "t \<in> set ?L" "t < length (txqs hw)" "in_list (txqs hw ! t)" "distinct ?L" "\<forall>u\<in>set ?L. u < length (txqs hw)"
      using 1(5) [OF Some] 1(2,4) by (auto simp: sched_ok_def)
    obtain hw1 where p: "process_txq h t hw = Inr hw1" "queues_ok hw1"
      "\<And>u. sent u hw1 @ waiting u hw1 = sent u hw @ waiting u hw"
      "\<And>u k. u \<noteq> t \<Longrightarrow> k < length (hwqs hw) \<Longrightarrow> (u \<in> set (hlist (hwqs hw1 ! k)) \<longleftrightarrow> u \<in> set (hlist (hwqs hw ! k))) \<and> sent u hw1 = sent u hw"
      "idx (txqs hw ! t) \<noteq> TXQ_INACTIVE \<longrightarrow> length (sent t hw) < length (sent t hw1)"
      using process_turn [OF 1(2,3) t(2,3)] by blast
    note s = process_sched [OF 1(2) p(1)]
    have "sent t hw1 = sent t hw" if "idx (txqs hw ! t) = TXQ_INACTIVE"
      using p(1) t(2,3) that by (auto simp: process_txq_def Let_def rwnx_txq_flush_def sent_def)
    then have tt: "length (sent u hw) \<le> length (sent u hw1)" for u
      using p(4) [of u h] 1(4) p(5) by (cases "u = t"; cases "idx (txqs hw ! t) = TXQ_INACTIVE") auto
    have nx: "v \<in> set (hlist (hwqs hw1 ! h))" if "next_in t ?L = Some v" for v
      using next_in_mem [OF that t(4)] p(4) [of v h] 1(4) by simp
    obtain hw' where r: "hwq_loop h (next_in t ?L) hw1 = Inr hw'" "sched_ok hw'" "queues_ok hw'" "length (hwqs hw') = length (hwqs hw1)"
      "map idx (txqs hw') = map idx (txqs hw1)"
      "\<forall>u. sent u hw' @ waiting u hw' = sent u hw1 @ waiting u hw1 \<and> length (sent u hw1) \<le> length (sent u hw')"
      "\<forall>u\<in>rest_of (next_in t ?L) (hlist (hwqs hw1 ! h)). idx (txqs hw1 ! u) \<noteq> TXQ_INACTIVE \<longrightarrow> length (sent u hw1) < length (sent u hw')"
      using 1(1) [OF Some p(1) s(1) p(2)] 1(4) s(2) nx by fastforce
    have i: "map idx (txqs hw1) = map idx (txqs hw)" by (rule process_idx [OF p(1)])
    have new: "length (sent u hw) < length (sent u hw')" if u: "u \<in> rest_of (Some t) ?L" "idx (txqs hw ! u) \<noteq> TXQ_INACTIVE" for u
    proof (cases "u = t")
      case True
      then show ?thesis using p(5) u(2) r(6) by (meson order_less_le_trans)
    next
      case False
      then have n: "u \<in> rest_of (next_in t ?L) (hlist (hwqs hw1 ! h))"
        using rest_step [OF t(4,1) process_hlist [OF p(1) 1(4)]] u(1) by auto
      have "u < length (txqs hw)" using u(1) t(5) by (auto simp: rest_of_def dest: set_dropWhileD)
      then have "idx (txqs hw1 ! u) = idx (txqs hw ! u)" using i s(3) by (metis nth_map)
      then show ?thesis using r(7) n u(2) tt [of u] by (metis order_le_less_trans)
    qed
    have "hwq_loop h cur hw = Inr hw'"
      using p(1) r(1) Some by (simp add: hwq_loop.simps [of h "Some t" hw])
    then show ?thesis
      using Some p(3) r(2-6) s(2) i tt new by (intro exI [of _ hw']) (auto intro: order_trans)
  qed
qed

text \<open>
  What processing a hardware queue guarantees: it succeeds, keeps the invariants and the order of the
  frames, and every active queue of the list gets a frame out.
\<close>

definition processed :: "tx_hw \<Rightarrow> tx_hw \<Rightarrow> bool" where
  "processed hw hw' \<longleftrightarrow> sched_ok hw' \<and> queues_ok hw' \<and> length (hwqs hw') = length (hwqs hw) \<and>
     map idx (txqs hw') = map idx (txqs hw) \<and>
     (\<forall>u. sent u hw' @ waiting u hw' = sent u hw @ waiting u hw \<and> length (sent u hw) \<le> length (sent u hw'))"

lemma processed_refl: "sched_ok hw \<Longrightarrow> queues_ok hw \<Longrightarrow> processed hw hw"
  by (simp add: processed_def)

lemma processed_trans: "processed hw hw1 \<Longrightarrow> processed hw1 hw2 \<Longrightarrow> processed hw hw2"
  by (auto simp: processed_def intro: order_trans)

lemma rest_of_hd: "rest_of (case xs of [] \<Rightarrow> None | t # _ \<Rightarrow> Some t) xs = set xs"
  by (simp add: rest_of_def split: list.split)

lemma hwq_process_ok:
  assumes "sched_ok hw" and "queues_ok hw" and h: "h < length (hwqs hw)"
  shows "\<exists>hw'. rwnx_hwq_process h hw = Inr hw' \<and> processed hw hw' \<and>
    (\<forall>u\<in>set (hlist (hwqs hw ! h)). idx (txqs hw ! u) \<noteq> TXQ_INACTIVE \<longrightarrow> length (sent u hw) < length (sent u hw'))"
proof -
  let ?hw1 = "upd_hwq h (\<lambda>h. h\<lparr>need_processing := False\<rparr>) hw"
  let ?cur = "case hlist (hwqs ?hw1 ! h) of [] \<Rightarrow> None | t # _ \<Rightarrow> Some t"
  have hl: "hlist (hwqs ?hw1 ! h) = hlist (hwqs hw ! h)" using h by (simp add: upd_hwq_nth)
  have sw: "sent u ?hw1 = sent u hw" "waiting u ?hw1 = waiting u hw" for u by (simp_all add: sent_def waiting_def)
  have "sched_ok ?hw1" by (rule sched_rotate [OF assms(1)]) simp
  moreover have "queues_ok ?hw1" using assms(2) by (simp add: queues_ok_def)
  moreover have "t \<in> set (hlist (hwqs ?hw1 ! h))" if "?cur = Some t" for t using that by (auto split: list.splits)
  ultimately obtain hw' where "hwq_loop h ?cur ?hw1 = Inr hw'" "processed ?hw1 hw'"
    "\<forall>u\<in>rest_of ?cur (hlist (hwqs ?hw1 ! h)). idx (txqs ?hw1 ! u) \<noteq> TXQ_INACTIVE \<longrightarrow> length (sent u ?hw1) < length (sent u hw')"
    using loop_ok [of ?hw1 h ?cur] h unfolding processed_def by (simp del: upd_hwq_simps(1)) blast
  then show ?thesis
    unfolding rest_of_hd hl by (intro exI [of _ hw']) (simp add: rwnx_hwq_process_def Let_def processed_def sw hl)
qed

lemma process_from_ok:
  "sched_ok hw \<Longrightarrow> queues_ok hw \<Longrightarrow> \<forall>h\<in>set hs. h < length (hwqs hw) \<Longrightarrow>
   \<exists>hw'. process_from hs hw = Inr hw' \<and> processed hw hw'"
proof (induction hs arbitrary: hw)
  case Nil
  then show ?case by (simp add: processed_refl)
next
  case (Cons h hs)
  have "\<exists>hw1. (if need_processing (hwqs hw ! h) then rwnx_hwq_process h hw else Inr hw) = Inr hw1 \<and> processed hw hw1"
    using hwq_process_ok [of hw h] Cons.prems processed_refl by auto
  then obtain hw1 where h: "(if need_processing (hwqs hw ! h) then rwnx_hwq_process h hw else Inr hw) = Inr hw1" "processed hw hw1"
    by blast
  obtain hw' where "process_from hs hw1 = Inr hw'" "processed hw1 hw'"
    using Cons.IH [of hw1] Cons.prems(3) h(2) by (auto simp: processed_def)
  then show ?case using h processed_trans by auto
qed

lemma process_all_ok:
  "sched_ok hw \<Longrightarrow> queues_ok hw \<Longrightarrow> \<exists>hw'. rwnx_hwq_process_all hw = Inr hw' \<and> processed hw hw'"
  unfolding rwnx_hwq_process_all_def by (rule process_from_ok) auto

end
