(* ===== verification/TxPath.thy ===== *)
theory TxPath
  imports TxQueue
begin

unbundle bit_operations_syntax

section \<open>Transmit path\<close>

text \<open>
  The entry points of \<open>rwnx_tx.c\<close> above the queues: the choice of a queue for a frame of the network
  stack, the transmission of data and management frames, the confirmations of the firmware
  (\<open>usb_host.c\<close>), the power save of the receivers and the messages of the firmware that start them
  (\<open>rwnx_msg_rx.c\<close>).  \<open>TxReach\<close> makes the operations the steps of a transition relation and proves the
  invariant of its reachable states; \<open>TxProps\<close> draws the consequences.
\<close>

subsection \<open>The hardware queues at start\<close>

definition NX_TXQ_CNT :: nat where "NX_TXQ_CNT = 5"

definition rwnx_hwq_init :: "tx_hw \<Rightarrow> tx_hw" where
  "rwnx_hwq_init hw =
     hw\<lparr>hwqs := map (\<lambda>i. (hwqs hw ! i)\<lparr>hsize := nx_txdesc_cnt ! i, hlist := []\<rparr>) [0..<NX_TXQ_CNT]\<rparr>"

subsection \<open>Power save of a station\<close>

definition PS_SP_INTERRUPTED :: u16 where "PS_SP_INTERRUPTED = 255"

definition set_pkt_ready :: "nat \<Rightarrow> nat \<Rightarrow> u16 \<Rightarrow> tx_hw \<Rightarrow> tx_hw" where
  "set_pkt_ready s i n = upd_sta s (\<lambda>st. st\<lparr>pkt_ready := (pkt_ready st)(i := n)\<rparr>)"

definition set_sp_cnt :: "nat \<Rightarrow> nat \<Rightarrow> u16 \<Rightarrow> tx_hw \<Rightarrow> tx_hw" where
  "set_sp_cnt s i n = upd_sta s (\<lambda>st. st\<lparr>sp_cnt := (sp_cnt st)(i := n)\<rparr>)"

definition set_push_limit :: "u8 \<Rightarrow> nat \<Rightarrow> tx_hw \<Rightarrow> tx_hw" where
  "set_push_limit n t = upd_txq t (\<lambda>q. q\<lparr>push_limit := n\<rparr>)"

text \<open>The frames that wait for a station that goes to sleep.\<close>

definition count_waiting :: "nat \<Rightarrow> tx_hw \<Rightarrow> tx_hw" where
  "count_waiting s hw =
     (if is_multicast_sta (old_ic hw) s then
        set_pkt_ready s UAPSD_ID 0
          (set_pkt_ready s LEGACY_PS_ID (of_nat (length (sk_list (txqs hw ! rwnx_txq_sta_get s 0 hw)))) hw)
      else
        fold (\<lambda>t hw. let q = txqs hw ! t in
                set_pkt_ready s (ps_id q) (pkt_ready (tx_stas hw ! s) (ps_id q) + of_nat (length (sk_list q))) hw)
          (foreach_sta_txq s hw) (set_pkt_ready s UAPSD_ID 0 (set_pkt_ready s LEGACY_PS_ID 0 hw)))"

text \<open>The second component tells whether the transmit task is scheduled.\<close>

definition ps_on :: "nat \<Rightarrow> tx_hw \<Rightarrow> tx_hw" where
  "ps_on s hw =
     count_waiting s
       (rwnx_txq_sta_stop RWNX_TXQ_STOP_STA_PS s
         (set_sp_cnt s UAPSD_ID 0 (set_sp_cnt s LEGACY_PS_ID 0 (upd_sta s (\<lambda>st. st\<lparr>ps_active := True\<rparr>) hw))))"

definition ps_off :: "nat \<Rightarrow> tx_hw \<Rightarrow> tx_hw" where
  "ps_off s hw =
     (let hw1 = upd_sta s (\<lambda>st. st\<lparr>ps_active := False\<rparr>) hw;
          hw2 = (if is_multicast_sta (old_ic hw1) s
                 then upd_txq (rwnx_txq_sta_get s 0 hw1) (\<lambda>q. q\<lparr>q_hwq := RWNX_HWQ_BE, push_limit := 0\<rparr>) hw1
                 else fold (set_push_limit 0) (foreach_sta_txq s hw1) hw1);
          hw3 = rwnx_txq_sta_start RWNX_TXQ_STOP_STA_PS s hw2
      in if pkt_ready (tx_stas hw3 ! s) LEGACY_PS_ID \<noteq> 0 then rwnx_set_traffic_status s False LEGACY_PS_ID hw3
         else hw3)"

definition rwnx_ps_bh_enable :: "nat \<Rightarrow> bool \<Rightarrow> tx_hw \<Rightarrow> tx_hw \<times> bool" where
  "rwnx_ps_bh_enable s enable hw = (if enable then (ps_on s hw, False) else (ps_off s hw, True))"

text \<open>
  The dispatch of a request over the queues of a station.  The queues are visited in the order of
  \<open>nx_tid_prio\<close>; the loop of the code reads one element behind that array after the last turn, which has
  no effect here.
\<close>

definition limit_and_list :: "nat \<Rightarrow> nat \<Rightarrow> u16 \<Rightarrow> nat \<Rightarrow> tx_hw \<Rightarrow> tx_hw" where
  "limit_and_list s ps n t hw =
     rwnx_txq_add_to_hw_list t
       (set_sp_cnt s ps (sp_cnt (tx_stas hw ! s) ps + n) (set_push_limit (ucast n) t hw))"

fun dispatch_req :: "nat \<Rightarrow> nat \<Rightarrow> u16 \<Rightarrow> nat list \<Rightarrow> tx_hw \<Rightarrow> tx_hw" where
  "dispatch_req s ps req [] hw = hw"
| "dispatch_req s ps req (t # ts) hw =
     (let q = txqs hw ! t;
          len = (of_nat (length (sk_list q)) :: u16);
          n = (if sint (credits q) < int (unat len) then word_of_int (sint (credits q)) else len)
      in if ps_id q \<noteq> ps \<or> n = 0 then dispatch_req s ps req ts hw
         else if n < req then dispatch_req s ps (req - n) ts (limit_and_list s ps n t hw)
         else limit_and_list s ps req t hw)"

definition rwnx_ps_bh_traffic_req :: "nat \<Rightarrow> u16 \<Rightarrow> nat \<Rightarrow> tx_hw \<Rightarrow> tx_hw \<times> bool" where
  "rwnx_ps_bh_traffic_req s pkt_req ps hw =
     (let st = tx_stas hw ! s in
      if \<not> ps_active st then (hw, False)
      else if pkt_req = PS_SP_INTERRUPTED \<and> ps = UAPSD_ID then
        (fold (set_push_limit 0) (foreach_sta_txq s hw) (set_sp_cnt s ps 0 hw), False)
      else
        (let all = int (unat (pkt_ready st ps)) - int (unat (sp_cnt st ps)) in
         if sp_cnt st ps \<noteq> 0 \<or> all \<le> 0 then (hw, False)
         else
           (let req = (if pkt_req = 0 \<or> all < int (unat pkt_req) then word_of_int all else pkt_req);
                hw1 = set_sp_cnt s ps 0 hw
            in if is_multicast_sta (old_ic hw) s then
                 (let t = rwnx_txq_sta_get s 0 hw1; q = txqs hw1 ! t;
                      req = (if sint (credits q) < int (unat req) then word_of_int (sint (credits q)) else req)
                  in (rwnx_txq_add_to_hw_list t (set_sp_cnt s ps req (set_push_limit (ucast req) t hw1)), True))
               else (dispatch_req s ps req (foreach_sta_txq_prio s hw1) hw1, True))))"

subsection \<open>The queue for a frame\<close>

text \<open>
  A frame of the network stack (\<open>struct sk_buff\<close>): its data from the Ethernet header on, its priority and
  the queue of the interface in which the network stack has put it.
\<close>

record tx_skb =
  sk_id :: nat
  sk_data :: bytes
  sk_prio :: nat
  sk_map :: nat

definition PRIO_STA_NULL :: nat where "PRIO_STA_NULL = 0xAA"

definition rwnx_down_hwq2tid :: "nat list" where
  "rwnx_down_hwq2tid = [2, 3, 5]"

text \<open>\<open>downgrade ac prio\<close> is the loop of \<open>rwnx_downgrade_ac\<close>.\<close>

fun downgrade :: "u8 \<Rightarrow> nat \<Rightarrow> nat \<Rightarrow> nat" where
  "downgrade a 0 prio = (if bit a 0 then 1 else prio)"
| "downgrade a (Suc ac) prio = (if bit a (Suc ac) then downgrade a ac (rwnx_down_hwq2tid ! ac) else prio)"

definition rwnx_downgrade_ac :: "u8 \<Rightarrow> nat \<Rightarrow> nat tx_result" where
  "rwnx_downgrade_ac a prio =
     (if length rwnx_tid2hwq \<le> prio then Inl Tx_index else Inr (downgrade a (rwnx_tid2hwq ! prio) prio))"

definition eth_dest :: "bytes \<Rightarrow> bytes" where "eth_dest d = take 6 d"
definition eth_source :: "bytes \<Rightarrow> bytes" where "eth_source d = take 6 (List.drop 6 d)"

definition eth_h_proto :: "bytes \<Rightarrow> u16" where
  "eth_h_proto d = ucast (d ! 12) OR push_bit 8 (ucast (d ! 13))"

definition ETH_P_TDLS_be :: u16 where "ETH_P_TDLS_be = 0x0D89"

definition tx_is_multicast :: "bytes \<Rightarrow> bool" where
  "tx_is_multicast a \<longleftrightarrow> bit (hd a) 0"

definition sta_with_mac :: "bytes \<Rightarrow> nat list \<Rightarrow> tx_hw \<Rightarrow> nat option" where
  "sta_with_mac mac ss hw = find (\<lambda>s. sta_mac (tx_stas hw ! s) = mac) ss"

definition tdls_peer :: "tx_vif \<Rightarrow> bytes \<Rightarrow> tx_hw \<Rightarrow> nat option" where
  "tdls_peer vif dest hw =
     (case v_tdls_sta vif of
        Some s \<Rightarrow> if v_tdls_active vif \<and> sta_mac (tx_stas hw ! s) = dest then Some s else None
      | None \<Rightarrow> None)"

text \<open>The entry of the mesh proxy table for an external address.\<close>

definition rwnx_get_mesh_proxy_info :: "tx_vif \<Rightarrow> bytes \<Rightarrow> bool \<Rightarrow> (bytes \<times> bytes \<times> bool) option" where
  "rwnx_get_mesh_proxy_info vif addr local =
     find (\<lambda>(ext, proxy, loc). loc = local \<and> ext = addr) (v_proxies vif)"

datatype mesh_req = Mesh_proxy_add bytes | Mesh_path_create bytes

definition mesh_sta :: "tx_vif \<Rightarrow> bytes \<Rightarrow> nat option \<times> mesh_req list" where
  "mesh_sta vif d =
     (let proxy = (if \<not> v_is_resending vif \<and> eth_source d \<noteq> v_perm_addr vif \<and>
                      rwnx_get_mesh_proxy_info vif (eth_source d) True = None
                   then [Mesh_proxy_add (eth_source d)] else [])
      in if tx_is_multicast (eth_dest d) then (Some (v_bcmc_index vif), proxy)
         else
           (let tgt = (case rwnx_get_mesh_proxy_info vif (eth_dest d) False of
                         Some (_, p, _) \<Rightarrow> p | None \<Rightarrow> eth_dest d)
            in case find (\<lambda>(mac, _). mac = tgt) (v_mpaths vif) of
                 Some (_, hop) \<Rightarrow> (hop, proxy)
               | None \<Rightarrow> (None, proxy @ [Mesh_path_create tgt])))"

definition ap_sta :: "tx_vif \<Rightarrow> bytes \<Rightarrow> tx_hw \<Rightarrow> nat option" where
  "ap_sta vif d hw =
     (if tx_is_multicast (eth_dest d) then Some (v_bcmc_index vif)
      else sta_with_mac (eth_dest d) (v_sta_list vif) hw)"

text \<open>
  The receiver.  For an AP VLAN, \<open>v_sta_list\<close> and \<open>v_bcmc_index\<close> are those of the master interface.
\<close>

definition select_sta :: "tx_vif \<Rightarrow> bytes \<Rightarrow> tx_hw \<Rightarrow> nat option \<times> mesh_req list" where
  "select_sta vif d hw =
     (case v_type vif of
        VIF_STATION \<Rightarrow> (case tdls_peer vif (eth_dest d) hw of Some s \<Rightarrow> Some s | None \<Rightarrow> v_ap vif, [])
      | VIF_P2P_CLIENT \<Rightarrow> (case tdls_peer vif (eth_dest d) hw of Some s \<Rightarrow> Some s | None \<Rightarrow> v_ap vif, [])
      | VIF_AP_VLAN \<Rightarrow> (case v_sta_4a vif of Some s \<Rightarrow> Some s | None \<Rightarrow> ap_sta vif d hw, [])
      | VIF_AP \<Rightarrow> (ap_sta vif d hw, [])
      | VIF_P2P_GO \<Rightarrow> (ap_sta vif d hw, [])
      | VIF_MESH_POINT \<Rightarrow> mesh_sta vif d
      | _ \<Rightarrow> (None, []))"

definition tdls_mgmt_frame :: "tx_vif \<Rightarrow> bytes \<Rightarrow> bool" where
  "tdls_mgmt_frame vif d \<longleftrightarrow>
     (v_type vif = VIF_STATION \<or> v_type vif = VIF_P2P_CLIENT) \<and> eth_h_proto d = ETH_P_TDLS_be"

text \<open>
  \<open>classify\<close> stands for the kernel's \<open>cfg80211_classify8021d\<close>.  The result is the queue of the
  interface, the frame with its new priority and the requests to the firmware.  The kernel hands over
  frames with a whole Ethernet header.
\<close>

definition rwnx_select_txq ::
    "(bytes \<Rightarrow> nat) \<Rightarrow> tx_vif \<Rightarrow> tx_skb \<Rightarrow> tx_hw \<Rightarrow> (nat \<times> tx_skb \<times> mesh_req list) tx_result" where
  "rwnx_select_txq classify vif skb hw =
     (let d = sk_data skb; (sta, reqs) = select_sta vif d hw in
      bind_tx
        (case sta of
           Some s \<Rightarrow>
             (let st = tx_stas hw ! s in
              if sta_qos st then
                (let skb1 = (if tdls_mgmt_frame vif d then skb\<lparr>sk_map := NX_STA_NDEV_IDX (sk_prio skb) s mod 0x10000\<rparr>
                             else skb\<lparr>sk_prio := classify d mod 8\<rparr>)
                 in bind_tx (if acm st \<noteq> 0 then rwnx_downgrade_ac (acm st) (sk_prio skb1) else Inr (sk_prio skb1))
                      (\<lambda>p. Inr (ndev_idx (txqs hw ! rwnx_txq_sta_get s (p mod 0x100) hw), skb1\<lparr>sk_prio := p\<rparr>, reqs)))
              else Inr (ndev_idx (txqs hw ! rwnx_txq_sta_get s 0 hw), skb\<lparr>sk_prio := 0xFF\<rparr>, reqs))
         | None \<Rightarrow> Inr (nx_bcmc_txq_ndev_idx (old_ic hw), skb\<lparr>sk_prio := PRIO_STA_NULL\<rparr>, reqs))
        (\<lambda>r. if NX_NB_NDEV_TXQ \<le> fst r then Inl Tx_bug else Inr r))"

text \<open>The receiver read back from the queue of the interface.\<close>

definition rwnx_get_tx_priv :: "tx_vif \<Rightarrow> tx_skb \<Rightarrow> tx_hw \<Rightarrow> (nat option \<times> u8) tx_result" where
  "rwnx_get_tx_priv vif skb hw =
     (if sk_prio skb = PRIO_STA_NULL then Inr (None, of_nat (sk_prio skb))
      else
        (let s = (if sk_map skb = nx_bcmc_txq_ndev_idx (old_ic hw)
                  then nx_remote_sta_max (old_ic hw) + master_vif_idx vif
                  else sk_map skb div NX_NB_TID_PER_STA)
         in if length (tx_stas hw) \<le> s then Inl Tx_index else Inr (Some s, of_nat (sk_prio skb))))"

subsection \<open>Sending\<close>

datatype xmit_result = Xmit_freed | Xmit_filtered | Xmit_queued

definition MAX_TCP_ACK_TX :: nat where "MAX_TCP_ACK_TX = 200"

text \<open>The priority rule of \<open>rwnx_start_xmit\<close>: the background classes 1 and 2 become best effort.\<close>

definition xmit_prio :: "nat \<Rightarrow> nat" where
  "xmit_prio p = (if p < 3 then 0 else p)"

definition to_peer :: "tx_vif \<Rightarrow> bytes \<Rightarrow> tx_hw \<Rightarrow> bool" where
  "to_peer vif d hw \<longleftrightarrow> tdls_peer vif (eth_dest d) hw \<noteq> None"

text \<open>The descriptor of a data frame for the receiver \<open>s\<close>; the Ethernet header is taken off the frame.\<close>

definition data_buf :: "tx_vif \<Rightarrow> tx_skb \<Rightarrow> nat \<Rightarrow> u8 \<Rightarrow> nat \<Rightarrow> tx_hw \<Rightarrow> tx_buf" where
  "data_buf vif skb s tid t hw =
     (let d = sk_data skb in
      \<lparr>tb_id = sk_id skb, tb_sta = Some s, tb_vif = master_vif_idx vif, tb_mesh = (v_type vif = VIF_MESH_POINT),
       tb_txq = t, tb_hwq = 0,
       tb_flags = (if v_use_4addr vif \<and> s < NX_REMOTE_STA_MAX then TXU_CNTRL_USE_4ADDR else 0)
         OR (if to_peer vif d hw then TXU_CNTRL_TDLS else 0)
         OR (if v_type vif = VIF_MESH_POINT \<and> v_is_resending vif then TXU_CNTRL_MESH_FWD else 0),
       tb_ethertype = eth_h_proto d, tb_eth = take 12 d, tb_staid = s, tb_tid = tid,
       tb_fc = (case List.drop 14 d of [] \<Rightarrow> 0 | x # _ \<Rightarrow> x), tb_payload = List.drop 14 d,
       frame_len = of_nat (length d - 14), need_cfm = False, raw_frame = False, fixed_rate = False,
       rate_config = 0, status_desc_addr = 0\<rparr>)"

text \<open>Queueing a frame and processing its hardware queue when it can be sent.\<close>

definition queue_and_process :: "tx_buf \<Rightarrow> nat \<Rightarrow> tx_hw \<Rightarrow> tx_hw tx_result" where
  "queue_and_process b t hw =
     (let (go, hw1) = rwnx_txq_queue_skb b t False hw
      in if go then rwnx_hwq_process (q_hwq (txqs hw1 ! t)) hw1 else Inr hw1)"

text \<open>
  \<open>copy_ok\<close> and \<open>hdr_ok\<close> tell whether the copy of a shared frame and the allocation of the descriptor
  succeed.  \<open>ack_filter\<close> is the verdict of \<open>filter_send_tcp_ack\<close>, which is modelled in \<open>TcpAck\<close>.
\<close>

definition rwnx_start_xmit ::
    "bool \<Rightarrow> bool \<Rightarrow> (bytes \<Rightarrow> bool) \<Rightarrow> tx_vif \<Rightarrow> tx_skb \<Rightarrow> tx_hw \<Rightarrow> (xmit_result \<times> tx_hw) tx_result" where
  "rwnx_start_xmit copy_ok hdr_ok ack_filter vif skb hw =
     (if \<not> copy_ok then Inr (Xmit_freed, hw)
      else
        (let skb1 = skb\<lparr>sk_prio := xmit_prio (sk_prio skb)\<rparr>; d = sk_data skb1 in
         if length d mod 0x10000 \<le> MAX_TCP_ACK_TX \<and> ack_filter d then Inr (Xmit_filtered, hw)
         else if length d < 14 then Inl Tx_index
         else
           bind_tx (rwnx_get_tx_priv vif skb1 hw) (\<lambda>(sta, tid).
             case sta of
               None \<Rightarrow> Inr (Xmit_freed, hw)
             | Some s \<Rightarrow>
                 (let t = rwnx_txq_sta_get s (unat tid) hw in
                  if length (txqs hw) \<le> t then Inl Tx_index
                  else if idx (txqs hw ! t) = TXQ_INACTIVE \<or> \<not> hdr_ok then Inr (Xmit_freed, hw)
                  else
                    (let b = data_buf vif skb1 s tid t hw;
                         hw1 = (if to_peer vif d hw
                                then upd_sta (the (v_tdls_sta vif)) (\<lambda>st. st\<lparr>last_tid := tid\<rparr>) hw else hw)
                     in bind_tx (queue_and_process b t hw1) (\<lambda>hw2. Inr (Xmit_queued, hw2)))))))"

datatype mgmt_result = Mgmt_busy | Mgmt_nomem | Mgmt_ok

text \<open>The beacon counters in a frame that announces a channel switch.\<close>

fun put_csa :: "u8 \<Rightarrow> nat list \<Rightarrow> bytes \<Rightarrow> bytes tx_result" where
  "put_csa n [] d = Inr d"
| "put_csa n (i # is) d = (if length d \<le> i then Inl Tx_index else put_csa n is (d[i := n]))"

definition mgmt_buf :: "tx_vif \<Rightarrow> nat \<Rightarrow> nat option \<Rightarrow> nat \<Rightarrow> bool \<Rightarrow> bool \<Rightarrow> bytes \<Rightarrow> tx_buf" where
  "mgmt_buf vif i sta t rob no_cck d =
     \<lparr>tb_id = i, tb_sta = sta, tb_vif = v_index vif, tb_mesh = (v_type vif = VIF_MESH_POINT),
      tb_txq = t, tb_hwq = 0,
      tb_flags = TXU_CNTRL_MGMT OR (if rob then TXU_CNTRL_MGMT_ROBUST else 0)
        OR (if no_cck then TXU_CNTRL_MGMT_NO_CCK else 0),
      tb_ethertype = 0, tb_eth = [], tb_staid = (case sta of Some s \<Rightarrow> s | None \<Rightarrow> 0xFF), tb_tid = 0xFF,
      tb_fc = (case d of [] \<Rightarrow> 0 | x # _ \<Rightarrow> x), tb_payload = d, frame_len = of_nat (length d),
      need_cfm = False, raw_frame = False, fixed_rate = False, rate_config = 0, status_desc_addr = 0\<rparr>"

definition mgmt_txq :: "tx_vif \<Rightarrow> nat option \<Rightarrow> bool \<Rightarrow> tx_hw \<Rightarrow> nat" where
  "mgmt_txq vif sta offchan hw =
     (case sta of
        Some s \<Rightarrow> rwnx_txq_sta_get s 8 hw
      | None \<Rightarrow> if offchan then nx_off_chan_txq_idx (old_ic hw)
                else rwnx_txq_vif_get (master_vif_idx vif) NX_UNK_TXQ_TYPE hw)"

text \<open>
  \<open>robust\<close> stands for the kernel's \<open>ieee80211_is_robust_mgmt_frame\<close>; \<open>i\<close> is the cookie, the identity of
  the new buffer.  The length of the frame is cut to 16 bits.
\<close>

definition rwnx_start_mgmt_xmit ::
    "bool \<Rightarrow> bool \<Rightarrow> (bytes \<Rightarrow> bool) \<Rightarrow> tx_vif \<Rightarrow> nat option \<Rightarrow> bool \<Rightarrow> nat \<Rightarrow> bytes \<Rightarrow> bool \<Rightarrow> nat list \<Rightarrow> tx_hw
     \<Rightarrow> (mgmt_result \<times> tx_hw) tx_result" where
  "rwnx_start_mgmt_xmit skb_ok hdr_ok robust vif sta offchan i buf no_cck csa_offsets hw =
     (let t = mgmt_txq vif sta offchan hw in
      if length (txqs hw) \<le> t then Inl Tx_index
      else if idx (txqs hw ! t) = TXQ_INACTIVE then Inr (Mgmt_busy, hw)
      else if \<not> skb_ok then Inr (Mgmt_nomem, hw)
      else
        (let d = take (length buf mod 0x10000) buf in
         bind_tx (case v_csa vif of
                    Some n \<Rightarrow> if v_type vif = VIF_AP then put_csa n csa_offsets d else Inr d
                  | None \<Rightarrow> Inr d) (\<lambda>d1.
           if \<not> hdr_ok then Inr (Mgmt_nomem, hw)
           else bind_tx (queue_and_process (mgmt_buf vif i sta t (robust d) no_cck d1) t hw)
                  (\<lambda>hw1. Inr (Mgmt_ok, hw1)))))"

subsection \<open>Confirmation\<close>

definition TX_RETRY_REQUIRED :: u32 where "TX_RETRY_REQUIRED = 2"
definition TX_SW_RETRY_REQUIRED :: u32 where "TX_SW_RETRY_REQUIRED = 4"
definition TX_ACKNOWLEDGED :: u32 where "TX_ACKNOWLEDGED = 8"

definition rwnx_tx_retry :: "tx_buf \<Rightarrow> bool \<Rightarrow> tx_hw \<Rightarrow> tx_hw" where
  "rwnx_tx_retry b sw_retry hw =
     (let b1 = (if sw_retry then b else b\<lparr>tb_flags := tb_flags b OR TXU_CNTRL_RETRY\<rparr>);
          b2 = b1\<lparr>tb_flags := tb_flags b1 AND NOT TXU_CNTRL_MORE_DATA\<rparr>;
          t = tb_txq b;
          hw1 = upd_txq t (\<lambda>q. q\<lparr>credits := credits q + 1\<rparr>) hw;
          hw2 = (if 0 <s credits (txqs hw1 ! t) then rwnx_txq_start t RWNX_TXQ_STOP_FULL hw1 else hw1)
      in snd (rwnx_txq_queue_skb b2 t True hw2))"

text \<open>
  The confirmation of a buffer with its status; the result tells whether the buffer was taken.
  \<open>usb_down\<close> is the state of the bus.  The counters of \<open>stats\<close> and \<open>net_stats\<close> are left out.
\<close>

definition rwnx_txdatacfm :: "bool \<Rightarrow> tx_buf \<Rightarrow> u32 \<Rightarrow> tx_hw \<Rightarrow> bool \<times> tx_hw" where
  "rwnx_txdatacfm usb_down b txst hw =
     (if txst = 0 then (False, hw)
      else if usb_down then (True, hw\<lparr>freed := freed hw @ [b]\<rparr>)
      else
        (let t = tb_txq b;
             hw1 = rwnx_txq_confirm_any t (tb_hwq b) hw;
             mgmt = (tb_flags b AND TXU_CNTRL_MGMT \<noteq> 0);
             hw2 = (if mgmt then hw1\<lparr>mgmt_status := mgmt_status hw1 @ [(tb_id b, txst AND TX_ACKNOWLEDGED \<noteq> 0)]\<rparr>
                    else hw1)
         in if \<not> mgmt \<and> idx (txqs hw2 ! t) \<noteq> TXQ_INACTIVE \<and>
               (txst AND TX_RETRY_REQUIRED \<noteq> 0 \<or> txst AND TX_SW_RETRY_REQUIRED \<noteq> 0)
            then (True, rwnx_tx_retry b (txst AND TX_SW_RETRY_REQUIRED \<noteq> 0) hw2)
            else
              (let q = txqs hw2 ! t;
                   hw3 = (if idx q \<noteq> TXQ_INACTIVE \<and> push_limit q \<noteq> 0 \<and> \<not> rwnx_txq_is_full q
                          then rwnx_txq_add_to_hw_list t hw2 else hw2)
               in (True, hw3\<lparr>freed := freed hw3 @ [b]\<rparr>))))"

definition rwnx_txq_credit_update :: "nat \<Rightarrow> nat \<Rightarrow> tx_hw \<Rightarrow> tx_hw" where
  "rwnx_txq_credit_update s tid hw =
     (let t = rwnx_txq_sta_get s tid hw; q = txqs hw ! t in
      if idx q \<noteq> TXQ_INACTIVE then
        (if credits q <=s 0 then rwnx_txq_stop t RWNX_TXQ_STOP_FULL hw else rwnx_txq_start t RWNX_TXQ_STOP_FULL hw)
      else hw)"

text \<open>The ring of the buffers whose confirmation is awaited.\<close>

definition aicwf_usb_host_init :: "tx_hw \<Rightarrow> tx_hw" where
  "aicwf_usb_host_init hw =
     hw\<lparr>txdesc_free_idx := 0, txdesc_used_idx := 0, tx_host_id := replicate USB_TXDESC_CNT None\<rparr>"

definition aicwf_usb_host_tx_cfm_handler :: "bool \<Rightarrow> u32 \<Rightarrow> u32 \<Rightarrow> tx_hw \<Rightarrow> tx_hw" where
  "aicwf_usb_host_tx_cfm_handler usb_down txst used hw =
     (let i = unat used mod USB_TXDESC_CNT; hw1 = hw\<lparr>tx_host_id := (tx_host_id hw)[i := None]\<rparr> in
      case tx_host_id hw ! i of
        None \<Rightarrow> hw1\<lparr>txdesc_used_idx := used\<rparr>
      | Some b \<Rightarrow>
          (case rwnx_txdatacfm usb_down b txst hw1 of
             (taken, hw2) \<Rightarrow>
               if taken then hw2
               else hw2\<lparr>txdesc_used_idx := used, tx_host_id := (tx_host_id hw2)[i := Some b]\<rparr>))"

subsection \<open>Messages of the firmware\<close>

text \<open>
  \<open>vif_up v\<close> and \<open>sta_valid s\<close> tell whether the interface is registered and the station valid.  The code
  reads the entry of the station before it checks the index.
\<close>

definition rwnx_rx_ps_change_ind ::
    "(nat \<Rightarrow> bool) \<Rightarrow> (nat \<Rightarrow> bool) \<Rightarrow> bool \<Rightarrow> nat \<Rightarrow> bool \<Rightarrow> tx_hw \<Rightarrow> (bool \<times> tx_hw) tx_result" where
  "rwnx_rx_ps_change_ind vif_up sta_valid adding_sta s ps_state hw =
     (if length (tx_stas hw) \<le> s then Inl Tx_index
      else if \<not> vif_up (sta_vif (tx_stas hw ! s)) then Inr (False, hw)
      else if sta_valid s then Inr (snd (rwnx_ps_bh_enable s ps_state hw), fst (rwnx_ps_bh_enable s ps_state hw))
      else if adding_sta then Inr (False, upd_sta s (\<lambda>st. st\<lparr>ps_active := ps_state\<rparr>) hw)
      else Inr (False, hw))"

definition rwnx_rx_traffic_req_ind :: "nat \<Rightarrow> u8 \<Rightarrow> bool \<Rightarrow> tx_hw \<Rightarrow> (bool \<times> tx_hw) tx_result" where
  "rwnx_rx_traffic_req_ind s pkt_cnt uapsd hw =
     (if length (tx_stas hw) \<le> s then Inl Tx_index
      else
        (let r = rwnx_ps_bh_traffic_req s (ucast pkt_cnt) (if uapsd then UAPSD_ID else LEGACY_PS_ID) hw
         in Inr (snd r, fst r)))"

definition rwnx_rx_me_tx_credits_update_ind :: "nat \<Rightarrow> nat \<Rightarrow> tx_hw \<Rightarrow> tx_hw tx_result" where
  "rwnx_rx_me_tx_credits_update_ind s tid hw =
     (if length (tx_stas hw) \<le> s then Inl Tx_index else Inr (rwnx_txq_credit_update s tid hw))"

definition rwnx_rx_tdls_peer_ps_ind :: "tx_vif list \<Rightarrow> nat \<Rightarrow> bool \<Rightarrow> tx_hw \<Rightarrow> tx_hw tx_result" where
  "rwnx_rx_tdls_peer_ps_ind vifs vif_index on hw =
     fold (\<lambda>vif r. bind_tx r (\<lambda>hw.
             if v_index vif \<noteq> vif_index then Inr hw
             else (case v_tdls_sta vif of None \<Rightarrow> Inl Tx_null | Some s \<Rightarrow> Inr (fst (rwnx_ps_bh_enable s on hw)))))
       vifs (Inr hw)"

end
