(* ===== verification/TxReach.thy ===== *)
theory TxReach
  imports TxPath
begin

unbundle bit_operations_syntax

section \<open>Reachable states of the transmit queues\<close>

text \<open>
  The operations of \<open>TxQueue\<close> and \<open>TxPath\<close> as the steps of a transition relation.  The invariant of the
  reachable states is the scheduling invariant of \<open>TxQueue\<close> together with the owners of the queues and
  the books of the power save: a sleeping station has its queues stopped, and its counters of ready
  frames are the numbers of the frames in its queues.
\<close>

subsection \<open>Owners of the queues\<close>

definition lay_sta :: "bool \<Rightarrow> nat \<Rightarrow> nat option" where
  "lay_sta old t =
     (if t < nx_first_vif_txq_idx old then Some (t div NX_NB_TXQ_PER_STA)
      else if t < nx_first_unk_txq_idx old then Some (nx_remote_sta_max old + (t - nx_first_vif_txq_idx old))
      else None)"

definition qs_of :: "bool \<Rightarrow> nat \<Rightarrow> nat list" where
  "qs_of old s =
     (if is_multicast_sta old s then [nx_first_vif_txq_idx old + (s - nx_remote_sta_max old)]
      else map (\<lambda>i. s * NX_NB_TXQ_PER_STA + i) [0..<NX_NB_TXQ_PER_STA])"

definition sta_bound :: "bool \<Rightarrow> nat" where
  "sta_bound old = nx_remote_sta_max old + NX_VIRT_DEVS"

lemma qs_of_lay: "s < sta_bound old \<Longrightarrow> t \<in> set (qs_of old s) \<longleftrightarrow> lay_sta old t = Some s"
  by (cases old) (auto simp: qs_of_def lay_sta_def layout_defs is_multicast_sta_def sta_bound_def image_iff
      intro: bexI [of _ "t mod 9"])

lemma qs_of_distinct: "distinct (qs_of old s)"
  by (simp add: qs_of_def distinct_map inj_on_def)

lemma lay_sta_bound: "lay_sta old t = Some s \<Longrightarrow> s < sta_bound old"
  by (cases old) (auto simp: lay_sta_def layout_defs sta_bound_def split: if_splits)

lemma qs_of_length: "s < sta_bound old \<Longrightarrow> t \<in> set (qs_of old s) \<Longrightarrow> t < NX_NB_TXQ"
  by (cases old) (auto simp: qs_of_def layout_defs is_multicast_sta_def sta_bound_def split: if_splits)

definition lay_ndev :: "bool \<Rightarrow> nat \<Rightarrow> nat" where
  "lay_ndev old t =
     (if t < nx_first_vif_txq_idx old then
        (if t mod NX_NB_TXQ_PER_STA < NX_NB_TID_PER_STA
         then NX_STA_NDEV_IDX (t mod NX_NB_TXQ_PER_STA) (t div NX_NB_TXQ_PER_STA) else NDEV_NO_TXQ)
      else if t < nx_first_unk_txq_idx old then nx_bcmc_txq_ndev_idx old
      else NDEV_NO_TXQ)"

definition q_lay :: "bool \<Rightarrow> nat \<Rightarrow> rwnx_txq \<Rightarrow> bool" where
  "q_lay old t q \<longleftrightarrow>
     (idx q \<noteq> TXQ_INACTIVE \<longrightarrow>
        ps_id q < 2 \<and> q_sta q = lay_sta old t \<and> ndev_idx q = lay_ndev old t \<and>
        (nx_first_vif_txq_idx old \<le> t \<and> t < nx_first_unk_txq_idx old \<longrightarrow> q_hwq q = RWNX_HWQ_BE \<and> ps_id q = LEGACY_PS_ID))"

text \<open>The stations: the index of a group address station is that of its interface.\<close>

definition sta_known :: "bool \<Rightarrow> nat \<Rightarrow> tx_sta \<Rightarrow> bool" where
  "sta_known old s st \<longleftrightarrow>
     s < sta_bound old \<and> (is_multicast_sta old s \<longrightarrow> sta_vif st = s - nx_remote_sta_max old)"

text \<open>The frames ready for the station \<open>s\<close> in the queues of the kind \<open>i\<close>.\<close>

definition ready :: "bool \<Rightarrow> nat \<Rightarrow> nat \<Rightarrow> rwnx_txq list \<Rightarrow> u16" where
  "ready old s i qs =
     (\<Sum>t\<leftarrow>qs_of old s. if ps_id (qs ! t) = i then of_nat (length (sk_list (qs ! t))) else 0)"

definition rest_inv :: "tx_hw \<Rightarrow> bool" where
  "rest_inv hw \<longleftrightarrow>
     length (txqs hw) = NX_NB_TXQ \<and> length (hwqs hw) = NX_TXQ_CNT \<and>
     length (tx_stas hw) = NX_REMOTE_STA_MAX + NX_VIRT_DEVS \<and>
     (\<forall>t<length (txqs hw). q_lay (old_ic hw) t (txqs hw ! t)) \<and>
     (\<forall>s<length (tx_stas hw). ps_active (tx_stas hw ! s) \<longrightarrow> sta_known (old_ic hw) s (tx_stas hw ! s)) \<and>
     (\<forall>t<length (txqs hw). \<forall>s. idx (txqs hw ! t) \<noteq> TXQ_INACTIVE \<longrightarrow> q_sta (txqs hw ! t) = Some s \<longrightarrow>
        ps_active (tx_stas hw ! s) \<longrightarrow> sta_ps (txqs hw ! t)) \<and>
     (\<forall>s<length (tx_stas hw). ps_active (tx_stas hw ! s) \<longrightarrow>
        (\<forall>t\<in>set (qs_of (old_ic hw) s). idx (txqs hw ! t) \<noteq> TXQ_INACTIVE) \<longrightarrow>
        (\<forall>i<2. pkt_ready (tx_stas hw ! s) i = ready (old_ic hw) s i (txqs hw)))"

definition tx_inv :: "tx_hw \<Rightarrow> bool" where
  "tx_inv hw \<longleftrightarrow> sched_ok hw \<and> queues_ok hw \<and> rest_inv hw"

subsection \<open>Operations that leave the owners and the books alone\<close>

definition q_stat :: "rwnx_txq \<Rightarrow> nat \<times> nat option \<times> nat \<times> nat \<times> nat \<times> nat" where
  "q_stat q = (idx q, q_sta q, ps_id q, q_hwq q, ndev_idx q, length (sk_list q))"

definition s_stat :: "tx_sta \<Rightarrow> bool \<times> (nat \<Rightarrow> u16) \<times> nat" where
  "s_stat st = (ps_active st, pkt_ready st, sta_vif st)"

definition calm :: "tx_hw \<Rightarrow> tx_hw \<Rightarrow> bool" where
  "calm hw hw' \<longleftrightarrow>
     old_ic hw' = old_ic hw \<and> map q_stat (txqs hw') = map q_stat (txqs hw) \<and>
     map s_stat (tx_stas hw') = map s_stat (tx_stas hw) \<and> length (hwqs hw') = length (hwqs hw) \<and>
     (\<forall>t<length (txqs hw). idx (txqs hw ! t) \<noteq> TXQ_INACTIVE \<longrightarrow> sta_ps (txqs hw ! t) \<longrightarrow> sta_ps (txqs hw' ! t))"

lemma calm_refl [simp]: "calm hw hw"
  by (simp add: calm_def)

lemma map_at: "map f xs = map f ys \<Longrightarrow> i < length ys \<Longrightarrow> f (xs ! i) = f (ys ! i)"
  by (metis length_map nth_map)

lemma calm_at:
  assumes "calm hw hw'"
  shows "length (txqs hw') = length (txqs hw)" "length (tx_stas hw') = length (tx_stas hw)"
    "t < length (txqs hw) \<Longrightarrow> idx (txqs hw' ! t) = idx (txqs hw ! t) \<and> q_sta (txqs hw' ! t) = q_sta (txqs hw ! t) \<and>
       ps_id (txqs hw' ! t) = ps_id (txqs hw ! t) \<and> q_hwq (txqs hw' ! t) = q_hwq (txqs hw ! t) \<and> ndev_idx (txqs hw' ! t) = ndev_idx (txqs hw ! t) \<and>
       length (sk_list (txqs hw' ! t)) = length (sk_list (txqs hw ! t))"
    "s < length (tx_stas hw) \<Longrightarrow> ps_active (tx_stas hw' ! s) = ps_active (tx_stas hw ! s) \<and>
       pkt_ready (tx_stas hw' ! s) = pkt_ready (tx_stas hw ! s) \<and> sta_vif (tx_stas hw' ! s) = sta_vif (tx_stas hw ! s)"
proof -
  show "length (txqs hw') = length (txqs hw)" "length (tx_stas hw') = length (tx_stas hw)"
    using assms unfolding calm_def by (metis length_map)+
  show "t < length (txqs hw) \<Longrightarrow> idx (txqs hw' ! t) = idx (txqs hw ! t) \<and> q_sta (txqs hw' ! t) = q_sta (txqs hw ! t) \<and>
       ps_id (txqs hw' ! t) = ps_id (txqs hw ! t) \<and> q_hwq (txqs hw' ! t) = q_hwq (txqs hw ! t) \<and> ndev_idx (txqs hw' ! t) = ndev_idx (txqs hw ! t) \<and>
       length (sk_list (txqs hw' ! t)) = length (sk_list (txqs hw ! t))"
    using assms map_at [of q_stat "txqs hw'" "txqs hw" t] by (simp add: calm_def q_stat_def)
  show "s < length (tx_stas hw) \<Longrightarrow> ps_active (tx_stas hw' ! s) = ps_active (tx_stas hw ! s) \<and>
       pkt_ready (tx_stas hw' ! s) = pkt_ready (tx_stas hw ! s) \<and> sta_vif (tx_stas hw' ! s) = sta_vif (tx_stas hw ! s)"
    using assms map_at [of s_stat "tx_stas hw'" "tx_stas hw" s] by (simp add: calm_def s_stat_def)
qed

lemma calm_trans: "calm hw hw1 \<Longrightarrow> calm hw1 hw2 \<Longrightarrow> calm hw hw2"
  using calm_at(1,3) [of hw hw1] by (simp add: calm_def)

lemma ready_cong:
  assumes "\<And>t. t \<in> set (qs_of old s) \<Longrightarrow> ps_id (qs ! t) = ps_id (qs' ! t) \<and> length (sk_list (qs ! t)) = length (sk_list (qs' ! t))"
  shows "ready old s i qs = ready old s i qs'"
  unfolding ready_def by (rule arg_cong [of _ _ sum_list], rule map_cong) (use assms in auto)

lemma calm_rest:
  assumes c: "calm hw hw'" and r: "rest_inv hw"
  shows "rest_inv hw'"
proof -
  note a = calm_at [OF c]
  have o: "old_ic hw' = old_ic hw" "length (hwqs hw') = length (hwqs hw)" using c by (simp_all add: calm_def)
  have len: "length (txqs hw) = NX_NB_TXQ" "length (hwqs hw) = NX_TXQ_CNT" "length (tx_stas hw) = NX_REMOTE_STA_MAX + NX_VIRT_DEVS"
    using r by (simp_all add: rest_inv_def)
  have stas: "sta_known (old_ic hw) s (tx_stas hw' ! s)" if "s < length (tx_stas hw)" "ps_active (tx_stas hw' ! s)" for s
    using r that a(4) [of s] by (simp add: rest_inv_def sta_known_def)
  have lay: "q_lay (old_ic hw) t (txqs hw' ! t)" if "t < length (txqs hw)" for t
    using r that a(3) [of t] by (simp add: rest_inv_def q_lay_def)
  have ps: "sta_ps (txqs hw' ! t)" if t: "t < length (txqs hw)" "idx (txqs hw' ! t) \<noteq> TXQ_INACTIVE" "q_sta (txqs hw' ! t) = Some s"
      "ps_active (tx_stas hw' ! s)" for t s
  proof -
    have q: "q_sta (txqs hw ! t) = Some s" "idx (txqs hw ! t) \<noteq> TXQ_INACTIVE" using a(3) [of t] t by auto
    then have "lay_sta (old_ic hw) t = Some s" using r t(1) by (simp add: rest_inv_def q_lay_def)
    then have "s < length (tx_stas hw)" using lay_sta_bound [of "old_ic hw" t s] len(3)
      by (cases "old_ic hw") (simp_all add: sta_bound_def layout_defs)
    then have "sta_ps (txqs hw ! t)" using r q t(1,4) a(4) [of s] by (simp add: rest_inv_def)
    then show ?thesis using c t(1) q by (simp add: calm_def)
  qed
  have ac: "pkt_ready (tx_stas hw' ! s) i = ready (old_ic hw) s i (txqs hw')"
    if s: "s < length (tx_stas hw)" "ps_active (tx_stas hw' ! s)" "\<forall>t\<in>set (qs_of (old_ic hw) s). idx (txqs hw' ! t) \<noteq> TXQ_INACTIVE" "i < 2" for s i
  proof -
    have "s < sta_bound (old_ic hw)" using stas [OF s(1,2)] by (simp add: sta_known_def)
    then have b: "t < length (txqs hw)" if "t \<in> set (qs_of (old_ic hw) s)" for t
      using qs_of_length that len(1) by simp
    have "ready (old_ic hw) s i (txqs hw') = ready (old_ic hw) s i (txqs hw)"
      by (rule ready_cong) (use a(3) b in auto)
    then show ?thesis using r s a(4) [OF s(1)] a(3) b by (simp add: rest_inv_def)
  qed
  show ?thesis
    unfolding rest_inv_def a(1,2) o using len lay stas ps ac by blast
qed

lemma map_nth_upd: "(\<And>x. g (f x) = g x) \<Longrightarrow> map g (xs[i := f (xs ! i)]) = map g xs"
  by (cases "i < length xs") (auto intro!: nth_equalityI simp: nth_list_update list_update_beyond)

lemma calm_upd_txq:
  assumes "\<And>q. q_stat (f q) = q_stat q" and "\<And>q. idx q \<noteq> TXQ_INACTIVE \<Longrightarrow> sta_ps q \<Longrightarrow> sta_ps (f q)"
  shows "calm hw (upd_txq t f hw)"
  using assms map_nth_upd [of q_stat f "txqs hw" t] by (simp add: calm_def upd_txq_nth) (simp add: upd_txq_def)

lemma calm_upd_hwq: "calm hw (upd_hwq h f hw)"
  by (simp add: calm_def)

lemma calm_upd_sta: "(\<And>st. s_stat (f st) = s_stat st) \<Longrightarrow> calm hw (upd_sta s f hw)"
  using map_nth_upd [of s_stat f "tx_stas hw" s] by (simp add: calm_def) (simp add: upd_sta_def)

lemma calm_fields [simp]:
  "calm hw (hw'\<lparr>stopped := a\<rparr>) = calm hw hw'" "calm hw (hw'\<lparr>freed := b\<rparr>) = calm hw hw'"
  "calm hw (hw'\<lparr>mgmt_status := c\<rparr>) = calm hw hw'" "calm hw (hw'\<lparr>traffic := d\<rparr>) = calm hw hw'"
  "length xs = length (hwqs hw') \<Longrightarrow> calm hw (hw'\<lparr>hwqs := xs\<rparr>) = calm hw hw'"
  by (simp_all add: calm_def)

lemma calm_add: "calm hw (rwnx_txq_add_to_hw_list t hw)"
proof -
  have "calm hw (upd_txq t (\<lambda>q. q\<lparr>status := status q OR RWNX_TXQ_IN_HWQ_LIST\<rparr>) hw)"
    by (rule calm_upd_txq) (simp_all add: q_stat_def sta_ps_def status_bits)
  then show ?thesis
    using calm_trans calm_upd_hwq by (simp add: rwnx_txq_add_to_hw_list_def Let_def)
qed

lemma calm_del: "calm hw (rwnx_txq_del_from_hw_list t hw)"
proof -
  have "calm hw (upd_txq t (\<lambda>q. q\<lparr>status := status q AND NOT RWNX_TXQ_IN_HWQ_LIST\<rparr>) hw)"
    by (rule calm_upd_txq) (simp_all add: q_stat_def sta_ps_def status_bits)
  then show ?thesis by (simp add: rwnx_txq_del_from_hw_list_def)
qed

lemma calm_start:
  assumes "r AND RWNX_TXQ_STOP_STA_PS = 0"
  shows "calm hw (rwnx_txq_start t r hw)"
proof -
  have "calm hw (upd_txq t (\<lambda>q. q\<lparr>status := status q AND NOT r\<rparr>) hw)"
    by (rule calm_upd_txq) (simp_all add: q_stat_def sta_ps_def start_ps_bit [OF assms])
  then show ?thesis
    using calm_trans [OF _ calm_add] by (simp add: rwnx_txq_start_def Let_def)
qed

lemma sta_ps_or: "sta_ps q \<Longrightarrow> sta_ps (q\<lparr>status := status q OR r\<rparr>)"
  using stop_reason_ps [of "status q" r] by (auto simp: sta_ps_def)

lemma calm_stop: "calm hw (rwnx_txq_stop t r hw)"
proof -
  have "calm hw (upd_txq t (\<lambda>q. q\<lparr>status := status q OR r\<rparr>) hw)"
    by (rule calm_upd_txq) (simp_all add: q_stat_def sta_ps_or)
  then show ?thesis
    using calm_trans [OF _ calm_del] by (simp add: rwnx_txq_stop_def)
qed

lemma calm_limit: "calm hw (set_push_limit n t hw)"
  unfolding set_push_limit_def by (rule calm_upd_txq) (simp_all add: q_stat_def sta_ps_def)

lemma calm_sp: "calm hw (set_sp_cnt s i n hw)"
  unfolding set_sp_cnt_def by (rule calm_upd_sta) (simp add: s_stat_def)

lemma calm_traffic: "calm hw (rwnx_set_traffic_status s a i hw)"
  by (simp add: rwnx_set_traffic_status_def)

lemma calm_confirm: "calm hw (rwnx_txq_confirm_any t h hw)"
proof -
  have "calm hw (upd_txq t (\<lambda>q. if pkt_pushed q \<noteq> 0 then q\<lparr>pkt_pushed := pkt_pushed q - 1\<rparr> else q) hw)"
    by (rule calm_upd_txq) (simp_all add: q_stat_def sta_ps_def)
  then show ?thesis using calm_trans calm_upd_hwq by (simp add: rwnx_txq_confirm_any_def)
qed

lemma calm_credits: "calm hw (upd_txq t (\<lambda>q. q\<lparr>credits := f q\<rparr>) hw)"
  by (rule calm_upd_txq) (simp_all add: q_stat_def sta_ps_def)

lemma calm_pkt_sent: "calm hw (upd_txq t (\<lambda>q. q\<lparr>pkt_sent := n\<rparr>) hw)"
  by (rule calm_upd_txq) (simp_all add: q_stat_def sta_ps_def)

lemma calm_flow_stop: "calm hw (ndev_flow_stop t hw)"
proof -
  have "calm hw (upd_txq t (\<lambda>q. q\<lparr>status := status q OR RWNX_TXQ_NDEV_FLOW_CTRL\<rparr>) hw)"
    by (rule calm_upd_txq) (simp_all add: q_stat_def sta_ps_or)
  then show ?thesis by (simp add: ndev_flow_stop_def Let_def)
qed

lemma calm_flow_restart: "calm hw (ndev_flow_restart t hw)"
proof -
  have "calm hw (upd_txq t (\<lambda>q. q\<lparr>status := status q AND NOT RWNX_TXQ_NDEV_FLOW_CTRL\<rparr>) hw)"
    by (rule calm_upd_txq) (simp_all add: q_stat_def sta_ps_def status_bits)
  then show ?thesis by (simp add: ndev_flow_restart_def Let_def)
qed

lemma calm_leave: "calm hw (leave_or_rotate h t e hw)"
  using calm_trans [OF calm_del calm_pkt_sent] calm_trans [OF calm_pkt_sent calm_upd_hwq]
  by (simp add: leave_or_rotate_def)

lemma calm_abort: "calm hw (abort_sp t hw)"
proof -
  have "calm hw' (upd_txq t (\<lambda>q. q\<lparr>push_limit := n\<rparr>) hw')" for n hw'
    by (rule calm_upd_txq) (simp_all add: q_stat_def sta_ps_def)
  moreover have "calm hw (upd_sta s (\<lambda>st. st\<lparr>sp_cnt := f st\<rparr>) hw)" for s f
    by (rule calm_upd_sta) (simp add: s_stat_def)
  ultimately have "calm hw (upd_txq t (\<lambda>q. q\<lparr>push_limit := 0\<rparr>) (upd_sta s (\<lambda>st. st\<lparr>sp_cnt := f st\<rparr>) hw))" for s f
    using calm_trans by blast
  then show ?thesis by (simp add: abort_sp_def Let_def split: option.split)
qed

lemma calm_fold: "(\<And>x hw. calm hw (f x hw)) \<Longrightarrow> calm hw (fold f xs hw)"
  by (induction xs arbitrary: hw) (auto intro: calm_trans)

lemma calm_switch: "calm hw (rwnx_txq_sta_switch_vif s v hw)"
proof -
  have "calm hw' (upd_txq t (\<lambda>q. q\<lparr>q_ndev := v\<rparr>) hw')" for t hw'
    by (rule calm_upd_txq) (simp_all add: q_stat_def sta_ps_def)
  then show ?thesis unfolding rwnx_txq_sta_switch_vif_def by (intro calm_fold) (simp add: Let_def)
qed

subsection \<open>The books when a frame comes or goes\<close>

lemma sum_upd:
  fixes f g :: "nat \<Rightarrow> 'b::ab_group_add"
  assumes "distinct xs" and "\<And>x. x \<in> set xs \<Longrightarrow> x \<noteq> t \<Longrightarrow> g x = f x"
  shows "(\<Sum>x\<leftarrow>xs. g x) = (\<Sum>x\<leftarrow>xs. f x) + (if t \<in> set xs then g t - f t else 0)"
  using assms
proof (induction xs)
  case (Cons x xs)
  then show ?case by (cases "x = t") (auto simp: algebra_simps)
qed simp

lemma ready_change:
  assumes "\<And>u. u \<noteq> t \<Longrightarrow> u \<in> set (qs_of old s) \<Longrightarrow> ps_id (qs' ! u) = ps_id (qs ! u) \<and> length (sk_list (qs' ! u)) = length (sk_list (qs ! u))"
    and "ps_id (qs' ! t) = ps_id (qs ! t)"
  shows "ready old s i qs' = ready old s i qs +
    (if t \<in> set (qs_of old s) \<and> ps_id (qs ! t) = i
     then of_nat (length (sk_list (qs' ! t))) - of_nat (length (sk_list (qs ! t))) else 0)"
proof -
  have "ready old s i qs' = ready old s i qs + (if t \<in> set (qs_of old s)
      then (if ps_id (qs' ! t) = i then of_nat (length (sk_list (qs' ! t))) else 0) -
           (if ps_id (qs ! t) = i then of_nat (length (sk_list (qs ! t))) else 0) else 0)"
    unfolding ready_def by (rule sum_upd [OF qs_of_distinct]) (use assms(1) in auto)
  then show ?thesis using assms(2) by simp
qed

lemma active_sta:
  assumes "rest_inv hw" and "t < length (txqs hw)" and "idx (txqs hw ! t) \<noteq> TXQ_INACTIVE"
  shows "q_sta (txqs hw ! t) = lay_sta (old_ic hw) t" "ps_id (txqs hw ! t) < 2"
    "q_sta (txqs hw ! t) = Some s \<Longrightarrow> s < length (tx_stas hw)"
    "q_sta (txqs hw ! t) = Some s \<Longrightarrow> s < sta_bound (old_ic hw)"
proof -
  show l: "q_sta (txqs hw ! t) = lay_sta (old_ic hw) t" "ps_id (txqs hw ! t) < 2"
    using assms by (simp_all add: rest_inv_def q_lay_def)
  show b: "q_sta (txqs hw ! t) = Some s \<Longrightarrow> s < sta_bound (old_ic hw)" using l lay_sta_bound by simp
  have "length (tx_stas hw) = NX_REMOTE_STA_MAX + NX_VIRT_DEVS" using assms(1) by (simp add: rest_inv_def)
  then show "q_sta (txqs hw ! t) = Some s \<Longrightarrow> s < length (tx_stas hw)"
    using b by (cases "old_ic hw") (simp_all add: sta_bound_def layout_defs)
qed

text \<open>When the length of one queue changes, its station has to be told.\<close>

lemma rest_change:
  assumes r: "rest_inv hw" and t: "t < length (txqs hw)" and act: "idx (txqs hw ! t) \<noteq> TXQ_INACTIVE"
    and o: "old_ic hw' = old_ic hw" "length (hwqs hw') = length (hwqs hw)" "length (txqs hw') = length (txqs hw)"
      "length (tx_stas hw') = length (tx_stas hw)"
    and q: "\<And>u. u < length (txqs hw) \<Longrightarrow> idx (txqs hw' ! u) = idx (txqs hw ! u) \<and> q_sta (txqs hw' ! u) = q_sta (txqs hw ! u) \<and>
      ps_id (txqs hw' ! u) = ps_id (txqs hw ! u) \<and> q_hwq (txqs hw' ! u) = q_hwq (txqs hw ! u) \<and> ndev_idx (txqs hw' ! u) = ndev_idx (txqs hw ! u) \<and>
      (u \<noteq> t \<longrightarrow> length (sk_list (txqs hw' ! u)) = length (sk_list (txqs hw ! u))) \<and>
      (sta_ps (txqs hw ! u) \<longrightarrow> sta_ps (txqs hw' ! u))"
    and s: "\<And>s. s < length (tx_stas hw) \<Longrightarrow> ps_active (tx_stas hw' ! s) = ps_active (tx_stas hw ! s) \<and>
      sta_vif (tx_stas hw' ! s) = sta_vif (tx_stas hw ! s) \<and>
      (ps_active (tx_stas hw ! s) \<longrightarrow> pkt_ready (tx_stas hw' ! s) =
        (if q_sta (txqs hw ! t) = Some s
         then (pkt_ready (tx_stas hw ! s))(ps_id (txqs hw ! t) := pkt_ready (tx_stas hw ! s) (ps_id (txqs hw ! t))
           + of_nat (length (sk_list (txqs hw' ! t))) - of_nat (length (sk_list (txqs hw ! t))))
         else pkt_ready (tx_stas hw ! s)))"
  shows "rest_inv hw'"
proof -
  have len: "length (txqs hw) = NX_NB_TXQ" "length (hwqs hw) = NX_TXQ_CNT" "length (tx_stas hw) = NX_REMOTE_STA_MAX + NX_VIRT_DEVS"
    using r by (simp_all add: rest_inv_def)
  have stas: "sta_known (old_ic hw) s (tx_stas hw' ! s)" if "s < length (tx_stas hw)" "ps_active (tx_stas hw' ! s)" for s
    using r that s [of s] by (simp add: rest_inv_def sta_known_def)
  have lay: "q_lay (old_ic hw) u (txqs hw' ! u)" if "u < length (txqs hw)" for u
    using r that q [of u] by (simp add: rest_inv_def q_lay_def)
  have ps: "sta_ps (txqs hw' ! u)" if u: "u < length (txqs hw)" "idx (txqs hw' ! u) \<noteq> TXQ_INACTIVE" "q_sta (txqs hw' ! u) = Some v"
      "ps_active (tx_stas hw' ! v)" for u v
  proof -
    have a: "q_sta (txqs hw ! u) = Some v" "idx (txqs hw ! u) \<noteq> TXQ_INACTIVE" using q [of u] u by auto
    then have "v < length (tx_stas hw)" using active_sta(3) [OF r u(1)] by blast
    then have "sta_ps (txqs hw ! u)" using r a u(1,4) s [of v] by (simp add: rest_inv_def)
    then show ?thesis using q [OF u(1)] by simp
  qed
  have ac: "pkt_ready (tx_stas hw' ! v) i = ready (old_ic hw) v i (txqs hw')"
    if v: "v < length (tx_stas hw)" "ps_active (tx_stas hw' ! v)" "\<forall>t\<in>set (qs_of (old_ic hw) v). idx (txqs hw' ! t) \<noteq> TXQ_INACTIVE" "i < 2" for v i
  proof -
    have vb: "v < sta_bound (old_ic hw)" using stas [OF v(1,2)] by (simp add: sta_known_def)
    then have b: "u < length (txqs hw)" if "u \<in> set (qs_of (old_ic hw) v)" for u
      using qs_of_length that len(1) by simp
    have old: "pkt_ready (tx_stas hw ! v) i = ready (old_ic hw) v i (txqs hw)"
      using r v s [OF v(1)] q b by (simp add: rest_inv_def)
    have "ready (old_ic hw) v i (txqs hw') = ready (old_ic hw) v i (txqs hw) +
      (if t \<in> set (qs_of (old_ic hw) v) \<and> ps_id (txqs hw ! t) = i
       then of_nat (length (sk_list (txqs hw' ! t))) - of_nat (length (sk_list (txqs hw ! t))) else 0)"
      by (rule ready_change) (use q b t in auto)
    moreover have "t \<in> set (qs_of (old_ic hw) v) \<longleftrightarrow> q_sta (txqs hw ! t) = Some v"
      using qs_of_lay [OF vb] active_sta(1) [OF r t act] by simp
    ultimately show ?thesis using old s [OF v(1)] v(2) by auto
  qed
  show ?thesis
    unfolding rest_inv_def o using len lay stas ps ac by blast
qed

lemma count_ready_stas:
  "tx_stas (count_ready t hw) =
    (case q_sta (txqs hw ! t) of
       Some s \<Rightarrow> (tx_stas hw)[s := (let st = tx_stas hw ! s; i = ps_id (txqs hw ! t) in
         if ps_active st then st\<lparr>pkt_ready := (pkt_ready st)(i := pkt_ready st i + 1)\<rparr> else st)]
     | None \<Rightarrow> tx_stas hw)"
  by (simp add: count_ready_def Let_def upd_sta_def split: option.split)

lemma calm_queue:
  "calm (upd_txq t (enqueue b retry) (count_ready t hw)) (snd (rwnx_txq_queue_skb b t retry hw))"
  using calm_flow_stop calm_trans [OF calm_flow_stop calm_add]
  by (simp add: rwnx_txq_queue_skb_def Let_def)

lemma rest_queue:
  assumes r: "rest_inv hw" and Q: "queues_ok hw" and t: "t < length (txqs hw)" and act: "idx (txqs hw ! t) \<noteq> TXQ_INACTIVE"
  shows "rest_inv (snd (rwnx_txq_queue_skb b t retry hw))"
proof (rule calm_rest [OF calm_queue])
  let ?hw = "upd_txq t (enqueue b retry) (count_ready t hw)"
  have ok: "retry_ok (txqs hw ! t)" using queues_at [OF Q t] act by (simp add: q_ok_def active_ok_def)
  have len: "length (sk_list (txqs ?hw ! t)) = Suc (length (sk_list (txqs hw ! t)))"
    using t enqueue_length [OF ok] by simp
  show "rest_inv ?hw"
  proof (rule rest_change [OF r t act], simp_all only: len)
    show "idx (txqs ?hw ! u) = idx (txqs hw ! u) \<and> q_sta (txqs ?hw ! u) = q_sta (txqs hw ! u) \<and>
      ps_id (txqs ?hw ! u) = ps_id (txqs hw ! u) \<and> q_hwq (txqs ?hw ! u) = q_hwq (txqs hw ! u) \<and> ndev_idx (txqs ?hw ! u) = ndev_idx (txqs hw ! u) \<and>
      (u \<noteq> t \<longrightarrow> length (sk_list (txqs ?hw ! u)) = length (sk_list (txqs hw ! u))) \<and>
      (sta_ps (txqs hw ! u) \<longrightarrow> sta_ps (txqs ?hw ! u))" if "u < length (txqs hw)" for u
      using that by (simp add: upd_txq_nth sta_ps_def)
    show "ps_active (tx_stas ?hw ! s) = ps_active (tx_stas hw ! s) \<and> sta_vif (tx_stas ?hw ! s) = sta_vif (tx_stas hw ! s) \<and>
      (ps_active (tx_stas hw ! s) \<longrightarrow> pkt_ready (tx_stas ?hw ! s) =
        (if q_sta (txqs hw ! t) = Some s
         then (pkt_ready (tx_stas hw ! s))(ps_id (txqs hw ! t) := pkt_ready (tx_stas hw ! s) (ps_id (txqs hw ! t))
           + of_nat (Suc (length (sk_list (txqs hw ! t)))) - of_nat (length (sk_list (txqs hw ! t))))
         else pkt_ready (tx_stas hw ! s)))" if "s < length (tx_stas hw)" for s
      using that by (auto simp: count_ready_stas nth_list_update Let_def split: option.split)
  qed simp_all
qed

lemma more_data_stas:
  "ps_id (txqs hw ! tb_txq b) = i \<Longrightarrow>
   tx_stas (snd (rwnx_set_more_data_flag s b hw)) = (tx_stas hw)[s := (let st = tx_stas hw ! s in
     if ps_active st then st\<lparr>pkt_ready := (pkt_ready st)(i := pkt_ready st i - 1), sp_cnt := (sp_cnt st)(i := sp_cnt st i - 1)\<rparr> else st)]"
  by (simp add: rwnx_set_more_data_flag_def Let_def upd_sta_def)

lemma push_stas:
  assumes "tb_txq b < length (txqs hw)" and "ps_id (txqs hw ! tb_txq b) = i"
  shows "tx_stas (rwnx_tx_push b hw) =
    (case tb_sta b of
       Some s \<Rightarrow> (tx_stas hw)[s := (let st = tx_stas hw ! s in
         if ps_active st then st\<lparr>pkt_ready := (pkt_ready st)(i := pkt_ready st i - 1), sp_cnt := (sp_cnt st)(i := sp_cnt st i - 1)\<rparr> else st)]
     | None \<Rightarrow> tx_stas hw)"
  using assms by (simp add: rwnx_tx_push_def Let_def more_data_stas [where i = i] count_push_def split: option.split)

lemma push_fold_stas:
  assumes "\<forall>b\<in>set bs. tb_txq b = t \<and> tb_sta b = Some s" and "t < length (txqs hw)" and "ps_id (txqs hw ! t) = i"
    and "u < length (tx_stas hw)"
  shows "ps_active (tx_stas (fold rwnx_tx_push bs hw) ! u) = ps_active (tx_stas hw ! u) \<and>
    sta_vif (tx_stas (fold rwnx_tx_push bs hw) ! u) = sta_vif (tx_stas hw ! u) \<and>
    pkt_ready (tx_stas (fold rwnx_tx_push bs hw) ! u) =
      (if u = s \<and> ps_active (tx_stas hw ! u)
       then (pkt_ready (tx_stas hw ! u))(i := pkt_ready (tx_stas hw ! u) i - of_nat (length bs)) else pkt_ready (tx_stas hw ! u))"
  using assms
proof (induction bs arbitrary: hw)
  case (Cons b bs)
  let ?hw = "rwnx_tx_push b hw"
  have b: "tb_txq b = t" "tb_sta b = Some s" using Cons.prems(1) by auto
  have i: "ps_id (txqs ?hw ! t) = i"
    using Cons.prems(2,3) b by (simp add: push_txqs count_pushed_def count_push_def)
  note st = push_stas [of b hw i, unfolded b, OF Cons.prems(2,3)]
  show ?case
    using Cons.IH [of ?hw] Cons.prems i by (auto simp: st nth_list_update Let_def fun_upd_def)
qed auto

lemma push_fold_stas_None:
  "\<forall>b\<in>set bs. tb_sta b = None \<Longrightarrow> tx_stas (fold rwnx_tx_push bs hw) = tx_stas hw"
  by (induction bs arbitrary: hw) (simp_all add: rwnx_tx_push_def Let_def)

lemma push_fold_simps:
  "old_ic (fold rwnx_tx_push bs hw) = old_ic hw" "length (tx_stas (fold rwnx_tx_push bs hw)) = length (tx_stas hw)"
  by (induction bs arbitrary: hw) simp_all

lemma rest_push:
  assumes r: "rest_inv hw" and Q: "queues_ok hw" and t: "t < length (txqs hw)" and act: "idx (txqs hw ! t) \<noteq> TXQ_INACTIVE"
    and n: "n \<le> length (sk_list (txqs hw ! t))"
  shows "rest_inv (fold rwnx_tx_push (take n (sk_list (txqs hw ! t))) (upd_txq t (\<lambda>q. q\<lparr>sk_list := List.drop n (sk_list q)\<rparr>) hw))"
proof -
  let ?bs = "take n (sk_list (txqs hw ! t))" and ?hw1 = "upd_txq t (\<lambda>q. q\<lparr>sk_list := List.drop n (sk_list q)\<rparr>) hw"
  let ?hw = "fold rwnx_tx_push ?bs ?hw1"
  have "active_ok t (txqs hw ! t)" using queues_at [OF Q t] act by (simp add: q_ok_def)
  then have own: "\<forall>b\<in>set ?bs. tb_txq b = t \<and> tb_sta b = q_sta (txqs hw ! t)"
    by (auto simp: active_ok_def dest: in_set_takeD)
  have qs: "q_core (txqs ?hw ! u) = q_core (txqs ?hw1 ! u)" if "u < length (txqs hw)" for u
    using core_at [OF push_fold_core(1), of u ?hw1] that by simp
  have ln: "length (sk_list (txqs ?hw ! t)) = length (sk_list (txqs hw ! t)) - n"
    using q_core_eq [OF qs [OF t]] t by simp
  show ?thesis
  proof (rule rest_change [OF r t act], simp_all only: ln)
    show "old_ic ?hw = old_ic hw" "length (tx_stas ?hw) = length (tx_stas hw)"
      by (simp_all add: push_fold_simps)
    show "length (hwqs ?hw) = length (hwqs hw)" "length (txqs ?hw) = length (txqs hw)" by (simp_all add: push_fold_core)
    show "idx (txqs ?hw ! u) = idx (txqs hw ! u) \<and> q_sta (txqs ?hw ! u) = q_sta (txqs hw ! u) \<and>
      ps_id (txqs ?hw ! u) = ps_id (txqs hw ! u) \<and> q_hwq (txqs ?hw ! u) = q_hwq (txqs hw ! u) \<and> ndev_idx (txqs ?hw ! u) = ndev_idx (txqs hw ! u) \<and>
      (u \<noteq> t \<longrightarrow> length (sk_list (txqs ?hw ! u)) = length (sk_list (txqs hw ! u))) \<and>
      (sta_ps (txqs hw ! u) \<longrightarrow> sta_ps (txqs ?hw ! u))" if "u < length (txqs hw)" for u
      using q_core_eq [OF qs [OF that]] that by (simp add: upd_txq_nth sta_ps_def)
    show "ps_active (tx_stas ?hw ! s) = ps_active (tx_stas hw ! s) \<and> sta_vif (tx_stas ?hw ! s) = sta_vif (tx_stas hw ! s) \<and>
      (ps_active (tx_stas hw ! s) \<longrightarrow> pkt_ready (tx_stas ?hw ! s) =
        (if q_sta (txqs hw ! t) = Some s
         then (pkt_ready (tx_stas hw ! s))(ps_id (txqs hw ! t) := pkt_ready (tx_stas hw ! s) (ps_id (txqs hw ! t))
           + of_nat (length (sk_list (txqs hw ! t)) - n) - of_nat (length (sk_list (txqs hw ! t))))
         else pkt_ready (tx_stas hw ! s)))" if s: "s < length (tx_stas hw)" for s
    proof (cases "q_sta (txqs hw ! t)")
      case None
      then show ?thesis using push_fold_stas_None [of ?bs ?hw1] own by simp
    next
      case (Some v)
      show ?thesis
        using push_fold_stas [of ?bs t v ?hw1 "ps_id (txqs hw ! t)" s] own t s Some n
        by (auto simp: of_nat_diff min_absorb2)
    qed
  qed
qed

text \<open>Processing.\<close>

lemma flush_rest:
  assumes "rest_inv hw" and "sk_list (txqs hw ! t) = []"
  shows "rest_inv (rwnx_txq_flush t hw)"
proof -
  have "calm hw (upd_txq t (\<lambda>q. q\<lparr>sk_list := []\<rparr>) hw)"
  proof (cases "t < length (txqs hw)")
    case True
    have "(txqs hw ! t)\<lparr>sk_list := []\<rparr> = txqs hw ! t" unfolding assms(2) [symmetric] by simp
    then show ?thesis by (simp add: upd_txq_def)
  qed (simp add: upd_txq_def list_update_beyond)
  then show ?thesis using calm_rest [OF _ assms(1)] by (simp add: rwnx_txq_flush_def)
qed

lemma process_rest:
  assumes r: "rest_inv hw" and Q: "queues_ok hw" and p: "process_txq h t hw = Inr hw'"
  shows "rest_inv hw'"
proof -
  have t: "t < length (txqs hw)" using p by (auto simp: process_txq_def split: if_splits)
  show ?thesis
  proof (cases "idx (txqs hw ! t) = TXQ_INACTIVE")
    case True
    have "sk_list (txqs (rwnx_txq_del_from_hw_list t hw) ! t) = []"
      using queues_at [OF Q t] True t by (simp add: q_ok_def del_txqs)
    then show ?thesis
      using p True flush_rest [OF calm_rest [OF calm_del r]] by (auto simp: process_txq_def Let_def split: if_splits)
  next
    case False
    let ?n = "fst (rwnx_txq_get_skb_to_push (txqs hw ! t))"
    have "active_ok t (txqs hw ! t)" using queues_at [OF Q t] False by (simp add: q_ok_def)
    note n = rest_push [OF r Q t False to_push_active(1) [OF this]]
    have c: "calm hw2 (ndev_flow_restart t (abort_sp t (leave_or_rotate h t e hw2)))" for e hw2
      using calm_trans [OF calm_leave calm_trans [OF calm_abort calm_flow_restart]] .
    show ?thesis
      using p False calm_rest [OF c n] by (auto simp: process_txq_def Let_def case_prod_unfold split: if_splits)
  qed
qed

lemma tx_inv_process_txq:
  assumes "tx_inv hw" and "process_txq h t hw = Inr hw'"
  shows "tx_inv hw'"
proof -
  have t: "t < length (txqs hw)" "in_list (txqs hw ! t)"
    using assms(2) by (auto simp: process_txq_def Let_def split: if_splits)
  have i: "sched_ok hw" "queues_ok hw" "rest_inv hw" using assms(1) by (simp_all add: tx_inv_def)
  show ?thesis
    using process_turn [OF i(1,2) t, of h] assms(2) process_sched(1) [OF i(1) assms(2)] process_rest [OF i(3,2) assms(2)]
    by (auto simp: tx_inv_def)
qed

lemma tx_inv_loop: "tx_inv hw \<Longrightarrow> hwq_loop h cur hw = Inr hw' \<Longrightarrow> tx_inv hw'"
proof (induction h cur hw rule: hwq_loop.induct)
  case (1 h cur hw)
  show ?case
  proof (cases cur)
    case None
    then show ?thesis using 1(2,3) by (simp add: hwq_loop.simps)
  next
    case (Some t)
    then obtain hw1 where p: "process_txq h t hw = Inr hw1"
      using 1(3) by (simp add: hwq_loop.simps [of h "Some t"] split: sum.splits)
    then show ?thesis
      using 1(1) [OF Some p tx_inv_process_txq [OF 1(2) p]] 1(3) Some by (simp add: hwq_loop.simps [of h "Some t"])
  qed
qed

lemma tx_inv_hwq_process:
  assumes "tx_inv hw" and "rwnx_hwq_process h hw = Inr hw'"
  shows "tx_inv hw'"
proof -
  have "sched_ok (upd_hwq h (\<lambda>h. h\<lparr>need_processing := False\<rparr>) hw)"
    using assms(1) by (intro sched_rotate) (simp_all add: tx_inv_def)
  moreover have "queues_ok (upd_hwq h (\<lambda>h. h\<lparr>need_processing := False\<rparr>) hw)"
    using assms(1) by (simp add: tx_inv_def queues_ok_def)
  moreover have "rest_inv (upd_hwq h (\<lambda>h. h\<lparr>need_processing := False\<rparr>) hw)"
    using assms(1) calm_rest [OF calm_upd_hwq] by (simp add: tx_inv_def)
  ultimately have "tx_inv (upd_hwq h (\<lambda>h. h\<lparr>need_processing := False\<rparr>) hw)" by (simp add: tx_inv_def)
  then show ?thesis
    using tx_inv_loop assms(2) by (simp add: rwnx_hwq_process_def Let_def)
qed

lemma tx_inv_process_from: "tx_inv hw \<Longrightarrow> process_from hs hw = Inr hw' \<Longrightarrow> tx_inv hw'"
  by (induction hs arbitrary: hw) (auto simp: bind_tx_Inr split: if_splits dest: tx_inv_hwq_process)

lemma tx_inv_process_all: "tx_inv hw \<Longrightarrow> rwnx_hwq_process_all hw = Inr hw' \<Longrightarrow> tx_inv hw'"
  unfolding rwnx_hwq_process_all_def by (rule tx_inv_process_from)

subsection \<open>Start and stop\<close>

lemma tx_inv_start:
  assumes i: "tx_inv hw" and r: "stop_reason r" "r AND RWNX_TXQ_STOP_STA_PS = 0" and t: "t < length (txqs hw)"
  shows "tx_inv (rwnx_txq_start t r hw)"
  using i sched_start [OF _ _ r(1) t] queues_start [OF _ r(1) t disjI1 [OF r(2)]] calm_rest [OF calm_start [OF r(2)]]
  by (simp add: tx_inv_def)

lemma tx_inv_stop: "tx_inv hw \<Longrightarrow> stop_reason r \<Longrightarrow> tx_inv (rwnx_txq_stop t r hw)"
  using sched_stop queues_stop calm_rest [OF calm_stop] by (simp add: tx_inv_def)

lemma tx_inv_queue:
  assumes i: "tx_inv hw" and t: "t < length (txqs hw)" and act: "idx (txqs hw ! t) \<noteq> TXQ_INACTIVE"
    and b: "tb_txq b = t" "tb_sta b = q_sta (txqs hw ! t)" "tb_id b \<notin> tb_id ` set (sk_list (txqs hw ! t))"
  shows "tx_inv (snd (rwnx_txq_queue_skb b t retry hw))"
  using i sched_queue [of hw t b retry] queues_queue [OF _ t act b, of retry] rest_queue [of hw t b retry] t act
  by (simp add: tx_inv_def)

subsection \<open>Power save\<close>

lemma known_queues:
  assumes "sta_known (old_ic hw) s (tx_stas hw ! s)"
  shows "foreach_sta_txq s hw = qs_of (old_ic hw) s"
    "is_multicast_sta (old_ic hw) s \<Longrightarrow> qs_of (old_ic hw) s = [rwnx_txq_sta_get s tid hw]"
    "\<not> is_multicast_sta (old_ic hw) s \<Longrightarrow> set (foreach_sta_txq_prio s hw) \<subseteq> set (qs_of (old_ic hw) s)"
  using assms
  by (auto simp: foreach_sta_txq_def qs_of_def sta_known_def rwnx_txq_sta_get_def rwnx_txq_sta_idx_def NX_NB_TXQ_PER_STA_def
      NX_NB_TID_PER_STA_def foreach_sta_txq_prio_def nx_tid_prio_def)

lemma reason_ps: "stop_reason RWNX_TXQ_STOP_STA_PS" "stop_reason RWNX_TXQ_STOP_FULL"
    "RWNX_TXQ_STOP_FULL AND RWNX_TXQ_STOP_STA_PS = 0"
  by (simp_all add: stop_reason_def RWNX_TXQ_STOP_eq RWNX_TXQ_STOP_STA_PS_def RWNX_TXQ_STOP_FULL_def)

lemma stop_sets_ps:
  assumes "t < length (txqs hw)" and "idx (txqs hw ! t) \<noteq> TXQ_INACTIVE"
  shows "sta_ps (txqs (rwnx_txq_stop t RWNX_TXQ_STOP_STA_PS hw) ! t)"
  using assms by (simp add: stop_txqs Let_def sta_ps_def status_bits or_and or_eq_0_iff)

lemma fold_stop_ps:
  "t \<in> set ts \<Longrightarrow> t < length (txqs hw) \<Longrightarrow> idx (txqs hw ! t) \<noteq> TXQ_INACTIVE \<Longrightarrow>
   sta_ps (txqs (fold (\<lambda>t. rwnx_txq_stop t RWNX_TXQ_STOP_STA_PS) ts hw) ! t)"
proof (induction ts arbitrary: hw)
  case (Cons u ts)
  let ?hw = "rwnx_txq_stop u RWNX_TXQ_STOP_STA_PS hw"
  have c: "calm hw ?hw" by (rule calm_stop)
  have i: "idx (txqs ?hw ! t) \<noteq> TXQ_INACTIVE" using calm_at(3) [OF c Cons.prems(2)] Cons.prems(3) by simp
  show ?case
  proof (cases "t \<in> set ts")
    case True
    then show ?thesis using Cons.IH [of ?hw] Cons.prems i by simp
  next
    case False
    then have "sta_ps (txqs ?hw ! t)" using Cons.prems stop_sets_ps by simp
    moreover have "calm ?hw (fold (\<lambda>t. rwnx_txq_stop t RWNX_TXQ_STOP_STA_PS) ts ?hw)"
      by (rule calm_fold) (rule calm_stop)
    ultimately show ?thesis using Cons.prems(2) i by (simp add: calm_def)
  qed
qed simp

lemma set_ready_simps [simp]:
  "txqs (set_pkt_ready s i n hw) = txqs hw" "hwqs (set_pkt_ready s i n hw) = hwqs hw" "old_ic (set_pkt_ready s i n hw) = old_ic hw"
  "length (tx_stas (set_pkt_ready s i n hw)) = length (tx_stas hw)"
  "txqs (set_sp_cnt s i n hw) = txqs hw" "hwqs (set_sp_cnt s i n hw) = hwqs hw" "old_ic (set_sp_cnt s i n hw) = old_ic hw"
  "length (tx_stas (set_sp_cnt s i n hw)) = length (tx_stas hw)"
  by (simp_all add: set_pkt_ready_def set_sp_cnt_def)

lemma set_ready_stas:
  "v < length (tx_stas hw) \<Longrightarrow> tx_stas (set_pkt_ready s i n hw) ! v =
    (if v = s then (tx_stas hw ! v)\<lparr>pkt_ready := (pkt_ready (tx_stas hw ! v))(i := n)\<rparr> else tx_stas hw ! v)"
  by (simp add: set_pkt_ready_def upd_sta_nth)

definition add_ready :: "nat \<Rightarrow> nat \<Rightarrow> tx_hw \<Rightarrow> tx_hw" where
  "add_ready s t hw = (let q = txqs hw ! t in
     set_pkt_ready s (ps_id q) (pkt_ready (tx_stas hw ! s) (ps_id q) + of_nat (length (sk_list q))) hw)"

lemma add_ready_simps [simp]:
  "txqs (add_ready s t hw) = txqs hw" "hwqs (add_ready s t hw) = hwqs hw" "old_ic (add_ready s t hw) = old_ic hw"
  "length (tx_stas (add_ready s t hw)) = length (tx_stas hw)"
  by (simp_all add: add_ready_def Let_def)

lemma add_ready_stas:
  "v < length (tx_stas hw) \<Longrightarrow> tx_stas (add_ready s t hw) ! v =
    (if v = s then (tx_stas hw ! v)\<lparr>pkt_ready := (pkt_ready (tx_stas hw ! v))(ps_id (txqs hw ! t) :=
       pkt_ready (tx_stas hw ! v) (ps_id (txqs hw ! t)) + of_nat (length (sk_list (txqs hw ! t))))\<rparr> else tx_stas hw ! v)"
  by (simp add: add_ready_def Let_def set_ready_stas)

lemma fold_add_ready:
  assumes "s < length (tx_stas hw)"
  shows "txqs (fold (add_ready s) ts hw) = txqs hw \<and> hwqs (fold (add_ready s) ts hw) = hwqs hw \<and>
    old_ic (fold (add_ready s) ts hw) = old_ic hw \<and> length (tx_stas (fold (add_ready s) ts hw)) = length (tx_stas hw)"
    "v < length (tx_stas hw) \<Longrightarrow> ps_active (tx_stas (fold (add_ready s) ts hw) ! v) = ps_active (tx_stas hw ! v) \<and>
       sta_vif (tx_stas (fold (add_ready s) ts hw) ! v) = sta_vif (tx_stas hw ! v) \<and>
       (v \<noteq> s \<longrightarrow> pkt_ready (tx_stas (fold (add_ready s) ts hw) ! v) = pkt_ready (tx_stas hw ! v)) \<and>
       pkt_ready (tx_stas (fold (add_ready s) ts hw) ! s) i = pkt_ready (tx_stas hw ! s) i +
         (\<Sum>t\<leftarrow>ts. if ps_id (txqs hw ! t) = i then of_nat (length (sk_list (txqs hw ! t))) else 0)"
proof -
  show "txqs (fold (add_ready s) ts hw) = txqs hw \<and> hwqs (fold (add_ready s) ts hw) = hwqs hw \<and>
    old_ic (fold (add_ready s) ts hw) = old_ic hw \<and> length (tx_stas (fold (add_ready s) ts hw)) = length (tx_stas hw)"
    by (induction ts arbitrary: hw) simp_all
  show "ps_active (tx_stas (fold (add_ready s) ts hw) ! v) = ps_active (tx_stas hw ! v) \<and>
       sta_vif (tx_stas (fold (add_ready s) ts hw) ! v) = sta_vif (tx_stas hw ! v) \<and>
       (v \<noteq> s \<longrightarrow> pkt_ready (tx_stas (fold (add_ready s) ts hw) ! v) = pkt_ready (tx_stas hw ! v)) \<and>
       pkt_ready (tx_stas (fold (add_ready s) ts hw) ! s) i = pkt_ready (tx_stas hw ! s) i +
         (\<Sum>t\<leftarrow>ts. if ps_id (txqs hw ! t) = i then of_nat (length (sk_list (txqs hw ! t))) else 0)"
    if "v < length (tx_stas hw)" for v
    using that assms by (induction ts arbitrary: hw) (auto simp: add_ready_stas cong: if_cong)
qed

text \<open>The counters when the station goes to sleep.\<close>

lemma count_waiting_ready:
  assumes s: "s < length (tx_stas hw)" and k: "sta_known (old_ic hw) s (tx_stas hw ! s)"
    and bc: "is_multicast_sta (old_ic hw) s \<Longrightarrow> ps_id (txqs hw ! rwnx_txq_sta_get s 0 hw) = LEGACY_PS_ID"
  shows "txqs (count_waiting s hw) = txqs hw \<and> hwqs (count_waiting s hw) = hwqs hw \<and> old_ic (count_waiting s hw) = old_ic hw \<and>
      length (tx_stas (count_waiting s hw)) = length (tx_stas hw)"
    "v < length (tx_stas hw) \<Longrightarrow> ps_active (tx_stas (count_waiting s hw) ! v) = ps_active (tx_stas hw ! v) \<and>
       sta_vif (tx_stas (count_waiting s hw) ! v) = sta_vif (tx_stas hw ! v) \<and>
       (v \<noteq> s \<longrightarrow> pkt_ready (tx_stas (count_waiting s hw) ! v) = pkt_ready (tx_stas hw ! v))"
    "i < 2 \<Longrightarrow> pkt_ready (tx_stas (count_waiting s hw) ! s) i = ready (old_ic hw) s i (txqs hw)"
proof -
  let ?z = "set_pkt_ready s UAPSD_ID 0 (set_pkt_ready s LEGACY_PS_ID 0 hw)"
  have u: "count_waiting s hw = fold (add_ready s) (qs_of (old_ic hw) s) ?z" if "\<not> is_multicast_sta (old_ic hw) s"
    using that known_queues(1) [OF k] by (simp add: count_waiting_def add_ready_def [abs_def])
  show "txqs (count_waiting s hw) = txqs hw \<and> hwqs (count_waiting s hw) = hwqs hw \<and> old_ic (count_waiting s hw) = old_ic hw \<and>
      length (tx_stas (count_waiting s hw)) = length (tx_stas hw)"
    using fold_add_ready(1) [of s ?z "qs_of (old_ic hw) s"] u s
    by (cases "is_multicast_sta (old_ic hw) s") (simp_all add: count_waiting_def)
  show "v < length (tx_stas hw) \<Longrightarrow> ps_active (tx_stas (count_waiting s hw) ! v) = ps_active (tx_stas hw ! v) \<and>
       sta_vif (tx_stas (count_waiting s hw) ! v) = sta_vif (tx_stas hw ! v) \<and>
       (v \<noteq> s \<longrightarrow> pkt_ready (tx_stas (count_waiting s hw) ! v) = pkt_ready (tx_stas hw ! v))"
    using fold_add_ready(2) [of s ?z v "qs_of (old_ic hw) s"] u s
    by (cases "is_multicast_sta (old_ic hw) s") (simp_all add: count_waiting_def set_ready_stas)
  assume "i < 2"
  then have i: "i = LEGACY_PS_ID \<or> i = UAPSD_ID" "LEGACY_PS_ID \<noteq> UAPSD_ID" by (auto simp: LEGACY_PS_ID_def UAPSD_ID_def)
  show "pkt_ready (tx_stas (count_waiting s hw) ! s) i = ready (old_ic hw) s i (txqs hw)"
  proof (cases "is_multicast_sta (old_ic hw) s")
    case True
    show ?thesis
      using True bc [OF True] i s by (auto simp: ready_def known_queues(2) [OF k True, of 0] count_waiting_def set_ready_stas)
  next
    case False
    show ?thesis
      using fold_add_ready(2) [of s ?z s "qs_of (old_ic hw) s" i] u [OF False] s i by (auto simp: ready_def set_ready_stas cong: if_cong)
  qed
qed

lemma sched_sta: "sched_ok hw \<Longrightarrow> txqs hw' = txqs hw \<Longrightarrow> hwqs hw' = hwqs hw \<Longrightarrow> sched_ok hw'"
  using sched_cong by blast

lemma queues_sta: "queues_ok hw \<Longrightarrow> txqs hw' = txqs hw \<Longrightarrow> hwqs hw' = hwqs hw \<Longrightarrow> queues_ok hw'"
  using queues_cong [of hw' hw] by simp

lemma fold_stop_ok:
  assumes "stop_reason r"
  shows "sched_ok hw \<and> queues_ok hw \<Longrightarrow> sched_ok (fold (\<lambda>t. rwnx_txq_stop t r) ts hw) \<and> queues_ok (fold (\<lambda>t. rwnx_txq_stop t r) ts hw)"
  using sched_stop [OF _ assms] queues_stop [OF _ assms] by (induction ts arbitrary: hw) auto

lemma tx_inv_stas: "tx_inv hw \<Longrightarrow> length (tx_stas hw) = NX_REMOTE_STA_MAX + NX_VIRT_DEVS"
  by (simp add: tx_inv_def rest_inv_def)

lemma known_bound:
  assumes "tx_inv hw" and "sta_known (old_ic hw) s st"
  shows "s < length (tx_stas hw)"
  using assms tx_inv_stas [OF assms(1)]
  by (cases "old_ic hw") (auto simp: sta_known_def sta_bound_def layout_defs)

text \<open>The queue of a group address station.\<close>

lemma known_multicast:
  assumes r: "rest_inv hw" and k: "sta_known (old_ic hw) s (tx_stas hw ! s)"
    and act: "\<forall>t\<in>set (qs_of (old_ic hw) s). idx (txqs hw ! t) \<noteq> TXQ_INACTIVE"
    and t: "qs_of (old_ic hw) s = [t]" and m: "is_multicast_sta (old_ic hw) s"
  shows "t < length (txqs hw) \<and> ps_id (txqs hw ! t) = LEGACY_PS_ID \<and> q_hwq (txqs hw ! t) = RWNX_HWQ_BE"
proof -
  have "t \<in> set (qs_of (old_ic hw) s)" by (simp add: t)
  then have b: "t < length (txqs hw)" using qs_of_length [of s "old_ic hw" t] k r by (simp add: sta_known_def rest_inv_def)
  have "nx_first_vif_txq_idx (old_ic hw) \<le> t \<and> t < nx_first_unk_txq_idx (old_ic hw)"
    using t k m by (cases "old_ic hw") (auto simp: qs_of_def sta_known_def sta_bound_def layout_defs is_multicast_sta_def)
  then show ?thesis using r b act t by (simp add: rest_inv_def q_lay_def)
qed

text \<open>What \<open>ps_on\<close> does to the queues and the stations.\<close>

lemma ps_on_facts:
  assumes i: "tx_inv hw" and k: "sta_known (old_ic hw) s (tx_stas hw ! s)"
    and act: "\<forall>t\<in>set (qs_of (old_ic hw) s). idx (txqs hw ! t) \<noteq> TXQ_INACTIVE"
  shows "old_ic (ps_on s hw) = old_ic hw \<and> length (hwqs (ps_on s hw)) = length (hwqs hw) \<and>
      length (txqs (ps_on s hw)) = length (txqs hw) \<and> length (tx_stas (ps_on s hw)) = length (tx_stas hw)"
    "v < length (tx_stas hw) \<Longrightarrow> ps_active (tx_stas (ps_on s hw) ! v) = (v = s \<or> ps_active (tx_stas hw ! v)) \<and>
      sta_vif (tx_stas (ps_on s hw) ! v) = sta_vif (tx_stas hw ! v) \<and>
      (v \<noteq> s \<longrightarrow> pkt_ready (tx_stas (ps_on s hw) ! v) = pkt_ready (tx_stas hw ! v))"
    "t < length (txqs hw) \<Longrightarrow> idx (txqs (ps_on s hw) ! t) = idx (txqs hw ! t) \<and> q_sta (txqs (ps_on s hw) ! t) = q_sta (txqs hw ! t) \<and>
      ps_id (txqs (ps_on s hw) ! t) = ps_id (txqs hw ! t) \<and> q_hwq (txqs (ps_on s hw) ! t) = q_hwq (txqs hw ! t) \<and> ndev_idx (txqs (ps_on s hw) ! t) = ndev_idx (txqs hw ! t) \<and>
      length (sk_list (txqs (ps_on s hw) ! t)) = length (sk_list (txqs hw ! t))"
    "t < length (txqs hw) \<Longrightarrow> idx (txqs hw ! t) \<noteq> TXQ_INACTIVE \<Longrightarrow> sta_ps (txqs hw ! t) \<or> t \<in> set (qs_of (old_ic hw) s) \<Longrightarrow>
      sta_ps (txqs (ps_on s hw) ! t)"
    "j < 2 \<Longrightarrow> pkt_ready (tx_stas (ps_on s hw) ! s) j = ready (old_ic hw) s j (txqs (ps_on s hw))"
    "sched_ok (ps_on s hw) \<and> queues_ok (ps_on s hw)"
proof -
  let ?hw1 = "set_sp_cnt s UAPSD_ID 0 (set_sp_cnt s LEGACY_PS_ID 0 (upd_sta s (\<lambda>st. st\<lparr>ps_active := True\<rparr>) hw))"
  let ?hw2 = "rwnx_txq_sta_stop RWNX_TXQ_STOP_STA_PS s ?hw1"
  have r: "rest_inv hw" and so: "sched_ok hw" "queues_ok hw" using i by (simp_all add: tx_inv_def)
  have s: "s < length (tx_stas hw)" by (rule known_bound [OF i k])
  have c1: "calm (upd_sta s (\<lambda>st. st\<lparr>ps_active := True\<rparr>) hw) ?hw1"
    using calm_trans [OF calm_sp calm_sp] .
  have c2: "calm ?hw1 ?hw2"
    unfolding rwnx_txq_sta_stop_def by (rule calm_fold) (rule calm_stop)
  note c = calm_trans [OF c1 c2]
  note ca = calm_at [OF c]
  have o: "old_ic ?hw2 = old_ic hw" "length (hwqs ?hw2) = length (hwqs hw)" using c by (simp_all add: calm_def)
  have st: "ps_active (tx_stas ?hw2 ! v) = (v = s \<or> ps_active (tx_stas hw ! v)) \<and> sta_vif (tx_stas ?hw2 ! v) = sta_vif (tx_stas hw ! v) \<and>
      pkt_ready (tx_stas ?hw2 ! v) = pkt_ready (tx_stas hw ! v)" if "v < length (tx_stas hw)" for v
    using ca(4) [of v] that by (simp add: upd_sta_nth)
  have q2: "idx (txqs ?hw2 ! t) = idx (txqs hw ! t) \<and> q_sta (txqs ?hw2 ! t) = q_sta (txqs hw ! t) \<and>
       ps_id (txqs ?hw2 ! t) = ps_id (txqs hw ! t) \<and> q_hwq (txqs ?hw2 ! t) = q_hwq (txqs hw ! t) \<and> ndev_idx (txqs ?hw2 ! t) = ndev_idx (txqs hw ! t) \<and>
       length (sk_list (txqs ?hw2 ! t)) = length (sk_list (txqs hw ! t))" if "t < length (txqs hw)" for t
    using ca(3) [of t] that by simp
  have k1: "sta_known (old_ic ?hw1) s (tx_stas ?hw1 ! s)"
    using k s calm_at(4) [OF c1, of s] by (simp add: sta_known_def upd_sta_nth)
  have k2: "sta_known (old_ic ?hw2) s (tx_stas ?hw2 ! s)" using k st [OF s] o by (simp add: sta_known_def)
  have bc: "ps_id (txqs ?hw2 ! rwnx_txq_sta_get s 0 ?hw2) = LEGACY_PS_ID" if m: "is_multicast_sta (old_ic ?hw2) s"
    using known_multicast [OF r k act, of "rwnx_txq_sta_get s 0 ?hw2"] known_queues(2) [OF k2 m, of 0] m o(1) q2 by simp
  have s2: "s < length (tx_stas ?hw2)" using s ca(2) by simp
  note w = count_waiting_ready [OF s2 k2 bc]
  have P: "ps_on s hw = count_waiting s ?hw2" by (simp add: ps_on_def)
  have wq: "txqs (ps_on s hw) = txqs ?hw2" "hwqs (ps_on s hw) = hwqs ?hw2" unfolding P using w(1) by simp_all
  show "old_ic (ps_on s hw) = old_ic hw \<and> length (hwqs (ps_on s hw)) = length (hwqs hw) \<and>
      length (txqs (ps_on s hw)) = length (txqs hw) \<and> length (tx_stas (ps_on s hw)) = length (tx_stas hw)"
    unfolding P using w(1) o ca(1,2) by simp
  show "v < length (tx_stas hw) \<Longrightarrow> ps_active (tx_stas (ps_on s hw) ! v) = (v = s \<or> ps_active (tx_stas hw ! v)) \<and>
      sta_vif (tx_stas (ps_on s hw) ! v) = sta_vif (tx_stas hw ! v) \<and>
      (v \<noteq> s \<longrightarrow> pkt_ready (tx_stas (ps_on s hw) ! v) = pkt_ready (tx_stas hw ! v))"
    unfolding P using w(2) [of v] st [of v] ca(2) by simp
  show "t < length (txqs hw) \<Longrightarrow> idx (txqs (ps_on s hw) ! t) = idx (txqs hw ! t) \<and> q_sta (txqs (ps_on s hw) ! t) = q_sta (txqs hw ! t) \<and>
      ps_id (txqs (ps_on s hw) ! t) = ps_id (txqs hw ! t) \<and> q_hwq (txqs (ps_on s hw) ! t) = q_hwq (txqs hw ! t) \<and> ndev_idx (txqs (ps_on s hw) ! t) = ndev_idx (txqs hw ! t) \<and>
      length (sk_list (txqs (ps_on s hw) ! t)) = length (sk_list (txqs hw ! t))"
    unfolding wq by (rule q2)
  show "t < length (txqs hw) \<Longrightarrow> idx (txqs hw ! t) \<noteq> TXQ_INACTIVE \<Longrightarrow> sta_ps (txqs hw ! t) \<or> t \<in> set (qs_of (old_ic hw) s) \<Longrightarrow>
      sta_ps (txqs (ps_on s hw) ! t)"
    using c fold_stop_ps [of t "qs_of (old_ic hw) s" ?hw1] unfolding wq calm_def rwnx_txq_sta_stop_def known_queues(1) [OF k1] by auto
  show "j < 2 \<Longrightarrow> pkt_ready (tx_stas (ps_on s hw) ! s) j = ready (old_ic hw) s j (txqs (ps_on s hw))"
    unfolding wq using w(3) [of j] o(1) by (simp add: P)
  have "sched_ok ?hw1 \<and> queues_ok ?hw1"
    using sched_sta [OF so(1), of ?hw1] queues_sta [OF so(2), of ?hw1] by simp
  then have "sched_ok ?hw2 \<and> queues_ok ?hw2"
    unfolding rwnx_txq_sta_stop_def by (rule fold_stop_ok [OF reason_ps(1)])
  then show "sched_ok (ps_on s hw) \<and> queues_ok (ps_on s hw)"
    using sched_sta queues_sta wq by blast
qed

lemma tx_inv_ps_on:
  assumes i: "tx_inv hw" and k: "sta_known (old_ic hw) s (tx_stas hw ! s)"
    and act: "\<forall>t\<in>set (qs_of (old_ic hw) s). idx (txqs hw ! t) \<noteq> TXQ_INACTIVE"
  shows "tx_inv (ps_on s hw)"
proof -
  note f = ps_on_facts [OF i k act]
  have r: "rest_inv hw" using i by (simp add: tx_inv_def)
  have len: "length (txqs hw) = NX_NB_TXQ" using r by (simp add: rest_inv_def)
  have stas: "sta_known (old_ic hw) v (tx_stas (ps_on s hw) ! v)" if "v < length (tx_stas hw)" "ps_active (tx_stas (ps_on s hw) ! v)" for v
    using that r k f(2) [of v] by (cases "v = s") (auto simp: rest_inv_def sta_known_def)
  have lay: "q_lay (old_ic hw) t (txqs (ps_on s hw) ! t)" if "t < length (txqs hw)" for t
    using r that f(3) [of t] by (simp add: rest_inv_def q_lay_def)
  have ps: "sta_ps (txqs (ps_on s hw) ! t)" if t: "t < length (txqs hw)" "idx (txqs (ps_on s hw) ! t) \<noteq> TXQ_INACTIVE"
      "q_sta (txqs (ps_on s hw) ! t) = Some v" "ps_active (tx_stas (ps_on s hw) ! v)" for t v
  proof -
    have a: "idx (txqs hw ! t) \<noteq> TXQ_INACTIVE" "q_sta (txqs hw ! t) = Some v" using t f(3) [of t] by auto
    note v = active_sta [OF r t(1) a(1)]
    have "t \<in> set (qs_of (old_ic hw) s)" if "v = s" using qs_of_lay v(1,4) a(2) that by simp
    moreover have "sta_ps (txqs hw ! t)" if "v \<noteq> s" using that r t(1,4) a f(2) [of v] v(3) by (simp add: rest_inv_def)
    ultimately show ?thesis using f(4) [OF t(1) a(1)] by blast
  qed
  have ac: "pkt_ready (tx_stas (ps_on s hw) ! v) j = ready (old_ic hw) v j (txqs (ps_on s hw))"
    if v: "v < length (tx_stas hw)" "ps_active (tx_stas (ps_on s hw) ! v)"
      "\<forall>t\<in>set (qs_of (old_ic hw) v). idx (txqs (ps_on s hw) ! t) \<noteq> TXQ_INACTIVE" "j < 2" for v j
  proof (cases "v = s")
    case False
    have vb: "v < sta_bound (old_ic hw)" using stas [OF v(1,2)] by (simp add: sta_known_def)
    have bv: "t < length (txqs hw)" if "t \<in> set (qs_of (old_ic hw) v)" for t using qs_of_length [OF vb that] len by simp
    have "ready (old_ic hw) v j (txqs (ps_on s hw)) = ready (old_ic hw) v j (txqs hw)"
      by (rule ready_cong) (use f(3) bv in auto)
    then show ?thesis using False r v bv f(2) [of v] f(3) by (simp add: rest_inv_def)
  qed (use f(5) v(4) in simp)
  have "rest_inv (ps_on s hw)"
    unfolding rest_inv_def using r stas lay ps ac f(1) by (simp add: rest_inv_def)
  then show ?thesis using f(6) by (simp add: tx_inv_def)
qed

text \<open>A station that wakes up.\<close>

lemma rest_sta:
  assumes r: "rest_inv hw" and f: "\<not> ps_active (f (tx_stas hw ! s))"
  shows "rest_inv (upd_sta s f hw)"
proof (cases "s < length (tx_stas hw)")
  case True
  let ?hw = "upd_sta s f hw"
  have st: "tx_stas ?hw ! v = (if v = s then f (tx_stas hw ! v) else tx_stas hw ! v)"
    if "v < length (tx_stas hw)" for v using that by (simp add: upd_sta_nth)
  have ps: "sta_ps (txqs hw ! t)" if "t < length (txqs hw)" "idx (txqs hw ! t) \<noteq> TXQ_INACTIVE" "q_sta (txqs hw ! t) = Some v"
      "ps_active (tx_stas ?hw ! v)" for t v
  proof -
    have "v < length (tx_stas hw)" using active_sta(3) [OF r that(1,2,3)] .
    then have "ps_active (tx_stas hw ! v)" using st [of v] that(4) f by (auto split: if_splits)
    then show ?thesis using r that by (simp add: rest_inv_def)
  qed
  have stas: "ps_active (tx_stas ?hw ! v) \<Longrightarrow> ps_active (tx_stas hw ! v) \<and> tx_stas ?hw ! v = tx_stas hw ! v" if "v < length (tx_stas hw)" for v
    using st [OF that] f by (auto split: if_splits)
  show ?thesis
    using r stas ps unfolding rest_inv_def by auto
qed (use r in \<open>simp add: upd_sta_def list_update_beyond\<close>)

lemma tx_inv_sta: "tx_inv hw \<Longrightarrow> \<not> ps_active (f (tx_stas hw ! s)) \<Longrightarrow> tx_inv (upd_sta s f hw)"
  using rest_sta sched_sta [of hw "upd_sta s f hw"] queues_sta [of hw "upd_sta s f hw"] by (simp add: tx_inv_def)

lemma tx_inv_awake: "tx_inv hw \<Longrightarrow> tx_inv (upd_sta s (\<lambda>st. st\<lparr>ps_active := False\<rparr>) hw)"
  by (rule tx_inv_sta) simp_all

lemma tx_inv_limit0: "tx_inv hw \<Longrightarrow> tx_inv (set_push_limit 0 t hw)"
proof -
  assume i: "tx_inv hw"
  then have "sched_ok (set_push_limit 0 t hw)"
    unfolding set_push_limit_def by (intro sched_upd) (simp_all add: tx_inv_def in_list_def)
  moreover have "queues_ok (set_push_limit 0 t hw)"
    unfolding set_push_limit_def
  proof (rule queues_upd)
    show "queues_ok hw" using i by (simp add: tx_inv_def)
    then show "t < length (txqs hw) \<Longrightarrow> q_ok (length (hwqs hw)) t ((txqs hw ! t)\<lparr>push_limit := 0\<rparr>)"
      using queues_at [of hw t] by (auto simp: q_ok_def active_ok_def in_list_def rwnx_txq_is_stopped_def retry_ok_def)
  qed
  ultimately show ?thesis using i calm_rest [OF calm_limit] by (simp add: tx_inv_def)
qed

text \<open>Starting a queue of an awake station for the end of power save.\<close>

lemma rest_wake_queue:
  assumes r: "rest_inv hw" and t: "t < length (txqs hw)"
    and aw: "\<And>s. idx (txqs hw ! t) \<noteq> TXQ_INACTIVE \<Longrightarrow> q_sta (txqs hw ! t) = Some s \<Longrightarrow> \<not> ps_active (tx_stas hw ! s)"
    and f: "\<And>q. q_stat (f q) = q_stat q"
  shows "rest_inv (upd_txq t f hw)"
proof -
  have q: "idx (txqs (upd_txq t f hw) ! u) = idx (txqs hw ! u) \<and> q_sta (txqs (upd_txq t f hw) ! u) = q_sta (txqs hw ! u) \<and>
      ps_id (txqs (upd_txq t f hw) ! u) = ps_id (txqs hw ! u) \<and> q_hwq (txqs (upd_txq t f hw) ! u) = q_hwq (txqs hw ! u) \<and> ndev_idx (txqs (upd_txq t f hw) ! u) = ndev_idx (txqs hw ! u) \<and>
      length (sk_list (txqs (upd_txq t f hw) ! u)) = length (sk_list (txqs hw ! u))" if "u < length (txqs hw)" for u
    using f [of "txqs hw ! u"] that by (cases "u = t") (simp_all add: upd_txq_nth q_stat_def)
  have len: "length (txqs hw) = NX_NB_TXQ" using r by (simp add: rest_inv_def)
  have "sta_ps (txqs (upd_txq t f hw) ! u)" if "u < length (txqs hw)" "idx (txqs hw ! u) \<noteq> TXQ_INACTIVE" "q_sta (txqs hw ! u) = Some s"
      "ps_active (tx_stas hw ! s)" for u s
    using r aw that by (cases "u = t") (auto simp: rest_inv_def upd_txq_nth)
  moreover have "ready (old_ic hw) s i (txqs (upd_txq t f hw)) = ready (old_ic hw) s i (txqs hw)"
      "(\<forall>t'\<in>set (qs_of (old_ic hw) s). idx (txqs (upd_txq t f hw) ! t') \<noteq> TXQ_INACTIVE) \<longleftrightarrow>
       (\<forall>t'\<in>set (qs_of (old_ic hw) s). idx (txqs hw ! t') \<noteq> TXQ_INACTIVE)"
    if "s < length (tx_stas hw)" "ps_active (tx_stas hw ! s)" for s i
  proof -
    have "s < sta_bound (old_ic hw)" using r that by (simp add: rest_inv_def sta_known_def)
    then have b: "u < length (txqs hw)" if "u \<in> set (qs_of (old_ic hw) s)" for u using qs_of_length that len by simp
    show "ready (old_ic hw) s i (txqs (upd_txq t f hw)) = ready (old_ic hw) s i (txqs hw)"
      by (rule ready_cong) (use q b in auto)
    show "(\<forall>t'\<in>set (qs_of (old_ic hw) s). idx (txqs (upd_txq t f hw) ! t') \<noteq> TXQ_INACTIVE) \<longleftrightarrow>
       (\<forall>t'\<in>set (qs_of (old_ic hw) s). idx (txqs hw ! t') \<noteq> TXQ_INACTIVE)" using q b by auto
  qed
  ultimately show ?thesis using r q unfolding rest_inv_def by (simp add: q_lay_def)
qed

lemma tx_inv_wake_queue:
  assumes i: "tx_inv hw" and t: "t < length (txqs hw)" and p: "push_limit (txqs hw ! t) = 0"
    and aw: "\<And>s. idx (txqs hw ! t) \<noteq> TXQ_INACTIVE \<Longrightarrow> q_sta (txqs hw ! t) = Some s \<Longrightarrow> \<not> ps_active (tx_stas hw ! s)"
  shows "tx_inv (rwnx_txq_start t RWNX_TXQ_STOP_STA_PS hw)"
proof -
  have r: "rest_inv hw" "sched_ok hw" "queues_ok hw" using i by (simp_all add: tx_inv_def)
  have "rest_inv (upd_txq t (\<lambda>q. q\<lparr>status := status q AND NOT RWNX_TXQ_STOP_STA_PS\<rparr>) hw)"
    by (rule rest_wake_queue [OF r(1) t aw]) (simp_all add: q_stat_def)
  then have "rest_inv (rwnx_txq_start t RWNX_TXQ_STOP_STA_PS hw)"
    using r(1) calm_rest [OF calm_add] by (simp add: rwnx_txq_start_def Let_def)
  then show ?thesis
    using sched_start [OF r(2,3) reason_ps(1) t] queues_start [OF r(3) reason_ps(1) t disjI2 [OF p]] by (simp add: tx_inv_def)
qed

lemma fold_limit0: "tx_inv hw \<Longrightarrow> tx_inv (fold (set_push_limit 0) ts hw)"
  by (induction ts arbitrary: hw) (simp_all add: tx_inv_limit0)

lemma limit0_simps [simp]:
  "tx_stas (set_push_limit n t hw) = tx_stas hw" "old_ic (set_push_limit n t hw) = old_ic hw"
  "length (txqs (set_push_limit n t hw)) = length (txqs hw)" "hwqs (set_push_limit n t hw) = hwqs hw"
  by (simp_all add: set_push_limit_def)

lemma fold_limit0_at:
  "u < length (txqs hw) \<Longrightarrow> u \<in> set ts \<or> push_limit (txqs hw ! u) = 0 \<Longrightarrow> push_limit (txqs (fold (set_push_limit 0) ts hw) ! u) = 0"
  "tx_stas (fold (set_push_limit 0) ts hw) = tx_stas hw" "old_ic (fold (set_push_limit 0) ts hw) = old_ic hw"
proof -
  show "u < length (txqs hw) \<Longrightarrow> u \<in> set ts \<or> push_limit (txqs hw ! u) = 0 \<Longrightarrow> push_limit (txqs (fold (set_push_limit 0) ts hw) ! u) = 0"
  proof (induction ts arbitrary: hw)
    case (Cons t ts)
    then show ?case
      using Cons.IH [of "set_push_limit 0 t hw"] by (auto simp: set_push_limit_def upd_txq_nth)
  qed simp
  show "tx_stas (fold (set_push_limit 0) ts hw) = tx_stas hw" "old_ic (fold (set_push_limit 0) ts hw) = old_ic hw"
    by (induction ts arbitrary: hw) simp_all
qed

lemma start_limit: "u < length (txqs hw) \<Longrightarrow> push_limit (txqs (rwnx_txq_start t r hw) ! u) = push_limit (txqs hw ! u)"
  by (cases "u = t") (simp_all add: start_txqs Let_def)

lemma start_owner: "u < length (txqs hw) \<Longrightarrow> idx (txqs (rwnx_txq_start t r hw) ! u) = idx (txqs hw ! u) \<and>
    q_sta (txqs (rwnx_txq_start t r hw) ! u) = q_sta (txqs hw ! u)"
  by (cases "u = t") (simp_all add: start_txqs Let_def)

lemma fold_wake:
  "tx_inv hw \<Longrightarrow> \<forall>t\<in>set ts. t < length (txqs hw) \<and> push_limit (txqs hw ! t) = 0 \<and>
     (\<forall>s. idx (txqs hw ! t) \<noteq> TXQ_INACTIVE \<longrightarrow> q_sta (txqs hw ! t) = Some s \<longrightarrow> \<not> ps_active (tx_stas hw ! s)) \<Longrightarrow>
   tx_inv (fold (\<lambda>t. rwnx_txq_start t RWNX_TXQ_STOP_STA_PS) ts hw)"
proof (induction ts arbitrary: hw)
  case (Cons t ts)
  have "tx_inv (rwnx_txq_start t RWNX_TXQ_STOP_STA_PS hw)"
    using Cons.prems by (intro tx_inv_wake_queue) auto
  then show ?case
    using Cons.IH [of "rwnx_txq_start t RWNX_TXQ_STOP_STA_PS hw"] Cons.prems(2) by (simp add: start_limit start_owner)
qed simp

lemma tx_inv_traffic: "tx_inv (rwnx_set_traffic_status s a i hw) = tx_inv hw"
proof -
  have "rest_inv (rwnx_set_traffic_status s a i hw) = rest_inv hw"
    by (simp add: rest_inv_def)
  moreover have "sched_ok (rwnx_set_traffic_status s a i hw) = sched_ok hw" by (rule sched_cong) simp_all
  moreover have "queues_ok (rwnx_set_traffic_status s a i hw) = queues_ok hw" by (rule queues_cong) simp_all
  ultimately show ?thesis by (simp add: tx_inv_def)
qed

lemma tx_inv_ps_off:
  assumes i: "tx_inv hw" and k: "sta_known (old_ic hw) s (tx_stas hw ! s)"
    and act: "\<forall>t\<in>set (qs_of (old_ic hw) s). idx (txqs hw ! t) \<noteq> TXQ_INACTIVE"
  shows "tx_inv (ps_off s hw)"
proof -
  let ?hw1 = "upd_sta s (\<lambda>st. st\<lparr>ps_active := False\<rparr>) hw"
  let ?ts = "qs_of (old_ic hw) s"
  let ?hw2 = "fold (set_push_limit 0) ?ts ?hw1"
  have s: "s < length (tx_stas hw)" by (rule known_bound [OF i k])
  have r: "rest_inv hw" using i by (simp add: tx_inv_def)
  have b: "t < length (txqs hw)" if "t \<in> set ?ts" for t
  proof -
    have "s < sta_bound (old_ic hw)" "length (txqs hw) = NX_NB_TXQ" using k r by (simp_all add: sta_known_def rest_inv_def)
    then show ?thesis using qs_of_length that by simp
  qed
  have k1: "sta_known (old_ic ?hw1) s (tx_stas ?hw1 ! s)" using k s by (simp add: sta_known_def upd_sta_nth)
  have bc: "upd_txq (rwnx_txq_sta_get s 0 ?hw1) (\<lambda>q. q\<lparr>q_hwq := RWNX_HWQ_BE, push_limit := 0\<rparr>) ?hw1 = ?hw2"
    if m: "is_multicast_sta (old_ic ?hw1) s"
  proof -
    let ?t = "rwnx_txq_sta_get s 0 ?hw1"
    have q: "?ts = [?t]" using known_queues(2) [OF k1 m, of 0] by simp
    have "q_hwq (txqs hw ! ?t) = RWNX_HWQ_BE" using known_multicast [OF r k act q] m by simp
    then have "(txqs hw ! ?t)\<lparr>q_hwq := RWNX_HWQ_BE, push_limit := 0\<rparr> = (txqs hw ! ?t)\<lparr>push_limit := 0\<rparr>" by simp
    then show ?thesis unfolding q by (simp add: set_push_limit_def) (simp add: upd_txq_def)
  qed
  have i2: "tx_inv ?hw2" by (rule fold_limit0 [OF tx_inv_awake [OF i]])
  have l2: "calm ?hw1 ?hw2" by (rule calm_fold) (rule calm_limit)
  have w: "\<forall>t\<in>set ?ts. t < length (txqs ?hw2) \<and> push_limit (txqs ?hw2 ! t) = 0 \<and>
     (\<forall>v. idx (txqs ?hw2 ! t) \<noteq> TXQ_INACTIVE \<longrightarrow> q_sta (txqs ?hw2 ! t) = Some v \<longrightarrow> \<not> ps_active (tx_stas ?hw2 ! v))"
  proof
    fix t assume t: "t \<in> set ?ts"
    have "q_sta (txqs hw ! t) = Some s"
      using active_sta(1) [OF r b [OF t]] act t qs_of_lay k by (simp add: sta_known_def)
    then have "q_sta (txqs ?hw2 ! t) = Some s" using calm_at(3) [OF l2, of t] b [OF t] by simp
    then show "t < length (txqs ?hw2) \<and> push_limit (txqs ?hw2 ! t) = 0 \<and>
     (\<forall>v. idx (txqs ?hw2 ! t) \<noteq> TXQ_INACTIVE \<longrightarrow> q_sta (txqs ?hw2 ! t) = Some v \<longrightarrow> \<not> ps_active (tx_stas ?hw2 ! v))"
      using calm_at(1) [OF l2] b [OF t] fold_limit0_at(1) [of t ?hw1 ?ts] t s by (simp add: fold_limit0_at(2) upd_sta_nth)
  qed
  have f: "foreach_sta_txq s ?hw2 = ?ts"
    using known_queues(1) [of ?hw2 s] k1 by (simp add: fold_limit0_at(2,3))
  have "ps_off s hw = (let hw3 = rwnx_txq_sta_start RWNX_TXQ_STOP_STA_PS s ?hw2 in
      if pkt_ready (tx_stas hw3 ! s) LEGACY_PS_ID \<noteq> 0 then rwnx_set_traffic_status s False LEGACY_PS_ID hw3 else hw3)"
    using bc known_queues(1) [OF k1] by (simp add: ps_off_def Let_def)
  moreover have "tx_inv (rwnx_txq_sta_start RWNX_TXQ_STOP_STA_PS s ?hw2)"
    unfolding rwnx_txq_sta_start_def f by (rule fold_wake [OF i2 w])
  ultimately show ?thesis by (simp add: Let_def tx_inv_traffic)
qed

text \<open>A traffic request.\<close>

lemma small_cast: "uint n < 128 \<Longrightarrow> uint (ucast n :: u8) = uint n" for n :: u16
  by (simp add: uint_up_ucast is_up unsigned_ucast_eq take_bit_int_eq_self_iff)

lemma tx_inv_limit_list:
  fixes n :: u16
  assumes i: "tx_inv hw" and t: "t < length (txqs hw)"
    and n: "idx (txqs hw ! t) \<noteq> TXQ_INACTIVE \<Longrightarrow> sta_ps (txqs hw ! t) \<and> n \<noteq> 0 \<and>
      uint n \<le> int (length (sk_list (txqs hw ! t))) \<and> uint n \<le> sint (credits (txqs hw ! t))"
  shows "tx_inv (rwnx_txq_add_to_hw_list t (set_sp_cnt s ps m (set_push_limit (ucast n) t hw)))"
proof -
  let ?hw1 = "set_push_limit (ucast n) t hw" and ?q = "(txqs hw ! t)\<lparr>push_limit := ucast n\<rparr>"
  let ?hw2 = "set_sp_cnt s ps m ?hw1"
  have ok: "sched_ok hw" "queues_ok hw" "rest_inv hw" using i by (simp_all add: tx_inv_def)
  have q: "q_ok (length (hwqs hw)) t (txqs hw ! t)" by (rule queues_at [OF ok(2) t])
  have "sched_ok ?hw1"
    unfolding set_push_limit_def by (rule sched_upd [OF ok(1)]) (simp_all add: in_list_def)
  then have s2: "sched_ok ?hw2" by (rule sched_sta) simp_all
  have u: "uint (ucast n :: u8) = uint n" if "idx (txqs hw ! t) \<noteq> TXQ_INACTIVE"
    using n [OF that] credits_range [of "credits (txqs hw ! t)"] by (intro small_cast) linarith
  have q1: "q_ok (length (hwqs hw)) t ?q"
    using q n u by (cases "idx (txqs hw ! t) = TXQ_INACTIVE")
      (auto simp: q_ok_def active_ok_def in_list_def rwnx_txq_is_stopped_def sta_ps_def retry_ok_def)
  have qs: "txqs (rwnx_txq_add_to_hw_list t ?hw2) = (txqs hw)[t := ?q\<lparr>status := status ?q OR RWNX_TXQ_IN_HWQ_LIST\<rparr>]"
    using t by (simp add: add_txqs set_push_limit_def) (simp add: upd_txq_def)
  have "queues_ok (rwnx_txq_add_to_hw_list t ?hw2)"
  proof (rule queues_set [OF ok(2) qs])
    show "q_ok (length (hwqs hw)) t (?q\<lparr>status := status ?q OR RWNX_TXQ_IN_HWQ_LIST\<rparr>)"
      by (rule q_ok_listed [OF q1]) (use n in \<open>auto simp: uint_0_iff dest: order_antisym\<close>)
  qed simp
  moreover have "sched_ok (rwnx_txq_add_to_hw_list t ?hw2)"
    using sched_add [OF s2, of t] t q by (simp add: q_ok_def) (simp add: set_push_limit_def)
  moreover have "rest_inv (rwnx_txq_add_to_hw_list t ?hw2)"
    using calm_rest [OF calm_trans [OF calm_limit calm_trans [OF calm_sp calm_add]] ok(3)] .
  ultimately show ?thesis by (simp add: tx_inv_def)
qed

lemma credit_word:
  fixes c :: u8 and len :: u16
  assumes "0 < sint c" and "sint c < int (unat len)"
  shows "uint (word_of_int (sint c) :: u16) = sint c" "(word_of_int (sint c) :: u16) \<noteq> 0"
proof -
  show "uint (word_of_int (sint c) :: u16) = sint c"
  proof -
    have "sint c mod 2 ^ 16 = sint c" using assms credits_range [of c] by (intro mod_pos_pos_trivial) auto
    then show ?thesis unfolding uint_word_of_int by simp
  qed
  then show "(word_of_int (sint c) :: u16) \<noteq> 0" using assms by (metis less_irrefl unsigned_0)
qed

lemma unat_of_nat_le: "unat (of_nat n :: u16) \<le> n"
  by (simp add: unat_of_nat)

lemma tx_inv_dispatch:
  assumes "tx_inv hw" and "req \<noteq> 0"
    and "\<forall>t\<in>set ts. t < length (txqs hw) \<and> (idx (txqs hw ! t) \<noteq> TXQ_INACTIVE \<longrightarrow> sta_ps (txqs hw ! t))"
  shows "tx_inv (dispatch_req s ps req ts hw)"
  using assms
proof (induction s ps req ts hw rule: dispatch_req.induct)
  case (2 s ps req t ts hw)
  let ?q = "txqs hw ! t"
  let ?len = "of_nat (length (sk_list ?q)) :: u16"
  let ?n = "if sint (credits ?q) < int (unat ?len) then word_of_int (sint (credits ?q)) else ?len"
  have t: "t < length (txqs hw)" "idx ?q \<noteq> TXQ_INACTIVE \<Longrightarrow> sta_ps ?q" using 2(5) by auto
  have n: "uint ?n \<le> int (length (sk_list ?q))" "uint ?n \<le> sint (credits ?q)" if "idx ?q \<noteq> TXQ_INACTIVE"
  proof -
    have c: "0 < sint (credits ?q)" using queues_at [of hw t] 2(3) t(1) that by (simp add: tx_inv_def q_ok_def active_ok_def)
    have l: "int (unat ?len) \<le> int (length (sk_list ?q))" using unat_of_nat_le by (simp only: of_nat_le_iff)
    show "uint ?n \<le> int (length (sk_list ?q))" "uint ?n \<le> sint (credits ?q)"
      using credit_word(1) [OF c, of ?len] l by (auto split: if_splits)
  qed
  have step: "tx_inv (limit_and_list s ps m t hw)"
    if "m \<noteq> 0" "uint m \<le> uint ?n" for m
    unfolding limit_and_list_def using t n that by (intro tx_inv_limit_list [OF 2(3)]) (auto intro: order_trans)
  have keep: "\<forall>u\<in>set ts. u < length (txqs (limit_and_list s ps m t hw)) \<and>
      (idx (txqs (limit_and_list s ps m t hw) ! u) \<noteq> TXQ_INACTIVE \<longrightarrow> sta_ps (txqs (limit_and_list s ps m t hw) ! u))" for m
  proof
    have c: "calm hw (limit_and_list s ps m t hw)"
      unfolding limit_and_list_def using calm_trans [OF calm_limit calm_trans [OF calm_sp calm_add]] .
    fix u assume u: "u \<in> set ts"
    then show "u < length (txqs (limit_and_list s ps m t hw)) \<and>
      (idx (txqs (limit_and_list s ps m t hw) ! u) \<noteq> TXQ_INACTIVE \<longrightarrow> sta_ps (txqs (limit_and_list s ps m t hw) ! u))"
      using calm_at(1) [OF c] calm_at(3) [OF c, of u] c 2(5) by (auto simp: calm_def)
  qed
  show ?case
  proof (cases "ps_id ?q \<noteq> ps \<or> ?n = 0")
    case True
    then show ?thesis using 2(1) [OF refl refl refl True] 2(3-5) by (simp add: Let_def)
  next
    case False
    note case1 = this
    show ?thesis
    proof (cases "?n < req")
      case True
      have "req - ?n \<noteq> 0" using True by auto
      then show ?thesis
        using 2(2) [OF refl refl refl case1 True] step [of ?n] keep case1 True by (simp add: Let_def)
    next
      case F2: False
      then have "uint req \<le> uint ?n" by (simp add: word_less_def)
      then show ?thesis using step [of req] 2(4) case1 F2 by (simp add: Let_def)
    qed
  qed
qed simp

lemma tx_inv_sp: "tx_inv hw \<Longrightarrow> tx_inv (set_sp_cnt s i n hw)"
  using calm_rest [OF calm_sp] sched_sta [of hw "set_sp_cnt s i n hw"] queues_sta [of hw "set_sp_cnt s i n hw"]
  by (simp add: tx_inv_def)

lemma sp_stas: "v < length (tx_stas hw) \<Longrightarrow> ps_active (tx_stas (set_sp_cnt s i n hw) ! v) = ps_active (tx_stas hw ! v) \<and>
    pkt_ready (tx_stas (set_sp_cnt s i n hw) ! v) = pkt_ready (tx_stas hw ! v) \<and>
    sta_vif (tx_stas (set_sp_cnt s i n hw) ! v) = sta_vif (tx_stas hw ! v)"
  by (simp add: set_sp_cnt_def upd_sta_nth)

text \<open>The queues of a sleeping station are stopped.\<close>

lemma asleep_queue:
  assumes "tx_inv hw" and "s < length (tx_stas hw)" and "ps_active (tx_stas hw ! s)" and "t \<in> set (qs_of (old_ic hw) s)"
  shows "t < length (txqs hw)" "idx (txqs hw ! t) \<noteq> TXQ_INACTIVE \<Longrightarrow> sta_ps (txqs hw ! t)"
    "sta_known (old_ic hw) s (tx_stas hw ! s)"
proof -
  have r: "rest_inv hw" using assms(1) by (simp add: tx_inv_def)
  show k: "sta_known (old_ic hw) s (tx_stas hw ! s)" using r assms by (simp add: rest_inv_def)
  show t: "t < length (txqs hw)" using qs_of_length [OF _ assms(4)] k r by (simp add: sta_known_def rest_inv_def)
  assume a: "idx (txqs hw ! t) \<noteq> TXQ_INACTIVE"
  then have "q_sta (txqs hw ! t) = Some s"
    using active_sta(1) [OF r t a] qs_of_lay [of s "old_ic hw" t] k assms(4) by (simp add: sta_known_def)
  then show "sta_ps (txqs hw ! t)" using r a t assms(3) by (simp add: rest_inv_def)
qed

lemma req_word:
  fixes rdy pr req :: u16
  assumes "0 < all" and "all \<le> int (unat rdy)" and "req = (if pr = 0 \<or> all < int (unat pr) then word_of_int all else pr)"
  shows "req \<noteq> 0" "uint req \<le> uint rdy"
proof -
  have "all mod 2 ^ 16 = all"
    using assms(1,2) uint_lt2p [of rdy] by (intro mod_pos_pos_trivial) auto
  then have w: "uint (word_of_int all :: u16) = all" unfolding uint_word_of_int by simp
  then have "(word_of_int all :: u16) \<noteq> 0" using assms(1) by (metis less_irrefl unsigned_0)
  then show "req \<noteq> 0" using assms(3) by (auto split: if_splits)
  show "uint req \<le> uint rdy" using assms w by (auto split: if_splits)
qed

lemma tx_inv_traffic_req:
  assumes i: "tx_inv hw" and s: "s < length (tx_stas hw)" and ps: "ps < 2"
  shows "tx_inv (fst (rwnx_ps_bh_traffic_req s req ps hw))"
proof (cases "\<not> ps_active (tx_stas hw ! s)")
  case True
  then show ?thesis using i by (simp add: rwnx_ps_bh_traffic_req_def Let_def)
next
  case False
  then have a: "ps_active (tx_stas hw ! s)" by simp
  have r: "rest_inv hw" using i by (simp add: tx_inv_def)
  have k: "sta_known (old_ic hw) s (tx_stas hw ! s)" using r a s by (simp add: rest_inv_def)
  let ?all = "int (unat (pkt_ready (tx_stas hw ! s) ps)) - int (unat (sp_cnt (tx_stas hw ! s) ps))"
  let ?req = "if req = 0 \<or> ?all < int (unat req) then word_of_int ?all else req"
  let ?hw1 = "set_sp_cnt s ps 0 hw"
  have i1: "tx_inv ?hw1" by (rule tx_inv_sp [OF i])
  have k1: "sta_known (old_ic ?hw1) s (tx_stas ?hw1 ! s)" "ps_active (tx_stas ?hw1 ! s)" "s < length (tx_stas ?hw1)"
    using k a s sp_stas [of s hw] by (simp_all add: sta_known_def)
  consider (stop) "req = PS_SP_INTERRUPTED \<and> ps = UAPSD_ID"
    | (none) "\<not> (req = PS_SP_INTERRUPTED \<and> ps = UAPSD_ID)" "sp_cnt (tx_stas hw ! s) ps \<noteq> 0 \<or> ?all \<le> 0"
    | (go) "\<not> (req = PS_SP_INTERRUPTED \<and> ps = UAPSD_ID)" "sp_cnt (tx_stas hw ! s) ps = 0" "0 < ?all"
    using linorder_le_less_linear [of ?all 0] by blast
  then show ?thesis
  proof cases
    case stop
    then show ?thesis using a fold_limit0 [OF i1] by (simp add: rwnx_ps_bh_traffic_req_def Let_def)
  next
    case none
    then show ?thesis using a i by (auto simp: rwnx_ps_bh_traffic_req_def Let_def)
  next
    case go
    have rq: "?req \<noteq> 0" "uint ?req \<le> uint (pkt_ready (tx_stas hw ! s) ps)"
      using req_word [of ?all "pkt_ready (tx_stas hw ! s) ps" ?req req] go(3) by simp_all
    show ?thesis
    proof (cases "is_multicast_sta (old_ic hw) s")
      case True
      let ?t = "rwnx_txq_sta_get s 0 ?hw1"
      let ?m = "if sint (credits (txqs hw ! ?t)) < int (unat ?req) then word_of_int (sint (credits (txqs hw ! ?t))) else ?req"
      have q: "qs_of (old_ic hw) s = [?t]" using known_queues(2) [OF k1(1), of 0] True by simp
      then have t: "?t < length (txqs hw)" "idx (txqs hw ! ?t) \<noteq> TXQ_INACTIVE \<Longrightarrow> sta_ps (txqs hw ! ?t)"
        using asleep_queue [OF i s a, of ?t] by simp_all
      have m: "sta_ps (txqs hw ! ?t) \<and> ?m \<noteq> 0 \<and> uint ?m \<le> int (length (sk_list (txqs hw ! ?t))) \<and> uint ?m \<le> sint (credits (txqs hw ! ?t))"
        if act: "idx (txqs hw ! ?t) \<noteq> TXQ_INACTIVE"
      proof -
        have c: "0 < sint (credits (txqs hw ! ?t))"
          using queues_at [of hw ?t] i t(1) act by (simp add: tx_inv_def q_ok_def active_ok_def)
        have "pkt_ready (tx_stas hw ! s) ps = (if ps_id (txqs hw ! ?t) = ps then of_nat (length (sk_list (txqs hw ! ?t))) else 0)"
          using r s a act ps q by (simp add: rest_inv_def ready_def)
        then have "unat (pkt_ready (tx_stas hw ! s) ps) \<le> length (sk_list (txqs hw ! ?t))" using unat_of_nat_le by simp
        then have "int (unat (pkt_ready (tx_stas hw ! s) ps)) \<le> int (length (sk_list (txqs hw ! ?t)))" by (simp only: of_nat_le_iff)
        then have "uint ?req \<le> int (length (sk_list (txqs hw ! ?t)))" using rq(2) by simp
        then show ?thesis using credit_word [OF c, of ?req] t(2) [OF act] rq(1) c by (auto split: if_splits)
      qed
      have "fst (rwnx_ps_bh_traffic_req s req ps hw) =
          rwnx_txq_add_to_hw_list ?t (set_sp_cnt s ps ?m (set_push_limit (ucast ?m) ?t ?hw1))"
        using a go True by (auto simp: rwnx_ps_bh_traffic_req_def Let_def)
      then show ?thesis
        using tx_inv_limit_list [OF i1, of ?t ?m s ps ?m] t(1) m unfolding set_ready_simps by (metis (no_types, lifting))
    next
      case False
      have "\<forall>t\<in>set (foreach_sta_txq_prio s ?hw1). t < length (txqs ?hw1) \<and> (idx (txqs ?hw1 ! t) \<noteq> TXQ_INACTIVE \<longrightarrow> sta_ps (txqs ?hw1 ! t))"
        using known_queues(3) [OF k1(1)] False asleep_queue [OF i1 k1(3,2)] by auto
      moreover have "fst (rwnx_ps_bh_traffic_req s req ps hw) = dispatch_req s ps ?req (foreach_sta_txq_prio s ?hw1) ?hw1"
        using a go False by (auto simp: rwnx_ps_bh_traffic_req_def Let_def)
      ultimately show ?thesis using tx_inv_dispatch [OF i1 rq(1)] by (simp only:)
    qed
  qed
qed

subsection \<open>Confirmations\<close>

lemma tx_inv_fields [simp]:
  "tx_inv (hw\<lparr>stopped := a\<rparr>) = tx_inv hw" "tx_inv (hw\<lparr>freed := b\<rparr>) = tx_inv hw" "tx_inv (hw\<lparr>mgmt_status := c\<rparr>) = tx_inv hw"
  "tx_inv (hw\<lparr>tx_host_id := d\<rparr>) = tx_inv hw" "tx_inv (hw\<lparr>txdesc_used_idx := e\<rparr>) = tx_inv hw" "tx_inv (hw\<lparr>tbusy := f\<rparr>) = tx_inv hw"
proof -
  have c: "tx_inv hw' = tx_inv hw" if "txqs hw' = txqs hw" "hwqs hw' = hwqs hw" "tx_stas hw' = tx_stas hw" "old_ic hw' = old_ic hw" for hw'
    unfolding tx_inv_def rest_inv_def queues_ok_def sched_ok_def that ..
  show "tx_inv (hw\<lparr>stopped := a\<rparr>) = tx_inv hw" "tx_inv (hw\<lparr>freed := b\<rparr>) = tx_inv hw" "tx_inv (hw\<lparr>mgmt_status := c\<rparr>) = tx_inv hw"
    "tx_inv (hw\<lparr>tx_host_id := d\<rparr>) = tx_inv hw" "tx_inv (hw\<lparr>txdesc_used_idx := e\<rparr>) = tx_inv hw" "tx_inv (hw\<lparr>tbusy := f\<rparr>) = tx_inv hw"
    by (rule c; simp)+
qed

lemma tx_inv_confirm_any: "tx_inv hw \<Longrightarrow> tx_inv (rwnx_txq_confirm_any t h hw)"
proof -
  assume i: "tx_inv hw"
  let ?hw1 = "upd_txq t (\<lambda>q. if pkt_pushed q \<noteq> 0 then q\<lparr>pkt_pushed := pkt_pushed q - 1\<rparr> else q) hw"
  have "sched_ok ?hw1" using i by (intro sched_upd) (simp_all add: tx_inv_def in_list_def)
  then have "sched_ok (rwnx_txq_confirm_any t h hw)" unfolding rwnx_txq_confirm_any_def by (rule sched_rotate) simp
  moreover have "queues_ok ?hw1"
    using i queues_at [of hw t] by (intro queues_upd) (auto simp: tx_inv_def q_ok_def active_ok_def in_list_def
        rwnx_txq_is_stopped_def sta_ps_def retry_ok_def)
  then have "queues_ok (rwnx_txq_confirm_any t h hw)" by (simp add: rwnx_txq_confirm_any_def queues_ok_def)
  ultimately show ?thesis using i calm_rest [OF calm_confirm] by (simp add: tx_inv_def)
qed

lemma sint_inc: "sint c < 127 \<Longrightarrow> sint (c + 1) = sint c + 1" for c :: u8
  using sint_ge [of c] by (simp add: sint_word_ariths signed_take_bit_int_eq_self_iff)

text \<open>A frame that the firmware may give back: it belongs to its queue and does not wait there.\<close>

definition returned :: "tx_buf \<Rightarrow> tx_hw \<Rightarrow> bool" where
  "returned b hw \<longleftrightarrow>
     (let t = tb_txq b; q = txqs hw ! t in
      t < length (txqs hw) \<and> tb_hwq b < length (hwqs hw) \<and>
      (idx q \<noteq> TXQ_INACTIVE \<longrightarrow> tb_sta b = q_sta q \<and> tb_id b \<notin> tb_id ` set (sk_list q)))"

lemma tx_inv_credit:
  assumes i: "tx_inv hw" and c: "sint (credits (txqs hw ! t)) < 127"
  shows "tx_inv (upd_txq t (\<lambda>q. q\<lparr>credits := credits q + 1\<rparr>) hw)"
proof -
  have "sched_ok (upd_txq t (\<lambda>q. q\<lparr>credits := credits q + 1\<rparr>) hw)"
    using i by (intro sched_upd) (simp_all add: tx_inv_def in_list_def)
  moreover have "queues_ok (upd_txq t (\<lambda>q. q\<lparr>credits := credits q + 1\<rparr>) hw)"
    using i queues_at [of hw t] sint_inc [OF c] by (intro queues_upd) (auto simp: tx_inv_def q_ok_def active_ok_def in_list_def
        rwnx_txq_is_stopped_def sta_ps_def retry_ok_def)
  ultimately show ?thesis using i calm_rest [OF calm_credits] by (simp add: tx_inv_def)
qed

lemma tx_inv_retry:
  assumes i: "tx_inv hw" and b: "returned b hw" and act: "idx (txqs hw ! tb_txq b) \<noteq> TXQ_INACTIVE"
    and c: "sint (credits (txqs hw ! tb_txq b)) < 127"
  shows "tx_inv (rwnx_tx_retry b sw hw)"
proof -
  define t where "t = tb_txq b"
  define hw1 where "hw1 = upd_txq t (\<lambda>q. q\<lparr>credits := credits q + 1\<rparr>) hw"
  define hw2 where "hw2 = (if 0 <s credits (txqs hw1 ! t) then rwnx_txq_start t RWNX_TXQ_STOP_FULL hw1 else hw1)"
  have t: "t < length (txqs hw)" using b by (simp add: returned_def Let_def t_def)
  have l: "length (txqs hw1) = length (txqs hw)" by (simp add: hw1_def)
  have "tx_inv hw1" unfolding hw1_def t_def by (rule tx_inv_credit [OF i c])
  then have i2: "tx_inv hw2" using tx_inv_start [OF _ reason_ps(2,3), of hw1 t] t by (simp add: hw2_def l)
  have sk: "length (txqs hw2) = length (txqs hw)" "sk_list (txqs hw2 ! t) = sk_list (txqs hw ! t)"
    "idx (txqs hw2 ! t) = idx (txqs hw ! t)" "q_sta (txqs hw2 ! t) = q_sta (txqs hw ! t)"
    using t l by (simp_all add: hw2_def start_txqs Let_def) (simp_all add: hw1_def)
  have "tx_inv (snd (rwnx_txq_queue_skb (b\<lparr>tb_flags := f\<rparr>) t True hw2))" for f
    by (rule tx_inv_queue [OF i2]) (use t act b in \<open>simp_all add: sk [unfolded t_def] returned_def Let_def t_def\<close>)
  moreover have "rwnx_tx_retry b sw hw = snd (rwnx_txq_queue_skb (b\<lparr>tb_flags :=
      (if sw then tb_flags b else tb_flags b OR TXU_CNTRL_RETRY) AND NOT TXU_CNTRL_MORE_DATA\<rparr>) t True hw2)"
    unfolding rwnx_tx_retry_def Let_def hw2_def hw1_def t_def by (cases sw) simp_all
  ultimately show ?thesis by simp
qed

lemma tx_inv_relist:
  assumes i: "tx_inv hw" and t: "t < length (txqs hw)" and "idx (txqs hw ! t) \<noteq> TXQ_INACTIVE" and "push_limit (txqs hw ! t) \<noteq> 0"
  shows "tx_inv (rwnx_txq_add_to_hw_list t hw)"
proof -
  have ok: "sched_ok hw" "queues_ok hw" "rest_inv hw" using i by (simp_all add: tx_inv_def)
  have q: "q_ok (length (hwqs hw)) t (txqs hw ! t)" by (rule queues_at [OF ok(2) t])
  then have "sk_list (txqs hw ! t) \<noteq> []" using assms(3,4) by (auto simp: q_ok_def active_ok_def uint_0_iff dest: order_antisym)
  then have "queues_ok (rwnx_txq_add_to_hw_list t hw)"
    using queues_set [OF ok(2) add_txqs] q_ok_listed [OF q] by simp
  moreover have "sched_ok (rwnx_txq_add_to_hw_list t hw)" using sched_add [OF ok(1) t] q by (simp add: q_ok_def)
  ultimately show ?thesis using calm_rest [OF calm_add ok(3)] by (simp add: tx_inv_def)
qed

lemma confirm_any_at: "u < length (txqs hw) \<Longrightarrow> idx (txqs (rwnx_txq_confirm_any t h hw) ! u) = idx (txqs hw ! u) \<and>
    q_sta (txqs (rwnx_txq_confirm_any t h hw) ! u) = q_sta (txqs hw ! u) \<and>
    sk_list (txqs (rwnx_txq_confirm_any t h hw) ! u) = sk_list (txqs hw ! u) \<and>
    credits (txqs (rwnx_txq_confirm_any t h hw) ! u) = credits (txqs hw ! u)"
  by (simp add: rwnx_txq_confirm_any_def upd_txq_nth)

lemma confirm_any_simps [simp]:
  "length (txqs (rwnx_txq_confirm_any t h hw)) = length (txqs hw)" "length (hwqs (rwnx_txq_confirm_any t h hw)) = length (hwqs hw)"
  "old_ic (rwnx_txq_confirm_any t h hw) = old_ic hw" "tx_stas (rwnx_txq_confirm_any t h hw) = tx_stas hw"
  "mgmt_status (rwnx_txq_confirm_any t h hw) = mgmt_status hw"
  by (simp_all add: rwnx_txq_confirm_any_def upd_txq_def upd_hwq_def)

lemma tx_inv_datacfm:
  assumes i: "tx_inv hw" and b: "returned b hw" and c: "sint (credits (txqs hw ! tb_txq b)) < 127"
  shows "tx_inv (snd (rwnx_txdatacfm usb_down b txst hw))"
proof -
  define t where "t = tb_txq b"
  define hw1 where "hw1 = rwnx_txq_confirm_any t (tb_hwq b) hw"
  define hw2 where "hw2 = (if tb_flags b AND TXU_CNTRL_MGMT \<noteq> 0
    then hw1\<lparr>mgmt_status := mgmt_status hw1 @ [(tb_id b, txst AND TX_ACKNOWLEDGED \<noteq> 0)]\<rparr> else hw1)"
  define hw3 where "hw3 = (if idx (txqs hw2 ! t) \<noteq> TXQ_INACTIVE \<and> push_limit (txqs hw2 ! t) \<noteq> 0 \<and> \<not> rwnx_txq_is_full (txqs hw2 ! t)
    then rwnx_txq_add_to_hw_list t hw2 else hw2)"
  have t: "t < length (txqs hw)" using b by (simp add: returned_def Let_def t_def)
  have s2: "length (txqs hw2) = length (txqs hw)" "length (hwqs hw2) = length (hwqs hw)"
    by (simp_all add: hw2_def hw1_def)
  have i2: "tx_inv hw2" using tx_inv_confirm_any [OF i] by (simp add: hw2_def hw1_def)
  have "txqs hw2 = txqs hw1" by (simp add: hw2_def)
  then have b2: "returned b hw2" "sint (credits (txqs hw2 ! t)) < 127"
    using b c confirm_any_at [OF t, of t "tb_hwq b"] by (auto simp: returned_def Let_def s2 hw1_def t_def)
  have r: "tx_inv (rwnx_tx_retry b sw hw2)" if "idx (txqs hw2 ! t) \<noteq> TXQ_INACTIVE" for sw
    using tx_inv_retry [OF i2 b2(1)] that b2(2) by (simp add: t_def)
  have l: "tx_inv hw3"
    using tx_inv_relist [OF i2, of t] t i2 by (simp add: hw3_def s2)
  have "rwnx_txdatacfm usb_down b txst hw =
     (if txst = 0 then (False, hw) else if usb_down then (True, hw\<lparr>freed := freed hw @ [b]\<rparr>)
      else if \<not> tb_flags b AND TXU_CNTRL_MGMT \<noteq> 0 \<and> idx (txqs hw2 ! t) \<noteq> TXQ_INACTIVE \<and>
        (txst AND TX_RETRY_REQUIRED \<noteq> 0 \<or> txst AND TX_SW_RETRY_REQUIRED \<noteq> 0)
      then (True, rwnx_tx_retry b (txst AND TX_SW_RETRY_REQUIRED \<noteq> 0) hw2) else (True, hw3\<lparr>freed := freed hw3 @ [b]\<rparr>))"
    unfolding rwnx_txdatacfm_def Let_def hw3_def hw2_def hw1_def t_def ..
  then show ?thesis using i r l by (simp split: if_split)
qed

lemma tx_inv_credit_update:
  assumes i: "tx_inv hw" and t: "rwnx_txq_sta_get s tid hw < length (txqs hw)"
  shows "tx_inv (rwnx_txq_credit_update s tid hw)"
  using i tx_inv_start [OF i reason_ps(2,3) t] tx_inv_stop [OF i reason_ps(2)] by (simp add: rwnx_txq_credit_update_def Let_def)

subsection \<open>Creation and removal\<close>

text \<open>A queue that is retired, or created for a station that is awake.\<close>

lemma rest_set:
  assumes r: "rest_inv hw" and qs: "txqs hw' = (txqs hw)[t := q]" and l: "q_lay (old_ic hw) t q"
    and o: "tx_stas hw' = tx_stas hw" "old_ic hw' = old_ic hw" "length (hwqs hw') = length (hwqs hw)"
    and aw: "idx q = TXQ_INACTIVE \<or> (\<forall>s. lay_sta (old_ic hw) t = Some s \<longrightarrow> \<not> ps_active (tx_stas hw ! s))"
  shows "rest_inv hw'"
proof (cases "t < length (txqs hw)")
  case True
  have len: "length (txqs hw) = NX_NB_TXQ" using r by (simp add: rest_inv_def)
  have lay: "q_lay (old_ic hw) u (txqs hw' ! u)" if "u < length (txqs hw)" for u
    using r l that True by (cases "u = t") (simp_all add: rest_inv_def qs)
  have ps: "sta_ps (txqs hw' ! u)" if "u < length (txqs hw)" "idx (txqs hw' ! u) \<noteq> TXQ_INACTIVE" "q_sta (txqs hw' ! u) = Some s"
      "ps_active (tx_stas hw ! s)" for u s
    using r l aw that True by (cases "u = t") (auto simp: rest_inv_def qs q_lay_def)
  have ac: "pkt_ready (tx_stas hw ! s) i = ready (old_ic hw) s i (txqs hw')"
    if s: "s < length (tx_stas hw)" "ps_active (tx_stas hw ! s)" "\<forall>u\<in>set (qs_of (old_ic hw) s). idx (txqs hw' ! u) \<noteq> TXQ_INACTIVE" "i < 2" for s i
  proof -
    have sb: "s < sta_bound (old_ic hw)" using r s by (simp add: rest_inv_def sta_known_def)
    have n: "t \<notin> set (qs_of (old_ic hw) s)" using aw s True qs_of_lay [OF sb, of t] by (auto simp: qs)
    have e: "u \<noteq> t \<Longrightarrow> txqs hw' ! u = txqs hw ! u" for u by (simp add: qs)
    have "ready (old_ic hw) s i (txqs hw') = ready (old_ic hw) s i (txqs hw)"
      by (rule ready_cong) (use n e in metis)
    moreover have "\<forall>u\<in>set (qs_of (old_ic hw) s). idx (txqs hw ! u) \<noteq> TXQ_INACTIVE" using s(3) n e by metis
    ultimately show ?thesis using r s by (simp add: rest_inv_def)
  qed
  show ?thesis
    unfolding rest_inv_def o using r lay ps ac by (simp add: qs) (simp add: rest_inv_def)
next
  case False
  then have "txqs hw' = txqs hw" by (simp add: qs list_update_beyond)
  then show ?thesis using r o by (simp add: rest_inv_def)
qed

lemma tx_inv_deinit: "tx_inv hw \<Longrightarrow> tx_inv (rwnx_txq_deinit t hw)"
proof -
  assume i: "tx_inv hw"
  have r: "rest_inv hw" using i by (simp add: tx_inv_def)
  have "rest_inv (rwnx_txq_deinit t hw)"
  proof (cases "idx (txqs hw ! t) = TXQ_INACTIVE")
    case True
    then show ?thesis using r by (simp add: rwnx_txq_deinit_def)
  next
    case False
    then show ?thesis
      by (intro rest_set [OF r deinit_txqs]) (simp_all add: Let_def q_lay_def)
  qed
  then show ?thesis using i sched_deinit queues_deinit by (simp add: tx_inv_def)
qed

lemma fold_deinit: "tx_inv hw \<Longrightarrow> tx_inv (fold rwnx_txq_deinit ts hw)"
  by (induction ts arbitrary: hw) (simp_all add: tx_inv_deinit)

text \<open>
  A queue may be set up, also again, when it is in no list of a hardware queue and its station is awake.
\<close>

definition idle_txq :: "nat \<Rightarrow> tx_hw \<Rightarrow> bool" where
  "idle_txq t hw \<longleftrightarrow> \<not> in_list (txqs hw ! t) \<and>
     (\<forall>s. lay_sta (old_ic hw) t = Some s \<longrightarrow> \<not> ps_active (tx_stas hw ! s))"

definition status_ok :: "u8 \<Rightarrow> bool" where
  "status_ok st \<longleftrightarrow> st AND RWNX_TXQ_IN_HWQ_LIST = 0"

lemma init_ndev:
  assumes "t < length (txqs hw)"
  shows "ndev_idx (txqs (rwnx_txq_init t st hq tid (lay_sta (old_ic hw) t) ndev hw) ! t) = lay_ndev (old_ic hw) t"
proof -
  have "nx_first_vif_txq_idx (old_ic hw) \<le> nx_first_unk_txq_idx (old_ic hw)" by (simp add: nx_first_unk_txq_idx_def)
  then show ?thesis
    using assms by (auto simp: rwnx_txq_init_def lay_ndev_def lay_sta_def Let_def minus_div_mult_eq_mod)
qed

lemma tx_inv_new:
  assumes i: "tx_inv hw" and f: "idle_txq t hw" and t: "t < NX_NB_TXQ" and st: "status_ok st" and hq: "hq < NX_TXQ_CNT"
    and sta: "sta = lay_sta (old_ic hw) t"
    and bc: "nx_first_vif_txq_idx (old_ic hw) \<le> t \<and> t < nx_first_unk_txq_idx (old_ic hw) \<longrightarrow> hq = RWNX_HWQ_BE \<and> p = LEGACY_PS_ID"
    and p: "p < 2"
  shows "tx_inv (upd_txq t (\<lambda>q. q\<lparr>ps_id := p\<rparr>) (rwnx_txq_init t st hq tid sta ndev hw))"
proof -
  let ?hw1 = "rwnx_txq_init t st hq tid sta ndev hw"
  let ?hw = "upd_txq t (\<lambda>q. q\<lparr>ps_id := p\<rparr>) ?hw1"
  have ok: "sched_ok hw" "queues_ok hw" "rest_inv hw" using i by (simp_all add: tx_inv_def)
  have l: "length (txqs hw) = NX_NB_TXQ" "length (hwqs hw) = NX_TXQ_CNT" using ok(3) by (simp_all add: rest_inv_def)
  have "sched_ok ?hw1" using sched_init [OF ok(1)] f st by (simp add: idle_txq_def status_ok_def)
  then have s: "sched_ok ?hw" by (rule sched_upd) (simp_all add: in_list_def)
  have "queues_ok ?hw1" using queues_init [OF ok(2)] hq st l by (simp add: status_ok_def)
  then have q: "queues_ok ?hw"
    using queues_at [of ?hw1 t] by (intro queues_upd) (auto simp: q_ok_def active_ok_def in_list_def rwnx_txq_is_stopped_def sta_ps_def retry_ok_def)
  have qs: "txqs ?hw = (txqs hw)[t := txqs ?hw ! t]"
    by (rule nth_equalityI) (auto simp: nth_list_update rwnx_txq_init_def upd_txq_nth)
  define q where "q = txqs ?hw ! t"
  have "ndev_idx q = lay_ndev (old_ic hw) t" "ps_id q = p" "q_sta q = sta" "q_hwq q = hq"
    using init_ndev [of t hw st hq tid ndev] t l sta by (simp_all add: q_def) (simp_all add: rwnx_txq_init_def)
  then have "q_lay (old_ic hw) t q"
    unfolding q_lay_def using sta bc p by simp
  then have "q_lay (old_ic hw) t (txqs ?hw ! t)" by (simp only: q_def)
  then have "rest_inv ?hw"
    using f by (intro rest_set [OF ok(3) qs]) (simp_all add: idle_txq_def)
  then show ?thesis using s q by (simp add: tx_inv_def)
qed

lemma tx_inv_init:
  assumes i: "tx_inv hw" and f: "idle_txq t hw" and t: "t < NX_NB_TXQ" and st: "status_ok st" and hq: "hq < NX_TXQ_CNT"
    and sta: "sta = lay_sta (old_ic hw) t"
    and bc: "nx_first_vif_txq_idx (old_ic hw) \<le> t \<and> t < nx_first_unk_txq_idx (old_ic hw) \<longrightarrow> hq = RWNX_HWQ_BE"
  shows "tx_inv (rwnx_txq_init t st hq tid sta ndev hw)"
proof -
  have "upd_txq t (\<lambda>q. q\<lparr>ps_id := LEGACY_PS_ID\<rparr>) (rwnx_txq_init t st hq tid sta ndev hw) = rwnx_txq_init t st hq tid sta ndev hw"
  proof -
    have "(txqs (rwnx_txq_init t st hq tid sta ndev hw) ! t)\<lparr>ps_id := LEGACY_PS_ID\<rparr> = txqs (rwnx_txq_init t st hq tid sta ndev hw) ! t"
      if "t < length (txqs hw)" using that by (simp add: rwnx_txq_init_def)
    then show ?thesis by (cases "t < length (txqs hw)") (simp_all add: upd_txq_def list_update_beyond)
  qed
  then show ?thesis
    using tx_inv_new [OF i f t st hq sta, of LEGACY_PS_ID tid ndev] bc by (simp add: LEGACY_PS_ID_def)
qed

text \<open>The queues of a station.\<close>

lemma tid2hwq: "i < NX_NB_TXQ_PER_STA \<Longrightarrow> rwnx_tid2hwq ! i < NX_TXQ_CNT"
proof -
  assume "i < NX_NB_TXQ_PER_STA"
  then have "i \<in> {0, 1, 2, 3, 4, 5, 6, 7, 8}" by (auto simp: layout_defs)
  then show ?thesis by (auto simp: rwnx_tid2hwq_def hwq_defs NX_TXQ_CNT_def)
qed

lemma unicast_layout:
  assumes "s < nx_remote_sta_max old" and "i < NX_NB_TXQ_PER_STA"
  shows "s * NX_NB_TXQ_PER_STA + i < NX_NB_TXQ" "lay_sta old (s * NX_NB_TXQ_PER_STA + i) = Some s"
    "s * NX_NB_TXQ_PER_STA + i < nx_first_vif_txq_idx old"
  using assms by (cases old; auto simp: layout_defs lay_sta_def)+

lemma sta_txq_init_simps [simp]:
  "old_ic (sta_txq_init s st i hw) = old_ic hw" "tx_stas (sta_txq_init s st i hw) = tx_stas hw"
  "length (txqs (sta_txq_init s st i hw)) = length (txqs hw)"
  by (simp_all add: sta_txq_init_def Let_def)

lemma sta_txq_init_other:
  "\<not> is_multicast_sta (old_ic hw) s \<Longrightarrow> u \<noteq> s * NX_NB_TXQ_PER_STA + i \<Longrightarrow> txqs (sta_txq_init s st i hw) ! u = txqs hw ! u"
  by (simp add: sta_txq_init_def Let_def rwnx_txq_sta_get_def rwnx_txq_sta_idx_def rwnx_txq_init_def upd_txq_def NX_NB_TXQ_PER_STA_def)

lemma tx_inv_sta_init_fold:
  assumes "tx_inv hw" and "s < nx_remote_sta_max (old_ic hw)" and "status_ok st"
    and "\<forall>i\<in>set is. i < NX_NB_TXQ_PER_STA \<and> idle_txq (s * NX_NB_TXQ_PER_STA + i) hw" and "distinct is"
  shows "tx_inv (fold (sta_txq_init s st) is hw)"
  using assms
proof (induction "is" arbitrary: hw)
  case (Cons i "is")
  have u: "\<not> is_multicast_sta (old_ic hw) s" using Cons.prems(2) by (simp add: is_multicast_sta_def)
  have g: "rwnx_txq_sta_get s 0 hw = s * NX_NB_TXQ_PER_STA"
    using u by (simp add: rwnx_txq_sta_get_def rwnx_txq_sta_idx_def NX_NB_TXQ_PER_STA_def)
  have i: "i < NX_NB_TXQ_PER_STA" using Cons.prems(4) by simp
  note l = unicast_layout [OF Cons.prems(2) i]
  have "tx_inv (sta_txq_init s st i hw)"
    unfolding sta_txq_init_def Let_def g
    by (rule tx_inv_new) (use Cons.prems l tid2hwq [OF i] in \<open>simp_all add: LEGACY_PS_ID_def UAPSD_ID_def\<close>)
  moreover have "idle_txq (s * NX_NB_TXQ_PER_STA + j) (sta_txq_init s st i hw)" if "j \<in> set is" for j
  proof -
    have "j \<noteq> i" using Cons.prems(5) that by auto
    then show ?thesis
      using Cons.prems(4) that sta_txq_init_other [OF u, of "s * NX_NB_TXQ_PER_STA + j" i st] by (simp add: idle_txq_def)
  qed
  ultimately show ?case using Cons.IH [of "sta_txq_init s st i hw"] Cons.prems by simp
qed simp

lemma tx_inv_sta_init:
  assumes "tx_inv hw" and s: "s < nx_remote_sta_max (old_ic hw)" and "status_ok st"
    and "\<forall>t\<in>set (qs_of (old_ic hw) s). idle_txq t hw"
  shows "tx_inv (rwnx_txq_sta_init s st hw)"
  using tx_inv_sta_init_fold [OF assms(1-3), of "[0..<NX_NB_TXQ_PER_STA]"] assms(4) s
  by (auto simp: rwnx_txq_sta_init_def is_multicast_sta_def qs_of_def)

lemma sta_init_simps [simp]:
  "old_ic (rwnx_txq_sta_init s st hw) = old_ic hw" "tx_stas (rwnx_txq_sta_init s st hw) = tx_stas hw"
proof -
  have "old_ic (fold (sta_txq_init s st) is hw) = old_ic hw \<and> tx_stas (fold (sta_txq_init s st) is hw) = tx_stas hw" for "is"
    by (induction "is" arbitrary: hw) simp_all
  then show "old_ic (rwnx_txq_sta_init s st hw) = old_ic hw" "tx_stas (rwnx_txq_sta_init s st hw) = tx_stas hw"
    by (simp_all add: rwnx_txq_sta_init_def)
qed

lemma sta_txq_init_idx:
  assumes "\<not> is_multicast_sta (old_ic hw) s" and "s * NX_NB_TXQ_PER_STA + i < length (txqs hw)"
  shows "idx (txqs (sta_txq_init s st i hw) ! (s * NX_NB_TXQ_PER_STA + i)) = s * NX_NB_TXQ_PER_STA + i"
  using assms by (simp add: sta_txq_init_def Let_def rwnx_txq_sta_get_def rwnx_txq_sta_idx_def rwnx_txq_init_def NX_NB_TXQ_PER_STA_def)

lemma sta_init_active:
  assumes "length (txqs hw) = NX_NB_TXQ" and s: "s < nx_remote_sta_max (old_ic hw)" and t: "t \<in> set (qs_of (old_ic hw) s)"
  shows "idx (txqs (rwnx_txq_sta_init s st hw) ! t) = t"
proof -
  have u: "\<not> is_multicast_sta (old_ic hw) s" using s by (simp add: is_multicast_sta_def)
  have "s * NX_NB_TXQ_PER_STA \<le> t" "t - s * NX_NB_TXQ_PER_STA < NX_NB_TXQ_PER_STA" using t u by (auto simp: qs_of_def)
  then have "t = s * NX_NB_TXQ_PER_STA + (t - s * NX_NB_TXQ_PER_STA)" by simp
  then obtain i where i: "t = s * NX_NB_TXQ_PER_STA + i" "i < NX_NB_TXQ_PER_STA"
    using \<open>t - s * NX_NB_TXQ_PER_STA < NX_NB_TXQ_PER_STA\<close> by blast
  have "idx (txqs (fold (sta_txq_init s st) is hw') ! t) = t"
    if "i \<in> set is \<or> idx (txqs hw' ! t) = t" "length (txqs hw') = NX_NB_TXQ" "old_ic hw' = old_ic hw" for "is" hw'
    using that
  proof (induction "is" arbitrary: hw')
    case (Cons j js)
    show ?case
    proof (cases "j = i")
      case True
      then have "idx (txqs (sta_txq_init s st j hw') ! t) = t"
        using sta_txq_init_idx [of hw' s i st] u Cons.prems unicast_layout(1) [OF s i(2)] i(1) by simp
      then show ?thesis using Cons by simp
    next
      case False
      then have "txqs (sta_txq_init s st j hw') ! t = txqs hw' ! t"
        using sta_txq_init_other [of hw' s t j st] u Cons.prems i(1) by simp
      then show ?thesis using Cons False by auto
    qed
  qed simp
  then show ?thesis using i(2) u assms(1) by (simp add: rwnx_txq_sta_init_def)
qed

lemma index_active: "t < NX_NB_TXQ \<Longrightarrow> t \<noteq> TXQ_INACTIVE"
  by (simp add: layout_defs)

text \<open>A station that is added while it already sleeps.\<close>

definition sta_added :: "(tx_sta \<Rightarrow> tx_sta) \<Rightarrow> nat \<Rightarrow> u8 \<Rightarrow> bool \<Rightarrow> tx_hw \<Rightarrow> tx_hw" where
  "sta_added f s st pm hw =
     (let hw1 = rwnx_txq_sta_init s st (upd_sta s f hw)
      in fst (rwnx_ps_bh_enable s (ps_active (tx_stas hw1 ! s) \<or> pm) hw1))"

lemma upd_sta_comm: "(\<And>st. f (g st) = h st) \<Longrightarrow> upd_sta s f (upd_sta s g hw) = upd_sta s h hw"
  by (cases "s < length (tx_stas hw)") (simp_all add: upd_sta_def list_update_beyond)

lemma ps_on_forget: "ps_on s (upd_sta s (\<lambda>st. st\<lparr>ps_active := False\<rparr>) hw) = ps_on s hw"
  unfolding ps_on_def by (subst upd_sta_comm [where h = "\<lambda>st. st\<lparr>ps_active := True\<rparr>"]) simp_all

lemma upd_txq_sta: "upd_txq t f (upd_sta s g hw) = upd_sta s g (upd_txq t f hw)"
  by (simp add: upd_txq_def upd_sta_def)

lemma sta_init_forget:
  "rwnx_txq_sta_init s st (upd_sta s (\<lambda>st. st\<lparr>ps_active := v\<rparr>) hw) = upd_sta s (\<lambda>st. st\<lparr>ps_active := v\<rparr>) (rwnx_txq_sta_init s st hw)"
proof -
  let ?P = "upd_sta s (\<lambda>st. st\<lparr>ps_active := v\<rparr>)"
  have a: "uapsd_tids (tx_stas (?P hw) ! s) = uapsd_tids (tx_stas hw ! s)" "sta_vif (tx_stas (?P hw) ! s) = sta_vif (tx_stas hw ! s)" for hw
    by (cases "s < length (tx_stas hw)"; simp add: upd_sta_def list_update_beyond)+
  have "sta_txq_init s st i (?P hw) = ?P (sta_txq_init s st i hw)" for i hw
    by (simp add: sta_txq_init_def Let_def a rwnx_txq_sta_get_def rwnx_txq_sta_idx_def rwnx_txq_init_def upd_txq_sta)
  then have "fold (sta_txq_init s st) is (?P hw) = ?P (fold (sta_txq_init s st) is hw)" for "is" hw
    by (induction "is" arbitrary: hw) simp_all
  then show ?thesis by (simp add: rwnx_txq_sta_init_def)
qed

lemma tx_inv_sta_added:
  assumes i: "tx_inv hw" and s: "s < nx_remote_sta_max (old_ic hw)" and st: "status_ok st"
    and q: "\<forall>t\<in>set (qs_of (old_ic hw) s). \<not> in_list (txqs hw ! t)"
  shows "tx_inv (sta_added f s st pm hw)"
proof -
  let ?off = "\<lambda>st. st\<lparr>ps_active := False\<rparr>"
  let ?hw0 = "upd_sta s (\<lambda>st. ?off (f st)) hw"
  let ?hw1 = "rwnx_txq_sta_init s st ?hw0"
  have l: "length (txqs hw) = NX_NB_TXQ" using i by (simp add: tx_inv_def rest_inv_def)
  have b: "s < sta_bound (old_ic hw)" "s < length (tx_stas hw)"
    using s tx_inv_stas [OF i] by (cases "old_ic hw"; simp add: sta_bound_def layout_defs)+
  have aw: "\<not> ps_active (tx_stas ?hw0 ! s)" using b by (simp add: upd_sta_nth)
  have i0: "tx_inv ?hw0" by (rule tx_inv_sta [OF i]) simp
  have "\<forall>t\<in>set (qs_of (old_ic ?hw0) s). idle_txq t ?hw0"
    using q aw qs_of_lay [OF b(1)] by (auto simp: idle_txq_def)
  then have i1: "tx_inv ?hw1" using tx_inv_sta_init [OF i0 _ st] s by simp
  have k: "sta_known (old_ic ?hw1) s (tx_stas ?hw1 ! s)" using s b by (simp add: sta_known_def is_multicast_sta_def)
  have act: "\<forall>t\<in>set (qs_of (old_ic ?hw1) s). idx (txqs ?hw1 ! t) \<noteq> TXQ_INACTIVE"
    using sta_init_active [of ?hw0 s _ st] l s qs_of_length [OF b(1)] index_active by simp
  have e: "?hw1 = upd_sta s ?off (rwnx_txq_sta_init s st (upd_sta s f hw))"
    unfolding sta_init_forget [symmetric] by (simp add: upd_sta_comm)
  show ?thesis
  proof (cases "ps_active (tx_stas (upd_sta s f hw) ! s) \<or> pm")
    case True
    then have "sta_added f s st pm hw = ps_on s ?hw1"
      unfolding e ps_on_forget by (simp add: sta_added_def Let_def rwnx_ps_bh_enable_def)
    then show ?thesis using tx_inv_ps_on [OF i1 k act] by simp
  next
    case False
    then have "?off (f (tx_stas hw ! s)) = f (tx_stas hw ! s)" using b by (simp add: upd_sta_nth)
    then have "?hw0 = upd_sta s f hw" by (simp add: upd_sta_def)
    then show ?thesis using False tx_inv_ps_off [OF i1 k act] by (simp add: sta_added_def Let_def rwnx_ps_bh_enable_def)
  qed
qed

text \<open>A station that is not yet known goes to sleep.\<close>

lemma tx_inv_adding:
  assumes i: "tx_inv hw" and k: "sta_known (old_ic hw) s (tx_stas hw ! s)"
    and q: "\<forall>t\<in>set (qs_of (old_ic hw) s). idx (txqs hw ! t) = TXQ_INACTIVE"
  shows "tx_inv (upd_sta s (\<lambda>st. st\<lparr>ps_active := v\<rparr>) hw)"
proof -
  let ?hw = "upd_sta s (\<lambda>st. st\<lparr>ps_active := v\<rparr>) hw"
  have r: "rest_inv hw" using i by (simp add: tx_inv_def)
  have s: "s < length (tx_stas hw)" "s < sta_bound (old_ic hw)" using known_bound [OF i k] k by (simp_all add: sta_known_def)
  have st: "tx_stas ?hw ! u = (if u = s then (tx_stas hw ! u)\<lparr>ps_active := v\<rparr> else tx_stas hw ! u)"
    if "u < length (tx_stas hw)" for u using that by (simp add: upd_sta_nth)
  have ps: "sta_ps (txqs hw ! t)" if t: "t < length (txqs hw)" "idx (txqs hw ! t) \<noteq> TXQ_INACTIVE" "q_sta (txqs hw ! t) = Some u"
      "ps_active (tx_stas ?hw ! u)" for t u
  proof -
    note a = active_sta [OF r t(1,2)]
    have "u \<noteq> s" using qs_of_lay [OF s(2), of t] a(1) t(2,3) q by auto
    then show ?thesis using r t st [of u] a(3) by (simp add: rest_inv_def)
  qed
  have ne: "qs_of (old_ic hw) s \<noteq> []" by (simp add: qs_of_def NX_NB_TXQ_PER_STA_def NX_NB_TID_PER_STA_def)
  have ac: "\<forall>j<2. pkt_ready (tx_stas ?hw ! u) j = ready (old_ic hw) u j (txqs hw)"
    if u: "u < length (tx_stas hw)" "ps_active (tx_stas ?hw ! u)" "\<forall>t\<in>set (qs_of (old_ic hw) u). idx (txqs hw ! t) \<noteq> TXQ_INACTIVE" for u
  proof -
    have "u \<noteq> s" using u(3) q ne by (cases "qs_of (old_ic hw) s") auto
    then show ?thesis using r u st [of u] by (simp add: rest_inv_def)
  qed
  have kn: "sta_known (old_ic hw) u (tx_stas ?hw ! u)" if "u < length (tx_stas hw)" "ps_active (tx_stas ?hw ! u)" for u
    using r k that st [of u] by (cases "u = s") (auto simp: rest_inv_def sta_known_def)
  have "rest_inv ?hw"
    unfolding rest_inv_def using r ps ac kn by (simp add: rest_inv_def)
  then show ?thesis using i sched_sta [of hw ?hw] queues_sta [of hw ?hw] by (simp add: tx_inv_def)
qed

section \<open>The transition relation\<close>

text \<open>
  The state when the driver is loaded: the memory is cleared, the queues are marked inactive and the
  hardware queues are set up (\<open>rwnx_cfg80211_init\<close>).
\<close>

definition txq_boot :: rwnx_txq where
  "txq_boot =
     \<lparr>idx = TXQ_INACTIVE, status = 0, credits = 0, pkt_sent = 0, pkt_pushed = 0, sk_list = [], last_retry_skb = None,
      q_hwq = 0, nb_retry = 0, push_limit = 0, q_tid = 0, q_sta = None, ps_id = 0, ndev_idx = 0, q_ndev = 0\<rparr>"

definition sta_boot :: tx_sta where
  "sta_boot =
     \<lparr>sta_vif = 0, sta_mac = replicate 6 0, uapsd_tids = 0, sta_qos = False, acm = 0, tdls_active = False, chsw_en = False,
      last_tid = 0, ps_active = False, pkt_ready = (\<lambda>_. 0), sp_cnt = (\<lambda>_. 0)\<rparr>"

definition tx_boot :: "bool \<Rightarrow> tx_hw" where
  "tx_boot old =
     aicwf_usb_host_init (rwnx_hwq_init
       \<lparr>old_ic = old, txqs = replicate NX_NB_TXQ txq_boot,
        hwqs = replicate NX_TXQ_CNT \<lparr>hlist = [], hsize = 0, need_processing = False\<rparr>,
        tx_stas = replicate (NX_REMOTE_STA_MAX + NX_VIRT_DEVS) sta_boot, tbusy = False, stopped = {}, bus = [], freed = [],
        traffic = [], tx_host_id = [], txdesc_free_idx = 0, txdesc_used_idx = 0, mgmt_status = []\<rparr>)"

text \<open>
  The steps, one call each: the calls take effect one after the other, as under \<open>tx_lock\<close>.  (The handler of
  the confirmations on USB does not take that lock: its interleavings with the other calls are not
  modelled.)  The guards are what the callers see to: power save is switched for stations that have been
  added, the index of the group address station of an interface is the one \<open>rwnx_get_tx_priv\<close> computes, a
  frame is in one queue at a time.  \<open>f\<close> in the steps for stations is the new content of the entry, \<open>sta_attr\<close>
  stands for the changes of the rest of the driver.

  Three things happen in the driver that break the books of the queues, and they are steps of \<open>tx_step
  False\<close> only: a queue gets so many retries that its credits, a signed byte, pass 127
  (\<open>rwnx_tx_retry\<close> gives back a credit that was never taken); a queue is set up again while it is in the
  list of its hardware queue (the queue for unknown stations when the station associates); and the queues of
  a station are set up while the station is flagged asleep (a TDLS peer that sleeps before it is added).
  \<open>tx_step True\<close> excludes them: the runs of the theorems are those where none of the three happens.
\<close>

inductive tx_step :: "bool \<Rightarrow> tx_hw \<Rightarrow> tx_hw \<Rightarrow> bool" for orderly where
  start: "t < length (txqs hw) \<Longrightarrow> stop_reason r \<Longrightarrow> r AND RWNX_TXQ_STOP_STA_PS = 0 \<Longrightarrow> tx_step orderly hw (rwnx_txq_start t r hw)"
| stop: "stop_reason r \<Longrightarrow> tx_step orderly hw (rwnx_txq_stop t r hw)"
| queue: "t < length (txqs hw) \<Longrightarrow> idx (txqs hw ! t) \<noteq> TXQ_INACTIVE \<Longrightarrow> tb_txq b = t \<Longrightarrow> tb_sta b = q_sta (txqs hw ! t) \<Longrightarrow>
    tb_id b \<notin> tb_id ` set (sk_list (txqs hw ! t)) \<Longrightarrow> tx_step orderly hw (snd (rwnx_txq_queue_skb b t False hw))"
| process: "rwnx_hwq_process h hw = Inr hw' \<Longrightarrow> tx_step orderly hw hw'"
| process_all: "rwnx_hwq_process_all hw = Inr hw' \<Longrightarrow> tx_step orderly hw hw'"
| confirm: "returned b hw \<Longrightarrow> (orderly \<Longrightarrow> sint (credits (txqs hw ! tb_txq b)) < 127) \<Longrightarrow> tx_step orderly hw (snd (rwnx_txdatacfm down b st hw))"
| credit: "rwnx_txq_sta_get s tid hw < length (txqs hw) \<Longrightarrow> tx_step orderly hw (rwnx_txq_credit_update s tid hw)"
| ps: "sta_known (old_ic hw) s (tx_stas hw ! s) \<Longrightarrow> \<forall>t\<in>set (qs_of (old_ic hw) s). idx (txqs hw ! t) \<noteq> TXQ_INACTIVE \<Longrightarrow>
    tx_step orderly hw (fst (rwnx_ps_bh_enable s on hw))"
| traffic_req: "s < length (tx_stas hw) \<Longrightarrow> i < 2 \<Longrightarrow> tx_step orderly hw (fst (rwnx_ps_bh_traffic_req s req i hw))"
| sta_adding: "sta_known (old_ic hw) s (tx_stas hw ! s) \<Longrightarrow> \<forall>t\<in>set (qs_of (old_ic hw) s). idx (txqs hw ! t) = TXQ_INACTIVE \<Longrightarrow>
    tx_step orderly hw (upd_sta s (\<lambda>st. st\<lparr>ps_active := on\<rparr>) hw)"
| sta_added: "s < nx_remote_sta_max (old_ic hw) \<Longrightarrow> status_ok st \<Longrightarrow>
    (orderly \<Longrightarrow> \<forall>t\<in>set (qs_of (old_ic hw) s). \<not> in_list (txqs hw ! t)) \<Longrightarrow>
    tx_step orderly hw (sta_added f s st pm hw)"
| sta_init: "s < nx_remote_sta_max (old_ic hw) \<Longrightarrow> status_ok st \<Longrightarrow>
    (orderly \<Longrightarrow> \<forall>t\<in>set (qs_of (old_ic hw) s). idle_txq t hw) \<Longrightarrow>
    tx_step orderly hw (rwnx_txq_sta_init s st hw)"
| sta_attr: "\<not> ps_active (f (tx_stas hw ! s)) \<Longrightarrow> tx_step orderly hw (upd_sta s f hw)"
| sta_note: "(\<And>st. s_stat (f st) = s_stat st) \<Longrightarrow> tx_step orderly hw (upd_sta s f hw)"
| sta_deinit: "tx_step orderly hw (rwnx_txq_sta_deinit s hw)"
| vif_init: "v < NX_VIRT_DEVS \<Longrightarrow> status_ok st \<Longrightarrow> s = nx_remote_sta_max (old_ic hw) + v \<Longrightarrow>
    (orderly \<Longrightarrow> idle_txq (rwnx_txq_vif_get v NX_BCMC_TXQ_TYPE hw) hw \<and> idle_txq (rwnx_txq_vif_get v NX_UNK_TXQ_TYPE hw) hw) \<Longrightarrow>
    tx_step orderly hw (rwnx_txq_vif_init v s st hw)"
| vif_deinit: "tx_step orderly hw (rwnx_txq_vif_deinit v hw)"
| unk_init: "v < NX_VIRT_DEVS \<Longrightarrow> status_ok st \<Longrightarrow> (orderly \<Longrightarrow> idle_txq (rwnx_txq_vif_get v NX_UNK_TXQ_TYPE hw) hw) \<Longrightarrow>
    tx_step orderly hw (rwnx_txq_unk_vif_init v st hw)"
| unk_deinit: "tx_step orderly hw (rwnx_txq_unk_vif_deinit v hw)"
| offchan_init: "(orderly \<Longrightarrow> idle_txq (nx_off_chan_txq_idx (old_ic hw)) hw) \<Longrightarrow> tx_step orderly hw (rwnx_txq_offchan_init v hw)"
| offchan_deinit: "tx_step orderly hw (rwnx_txq_offchan_deinit hw)"
| switch_vif: "tx_step orderly hw (rwnx_txq_sta_switch_vif s v hw)"
| bus_busy: "tx_step orderly hw (hw\<lparr>tbusy := on\<rparr>)"

inductive tx_reachable :: "bool \<Rightarrow> tx_hw \<Rightarrow> bool" for orderly where
  boot: "tx_reachable orderly (tx_boot old)"
| step: "tx_reachable orderly hw \<Longrightarrow> tx_step orderly hw hw' \<Longrightarrow> tx_reachable orderly hw'"

lemma tx_inv_vif_init:
  assumes i: "tx_inv hw" and v: "v < NX_VIRT_DEVS" and st: "status_ok st"
    and s: "s = nx_remote_sta_max (old_ic hw) + v"
    and f: "idle_txq (rwnx_txq_vif_get v NX_BCMC_TXQ_TYPE hw) hw" "idle_txq (rwnx_txq_vif_get v NX_UNK_TXQ_TYPE hw) hw"
  shows "tx_inv (rwnx_txq_vif_init v s st hw)"
proof -
  let ?b = "rwnx_txq_vif_idx (old_ic hw) v NX_BCMC_TXQ_TYPE" and ?u = "rwnx_txq_vif_idx (old_ic hw) v NX_UNK_TXQ_TYPE"
  let ?hw1 = "rwnx_txq_init ?b st RWNX_HWQ_BE 0 (Some s) v hw"
  have g: "rwnx_txq_vif_get v NX_BCMC_TXQ_TYPE hw = ?b" "rwnx_txq_vif_get v NX_UNK_TXQ_TYPE hw = ?u"
    by (simp_all add: rwnx_txq_vif_get_def NX_BCMC_TXQ_TYPE_def NX_UNK_TXQ_TYPE_def)
  have l: "?b < NX_NB_TXQ" "?u < NX_NB_TXQ" "Some s = lay_sta (old_ic hw) ?b" "None = lay_sta (old_ic hw) ?u" "?b \<noteq> ?u"
    "\<not> (nx_first_vif_txq_idx (old_ic hw) \<le> ?u \<and> ?u < nx_first_unk_txq_idx (old_ic hw))"
    using v s by (cases "old_ic hw"; simp add: rwnx_txq_vif_idx_def lay_sta_def layout_defs)+
  have i1: "tx_inv ?hw1"
    by (rule tx_inv_init [OF i]) (use f st l g in \<open>simp_all add: RWNX_HWQ_BE_def NX_TXQ_CNT_def\<close>)
  have "idle_txq ?u ?hw1"
    using f(2) l(5) by (simp add: idle_txq_def g rwnx_txq_init_def upd_txq_def)
  then have "tx_inv (rwnx_txq_init ?u st RWNX_HWQ_VO TID_MGT None v ?hw1)"
    using l st by (intro tx_inv_init [OF i1]) (auto simp: RWNX_HWQ_VO_def NX_TXQ_CNT_def)
  then show ?thesis by (simp add: rwnx_txq_vif_init_def rwnx_txq_unk_vif_init_def)
qed

lemma tx_inv_unk_init:
  assumes i: "tx_inv hw" and v: "v < NX_VIRT_DEVS" and st: "status_ok st"
    and f: "idle_txq (rwnx_txq_vif_get v NX_UNK_TXQ_TYPE hw) hw"
  shows "tx_inv (rwnx_txq_unk_vif_init v st hw)"
proof -
  let ?u = "rwnx_txq_vif_idx (old_ic hw) v NX_UNK_TXQ_TYPE"
  have g: "rwnx_txq_vif_get v NX_UNK_TXQ_TYPE hw = ?u"
    by (simp add: rwnx_txq_vif_get_def NX_UNK_TXQ_TYPE_def)
  have l: "?u < NX_NB_TXQ" "None = lay_sta (old_ic hw) ?u"
    "\<not> (nx_first_vif_txq_idx (old_ic hw) \<le> ?u \<and> ?u < nx_first_unk_txq_idx (old_ic hw))"
    using v by (cases "old_ic hw"; simp add: rwnx_txq_vif_idx_def lay_sta_def layout_defs)+
  show ?thesis
    unfolding rwnx_txq_unk_vif_init_def
    by (rule tx_inv_init [OF i]) (use f st l g in \<open>auto simp: RWNX_HWQ_VO_def NX_TXQ_CNT_def\<close>)
qed

lemma tx_inv_offchan_init:
  assumes i: "tx_inv hw" and f: "idle_txq (nx_off_chan_txq_idx (old_ic hw)) hw"
  shows "tx_inv (rwnx_txq_offchan_init v hw)"
proof -
  let ?t = "nx_off_chan_txq_idx (old_ic hw)"
  have l: "?t < NX_NB_TXQ" "None = lay_sta (old_ic hw) ?t"
    "\<not> (nx_first_vif_txq_idx (old_ic hw) \<le> ?t \<and> ?t < nx_first_unk_txq_idx (old_ic hw))"
    by (cases "old_ic hw"; simp add: lay_sta_def layout_defs)+
  have "status_ok RWNX_TXQ_STOP_CHAN" by (simp add: status_ok_def status_defs)
  then show ?thesis
    unfolding rwnx_txq_offchan_init_def
    by (intro tx_inv_init [OF i]) (use f l in \<open>auto simp: RWNX_HWQ_VO_def NX_TXQ_CNT_def\<close>)
qed

lemma tx_inv_switch: "tx_inv hw \<Longrightarrow> tx_inv (rwnx_txq_sta_switch_vif s v hw)"
proof -
  have "tx_inv (upd_txq t (\<lambda>q. q\<lparr>q_ndev := v\<rparr>) hw)" if i: "tx_inv hw" for t hw
  proof -
    have "sched_ok (upd_txq t (\<lambda>q. q\<lparr>q_ndev := v\<rparr>) hw)"
      using i by (intro sched_upd) (simp_all add: tx_inv_def in_list_def)
    moreover have "queues_ok (upd_txq t (\<lambda>q. q\<lparr>q_ndev := v\<rparr>) hw)"
      using i queues_at [of hw t] by (intro queues_upd) (auto simp: tx_inv_def q_ok_def active_ok_def in_list_def
          rwnx_txq_is_stopped_def sta_ps_def retry_ok_def)
    moreover have "calm hw (upd_txq t (\<lambda>q. q\<lparr>q_ndev := v\<rparr>) hw)"
      by (rule calm_upd_txq) (simp_all add: q_stat_def sta_ps_def)
    ultimately show ?thesis using i calm_rest by (simp add: tx_inv_def)
  qed
  then have "tx_inv hw \<Longrightarrow> tx_inv (fold (\<lambda>i hw. let t = rwnx_txq_sta_get s 0 hw + i in
              (upd_txq t (\<lambda>q. q\<lparr>q_ndev := v\<rparr>) hw)\<lparr>stopped := stopped hw - {(v, ndev_idx (txqs hw ! t))}\<rparr>) is hw)" for "is" hw
    by (induction "is" arbitrary: hw) (simp_all add: Let_def)
  then show "tx_inv hw \<Longrightarrow> tx_inv (rwnx_txq_sta_switch_vif s v hw)" by (simp add: rwnx_txq_sta_switch_vif_def)
qed

lemma tx_inv_boot: "tx_inv (tx_boot old)"
proof -
  let ?hw = "tx_boot old"
  have q: "length (txqs ?hw) = NX_NB_TXQ" "txqs ?hw = replicate NX_NB_TXQ txq_boot"
    "length (hwqs ?hw) = NX_TXQ_CNT" "\<forall>h<NX_TXQ_CNT. hlist (hwqs ?hw ! h) = []"
    "tx_stas ?hw = replicate (NX_REMOTE_STA_MAX + NX_VIRT_DEVS) sta_boot" "old_ic ?hw = old"
    by (simp_all add: tx_boot_def rwnx_hwq_init_def aicwf_usb_host_init_def)
  have "sched_ok ?hw" using q(3,4) by (simp add: sched_ok_def q(2) txq_boot_def in_list_def)
  moreover have "queues_ok ?hw" using q(3) by (simp add: queues_ok_def q(2) q_ok_def txq_boot_def NX_TXQ_CNT_def)
  moreover have "rest_inv ?hw" using q(3) by (simp add: rest_inv_def q(2,5) q_lay_def txq_boot_def sta_boot_def)
  ultimately show ?thesis by (simp add: tx_inv_def)
qed

lemma tx_inv_ps: "tx_inv hw \<Longrightarrow> sta_known (old_ic hw) s (tx_stas hw ! s) \<Longrightarrow>
    \<forall>t\<in>set (qs_of (old_ic hw) s). idx (txqs hw ! t) \<noteq> TXQ_INACTIVE \<Longrightarrow> tx_inv (fst (rwnx_ps_bh_enable s on hw))"
  using tx_inv_ps_on tx_inv_ps_off by (simp add: rwnx_ps_bh_enable_def)

lemma tx_inv_note: "tx_inv hw \<Longrightarrow> (\<And>st. s_stat (f st) = s_stat st) \<Longrightarrow> tx_inv (upd_sta s f hw)"
  using calm_rest [OF calm_upd_sta] sched_sta [of hw "upd_sta s f hw"] queues_sta [of hw "upd_sta s f hw"]
  by (simp add: tx_inv_def)

lemma tx_inv_removed: "tx_inv hw \<Longrightarrow> tx_inv (rwnx_txq_sta_deinit s hw)" "tx_inv hw \<Longrightarrow> tx_inv (rwnx_txq_vif_deinit v hw)"
    "tx_inv hw \<Longrightarrow> tx_inv (rwnx_txq_unk_vif_deinit v hw)" "tx_inv hw \<Longrightarrow> tx_inv (rwnx_txq_offchan_deinit hw)"
    "tx_inv hw \<Longrightarrow> tx_inv (hw\<lparr>tbusy := on\<rparr>)"
  by (simp_all add: rwnx_txq_sta_deinit_def rwnx_txq_vif_deinit_def rwnx_txq_unk_vif_deinit_def rwnx_txq_offchan_deinit_def
      fold_deinit tx_inv_deinit)

lemma tx_inv_step: "tx_step orderly hw hw' \<Longrightarrow> orderly \<Longrightarrow> tx_inv hw \<Longrightarrow> tx_inv hw'"
  by (induction rule: tx_step.induct)
    (blast intro: tx_inv_start tx_inv_stop tx_inv_queue tx_inv_hwq_process tx_inv_process_all tx_inv_datacfm tx_inv_credit_update
      tx_inv_traffic_req tx_inv_adding tx_inv_sta_added tx_inv_sta_init tx_inv_sta tx_inv_note tx_inv_ps tx_inv_removed
      tx_inv_vif_init tx_inv_unk_init tx_inv_offchan_init tx_inv_switch)+

lemma reachable_inv: "tx_reachable True hw \<Longrightarrow> tx_inv hw"
  by (induction rule: tx_reachable.induct) (auto intro: tx_inv_boot tx_inv_step)

end
