(* ===== verification/TxProps.thy ===== *)
theory TxProps
  imports TxReach
begin

unbundle bit_operations_syntax

section \<open>Properties of the transmit path\<close>

text \<open>
  What holds of every state that an orderly run reaches: a sequence of calls, one after the other, in which
  no queue gets more retries than its counter of credits holds, no queue is set up again while it is in the
  list of its hardware queue, and no station is set up while it is flagged asleep (\<open>tx_step True\<close>; the code
  excludes none of the three, and it confirms frames on USB without the lock of the queues).  And what the entry points of the transmit
  path do in such a state: scheduling, order of the frames, power save, the way of a frame from the
  network stack to its queue; and a TDLS frame whose priority is not masked.
\<close>

subsection \<open>A small example\<close>

text \<open>One station has been added; one frame waits for it.\<close>

lemma sta_txq_init_at:
  assumes "\<not> is_multicast_sta (old_ic hw) s" and "t = s * NX_NB_TXQ_PER_STA + i" and "t < length (txqs hw)"
  shows "let q = txqs (sta_txq_init s st i hw) ! t in idx q = t \<and> status q = st \<and> credits q = NX_TXQ_INITIAL_CREDITS \<and>
    sk_list q = [] \<and> push_limit q = 0 \<and> q_sta q = Some s \<and> q_hwq q = rwnx_tid2hwq ! i"
  using assms by (simp add: sta_txq_init_def Let_def rwnx_txq_sta_get_def rwnx_txq_sta_idx_def rwnx_txq_init_def NX_NB_TXQ_PER_STA_def)

lemma sta_init_at:
  assumes l: "length (txqs hw) = NX_NB_TXQ" and s: "s < nx_remote_sta_max (old_ic hw)" and i: "i < NX_NB_TXQ_PER_STA"
  shows "let q = txqs (rwnx_txq_sta_init s st hw) ! (s * NX_NB_TXQ_PER_STA + i) in
    idx q = s * NX_NB_TXQ_PER_STA + i \<and> status q = st \<and> credits q = NX_TXQ_INITIAL_CREDITS \<and>
    sk_list q = [] \<and> push_limit q = 0 \<and> q_sta q = Some s \<and> q_hwq q = rwnx_tid2hwq ! i"
    (is "?P (txqs (rwnx_txq_sta_init s st hw) ! ?t)")
proof -
  have u: "\<not> is_multicast_sta (old_ic hw) s" using s by (simp add: is_multicast_sta_def)
  have "?P (txqs (fold (sta_txq_init s st) is hw') ! ?t)"
    if "i \<in> set is \<or> ?P (txqs hw' ! ?t)" "length (txqs hw') = NX_NB_TXQ" "old_ic hw' = old_ic hw" for "is" hw'
    using that
  proof (induction "is" arbitrary: hw')
    case (Cons j js)
    show ?case
    proof (cases "j = i")
      case True
      then have "?P (txqs (sta_txq_init s st j hw') ! ?t)"
        using sta_txq_init_at [of hw' s ?t i st] u Cons.prems unicast_layout(1) [OF s i] by simp
      then show ?thesis using Cons by simp
    next
      case False
      then have "txqs (sta_txq_init s st j hw') ! ?t = txqs hw' ! ?t"
        using sta_txq_init_other [of hw' s ?t j st] u Cons.prems by simp
      then show ?thesis using Cons False by auto
    qed
  qed simp
  then show ?thesis using i u l by (simp add: rwnx_txq_sta_init_def)
qed

lemma boot_simps [simp]:
  "txqs (tx_boot old) = replicate NX_NB_TXQ txq_boot" "old_ic (tx_boot old) = old"
  "tx_stas (tx_boot old) = replicate (NX_REMOTE_STA_MAX + NX_VIRT_DEVS) sta_boot" "length (hwqs (tx_boot old)) = NX_TXQ_CNT"
  "tbusy (tx_boot old) = False" "bus (tx_boot old) = []"
  by (simp_all add: tx_boot_def rwnx_hwq_init_def aicwf_usb_host_init_def)

definition ex_sta :: tx_hw where
  "ex_sta = rwnx_txq_sta_init 0 0 (tx_boot False)"

definition ex_buf :: tx_buf where
  "ex_buf = \<lparr>tb_id = 7, tb_sta = Some 0, tb_vif = 0, tb_mesh = False, tb_txq = 0, tb_hwq = 0, tb_flags = 0, tb_ethertype = 8,
     tb_eth = [], tb_staid = 0, tb_tid = 0, tb_fc = 0, tb_payload = [], frame_len = 0, need_cfm = False, raw_frame = False,
     fixed_rate = False, rate_config = 0, status_desc_addr = 0\<rparr>"

definition ex_frame :: tx_hw where
  "ex_frame = snd (rwnx_txq_queue_skb ex_buf 0 False ex_sta)"

lemma ex_sta_reachable: "tx_reachable True ex_sta"
  unfolding ex_sta_def
proof (rule tx_reachable.step [OF tx_reachable.boot tx_step.sta_init])
  show "\<forall>t\<in>set (qs_of (old_ic (tx_boot False)) 0). idle_txq t (tx_boot False)"
  proof
    fix t assume "t \<in> set (qs_of (old_ic (tx_boot False)) 0)"
    then have "t < NX_NB_TXQ" by (rule qs_of_length [rotated]) (simp add: sta_bound_def layout_defs)
    moreover have "\<not> ps_active (tx_stas (tx_boot False) ! s)" if "lay_sta False t = Some s" for s
      using lay_sta_bound [OF that] by (simp add: sta_boot_def sta_bound_def layout_defs)
    ultimately show "idle_txq t (tx_boot False)" by (simp add: idle_txq_def txq_boot_def in_list_def)
  qed
qed (simp_all add: layout_defs status_ok_def)

lemma ex_sta_simps:
  "length (txqs ex_sta) = NX_NB_TXQ" "idx (txqs ex_sta ! 0) = 0" "status (txqs ex_sta ! 0) = 0" "sk_list (txqs ex_sta ! 0) = []"
  "q_sta (txqs ex_sta ! 0) = Some 0" "q_hwq (txqs ex_sta ! 0) = RWNX_HWQ_BE" "credits (txqs ex_sta ! 0) = 64"
  "old_ic ex_sta = False" "tx_stas ex_sta = replicate (NX_REMOTE_STA_MAX + NX_VIRT_DEVS) sta_boot"
proof -
  show "length (txqs ex_sta) = NX_NB_TXQ" using reachable_inv [OF ex_sta_reachable] by (simp add: tx_inv_def rest_inv_def)
  show "idx (txqs ex_sta ! 0) = 0" "status (txqs ex_sta ! 0) = 0" "sk_list (txqs ex_sta ! 0) = []"
    "q_sta (txqs ex_sta ! 0) = Some 0" "q_hwq (txqs ex_sta ! 0) = RWNX_HWQ_BE" "credits (txqs ex_sta ! 0) = 64"
    using sta_init_at [of "tx_boot False" 0 0 0]
    by (simp_all add: ex_sta_def Let_def layout_defs rwnx_tid2hwq_def NX_TXQ_INITIAL_CREDITS_def)
  show "old_ic ex_sta = False" "tx_stas ex_sta = replicate (NX_REMOTE_STA_MAX + NX_VIRT_DEVS) sta_boot"
    by (simp_all add: ex_sta_def)
qed

lemma ex_frame_reachable: "tx_reachable True ex_frame"
  unfolding ex_frame_def
  by (rule tx_reachable.step [OF ex_sta_reachable tx_step.queue])
    (simp_all add: ex_sta_simps ex_buf_def layout_defs)

lemma ex_frame_queue:
  "length (txqs ex_frame) = NX_NB_TXQ" "idx (txqs ex_frame ! 0) = 0" "sk_list (txqs ex_frame ! 0) = [ex_buf]"
  "\<not> rwnx_txq_is_stopped (txqs ex_frame ! 0)"
proof -
  show "length (txqs ex_frame) = NX_NB_TXQ" using reachable_inv [OF ex_frame_reachable] by (simp add: tx_inv_def rest_inv_def)
  have n: "0 < length (txqs ex_sta)" unfolding ex_sta_simps by (simp add: layout_defs)
  have "txqs ex_frame = (txqs ex_sta)[0 := queued (tbusy ex_sta) ex_buf False (txqs ex_sta ! 0)]"
    unfolding ex_frame_def by (rule queue_txqs(1) [OF n])
  then have "txqs ex_frame ! 0 = queued (tbusy ex_sta) ex_buf False (txqs ex_sta ! 0)" using n by simp
  then show "idx (txqs ex_frame ! 0) = 0" "sk_list (txqs ex_frame ! 0) = [ex_buf]" "\<not> rwnx_txq_is_stopped (txqs ex_frame ! 0)"
    by (simp_all add: queued_def Let_def ex_sta_simps enqueue_def rwnx_txq_is_stopped_def status_bits RWNX_NDEV_FLOW_CTRL_STOP_def
        RWNX_TXQ_IN_HWQ_LIST_def RWNX_TXQ_STOP_eq)
qed

subsection \<open>What the queues guarantee\<close>

lemma scheduled_iff:
  assumes "tx_reachable True hw" and t: "t < length (txqs hw)"
  shows "t \<in> set (hlist (hwqs hw ! q_hwq (txqs hw ! t))) \<longleftrightarrow> in_list (txqs hw ! t)"
    "q_hwq (txqs hw ! t) < length (hwqs hw)"
proof -
  have i: "sched_ok hw" "q_ok (length (hwqs hw)) t (txqs hw ! t)"
    using reachable_inv [OF assms(1)] queues_at [OF _ t] by (simp_all add: tx_inv_def)
  show h: "q_hwq (txqs hw ! t) < length (hwqs hw)" using i(2) by (simp add: q_ok_def)
  note s = i(1) [unfolded sched_ok_def]
  show "t \<in> set (hlist (hwqs hw ! q_hwq (txqs hw ! t))) \<longleftrightarrow> in_list (txqs hw ! t)"
    using conjunct1 [OF s, rule_format, OF h] conjunct2 [OF s, rule_format, OF t] by blast
qed

lemma count_list_distinct: "distinct xs \<Longrightarrow> count_list xs x = (if x \<in> set xs then 1 else 0)"
  by (induction xs) auto





lemma ready_served:
  assumes "tx_reachable True hw" and "t < length (txqs hw)" and "idx (txqs hw ! t) \<noteq> TXQ_INACTIVE"
    and "sk_list (txqs hw ! t) \<noteq> []" and "\<not> rwnx_txq_is_stopped (txqs hw ! t)"
  shows "\<exists>hw' n. rwnx_hwq_process (q_hwq (txqs hw ! t)) hw = Inr hw' \<and> tx_reachable True hw' \<and> 0 < n \<and>
    sent t hw' = sent t hw @ take n (waiting t hw) \<and> waiting t hw' = List.drop n (waiting t hw)"
proof -
  let ?h = "q_hwq (txqs hw ! t)"
  have i: "sched_ok hw" "queues_ok hw" using reachable_inv [OF assms(1)] by (simp_all add: tx_inv_def)
  have "in_list (txqs hw ! t)"
    using queues_at [OF i(2) assms(2)] assms(3-5) by (simp add: q_ok_def active_ok_def)
  then have m: "t \<in> set (hlist (hwqs hw ! ?h))" "?h < length (hwqs hw)" using scheduled_iff [OF assms(1,2)] by simp_all
  obtain hw' where p: "rwnx_hwq_process ?h hw = Inr hw'" "processed hw hw'" "length (sent t hw) < length (sent t hw')"
    using hwq_process_ok [OF i m(2)] m(1) assms(3) by blast
  define n where "n = length (sent t hw') - length (sent t hw)"
  have e: "sent t hw' @ waiting t hw' = sent t hw @ waiting t hw" using p(2) by (simp add: processed_def)
  have "sent t hw' = take (length (sent t hw')) (sent t hw @ waiting t hw)" unfolding e [symmetric] by simp
  then have a: "sent t hw' = sent t hw @ take n (waiting t hw)" using p(3) by (simp add: n_def)
  then have "take n (waiting t hw) @ waiting t hw' = waiting t hw" using e by simp
  then have "waiting t hw' = List.drop n (waiting t hw)" by (metis append_take_drop_id same_append_eq)
  moreover have "0 < n" using p(3) by (simp add: n_def)
  moreover have "tx_reachable True hw'" by (rule tx_reachable.step [OF assms(1) tx_step.process [OF p(1)]])
  ultimately show ?thesis using p(1) a by blast
qed




definition ex_sleep :: tx_hw where
  "ex_sleep = fst (rwnx_ps_bh_enable 0 True ex_frame)"

lemma ex_sta_active: "t \<in> set (qs_of False 0) \<Longrightarrow> idx (txqs ex_sta ! t) = t"
  unfolding ex_sta_def by (rule sta_init_active) (simp_all add: layout_defs)

lemma ex_frame_simps:
  "old_ic ex_frame = False" "length (tx_stas ex_frame) = NX_REMOTE_STA_MAX + NX_VIRT_DEVS" "q_sta (txqs ex_frame ! 0) = Some 0"
  "t < NX_NB_TXQ \<Longrightarrow> idx (txqs ex_frame ! t) = idx (txqs ex_sta ! t)"
proof -
  have n: "0 < length (txqs ex_sta)" unfolding ex_sta_simps by (simp add: layout_defs)
  have q: "txqs ex_frame = (txqs ex_sta)[0 := queued (tbusy ex_sta) ex_buf False (txqs ex_sta ! 0)]"
    unfolding ex_frame_def by (rule queue_txqs(1) [OF n])
  have c: "calm (upd_txq 0 (enqueue ex_buf False) (count_ready 0 ex_sta)) ex_frame" unfolding ex_frame_def by (rule calm_queue)
  show "old_ic ex_frame = False" using c by (simp add: calm_def ex_sta_simps)
  show "length (tx_stas ex_frame) = NX_REMOTE_STA_MAX + NX_VIRT_DEVS" using calm_at(2) [OF c] by (simp add: ex_sta_simps)
  show "q_sta (txqs ex_frame ! 0) = Some 0" using calm_at(3) [OF c, of 0] n ex_sta_simps by simp
  show "t < NX_NB_TXQ \<Longrightarrow> idx (txqs ex_frame ! t) = idx (txqs ex_sta ! t)"
    using calm_at(3) [OF c, of t] ex_sta_simps(1) by (cases "t = 0") (simp_all add: upd_txq_nth)
qed

lemma ex_frame_sta: "tx_stas ex_frame ! 0 = sta_boot"
proof -
  have "tx_stas (snd (rwnx_txq_queue_skb b t False hw)) = tx_stas (count_ready t hw)" for b t hw
    by (simp add: rwnx_txq_queue_skb_def Let_def)
  then show ?thesis
    by (simp add: ex_frame_def count_ready_stas ex_sta_simps Let_def sta_boot_def layout_defs)
qed

lemma ex_frame_known:
  "sta_known (old_ic ex_frame) 0 (tx_stas ex_frame ! 0)"
  "\<forall>t\<in>set (qs_of (old_ic ex_frame) 0). idx (txqs ex_frame ! t) \<noteq> TXQ_INACTIVE"
proof -
  show "sta_known (old_ic ex_frame) 0 (tx_stas ex_frame ! 0)"
    by (simp add: sta_known_def ex_frame_simps sta_bound_def is_multicast_sta_def layout_defs)
  have "t < NX_NB_TXQ" if "t \<in> set (qs_of False 0)" for t
    by (rule qs_of_length [OF _ that]) (simp add: sta_bound_def layout_defs)
  then show "\<forall>t\<in>set (qs_of (old_ic ex_frame) 0). idx (txqs ex_frame ! t) \<noteq> TXQ_INACTIVE"
    using ex_sta_active index_active by (simp add: ex_frame_simps)
qed

lemma ex_sleep_reachable: "tx_reachable True ex_sleep"
  unfolding ex_sleep_def by (rule tx_reachable.step [OF ex_frame_reachable tx_step.ps [OF ex_frame_known]])

lemma ex_sleep_simps:
  "length (tx_stas ex_sleep) = NX_REMOTE_STA_MAX + NX_VIRT_DEVS" "ps_active (tx_stas ex_sleep ! 0)"
  "length (txqs ex_sleep) = NX_NB_TXQ" "idx (txqs ex_sleep ! 0) = 0" "q_sta (txqs ex_sleep ! 0) = Some 0"
  using ps_on_facts(1-3) [OF reachable_inv [OF ex_frame_reachable] ex_frame_known]
  by (simp_all add: ex_sleep_def rwnx_ps_bh_enable_def ex_frame_simps ex_frame_queue ex_sta_simps(2) NX_REMOTE_STA_MAX_def NX_NB_TXQ_def)


subsection \<open>The way of a frame\<close>

lemma queue_bus [simp]: "bus (snd (rwnx_txq_queue_skb b t retry hw)) = bus hw"
  by (simp add: rwnx_txq_queue_skb_def Let_def)

lemma queue_waiting:
  assumes "tx_reachable True hw" and "t < length (txqs hw)" and "idx (txqs hw ! t) \<noteq> TXQ_INACTIVE"
  shows "waiting t (snd (rwnx_txq_queue_skb b t False hw)) = waiting t hw @ [tb_id b]"
    "fst (rwnx_txq_queue_skb b t False hw) = (\<not> rwnx_txq_is_stopped (txqs (snd (rwnx_txq_queue_skb b t False hw)) ! t))"
    "rwnx_txq_is_stopped (txqs (snd (rwnx_txq_queue_skb b t False hw)) ! t) = rwnx_txq_is_stopped (txqs hw ! t)"
    "idx (txqs (snd (rwnx_txq_queue_skb b t False hw)) ! t) = idx (txqs hw ! t)"
    "sent t (snd (rwnx_txq_queue_skb b t False hw)) = sent t hw"
proof -
  have q: "txqs (snd (rwnx_txq_queue_skb b t False hw)) ! t = queued (tbusy hw) b False (txqs hw ! t)"
    using queue_txqs(1) [OF assms(2), of b False] assms(2) by simp
  show "waiting t (snd (rwnx_txq_queue_skb b t False hw)) = waiting t hw @ [tb_id b]"
    by (simp add: waiting_def q queued_def Let_def enqueue_def)
  show st: "rwnx_txq_is_stopped (txqs (snd (rwnx_txq_queue_skb b t False hw)) ! t) = rwnx_txq_is_stopped (txqs hw ! t)"
    by (simp add: q queued_def Let_def rwnx_txq_is_stopped_def status_bits)
  show "idx (txqs (snd (rwnx_txq_queue_skb b t False hw)) ! t) = idx (txqs hw ! t)"
    by (simp add: q queued_def Let_def)
  show "sent t (snd (rwnx_txq_queue_skb b t False hw)) = sent t hw" by (simp add: sent_def)
  show "fst (rwnx_txq_queue_skb b t False hw) = (\<not> rwnx_txq_is_stopped (txqs (snd (rwnx_txq_queue_skb b t False hw)) ! t))"
    using assms(2) unfolding st
    by (simp add: rwnx_txq_queue_skb_def Let_def flow_stop_txqs rwnx_txq_is_stopped_def status_bits)
qed

text \<open>Queueing a frame and sending what the queue may send.\<close>

definition passed_on :: "nat \<Rightarrow> nat list \<Rightarrow> tx_hw \<Rightarrow> tx_hw \<Rightarrow> bool" where
  "passed_on t new hw hw' \<longleftrightarrow>
     (\<exists>n. sent t hw' = sent t hw @ take n (waiting t hw @ new) \<and> waiting t hw' = List.drop n (waiting t hw @ new) \<and>
       (0 < n \<longleftrightarrow> \<not> rwnx_txq_is_stopped (txqs hw ! t)))"

lemma queue_and_process_ok:
  assumes r: "tx_reachable True hw" and t: "t < length (txqs hw)" and act: "idx (txqs hw ! t) \<noteq> TXQ_INACTIVE"
    and b: "tb_txq b = t" "tb_sta b = q_sta (txqs hw ! t)" "tb_id b \<notin> tb_id ` set (sk_list (txqs hw ! t))"
  shows "\<exists>hw'. queue_and_process b t hw = Inr hw' \<and> tx_reachable True hw' \<and> passed_on t [tb_id b] hw hw'"
proof -
  let ?hw1 = "snd (rwnx_txq_queue_skb b t False hw)"
  note q = queue_waiting [OF r t act, of b]
  have r1: "tx_reachable True ?hw1" by (rule tx_reachable.step [OF r tx_step.queue [OF t act b]])
  have i1: "tx_inv ?hw1" "tx_inv hw" using r r1 reachable_inv by auto
  have t1: "t < length (txqs ?hw1)" using t i1 by (simp add: tx_inv_def rest_inv_def)
  show ?thesis
  proof (cases "rwnx_txq_is_stopped (txqs hw ! t)")
    case True
    then have "queue_and_process b t hw = Inr ?hw1" using q(2,3) by (simp add: queue_and_process_def case_prod_unfold)
    moreover have "passed_on t [tb_id b] hw ?hw1" using q(1,5) True unfolding passed_on_def by (intro exI [of _ 0]) simp
    ultimately show ?thesis using r1 by blast
  next
    case False
    have "sk_list (txqs ?hw1 ! t) \<noteq> []" using q(1) by (auto simp: waiting_def)
    then obtain hw' n where p: "rwnx_hwq_process (q_hwq (txqs ?hw1 ! t)) ?hw1 = Inr hw'" "tx_reachable True hw'" "0 < n"
      "sent t hw' = sent t ?hw1 @ take n (waiting t ?hw1)" "waiting t hw' = List.drop n (waiting t ?hw1)"
      using ready_served [OF r1 t1] q(3,4) act False by metis
    have "queue_and_process b t hw = Inr hw'" using q(2,3) p(1) False by (simp add: queue_and_process_def case_prod_unfold)
    moreover have "passed_on t [tb_id b] hw hw'" unfolding passed_on_def using p(3-5) q(1,5) False by metis
    ultimately show ?thesis using p(2) by blast
  qed
qed

lemma unicast_map:
  assumes "s < nx_remote_sta_max old" and "q < NX_NB_TID_PER_STA"
  shows "NX_STA_NDEV_IDX q s \<noteq> nx_bcmc_txq_ndev_idx old" "NX_STA_NDEV_IDX q s div NX_NB_TID_PER_STA = s"
  using assms by (cases old; simp add: layout_defs)+

lemma returned_note:
  assumes "tx_reachable True hw"
  shows "tx_reachable True (upd_sta s (\<lambda>st. st\<lparr>last_tid := v\<rparr>) hw)"
  by (rule tx_reachable.step [OF assms tx_step.sta_note]) (simp add: s_stat_def)

lemma passed_on_cong: "txqs hw1 = txqs hw \<Longrightarrow> bus hw1 = bus hw \<Longrightarrow> passed_on t new hw1 hw' = passed_on t new hw hw'"
  by (simp add: passed_on_def sent_def waiting_def)


text \<open>An interface whose access point is the station 0.\<close>

definition ex_vif :: tx_vif where
  "ex_vif = \<lparr>v_index = 0, v_type = VIF_STATION, v_master = 0, v_ap = Some 0, v_tdls_sta = None, v_tdls_active = False,
     v_roc_tdls = False, v_sta_list = [], v_bcmc_index = 0, v_sta_4a = None, v_use_4addr = False, v_is_resending = False,
     v_perm_addr = [], v_proxies = [], v_mpaths = [], v_csa = None\<rparr>"


text \<open>The admission control of an access point.\<close>

lemma tid_of_category: "ac < 3 \<Longrightarrow> rwnx_tid2hwq ! (rwnx_down_hwq2tid ! ac) = ac \<and> rwnx_down_hwq2tid ! ac < 8"
  by (auto simp: less_Suc_eq numeral_3_eq_3 rwnx_down_hwq2tid_def rwnx_tid2hwq_def hwq_defs)

lemma downgrade_category:
  "rwnx_tid2hwq ! p = ac \<Longrightarrow> ac \<le> 3 \<Longrightarrow> p < 8 \<Longrightarrow>
   downgrade a ac p < 8 \<and> rwnx_tid2hwq ! downgrade a ac p \<le> ac \<and>
   (\<not> bit a (rwnx_tid2hwq ! downgrade a ac p) \<or> rwnx_tid2hwq ! downgrade a ac p = RWNX_HWQ_BK) \<and>
   (\<forall>c. rwnx_tid2hwq ! downgrade a ac p < c \<and> c \<le> ac \<longrightarrow> bit a c)"
proof (induction a ac p rule: downgrade.induct)
  case (1 a p)
  then show ?case by (simp add: rwnx_tid2hwq_def hwq_defs)
next
  case (2 a ac p)
  show ?case
  proof (cases "bit a (Suc ac)")
    case True
    then show ?thesis using 2 tid_of_category [of ac] by (auto simp: le_Suc_eq)
  qed (use 2 in auto)
qed

lemma downgrade_allowed:
  assumes "p < 8"
  shows "\<exists>p'. rwnx_downgrade_ac a p = Inr p' \<and> p' < 8 \<and> rwnx_tid2hwq ! p' \<le> rwnx_tid2hwq ! p \<and>
    (\<not> bit a (rwnx_tid2hwq ! p') \<or> rwnx_tid2hwq ! p' = RWNX_HWQ_BK) \<and>
    (\<forall>c. rwnx_tid2hwq ! p' < c \<and> c \<le> rwnx_tid2hwq ! p \<longrightarrow> bit a c)"
proof -
  have "p \<in> {0, 1, 2, 3, 4, 5, 6, 7}" using assms by auto
  then have "rwnx_tid2hwq ! p \<le> 3" by (auto simp: rwnx_tid2hwq_def hwq_defs)
  then show ?thesis
    using downgrade_category [OF refl _ assms, of a] assms by (simp add: rwnx_downgrade_ac_def) (simp add: rwnx_tid2hwq_def)
qed

text \<open>C30: admission control.  For a priority of the 802.1D classes \<open>rwnx_downgrade_ac\<close> returns; the access
  category of the result is the highest one, not above that of the frame, for which the access point does
  not demand admission, and background when it demands it for all of them.
\<close>

theorem downgrade_to_allowed_category:
  assumes "p < 8"
  shows "\<exists>p'. rwnx_downgrade_ac a p = Inr p' \<and> p' < 8 \<and> rwnx_tid2hwq ! p' \<le> rwnx_tid2hwq ! p \<and>
    (\<not> bit a (rwnx_tid2hwq ! p') \<or> rwnx_tid2hwq ! p' = RWNX_HWQ_BK) \<and>
    (\<forall>c. rwnx_tid2hwq ! p' < c \<and> c \<le> rwnx_tid2hwq ! p \<longrightarrow> bit a c)"
  by (rule downgrade_allowed [OF assms])

lemma downgrade_to_allowed_category_witness: "rwnx_downgrade_ac 0x0C 6 = Inr 3 \<and> (\<exists>p'. rwnx_downgrade_ac 0x0C 6 = Inr p' \<and> p' < 8)"
  using downgrade_to_allowed_category [of 6 "0x0C"]
  by (auto simp: rwnx_downgrade_ac_def rwnx_tid2hwq_def hwq_defs rwnx_down_hwq2tid_def numeral_3_eq_3)

text \<open>The station 0 with quality of service.\<close>

definition ex_qos :: tx_hw where
  "ex_qos = upd_sta 0 (\<lambda>st. st\<lparr>sta_qos := True\<rparr>) ex_frame"

lemma ex_qos_simps:
  "old_ic ex_qos = False" "txqs ex_qos = txqs ex_frame" "sta_qos (tx_stas ex_qos ! 0)" "acm (tx_stas ex_qos ! 0) = 0"
  "sta_known (old_ic ex_qos) 0 (tx_stas ex_qos ! 0)" "\<forall>t\<in>set (foreach_sta_txq 0 ex_qos). idx (txqs ex_qos ! t) \<noteq> TXQ_INACTIVE"
proof -
  have l: "0 < length (tx_stas ex_frame)" by (simp add: ex_frame_simps layout_defs)
  have f: "tx_stas ex_frame ! 0 = sta_boot" by (simp add: ex_frame_sta)
  show o: "old_ic ex_qos = False" and q: "txqs ex_qos = txqs ex_frame" by (simp_all add: ex_qos_def ex_frame_simps)
  show "sta_qos (tx_stas ex_qos ! 0)" "acm (tx_stas ex_qos ! 0) = 0"
    using l by (simp_all add: ex_qos_def upd_sta_nth f sta_boot_def)
  show k: "sta_known (old_ic ex_qos) 0 (tx_stas ex_qos ! 0)"
    by (simp add: sta_known_def o sta_bound_def is_multicast_sta_def layout_defs)
  show "\<forall>t\<in>set (foreach_sta_txq 0 ex_qos). idx (txqs ex_qos ! t) \<noteq> TXQ_INACTIVE"
    unfolding known_queues(1) [OF k] using ex_frame_known(2) by (simp add: o q ex_frame_simps)
qed

lemma ex_qos_reachable: "tx_reachable True ex_qos"
  unfolding ex_qos_def
  by (rule tx_reachable.step [OF ex_frame_reachable tx_step.sta_attr]) (simp add: ex_frame_sta sta_boot_def)

lemma ex_qos_select: "select_sta ex_vif d ex_qos = (Some 0, [])"
  by (simp add: select_sta_def ex_vif_def tdls_peer_def)

text \<open>The queue of the network interface for a queue of a station.\<close>

lemma station_queue:
  assumes r: "tx_reachable True hw" and k: "sta_known (old_ic hw) s (tx_stas hw ! s)"
    and act: "\<forall>t\<in>set (foreach_sta_txq s hw). idx (txqs hw ! t) \<noteq> TXQ_INACTIVE"
  shows "ndev_idx (txqs hw ! rwnx_txq_sta_get s tid hw) =
    (if is_multicast_sta (old_ic hw) s then nx_bcmc_txq_ndev_idx (old_ic hw)
     else if tid = 8 then NDEV_NO_TXQ else NX_STA_NDEV_IDX (if tid < 8 then tid else 0) s)"
proof -
  let ?t = "rwnx_txq_sta_get s tid hw"
  have i: "rest_inv hw" using reachable_inv [OF r] by (simp add: tx_inv_def)
  have t: "?t \<in> set (qs_of (old_ic hw) s)"
    using k by (simp add: qs_of_def rwnx_txq_sta_get_def rwnx_txq_sta_idx_def sta_known_def NX_NB_TXQ_PER_STA_def NX_NB_TID_PER_STA_def)
  have l: "?t < length (txqs hw)" using qs_of_length [OF _ t] k i by (simp add: sta_known_def rest_inv_def)
  have "ndev_idx (txqs hw ! ?t) = lay_ndev (old_ic hw) ?t"
    using i l act t known_queues(1) [OF k] by (simp add: rest_inv_def q_lay_def)
  also have "\<dots> = (if is_multicast_sta (old_ic hw) s then nx_bcmc_txq_ndev_idx (old_ic hw)
     else if tid = 8 then NDEV_NO_TXQ else NX_STA_NDEV_IDX (if tid < 8 then tid else 0) s)"
  proof (cases "is_multicast_sta (old_ic hw) s")
    case True
    then have "nx_first_vif_txq_idx (old_ic hw) \<le> ?t \<and> ?t < nx_first_unk_txq_idx (old_ic hw)"
      using t k by (cases "old_ic hw") (auto simp: qs_of_def sta_known_def sta_bound_def layout_defs is_multicast_sta_def)
    then show ?thesis using True by (simp add: lay_ndev_def)
  next
    case False
    define i where "i = (if NX_NB_TXQ_PER_STA \<le> tid then 0 else tid)"
    have "?t = s * NX_NB_TXQ_PER_STA + i" "i < NX_NB_TXQ_PER_STA"
      using False by (simp_all add: rwnx_txq_sta_get_def rwnx_txq_sta_idx_def i_def NX_NB_TXQ_PER_STA_def)
    moreover have "s < nx_remote_sta_max (old_ic hw)" using False by (simp add: is_multicast_sta_def)
    ultimately show ?thesis
      using False unicast_layout(3) [of s "old_ic hw" i]
      by (auto simp: lay_ndev_def i_def NX_NB_TXQ_PER_STA_def NX_NB_TID_PER_STA_def)
  qed
  finally show ?thesis .
qed

lemma ndev_bounds:
  assumes "sta_known old s st"
  shows "nx_bcmc_txq_ndev_idx old < NX_NB_NDEV_TXQ"
    "\<not> is_multicast_sta old s \<Longrightarrow> i < 8 \<Longrightarrow> NX_STA_NDEV_IDX i s < NX_NB_NDEV_TXQ"
  using assms by (cases old; simp add: layout_defs sta_known_def is_multicast_sta_def)+

text \<open>Reading the station back from the queue of the interface.\<close>

lemma priv_of_queue:
  assumes r: "tx_reachable True hw" and k: "sta_known (old_ic hw) s (tx_stas hw ! s)"
    and act: "\<forall>t\<in>set (foreach_sta_txq s hw). idx (txqs hw ! t) \<noteq> TXQ_INACTIVE"
    and m: "is_multicast_sta (old_ic hw) s \<Longrightarrow> s = nx_remote_sta_max (old_ic hw) + master_vif_idx vif"
    and p: "p < 8 \<or> p = 0xFF"
    and qi: "qi = ndev_idx (txqs hw ! rwnx_txq_sta_get s p hw)"
  shows "qi < NX_NB_NDEV_TXQ"
    "rwnx_get_tx_priv vif (skb\<lparr>sk_prio := p, sk_map := qi\<rparr>) hw = Inr (Some s, of_nat p)"
    "rwnx_txq_sta_get s (unat (of_nat p :: u8)) hw = rwnx_txq_sta_get s p hw"
proof -
  have i: "tx_inv hw" by (rule reachable_inv [OF r])
  have s: "s < length (tx_stas hw)" by (rule known_bound [OF i k])
  have n: "p \<noteq> PRIO_STA_NULL" "p \<noteq> 8" using p by (auto simp: PRIO_STA_NULL_def)
  note q = station_queue [OF r k act, of p, folded qi]
  show "qi < NX_NB_NDEV_TXQ" using q n ndev_bounds [OF k] p by auto
  show "rwnx_get_tx_priv vif (skb\<lparr>sk_prio := p, sk_map := qi\<rparr>) hw = Inr (Some s, of_nat p)"
  proof (cases "is_multicast_sta (old_ic hw) s")
    case True
    then show ?thesis using q n s m by (simp add: rwnx_get_tx_priv_def)
  next
    case False
    then have "s < nx_remote_sta_max (old_ic hw)" by (simp add: is_multicast_sta_def)
    then show ?thesis using q n s False unicast_map [of s "old_ic hw"] by (simp add: rwnx_get_tx_priv_def NX_NB_TID_PER_STA_def)
  qed
  show "rwnx_txq_sta_get s (unat (of_nat p :: u8)) hw = rwnx_txq_sta_get s p hw"
    using p by (auto simp: unat_of_nat)
qed

text \<open>C29: the choice of a queue can be read back.  When \<open>rwnx_select_txq\<close> has found the receiver \<open>s\<close> of a
  frame that is not a TDLS management frame, and \<open>s\<close> is a station with its queues in use, it returns a
  queue of the interface; and \<open>rwnx_get_tx_priv\<close>, which sees only that queue and the priority, gets \<open>s\<close> and
  a traffic class whose queue belongs to the queue of the interface.
\<close>

theorem selected_queue_names_receiver:
  assumes "tx_reachable True hw" and "select_sta vif (sk_data skb) hw = (Some s, reqs)"
    and "\<not> tdls_mgmt_frame vif (sk_data skb)" and "sta_known (old_ic hw) s (tx_stas hw ! s)"
    and "\<forall>t\<in>set (foreach_sta_txq s hw). idx (txqs hw ! t) \<noteq> TXQ_INACTIVE"
    and "is_multicast_sta (old_ic hw) s \<longrightarrow> s = nx_remote_sta_max (old_ic hw) + master_vif_idx vif"
  shows "\<exists>qi skb' tid. rwnx_select_txq classify vif skb hw = Inr (qi, skb', reqs) \<and> qi < NX_NB_NDEV_TXQ \<and>
    rwnx_get_tx_priv vif (skb'\<lparr>sk_map := qi\<rparr>) hw = Inr (Some s, tid) \<and>
    ndev_idx (txqs hw ! rwnx_txq_sta_get s (unat tid) hw) = qi"
proof -
  let ?q = "\<lambda>p. ndev_idx (txqs hw ! rwnx_txq_sta_get s p hw)"
  have m: "is_multicast_sta (old_ic hw) s \<Longrightarrow> s = nx_remote_sta_max (old_ic hw) + master_vif_idx vif" using assms(6) by simp
  have priv: "\<And>p. p < 8 \<or> p = 0xFF \<Longrightarrow> ?q p < NX_NB_NDEV_TXQ" "\<And>p. p < 8 \<or> p = 0xFF \<Longrightarrow> rwnx_get_tx_priv vif (skb\<lparr>sk_prio := p, sk_map := ?q p\<rparr>) hw = Inr (Some s, of_nat p)"
    "\<And>p. p < 8 \<or> p = 0xFF \<Longrightarrow> rwnx_txq_sta_get s (unat (of_nat p :: u8)) hw = rwnx_txq_sta_get s p hw"
    using priv_of_queue [OF assms(1,4,5) m _ refl] by blast+
  obtain p where p: "p < 8 \<or> p = 0xFF" "rwnx_select_txq classify vif skb hw = Inr (?q p, skb\<lparr>sk_prio := p\<rparr>, reqs)"
  proof (cases "sta_qos (tx_stas hw ! s)")
    case False
    then have "rwnx_select_txq classify vif skb hw = Inr (?q 0xFF, skb\<lparr>sk_prio := 0xFF\<rparr>, reqs)"
      using assms(2) priv(1) [of "0xFF"] by (simp add: rwnx_select_txq_def Let_def rwnx_txq_sta_get_def NX_NB_TXQ_PER_STA_def NX_NB_TID_PER_STA_def)
    then show thesis using that by blast
  next
    case True
    have c: "classify (sk_data skb) mod 8 < 8" by simp
    define p where "p = (if acm (tx_stas hw ! s) \<noteq> 0 then rwnx_downgrade_ac (acm (tx_stas hw ! s)) (classify (sk_data skb) mod 8)
      else Inr (classify (sk_data skb) mod 8))"
    obtain p' where p': "p = Inr p'" "p' < 8"
      using downgrade_allowed [OF c, of "acm (tx_stas hw ! s)"] c unfolding p_def by (cases "acm (tx_stas hw ! s) \<noteq> 0") auto
    have "rwnx_select_txq classify vif skb hw = Inr (?q p', skb\<lparr>sk_prio := p'\<rparr>, reqs)"
      using True assms(2,3) p' priv(1) [of p'] unfolding rwnx_select_txq_def Let_def p_def
      by (cases "acm (tx_stas hw ! s) = 0") auto
    then show thesis using that p'(2) by blast
  qed
  have "rwnx_get_tx_priv vif (skb\<lparr>sk_prio := p, sk_map := ?q p\<rparr>) hw = Inr (Some s, of_nat p)" by (rule priv(2) [OF p(1)])
  then show ?thesis using p priv(1,3) [OF p(1)] by (intro exI) (auto)
qed

lemma selected_queue_names_receiver_witness:
  "\<exists>qi skb' tid. rwnx_select_txq (\<lambda>_. 5) ex_vif \<lparr>sk_id = 1, sk_data = replicate 60 0, sk_prio = 0, sk_map = 0\<rparr> ex_qos = Inr (qi, skb', []) \<and>
    rwnx_get_tx_priv ex_vif (skb'\<lparr>sk_map := qi\<rparr>) ex_qos = Inr (Some 0, tid)"
proof -
  let ?skb = "\<lparr>sk_id = 1, sk_data = replicate 60 0, sk_prio = 0, sk_map = 0\<rparr> :: tx_skb"
  have "\<not> tdls_mgmt_frame ex_vif (sk_data ?skb)" by (simp add: tdls_mgmt_frame_def eth_h_proto_def ETH_P_TDLS_be_def)
  moreover have "\<not> is_multicast_sta (old_ic ex_qos) 0" by (simp add: ex_qos_simps is_multicast_sta_def layout_defs)
  ultimately show ?thesis
    using selected_queue_names_receiver [OF ex_qos_reachable ex_qos_select _ ex_qos_simps(5,6), of ?skb "\<lambda>_. 5"] by blast
qed

text \<open>C31: the priority of a TDLS management frame is taken as it is.  When it is 8, the frame is given to the
  management queue of the receiver, which has no queue of the interface, and the \<open>BUG_ON\<close> of
  \<open>rwnx_select_txq\<close> fires.
\<close>

theorem tdls_priority_bug:
  assumes "tx_reachable True hw" and "select_sta vif (sk_data skb) hw = (Some s, reqs)"
    and "tdls_mgmt_frame vif (sk_data skb)" and "sk_prio skb = 8"
    and "sta_known (old_ic hw) s (tx_stas hw ! s)" and "\<not> is_multicast_sta (old_ic hw) s"
    and "\<forall>t\<in>set (foreach_sta_txq s hw). idx (txqs hw ! t) \<noteq> TXQ_INACTIVE"
    and "sta_qos (tx_stas hw ! s)" and "acm (tx_stas hw ! s) = 0"
  shows "rwnx_select_txq classify vif skb hw = Inl Tx_bug"
  using assms station_queue [OF assms(1,5,7), of 8]
  by (simp add: rwnx_select_txq_def Let_def NX_NB_NDEV_TXQ_def NDEV_NO_TXQ_def NX_NB_TID_PER_STA_def NX_REMOTE_STA_MAX_def)

lemma tdls_priority_bug_witness:
  "rwnx_select_txq (\<lambda>_. 0) ex_vif \<lparr>sk_id = 1, sk_data = replicate 12 0 @ [0x89, 0x0D] @ replicate 40 0, sk_prio = 8, sk_map = 0\<rparr> ex_qos
     = Inl Tx_bug"
proof (rule tdls_priority_bug [OF ex_qos_reachable ex_qos_select])
  show "tdls_mgmt_frame ex_vif (sk_data \<lparr>sk_id = 1, sk_data = replicate 12 0 @ [0x89, 0x0D] @ replicate 40 0, sk_prio = 8, sk_map = 0\<rparr>)"
    by (simp add: tdls_mgmt_frame_def eth_h_proto_def ETH_P_TDLS_be_def ex_vif_def nth_append)
  show "\<not> is_multicast_sta (old_ic ex_qos) 0" by (simp add: ex_qos_simps is_multicast_sta_def layout_defs)
  show "sta_known (old_ic ex_qos) 0 (tx_stas ex_qos ! 0)" by (rule ex_qos_simps(5))
  show "\<forall>t\<in>set (foreach_sta_txq 0 ex_qos). idx (txqs ex_qos ! t) \<noteq> TXQ_INACTIVE" by (rule ex_qos_simps(6))
qed (simp_all add: ex_qos_simps(3,4))

end
