(* ===== verification/Spec2Isabelle.thy ===== *)
theory Spec2Isabelle
  imports TcpAck FrameQueue Serial Amsdu RxReorder CmdMgr RadarDetect Radar UserConfigFile RxDemux RxData TxProps
begin

text \<open>
  A verification library for the AIC8800 USB Wi-Fi driver.  The code is in
  \<open>src/aic8800-1.0.9/aic8800_fdrv\<close>; file names below are relative to it.

  \<^bold>\<open>The program.\<close>  The driver sits between the Linux network stack (net_device, cfg80211) and a full MAC
  firmware behind a USB bus.
  Received buffers of the bus are queued (\<open>aicwf_txrxif.c\<close>), cut into packets and dispatched: data frames
  go to \<open>rwnx_rxdataind_aicwf\<close> (\<open>rwnx_rx.c\<close>), which strips the 802.11 header, joins fragments, splits
  A-MSDUs and restores the order of the frames; confirmations of sent frames go to \<open>usb_host.c\<close>; messages
  go to the command manager (\<open>rwnx_cmds.c\<close>) and to handlers (\<open>rwnx_msg_rx.c\<close>).
  Frames to send pass the TCP ACK filter (\<open>aicwf_tcp_ack.c\<close>), are put into one of the queues of
  \<open>rwnx_txq.c\<close> by \<open>rwnx_tx.c\<close> and are handed to the bus when the hardware queue is processed.
  Commands to the firmware are serialised by the command manager.  Radar pulses of the firmware are searched
  for patterns (\<open>rwnx_radar.c\<close>).  A text file configures the transmit power (\<open>rwnx_platform.c\<close>).

  \<^bold>\<open>The build.\<close>  The model follows the compile-time options of \<open>Makefile\<close>: USB, full MAC, RX_REORDER,
  FILTER_TCP_ACK, RADAR, ARP_OFFLOAD, separate message endpoints, RWNX_BCMC (five hardware queues) and
  RX_NETIF_RECV_SKB are on; SDIO, USB aggregation, preallocated buffers, MU-MIMO, A-MSDU transmission, band
  steering, bridge support and beamforming are off.  Code for old kernels is left out.  The host is a 64-bit
  little-endian machine.

  \<^bold>\<open>The theories.\<close>
  \<^item> \<open>Prelude\<close>: the integer types, memory, lemmas on words, lists and multisets of buffers, the
    collections \<open>word_nat\<close> and \<open>conserve\<close>.
  \<^item> \<open>Serial\<close>: the locale \<open>serial_order\<close>, comparison of counters that wrap.  It is interpreted in
    \<open>RxReorder\<close> for the 12-bit sequence numbers, for jiffies and for TCP sequence numbers.
  \<^item> \<open>FrameQueue\<close>: \<open>struct frame_queue\<close> and \<open>struct rx_frame_queue\<close> of \<open>aicwf_txrxif.c\<close>.  The locale
    \<open>bounded_queue\<close> is the contract of a bounded FIFO; it is interpreted on both queues.  Over any run every
    accepted element is delivered in order, evicted or still queued exactly once.
  \<^item> \<open>RxDemux\<close>: \<open>aicwf_process_rxframes\<close> and \<open>aicwf_process_msg_rxframes\<close>.  A loop that never ends is \<open>None\<close>;
    an aggregate of complete packets is shown to be consumed completely.
  \<^item> \<open>Amsdu\<close>: \<open>rwnx_rxdata_process_amsdu\<close>; splitting is inverse to building an aggregate.
  \<^item> \<open>RxReorder\<close>: the reorder lists, their pool, timers and work items (\<open>reord_*\<close> of \<open>rwnx_rx.c\<close>) as a
    state machine with an invariant; frames are delivered in order, control blocks are conserved, waiting
    frames are released by the timer.
  \<^item> \<open>RxHdr\<close>, \<open>Radiotap\<close>: the receive descriptor as bit fields in memory, its conversion, the statistics,
    and the radiotap header of monitor interfaces, which is read back by an independent reader and stays
    within the length computed for it.
  \<^item> \<open>RxData\<close>: \<open>rwnx_rxdataind_aicwf\<close> and the list of fragments, on top of the theories above.
  \<^item> \<open>CmdMgr\<close>: \<open>rwnx_cmds.c\<close> and \<open>rwnx_send_msg\<close> as a state machine: the invariant of the queue, the outcomes
    of each operation, matching of confirmations, the encoding on the bus, and a lost wake-up.
  \<^item> \<open>RadarDetect\<close>, \<open>Radar\<close>: \<open>rwnx_radar.c\<close>: pattern search (regular pulse trains are detected, a detection has
    evidence, queues are bounded), the ring of pulses, reports and the channel availability check.
  \<^item> \<open>UserConfig\<close>, \<open>UserConfigFile\<close>: the configuration structure, its keys and the parser of the file.  The locale
    \<open>cell_store\<close> states that the cells of a structure are independent; it is interpreted on each structure.
  \<^item> \<open>TcpAck\<close>: the table of TCP flows and its timers as a state machine; no ACK is lost or released twice.
  \<^item> \<open>TxQueue\<close>: \<open>rwnx_txq.c\<close> and \<open>rwnx_tx_push\<close>: the table of queues, the lists of the hardware queues, credits,
    flow control, retries, service periods, and the processing loop with its termination and invariants.
  \<^item> \<open>TxPath\<close>: the entry points above the queues: choice of the queue, data and management frames,
    confirmations (\<open>usb_host.c\<close>), power save of the receivers and the firmware messages for it.
  \<^item> \<open>TxReach\<close>: these operations as the steps \<open>tx_step\<close> and the invariant of the reachable states.
  \<^item> \<open>TxProps\<close>: the properties of the transmit path.

  \<^bold>\<open>Correspondence.\<close>  A record or datatype stands for the C structure or enumeration of the same name; a function
  of the model has the name of the C function and returns the new state, with what the C function hands to
  other parts (frames to the network stack or to the bus, freed buffers, messages to the firmware) appended to
  lists of the state.  Pointers into tables are indices, pointers to buffers are identities.  A section under a
  lock is one atomic step.  Integers have their C width; a natural number stands for an \<open>int\<close> only where it is
  bounded by the code.  Faults are values: \<open>BUG_ON\<close>, NULL pointers and accesses outside a table are results of
  type \<open>tx_error\<close> or \<open>None\<close>.  Loops are recursive functions with a termination proof, or partial functions
  whose value \<open>None\<close> is a loop that does not end; no function takes fuel, so no bound has to be chosen.

  \<^bold>\<open>Parameters.\<close>  Functions of the kernel and of other drivers are arguments: \<open>classify\<close> (\<open>cfg80211_classify8021d\<close>),
  \<open>robust\<close> (\<open>ieee80211_is_robust_mgmt_frame\<close>), the success of allocations, the callbacks of messages.  Time is an
  argument of the operations that read jiffies.

  \<^bold>\<open>Guards of the transition relations.\<close>  The steps of \<open>tx_step\<close> have as guards what the callers see to: a queue is
  created only while it is not in use, power save is switched only for stations that have been added, the
  entry of the group address station of an interface is the one \<open>rwnx_get_tx_priv\<close> computes, a frame is in one
  queue at a time.  One guard is a condition that the code does not establish: a confirmation that asks for
  a retry is a step only while the credits of the queue are below 127.  Beyond it the signed counter
  overflows (\<open>rwnx_tx_retry\<close> adds a credit that \<open>rwnx_tx_push\<close> does not take), and the \<open>BUG_ON\<close> of
  \<open>rwnx_hwq_process\<close> fires.

  \<^bold>\<open>Not modelled.\<close>
  \<^item> The cfg80211 and net_device operations (\<open>rwnx_main.c\<close>), the builders and most handlers of firmware
    messages (\<open>rwnx_msg_tx.c\<close>, \<open>rwnx_msg_rx.c\<close>), TDLS frames: they copy fields between structures of the kernel
    and of the firmware, whose meaning is defined elsewhere.
  \<^item> USB transfers (\<open>aicwf_usb.c\<close>): submission and completion are the work of the USB core.
  \<^item> Firmware loading and patch tables, the regulatory database, module parameters: data and sequences of
    memory writes to the chip.
  \<^item> In the transmit path: injection on monitor interfaces, \<open>intf_tx\<close> (the steps of \<open>rwnx_start_xmit\<close> for a
    released ACK), statistics, DMA mappings.
  \<^item> In the radar part: the ring of debug records and the dumps for debugfs.
  \<^item> Debugfs, vendor and private commands, bridge support, band steering, other buses, scripts.
\<close>

end
